(* ===== verification/Core_Prelude.thy ===== *)
theory Core_Prelude
  imports Main "HOL-Library.Word" "HOL-Library.List_Lexorder"
begin

unbundle bit_operations_syntax

text \<open>
  The vocabulary shared by every component: Rust's machine integers, the fixed-size
  byte array \<^verbatim>\<open>[u8; 32]\<close>, the \<^verbatim>\<open>Result\<close> and \<^verbatim>\<open>?\<close> idiom, byte
  encodings of integers, and the part of Rust's \<^verbatim>\<open>str\<close> that the sources use.
\<close>

section \<open>Collections of facts\<close>

named_theorems result_simps \<open>the result type and the question-mark operator\<close>
named_theorems codec \<open>encodings: lengths, round trips, injectivity\<close>
named_theorems json_inj \<open>injectivity of the serde images\<close>

section \<open>Machine integers\<close>

type_synonym u8 = "8 word"
type_synonym u32 = "32 word"
type_synonym u64 = "64 word"

text \<open>\<^verbatim>\<open>u64::MAX\<close>.\<close>

definition u64_max :: u64 where
  "u64_max = - 1"

lemma le_u64_max [simp]: "(x :: u64) \<le> u64_max"
  by (simp add: u64_max_def)

text \<open>\<^verbatim>\<open>saturating_sub\<close> on unsigned words.\<close>

definition saturating_sub :: "'a::len word \<Rightarrow> 'a word \<Rightarrow> 'a word" where
  "saturating_sub a b = (if b \<le> a then a - b else 0)"

lemma unat_saturating_sub: "unat (saturating_sub a b) = unat a - unat b"
  by (auto simp: saturating_sub_def unat_sub word_le_nat_alt)

section \<open>Results\<close>

text \<open>
  \<^verbatim>\<open>Result<A, E>\<close> is the sum type with the error on the left. \<open>and_then\<close> is what
  the question mark does: stop at the first error.
\<close>

definition and_then :: "'e + 'a \<Rightarrow> ('a \<Rightarrow> 'e + 'b) \<Rightarrow> 'e + 'b" where
  "and_then m f = (case m of Inl e \<Rightarrow> Inl e | Inr a \<Rightarrow> f a)"

definition map_err :: "('e \<Rightarrow> 'f) \<Rightarrow> 'e + 'a \<Rightarrow> 'f + 'a" where
  "map_err g m = (case m of Inl e \<Rightarrow> Inl (g e) | Inr a \<Rightarrow> Inr a)"

definition ok_or :: "'a option \<Rightarrow> 'e \<Rightarrow> 'e + 'a" where
  "ok_or x e = (case x of None \<Rightarrow> Inl e | Some a \<Rightarrow> Inr a)"

definition is_ok :: "'e + 'a \<Rightarrow> bool" where
  "is_ok m = (case m of Inl _ \<Rightarrow> False | Inr _ \<Rightarrow> True)"

text \<open>\<^verbatim>\<open>unwrap_or(false)\<close>.\<close>

definition or_false :: "'e + bool \<Rightarrow> bool" where
  "or_false m = (case m of Inl _ \<Rightarrow> False | Inr b \<Rightarrow> b)"

lemma and_then_simps [simp, result_simps]:
  "and_then (Inl e) f = Inl e"
  "and_then (Inr a) f = f a"
  by (simp_all add: and_then_def)

lemma and_then_Inr_iff [result_simps]:
  "and_then m f = Inr b \<longleftrightarrow> (\<exists>a. m = Inr a \<and> f a = Inr b)"
  by (cases m) auto

lemma and_then_Inl_iff [result_simps]:
  "and_then m f = Inl e \<longleftrightarrow> m = Inl e \<or> (\<exists>a. m = Inr a \<and> f a = Inl e)"
  by (cases m) auto

lemma map_err_simps [simp, result_simps]:
  "map_err g (Inl e) = Inl (g e)"
  "map_err g (Inr a) = Inr a"
  by (simp_all add: map_err_def)

lemma map_err_Inr_iff [simp, result_simps]: "map_err g m = Inr a \<longleftrightarrow> m = Inr a"
  by (cases m) auto

lemma map_err_Inl_iff [result_simps]: "map_err g m = Inl e \<longleftrightarrow> (\<exists>e'. m = Inl e' \<and> e = g e')"
  by (cases m) auto

lemma ok_or_simps [simp, result_simps]:
  "ok_or None e = Inl e"
  "ok_or (Some a) e = Inr a"
  by (simp_all add: ok_or_def)

lemma ok_or_Inr_iff [simp, result_simps]: "ok_or x e = Inr a \<longleftrightarrow> x = Some a"
  by (cases x) auto

lemma is_ok_simps [simp, result_simps]:
  "\<not> is_ok (Inl e)"
  "is_ok (Inr a)"
  by (simp_all add: is_ok_def)

lemma is_ok_iff: "is_ok m \<longleftrightarrow> (\<exists>a. m = Inr a)"
  by (cases m) auto

lemma or_false_simps [simp, result_simps]:
  "\<not> or_false (Inl e)"
  "or_false (Inr b) = b"
  by (simp_all add: or_false_def)

lemma or_false_iff: "or_false m \<longleftrightarrow> m = Inr True"
  by (cases m) auto

section \<open>Fixed-size byte arrays\<close>

text \<open>
  \<^verbatim>\<open>[u8; 32]\<close>: the type of digests, map keys and key seeds. The length is part of the
  type, as in Rust, so no statement has to carry it.
\<close>

typedef bytes32 = "{bs :: u8 list. length bs = 32}"
  morphisms array_bytes Bytes32
  by (rule exI [of _ "replicate 32 0"]) simp

lemma bytes32_abstype [code abstype]: "Bytes32 (array_bytes d) = d"
  by (rule array_bytes_inverse)

text \<open>The array with the given bytes, cut or zero-padded to 32.\<close>

definition mk_bytes32 :: "u8 list \<Rightarrow> bytes32" where
  "mk_bytes32 bs = Bytes32 (take 32 (bs @ replicate 32 0))"

text \<open>\<^verbatim>\<open>try_into\<close> from a byte slice: it succeeds on exactly 32 bytes.\<close>

definition try_bytes32 :: "u8 list \<Rightarrow> bytes32 option" where
  "try_bytes32 bs = (if length bs = 32 then Some (mk_bytes32 bs) else None)"

type_synonym digest = bytes32

lemma length_array_bytes [simp, codec]: "length (array_bytes d) = 32"
  using array_bytes [of d] by simp

lemma array_bytes_mk [code abstract]:
  "array_bytes (mk_bytes32 bs) = take 32 (bs @ replicate 32 0)"
  by (simp add: mk_bytes32_def Bytes32_inverse)

lemma array_bytes_mk_exact [simp, codec]: "length bs = 32 \<Longrightarrow> array_bytes (mk_bytes32 bs) = bs"
  by (simp add: array_bytes_mk)

lemma mk_array_bytes [simp, codec]: "mk_bytes32 (array_bytes d) = d"
  by (simp add: array_bytes_inject [symmetric])

lemma array_bytes_eq_iff [simp, codec]: "array_bytes a = array_bytes b \<longleftrightarrow> a = b"
  by (rule array_bytes_inject)

lemma try_bytes32_array_bytes [simp, codec]: "try_bytes32 (array_bytes d) = Some d"
  by (simp add: try_bytes32_def)

lemma try_bytes32_Some_iff: "try_bytes32 bs = Some d \<longleftrightarrow> bs = array_bytes d"
  by (auto simp: try_bytes32_def)

lemma array_bytes_append_eq_iff [simp, codec]:
  "array_bytes a @ xs = array_bytes b @ ys \<longleftrightarrow> a = b \<and> xs = ys"
  by (simp add: append_eq_append_conv)

lemma array_bytes_nonempty [simp]: "array_bytes d \<noteq> []"
  using length_array_bytes [of d] by (metis list.size(3) zero_neq_numeral)

instantiation bytes32 :: equal
begin

definition equal_bytes32 :: "bytes32 \<Rightarrow> bytes32 \<Rightarrow> bool" where
  "equal_bytes32 a b \<longleftrightarrow> array_bytes a = array_bytes b"

instance
  by standard (simp add: equal_bytes32_def)

end

text \<open>
  Rust orders byte arrays lexicographically by unsigned bytes; the sorted key vector of
  the revocation map and its binary search rest on that order.
\<close>

instantiation bytes32 :: linorder
begin

definition less_eq_bytes32 :: "bytes32 \<Rightarrow> bytes32 \<Rightarrow> bool" where
  "less_eq_bytes32 a b \<longleftrightarrow> array_bytes a \<le> array_bytes b"

definition less_bytes32 :: "bytes32 \<Rightarrow> bytes32 \<Rightarrow> bool" where
  "less_bytes32 a b \<longleftrightarrow> array_bytes a < array_bytes b"

instance
  by standard (auto simp: less_eq_bytes32_def less_bytes32_def less_le)

end

section \<open>Integers as bytes\<close>

text \<open>\<^verbatim>\<open>to_be_bytes\<close> and \<^verbatim>\<open>to_le_bytes\<close>, byte by byte.\<close>

definition u32_be_bytes :: "u32 \<Rightarrow> u8 list" where
  "u32_be_bytes x = [ucast (drop_bit 24 x), ucast (drop_bit 16 x), ucast (drop_bit 8 x), ucast x]"

definition u32_le_bytes :: "u32 \<Rightarrow> u8 list" where
  "u32_le_bytes x = rev (u32_be_bytes x)"

definition u64_be_bytes :: "u64 \<Rightarrow> u8 list" where
  "u64_be_bytes x =
     [ucast (drop_bit 56 x), ucast (drop_bit 48 x), ucast (drop_bit 40 x), ucast (drop_bit 32 x),
      ucast (drop_bit 24 x), ucast (drop_bit 16 x), ucast (drop_bit 8 x), ucast x]"

text \<open>\<^verbatim>\<open>from_be_bytes\<close> and \<^verbatim>\<open>from_le_bytes\<close> of four bytes.\<close>

definition be_value :: "u8 list \<Rightarrow> nat" where
  "be_value bs = foldl (\<lambda>a b. 256 * a + unat b) 0 bs"

definition u32_from_be :: "u8 list \<Rightarrow> u32" where
  "u32_from_be bs = of_nat (be_value bs)"

definition u32_from_le :: "u8 list \<Rightarrow> u32" where
  "u32_from_le bs = u32_from_be (rev bs)"

lemma length_u32_be [simp, codec]: "length (u32_be_bytes x) = 4"
  by (simp add: u32_be_bytes_def)

lemma length_u32_le [simp, codec]: "length (u32_le_bytes x) = 4"
  by (simp add: u32_le_bytes_def)

lemma length_u64_be [simp, codec]: "length (u64_be_bytes x) = 8"
  by (simp add: u64_be_bytes_def)

lemma unat_byte_of [codec]:
  fixes x :: "'a::len word"
  assumes "8 \<le> LENGTH('a)"
  shows "unat (ucast x :: u8) = unat x mod 256"
  using assms by (simp add: unsigned_ucast_eq take_bit_eq_mod min_def)

lemma unat_byte_at [codec]:
  fixes x :: "'a::len word"
  assumes "8 \<le> LENGTH('a)"
  shows "unat (ucast (drop_bit n x) :: u8) = unat x div 2 ^ n mod 256"
  using assms by (simp add: unat_byte_of unat_drop_bit_eq flip: drop_bit_eq_div)

lemma be_value_snoc: "be_value (bs @ [b]) = 256 * be_value bs + unat b"
  by (simp add: be_value_def)

lemma base_256_step: "256 * (n div 2 ^ (k + 8)) + n div 2 ^ k mod 256 = (n div 2 ^ k :: nat)"
proof -
  have "n div 2 ^ (k + 8) = n div 2 ^ k div 256"
    by (simp add: power_add div_mult2_eq)
  then show ?thesis by simp
qed

lemma le_8_32: "8 \<le> LENGTH(32)" and le_8_64: "8 \<le> LENGTH(64)"
  by simp_all

lemma be_value_u32_be [codec]: "be_value (u32_be_bytes x) = unat x"
proof -
  have small: "unat x div 2 ^ 32 = 0"
    using unsigned_less [of x, where ?'a = nat] by simp
  have "be_value (u32_be_bytes x) =
    256 * (256 * (256 * (256 * (unat x div 2 ^ 32) + unat x div 2 ^ 24 mod 256) + unat x div 2 ^ 16 mod 256)
      + unat x div 2 ^ 8 mod 256) + unat x mod 256"
    by (simp only: be_value_def u32_be_bytes_def foldl.simps unat_byte_at [OF le_8_32])
      (simp only: unat_byte_of [OF le_8_32] small mult_0_right add_0)
  also have "\<dots> = unat x"
    using base_256_step [of "unat x" 24] base_256_step [of "unat x" 16]
      base_256_step [of "unat x" 8] base_256_step [of "unat x" 0] by simp
  finally show ?thesis .
qed

lemma be_value_u64_be [codec]: "be_value (u64_be_bytes x) = unat x"
proof -
  let ?n = "unat x"
  have small: "?n div 2 ^ 64 = 0"
    using unsigned_less [of x, where ?'a = nat] by simp
  have "be_value (u64_be_bytes x) =
    256 * (256 * (256 * (256 * (256 * (256 * (256 * (256 * (?n div 2 ^ 64) + ?n div 2 ^ 56 mod 256)
      + ?n div 2 ^ 48 mod 256) + ?n div 2 ^ 40 mod 256) + ?n div 2 ^ 32 mod 256)
      + ?n div 2 ^ 24 mod 256) + ?n div 2 ^ 16 mod 256) + ?n div 2 ^ 8 mod 256) + ?n mod 256"
    by (simp only: be_value_def u64_be_bytes_def foldl.simps unat_byte_at [OF le_8_64])
      (simp only: unat_byte_of [OF le_8_64] small mult_0_right add_0)
  also have "\<dots> = ?n"
    using base_256_step [of ?n 56] base_256_step [of ?n 48] base_256_step [of ?n 40]
      base_256_step [of ?n 32] base_256_step [of ?n 24] base_256_step [of ?n 16]
      base_256_step [of ?n 8] base_256_step [of ?n 0] by simp
  finally show ?thesis .
qed

lemma u32_from_be_be [simp, codec]: "u32_from_be (u32_be_bytes x) = x"
  by (simp add: u32_from_be_def be_value_u32_be)

lemma u32_from_le_le [simp, codec]: "u32_from_le (u32_le_bytes x) = x"
  by (simp add: u32_from_le_def u32_le_bytes_def)

lemma u32_be_bytes_inject [simp, codec]: "u32_be_bytes x = u32_be_bytes y \<longleftrightarrow> x = y"
  by (metis u32_from_be_be)

lemma u64_be_bytes_inject [simp, codec]: "u64_be_bytes x = u64_be_bytes y \<longleftrightarrow> x = y"
  by (metis be_value_u64_be unsigned_word_eqI)

lemma u64_be_append_eq_iff [simp, codec]:
  "u64_be_bytes x @ xs = u64_be_bytes y @ ys \<longleftrightarrow> x = y \<and> xs = ys"
  by (simp add: append_eq_append_conv)

lemma be_value_less: "be_value bs < 256 ^ length bs"
proof (induction bs rule: rev_induct)
  case Nil
  then show ?case by (simp add: be_value_def)
next
  case (snoc b bs)
  have "unat b < 256" using unsigned_less [of b, where ?'a = nat] by simp
  with snoc show ?case by (simp add: be_value_snoc)
qed

lemma be_value_inject [codec]:
  "length bs = length cs \<Longrightarrow> be_value bs = be_value cs \<longleftrightarrow> bs = cs"
proof (induction bs arbitrary: cs rule: rev_induct)
  case Nil
  then show ?case by simp
next
  case (snoc b bs)
  from snoc.prems obtain c ds where cs: "cs = ds @ [c]" and len: "length bs = length ds"
    by (cases cs rule: rev_cases) auto
  have bound: "unat b < 256" "unat c < 256"
    using unsigned_less [of b, where ?'a = nat] unsigned_less [of c, where ?'a = nat] by simp_all
  have "256 * x + unat b = 256 * y + unat c \<longleftrightarrow> x = y \<and> b = c" for x y
  proof
    assume "256 * x + unat b = 256 * y + unat c"
    then have "(256 * x + unat b) div 256 = (256 * y + unat c) div 256"
      and "(256 * x + unat b) mod 256 = (256 * y + unat c) mod 256" by simp_all
    then have "x = y" and "unat b = unat c" using bound by simp_all
    then show "x = y \<and> b = c" by (auto intro: unsigned_word_eqI)
  qed simp
  with snoc.IH [OF len] show ?case
    by (simp add: cs be_value_snoc)
qed

lemma u32_be_from_be [codec]: "length bs = 4 \<Longrightarrow> u32_be_bytes (u32_from_be bs) = bs"
proof -
  assume len: "length bs = 4"
  have "be_value bs < 2 ^ 32"
    using be_value_less [of bs] len by simp
  then have "be_value (u32_be_bytes (u32_from_be bs)) = be_value bs"
    by (simp add: be_value_u32_be u32_from_be_def unat_of_nat)
  with len show ?thesis
    by (simp add: be_value_inject)
qed

section \<open>Strings\<close>

text \<open>
  A Rust \<^verbatim>\<open>String\<close> is its UTF-8 bytes; a \<open>string\<close> here is that byte sequence, one
  \<open>char\<close> per byte, so \<open>length\<close> is Rust's \<^verbatim>\<open>len\<close> and \<open>str_bytes\<close> is
  \<^verbatim>\<open>as_bytes\<close>.
\<close>

definition str_bytes :: "string \<Rightarrow> u8 list" where
  "str_bytes s = map (\<lambda>c. of_nat (of_char c)) s"

lemma length_str_bytes [simp, codec]: "length (str_bytes s) = length s"
  by (simp add: str_bytes_def)

lemma unat_char_byte: "unat (of_nat (of_char c) :: u8) = of_char c"
  using nat_of_char_less_256 [of c] by (simp add: unat_of_nat)

lemma char_byte_inject: "(of_nat (of_char c) :: u8) = of_nat (of_char d) \<longleftrightarrow> c = d"
  by (metis of_char_eq_iff unat_char_byte)

lemma inj_str_bytes: "inj str_bytes"
  unfolding str_bytes_def
  by (rule inj_mapI) (auto simp: inj_on_def char_byte_inject)

lemma str_bytes_inject [simp, codec]: "str_bytes s = str_bytes t \<longleftrightarrow> s = t"
  by (rule inj_eq) (rule inj_str_bytes)

text \<open>
  \<^verbatim>\<open>trim().is_empty()\<close>: every character has the Unicode property White\_Space. In
  UTF-8 these are the bytes 9 to 13 and 32, the pairs C2 85 and C2 A0, and the triples
  E1 9A 80, E2 80 80 to 8A, E2 80 A8, E2 80 A9, E2 80 AF, E2 81 9F and E3 80 80.
\<close>

fun whitespace_only :: "u8 list \<Rightarrow> bool" where
  "whitespace_only [] = True"
| "whitespace_only (a # bs) =
     (if a = 32 \<or> (9 \<le> a \<and> a \<le> 13) then whitespace_only bs
      else case bs of
        [] \<Rightarrow> False
      | b # cs \<Rightarrow>
          (if a = 0xC2 \<and> (b = 0x85 \<or> b = 0xA0) then whitespace_only cs
           else case cs of
             [] \<Rightarrow> False
           | c # ds \<Rightarrow>
               (if (a = 0xE1 \<and> b = 0x9A \<and> c = 0x80) \<or>
                   (a = 0xE2 \<and> b = 0x80 \<and> ((0x80 \<le> c \<and> c \<le> 0x8A) \<or> c = 0xA8 \<or> c = 0xA9 \<or> c = 0xAF)) \<or>
                   (a = 0xE2 \<and> b = 0x81 \<and> c = 0x9F) \<or>
                   (a = 0xE3 \<and> b = 0x80 \<and> c = 0x80)
                then whitespace_only ds
                else False)))"

definition trim_is_empty :: "string \<Rightarrow> bool" where
  "trim_is_empty s = whitespace_only (str_bytes s)"

text \<open>\<^verbatim>\<open>format!("{}", n)\<close> of an unsigned integer, and \<^verbatim>\<open>{:02x}\<close> of a byte.\<close>

fun decimal :: "nat \<Rightarrow> string" where
  "decimal n = (if n < 10 then [char_of (48 + n)] else decimal (n div 10) @ [char_of (48 + n mod 10)])"

declare decimal.simps [simp del]

definition hex_digit :: "nat \<Rightarrow> char" where
  "hex_digit n = char_of (if n < 10 then 48 + n else 87 + n)"

definition hex_byte :: "u8 \<Rightarrow> string" where
  "hex_byte b = [hex_digit (unat b div 16), hex_digit (unat b mod 16)]"

lemma hex_digit_inject: "m < 16 \<Longrightarrow> n < 16 \<Longrightarrow> hex_digit m = hex_digit n \<longleftrightarrow> m = n"
  by (auto simp: hex_digit_def take_bit_eq_mod split: if_splits dest!: arg_cong [where f = "of_char :: char \<Rightarrow> nat"])

section \<open>Lists\<close>

lemma last_conv_nth_Suc: "xs \<noteq> [] \<Longrightarrow> last xs = xs ! (length xs - 1)"
  by (rule last_conv_nth)

lemma inj_onD_iff: "inj_on f A \<Longrightarrow> x \<in> A \<Longrightarrow> y \<in> A \<Longrightarrow> f x = f y \<longleftrightarrow> x = y"
  by (rule inj_on_eq_iff)

end
