(* ===== verification/Externals.thy ===== *)
theory Externals
  imports Core_Prelude
begin

text \<open>
  What the sources call and do not contain. The JSON value a serde derive produces is
  modelled as a tree (serde documents it); the text that \<^verbatim>\<open>serde_jcs\<close> makes of it,
  the hash functions, the two signature schemes and the base64 and hex codecs are
  parameters, gathered in one record that every definition using them takes as its first
  argument.
\<close>

section \<open>JSON values\<close>

datatype json =
    JNull
  | JBool bool
  | JNum nat
  | JStr string
  | JArr "json list"
  | JObj "(string \<times> json) list"

text \<open>
  serde's documented images: an integer is a number, a byte vector or byte array is an
  array of numbers, \<^verbatim>\<open>None\<close> is null, a vector is an array.
\<close>

definition bytes_json :: "u8 list \<Rightarrow> json" where
  "bytes_json bs = JArr (map (\<lambda>b. JNum (unat b)) bs)"

definition array_json :: "bytes32 \<Rightarrow> json" where
  "array_json d = bytes_json (array_bytes d)"

definition word_json :: "'a::len word \<Rightarrow> json" where
  "word_json w = JNum (unat w)"

definition option_json :: "('a \<Rightarrow> json) \<Rightarrow> 'a option \<Rightarrow> json" where
  "option_json f x = (case x of None \<Rightarrow> JNull | Some a \<Rightarrow> f a)"

definition list_json :: "('a \<Rightarrow> json) \<Rightarrow> 'a list \<Rightarrow> json" where
  "list_json f xs = JArr (map f xs)"

lemma word_json_inject [simp, json_inj]: "word_json a = word_json b \<longleftrightarrow> a = b"
  by (auto simp: word_json_def intro: unsigned_word_eqI)

lemma bytes_json_inject [simp, json_inj]: "bytes_json xs = bytes_json ys \<longleftrightarrow> xs = ys"
proof -
  have "inj (\<lambda>b :: u8. JNum (unat b))"
    by (rule injI) (auto intro: unsigned_word_eqI)
  then show ?thesis
    by (auto simp: bytes_json_def dest: map_injective)
qed

lemma array_json_inject [simp, json_inj]: "array_json a = array_json b \<longleftrightarrow> a = b"
  by (simp add: array_json_def)

lemma option_json_inject [json_inj]:
  assumes "\<And>a b. f a = f b \<longleftrightarrow> a = b" and "\<And>a. f a \<noteq> JNull"
  shows "option_json f x = option_json f y \<longleftrightarrow> x = y"
  using assms by (auto simp: option_json_def split: option.splits) metis+

lemma list_json_inject [json_inj]:
  assumes "\<And>a b. f a = f b \<longleftrightarrow> a = b"
  shows "list_json f xs = list_json f ys \<longleftrightarrow> xs = ys"
proof -
  have "inj f" using assms by (auto intro: injI)
  then show ?thesis by (auto simp: list_json_def dest: map_injective)
qed

section \<open>The third-party functions\<close>

text \<open>
  \<^item> \<open>blake3\<close>: the hash of the concatenated \<^verbatim>\<open>update\<close> calls;
  \<^item> \<open>jcs\<close>: RFC 8785 text of a JSON value (\<^verbatim>\<open>serde_jcs::to_vec\<close>), and \<open>json_parse\<close>,
    the \<^verbatim>\<open>serde_json\<close> reader;
  \<^item> \<open>ed_key_ok\<close> and \<open>ed_check\<close>: \<^verbatim>\<open>VerifyingKey::from_bytes\<close> succeeds on a 32-byte
    key, and \<^verbatim>\<open>verify\<close> accepts (key, payload, signature); \<open>ed_public\<close> and
    \<open>ed_raw_sign\<close>: the key and the signature of a seed;
  \<^item> the same for ML-DSA-87, whose key and signature lengths are constants of its crate
    and whose signing can fail with a message;
  \<^item> \<open>sha256\<close>, the two base64 alphabets and hex for the clients and services.
\<close>

record prims =
  blake3 :: "u8 list \<Rightarrow> digest"
  jcs :: "json \<Rightarrow> u8 list"
  json_parse :: "u8 list \<Rightarrow> json option"
  ed_key_ok :: "u8 list \<Rightarrow> bool"
  ed_check :: "u8 list \<Rightarrow> u8 list \<Rightarrow> u8 list \<Rightarrow> bool"
  ed_public :: "bytes32 \<Rightarrow> u8 list"
  ed_raw_sign :: "bytes32 \<Rightarrow> u8 list \<Rightarrow> u8 list"
  ml_pk_len :: nat
  ml_sig_len :: nat
  ml_key_ok :: "u8 list \<Rightarrow> bool"
  ml_check :: "u8 list \<Rightarrow> u8 list \<Rightarrow> u8 list \<Rightarrow> bool"
  ml_public :: "u8 list \<Rightarrow> u8 list"
  ml_raw_sign :: "u8 list \<Rightarrow> u8 list \<Rightarrow> string + u8 list"
  sha256 :: "u8 list \<Rightarrow> bytes32"
  b64_encode :: "u8 list \<Rightarrow> string"
  b64_decode :: "string \<Rightarrow> u8 list option"
  b64url_encode :: "u8 list \<Rightarrow> string"
  b64url_decode :: "string \<Rightarrow> u8 list option"
  hex_encode :: "u8 list \<Rightarrow> string"
  hex_decode :: "string \<Rightarrow> string + u8 list"

text \<open>
  A hash into 32 bytes has collisions, so no statement assumes that \<open>blake3\<close> is
  injective. Statements that need collision resistance name the finite set of messages a
  run hashes, and assume that no two of those collide.
\<close>

definition collision_free :: "prims \<Rightarrow> u8 list set \<Rightarrow> bool" where
  "collision_free P Q \<longleftrightarrow> inj_on (blake3 P) Q"

lemma collision_freeD:
  "collision_free P Q \<Longrightarrow> blake3 P x = blake3 P y \<Longrightarrow> x \<in> Q \<Longrightarrow> y \<in> Q \<Longrightarrow> x = y"
  by (simp add: collision_free_def inj_on_def)

lemma collision_free_mono: "collision_free P Q \<Longrightarrow> R \<subseteq> Q \<Longrightarrow> collision_free P R"
  unfolding collision_free_def by (rule inj_on_subset)

end
