(* ===== verification/Text.thy ===== *)
theory Text
  imports Externals
begin

text \<open>
  The operations of \<^verbatim>\<open>str\<close> the clients and services use: splitting, joining, lines and
  decimal numbers. A string is the sequence of its UTF-8 bytes, as everywhere here.
\<close>

definition nl :: char where
  "nl = CHR 0x0A"

definition cr :: char where
  "cr = CHR 0x0D"

section \<open>Splitting and joining\<close>

fun split_on :: "char \<Rightarrow> string \<Rightarrow> string list" where
  "split_on c [] = [[]]"
| "split_on c (x # xs) =
     (if x = c then [] # split_on c xs
      else (case split_on c xs of [] \<Rightarrow> [[x]] | l # ls \<Rightarrow> (x # l) # ls))"

fun join :: "string \<Rightarrow> string list \<Rightarrow> string" where
  "join sep [] = []"
| "join sep [l] = l"
| "join sep (l # m # ls) = l @ sep @ join sep (m # ls)"

text \<open>\<^verbatim>\<open>split_once\<close>, \<^verbatim>\<open>strip_prefix\<close> and \<^verbatim>\<open>position\<close>.\<close>

definition split_once :: "char \<Rightarrow> string \<Rightarrow> (string \<times> string) option" where
  "split_once c s =
     (if c \<in> set s then Some (takeWhile (\<lambda>x. x \<noteq> c) s, tl (dropWhile (\<lambda>x. x \<noteq> c) s)) else None)"

definition strip_prefix_str :: "string \<Rightarrow> string \<Rightarrow> string option" where
  "strip_prefix_str p s = (if take (length p) s = p then Some (drop (length p) s) else None)"

definition starts_with :: "string \<Rightarrow> string \<Rightarrow> bool" where
  "starts_with p s \<longleftrightarrow> take (length p) s = p"

definition position :: "('a \<Rightarrow> bool) \<Rightarrow> 'a list \<Rightarrow> nat option" where
  "position p xs = (let i = length (takeWhile (\<lambda>x. \<not> p x) xs) in if i < length xs then Some i else None)"

text \<open>\<^verbatim>\<open>lines()\<close>: a terminated line loses its line feed and one carriage return before it.\<close>

definition strip_cr :: "string \<Rightarrow> string" where
  "strip_cr l = (if l \<noteq> [] \<and> last l = cr then butlast l else l)"

definition str_lines :: "string \<Rightarrow> string list" where
  "str_lines s =
     (let ls = split_on nl s
      in map strip_cr (butlast ls) @ (if last ls = [] then [] else [last ls]))"

text \<open>\<^verbatim>\<open>trim()\<close>: without the longest white prefix and the longest white suffix.\<close>

definition trim_start :: "string \<Rightarrow> string" where
  "trim_start s = drop (last (filter (\<lambda>n. trim_is_empty (take n s)) [0..<Suc (length s)])) s"

definition trim_end :: "string \<Rightarrow> string" where
  "trim_end s = take (hd (filter (\<lambda>n. trim_is_empty (drop n s)) [0..<Suc (length s)])) s"

definition str_trim :: "string \<Rightarrow> string" where
  "str_trim s = trim_end (trim_start s)"

section \<open>Numbers\<close>

definition usize_bound :: nat where
  "usize_bound = 2 ^ 64"

fun parse_digits :: "nat \<Rightarrow> string \<Rightarrow> nat option" where
  "parse_digits acc [] = Some acc"
| "parse_digits acc (c # cs) =
     (let d = of_char c :: nat
      in if d < 48 \<or> 57 < d then None
         else if acc * 10 + (d - 48) < usize_bound then parse_digits (acc * 10 + (d - 48)) cs
         else None)"

text \<open>\<^verbatim>\<open>str::parse::<usize>\<close> takes an optional plus sign and leading zeros.\<close>

definition parse_usize :: "string \<Rightarrow> nat option" where
  "parse_usize s =
     (case s of
        [] \<Rightarrow> None
      | c # cs \<Rightarrow> if c = CHR ''+'' then (if cs = [] then None else parse_digits 0 cs) else parse_digits 0 s)"

section \<open>Facts\<close>

lemma split_on_nonempty [simp]: "split_on c s \<noteq> []"
  by (induction s) (auto split: list.splits)

lemma split_on_append: "c \<notin> set l \<Longrightarrow> split_on c (l @ c # s) = l # split_on c s"
  by (induction l) auto

lemma split_on_free: "c \<notin> set l \<Longrightarrow> split_on c l = [l]"
  by (induction l) auto

lemma split_on_lines: "\<forall>l \<in> set (split_on c s). c \<notin> set l"
  by (induction s) (auto split: list.splits)

text \<open>Lines that are all terminated.\<close>

definition unlines :: "string list \<Rightarrow> string" where
  "unlines ls = concat (map (\<lambda>l. l @ [nl]) ls)"

lemma unlines_simps [simp]:
  "unlines [] = []" "unlines (l # ls) = l @ nl # unlines ls" "unlines (ls @ ms) = unlines ls @ unlines ms"
  by (simp_all add: unlines_def)

lemma unlines_nil_iff [simp]: "unlines ls = [] \<longleftrightarrow> ls = []"
  by (cases ls) simp_all

lemma split_unlines: "\<forall>l \<in> set ls. nl \<notin> set l \<Longrightarrow> split_on nl (unlines ls @ t) = ls @ split_on nl t"
  by (induction ls) (simp_all add: split_on_append)

lemma unlines_split: "unlines (butlast (split_on nl s)) @ last (split_on nl s) = s"
  by (induction s) (auto simp: butlast.simps split: list.splits)

lemma join_unlines: "ls \<noteq> [] \<Longrightarrow> join [nl] ls @ [nl] = unlines ls"
  by (induction "[nl]" ls rule: join.induct) simp_all

lemma last_split_nil_iff: "last (split_on nl s) = [] \<longleftrightarrow> s = [] \<or> last s = nl"
proof -
  have "nl \<notin> set (last (split_on nl s))" using split_on_lines last_in_set split_on_nonempty by blast
  moreover have "last s = (if last (split_on nl s) = [] then nl else last (last (split_on nl s)))" if "s \<noteq> []"
    using that unlines_split [of s]
    by (metis append_is_Nil_conv last_appendR last_snoc rev_exhaust self_append_conv unlines_simps(1) unlines_simps(2)
        unlines_simps(3))
  ultimately show ?thesis by (metis last_in_set append_is_Nil_conv split_on.simps(1) last.simps)
qed

lemma str_lines_unlines: "\<forall>l \<in> set ls. nl \<notin> set l \<Longrightarrow> str_lines (unlines ls) = map strip_cr ls"
  using split_unlines [of ls "[]"] by (simp add: str_lines_def)

lemma position_Some_iff:
  "position p xs = Some i \<longleftrightarrow> i < length xs \<and> p (xs ! i) \<and> (\<forall>j < i. \<not> p (xs ! j))"
proof -
  let ?k = "length (takeWhile (\<lambda>x. \<not> p x) xs)"
  have before: "\<not> p (xs ! j)" if "j < ?k" for j
    using that by (metis nth_mem set_takeWhileD takeWhile_nth)
  have at: "p (xs ! ?k)" if "?k < length xs" using nth_length_takeWhile [OF that] by simp
  show ?thesis
    using before at by (auto simp: position_def Let_def) (metis linorder_neqE_nat order.strict_trans)+
qed

lemma position_append: "position p xs = Some i \<Longrightarrow> position p (xs @ ys) = Some i"
  by (auto simp: position_Some_iff nth_append)

lemma position_here: "\<forall>x \<in> set xs. \<not> p x \<Longrightarrow> p y \<Longrightarrow> position p (xs @ y # ys) = Some (length xs)"
  by (auto simp: position_Some_iff nth_append)

lemma split_once_first: "c \<notin> set a \<Longrightarrow> split_once c (a @ c # b) = Some (a, b)"
  by (induction a) (auto simp: split_once_def)

lemma split_once_iff: "split_once c s = Some (a, b) \<longleftrightarrow> s = a @ c # b \<and> c \<notin> set a"
proof
  assume *: "split_once c s = Some (a, b)"
  then have c: "c \<in> set s" and a: "a = takeWhile (\<lambda>x. x \<noteq> c) s" and b: "b = tl (dropWhile (\<lambda>x. x \<noteq> c) s)"
    by (auto simp: split_once_def split: if_splits)
  obtain x y where s: "s = x @ c # y" "c \<notin> set x" using split_list_first [OF c] by blast
  then have "split_once c s = Some (x, y)" by (simp add: split_once_first)
  with * s show "s = a @ c # b \<and> c \<notin> set a" by simp
qed (simp add: split_once_first)

lemma strip_prefix_append [simp]: "strip_prefix_str p (p @ s) = Some s"
  by (simp add: strip_prefix_str_def)

lemma strip_prefix_Some: "strip_prefix_str p s = Some t \<longleftrightarrow> s = p @ t"
  by (auto simp: strip_prefix_str_def split: if_splits) (metis append_take_drop_id)

lemma starts_with_append [simp]: "starts_with p (p @ s)"
  by (simp add: starts_with_def)

subsection \<open>Decimal numbers\<close>

lemma decimal_digits: "c \<in> set (decimal n) \<Longrightarrow> of_char c \<in> {48..57 :: nat}"
proof (induction n rule: decimal.induct)
  case (1 n)
  show ?case
    using 1 by (subst (asm) decimal.simps) (auto simp: take_bit_eq_mod split: if_splits)
qed

lemma decimal_nonempty [simp]: "decimal n \<noteq> []"
  by (subst decimal.simps) simp

lemma parse_digits_append:
  "parse_digits a (s @ t) = (case parse_digits a s of None \<Rightarrow> None | Some b \<Rightarrow> parse_digits b t)"
  by (induction s arbitrary: a) (auto simp: Let_def)

lemma parse_decimal: "n < usize_bound \<Longrightarrow> parse_digits 0 (decimal n) = Some n"
proof (induction n rule: decimal.induct)
  case (1 n)
  show ?case
  proof (cases "n < 10")
    case True
    then show ?thesis using 1(2) by (subst decimal.simps) (simp add: take_bit_eq_mod)
  next
    case False
    moreover have "n div 10 < usize_bound" using 1(2) by linarith
    moreover have "n div 10 * 10 + n mod 10 = n" by simp
    ultimately show ?thesis
      using 1 by (subst decimal.simps) (simp add: parse_digits_append take_bit_eq_mod Let_def)
  qed
qed

lemma parse_usize_decimal: "n < usize_bound \<Longrightarrow> parse_usize (decimal n) = Some n"
proof -
  assume n: "n < usize_bound"
  obtain c cs where d: "decimal n = c # cs" by (meson decimal_nonempty neq_Nil_conv)
  then have "c \<noteq> CHR ''+''" using decimal_digits [of c n] by auto
  then show ?thesis using parse_decimal [OF n] by (simp add: parse_usize_def d)
qed

lemma decimal_free: "of_char c \<notin> {48..57 :: nat} \<Longrightarrow> c \<notin> set (decimal n)"
  using decimal_digits by blast

lemma decimal_no_nl [simp]: "nl \<notin> set (decimal n)"
  by (rule decimal_free) (simp add: nl_def)

lemma decimal_strip_cr [simp]: "strip_cr (decimal n) = decimal n"
proof -
  have "cr \<notin> set (decimal n)" by (rule decimal_free) (simp add: cr_def)
  then have "last (decimal n) \<noteq> cr" by (metis decimal_nonempty last_in_set)
  then show ?thesis by (simp add: strip_cr_def)
qed

section \<open>Trimming\<close>

text \<open>A text whose first and last characters are ASCII and not white is its own trim.\<close>

definition solid :: "char \<Rightarrow> bool" where
  "solid c \<longleftrightarrow> (let b = of_char c :: nat in b < 128 \<and> b \<noteq> 32 \<and> \<not> (9 \<le> b \<and> b \<le> 13))"

definition white_byte :: "u8 \<Rightarrow> bool" where
  "white_byte b \<longleftrightarrow> 128 \<le> b \<or> b = 32 \<or> (9 \<le> b \<and> b \<le> 13)"

lemma solid_byte: "solid c \<Longrightarrow> \<not> white_byte (of_nat (of_char c))"
  unfolding solid_def white_byte_def Let_def word_le_nat_alt unat_char_byte
  using unat_char_byte [of c] by auto

lemma white_bytes: "whitespace_only bs \<Longrightarrow> bs \<noteq> [] \<Longrightarrow> white_byte (hd bs) \<and> white_byte (last bs)"
proof (induction bs rule: whitespace_only.induct)
  case rest: (2 a bs)
  show ?case
  proof (cases "a = 32 \<or> (9 \<le> a \<and> a \<le> 13)")
    case True
    with rest show ?thesis by (cases "bs = []") (auto simp: white_byte_def)
  next
    case False
    note one = False
    with rest.prems(1) obtain b cs where bs: "bs = b # cs" by (cases bs) auto
    show ?thesis
    proof (cases "a = 0xC2 \<and> (b = 0x85 \<or> b = 0xA0)")
      case True
      then have "white_byte a" "white_byte b" by (auto simp: white_byte_def)
      moreover have "cs \<noteq> [] \<Longrightarrow> white_byte (last cs)" using rest(2) [OF one bs True] rest.prems(1) one bs True by simp
      ultimately show ?thesis by (simp add: bs)
    next
      case False
      note two = False
      with rest.prems(1) one bs obtain c ds where cs: "cs = c # ds" by (cases cs) auto
      let ?three = "(a = 0xE1 \<and> b = 0x9A \<and> c = 0x80) \<or>
        (a = 0xE2 \<and> b = 0x80 \<and> ((0x80 \<le> c \<and> c \<le> 0x8A) \<or> c = 0xA8 \<or> c = 0xA9 \<or> c = 0xAF)) \<or>
        (a = 0xE2 \<and> b = 0x81 \<and> c = 0x9F) \<or> (a = 0xE3 \<and> b = 0x80 \<and> c = 0x80)"
      have step: "whitespace_only (a # bs) \<longleftrightarrow> ?three \<and> whitespace_only ds"
        using one two by (simp only: bs cs whitespace_only.simps list.case if_False if_True simp_thms split: if_split) simp
      with rest.prems(1) have three: ?three and ds: "whitespace_only ds" by simp_all
      from three have "white_byte a" "white_byte c" unfolding white_byte_def by (elim disjE conjE; simp)+
      moreover have "ds \<noteq> [] \<Longrightarrow> white_byte (last ds)" using rest(3) [OF one bs two cs three ds] by simp
      ultimately show ?thesis by (simp add: bs cs)
    qed
  qed
qed simp

lemma solid_not_white: "s \<noteq> [] \<Longrightarrow> solid (hd s) \<or> solid (last s) \<Longrightarrow> \<not> trim_is_empty s"
  using white_bytes [of "str_bytes s"] solid_byte
  unfolding trim_is_empty_def str_bytes_def by (auto simp: hd_map last_map)

lemma str_trim_solid:
  assumes "s \<noteq> []" and "solid (hd s)" and "solid (last s)"
  shows "str_trim s = s"
proof -
  have before: "trim_is_empty (take n s) \<longleftrightarrow> n = 0" for n
    using assms solid_not_white [of "take n s"] by (cases n) (auto simp: hd_take trim_is_empty_def str_bytes_def)
  have behind: "trim_is_empty (drop n s) \<longleftrightarrow> length s \<le> n" for n
    using assms solid_not_white [of "drop n s"] by (cases "n < length s") (auto simp: last_drop trim_is_empty_def str_bytes_def)
  have "filter (\<lambda>n. n = 0) [0..<Suc (length s)] = [0]"
    by (simp add: upt_conv_Cons del: upt_Suc)
  then have "trim_start s = s" by (simp add: trim_start_def before del: upt_Suc)
  moreover have "filter (\<lambda>n. length s \<le> n) [0..<Suc (length s)] = [length s]"
    by (simp add: filter_empty_conv)
  then have "trim_end s = s" by (simp add: trim_end_def behind del: upt_Suc)
  ultimately show ?thesis by (simp add: str_trim_def)
qed

end
