(* ===== verification/Crypto.thy ===== *)
theory Crypto
  imports Externals
begin

text \<open>
  The crate \<^verbatim>\<open>core/crypto\<close>: algorithm-tagged keys and signatures, the verification
  arms for Ed25519 and ML-DSA-87, the hybrid framing and verification, and the signers.
\<close>

section \<open>Data\<close>

datatype algorithm = Ed25519 | MlDsa87 | Hybrid

record public_key =
  pk_algorithm :: algorithm
  pk_bytes :: "u8 list"

record signature =
  sig_algorithm :: algorithm
  sig_bytes :: "u8 list"

datatype crypto_error =
    UnsupportedAlgorithm algorithm
  | AlgorithmMismatch algorithm algorithm
  | MalformedKey algorithm
  | MalformedSignature algorithm
  | MalformedFraming string
  | Signing string

text \<open>The derived \<^verbatim>\<open>Debug\<close> of an algorithm and the \<^verbatim>\<open>Display\<close> of an error.\<close>

fun algorithm_debug :: "algorithm \<Rightarrow> string" where
  "algorithm_debug Ed25519 = ''Ed25519''"
| "algorithm_debug MlDsa87 = ''MlDsa87''"
| "algorithm_debug Hybrid = ''Hybrid''"

fun crypto_error_string :: "crypto_error \<Rightarrow> string" where
  "crypto_error_string (UnsupportedAlgorithm a) = ''unsupported algorithm: '' @ algorithm_debug a"
| "crypto_error_string (AlgorithmMismatch s k) =
     ''algorithm mismatch: signature is '' @ algorithm_debug s @
     '' but public key is '' @ algorithm_debug k"
| "crypto_error_string (MalformedKey a) = ''malformed public key for '' @ algorithm_debug a"
| "crypto_error_string (MalformedSignature a) = ''malformed signature for '' @ algorithm_debug a"
| "crypto_error_string (MalformedFraming m) = ''malformed hybrid framing: '' @ m"
| "crypto_error_string (Signing m) = ''signing failed: '' @ m"

text \<open>serde: a unit variant is its name, a struct an object in field order.\<close>

definition algorithm_json :: "algorithm \<Rightarrow> json" where
  "algorithm_json a = JStr (algorithm_debug a)"

definition public_key_json :: "public_key \<Rightarrow> json" where
  "public_key_json k =
     JObj [(''algorithm'', algorithm_json (pk_algorithm k)), (''bytes'', bytes_json (pk_bytes k))]"

definition signature_json :: "signature \<Rightarrow> json" where
  "signature_json s =
     JObj [(''algorithm'', algorithm_json (sig_algorithm s)), (''bytes'', bytes_json (sig_bytes s))]"

section \<open>Ed25519 and ML-DSA-87\<close>

definition ed25519_verify :: "prims \<Rightarrow> u8 list \<Rightarrow> u8 list \<Rightarrow> u8 list \<Rightarrow> crypto_error + bool" where
  "ed25519_verify P payload sg key =
     (if length key \<noteq> 32 then Inl (MalformedKey Ed25519)
      else if \<not> ed_key_ok P key then Inl (MalformedKey Ed25519)
      else if length sg \<noteq> 64 then Inl (MalformedSignature Ed25519)
      else Inr (ed_check P key payload sg))"

definition mldsa_verify :: "prims \<Rightarrow> u8 list \<Rightarrow> u8 list \<Rightarrow> u8 list \<Rightarrow> crypto_error + bool" where
  "mldsa_verify P payload sg key =
     (if length key \<noteq> ml_pk_len P then Inl (MalformedKey MlDsa87)
      else if \<not> ml_key_ok P key then Inl (MalformedKey MlDsa87)
      else if length sg \<noteq> ml_sig_len P then Inl (MalformedSignature MlDsa87)
      else Inr (ml_check P key payload sg))"

section \<open>The hybrid framing\<close>

text \<open>Each component is a tag byte, a big-endian \<^verbatim>\<open>u32\<close> length and the payload.\<close>

definition tag_ed25519 :: u8 where "tag_ed25519 = 0"
definition tag_mldsa87 :: u8 where "tag_mldsa87 = 1"

fun algorithm_tag :: "algorithm \<Rightarrow> crypto_error + u8" where
  "algorithm_tag Ed25519 = Inr tag_ed25519"
| "algorithm_tag MlDsa87 = Inr tag_mldsa87"
| "algorithm_tag Hybrid = Inl (UnsupportedAlgorithm Hybrid)"

definition tag_algorithm :: "u8 \<Rightarrow> crypto_error + algorithm" where
  "tag_algorithm t =
     (if t = tag_ed25519 then Inr Ed25519
      else if t = tag_mldsa87 then Inr MlDsa87
      else Inl (MalformedFraming ''unknown component algorithm tag''))"

definition encode_component ::
  "u8 list \<Rightarrow> algorithm \<Rightarrow> u8 list \<Rightarrow> crypto_error + u8 list" where
  "encode_component out alg payload =
     and_then (algorithm_tag alg) (\<lambda>t.
       if length payload < 2 ^ 32
       then Inr (out @ [t] @ u32_be_bytes (of_nat (length payload)) @ payload)
       else Inl (MalformedFraming ''component too large''))"

definition frame_two ::
  "algorithm \<Rightarrow> u8 list \<Rightarrow> algorithm \<Rightarrow> u8 list \<Rightarrow> crypto_error + u8 list" where
  "frame_two alg0 payload0 alg1 payload1 =
     and_then (encode_component [] alg0 payload0) (\<lambda>out. encode_component out alg1 payload1)"

text \<open>\<^verbatim>\<open>usize\<close> has 64 bits; the overflow branch of \<^verbatim>\<open>checked_add\<close> is kept.\<close>

definition read_component :: "u8 list \<Rightarrow> crypto_error + (algorithm \<times> u8 list) \<times> u8 list" where
  "read_component input =
     (if length input < 5 then Inl (MalformedFraming ''truncated component header'')
      else and_then (tag_algorithm (input ! 0)) (\<lambda>alg.
        let len = unat (u32_from_be (take 4 (drop 1 input)));
            end_pos = 5 + len
        in if 2 ^ 64 \<le> end_pos then Inl (MalformedFraming ''component length overflow'')
           else if length input < end_pos then Inl (MalformedFraming ''truncated component payload'')
           else Inr ((alg, take len (drop 5 input)), drop end_pos input)))"

definition decode_two ::
  "u8 list \<Rightarrow> crypto_error + (algorithm \<times> u8 list) \<times> (algorithm \<times> u8 list)" where
  "decode_two input =
     and_then (read_component input) (\<lambda>(comp0, rest0).
     and_then (read_component rest0) (\<lambda>(comp1, rest1).
       if rest1 \<noteq> [] then Inl (MalformedFraming ''trailing bytes after two components'')
       else Inr (comp0, comp1)))"

section \<open>Verification\<close>

text \<open>
  The loop over the zipped components; \<open>vs\<close> is the call back into
  \<^verbatim>\<open>crate::verify_signature\<close>.
\<close>

fun hybrid_loop ::
  "(u8 list \<Rightarrow> signature \<Rightarrow> public_key \<Rightarrow> crypto_error + bool) \<Rightarrow> u8 list \<Rightarrow>
   ((algorithm \<times> u8 list) \<times> (algorithm \<times> u8 list)) list \<Rightarrow> bool \<Rightarrow> crypto_error + bool" where
  "hybrid_loop vs payload [] both_valid = Inr both_valid"
| "hybrid_loop vs payload (((sig_alg, sig_payload), (key_alg, key_payload)) # rest) both_valid =
     (if sig_alg \<noteq> key_alg then Inl (AlgorithmMismatch sig_alg key_alg)
      else and_then
        (vs payload \<lparr>sig_algorithm = sig_alg, sig_bytes = sig_payload\<rparr>
           \<lparr>pk_algorithm = key_alg, pk_bytes = key_payload\<rparr>)
        (\<lambda>valid. hybrid_loop vs payload rest (if \<not> valid then False else both_valid)))"

definition hybrid_verify ::
  "(u8 list \<Rightarrow> signature \<Rightarrow> public_key \<Rightarrow> crypto_error + bool) \<Rightarrow> u8 list \<Rightarrow>
   u8 list \<Rightarrow> u8 list \<Rightarrow> crypto_error + bool" where
  "hybrid_verify vs payload sg key =
     and_then (decode_two sg) (\<lambda>(s0, s1).
     and_then (decode_two key) (\<lambda>(k0, k1).
       hybrid_loop vs payload [(s0, k0), (s1, k1)] True))"

text \<open>A decoded component is never itself a hybrid, so the call back does not loop.\<close>

lemma tag_algorithm_not_hybrid [simp]: "tag_algorithm t \<noteq> Inr Hybrid"
  by (auto simp: tag_algorithm_def split: if_splits)

lemma read_component_not_hybrid: "read_component bs = Inr ((a, p), r) \<Longrightarrow> a \<noteq> Hybrid"
  by (auto simp: read_component_def and_then_Inr_iff Let_def split: if_splits)

lemma decode_two_not_hybrid:
  "decode_two bs = Inr ((a0, p0), (a1, p1)) \<Longrightarrow> a0 \<noteq> Hybrid \<and> a1 \<noteq> Hybrid"
  by (auto simp: decode_two_def and_then_Inr_iff split: if_splits
      dest: read_component_not_hybrid)

lemma hybrid_loop_cong:
  assumes "\<And>s k. sig_algorithm s \<noteq> Hybrid \<Longrightarrow> vs payload s k = vs' payload s k"
    and "\<forall>x \<in> set cs. fst (fst x) \<noteq> Hybrid"
  shows "hybrid_loop vs payload cs b = hybrid_loop vs' payload cs b"
  using assms(2)
proof (induction cs arbitrary: b)
  case Nil
  then show ?case by simp
next
  case (Cons c cs)
  obtain sa sp ka kp where c: "c = ((sa, sp), (ka, kp))" by (metis surj_pair)
  with Cons.prems have "sa \<noteq> Hybrid" by simp
  then have same: "vs payload \<lparr>sig_algorithm = sa, sig_bytes = sp\<rparr> k =
      vs' payload \<lparr>sig_algorithm = sa, sig_bytes = sp\<rparr> k" for k
    by (intro assms(1)) simp
  have "hybrid_loop vs payload cs b' = hybrid_loop vs' payload cs b'" for b'
    using Cons by simp
  then show ?case
    by (simp only: c hybrid_loop.simps same)
qed

lemma and_then_cong [fundef_cong]:
  "m = m' \<Longrightarrow> (\<And>a. m' = Inr a \<Longrightarrow> f a = g a) \<Longrightarrow> and_then m f = and_then m' g"
  by (cases m') auto

lemma hybrid_verify_cong [fundef_cong]:
  assumes "payload = payload'" and "sg = sg'" and "key = key'"
    and "\<And>s k. sig_algorithm s \<noteq> Hybrid \<Longrightarrow> vs payload' s k = vs' payload' s k"
  shows "hybrid_verify vs payload sg key = hybrid_verify vs' payload' sg' key'"
  unfolding hybrid_verify_def assms(1-3)
  by (auto intro!: and_then_cong hybrid_loop_cong assms(4) dest: decode_two_not_hybrid)

function verify_signature ::
  "prims \<Rightarrow> u8 list \<Rightarrow> signature \<Rightarrow> public_key \<Rightarrow> crypto_error + bool" where
  "verify_signature P payload s k =
     (if sig_algorithm s \<noteq> pk_algorithm k
      then Inl (AlgorithmMismatch (sig_algorithm s) (pk_algorithm k))
      else case sig_algorithm s of
        Ed25519 \<Rightarrow> ed25519_verify P payload (sig_bytes s) (pk_bytes k)
      | MlDsa87 \<Rightarrow> mldsa_verify P payload (sig_bytes s) (pk_bytes k)
      | Hybrid \<Rightarrow> hybrid_verify (verify_signature P) payload (sig_bytes s) (pk_bytes k))"
  by pat_completeness auto
termination
  by (relation "measure (\<lambda>(P, payload, s, k). if sig_algorithm s = Hybrid then 1 else 0)") auto

declare verify_signature.simps [simp del]

section \<open>Signers\<close>

text \<open>
  The trait \<^verbatim>\<open>Signer\<close> as a record of its three methods; the constructors build the
  implementations. Key generation draws a seed (or an ML-DSA secret) and is a constructor
  applied to it.
\<close>

record signer =
  sg_algorithm :: algorithm
  sg_public_key :: public_key
  sg_sign :: "u8 list \<Rightarrow> crypto_error + signature"

definition ed25519_from_seed :: "prims \<Rightarrow> bytes32 \<Rightarrow> signer" where
  "ed25519_from_seed P seed =
     \<lparr>sg_algorithm = Ed25519,
      sg_public_key = \<lparr>pk_algorithm = Ed25519, pk_bytes = ed_public P seed\<rparr>,
      sg_sign = (\<lambda>payload.
        Inr \<lparr>sig_algorithm = Ed25519, sig_bytes = ed_raw_sign P seed payload\<rparr>)\<rparr>"

text \<open>\<^verbatim>\<open>generate\<close>: the operating system's random bytes, or its failure.\<close>

definition ed25519_generate :: "prims \<Rightarrow> bytes32 option \<Rightarrow> crypto_error + signer" where
  "ed25519_generate P rng =
     and_then (ok_or rng (Signing ''ed25519 key generation: OS RNG failed''))
       (\<lambda>seed. Inr (ed25519_from_seed P seed))"

definition mldsa_signer :: "prims \<Rightarrow> u8 list \<Rightarrow> signer" where
  "mldsa_signer P sk =
     \<lparr>sg_algorithm = MlDsa87,
      sg_public_key = \<lparr>pk_algorithm = MlDsa87, pk_bytes = ml_public P sk\<rparr>,
      sg_sign = (\<lambda>payload.
        and_then (map_err Signing (ml_raw_sign P sk payload))
          (\<lambda>sg. Inr \<lparr>sig_algorithm = MlDsa87, sig_bytes = sg\<rparr>))\<rparr>"

definition mldsa_generate :: "prims \<Rightarrow> string + u8 list \<Rightarrow> crypto_error + signer" where
  "mldsa_generate P keygen =
     and_then (map_err Signing keygen) (\<lambda>sk. Inr (mldsa_signer P sk))"

definition hybrid_sign ::
  "signer \<Rightarrow> signer \<Rightarrow> u8 list \<Rightarrow> crypto_error + signature" where
  "hybrid_sign classical post_quantum payload =
     and_then (sg_sign classical payload) (\<lambda>c_sig.
     and_then (sg_sign post_quantum payload) (\<lambda>q_sig.
     and_then (frame_two (sig_algorithm c_sig) (sig_bytes c_sig)
                         (sig_algorithm q_sig) (sig_bytes q_sig)) (\<lambda>bytes.
       Inr \<lparr>sig_algorithm = Hybrid, sig_bytes = bytes\<rparr>)))"

definition hybrid_new :: "signer \<Rightarrow> signer \<Rightarrow> crypto_error + signer" where
  "hybrid_new classical post_quantum =
     (let c_pk = sg_public_key classical; q_pk = sg_public_key post_quantum
      in and_then (frame_two (pk_algorithm c_pk) (pk_bytes c_pk)
                             (pk_algorithm q_pk) (pk_bytes q_pk)) (\<lambda>bytes.
        Inr \<lparr>sg_algorithm = Hybrid,
             sg_public_key = \<lparr>pk_algorithm = Hybrid, pk_bytes = bytes\<rparr>,
             sg_sign = hybrid_sign classical post_quantum\<rparr>))"

section \<open>Injective images\<close>

lemma algorithm_json_inject [simp, json_inj]: "algorithm_json a = algorithm_json b \<longleftrightarrow> a = b"
  by (cases a; cases b) (simp_all add: algorithm_json_def)

lemma public_key_json_inject [simp, json_inj]: "public_key_json a = public_key_json b \<longleftrightarrow> a = b"
  by (cases a; cases b) (auto simp: public_key_json_def)

lemma signature_json_inject [simp, json_inj]: "signature_json a = signature_json b \<longleftrightarrow> a = b"
  by (cases a; cases b) (auto simp: signature_json_def)

lemma public_key_json_not_null [simp]: "public_key_json k \<noteq> JNull"
  by (simp add: public_key_json_def)

section \<open>Framing\<close>

lemma tag_algorithm_tag [codec]: "algorithm_tag a = Inr t \<longleftrightarrow> tag_algorithm t = Inr a"
  by (cases a) (auto simp: tag_algorithm_def tag_ed25519_def tag_mldsa87_def)

lemma read_component_encoded [codec]:
  assumes "encode_component out a p = Inr bs"
  obtains c where "bs = out @ c" and "\<forall>rest. read_component (c @ rest) = Inr ((a, p), rest)"
proof -
  from assms obtain t where t: "algorithm_tag a = Inr t" and len: "length p < 2 ^ 32"
    and bs: "bs = out @ [t] @ u32_be_bytes (of_nat (length p)) @ p"
    by (auto simp: encode_component_def and_then_Inr_iff split: if_splits)
  let ?c = "[t] @ u32_be_bytes (of_nat (length p)) @ p"
  have n: "unat (of_nat (length p) :: u32) = length p"
    using len by (simp add: unat_of_nat)
  have "drop (5 + length p) (?c @ rest) = rest" for rest
  proof -
    have "5 + length p = length ?c" by simp
    then show ?thesis by (metis append_eq_conv_conj)
  qed
  then have "read_component (?c @ rest) = Inr ((a, p), rest)" for rest
    using t len by (simp add: read_component_def tag_algorithm_tag n Let_def)
  with bs show thesis by (intro that) auto
qed

lemma encode_component_read [codec]:
  assumes "read_component bs = Inr ((a, p), rest)"
  obtains c where "\<forall>out. encode_component out a p = Inr (out @ c)" and "bs = c @ rest"
proof -
  let ?n = "unat (u32_from_be (take 4 (drop 1 bs)))"
  from assms have len: "5 \<le> length bs" and t: "tag_algorithm (bs ! 0) = Inr a"
    and p: "p = take ?n (drop 5 bs)" and rest: "rest = drop (5 + ?n) bs"
    and fits: "5 + ?n \<le> length bs"
    by (auto simp: read_component_def and_then_Inr_iff Let_def split: if_splits)
  have lp: "length p = ?n" using p fits by simp
  have small: "length p < 2 ^ 32"
    unfolding lp using unsigned_less [of "u32_from_be (take 4 (drop 1 bs))", where ?'a = nat] by simp
  have hdr: "u32_be_bytes (of_nat (length p)) = take 4 (drop 1 bs)"
    using len by (simp add: lp u32_be_from_be)
  have "bs = [bs ! 0] @ take 4 (drop 1 bs) @ drop 5 bs"
    using len by (cases bs) (simp_all add: drop_Cons')
  moreover have "drop 5 bs = p @ rest"
    unfolding p rest using append_take_drop_id [of ?n "drop 5 bs"] by (simp add: add.commute)
  ultimately have shape: "bs = [bs ! 0] @ take 4 (drop 1 bs) @ p @ rest"
    by simp
  show thesis
  proof (rule that)
    show "\<forall>out. encode_component out a p = Inr (out @ ([bs ! 0] @ take 4 (drop 1 bs) @ p))"
      using t small hdr by (simp add: encode_component_def tag_algorithm_tag [THEN iffD2])
    show "bs = ([bs ! 0] @ take 4 (drop 1 bs) @ p) @ rest"
      using shape by simp
  qed
qed

text \<open>Decoding inverts framing, and only framings decode.\<close>

lemma decode_two_iff [codec]:
  "decode_two bs = Inr ((a0, p0), (a1, p1)) \<longleftrightarrow> frame_two a0 p0 a1 p1 = Inr bs"
proof
  assume "decode_two bs = Inr ((a0, p0), (a1, p1))"
  then obtain r0 where 0: "read_component bs = Inr ((a0, p0), r0)"
    and 1: "read_component r0 = Inr ((a1, p1), [])"
    by (auto simp: decode_two_def and_then_Inr_iff split: if_splits)
  from 0 obtain c0 where "\<forall>out. encode_component out a0 p0 = Inr (out @ c0)" "bs = c0 @ r0"
    by (rule encode_component_read)
  moreover from 1 obtain c1 where "\<forall>out. encode_component out a1 p1 = Inr (out @ c1)" "r0 = c1 @ []"
    by (rule encode_component_read)
  ultimately show "frame_two a0 p0 a1 p1 = Inr bs"
    by (simp add: frame_two_def)
next
  assume "frame_two a0 p0 a1 p1 = Inr bs"
  then obtain out where 0: "encode_component [] a0 p0 = Inr out"
    and 1: "encode_component out a1 p1 = Inr bs"
    by (auto simp: frame_two_def and_then_Inr_iff)
  from 0 obtain c0 where "out = [] @ c0" "\<forall>r. read_component (c0 @ r) = Inr ((a0, p0), r)"
    by (rule read_component_encoded)
  moreover from 1 obtain c1 where "bs = out @ c1" "\<forall>r. read_component (c1 @ r) = Inr ((a1, p1), r)"
    by (rule read_component_encoded)
  moreover from this have "read_component c1 = Inr ((a1, p1), [])"
    by (metis append_Nil2)
  ultimately show "decode_two bs = Inr ((a0, p0), (a1, p1))"
    by (simp add: decode_two_def)
qed

lemma frame_two_inject [codec]:
  "frame_two a0 p0 a1 p1 = Inr bs \<Longrightarrow> frame_two b0 q0 b1 q1 = Inr bs \<Longrightarrow>
     a0 = b0 \<and> p0 = q0 \<and> a1 = b1 \<and> p1 = q1"
  by (simp flip: decode_two_iff)

lemma frame_two_ok_iff:
  "(\<exists>bs. frame_two a0 p0 a1 p1 = Inr bs) \<longleftrightarrow>
     a0 \<noteq> Hybrid \<and> a1 \<noteq> Hybrid \<and> length p0 < 2 ^ 32 \<and> length p1 < 2 ^ 32"
  by (cases a0; cases a1) (auto simp: frame_two_def encode_component_def and_then_Inr_iff)

section \<open>What verification accepts\<close>

lemma verify_signature_mismatch [simp]:
  "sig_algorithm s \<noteq> pk_algorithm k \<Longrightarrow>
     verify_signature P m s k = Inl (AlgorithmMismatch (sig_algorithm s) (pk_algorithm k))"
  by (simp add: verify_signature.simps)

lemma verify_signature_same_algorithm:
  "verify_signature P m s k = Inr b \<Longrightarrow> sig_algorithm s = pk_algorithm k"
  by (rule ccontr) simp

lemma verify_signature_arms [simp]:
  "verify_signature P m \<lparr>sig_algorithm = Ed25519, sig_bytes = sg\<rparr> \<lparr>pk_algorithm = Ed25519, pk_bytes = k\<rparr> =
     ed25519_verify P m sg k"
  "verify_signature P m \<lparr>sig_algorithm = MlDsa87, sig_bytes = sg\<rparr> \<lparr>pk_algorithm = MlDsa87, pk_bytes = k\<rparr> =
     mldsa_verify P m sg k"
  "verify_signature P m \<lparr>sig_algorithm = Hybrid, sig_bytes = sg\<rparr> \<lparr>pk_algorithm = Hybrid, pk_bytes = k\<rparr> =
     hybrid_verify (verify_signature P) m sg k"
  by (simp_all add: verify_signature.simps)

text \<open>
  A decoded pair is accepted exactly when both components are; a structural error in
  either is an error of the whole.
\<close>

lemma hybrid_verify_decoded:
  assumes "decode_two sg = Inr ((a0, s0), (a1, s1))" and "decode_two key = Inr ((b0, k0), (b1, k1))"
  shows "hybrid_verify (verify_signature P) m sg key =
    and_then (verify_signature P m \<lparr>sig_algorithm = a0, sig_bytes = s0\<rparr> \<lparr>pk_algorithm = b0, pk_bytes = k0\<rparr>)
      (\<lambda>v0. and_then (verify_signature P m \<lparr>sig_algorithm = a1, sig_bytes = s1\<rparr> \<lparr>pk_algorithm = b1, pk_bytes = k1\<rparr>)
        (\<lambda>v1. Inr (v0 \<and> v1)))"
proof -
  have step: "and_then x (\<lambda>v. if \<not> v then f False else f True) = and_then x f"
    for x :: "crypto_error + bool" and f :: "bool \<Rightarrow> crypto_error + bool"
    by (cases x) auto
  show ?thesis
    using assms by (cases "a0 = b0"; cases "a1 = b1") (auto simp: hybrid_verify_def intro!: and_then_cong split: if_splits)
qed

definition hybrid_accepts :: "prims \<Rightarrow> u8 list \<Rightarrow> u8 list \<Rightarrow> u8 list \<Rightarrow> bool" where
  "hybrid_accepts P m sg key \<longleftrightarrow>
     (\<exists>a0 s0 k0 a1 s1 k1.
        frame_two a0 s0 a1 s1 = Inr sg \<and> frame_two a0 k0 a1 k1 = Inr key \<and>
        verify_signature P m \<lparr>sig_algorithm = a0, sig_bytes = s0\<rparr> \<lparr>pk_algorithm = a0, pk_bytes = k0\<rparr> = Inr True \<and>
        verify_signature P m \<lparr>sig_algorithm = a1, sig_bytes = s1\<rparr> \<lparr>pk_algorithm = a1, pk_bytes = k1\<rparr> = Inr True)"

lemma hybrid_verify_accepts_iff:
  "hybrid_verify (verify_signature P) m sg key = Inr True \<longleftrightarrow> hybrid_accepts P m sg key"
proof
  assume ok: "hybrid_verify (verify_signature P) m sg key = Inr True"
  then obtain a0 s0 a1 s1 b0 k0 b1 k1
    where s: "decode_two sg = Inr ((a0, s0), (a1, s1))" and k: "decode_two key = Inr ((b0, k0), (b1, k1))"
    by (auto simp: hybrid_verify_def and_then_Inr_iff)
  from ok have
    "verify_signature P m \<lparr>sig_algorithm = a0, sig_bytes = s0\<rparr> \<lparr>pk_algorithm = b0, pk_bytes = k0\<rparr> = Inr True"
    "verify_signature P m \<lparr>sig_algorithm = a1, sig_bytes = s1\<rparr> \<lparr>pk_algorithm = b1, pk_bytes = k1\<rparr> = Inr True"
    by (auto simp: hybrid_verify_decoded [OF s k] and_then_Inr_iff)
  moreover from this have "b0 = a0" "b1 = a1"
    by (auto dest!: verify_signature_same_algorithm)
  ultimately show "hybrid_accepts P m sg key"
    using s k unfolding hybrid_accepts_def decode_two_iff by blast
next
  assume "hybrid_accepts P m sg key"
  then show "hybrid_verify (verify_signature P) m sg key = Inr True"
    by (auto simp: hybrid_accepts_def hybrid_verify_decoded simp flip: decode_two_iff)
qed

section \<open>The signer contract\<close>

text \<open>
  What the layers above rely on in a signer: for a good key, signing succeeds on every
  payload and the signature verifies under the signer's public key.
\<close>

definition signer_ok :: "prims \<Rightarrow> signer \<Rightarrow> bool" where
  "signer_ok P s \<longleftrightarrow>
     (\<forall>m. \<exists>sg. sg_sign s m = Inr sg \<and> verify_signature P m sg (sg_public_key s) = Inr True)"

locale signer_contract =
  fixes P :: prims and mk :: "'k \<Rightarrow> signer" and good :: "'k \<Rightarrow> bool"
  assumes signs: "good k \<Longrightarrow>
    \<exists>sg. sg_sign (mk k) m = Inr sg \<and> verify_signature P m sg (sg_public_key (mk k)) = Inr True"
begin

lemma ok: "good k \<Longrightarrow> signer_ok P (mk k)"
  using signs by (simp add: signer_ok_def)

lemma signature_algorithm:
  "good k \<Longrightarrow> sg_sign (mk k) m = Inr sg \<Longrightarrow> sig_algorithm sg = pk_algorithm (sg_public_key (mk k))"
  using signs [of k m] by (auto dest: verify_signature_same_algorithm)

lemma never_fails: "good k \<Longrightarrow> is_ok (sg_sign (mk k) m)"
  using signs [of k m] by (auto simp: is_ok_iff)

end

text \<open>
  Good keys of the three implementations. For the two primitive schemes this is the
  documented behaviour of their crates: keys and signatures have their fixed lengths and
  a signature made with the secret verifies under the matching public key. A hybrid is
  good when its components are good non-hybrids that fit the framing.
\<close>

definition ed_good :: "prims \<Rightarrow> bytes32 \<Rightarrow> bool" where
  "ed_good P seed \<longleftrightarrow>
     length (ed_public P seed) = 32 \<and> ed_key_ok P (ed_public P seed) \<and>
     (\<forall>m. length (ed_raw_sign P seed m) = 64 \<and> ed_check P (ed_public P seed) m (ed_raw_sign P seed m))"

definition mldsa_good :: "prims \<Rightarrow> u8 list \<Rightarrow> bool" where
  "mldsa_good P sk \<longleftrightarrow>
     length (ml_public P sk) = ml_pk_len P \<and> ml_key_ok P (ml_public P sk) \<and>
     (\<forall>m. \<exists>sg. ml_raw_sign P sk m = Inr sg \<and> length sg = ml_sig_len P \<and>
        ml_check P (ml_public P sk) m sg)"

definition fits_frame :: "signer \<Rightarrow> bool" where
  "fits_frame s \<longleftrightarrow>
     pk_algorithm (sg_public_key s) \<noteq> Hybrid \<and> length (pk_bytes (sg_public_key s)) < 2 ^ 32 \<and>
     (\<forall>m sg. sg_sign s m = Inr sg \<longrightarrow> length (sig_bytes sg) < 2 ^ 32)"

definition hybrid_good :: "prims \<Rightarrow> signer \<times> signer \<times> signer \<Rightarrow> bool" where
  "hybrid_good P = (\<lambda>(c, q, h).
     hybrid_new c q = Inr h \<and> signer_ok P c \<and> signer_ok P q \<and> fits_frame c \<and> fits_frame q)"

lemma signer_okE:
  assumes "signer_ok P s"
  obtains sg where "sg_sign s m = Inr sg" "verify_signature P m sg (sg_public_key s) = Inr True"
    "sig_algorithm sg = pk_algorithm (sg_public_key s)"
  using assms by (auto simp: signer_ok_def dest: verify_signature_same_algorithm)

lemma hybrid_new_signs:
  assumes new: "hybrid_new c q = Inr h"
    and c: "signer_ok P c" "fits_frame c" and q: "signer_ok P q" "fits_frame q"
  shows "\<exists>sg. sg_sign h m = Inr sg \<and> verify_signature P m sg (sg_public_key h) = Inr True"
proof -
  let ?ck = "sg_public_key c" and ?qk = "sg_public_key q"
  from new obtain kb where kb: "frame_two (pk_algorithm ?ck) (pk_bytes ?ck) (pk_algorithm ?qk) (pk_bytes ?qk) = Inr kb"
    and h: "h = \<lparr>sg_algorithm = Hybrid, sg_public_key = \<lparr>pk_algorithm = Hybrid, pk_bytes = kb\<rparr>,
       sg_sign = hybrid_sign c q\<rparr>"
    by (auto simp: hybrid_new_def and_then_Inr_iff Let_def)
  from c(1) obtain cs where cs: "sg_sign c m = Inr cs" "verify_signature P m cs ?ck = Inr True"
    "sig_algorithm cs = pk_algorithm ?ck" by (rule signer_okE)
  from q(1) obtain qs where qs: "sg_sign q m = Inr qs" "verify_signature P m qs ?qk = Inr True"
    "sig_algorithm qs = pk_algorithm ?qk" by (rule signer_okE)
  obtain sb where sb: "frame_two (pk_algorithm ?ck) (sig_bytes cs) (pk_algorithm ?qk) (sig_bytes qs) = Inr sb"
    using c(2) q(2) cs(1) qs(1)
      frame_two_ok_iff [of "pk_algorithm ?ck" "sig_bytes cs" "pk_algorithm ?qk" "sig_bytes qs"]
    by (auto simp: fits_frame_def)
  have parts: "\<lparr>sig_algorithm = pk_algorithm ?ck, sig_bytes = sig_bytes cs\<rparr> = cs"
    "\<lparr>sig_algorithm = pk_algorithm ?qk, sig_bytes = sig_bytes qs\<rparr> = qs"
    "\<lparr>pk_algorithm = pk_algorithm ?ck, pk_bytes = pk_bytes ?ck\<rparr> = ?ck"
    "\<lparr>pk_algorithm = pk_algorithm ?qk, pk_bytes = pk_bytes ?qk\<rparr> = ?qk"
    using cs(3) qs(3) by simp_all
  have "hybrid_accepts P m sb kb"
    unfolding hybrid_accepts_def
    by (intro exI conjI, rule sb, rule kb) (simp_all only: parts cs(2) qs(2))
  with sb cs qs show ?thesis
    by (simp add: h hybrid_sign_def hybrid_verify_accepts_iff)
qed

interpretation ed: signer_contract P "ed25519_from_seed P" "ed_good P" for P
  by unfold_locales
    (simp add: ed_good_def ed25519_from_seed_def ed25519_verify_def)

interpretation mldsa: signer_contract P "mldsa_signer P" "mldsa_good P" for P
proof (unfold_locales, goal_cases)
  case (1 k m)
  then obtain sg where "ml_raw_sign P k m = Inr sg" "length sg = ml_sig_len P"
    "ml_check P (ml_public P k) m sg" unfolding mldsa_good_def by blast
  with 1 show ?case
    by (simp add: mldsa_good_def mldsa_signer_def mldsa_verify_def)
qed

interpretation hybrid: signer_contract P "\<lambda>(c, q, h). h" "hybrid_good P" for P
  by unfold_locales (auto simp: hybrid_good_def intro: hybrid_new_signs)

text \<open>Any signer that meets the contract, whatever it is made of.\<close>

interpretation any_signer: signer_contract P "\<lambda>s. s" "signer_ok P" for P
  by unfold_locales (simp add: signer_ok_def)

lemmas signer_ok_rules = ed.ok mldsa.ok hybrid.ok

end
