(* ===== verification/Chain.thy ===== *)
theory Chain
  imports Crypto
begin

text \<open>
  The crate \<^verbatim>\<open>core/chain\<close>: typed permissions and scopes, the signed root and
  delegation blocks, and the operations that issue, extend and verify a chain.
\<close>

section \<open>Permissions\<close>

datatype chain_constraint =
    AmountMax u64
  | ResourceIn "string list"

record permission =
  perm_action :: string
  perm_constraints :: "chain_constraint list"

definition permission_action :: "string \<Rightarrow> permission" where
  "permission_action a = \<lparr>perm_action = a, perm_constraints = []\<rparr>"

definition permission_with :: "string \<Rightarrow> chain_constraint list \<Rightarrow> permission" where
  "permission_with a cs = \<lparr>perm_action = a, perm_constraints = cs\<rparr>"

fun amount_of :: "chain_constraint \<Rightarrow> u64 option" where
  "amount_of (AmountMax n) = Some n"
| "amount_of (ResourceIn _) = None"

fun resources_of :: "chain_constraint \<Rightarrow> string set option" where
  "resources_of (AmountMax _) = None"
| "resources_of (ResourceIn rs) = Some (set rs)"

text \<open>The minimum of the amounts, \<^verbatim>\<open>u64::MAX\<close> when there is none.\<close>

definition amount_max :: "permission \<Rightarrow> u64" where
  "amount_max p =
     (case List.map_filter amount_of (perm_constraints p) of
        [] \<Rightarrow> u64_max
      | n # ns \<Rightarrow> fold min ns n)"

text \<open>The intersection of the resource sets, \<^verbatim>\<open>None\<close> when there is none.\<close>

definition resource_set :: "permission \<Rightarrow> string set option" where
  "resource_set p =
     (case List.map_filter resources_of (perm_constraints p) of
        [] \<Rightarrow> None
      | first # sets \<Rightarrow> Some (foldl (\<inter>) first sets))"

definition authorizes_subset_of :: "permission \<Rightarrow> permission \<Rightarrow> bool" where
  "authorizes_subset_of p parent =
     (if perm_action p \<noteq> perm_action parent then False
      else if amount_max p > amount_max parent then False
      else case resource_set parent of
        None \<Rightarrow> True
      | Some parent_set \<Rightarrow>
          (case resource_set p of
             Some child_set \<Rightarrow> child_set \<subseteq> parent_set
           | None \<Rightarrow> False))"

subsection \<open>The wire form of a permission\<close>

fun constraint_json :: "chain_constraint \<Rightarrow> json" where
  "constraint_json (AmountMax n) = JObj [(''amount_max'', word_json n)]"
| "constraint_json (ResourceIn rs) = JObj [(''resource_in'', list_json JStr rs)]"

text \<open>A bare permission is a string, a constrained one an object.\<close>

definition permission_json :: "permission \<Rightarrow> json" where
  "permission_json p =
     (if perm_constraints p = [] then JStr (perm_action p)
      else JObj [(''action'', JStr (perm_action p)),
                 (''constraints'', list_json constraint_json (perm_constraints p))])"

text \<open>
  The readers that the derive generates: a string from a string, a vector from an array,
  an externally tagged variant from an object with one entry, a \<^verbatim>\<open>u64\<close> from a number
  that fits. \<open>json_field\<close> finds a field, absent or once; a duplicate is an error.
\<close>

definition json_field :: "string \<Rightarrow> (string \<times> json) list \<Rightarrow> json option option" where
  "json_field k kvs =
     (case filter (\<lambda>kv. fst kv = k) kvs of
        [] \<Rightarrow> Some None
      | [kv] \<Rightarrow> Some (Some (snd kv))
      | _ \<Rightarrow> None)"

fun json_string :: "json \<Rightarrow> string option" where
  "json_string (JStr s) = Some s"
| "json_string _ = None"

fun json_list :: "(json \<Rightarrow> 'a option) \<Rightarrow> json \<Rightarrow> 'a list option" where
  "json_list f (JArr js) = those (map f js)"
| "json_list f _ = None"

fun json_u64 :: "json \<Rightarrow> u64 option" where
  "json_u64 (JNum n) = (if n < 2 ^ 64 then Some (of_nat n) else None)"
| "json_u64 _ = None"

fun constraint_of_json :: "json \<Rightarrow> chain_constraint option" where
  "constraint_of_json (JObj [(k, v)]) =
     (if k = ''amount_max'' then map_option AmountMax (json_u64 v)
      else if k = ''resource_in'' then map_option ResourceIn (json_list json_string v)
      else None)"
| "constraint_of_json _ = None"

text \<open>
  The untagged \<^verbatim>\<open>Repr\<close>: \<^verbatim>\<open>Bare\<close> first, then \<^verbatim>\<open>Full\<close>, whose constraints default
  to none and whose unknown fields are ignored.
\<close>

fun permission_of_json :: "json \<Rightarrow> permission option" where
  "permission_of_json (JStr a) = Some \<lparr>perm_action = a, perm_constraints = []\<rparr>"
| "permission_of_json (JObj kvs) =
     (case (json_field ''action'' kvs, json_field ''constraints'' kvs) of
        (Some (Some a), Some None) \<Rightarrow>
          map_option (\<lambda>s. \<lparr>perm_action = s, perm_constraints = []\<rparr>) (json_string a)
      | (Some (Some a), Some (Some cs)) \<Rightarrow>
          (case (json_string a, json_list constraint_of_json cs) of
             (Some s, Some xs) \<Rightarrow> Some \<lparr>perm_action = s, perm_constraints = xs\<rparr>
           | _ \<Rightarrow> None)
      | _ \<Rightarrow> None)"
| "permission_of_json _ = None"

section \<open>Scopes, principals and blocks\<close>

record scope =
  permissions :: "permission list"
  budget :: "u64 option"
  currency :: "string option"
  max_depth :: u32
  expires_at :: u64

datatype chain_error =
    ScopeWidened
  | ExpiryExtended
  | DepthExceeded
  | MissingPurpose
  | BrokenHashLink
  | SignatureInvalid nat
  | WrongSigner
  | PrincipalMismatch
  | RootKeyMismatch
  | ChainCrypto string

definition chain_error_of_crypto :: "crypto_error \<Rightarrow> chain_error" where
  "chain_error_of_crypto e = ChainCrypto (crypto_error_string e)"

definition is_narrowing_of :: "scope \<Rightarrow> scope \<Rightarrow> chain_error + unit" where
  "is_narrowing_of s parent =
     (if \<not> list_all (\<lambda>perm. list_ex (authorizes_subset_of perm) (permissions parent)) (permissions s)
      then Inl ScopeWidened
      else if (case (budget s, budget parent) of
                 (Some child, Some parent_budget) \<Rightarrow> child > parent_budget
               | (None, Some _) \<Rightarrow> True
               | _ \<Rightarrow> False)
      then Inl ScopeWidened
      else if budget s \<noteq> None \<and> budget parent \<noteq> None \<and> currency s \<noteq> currency parent
      then Inl ScopeWidened
      else if expires_at s > expires_at parent then Inl ExpiryExtended
      else Inr ())"

record principal =
  principal_id :: string
  display_name :: string

record root_block =
  rb_principal :: principal
  principal_key :: public_key
  rb_scope :: scope
  rb_signature :: signature

record delegation_block =
  db_from :: principal
  from_key :: public_key
  db_to :: principal
  to_key :: public_key
  db_scope :: scope
  purpose :: string
  prev_block_hash :: "u8 list"
  db_signature :: signature

record chain =
  chain_root :: root_block
  delegations :: "delegation_block list"

definition principal_json :: "principal \<Rightarrow> json" where
  "principal_json p =
     JObj [(''id'', JStr (principal_id p)), (''display_name'', JStr (display_name p))]"

definition scope_json :: "scope \<Rightarrow> json" where
  "scope_json s =
     JObj [(''permissions'', list_json permission_json (permissions s)),
           (''budget'', option_json word_json (budget s)),
           (''currency'', option_json JStr (currency s)),
           (''max_depth'', word_json (max_depth s)),
           (''expires_at'', word_json (expires_at s))]"

definition root_block_json :: "root_block \<Rightarrow> json" where
  "root_block_json r =
     JObj [(''principal'', principal_json (rb_principal r)),
           (''principal_key'', public_key_json (principal_key r)),
           (''scope'', scope_json (rb_scope r)),
           (''signature'', signature_json (rb_signature r))]"

definition delegation_block_json :: "delegation_block \<Rightarrow> json" where
  "delegation_block_json d =
     JObj [(''from'', principal_json (db_from d)),
           (''from_key'', public_key_json (from_key d)),
           (''to'', principal_json (db_to d)),
           (''to_key'', public_key_json (to_key d)),
           (''scope'', scope_json (db_scope d)),
           (''purpose'', JStr (purpose d)),
           (''prev_block_hash'', bytes_json (prev_block_hash d)),
           (''signature'', signature_json (db_signature d))]"

definition chain_json :: "chain \<Rightarrow> json" where
  "chain_json c =
     JObj [(''root'', root_block_json (chain_root c)),
           (''delegations'', list_json delegation_block_json (delegations c))]"

section \<open>Payloads and hashes\<close>

definition root_payload_json :: "principal \<Rightarrow> public_key \<Rightarrow> scope \<Rightarrow> json" where
  "root_payload_json p k s = JArr [principal_json p, public_key_json k, scope_json s]"

definition root_signing_payload ::
  "prims \<Rightarrow> principal \<Rightarrow> public_key \<Rightarrow> scope \<Rightarrow> u8 list" where
  "root_signing_payload P p k s = jcs P (root_payload_json p k s)"

definition delegation_payload_json ::
  "principal \<Rightarrow> public_key \<Rightarrow> principal \<Rightarrow> public_key \<Rightarrow> scope \<Rightarrow> string \<Rightarrow> u8 list \<Rightarrow> json" where
  "delegation_payload_json f fk t tk s pur prev =
     JArr [principal_json f, public_key_json fk, principal_json t, public_key_json tk,
           scope_json s, JStr pur, bytes_json prev]"

definition delegation_signing_payload ::
  "prims \<Rightarrow> principal \<Rightarrow> public_key \<Rightarrow> principal \<Rightarrow> public_key \<Rightarrow> scope \<Rightarrow> string \<Rightarrow> u8 list \<Rightarrow> u8 list" where
  "delegation_signing_payload P f fk t tk s pur prev =
     jcs P (delegation_payload_json f fk t tk s pur prev)"

definition hash_bytes :: "prims \<Rightarrow> u8 list \<Rightarrow> u8 list" where
  "hash_bytes P bs = array_bytes (blake3 P bs)"

definition root_hash :: "prims \<Rightarrow> root_block \<Rightarrow> u8 list" where
  "root_hash P r = hash_bytes P (jcs P (root_block_json r))"

definition delegation_hash :: "prims \<Rightarrow> delegation_block \<Rightarrow> u8 list" where
  "delegation_hash P d = hash_bytes P (jcs P (delegation_block_json d))"

section \<open>Operations\<close>

text \<open>\<^verbatim>\<open>None\<close> is the panic of \<^verbatim>\<open>expect("sign root")\<close>.\<close>

definition chain_issue :: "prims \<Rightarrow> signer \<Rightarrow> principal \<Rightarrow> scope \<Rightarrow> chain option" where
  "chain_issue P sg p s =
     (let key = sg_public_key sg;
          payload = root_signing_payload P p key s
      in case sg_sign sg payload of
           Inl _ \<Rightarrow> None
         | Inr sig \<Rightarrow>
             Some \<lparr>chain_root = \<lparr>rb_principal = p, principal_key = key, rb_scope = s, rb_signature = sig\<rparr>,
                   delegations = []\<rparr>)"

definition chain_from_root :: "prims \<Rightarrow> root_block \<Rightarrow> chain_error + chain" where
  "chain_from_root P r =
     (let payload = root_signing_payload P (rb_principal r) (principal_key r) (rb_scope r)
      in and_then (map_err chain_error_of_crypto (verify_signature P payload (rb_signature r) (principal_key r)))
        (\<lambda>ok. if \<not> ok then Inl (SignatureInvalid 0)
              else Inr \<lparr>chain_root = r, delegations = []\<rparr>))"

type_synonym tail_state = "scope \<times> public_key \<times> principal \<times> u8 list"

definition root_tail :: "prims \<Rightarrow> root_block \<Rightarrow> tail_state" where
  "root_tail P r = (rb_scope r, principal_key r, rb_principal r, root_hash P r)"

definition block_tail :: "prims \<Rightarrow> delegation_block \<Rightarrow> tail_state" where
  "block_tail P d = (db_scope d, to_key d, db_to d, delegation_hash P d)"

definition chain_tail :: "prims \<Rightarrow> chain \<Rightarrow> tail_state" where
  "chain_tail P c =
     (if delegations c = [] then root_tail P (chain_root c)
      else block_tail P (last (delegations c)))"

text \<open>The mutated chain is the value; on an error the chain is left as it was.\<close>

definition attenuate ::
  "prims \<Rightarrow> chain \<Rightarrow> signer \<Rightarrow> principal \<Rightarrow> public_key \<Rightarrow> scope \<Rightarrow> string \<Rightarrow> chain_error + chain" where
  "attenuate P c sg t tk new_scope pur =
     (if trim_is_empty pur then Inl MissingPurpose
      else case chain_tail P c of (tail_scope, tail_key, tail_principal, prev_hash) \<Rightarrow>
        if sg_public_key sg \<noteq> tail_key then Inl WrongSigner
        else if max_depth tail_scope = 0 then Inl DepthExceeded
        else and_then (is_narrowing_of new_scope tail_scope) (\<lambda>_.
          if max_depth new_scope \<ge> max_depth tail_scope then Inl ScopeWidened
          else
            (let payload = delegation_signing_payload P tail_principal tail_key t tk new_scope pur prev_hash
             in and_then (map_err chain_error_of_crypto (sg_sign sg payload)) (\<lambda>sig.
                  Inr (c\<lparr>delegations := delegations c @
                    [\<lparr>db_from = tail_principal, from_key = tail_key, db_to = t, to_key = tk,
                      db_scope = new_scope, purpose = pur, prev_block_hash = prev_hash,
                      db_signature = sig\<rparr>]\<rparr>)))))"

text \<open>One pass of the verification loop over a block, and the loop.\<close>

definition verify_block ::
  "prims \<Rightarrow> nat \<Rightarrow> delegation_block \<Rightarrow> tail_state \<Rightarrow> chain_error + tail_state" where
  "verify_block P block_index b st =
     (case st of (prev_scope, expected_signer_key, expected_from, prev_hash) \<Rightarrow>
        if from_key b \<noteq> expected_signer_key then Inl WrongSigner
        else if db_from b \<noteq> expected_from then Inl PrincipalMismatch
        else if prev_block_hash b \<noteq> prev_hash then Inl BrokenHashLink
        else if trim_is_empty (purpose b) then Inl MissingPurpose
        else if max_depth prev_scope = 0 then Inl DepthExceeded
        else and_then (is_narrowing_of (db_scope b) prev_scope) (\<lambda>_.
          if max_depth (db_scope b) \<ge> max_depth prev_scope then Inl ScopeWidened
          else
            (let payload = delegation_signing_payload P (db_from b) (from_key b) (db_to b) (to_key b)
                   (db_scope b) (purpose b) (prev_block_hash b)
             in and_then (map_err chain_error_of_crypto (verify_signature P payload (db_signature b) (from_key b)))
                  (\<lambda>ok. if \<not> ok then Inl (SignatureInvalid block_index)
                        else Inr (block_tail P b)))))"

fun verify_blocks ::
  "prims \<Rightarrow> nat \<Rightarrow> delegation_block list \<Rightarrow> tail_state \<Rightarrow> chain_error + tail_state" where
  "verify_blocks P i [] st = Inr st"
| "verify_blocks P i (b # bs) st =
     and_then (verify_block P (i + 1) b st) (\<lambda>st'. verify_blocks P (i + 1) bs st')"

definition verify_root :: "prims \<Rightarrow> root_block \<Rightarrow> public_key \<Rightarrow> chain_error + tail_state" where
  "verify_root P r root_key =
     (if principal_key r \<noteq> root_key then Inl RootKeyMismatch
      else
        (let root_payload = root_signing_payload P (rb_principal r) (principal_key r) (rb_scope r)
         in and_then (map_err chain_error_of_crypto (verify_signature P root_payload (rb_signature r) (principal_key r)))
              (\<lambda>ok. if \<not> ok then Inl (SignatureInvalid 0) else Inr (root_tail P r))))"

definition chain_verify :: "prims \<Rightarrow> chain \<Rightarrow> public_key \<Rightarrow> chain_error + scope" where
  "chain_verify P c root_key =
     and_then (verify_root P (chain_root c) root_key) (\<lambda>st.
     and_then (verify_blocks P 0 (delegations c) st) (\<lambda>st'. Inr (fst st')))"

definition chain_digest :: "prims \<Rightarrow> chain \<Rightarrow> digest" where
  "chain_digest P c = blake3 P (jcs P (chain_json c))"

definition executor_key :: "chain \<Rightarrow> public_key" where
  "executor_key c =
     (if delegations c = [] then principal_key (chain_root c) else to_key (last (delegations c)))"

section \<open>Wire form\<close>

lemma those_map_some [simp]: "(\<And>x. f (g x) = Some x) \<Longrightarrow> those (map f (map g xs)) = Some xs"
  by (induction xs) auto

lemma json_list_image [simp]: "(\<And>x. f (g x) = Some x) \<Longrightarrow> json_list f (list_json g xs) = Some xs"
  by (simp only: list_json_def json_list.simps those_map_some)

lemma json_u64_word [simp]: "json_u64 (word_json n) = Some n"
  using unsigned_less [of n, where ?'a = nat] by (simp add: word_json_def)

lemma constraint_of_json_json [simp]: "constraint_of_json (constraint_json c) = Some c"
  by (cases c) auto

lemma permission_of_json_json: "permission_of_json (permission_json p) = Some p"
  by (cases p) (simp add: permission_json_def json_field_def)

lemma permission_json_inject [simp, json_inj]: "permission_json p = permission_json q \<longleftrightarrow> p = q"
  by (metis option.inject permission_of_json_json)

lemma json_str_inject: "JStr a = JStr b \<longleftrightarrow> a = b"
  by simp

lemma principal_json_inject [simp, json_inj]: "principal_json p = principal_json q \<longleftrightarrow> p = q"
  by (cases p; cases q) (auto simp: principal_json_def)

lemma word_json_not_null [simp]: "word_json w \<noteq> JNull"
  by (simp add: word_json_def)

lemma scope_json_inject [simp, json_inj]: "scope_json s = scope_json t \<longleftrightarrow> s = t"
proof -
  have "option_json word_json x = option_json word_json y \<longleftrightarrow> x = y" for x y :: "u64 option"
    by (rule option_json_inject) simp_all
  moreover have "option_json JStr x = option_json JStr y \<longleftrightarrow> x = y" for x y
    by (rule option_json_inject) simp_all
  moreover have "list_json permission_json x = list_json permission_json y \<longleftrightarrow> x = y" for x y
    by (rule list_json_inject) simp
  ultimately show ?thesis
    by (cases s; cases t) (auto simp: scope_json_def)
qed

lemma root_block_json_inject [simp, json_inj]: "root_block_json a = root_block_json b \<longleftrightarrow> a = b"
  by (cases a; cases b) (auto simp: root_block_json_def)

lemma delegation_block_json_inject [simp, json_inj]:
  "delegation_block_json a = delegation_block_json b \<longleftrightarrow> a = b"
  by (cases a; cases b) (auto simp: delegation_block_json_def)

lemma block_json_disjoint [simp, json_inj]: "root_block_json r \<noteq> delegation_block_json d"
  "delegation_block_json d \<noteq> root_block_json r"
  by (simp_all add: root_block_json_def delegation_block_json_def)

lemma chain_json_inject [simp, json_inj]: "chain_json a = chain_json b \<longleftrightarrow> a = b"
proof -
  have "list_json delegation_block_json x = list_json delegation_block_json y \<longleftrightarrow> x = y" for x y
    by (rule list_json_inject) simp
  then show ?thesis by (cases a; cases b) (auto simp: chain_json_def)
qed

lemma payload_json_disjoint [simp, json_inj]:
  "root_payload_json p k s \<noteq> delegation_payload_json f fk t tk s' pur prev"
  by (simp add: root_payload_json_def delegation_payload_json_def)

lemma delegation_payload_json_inject [simp, json_inj]:
  "delegation_payload_json f fk t tk s pur prev = delegation_payload_json f' fk' t' tk' s' pur' prev' \<longleftrightarrow>
     f = f' \<and> fk = fk' \<and> t = t' \<and> tk = tk' \<and> s = s' \<and> pur = pur' \<and> prev = prev'"
  by (auto simp: delegation_payload_json_def)

section \<open>Attenuation of permissions and scopes\<close>

text \<open>
  The meaning of a permission: the concrete uses it allows. A use is an action on a
  resource for an amount.
\<close>

record usage =
  use_action :: string
  use_amount :: u64
  use_resource :: string

definition constraint_allows :: "chain_constraint \<Rightarrow> usage \<Rightarrow> bool" where
  "constraint_allows c u =
     (case c of AmountMax n \<Rightarrow> use_amount u \<le> n | ResourceIn rs \<Rightarrow> use_resource u \<in> set rs)"

definition perm_allows :: "permission \<Rightarrow> usage \<Rightarrow> bool" where
  "perm_allows p u \<longleftrightarrow>
     use_action u = perm_action p \<and> (\<forall>c \<in> set (perm_constraints p). constraint_allows c u)"

definition scope_allows :: "scope \<Rightarrow> usage \<Rightarrow> bool" where
  "scope_allows s u \<longleftrightarrow>
     (\<exists>p \<in> set (permissions s). perm_allows p u) \<and>
     (case budget s of None \<Rightarrow> True | Some b \<Rightarrow> use_amount u \<le> b)"

lemma fold_min_ge: "a \<le> fold min ns (n :: u64) \<longleftrightarrow> a \<le> n \<and> (\<forall>m \<in> set ns. a \<le> m)"
  by (induction ns arbitrary: n) auto

lemma in_foldl_inter: "x \<in> foldl (\<inter>) s ss \<longleftrightarrow> x \<in> s \<and> (\<forall>t \<in> set ss. x \<in> t)"
  by (induction ss arbitrary: s) auto

lemma le_amount_max_iff:
  "a \<le> amount_max p \<longleftrightarrow> (\<forall>n. AmountMax n \<in> set (perm_constraints p) \<longrightarrow> a \<le> n)"
proof -
  have "set (List.map_filter amount_of cs) = {n. AmountMax n \<in> set cs}" for cs
    by (force simp: map_filter_def elim: amount_of.elims)
  moreover have "a \<le> amount_max p \<longleftrightarrow> (\<forall>n \<in> set (List.map_filter amount_of (perm_constraints p)). a \<le> n)"
    by (auto simp: amount_max_def fold_min_ge split: list.splits)
  ultimately show ?thesis by auto
qed

lemma map_filter_resources:
  "set (List.map_filter resources_of cs) = {set rs |rs. ResourceIn rs \<in> set cs}"
  by (force simp: map_filter_def elim: resources_of.elims)

lemma resource_set_iff:
  "(case resource_set p of None \<Rightarrow> True | Some S \<Rightarrow> r \<in> S) \<longleftrightarrow>
     (\<forall>rs. ResourceIn rs \<in> set (perm_constraints p) \<longrightarrow> r \<in> set rs)"
proof -
  have "(case resource_set p of None \<Rightarrow> True | Some S \<Rightarrow> r \<in> S) \<longleftrightarrow>
      (\<forall>S \<in> set (List.map_filter resources_of (perm_constraints p)). r \<in> S)"
    by (auto simp: resource_set_def in_foldl_inter split: list.splits)
  then show ?thesis by (auto simp: map_filter_resources)
qed

text \<open>The two accessors are an exact summary of the constraints.\<close>

lemma perm_allows_iff:
  "perm_allows p u \<longleftrightarrow>
     use_action u = perm_action p \<and> use_amount u \<le> amount_max p \<and>
     (case resource_set p of None \<Rightarrow> True | Some S \<Rightarrow> use_resource u \<in> S)"
proof -
  have "(\<forall>c \<in> set cs. constraint_allows c u) \<longleftrightarrow>
      (\<forall>n. AmountMax n \<in> set cs \<longrightarrow> use_amount u \<le> n) \<and>
      (\<forall>rs. ResourceIn rs \<in> set cs \<longrightarrow> use_resource u \<in> set rs)" for cs
    by (auto simp: constraint_allows_def split: chain_constraint.splits)
  then show ?thesis
    by (simp add: perm_allows_def le_amount_max_iff resource_set_iff)
qed

lemma finite_resource_set: "resource_set p = Some S \<Longrightarrow> finite S"
proof -
  have "finite s \<Longrightarrow> finite (foldl (\<inter>) s ss)" for s :: "string set" and ss
    by (induction ss arbitrary: s) auto
  moreover have "finite s" if "s \<in> set (List.map_filter resources_of (perm_constraints p))" for s
    using that by (auto simp: map_filter_resources)
  ultimately show "resource_set p = Some S \<Longrightarrow> finite S"
    by (auto simp: resource_set_def split: list.splits)
qed

lemma authorizes_subset_sound:
  "authorizes_subset_of p q \<Longrightarrow> perm_allows p u \<Longrightarrow> perm_allows q u"
  by (auto simp: authorizes_subset_of_def perm_allows_iff split: if_splits option.splits)

text \<open>
  Exactness: when the child's resource set is not empty, the syntactic check is the
  inclusion of the allowed uses. A child confined to no resource at all allows nothing.
\<close>

lemma authorizes_subset_complete:
  assumes incl: "\<And>u. perm_allows p u \<Longrightarrow> perm_allows q u" and ne: "resource_set p \<noteq> Some {}"
  shows "authorizes_subset_of p q"
proof -
  obtain r where r: "case resource_set p of None \<Rightarrow> True | Some S \<Rightarrow> r \<in> S"
    using ne by (cases "resource_set p") auto
  have "perm_allows p \<lparr>use_action = perm_action p, use_amount = amount_max p, use_resource = r\<rparr>"
    using r by (simp add: perm_allows_iff split: option.splits)
  from incl [OF this] have "perm_action p = perm_action q" "amount_max p \<le> amount_max q"
    by (auto simp: perm_allows_iff)
  moreover have "case resource_set p of None \<Rightarrow> False | Some C \<Rightarrow> C \<subseteq> S" if S: "resource_set q = Some S" for S
  proof (cases "resource_set p")
    case None
    have "r' \<in> S" for r'
      using incl [of "\<lparr>use_action = perm_action p, use_amount = amount_max p, use_resource = r'\<rparr>"] None S
      by (simp add: perm_allows_iff)
    then have "S = UNIV" by auto
    moreover have "finite S" using S by (rule finite_resource_set)
    moreover have "infinite (UNIV :: string set)" by (rule infinite_UNIV_listI)
    ultimately show ?thesis by simp
  next
    case (Some C)
    have "r' \<in> S" if "r' \<in> C" for r'
      using incl [of "\<lparr>use_action = perm_action p, use_amount = amount_max p, use_resource = r'\<rparr>"] Some S that
      by (simp add: perm_allows_iff)
    with Some show ?thesis by auto
  qed
  ultimately show ?thesis
    by (force simp: authorizes_subset_of_def split: option.splits)
qed

lemma authorizes_subset_refl [simp]: "authorizes_subset_of p p"
  by (auto simp: authorizes_subset_of_def split: option.splits)

lemma authorizes_subset_trans:
  "authorizes_subset_of p q \<Longrightarrow> authorizes_subset_of q r \<Longrightarrow> authorizes_subset_of p r"
  by (auto simp: authorizes_subset_of_def split: if_splits option.splits)

text \<open>The relation that the narrowing check decides.\<close>

definition narrows :: "scope \<Rightarrow> scope \<Rightarrow> bool" where
  "narrows s t \<longleftrightarrow>
     (\<forall>p \<in> set (permissions s). \<exists>q \<in> set (permissions t). authorizes_subset_of p q) \<and>
     (\<forall>b. budget t = Some b \<longrightarrow> (\<exists>a. budget s = Some a \<and> a \<le> b \<and> currency s = currency t)) \<and>
     expires_at s \<le> expires_at t"

lemma is_narrowing_of_iff: "is_narrowing_of s t = Inr () \<longleftrightarrow> narrows s t"
  by (cases "budget s"; cases "budget t")
    (auto simp: is_narrowing_of_def narrows_def list_all_iff list_ex_iff not_less not_le)

lemma is_narrowing_of_Inr: "is_narrowing_of s t = Inr u \<longleftrightarrow> narrows s t"
  by (cases u) (simp add: is_narrowing_of_iff)

lemma narrows_refl [simp]: "narrows s s"
  by (auto simp: narrows_def intro: authorizes_subset_refl)

lemma narrows_trans:
  assumes "narrows s t" and "narrows t w"
  shows "narrows s w"
proof -
  have "\<exists>a. budget s = Some a \<and> a \<le> b \<and> currency s = currency w" if "budget w = Some b" for b
  proof -
    from that assms(2) obtain a where "budget t = Some a" "a \<le> b" "currency t = currency w"
      by (auto simp: narrows_def)
    moreover from this assms(1) obtain a' where "budget s = Some a'" "a' \<le> a" "currency s = currency t"
      by (auto simp: narrows_def)
    ultimately show ?thesis by auto
  qed
  moreover have "\<exists>q \<in> set (permissions w). authorizes_subset_of p q" if "p \<in> set (permissions s)" for p
    using that assms unfolding narrows_def by (meson authorizes_subset_trans)
  moreover have "expires_at s \<le> expires_at w"
    using assms by (auto simp: narrows_def)
  ultimately show ?thesis by (simp add: narrows_def)
qed

lemma narrows_allows: "narrows s t \<Longrightarrow> scope_allows s u \<Longrightarrow> scope_allows t u"
  unfolding narrows_def scope_allows_def
  by (fastforce dest: authorizes_subset_sound split: option.splits)

section \<open>What verification accepts\<close>

definition root_signed :: "prims \<Rightarrow> root_block \<Rightarrow> bool" where
  "root_signed P r \<longleftrightarrow>
     verify_signature P (root_signing_payload P (rb_principal r) (principal_key r) (rb_scope r))
       (rb_signature r) (principal_key r) = Inr True"

definition block_payload_json :: "delegation_block \<Rightarrow> json" where
  "block_payload_json b =
     delegation_payload_json (db_from b) (from_key b) (db_to b) (to_key b) (db_scope b) (purpose b)
       (prev_block_hash b)"

definition block_signed :: "prims \<Rightarrow> delegation_block \<Rightarrow> bool" where
  "block_signed P b \<longleftrightarrow>
     verify_signature P (jcs P (block_payload_json b)) (db_signature b) (from_key b) = Inr True"

text \<open>A block continues a tail: identity, link, purpose, attenuation and signature.\<close>

definition block_ok :: "prims \<Rightarrow> delegation_block \<Rightarrow> tail_state \<Rightarrow> bool" where
  "block_ok P b = (\<lambda>(s, k, p, h).
     from_key b = k \<and> db_from b = p \<and> prev_block_hash b = h \<and> \<not> trim_is_empty (purpose b) \<and>
     narrows (db_scope b) s \<and> max_depth (db_scope b) < max_depth s \<and> block_signed P b)"

fun linked :: "prims \<Rightarrow> tail_state \<Rightarrow> delegation_block list \<Rightarrow> bool" where
  "linked P st [] = True"
| "linked P st (b # bs) = (block_ok P b st \<and> linked P (block_tail P b) bs)"

definition last_tail :: "prims \<Rightarrow> tail_state \<Rightarrow> delegation_block list \<Rightarrow> tail_state" where
  "last_tail P st bs = (if bs = [] then st else block_tail P (last bs))"

definition chain_ok :: "prims \<Rightarrow> chain \<Rightarrow> public_key \<Rightarrow> bool" where
  "chain_ok P c k \<longleftrightarrow>
     principal_key (chain_root c) = k \<and> root_signed P (chain_root c) \<and>
     linked P (root_tail P (chain_root c)) (delegations c)"

lemma last_tail_simps [simp]:
  "last_tail P st [] = st"
  "last_tail P st (b # bs) = last_tail P (block_tail P b) bs"
  "last_tail P st (bs @ [b]) = block_tail P b"
  by (simp_all add: last_tail_def)

lemma chain_tail_last: "chain_tail P c = last_tail P (root_tail P (chain_root c)) (delegations c)"
  by (simp add: chain_tail_def last_tail_def)

lemma linked_append [simp]:
  "linked P st (as @ bs) \<longleftrightarrow> linked P st as \<and> linked P (last_tail P st as) bs"
  by (induction as arbitrary: st) auto

lemma linked_nth:
  "linked P st bs \<longleftrightarrow> (\<forall>i < length bs. block_ok P (bs ! i) (last_tail P st (take i bs)))"
  by (induction bs arbitrary: st) (auto simp: less_Suc_eq_0_disj)

lemma block_payload_eq:
  "delegation_signing_payload P (db_from b) (from_key b) (db_to b) (to_key b) (db_scope b) (purpose b)
     (prev_block_hash b) = jcs P (block_payload_json b)"
  by (simp add: delegation_signing_payload_def block_payload_json_def)

lemma verify_block_iff: "verify_block P i b st = Inr st' \<longleftrightarrow> block_ok P b st \<and> st' = block_tail P b"
  by (cases st)
    (simp add: verify_block_def block_ok_def block_signed_def block_payload_eq Let_def
      and_then_Inr_iff is_narrowing_of_Inr, safe; auto simp: block_payload_eq not_le)

lemma verify_root_iff:
  "verify_root P r k = Inr st \<longleftrightarrow> principal_key r = k \<and> root_signed P r \<and> st = root_tail P r"
  by (auto simp: verify_root_def root_signed_def Let_def and_then_Inr_iff split: if_splits)

lemma verify_blocks_iff:
  "verify_blocks P i bs st = Inr st' \<longleftrightarrow> linked P st bs \<and> st' = last_tail P st bs"
  by (induction bs arbitrary: i st) (auto simp: and_then_Inr_iff verify_block_iff)

lemma chain_verify_iff:
  "chain_verify P c k = Inr s \<longleftrightarrow> chain_ok P c k \<and> s = fst (chain_tail P c)"
  by (auto simp: chain_verify_def and_then_Inr_iff verify_root_iff verify_blocks_iff chain_ok_def
      chain_tail_last)

lemma chain_verify_ok: "chain_ok P c k \<Longrightarrow> chain_verify P c k = Inr (fst (chain_tail P c))"
  by (simp add: chain_verify_iff)

text \<open>The error reported is that of the first block that does not continue its prefix.\<close>

lemma verify_blocks_error_iff:
  "verify_blocks P i bs st = Inl e \<longleftrightarrow>
     (\<exists>j < length bs. linked P st (take j bs) \<and>
        verify_block P (i + j + 1) (bs ! j) (last_tail P st (take j bs)) = Inl e)"
  (is "_ \<longleftrightarrow> (\<exists>j < length bs. ?at i bs st j)")
proof (induction bs arbitrary: i st)
  case Nil
  then show ?case by simp
next
  case (Cons b bs)
  have "(\<exists>j < length (b # bs). ?at i (b # bs) st j) \<longleftrightarrow>
      ?at i (b # bs) st 0 \<or> (\<exists>j < length bs. ?at i (b # bs) st (Suc j))"
    by (auto simp: less_Suc_eq_0_disj)
  then show ?case
    by (auto simp: Cons.IH and_then_Inl_iff verify_block_iff)
qed

lemma verify_block_signature_error:
  "verify_block P i b st = Inl (SignatureInvalid j) \<Longrightarrow>
     j = i \<and> verify_signature P (jcs P (block_payload_json b)) (db_signature b) (from_key b) = Inr False"
  by (cases st)
    (auto simp: verify_block_def block_payload_eq Let_def and_then_Inl_iff map_err_Inl_iff
      chain_error_of_crypto_def is_narrowing_of_def split: if_splits)

lemma chain_verify_signature_error:
  assumes "chain_verify P c k = Inl (SignatureInvalid j)"
  shows "(j = 0 \<and> verify_signature P
            (root_signing_payload P (rb_principal (chain_root c)) (principal_key (chain_root c)) (rb_scope (chain_root c)))
            (rb_signature (chain_root c)) (principal_key (chain_root c)) = Inr False) \<or>
    (1 \<le> j \<and> j \<le> length (delegations c) \<and>
      chain_ok P (c\<lparr>delegations := take (j - 1) (delegations c)\<rparr>) k \<and>
      (let b = delegations c ! (j - 1) in
       verify_signature P (jcs P (block_payload_json b)) (db_signature b) (from_key b) = Inr False))"
  using assms unfolding chain_verify_def and_then_Inl_iff
proof (elim disjE exE conjE)
  assume "verify_root P (chain_root c) k = Inl (SignatureInvalid j)"
  then show ?thesis
    by (auto simp: verify_root_def Let_def and_then_Inl_iff map_err_Inl_iff chain_error_of_crypto_def
        split: if_splits)
next
  fix st
  assume root: "verify_root P (chain_root c) k = Inr st"
    and "verify_blocks P 0 (delegations c) st = Inl (SignatureInvalid j)"
  then obtain i where "i < length (delegations c)" "linked P st (take i (delegations c))"
    "verify_block P (i + 1) (delegations c ! i) (last_tail P st (take i (delegations c))) = Inl (SignatureInvalid j)"
    by (auto simp: verify_blocks_error_iff)
  moreover from this(3) have "j = i + 1" by (auto dest: verify_block_signature_error)
  ultimately show ?thesis
    using root by (auto simp: verify_root_iff chain_ok_def dest: verify_block_signature_error)
qed auto

section \<open>Building chains\<close>

lemma attenuate_iff:
  "attenuate P c sg t tk s pur = Inr c' \<longleftrightarrow>
     (\<exists>st k p h sig. chain_tail P c = (st, k, p, h) \<and> \<not> trim_is_empty pur \<and> sg_public_key sg = k \<and>
        narrows s st \<and> max_depth s < max_depth st \<and>
        sg_sign sg (jcs P (delegation_payload_json p k t tk s pur h)) = Inr sig \<and>
        c' = c\<lparr>delegations := delegations c @
               [\<lparr>db_from = p, from_key = k, db_to = t, to_key = tk, db_scope = s, purpose = pur,
                 prev_block_hash = h, db_signature = sig\<rparr>]\<rparr>)"
  by (cases "chain_tail P c")
    (auto simp: attenuate_def Let_def and_then_Inr_iff is_narrowing_of_Inr not_le
      delegation_signing_payload_def split: if_splits)

lemma attenuate_tail:
  "attenuate P c sg t tk s pur = Inr c' \<Longrightarrow> \<exists>h. chain_tail P c' = (s, tk, t, h)"
  by (auto simp: attenuate_iff chain_tail_def block_tail_def)

lemma attenuate_shape:
  "attenuate P c sg t tk s pur = Inr c' \<Longrightarrow>
     chain_root c' = chain_root c \<and> (\<exists>b. delegations c' = delegations c @ [b])"
  by (auto simp: attenuate_iff)

lemma attenuate_extends:
  assumes ok: "chain_ok P c k" and att: "attenuate P c sg t tk s pur = Inr c'"
    and signed: "\<And>m sig. sg_sign sg m = Inr sig \<Longrightarrow> verify_signature P m sig (sg_public_key sg) = Inr True"
  shows "chain_ok P c' k" and "fst (chain_tail P c') = s"
proof -
  from att obtain st p h sig b where tail: "chain_tail P c = (st, sg_public_key sg, p, h)"
    and pur: "\<not> trim_is_empty pur" and nar: "narrows s st" "max_depth s < max_depth st"
    and sig: "sg_sign sg (jcs P (delegation_payload_json p (sg_public_key sg) t tk s pur h)) = Inr sig"
    and b: "b = \<lparr>db_from = p, from_key = sg_public_key sg, db_to = t, to_key = tk, db_scope = s,
       purpose = pur, prev_block_hash = h, db_signature = sig\<rparr>"
    and c': "c' = c\<lparr>delegations := delegations c @ [b]\<rparr>"
    by (auto simp: attenuate_iff)
  have "block_ok P b (chain_tail P c)"
    using pur nar signed [OF sig]
    by (simp add: tail b block_ok_def block_signed_def block_payload_json_def)
  with ok show "chain_ok P c' k"
    by (simp add: chain_ok_def c' chain_tail_last)
  show "fst (chain_tail P c') = s"
    by (simp add: chain_tail_last c' b block_tail_def)
qed

lemma chain_issue_iff:
  "chain_issue P sg p s = Some c \<longleftrightarrow>
     (\<exists>sig. sg_sign sg (root_signing_payload P p (sg_public_key sg) s) = Inr sig \<and>
        c = \<lparr>chain_root = \<lparr>rb_principal = p, principal_key = sg_public_key sg, rb_scope = s, rb_signature = sig\<rparr>,
             delegations = []\<rparr>)"
  by (auto simp: chain_issue_def Let_def split: sum.splits)

text \<open>The laws every chain builder obtains from the contract of its signers.\<close>

context signer_contract
begin

lemma signature_verifies:
  "good k \<Longrightarrow> sg_sign (mk k) m = Inr sig \<Longrightarrow> verify_signature P m sig (sg_public_key (mk k)) = Inr True"
  using signs [of k m] by auto

lemma issue_verifies:
  assumes "good k"
  shows "\<exists>c. chain_issue P (mk k) p s = Some c \<and> chain_ok P c (sg_public_key (mk k)) \<and>
    fst (chain_tail P c) = s"
  using signs [OF assms, of "root_signing_payload P p (sg_public_key (mk k)) s"]
  by (auto simp: chain_issue_iff chain_ok_def root_signed_def chain_tail_last root_tail_def)

lemma attenuate_verifies:
  assumes "good k" and "chain_ok P c rk" and "attenuate P c (mk k) t tk s pur = Inr c'"
  shows "chain_ok P c' rk" and "fst (chain_tail P c') = s"
  using attenuate_extends [OF assms(2,3)] signature_verifies [OF assms(1)] by blast+

lemma attenuate_succeeds:
  assumes "good k" and "chain_tail P c = (st, sg_public_key (mk k), p, h)"
    and "\<not> trim_is_empty pur" and "narrows s st" and "max_depth s < max_depth st"
  shows "\<exists>c'. attenuate P c (mk k) t tk s pur = Inr c'"
  using assms signs [OF assms(1), of "jcs P (delegation_payload_json p (sg_public_key (mk k)) t tk s pur h)"]
  by (auto simp: attenuate_iff)

end

text \<open>Chains as the protocol builds them, hop by hop, each by the holder of the tail key.\<close>

inductive built :: "prims \<Rightarrow> public_key \<Rightarrow> chain \<Rightarrow> bool" for P where
  issued: "signer_ok P sg \<Longrightarrow> chain_issue P sg p s = Some c \<Longrightarrow> built P (sg_public_key sg) c"
| extended: "built P k c \<Longrightarrow> signer_ok P sg \<Longrightarrow> attenuate P c sg t tk s pur = Inr c' \<Longrightarrow> built P k c'"

inductive_cases builtE: "built P k c"

lemma built_ok: "built P k c \<Longrightarrow> chain_ok P c k"
proof (induction rule: built.induct)
  case (issued sg p s c)
  then show ?case using any_signer.issue_verifies [of P sg p s] by auto
next
  case (extended k c sg t tk s pur c')
  then show ?case by (blast intro: any_signer.attenuate_verifies(1))
qed

section \<open>Consequences of verification\<close>

lemma linked_narrows: "linked P st bs \<Longrightarrow> narrows (fst (last_tail P st bs)) (fst st)"
proof (induction bs arbitrary: st)
  case (Cons b bs)
  then have "narrows (fst (last_tail P (block_tail P b) bs)) (db_scope b)"
    by (fastforce simp: block_tail_def)
  with Cons.prems show ?case
    by (auto simp: block_ok_def intro: narrows_trans)
qed simp

lemma linked_depth:
  "linked P st bs \<Longrightarrow> unat (max_depth (fst (last_tail P st bs))) + length bs \<le> unat (max_depth (fst st))"
proof (induction bs arbitrary: st)
  case (Cons b bs)
  then have "unat (max_depth (fst (last_tail P (block_tail P b) bs))) + length bs \<le> unat (max_depth (db_scope b))"
    by (fastforce simp: block_tail_def)
  with Cons.prems show ?case
    by (auto simp: block_ok_def word_less_nat_alt)
qed simp

lemma linked_blocks_narrow:
  "linked P st bs \<Longrightarrow> i < length bs \<Longrightarrow> narrows (fst (last_tail P st bs)) (db_scope (bs ! i))"
proof (induction bs arbitrary: st i)
  case (Cons b bs)
  then show ?case
    using linked_narrows [of P "block_tail P b" bs]
    by (cases i) (auto simp: block_tail_def)
qed simp

lemma chain_ok_narrows_root:
  "chain_ok P c k \<Longrightarrow> narrows (fst (chain_tail P c)) (rb_scope (chain_root c))"
  by (auto simp: chain_ok_def chain_tail_last root_tail_def dest: linked_narrows)

lemma chain_ok_narrows_block:
  "chain_ok P c k \<Longrightarrow> i < length (delegations c) \<Longrightarrow>
     narrows (fst (chain_tail P c)) (db_scope (delegations c ! i))"
  by (auto simp: chain_ok_def chain_tail_last dest: linked_blocks_narrow)

lemma chain_ok_depth:
  "chain_ok P c k \<Longrightarrow>
     unat (max_depth (fst (chain_tail P c))) + length (delegations c) \<le> unat (max_depth (rb_scope (chain_root c)))"
  by (auto simp: chain_ok_def chain_tail_last root_tail_def dest: linked_depth)

lemma block_ok_signed: "block_ok P b st \<Longrightarrow> block_signed P b"
  by (cases st) (simp add: block_ok_def)

lemma chain_ok_block_signed: "chain_ok P c k \<Longrightarrow> b \<in> set (delegations c) \<Longrightarrow> block_signed P b"
  by (auto simp: chain_ok_def linked_nth in_set_conv_nth dest: block_ok_signed)

lemma chain_ok_continuity:
  assumes "chain_ok P c k" and "i < length (delegations c)"
  shows "from_key (delegations c ! i) =
    (if i = 0 then principal_key (chain_root c) else to_key (delegations c ! (i - 1)))"
proof -
  have "block_ok P (delegations c ! i) (last_tail P (root_tail P (chain_root c)) (take i (delegations c)))"
    using assms by (simp add: chain_ok_def linked_nth)
  with assms(2) show ?thesis
    by (cases i) (auto simp: block_ok_def root_tail_def block_tail_def take_Suc_conv_app_nth)
qed

subsection \<open>The hash links bind the whole history\<close>

definition block_images :: "chain \<Rightarrow> json set" where
  "block_images c = insert (root_block_json (chain_root c)) (delegation_block_json ` set (delegations c))"

text \<open>
  No two of these blocks have the same canonical text, and no two of those texts the same
  hash. \<open>X\<close> is the set of JSON values a statement is about.
\<close>

definition hashes_apart :: "prims \<Rightarrow> json set \<Rightarrow> bool" where
  "hashes_apart P X \<longleftrightarrow> inj_on (jcs P) X \<and> collision_free P (jcs P ` X)"

lemma hashes_apartD:
  "hashes_apart P X \<Longrightarrow> hash_bytes P (jcs P x) = hash_bytes P (jcs P y) \<Longrightarrow> x \<in> X \<Longrightarrow> y \<in> X \<Longrightarrow> x = y"
  unfolding hashes_apart_def hash_bytes_def
  by (auto dest!: collision_freeD dest: inj_onD)

definition tail_hash :: "tail_state \<Rightarrow> u8 list" where
  "tail_hash = (\<lambda>(s, k, p, h). h)"

lemma tail_hash_simps [simp]:
  "tail_hash (root_tail P r) = hash_bytes P (jcs P (root_block_json r))"
  "tail_hash (block_tail P b) = hash_bytes P (jcs P (delegation_block_json b))"
  by (simp_all add: tail_hash_def root_tail_def block_tail_def root_hash_def delegation_hash_def)

lemma block_ok_prev_hash: "block_ok P b st \<Longrightarrow> prev_block_hash b = tail_hash st"
  by (cases st) (simp add: block_ok_def tail_hash_def)

lemma linked_same_hash:
  assumes apart: "hashes_apart P X"
    and "linked P (root_tail P r) as" and "linked P (root_tail P q) bs"
    and "tail_hash (last_tail P (root_tail P r) as) = tail_hash (last_tail P (root_tail P q) bs)"
    and "insert (root_block_json r) (delegation_block_json ` set as) \<subseteq> X"
    and "insert (root_block_json q) (delegation_block_json ` set bs) \<subseteq> X"
  shows "r = q \<and> as = bs"
  using assms(2-)
proof (induction as arbitrary: bs rule: rev_induct)
  case Nil
  then show ?case
    by (cases bs rule: rev_cases) (auto dest!: hashes_apartD [OF apart])
next
  case (snoc a as)
  show ?case
  proof (cases bs rule: rev_cases)
    case Nil
    with snoc.prems show ?thesis by (auto dest!: hashes_apartD [OF apart])
  next
    case (snoc bs' b)
    with snoc.prems have "a = b" by (auto dest!: hashes_apartD [OF apart])
    moreover have "tail_hash (last_tail P (root_tail P r) as) = tail_hash (last_tail P (root_tail P q) bs')"
      using snoc.prems \<open>a = b\<close> by (auto simp: snoc dest!: block_ok_prev_hash)
    ultimately show ?thesis
      using snoc.IH [of bs'] snoc.prems by (simp add: snoc)
  qed
qed

lemma chain_ok_same_tail_hash:
  assumes "chain_ok P c k" and "chain_ok P c' k'"
    and "tail_hash (chain_tail P c) = tail_hash (chain_tail P c')"
    and "hashes_apart P (block_images c \<union> block_images c')"
  shows "c = c'"
  using assms linked_same_hash [OF assms(4), of "chain_root c" "delegations c" "chain_root c'" "delegations c'"]
  by (cases c; cases c') (auto simp: chain_ok_def chain_tail_last block_images_def)

lemma chain_digest_inject:
  "hashes_apart P {chain_json c, chain_json c'} \<Longrightarrow> chain_digest P c = chain_digest P c' \<Longrightarrow> c = c'"
  using hashes_apartD [of P "{chain_json c, chain_json c'}" "chain_json c" "chain_json c'"]
  by (simp add: chain_digest_def hash_bytes_def)

subsection \<open>Attribution\<close>

text \<open>
  The ideal reading of a signature scheme for one key: whatever verifies under the key was
  signed by its holder, whose signed documents are \<open>log\<close>.
\<close>

definition unforgeable :: "prims \<Rightarrow> public_key \<Rightarrow> json set \<Rightarrow> bool" where
  "unforgeable P k log \<longleftrightarrow> (\<forall>m s. verify_signature P m s k = Inr True \<longrightarrow> m \<in> jcs P ` log)"

lemma unforgeable_signed:
  assumes "unforgeable P k log" and "inj_on (jcs P) (insert j log)"
    and "verify_signature P (jcs P j) s k = Inr True"
  shows "j \<in> log"
  using assms unfolding unforgeable_def by (metis imageE inj_onD insertCI)

lemma chain_ok_attribution:
  assumes "chain_ok P c rk" and "b \<in> set (delegations c)" and "unforgeable P (from_key b) log"
    and "inj_on (jcs P) (insert (block_payload_json b) log)"
  shows "block_payload_json b \<in> log"
  using unforgeable_signed [OF assms(3,4)] chain_ok_block_signed [OF assms(1,2)]
  by (simp add: block_signed_def)

section \<open>Building hop by hop\<close>

lemma issue_tail:
  assumes "signer_ok P sg"
  shows "\<exists>c h. chain_issue P sg p s = Some c \<and> built P (sg_public_key sg) c \<and>
    chain_tail P c = (s, sg_public_key sg, p, h)"
proof -
  from any_signer.issue_verifies [OF assms, of p s] obtain c where c: "chain_issue P sg p s = Some c" by auto
  then show ?thesis
    using built.issued [OF assms c] by (auto simp: chain_issue_iff chain_tail_def root_tail_def)
qed

lemma attenuate_step:
  assumes "signer_ok P sg" and "built P rk c" and "chain_tail P c = (st, sg_public_key sg, p, h)"
    and "\<not> trim_is_empty pur" and "narrows s st" and "max_depth s < max_depth st"
  shows "\<exists>c' h'. attenuate P c sg t tk s pur = Inr c' \<and> built P rk c' \<and> chain_tail P c' = (s, tk, t, h')"
  using any_signer.attenuate_succeeds [OF assms(1,3-6), of t tk] attenuate_tail built.extended [OF assms(2,1)] by metis

lemma executor_key_tail: "delegations c \<noteq> [] \<Longrightarrow> chain_tail P c = (s, k, p, h) \<Longrightarrow> executor_key c = k"
  by (auto simp: chain_tail_def executor_key_def block_tail_def)

end
