(* ===== verification/Merkle.thy ===== *)
theory Merkle
  imports Externals
begin

text \<open>
  What the two Merkle trees of the program (the witness log and the revocation map) rely
  on in their hashing: leaves and nodes are hashed from distinguishable encodings, and a
  node encoding determines its children.
\<close>

section \<open>The interface\<close>

locale tree_hash =
  fixes P :: prims
    and leaf_bytes :: "'a \<Rightarrow> u8 list"
    and node_bytes :: "digest \<Rightarrow> digest \<Rightarrow> u8 list"
    and leaf :: "'a \<Rightarrow> digest"
    and node :: "digest \<Rightarrow> digest \<Rightarrow> digest"
  assumes leaf_def: "leaf x = blake3 P (leaf_bytes x)"
    and node_def: "node l r = blake3 P (node_bytes l r)"
    and leaf_bytes_inject: "leaf_bytes x = leaf_bytes y \<Longrightarrow> x = y"
    and node_bytes_inject: "node_bytes a b = node_bytes c d \<Longrightarrow> a = c \<and> b = d"
    and leaf_node_disjoint: "leaf_bytes x \<noteq> node_bytes a b"
begin

lemma node_eqD:
  "collision_free P Q \<Longrightarrow> node a b = node c d \<Longrightarrow> node_bytes a b \<in> Q \<Longrightarrow> node_bytes c d \<in> Q \<Longrightarrow>
     a = c \<and> b = d"
  unfolding node_def by (blast dest: collision_freeD node_bytes_inject)

lemma leaf_eqD:
  "collision_free P Q \<Longrightarrow> leaf x = leaf y \<Longrightarrow> leaf_bytes x \<in> Q \<Longrightarrow> leaf_bytes y \<in> Q \<Longrightarrow> x = y"
  unfolding leaf_def by (blast dest: collision_freeD leaf_bytes_inject)

lemma leaf_node_neq:
  "collision_free P Q \<Longrightarrow> leaf_bytes x \<in> Q \<Longrightarrow> node_bytes a b \<in> Q \<Longrightarrow> leaf x \<noteq> node a b"
  unfolding leaf_def node_def using leaf_node_disjoint by (blast dest: collision_freeD)

lemma node_leaf_neq:
  "collision_free P Q \<Longrightarrow> leaf_bytes x \<in> Q \<Longrightarrow> node_bytes a b \<in> Q \<Longrightarrow> node a b \<noteq> leaf x"
  using leaf_node_neq by metis

end

section \<open>Splitting a range\<close>

text \<open>
  The largest power of two below \<open>n\<close>: the loop doubles \<open>k\<close> while its double is below
  \<open>n\<close>. The code enters it with 1.
\<close>

function split_loop :: "nat \<Rightarrow> nat \<Rightarrow> nat" where
  "split_loop k n = (if 0 < k \<and> 2 * k < n then split_loop (2 * k) n else k)"
  by pat_completeness auto
termination
  by (relation "measure (\<lambda>(k, n). n - k)") auto

declare split_loop.simps [simp del]

definition split_point :: "nat \<Rightarrow> nat" where
  "split_point n = split_loop 1 n"

fun is_power_of_two :: "nat \<Rightarrow> bool" where
  "is_power_of_two n =
     (if n = 0 then False else if n = 1 then True
      else if odd n then False else is_power_of_two (n div 2))"

declare is_power_of_two.simps [simp del]

lemma is_power_of_two_iff: "is_power_of_two n \<longleftrightarrow> (\<exists>d. n = 2 ^ d)"
proof (induction n rule: is_power_of_two.induct)
  case (1 n)
  show ?case
  proof (cases "n = 1 \<or> n = 0 \<or> odd n")
    case True
    have "n = 1" if "n = 2 ^ d" "odd n" for d
      using that by (cases d) auto
    with True show ?thesis
      by (subst is_power_of_two.simps) (auto intro: exI [of _ 0])
  next
    case False
    then have half: "n = 2 * (n div 2)" by simp
    have "(\<exists>d. n div 2 = 2 ^ d) \<longleftrightarrow> (\<exists>d. n = 2 ^ d)"
    proof
      assume "\<exists>d. n div 2 = 2 ^ d"
      then obtain d where "n div 2 = 2 ^ d" by blast
      with half have "n = 2 ^ Suc d" by simp
      then show "\<exists>d. n = 2 ^ d" ..
    next
      assume "\<exists>d. n = 2 ^ d"
      then obtain d where d: "n = 2 ^ d" by blast
      with False obtain e where "d = Suc e" by (cases d) auto
      with d have "n div 2 = 2 ^ e" by simp
      then show "\<exists>d. n div 2 = 2 ^ d" ..
    qed
    with 1 False show ?thesis
      by (subst is_power_of_two.simps) auto
  qed
qed

lemma is_power_of_two_power [simp]: "is_power_of_two (2 ^ d)"
  by (auto simp: is_power_of_two_iff)

lemma split_loop_spec:
  "2 ^ d < n \<Longrightarrow> \<exists>e \<ge> d. split_loop (2 ^ d) n = 2 ^ e \<and> 2 ^ e < n \<and> n \<le> 2 * 2 ^ e"
proof (induction "n - 2 ^ d" arbitrary: d rule: less_induct)
  case less
  show ?case
  proof (cases "2 * 2 ^ d < n")
    case True
    then have "split_loop (2 ^ d) n = split_loop (2 ^ Suc d) n"
      by (subst split_loop.simps) simp
    moreover have "n - 2 ^ Suc d < n - 2 ^ d"
      using less.prems by (simp add: diff_less_mono2)
    ultimately show ?thesis
      using less.hyps [of "Suc d"] True by (metis Suc_leD power_Suc)
  next
    case False
    then have "split_loop (2 ^ d) n = 2 ^ d"
      by (subst split_loop.simps) simp
    with False less.prems show ?thesis
      by (intro exI [of _ d]) simp
  qed
qed

lemma split_point_spec:
  assumes "1 < n"
  obtains d where "split_point n = 2 ^ d" "2 ^ d < n" "n \<le> 2 * 2 ^ d"
  using split_loop_spec [of 0 n] assms by (auto simp: split_point_def)

lemma split_point_bounds:
  assumes "1 < n"
  shows "0 < split_point n" and "split_point n < n" and "n \<le> 2 * split_point n"
  by (rule split_point_spec [OF assms]; simp)+

lemma split_point_less [simp]:
  "Suc 0 < n \<Longrightarrow> 0 < split_point n"
  "Suc 0 < n \<Longrightarrow> split_point n < n"
  "Suc 0 < n \<Longrightarrow> n - split_point n < n"
  using split_point_bounds [of n] by simp_all

lemma two_le_length: "hs \<noteq> [] \<Longrightarrow> length hs \<noteq> Suc 0 \<Longrightarrow> Suc 0 < length hs"
  by (cases hs) auto

lemma split_point_unique:
  assumes "2 ^ d < n" and "n \<le> 2 * 2 ^ d"
  shows "split_point n = 2 ^ d"
proof -
  have "1 < n" using assms(1) by (metis le_less_trans one_le_numeral one_le_power)
  then obtain e where e: "split_point n = 2 ^ e" "2 ^ e < n" "n \<le> 2 * 2 ^ e"
    by (rule split_point_spec)
  from e(2) assms(2) have "(2 :: nat) ^ e < 2 ^ Suc d" by simp
  then have "e < Suc d" by (simp only: power_strict_increasing_iff)
  moreover from assms(1) e(3) have "(2 :: nat) ^ d < 2 ^ Suc e" by simp
  then have "d < Suc e" by (simp only: power_strict_increasing_iff)
  ultimately show ?thesis using e(1) by simp
qed

lemma split_point_pow2 [simp]: "split_point (2 * 2 ^ d) = 2 ^ d"
  by (rule split_point_unique) simp_all

text \<open>
  The same loop on a 64-bit \<^verbatim>\<open>usize\<close>, where \<^verbatim>\<open>k << 1\<close> drops the top bit. It returns
  when \<open>n\<close> is at most 2 to the 63, and does not return above.
\<close>

partial_function (option) split_loop_usize :: "64 word \<Rightarrow> 64 word \<Rightarrow> 64 word option" where
  "split_loop_usize k n = (if push_bit 1 k < n then split_loop_usize (push_bit 1 k) n else Some k)"

definition split_point_usize :: "64 word \<Rightarrow> 64 word option" where
  "split_point_usize n = split_loop_usize 1 n"

lemma push_bit_power [simp]: "push_bit 1 (2 ^ i :: 64 word) = 2 ^ Suc i"
  by (simp add: push_bit_eq_mult mult.commute)

lemma len64: "LENGTH(64) = 64"
  by simp

lemma unat_power_64: "i < 64 \<Longrightarrow> unat (2 ^ i :: 64 word) = 2 ^ i"
proof -
  assume "i < 64"
  then have "(2 :: nat) ^ i < 2 ^ 64" by (intro power_strict_increasing) simp_all
  then have "unat (of_nat (2 ^ i) :: 64 word) = 2 ^ i" by (simp only: unat_of_nat mod_less len64)
  then show ?thesis by simp
qed

lemma split_loop_usize_agrees:
  "unat n \<le> 2 ^ 63 \<Longrightarrow> 2 ^ d < unat n \<Longrightarrow>
     split_loop_usize (2 ^ d) n = Some (of_nat (split_loop (2 ^ d) (unat n)))"
proof (induction "unat n - 2 ^ d" arbitrary: d rule: less_induct)
  case less
  have "(2 :: nat) ^ d < 2 ^ 63" using less.prems by linarith
  then have d: "d < 63" by (simp only: power_strict_increasing_iff)
  then have lt: "push_bit 1 (2 ^ d) < n \<longleftrightarrow> 2 * 2 ^ d < unat n"
    by (simp only: push_bit_power word_less_nat_alt unat_power_64 power_Suc Suc_less_eq)
      (use unat_power_64 [of "Suc d"] in simp)
  show ?case
  proof (cases "2 * 2 ^ d < unat n")
    case True
    then have "split_loop_usize (2 ^ d) n = split_loop_usize (push_bit 1 (2 ^ d)) n"
      by (subst split_loop_usize.simps) (simp only: lt if_True)
    then have "split_loop_usize (2 ^ d) n = split_loop_usize (2 ^ Suc d) n"
      by (simp only: push_bit_power)
    moreover have "split_loop (2 ^ d) (unat n) = split_loop (2 ^ Suc d) (unat n)"
      using True by (subst split_loop.simps) simp
    moreover have "split_loop_usize (2 ^ Suc d) n = Some (of_nat (split_loop (2 ^ Suc d) (unat n)))"
      using less.prems True by (intro less.hyps) (simp_all add: diff_less_mono2)
    ultimately show ?thesis by simp
  next
    case False
    then have "split_loop_usize (2 ^ d) n = Some (2 ^ d)"
      by (subst split_loop_usize.simps) (simp only: lt if_False)
    moreover have "split_loop (2 ^ d) (unat n) = 2 ^ d"
      using False by (subst split_loop.simps) simp
    ultimately show ?thesis by simp
  qed
qed

lemma split_point_usize_agrees:
  assumes "1 < unat n" and "unat n \<le> 2 ^ 63"
  shows "split_point_usize n = Some (of_nat (split_point (unat n)))"
  using split_loop_usize_agrees [of n 0] assms
  by (simp add: split_point_usize_def split_point_def)

lemma split_loop_usize_diverges:
  "split_loop_usize k n = Some y \<Longrightarrow> 2 ^ 63 < unat n \<longrightarrow> (\<forall>i. k \<noteq> 2 ^ i)"
proof (rule split_loop_usize.raw_induct [where P = "\<lambda>k n y. 2 ^ 63 < unat n \<longrightarrow> (\<forall>i. k \<noteq> 2 ^ i)"])
  fix loop :: "64 word \<Rightarrow> 64 word \<Rightarrow> 64 word option" and k n y
  assume IH: "\<And>k n y. loop k n = Some y \<Longrightarrow> 2 ^ 63 < unat n \<longrightarrow> (\<forall>i. k \<noteq> 2 ^ i)"
    and body: "(if push_bit 1 k < n then loop (push_bit 1 k) n else Some k) = Some y"
  show "2 ^ 63 < unat n \<longrightarrow> (\<forall>i. k \<noteq> 2 ^ i)"
  proof (intro impI allI notI)
    fix i
    assume big: "2 ^ 63 < unat n" and k: "k = 2 ^ i"
    have "unat (2 ^ Suc i :: 64 word) \<le> 2 ^ 63"
    proof (cases "Suc i < 64")
      case True
      have "(2 :: nat) ^ Suc i \<le> 2 ^ 63"
        using True by (intro power_increasing) simp_all
      with True show ?thesis by (simp only: unat_power_64)
    next
      case False
      then obtain j where "Suc i = 64 + j" by (metis le_add_diff_inverse not_less)
      then have "(2 :: 64 word) ^ Suc i = 2 ^ 64 * 2 ^ j" by (simp only: power_add)
      also have "(2 :: 64 word) ^ 64 = 0" by simp
      finally show ?thesis by simp
    qed
    then have "push_bit 1 k < n"
      using big by (simp only: k push_bit_power word_less_nat_alt)
    then have "loop (2 ^ Suc i) n = Some y"
      using body by (simp only: k push_bit_power if_True)
    from IH [OF this] big show False by blast
  qed
qed

lemma split_point_usize_diverges: "2 ^ 63 < unat n \<Longrightarrow> split_point_usize n = None"
  using split_loop_usize_diverges [of 1 n]
  by (cases "split_point_usize n") (auto simp: split_point_usize_def dest: spec [where x = 0])

end
