(* ===== verification/Witness.thy ===== *)
theory Witness
  imports Crypto Merkle
begin

text \<open>
  The crate \<^verbatim>\<open>core/witness\<close>: the append-only Merkle log with its memoized subtrees,
  inclusion proofs, and the signed heads that observers reconcile. The verification of
  consistency proofs is in the theory Consistency. An index or range outside the leaf
  vector is a panic, the outer \<^verbatim>\<open>None\<close>.
\<close>

section \<open>Hashing\<close>

definition leaf_prefix :: u8 where "leaf_prefix = 0"
definition node_prefix :: u8 where "node_prefix = 1"

definition hash_leaf :: "prims \<Rightarrow> u8 list \<Rightarrow> digest" where
  "hash_leaf P data = blake3 P ([leaf_prefix] @ data)"

definition hash_node :: "prims \<Rightarrow> digest \<Rightarrow> digest \<Rightarrow> digest" where
  "hash_node P l r = blake3 P ([node_prefix] @ array_bytes l @ array_bytes r)"

record action_receipt =
  chain_digest_of :: digest
  action_digest :: digest
  nonce :: digest
  prev_root :: digest

definition action_receipt_json :: "action_receipt \<Rightarrow> json" where
  "action_receipt_json r =
     JObj [(''chain_digest'', array_json (chain_digest_of r)),
           (''action_digest'', array_json (action_digest r)),
           (''nonce'', array_json (nonce r)),
           (''prev_root'', array_json (prev_root r))]"

definition canonical_bytes :: "prims \<Rightarrow> action_receipt \<Rightarrow> u8 list" where
  "canonical_bytes P r = jcs P (action_receipt_json r)"

definition action_digest_domain :: "u8 list" where
  "action_digest_domain = str_bytes ''indexone-witness/action-digest/v1''"

definition bind_action_bytes :: "string \<Rightarrow> digest \<Rightarrow> u8 list" where
  "bind_action_bytes purp params_digest =
     action_digest_domain @ u64_be_bytes (of_nat (length purp)) @ str_bytes purp @ array_bytes params_digest"

definition bind_action :: "prims \<Rightarrow> string \<Rightarrow> digest \<Rightarrow> digest" where
  "bind_action P purp params_digest = blake3 P (bind_action_bytes purp params_digest)"

section \<open>The log\<close>

record path_step =
  sibling :: digest
  sibling_is_left :: bool

record inclusion_proof =
  leaf_index :: nat
  tree_size :: nat
  path :: "path_step list"

record consistency_proof =
  nodes :: "digest list"

type_synonym subtree_memo = "(nat \<times> nat) \<rightharpoonup> digest"

record witness =
  leaf_hashes :: "digest list"
  subtree_cache :: subtree_memo

definition witness_new :: witness where
  "witness_new = \<lparr>leaf_hashes = [], subtree_cache = Map.empty\<rparr>"

definition empty_root :: "prims \<Rightarrow> digest" where
  "empty_root P = hash_leaf P []"

text \<open>The root over a range; the returned cache is the one the call leaves behind.\<close>

function subtree ::
  "prims \<Rightarrow> digest list \<Rightarrow> subtree_memo \<Rightarrow> nat \<Rightarrow> nat \<Rightarrow> (digest \<times> subtree_memo) option" where
  "subtree P hs c start n =
     (if n = 0 then Some (empty_root P, c)
      else if n = 1 then (if start < length hs then Some (hs ! start, c) else None)
      else
        (let perfect = is_power_of_two n \<and> n dvd start
         in case (if perfect then c (start, n) else None) of
              Some h \<Rightarrow> Some (h, c)
            | None \<Rightarrow>
                (let k = split_point n
                 in case subtree P hs c start k of
                      None \<Rightarrow> None
                    | Some (l, c1) \<Rightarrow>
                        (case subtree P hs c1 (start + k) (n - k) of
                           None \<Rightarrow> None
                         | Some (r, c2) \<Rightarrow>
                             (let h = hash_node P l r
                              in Some (h, if perfect then c2((start, n) \<mapsto> h) else c2))))))"
  by pat_completeness auto
termination
  by (relation "measure (\<lambda>(P, hs, c, start, n). n)") auto

declare subtree.simps [simp del]

function subtree_path ::
  "prims \<Rightarrow> digest list \<Rightarrow> subtree_memo \<Rightarrow> nat \<Rightarrow> nat \<Rightarrow> nat \<Rightarrow> (path_step list \<times> subtree_memo) option" where
  "subtree_path P hs c start n index =
     (if n \<le> 1 then Some ([], c)
      else
        (let k = split_point n
         in if index < k then
              (case subtree_path P hs c start k index of
                 None \<Rightarrow> None
               | Some (p, c1) \<Rightarrow>
                   (case subtree P hs c1 (start + k) (n - k) of
                      None \<Rightarrow> None
                    | Some (h, c2) \<Rightarrow> Some (p @ [\<lparr>sibling = h, sibling_is_left = False\<rparr>], c2)))
            else
              (case subtree_path P hs c (start + k) (n - k) (index - k) of
                 None \<Rightarrow> None
               | Some (p, c1) \<Rightarrow>
                   (case subtree P hs c1 start k of
                      None \<Rightarrow> None
                    | Some (h, c2) \<Rightarrow> Some (p @ [\<lparr>sibling = h, sibling_is_left = True\<rparr>], c2)))))"
  by pat_completeness auto
termination
  by (relation "measure (\<lambda>(P, hs, c, start, n, index). n)") (auto simp: not_le)

declare subtree_path.simps [simp del]

text \<open>
  With \<open>m \<noteq> n\<close> and at most one leaf the recursion of the code would not end; no
  caller gets there, and the branch counts as a crash.
\<close>

function subproof ::
  "prims \<Rightarrow> digest list \<Rightarrow> subtree_memo \<Rightarrow> nat \<Rightarrow> nat \<Rightarrow> nat \<Rightarrow> bool \<Rightarrow> digest list \<Rightarrow>
   (digest list \<times> subtree_memo) option" where
  "subproof P hs c m start n b out =
     (if m = n then
        (if \<not> b then
           (case subtree P hs c start n of None \<Rightarrow> None | Some (h, c1) \<Rightarrow> Some (out @ [h], c1))
         else Some (out, c))
      else if n \<le> 1 then None
      else
        (let k = split_point n
         in if m \<le> k then
              (case subproof P hs c m start k b out of
                 None \<Rightarrow> None
               | Some (out1, c1) \<Rightarrow>
                   (case subtree P hs c1 (start + k) (n - k) of
                      None \<Rightarrow> None
                    | Some (h, c2) \<Rightarrow> Some (out1 @ [h], c2)))
            else
              (case subproof P hs c (m - k) (start + k) (n - k) False out of
                 None \<Rightarrow> None
               | Some (out1, c1) \<Rightarrow>
                   (case subtree P hs c1 start k of
                      None \<Rightarrow> None
                    | Some (h, c2) \<Rightarrow> Some (out1 @ [h], c2)))))"
  by pat_completeness auto
termination
  by (relation "measure (\<lambda>(P, hs, c, m, start, n, b, out). n)") (auto simp: not_le)

declare subproof.simps [simp del]

definition witness_root :: "prims \<Rightarrow> witness \<Rightarrow> (digest \<times> witness) option" where
  "witness_root P w =
     (case subtree P (leaf_hashes w) (subtree_cache w) 0 (length (leaf_hashes w)) of
        None \<Rightarrow> None
      | Some (h, c) \<Rightarrow> Some (h, w\<lparr>subtree_cache := c\<rparr>))"

definition witness_len :: "witness \<Rightarrow> nat" where
  "witness_len w = length (leaf_hashes w)"

definition witness_is_empty :: "witness \<Rightarrow> bool" where
  "witness_is_empty w \<longleftrightarrow> leaf_hashes w = []"

definition witness_append :: "prims \<Rightarrow> witness \<Rightarrow> action_receipt \<Rightarrow> nat \<times> witness" where
  "witness_append P w r =
     (let index = length (leaf_hashes w)
      in (index, w\<lparr>leaf_hashes := leaf_hashes w @ [hash_leaf P (canonical_bytes P r)]\<rparr>))"

definition prove_inclusion :: "prims \<Rightarrow> witness \<Rightarrow> nat \<Rightarrow> (inclusion_proof option \<times> witness) option" where
  "prove_inclusion P w index =
     (if length (leaf_hashes w) \<le> index then Some (None, w)
      else
        (case subtree_path P (leaf_hashes w) (subtree_cache w) 0 (length (leaf_hashes w)) index of
           None \<Rightarrow> None
         | Some (p, c) \<Rightarrow>
             Some (Some \<lparr>leaf_index = index, tree_size = length (leaf_hashes w), path = p\<rparr>,
                   w\<lparr>subtree_cache := c\<rparr>)))"

definition prove_consistency ::
  "prims \<Rightarrow> witness \<Rightarrow> nat \<Rightarrow> nat \<Rightarrow> (consistency_proof option \<times> witness) option" where
  "prove_consistency P w old_size new_size =
     (if new_size \<noteq> length (leaf_hashes w) \<or> new_size < old_size then Some (None, w)
      else if old_size \<noteq> 0 \<and> old_size \<noteq> new_size then
        (case subproof P (leaf_hashes w) (subtree_cache w) old_size 0 new_size True [] of
           None \<Rightarrow> None
         | Some (ns, c) \<Rightarrow> Some (Some \<lparr>nodes = ns\<rparr>, w\<lparr>subtree_cache := c\<rparr>))
      else Some (Some \<lparr>nodes = []\<rparr>, w))"

section \<open>Inclusion\<close>

definition max_proof_path :: nat where
  "max_proof_path = 64"

fun fold_path :: "prims \<Rightarrow> digest \<Rightarrow> path_step list \<Rightarrow> digest" where
  "fold_path P acc [] = acc"
| "fold_path P acc (s # ss) =
     fold_path P (if sibling_is_left s then hash_node P (sibling s) acc else hash_node P acc (sibling s)) ss"

definition verify_inclusion :: "prims \<Rightarrow> action_receipt \<Rightarrow> inclusion_proof \<Rightarrow> digest \<Rightarrow> bool" where
  "verify_inclusion P r pf root =
     (if tree_size pf \<le> leaf_index pf \<or> max_proof_path < length (path pf) then False
      else fold_path P (hash_leaf P (canonical_bytes P r)) (path pf) = root)"

text \<open>The signed head; the panic is that of \<^verbatim>\<open>expect("sign tree head")\<close>.\<close>

record signed_tree_head =
  sth_size :: nat
  sth_root :: digest
  sth_signature :: signature

definition sth_signing_bytes :: "prims \<Rightarrow> nat \<Rightarrow> digest \<Rightarrow> u8 list" where
  "sth_signing_bytes P n root = jcs P (JArr [JNum n, array_json root])"

definition signed_head :: "prims \<Rightarrow> witness \<Rightarrow> signer \<Rightarrow> (signed_tree_head \<times> witness) option" where
  "signed_head P w sg =
     (let n = length (leaf_hashes w)
      in case witness_root P w of
           None \<Rightarrow> None
         | Some (root, w1) \<Rightarrow>
             (case sg_sign sg (sth_signing_bytes P n root) of
                Inl _ \<Rightarrow> None
              | Inr s \<Rightarrow> Some (\<lparr>sth_size = n, sth_root = root, sth_signature = s\<rparr>, w1)))"

definition verify_signed_head :: "prims \<Rightarrow> signed_tree_head \<Rightarrow> public_key \<Rightarrow> bool" where
  "verify_signed_head P sth log_key =
     or_false (verify_signature P (sth_signing_bytes P (sth_size sth) (sth_root sth)) (sth_signature sth) log_key)"

section \<open>The uncached specification\<close>

text \<open>RFC 6962 over the leaf hashes, as the differential oracle of the tests has it.\<close>

function naive_root :: "prims \<Rightarrow> digest list \<Rightarrow> digest" where
  "naive_root P hs =
     (if length hs = 0 then empty_root P
      else if length hs = 1 then hs ! 0
      else
        (let k = split_point (length hs)
         in hash_node P (naive_root P (take k hs)) (naive_root P (drop k hs))))"
  by pat_completeness auto
termination
  by (relation "measure (\<lambda>(P, hs). length hs)") (auto simp: not_le min_def dest: two_le_length)

declare naive_root.simps [simp del]

function naive_path :: "prims \<Rightarrow> digest list \<Rightarrow> nat \<Rightarrow> path_step list" where
  "naive_path P hs index =
     (if length hs \<le> 1 then []
      else
        (let k = split_point (length hs)
         in if index < k
            then naive_path P (take k hs) index @ [\<lparr>sibling = naive_root P (drop k hs), sibling_is_left = False\<rparr>]
            else naive_path P (drop k hs) (index - k) @ [\<lparr>sibling = naive_root P (take k hs), sibling_is_left = True\<rparr>]))"
  by pat_completeness auto
termination
  by (relation "measure (\<lambda>(P, hs, index). length hs)") (auto simp: not_le min_def dest: two_le_length)

declare naive_path.simps [simp del]

function naive_subproof :: "prims \<Rightarrow> nat \<Rightarrow> digest list \<Rightarrow> bool \<Rightarrow> digest list" where
  "naive_subproof P m hs b =
     (if m = length hs then (if \<not> b then [naive_root P hs] else [])
      else if length hs \<le> 1 then []
      else
        (let k = split_point (length hs)
         in if m \<le> k then naive_subproof P m (take k hs) b @ [naive_root P (drop k hs)]
            else naive_subproof P (m - k) (drop k hs) False @ [naive_root P (take k hs)]))"
  by pat_completeness auto
termination
  by (relation "measure (\<lambda>(P, m, hs, b). length hs)") (auto simp: not_le min_def dest: two_le_length)

declare naive_subproof.simps [simp del]

section \<open>Hashing satisfies the tree interface\<close>

interpretation log_hash: tree_hash P "\<lambda>d. [leaf_prefix] @ d"
  "\<lambda>l r. [node_prefix] @ array_bytes l @ array_bytes r" "hash_leaf P" "hash_node P" for P
  by unfold_locales (auto simp: hash_leaf_def hash_node_def leaf_prefix_def node_prefix_def)

lemma action_receipt_json_inject [simp, json_inj]:
  "action_receipt_json a = action_receipt_json b \<longleftrightarrow> a = b"
  by (cases a; cases b) (auto simp: action_receipt_json_def)

text \<open>The purpose binding is injective: the length prefix separates purpose and parameters.\<close>

lemma bind_action_bytes_inject:
  assumes "length p < 2 ^ 64" and "length q < 2 ^ 64"
  shows "bind_action_bytes p d = bind_action_bytes q e \<longleftrightarrow> p = q \<and> d = e"
proof
  assume eq: "bind_action_bytes p d = bind_action_bytes q e"
  then have "(of_nat (length p) :: u64) = of_nat (length q)"
    and rest: "str_bytes p @ array_bytes d = str_bytes q @ array_bytes e"
    by (simp_all add: bind_action_bytes_def)
  then have "unat (of_nat (length p) :: u64) = unat (of_nat (length q) :: u64)" by simp
  with assms have "length p = length q" by (simp add: unat_of_nat)
  with rest show "p = q \<and> d = e" by (simp add: append_eq_append_conv)
qed simp

section \<open>The memoized tree is the naive tree\<close>

lemma naive_root_single [simp]: "naive_root P [h] = h"
  by (subst naive_root.simps) simp

lemma naive_root_empty [simp]: "naive_root P [] = empty_root P"
  by (subst naive_root.simps) simp

lemma naive_root_split:
  "Suc 0 < length hs \<Longrightarrow> naive_root P hs =
     hash_node P (naive_root P (take (split_point (length hs)) hs)) (naive_root P (drop (split_point (length hs)) hs))"
  by (subst naive_root.simps) (auto simp: Let_def)

lemma naive_path_split:
  "Suc 0 < length hs \<Longrightarrow> naive_path P hs i =
     (if i < split_point (length hs)
      then naive_path P (take (split_point (length hs)) hs) i @
        [\<lparr>sibling = naive_root P (drop (split_point (length hs)) hs), sibling_is_left = False\<rparr>]
      else naive_path P (drop (split_point (length hs)) hs) (i - split_point (length hs)) @
        [\<lparr>sibling = naive_root P (take (split_point (length hs)) hs), sibling_is_left = True\<rparr>])"
  by (subst naive_path.simps) (auto simp: Let_def)

lemma naive_path_short [simp]: "length hs \<le> Suc 0 \<Longrightarrow> naive_path P hs i = []"
  by (subst naive_path.simps) simp

lemma naive_subproof_split:
  "Suc 0 < length hs \<Longrightarrow> m \<noteq> length hs \<Longrightarrow> naive_subproof P m hs b =
     (if m \<le> split_point (length hs)
      then naive_subproof P m (take (split_point (length hs)) hs) b @ [naive_root P (drop (split_point (length hs)) hs)]
      else naive_subproof P (m - split_point (length hs)) (drop (split_point (length hs)) hs) False @
        [naive_root P (take (split_point (length hs)) hs)])"
  by (subst naive_subproof.simps) (auto simp: Let_def)

lemma naive_subproof_all [simp]:
  "naive_subproof P (length hs) hs b = (if b then [] else [naive_root P hs])"
  by (subst naive_subproof.simps) simp

text \<open>The leaf range a call works on.\<close>

abbreviation leaf_range :: "digest list \<Rightarrow> nat \<Rightarrow> nat \<Rightarrow> digest list" where
  "leaf_range hs start n \<equiv> take n (drop start hs)"

definition cache_ok :: "prims \<Rightarrow> digest list \<Rightarrow> subtree_memo \<Rightarrow> bool" where
  "cache_ok P hs c \<longleftrightarrow>
     (\<forall>start n h. c (start, n) = Some h \<longrightarrow> start + n \<le> length hs \<and> h = naive_root P (leaf_range hs start n))"

lemma cache_ok_empty [simp]: "cache_ok P hs Map.empty"
  by (simp add: cache_ok_def)

lemma cache_ok_hit:
  "cache_ok P hs c \<Longrightarrow> c (start, n) = Some h \<Longrightarrow> h = naive_root P (leaf_range hs start n)"
  by (simp add: cache_ok_def)

lemma cache_ok_fill:
  "cache_ok P hs c \<Longrightarrow> start + n \<le> length hs \<Longrightarrow>
     cache_ok P hs (c((start, n) \<mapsto> naive_root P (leaf_range hs start n)))"
  by (auto simp: cache_ok_def)

lemma cache_ok_append: "cache_ok P hs c \<Longrightarrow> cache_ok P (hs @ xs) c"
  by (fastforce simp: cache_ok_def)

lemma range_split:
  assumes "Suc 0 < n" and "start + n \<le> length hs"
  shows "split_point (length (leaf_range hs start n)) = split_point n"
    and "take (split_point n) (leaf_range hs start n) = leaf_range hs start (split_point n)"
    and "drop (split_point n) (leaf_range hs start n) = leaf_range hs (start + split_point n) (n - split_point n)"
proof -
  have "length (leaf_range hs start n) = n" using assms by simp
  then show "split_point (length (leaf_range hs start n)) = split_point n" by simp
  have "min (split_point n) n = split_point n" using assms(1) by simp
  then show "take (split_point n) (leaf_range hs start n) = leaf_range hs start (split_point n)"
    by (simp only: take_take)
  show "drop (split_point n) (leaf_range hs start n) = leaf_range hs (start + split_point n) (n - split_point n)"
    by (simp add: drop_take add.commute)
qed

lemma range_bounds:
  assumes "Suc 0 < n" and "start + n \<le> length hs"
  shows "start + split_point n \<le> length hs" and "start + split_point n + (n - split_point n) \<le> length hs"
  using assms split_point_less(2) [OF assms(1)] by linarith+

lemma range_root:
  assumes "Suc 0 < n" and "start + n \<le> length hs"
  shows "naive_root P (leaf_range hs start n) =
    hash_node P (naive_root P (leaf_range hs start (split_point n)))
      (naive_root P (leaf_range hs (start + split_point n) (n - split_point n)))"
proof -
  have "Suc 0 < length (leaf_range hs start n)" using assms by simp
  from naive_root_split [OF this] show ?thesis by (simp only: range_split [OF assms])
qed

lemma range_single: "start < length hs \<Longrightarrow> leaf_range hs start (Suc 0) = [hs ! start]"
  by (simp add: take_Suc_conv_app_nth)

lemma subtree_correct:
  "cache_ok P hs c \<Longrightarrow> start + n \<le> length hs \<Longrightarrow>
     \<exists>c'. subtree P hs c start n = Some (naive_root P (leaf_range hs start n), c') \<and> cache_ok P hs c'"
proof (induction n arbitrary: start c rule: less_induct)
  case (less n)
  consider "n = 0" | "n = 1" | "Suc 0 < n" by linarith
  then show ?case
  proof cases
    case 1
    with less.prems show ?thesis by (subst subtree.simps) simp
  next
    case 2
    with less.prems show ?thesis by (subst subtree.simps) (simp add: range_single)
  next
    case 3
    let ?k = "split_point n"
    note bounds = range_bounds [OF 3 less.prems(2)]
    from less.IH [OF split_point_less(2) [OF 3] less.prems(1) bounds(1)]
    obtain c1 where 1: "subtree P hs c start ?k = Some (naive_root P (leaf_range hs start ?k), c1)"
      and "cache_ok P hs c1" by blast
    from less.IH [OF split_point_less(3) [OF 3] this(2) bounds(2)]
    obtain c2 where 2: "subtree P hs c1 (start + ?k) (n - ?k) =
        Some (naive_root P (leaf_range hs (start + ?k) (n - ?k)), c2)"
      and ok2: "cache_ok P hs c2" by blast
    note root = range_root [OF 3 less.prems(2), of P, symmetric]
    show ?thesis
    proof (cases "if is_power_of_two n \<and> n dvd start then c (start, n) else None")
      case None
      with 3 1 2 show ?thesis
        by (subst subtree.simps)
          (auto simp: Let_def root ok2 intro: cache_ok_fill less.prems(2))
    next
      case (Some h)
      then have "h = naive_root P (leaf_range hs start n)"
        by (auto split: if_splits dest: cache_ok_hit [OF less.prems(1)])
      with 3 Some less.prems(1) show ?thesis
        by (subst subtree.simps) (simp add: Let_def)
    qed
  qed
qed

lemma subtree_path_correct:
  "cache_ok P hs c \<Longrightarrow> start + n \<le> length hs \<Longrightarrow>
     \<exists>c'. subtree_path P hs c start n i = Some (naive_path P (leaf_range hs start n) i, c') \<and> cache_ok P hs c'"
proof (induction n arbitrary: start c i rule: less_induct)
  case (less n)
  show ?case
  proof (cases "Suc 0 < n")
    case False
    with less.prems show ?thesis
      by (subst subtree_path.simps) simp
  next
    case True
    let ?k = "split_point n"
    note bounds = range_bounds [OF True less.prems(2)]
    have long: "Suc 0 < length (leaf_range hs start n)" using True less.prems by simp
    note split = naive_path_split [OF long, of P i, unfolded range_split [OF True less.prems(2)]]
    show ?thesis
    proof (cases "i < ?k")
      case left: True
      from less.IH [OF split_point_less(2) [OF True] less.prems(1) bounds(1)]
      obtain c1 where 1: "subtree_path P hs c start ?k i = Some (naive_path P (leaf_range hs start ?k) i, c1)"
        and "cache_ok P hs c1" by blast
      from subtree_correct [OF this(2) bounds(2)] obtain c2 where
        "subtree P hs c1 (start + ?k) (n - ?k) = Some (naive_root P (leaf_range hs (start + ?k) (n - ?k)), c2)"
        "cache_ok P hs c2" by blast
      with 1 left True split show ?thesis
        by (subst subtree_path.simps) (simp add: Let_def)
    next
      case right: False
      from less.IH [OF split_point_less(3) [OF True] less.prems(1) bounds(2)]
      obtain c1 where 1: "subtree_path P hs c (start + ?k) (n - ?k) (i - ?k) =
          Some (naive_path P (leaf_range hs (start + ?k) (n - ?k)) (i - ?k), c1)"
        and "cache_ok P hs c1" by blast
      from subtree_correct [OF this(2) bounds(1)] obtain c2 where
        "subtree P hs c1 start ?k = Some (naive_root P (leaf_range hs start ?k), c2)"
        "cache_ok P hs c2" by blast
      with 1 right True split show ?thesis
        by (subst subtree_path.simps) (simp add: Let_def)
    qed
  qed
qed

lemma subproof_correct:
  "cache_ok P hs c \<Longrightarrow> start + n \<le> length hs \<Longrightarrow> 0 < m \<Longrightarrow> m \<le> n \<Longrightarrow>
     \<exists>c'. subproof P hs c m start n b out = Some (out @ naive_subproof P m (leaf_range hs start n) b, c') \<and>
       cache_ok P hs c'"
proof (induction n arbitrary: start c m b out rule: less_induct)
  case (less n)
  have len: "length (leaf_range hs start n) = n" using less.prems by simp
  show ?case
  proof (cases "m = n")
    case True
    have all: "naive_subproof P n (leaf_range hs start n) b = (if b then [] else [naive_root P (leaf_range hs start n)])"
      using naive_subproof_all [of P "leaf_range hs start n" b] by (simp only: len)
    from subtree_correct [OF less.prems(1,2)] obtain c' where
      "subtree P hs c start n = Some (naive_root P (leaf_range hs start n), c')" "cache_ok P hs c'" by blast
    with True all less.prems(1) show ?thesis
      by (subst subproof.simps) simp
  next
    case False
    with less.prems have n: "Suc 0 < n" by simp
    let ?k = "split_point n"
    note bounds = range_bounds [OF n less.prems(2)]
    have long: "Suc 0 < length (leaf_range hs start n)" "m \<noteq> length (leaf_range hs start n)"
      using n False len by simp_all
    note split = naive_subproof_split [OF long, of P b, unfolded range_split [OF n less.prems(2)]]
    show ?thesis
    proof (cases "m \<le> ?k")
      case left: True
      from less.IH [OF split_point_less(2) [OF n] less.prems(1) bounds(1) less.prems(3) left]
      obtain c1 where 1: "subproof P hs c m start ?k b out = Some (out @ naive_subproof P m (leaf_range hs start ?k) b, c1)"
        and "cache_ok P hs c1" by blast
      from subtree_correct [OF this(2) bounds(2)] obtain c2 where
        "subtree P hs c1 (start + ?k) (n - ?k) = Some (naive_root P (leaf_range hs (start + ?k) (n - ?k)), c2)"
        "cache_ok P hs c2" by blast
      with 1 left False n split show ?thesis
        by (subst subproof.simps) (simp add: Let_def)
    next
      case right: False
      with less.prems have "0 < m - ?k" "m - ?k \<le> n - ?k" by simp_all
      from less.IH [OF split_point_less(3) [OF n] less.prems(1) bounds(2) this]
      obtain c1 where 1: "subproof P hs c (m - ?k) (start + ?k) (n - ?k) False out =
          Some (out @ naive_subproof P (m - ?k) (leaf_range hs (start + ?k) (n - ?k)) False, c1)"
        and "cache_ok P hs c1" by blast
      from subtree_correct [OF this(2) bounds(1)] obtain c2 where
        "subtree P hs c1 start ?k = Some (naive_root P (leaf_range hs start ?k), c2)"
        "cache_ok P hs c2" by blast
      with 1 right False n split show ?thesis
        by (subst subproof.simps) (simp add: Let_def)
    qed
  qed
qed

section \<open>States of the log\<close>

definition witness_ok :: "prims \<Rightarrow> witness \<Rightarrow> bool" where
  "witness_ok P w \<longleftrightarrow> cache_ok P (leaf_hashes w) (subtree_cache w)"

lemma witness_ok_new [simp]: "witness_ok P witness_new"
  by (simp add: witness_ok_def witness_new_def)

lemma leaf_hashes_new [simp]: "leaf_hashes witness_new = []"
  by (simp add: witness_new_def)

lemma witness_append_ok:
  "witness_ok P w \<Longrightarrow> witness_append P w r = (i, w') \<Longrightarrow>
     witness_ok P w' \<and> i = length (leaf_hashes w) \<and>
     leaf_hashes w' = leaf_hashes w @ [hash_leaf P (canonical_bytes P r)]"
  by (auto simp: witness_append_def witness_ok_def Let_def intro: cache_ok_append)

lemma witness_root_ok:
  "witness_ok P w \<Longrightarrow>
     \<exists>w'. witness_root P w = Some (naive_root P (leaf_hashes w), w') \<and> witness_ok P w' \<and>
       leaf_hashes w' = leaf_hashes w"
  using subtree_correct [of P "leaf_hashes w" "subtree_cache w" 0 "length (leaf_hashes w)"]
  by (auto simp: witness_root_def witness_ok_def)

lemma prove_inclusion_ok:
  "witness_ok P w \<Longrightarrow>
     \<exists>w'. prove_inclusion P w i =
       Some (if i < length (leaf_hashes w)
             then Some \<lparr>leaf_index = i, tree_size = length (leaf_hashes w), path = naive_path P (leaf_hashes w) i\<rparr>
             else None, w') \<and>
       witness_ok P w' \<and> leaf_hashes w' = leaf_hashes w"
  using subtree_path_correct [of P "leaf_hashes w" "subtree_cache w" 0 "length (leaf_hashes w)" i]
  by (auto simp: prove_inclusion_def witness_ok_def)

lemma prove_consistency_ok:
  "witness_ok P w \<Longrightarrow>
     \<exists>w'. prove_consistency P w m n =
       Some (if n = length (leaf_hashes w) \<and> m \<le> n
             then Some \<lparr>nodes = (if m = 0 then [] else naive_subproof P m (leaf_hashes w) True)\<rparr>
             else None, w') \<and>
       witness_ok P w' \<and> leaf_hashes w' = leaf_hashes w"
  using subproof_correct [of P "leaf_hashes w" "subtree_cache w" 0 "length (leaf_hashes w)" m True "[]"]
  by (auto simp: prove_consistency_def witness_ok_def)

text \<open>Any interleaving of the operations of the log keeps the cache right.\<close>

inductive log_step :: "prims \<Rightarrow> witness \<Rightarrow> witness \<Rightarrow> bool" for P where
  append: "witness_append P w r = (i, w') \<Longrightarrow> log_step P w w'"
| root: "witness_root P w = Some (h, w') \<Longrightarrow> log_step P w w'"
| inclusion: "prove_inclusion P w i = Some (pf, w') \<Longrightarrow> log_step P w w'"
| consistency: "prove_consistency P w m n = Some (cp, w') \<Longrightarrow> log_step P w w'"

inductive_cases log_stepE: "log_step P w w'"

inductive log_reachable :: "prims \<Rightarrow> witness \<Rightarrow> bool" for P where
  new: "log_reachable P witness_new"
| step: "log_reachable P w \<Longrightarrow> log_step P w w' \<Longrightarrow> log_reachable P w'"

lemma log_step_ok:
  assumes "log_step P w w'" and ok: "witness_ok P w"
  shows "witness_ok P w' \<and> (\<exists>xs. leaf_hashes w' = leaf_hashes w @ xs)"
  using assms(1)
proof (cases rule: log_step.cases)
  case (append r i)
  then show ?thesis using witness_append_ok [OF ok] by blast
next
  case (root h)
  then show ?thesis using witness_root_ok [OF ok] by auto
next
  case (inclusion i pf)
  then show ?thesis using prove_inclusion_ok [OF ok, of i] by auto
next
  case (consistency m n cp)
  then show ?thesis using prove_consistency_ok [OF ok, of m n] by auto
qed

lemma log_reachable_ok: "log_reachable P w \<Longrightarrow> witness_ok P w"
  by (induction rule: log_reachable.induct) (auto dest: log_step_ok)

lemma log_steps_ok:
  "(log_step P)\<^sup>*\<^sup>* w t \<Longrightarrow> witness_ok P w \<Longrightarrow>
     witness_ok P t \<and> (\<exists>xs. leaf_hashes t = leaf_hashes w @ xs)"
proof (induction rule: rtranclp_induct)
  case (step u t)
  then show ?case using log_step_ok [of P u t] by fastforce
qed simp

section \<open>Inclusion proofs are complete\<close>

lemma fold_path_snoc [simp]:
  "fold_path P acc (p @ [s]) =
     (if sibling_is_left s then hash_node P (sibling s) (fold_path P acc p)
      else hash_node P (fold_path P acc p) (sibling s))"
  by (induction p arbitrary: acc) auto

lemma naive_path_folds:
  "i < length hs \<Longrightarrow> fold_path P (hs ! i) (naive_path P hs i) = naive_root P hs"
proof (induction "length hs" arbitrary: hs i rule: less_induct)
  case less
  show ?case
  proof (cases "Suc 0 < length hs")
    case False
    with less.prems have "hs = [hs ! 0]" "i = 0" by (cases hs; auto)+
    then show ?thesis by (metis naive_root_single naive_path_short fold_path.simps(1) length_Cons list.size(3) order_refl)
  next
    case True
    let ?k = "split_point (length hs)"
    have k: "?k < length hs" "0 < ?k" using True by simp_all
    show ?thesis
    proof (cases "i < ?k")
      case left: True
      then have "fold_path P (take ?k hs ! i) (naive_path P (take ?k hs) i) = naive_root P (take ?k hs)"
        using k by (intro less.hyps) simp_all
      with left True show ?thesis
        by (simp add: naive_path_split naive_root_split [of hs])
    next
      case right: False
      then have "fold_path P (drop ?k hs ! (i - ?k)) (naive_path P (drop ?k hs) (i - ?k)) = naive_root P (drop ?k hs)"
        using k less.prems by (intro less.hyps) simp_all
      with right True less.prems show ?thesis
        by (simp add: naive_path_split naive_root_split [of hs])
    qed
  qed
qed

lemma naive_path_length: "length hs \<le> 2 ^ d \<Longrightarrow> length (naive_path P hs i) \<le> d"
proof (induction d arbitrary: hs i)
  case 0
  then show ?case by simp
next
  case (Suc d)
  show ?case
  proof (cases "Suc 0 < length hs")
    case False
    then show ?thesis by simp
  next
    case True
    let ?k = "split_point (length hs)"
    obtain e where e: "?k = 2 ^ e" "2 ^ e < length hs" "length hs \<le> 2 * 2 ^ e"
      using split_point_spec [of "length hs"] True by auto
    with Suc.prems have "(2 :: nat) ^ e < 2 ^ Suc d" by linarith
    then have "e \<le> d" by (simp only: power_strict_increasing_iff)
    then have "?k \<le> 2 ^ d" by (simp add: e)
    moreover have "length hs - ?k \<le> ?k" using e by linarith
    ultimately have "length (naive_path P (take ?k hs) i) \<le> d"
      "length (naive_path P (drop ?k hs) (i - ?k)) \<le> d"
      by (auto intro!: Suc.IH)
    with True show ?thesis by (simp add: naive_path_split)
  qed
qed

lemma verify_inclusion_iff:
  "verify_inclusion P r pf root \<longleftrightarrow>
     leaf_index pf < tree_size pf \<and> length (path pf) \<le> max_proof_path \<and>
     fold_path P (hash_leaf P (canonical_bytes P r)) (path pf) = root"
  by (auto simp: verify_inclusion_def)

text \<open>A \<^verbatim>\<open>usize\<close> never exceeds 2 to the 64, so the bound on the path never rejects an honest proof.\<close>

lemma verify_inclusion_complete:
  assumes "i < length hs" and "hs ! i = hash_leaf P (canonical_bytes P r)" and "length hs \<le> 2 ^ 64"
  shows "verify_inclusion P r \<lparr>leaf_index = i, tree_size = length hs, path = naive_path P hs i\<rparr> (naive_root P hs)"
  using naive_path_folds [OF assms(1), of P] naive_path_length [OF assms(3), of P i] assms(1,2)
  by (simp add: verify_inclusion_iff max_proof_path_def)

section \<open>Inclusion proofs are sound\<close>

text \<open>The node encodings hashed to compute a root, and those hashed to fold a path.\<close>

function node_queries :: "prims \<Rightarrow> digest list \<Rightarrow> u8 list set" where
  "node_queries P hs =
     (if length hs \<le> 1 then {}
      else
        (let k = split_point (length hs)
         in {[node_prefix] @ array_bytes (naive_root P (take k hs)) @ array_bytes (naive_root P (drop k hs))} \<union>
            node_queries P (take k hs) \<union> node_queries P (drop k hs)))"
  by pat_completeness auto
termination
  by (relation "measure (\<lambda>(P, hs). length hs)") (auto simp: not_le min_def)

declare node_queries.simps [simp del]

fun path_queries :: "prims \<Rightarrow> digest \<Rightarrow> path_step list \<Rightarrow> u8 list set" where
  "path_queries P acc [] = {}"
| "path_queries P acc (s # ss) =
     insert ([node_prefix] @ (if sibling_is_left s then array_bytes (sibling s) @ array_bytes acc
                              else array_bytes acc @ array_bytes (sibling s)))
       (path_queries P (if sibling_is_left s then hash_node P (sibling s) acc else hash_node P acc (sibling s)) ss)"

lemma path_queries_snoc [simp]:
  "path_queries P acc (p @ [s]) =
     insert ([node_prefix] @ (if sibling_is_left s then array_bytes (sibling s) @ array_bytes (fold_path P acc p)
                              else array_bytes (fold_path P acc p) @ array_bytes (sibling s)))
       (path_queries P acc p)"
  by (induction p arbitrary: acc) auto

lemma node_queries_split:
  "Suc 0 < length hs \<Longrightarrow> node_queries P hs =
     insert ([node_prefix] @ array_bytes (naive_root P (take (split_point (length hs)) hs)) @
              array_bytes (naive_root P (drop (split_point (length hs)) hs)))
       (node_queries P (take (split_point (length hs)) hs) \<union> node_queries P (drop (split_point (length hs)) hs))"
  by (subst node_queries.simps) (simp add: Let_def)

definition leaf_queries :: "u8 list set \<Rightarrow> u8 list set" where
  "leaf_queries D = (\<lambda>d. [leaf_prefix] @ d) ` D"

lemma leaf_queries_iff [simp]: "[leaf_prefix] @ d \<in> leaf_queries D \<longleftrightarrow> d \<in> D"
  by (auto simp: leaf_queries_def)

lemma path_step_eqI: "sibling s = h \<Longrightarrow> sibling_is_left s = b \<Longrightarrow> s = \<lparr>sibling = h, sibling_is_left = b\<rparr>"
  by simp

lemma fold_path_sound:
  assumes cf: "collision_free P Q"
  shows "ds \<noteq> [] \<Longrightarrow> fold_path P (hash_leaf P d) p = naive_root P (map (hash_leaf P) ds) \<Longrightarrow>
    leaf_queries (insert d (set ds)) \<union> node_queries P (map (hash_leaf P) ds) \<union> path_queries P (hash_leaf P d) p \<subseteq> Q \<Longrightarrow>
    \<exists>i < length ds. ds ! i = d \<and> p = naive_path P (map (hash_leaf P) ds) i"
proof (induction "length ds" arbitrary: ds p rule: less_induct)
  case less
  let ?hs = "map (hash_leaf P) ds" and ?k = "split_point (length ds)"
  have leaf_q: "[leaf_prefix] @ x \<in> Q" if "x \<in> insert d (set ds)" for x
    using less.prems(3) that leaf_queries_iff by blast
  show ?case
  proof (cases "Suc 0 < length ds")
    case False
    with less.prems(1) obtain e where ds: "ds = [e]" by (cases ds; cases "tl ds") auto
    show ?thesis
    proof (cases p rule: rev_cases)
      case Nil
      with less.prems(2) ds have "hash_leaf P d = hash_leaf P e" by simp
      from log_hash.leaf_eqD [OF cf this leaf_q leaf_q] have "d = e" by (simp add: ds)
      with Nil ds show ?thesis by simp
    next
      case (snoc p' s)
      let ?acc = "fold_path P (hash_leaf P d) p'"
      have e: "[leaf_prefix] @ e \<in> Q" by (rule leaf_q) (simp add: ds)
      show ?thesis
      proof (cases "sibling_is_left s")
        case True
        with less.prems(3) snoc have "[node_prefix] @ array_bytes (sibling s) @ array_bytes ?acc \<in> Q" by auto
        from log_hash.node_leaf_neq [OF cf e this] less.prems(2) True snoc ds show ?thesis by simp
      next
        case False
        with less.prems(3) snoc have "[node_prefix] @ array_bytes ?acc @ array_bytes (sibling s) \<in> Q" by auto
        from log_hash.node_leaf_neq [OF cf e this] less.prems(2) False snoc ds show ?thesis by simp
      qed
    qed
  next
    case True
    let ?L = "naive_root P (map (hash_leaf P) (take ?k ds))" and ?R = "naive_root P (map (hash_leaf P) (drop ?k ds))"
    have long: "Suc 0 < length ?hs" using True by simp
    have k: "?k < length ds" "0 < ?k" using True by simp_all
    have root: "naive_root P ?hs = hash_node P ?L ?R"
      using naive_root_split [OF long, of P] by (simp add: take_map drop_map)
    have nq: "[node_prefix] @ array_bytes ?L @ array_bytes ?R \<in> Q"
      "node_queries P (map (hash_leaf P) (take ?k ds)) \<subseteq> Q" "node_queries P (map (hash_leaf P) (drop ?k ds)) \<subseteq> Q"
      using less.prems(3) node_queries_split [OF long, of P] by (auto simp: take_map drop_map)
    show ?thesis
    proof (cases p rule: rev_cases)
      case Nil
      then have False
        using less.prems(2) root log_hash.leaf_node_neq [OF cf leaf_q nq(1), of d] by simp
      then show ?thesis ..
    next
      case (snoc p' s)
      let ?acc = "fold_path P (hash_leaf P d) p'"
      have pq: "path_queries P (hash_leaf P d) p' \<subseteq> Q" using less.prems(3) snoc by auto
      show ?thesis
      proof (cases "sibling_is_left s")
        case right: True
        have "[node_prefix] @ array_bytes (sibling s) @ array_bytes ?acc \<in> Q"
          using less.prems(3) snoc right by auto
        with less.prems(2) root right snoc nq(1) have eq: "sibling s = ?L" "?acc = ?R"
          using log_hash.node_eqD [OF cf, of "sibling s" ?acc ?L ?R] by simp_all
        have "leaf_queries (insert d (set (drop ?k ds))) \<subseteq> Q"
          using leaf_q set_drop_subset [of ?k ds] by (auto simp: leaf_queries_def)
        then have "\<exists>i < length (drop ?k ds). drop ?k ds ! i = d \<and> p' = naive_path P (map (hash_leaf P) (drop ?k ds)) i"
          using eq(2) nq pq k by (intro less.hyps) auto
        then obtain i where "i < length ds - ?k" "ds ! (?k + i) = d" "p' = naive_path P (map (hash_leaf P) (drop ?k ds)) i"
          using k by auto
        with True k snoc right eq(1) show ?thesis
          by (intro exI [of _ "?k + i"]) (auto simp: naive_path_split take_map drop_map)
      next
        case left: False
        have "[node_prefix] @ array_bytes ?acc @ array_bytes (sibling s) \<in> Q"
          using less.prems(3) snoc left by auto
        with less.prems(2) root left snoc nq(1) have eq: "?acc = ?L" "sibling s = ?R"
          using log_hash.node_eqD [OF cf, of ?acc "sibling s" ?L ?R] by simp_all
        have "leaf_queries (insert d (set (take ?k ds))) \<subseteq> Q"
          using leaf_q set_take_subset [of ?k ds] by (auto simp: leaf_queries_def)
        then have "\<exists>i < length (take ?k ds). take ?k ds ! i = d \<and> p' = naive_path P (map (hash_leaf P) (take ?k ds)) i"
          using eq(1) nq pq k by (intro less.hyps) auto
        then obtain i where "i < ?k" "ds ! i = d" "p' = naive_path P (map (hash_leaf P) (take ?k ds)) i"
          using k by auto
        with True k snoc left eq(2) show ?thesis
          by (intro exI [of _ i]) (auto simp: naive_path_split take_map drop_map)
      qed
    qed
  qed
qed

section \<open>The log as an interface\<close>

text \<open>
  What the clients of the log (the revocation log, the witness service) rely on: appends
  extend the leaves at the returned index, the root is the tree over the leaves, and an
  inclusion proof for a leaf is accepted against that root. Reads may change the state
  (the cache) but not the leaves.
\<close>

locale append_log =
  fixes ok :: "'s \<Rightarrow> bool" and leaves :: "'s \<Rightarrow> digest list"
    and append :: "'s \<Rightarrow> 'e \<Rightarrow> nat \<times> 's"
    and root :: "'s \<Rightarrow> (digest \<times> 's) option"
    and prove :: "'s \<Rightarrow> nat \<Rightarrow> (inclusion_proof option \<times> 's) option"
    and leaf_of :: "'e \<Rightarrow> digest" and tree :: "digest list \<Rightarrow> digest"
    and accepts :: "'e \<Rightarrow> inclusion_proof \<Rightarrow> digest \<Rightarrow> bool"
  assumes append_law: "ok s \<Longrightarrow> append s r = (i, s') \<Longrightarrow>
      ok s' \<and> i = length (leaves s) \<and> leaves s' = leaves s @ [leaf_of r]"
    and root_law: "ok s \<Longrightarrow> \<exists>s'. root s = Some (tree (leaves s), s') \<and> ok s' \<and> leaves s' = leaves s"
    and prove_law: "ok s \<Longrightarrow> i < length (leaves s) \<Longrightarrow> leaves s ! i = leaf_of r \<Longrightarrow> length (leaves s) \<le> 2 ^ 64 \<Longrightarrow>
      \<exists>pf s'. prove s i = Some (Some pf, s') \<and> ok s' \<and> leaves s' = leaves s \<and> accepts r pf (tree (leaves s))"
begin

lemma append_root:
  assumes "ok s" and "append s r = (i, s')"
  shows "\<exists>s''. root s' = Some (tree (leaves s @ [leaf_of r]), s'') \<and> ok s'' \<and> leaves s'' = leaves s @ [leaf_of r]"
  using append_law [OF assms] root_law [of s'] by auto

text \<open>What was appended stays provable while the log grows.\<close>

lemma appended_provable:
  assumes "ok s" and "append s r = (i, s')" and "ok t" and "leaves t = leaves s' @ xs" and "length (leaves t) \<le> 2 ^ 64"
  shows "\<exists>pf t'. prove t i = Some (Some pf, t') \<and> accepts r pf (tree (leaves t))"
proof -
  from append_law [OF assms(1,2)] have "i < length (leaves t)" "leaves t ! i = leaf_of r"
    by (simp_all add: assms(4) nth_append)
  from prove_law [OF assms(3) this assms(5)] show ?thesis by blast
qed

end

interpretation witness_log: append_log "witness_ok P" leaf_hashes "witness_append P" "witness_root P"
  "prove_inclusion P" "\<lambda>r. hash_leaf P (canonical_bytes P r)" "naive_root P" "verify_inclusion P" for P
proof (unfold_locales, goal_cases)
  case (1 s r i s')
  then show ?case by (rule witness_append_ok)
next
  case (2 s)
  then show ?case by (rule witness_root_ok)
next
  case (3 s i r)
  then show ?case
    using prove_inclusion_ok [of P s i] verify_inclusion_complete [of i "leaf_hashes s" P r] by auto
qed

end
