(* ===== verification/Attestation.thy ===== *)
theory Attestation
  imports Chain Witness
begin

text \<open>
  The crate \<^verbatim>\<open>core/attestation\<close>: a completion signed by someone other than the
  executing agent, and the k-of-n aggregate of such completions.
\<close>

section \<open>A single attestation\<close>

datatype attester_role = CounterSigned | ThirdParty

record completion_attestation =
  ca_chain_digest :: digest
  requested_action_digest :: digest
  outcome_digest :: digest
  witnessed_root :: digest
  inclusion :: inclusion_proof
  attester :: principal
  attester_key :: public_key
  ca_role :: attester_role
  ca_signature :: signature

datatype attestation_error =
    NotIndependent
  | AttestationSignatureInvalid
  | AttestationCrypto string

definition attestation_error_of_crypto :: "crypto_error \<Rightarrow> attestation_error" where
  "attestation_error_of_crypto e = AttestationCrypto (crypto_error_string e)"

definition path_step_json :: "path_step \<Rightarrow> json" where
  "path_step_json s =
     JObj [(''sibling'', array_json (sibling s)), (''sibling_is_left'', JBool (sibling_is_left s))]"

definition inclusion_proof_json :: "inclusion_proof \<Rightarrow> json" where
  "inclusion_proof_json p =
     JObj [(''leaf_index'', JNum (leaf_index p)), (''tree_size'', JNum (tree_size p)),
           (''path'', list_json path_step_json (path p))]"

fun attester_role_json :: "attester_role \<Rightarrow> json" where
  "attester_role_json CounterSigned = JStr ''CounterSigned''"
| "attester_role_json ThirdParty = JStr ''ThirdParty''"

definition attestation_payload_json ::
  "digest \<Rightarrow> digest \<Rightarrow> digest \<Rightarrow> digest \<Rightarrow> inclusion_proof \<Rightarrow> principal \<Rightarrow> public_key \<Rightarrow> attester_role \<Rightarrow> json" where
  "attestation_payload_json cd req outc wr incl att key role =
     JArr [array_json cd, array_json req, array_json outc, array_json wr, inclusion_proof_json incl,
           principal_json att, public_key_json key, attester_role_json role]"

definition attestation_signing_payload ::
  "prims \<Rightarrow> digest \<Rightarrow> digest \<Rightarrow> digest \<Rightarrow> digest \<Rightarrow> inclusion_proof \<Rightarrow> principal \<Rightarrow> public_key \<Rightarrow>
   attester_role \<Rightarrow> u8 list" where
  "attestation_signing_payload P cd req outc wr incl att key role =
     jcs P (attestation_payload_json cd req outc wr incl att key role)"

text \<open>\<^verbatim>\<open>None\<close> is the panic of \<^verbatim>\<open>expect("sign attestation")\<close>.\<close>

definition attest_as ::
  "prims \<Rightarrow> attester_role \<Rightarrow> signer \<Rightarrow> principal \<Rightarrow> digest \<Rightarrow> digest \<Rightarrow> digest \<Rightarrow> digest \<Rightarrow>
   inclusion_proof \<Rightarrow> completion_attestation option" where
  "attest_as P role sg att cd req outc wr incl =
     (let key = sg_public_key sg;
          payload = attestation_signing_payload P cd req outc wr incl att key role
      in case sg_sign sg payload of
           Inl _ \<Rightarrow> None
         | Inr s \<Rightarrow>
             Some \<lparr>ca_chain_digest = cd, requested_action_digest = req, outcome_digest = outc,
                   witnessed_root = wr, inclusion = incl, attester = att, attester_key = key,
                   ca_role = role, ca_signature = s\<rparr>)"

definition attest ::
  "prims \<Rightarrow> signer \<Rightarrow> principal \<Rightarrow> digest \<Rightarrow> digest \<Rightarrow> digest \<Rightarrow> digest \<Rightarrow> inclusion_proof \<Rightarrow>
   completion_attestation option" where
  "attest P sg att cd req outc wr incl = attest_as P ThirdParty sg att cd req outc wr incl"

definition attestation_verify ::
  "prims \<Rightarrow> completion_attestation \<Rightarrow> public_key \<Rightarrow> attestation_error + unit" where
  "attestation_verify P a executor =
     (if attester_key a = executor then Inl NotIndependent
      else
        (let payload = attestation_signing_payload P (ca_chain_digest a) (requested_action_digest a)
               (outcome_digest a) (witnessed_root a) (inclusion a) (attester a) (attester_key a) (ca_role a)
         in and_then (map_err attestation_error_of_crypto
                        (verify_signature P payload (ca_signature a) (attester_key a)))
              (\<lambda>ok. if \<not> ok then Inl AttestationSignatureInvalid else Inr ())))"

section \<open>The aggregate\<close>

record threshold_attestation =
  attestations :: "completion_attestation list"
  ta_threshold :: nat

datatype threshold_error =
    NotEnoughIndependentAttestations nat nat
  | DuplicateAttester
  | InconsistentBinding

definition binding :: "completion_attestation \<Rightarrow> digest \<times> digest \<times> digest \<times> digest" where
  "binding a = (ca_chain_digest a, requested_action_digest a, outcome_digest a, witnessed_root a)"

text \<open>The loop over the attester keys; \<^verbatim>\<open>insert\<close> answers whether the key is new.\<close>

fun keys_fresh :: "public_key set \<Rightarrow> completion_attestation list \<Rightarrow> bool" where
  "keys_fresh seen [] = True"
| "keys_fresh seen (a # rest) =
     (if attester_key a \<in> seen then False else keys_fresh (insert (attester_key a) seen) rest)"

definition threshold_verify ::
  "prims \<Rightarrow> threshold_attestation \<Rightarrow> public_key \<Rightarrow> threshold_error + unit" where
  "threshold_verify P t executor =
     (if (case attestations t of
            [] \<Rightarrow> False
          | first # _ \<Rightarrow> list_ex (\<lambda>a. binding a \<noteq> binding first) (attestations t))
      then Inl InconsistentBinding
      else if \<not> keys_fresh {} (attestations t) then Inl DuplicateAttester
      else
        (let have_n = length (filter (\<lambda>a. is_ok (attestation_verify P a executor)) (attestations t))
         in if have_n < ta_threshold t
            then Inl (NotEnoughIndependentAttestations have_n (ta_threshold t))
            else Inr ()))"

section \<open>Facts\<close>

lemma path_step_json_inject [simp, json_inj]: "path_step_json a = path_step_json b \<longleftrightarrow> a = b"
  by (cases a; cases b) (auto simp: path_step_json_def)

lemma inclusion_proof_json_inject [simp, json_inj]:
  "inclusion_proof_json a = inclusion_proof_json b \<longleftrightarrow> a = b"
proof -
  have "list_json path_step_json x = list_json path_step_json y \<longleftrightarrow> x = y" for x y
    by (rule list_json_inject) simp
  then show ?thesis by (cases a; cases b) (auto simp: inclusion_proof_json_def)
qed

lemma attester_role_json_inject [simp, json_inj]: "attester_role_json a = attester_role_json b \<longleftrightarrow> a = b"
  by (cases a; cases b) auto

lemma attestation_payload_json_inject [simp, json_inj]:
  "attestation_payload_json a b c d e f g h = attestation_payload_json a' b' c' d' e' f' g' h' \<longleftrightarrow>
     a = a' \<and> b = b' \<and> c = c' \<and> d = d' \<and> e = e' \<and> f = f' \<and> g = g' \<and> h = h'"
  by (auto simp: attestation_payload_json_def)

definition attestation_image :: "completion_attestation \<Rightarrow> json" where
  "attestation_image a = attestation_payload_json (ca_chain_digest a) (requested_action_digest a)
     (outcome_digest a) (witnessed_root a) (inclusion a) (attester a) (attester_key a) (ca_role a)"

definition attestation_signed :: "prims \<Rightarrow> completion_attestation \<Rightarrow> bool" where
  "attestation_signed P a \<longleftrightarrow>
     verify_signature P (jcs P (attestation_image a)) (ca_signature a) (attester_key a) = Inr True"

lemma attestation_verify_iff:
  "attestation_verify P a k = Inr () \<longleftrightarrow> attester_key a \<noteq> k \<and> attestation_signed P a"
  by (auto simp: attestation_verify_def attestation_signed_def attestation_image_def
      attestation_signing_payload_def Let_def and_then_Inr_iff split: if_splits)

lemma attestation_verify_ok_iff:
  "is_ok (attestation_verify P a k) \<longleftrightarrow> attester_key a \<noteq> k \<and> attestation_signed P a"
  by (simp add: is_ok_iff flip: attestation_verify_iff)

context signer_contract
begin

lemma attest_as_signed:
  assumes "good k"
  shows "\<exists>a. attest_as P role (mk k) att cd req outc wr incl = Some a \<and> attestation_signed P a \<and>
    attester_key a = sg_public_key (mk k) \<and> ca_role a = role \<and> inclusion a = incl \<and>
    binding a = (cd, req, outc, wr)"
  using signs [OF assms, of "jcs P (attestation_payload_json cd req outc wr incl att (sg_public_key (mk k)) role)"]
  by (auto simp: attest_as_def attestation_signing_payload_def attestation_signed_def attestation_image_def
      binding_def Let_def)

end

lemma keys_fresh_iff:
  "keys_fresh seen as \<longleftrightarrow> distinct (map attester_key as) \<and> seen \<inter> attester_key ` set as = {}"
  by (induction as arbitrary: seen) auto

lemma threshold_verify_iff:
  "threshold_verify P t k = Inr () \<longleftrightarrow>
     (\<forall>a \<in> set (attestations t). \<forall>b \<in> set (attestations t). binding a = binding b) \<and>
     distinct (map attester_key (attestations t)) \<and>
     ta_threshold t \<le> length (filter (\<lambda>a. attester_key a \<noteq> k \<and> attestation_signed P a) (attestations t))"
proof -
  have all_eq: "(\<forall>a \<in> set (x # xs). binding a = binding x) \<longleftrightarrow>
      (\<forall>a \<in> set (x # xs). \<forall>b \<in> set (x # xs). binding a = binding b)" for x xs
  proof
    assume *: "\<forall>a \<in> set (x # xs). binding a = binding x"
    show "\<forall>a \<in> set (x # xs). \<forall>b \<in> set (x # xs). binding a = binding b"
    proof (intro ballI)
      fix a b
      assume "a \<in> set (x # xs)" and "b \<in> set (x # xs)"
      with * have "binding a = binding x" and "binding b = binding x" by blast+
      then show "binding a = binding b" by simp
    qed
  next
    assume "\<forall>a \<in> set (x # xs). \<forall>b \<in> set (x # xs). binding a = binding b"
    then show "\<forall>a \<in> set (x # xs). binding a = binding x" by (meson list.set_intros(1))
  qed
  have "(case as of [] \<Rightarrow> False | first # _ \<Rightarrow> list_ex (\<lambda>a. binding a \<noteq> binding first) as) \<longleftrightarrow>
      \<not> (\<forall>a \<in> set as. \<forall>b \<in> set as. binding a = binding b)" for as
  proof (cases as)
    case (Cons x xs)
    show ?thesis
      unfolding Cons list.case list_ex_iff all_eq [symmetric] by blast
  qed simp
  note bindings = this
  have steps: "(if x then Inl e else if \<not> y then Inl f else if n < m then Inl g else Inr ()) = Inr () \<longleftrightarrow>
      \<not> x \<and> y \<and> m \<le> n" for x y e f g and m n :: nat
    by simp
  show ?thesis
    unfolding threshold_verify_def bindings keys_fresh_iff attestation_verify_ok_iff Let_def steps by blast
qed

text \<open>A bundle that holds is vouched for by that many distinct keys other than the executor's.\<close>

lemma threshold_verify_keys:
  assumes "threshold_verify P t k = Inr ()"
  shows "\<exists>K. finite K \<and> ta_threshold t \<le> card K \<and> k \<notin> K \<and>
    (\<forall>key \<in> K. \<exists>a \<in> set (attestations t). attester_key a = key \<and> attestation_signed P a \<and>
      (\<forall>b \<in> set (attestations t). binding b = binding a))"
proof -
  let ?good = "\<lambda>a. attester_key a \<noteq> k \<and> attestation_signed P a"
  let ?as = "filter ?good (attestations t)"
  note holds = assms [unfolded threshold_verify_iff]
  have "distinct (map attester_key ?as)"
    using holds by (intro distinct_map_filter) blast
  then have "card (attester_key ` set ?as) = length ?as"
    using distinct_card [of "map attester_key ?as"] by (simp only: set_map length_map)
  then have card: "ta_threshold t \<le> card (attester_key ` set ?as)"
    using holds by simp
  have each: "\<exists>a \<in> set (attestations t). attester_key a = key \<and> attestation_signed P a \<and>
      (\<forall>b \<in> set (attestations t). binding b = binding a)" if key: "key \<in> attester_key ` set ?as" for key
  proof -
    from key obtain a where "a \<in> set (attestations t)" "attester_key a = key" "attestation_signed P a" by auto
    moreover have "\<forall>b \<in> set (attestations t). binding b = binding a" using holds calculation(1) by blast
    ultimately show ?thesis by blast
  qed
  show ?thesis
    by (rule exI [of _ "attester_key ` set ?as"]) (use card each in auto)
qed

section \<open>Signed documents of different kinds\<close>

text \<open>The tuples under the four kinds of signatures have different lengths.\<close>

lemma payload_kinds_disjoint:
  "root_payload_json p k s \<noteq> delegation_payload_json f fk t tk s' pur prev"
  "root_payload_json p k s \<noteq> attestation_payload_json a b c d e att g h"
  "delegation_payload_json f fk t tk s' pur prev \<noteq> attestation_payload_json a b c d e att g h"
  "JArr [JNum n, array_json r] \<noteq> root_payload_json p k s"
  "JArr [JNum n, array_json r] \<noteq> delegation_payload_json f fk t tk s' pur prev"
  "JArr [JNum n, array_json r] \<noteq> attestation_payload_json a b c d e att g h"
  by (simp_all add: root_payload_json_def delegation_payload_json_def attestation_payload_json_def)

end
