(* ===== verification/Revocation.thy ===== *)
theory Revocation
  imports Chain
begin

text \<open>
  The crate \<^verbatim>\<open>core/revocation\<close>: keyless revocation ids, the checkers (short TTL,
  transparency log, composite, signed snapshot) behind one trait, and the fail-closed
  check of a whole chain. A checker is a function of its state, so interior mutability is
  state passing; the remote sources and the clock answer by call number.
\<close>

section \<open>Revocation ids\<close>

definition revocation_id_domain :: "u8 list" where
  "revocation_id_domain = str_bytes ''indexone-revocation/RevocationId/v1''"

datatype revocation_id = RevocationId (rev_bytes: "u8 list")

instantiation revocation_id :: linorder
begin

definition less_eq_revocation_id :: "revocation_id \<Rightarrow> revocation_id \<Rightarrow> bool" where
  "less_eq_revocation_id a b \<longleftrightarrow> rev_bytes a \<le> rev_bytes b"

definition less_revocation_id :: "revocation_id \<Rightarrow> revocation_id \<Rightarrow> bool" where
  "less_revocation_id a b \<longleftrightarrow> rev_bytes a < rev_bytes b"

instance
  by standard
    (auto simp: less_eq_revocation_id_def less_revocation_id_def revocation_id.expand less_le)

end

definition revocation_id_from_signature :: "prims \<Rightarrow> signature \<Rightarrow> revocation_id" where
  "revocation_id_from_signature P s =
     RevocationId (array_bytes (blake3 P (revocation_id_domain @ sig_bytes s)))"

definition revocation_id_display :: "revocation_id \<Rightarrow> string" where
  "revocation_id_display i = concat (map hex_byte (rev_bytes i))"

definition revocation_ids_for_chain :: "prims \<Rightarrow> chain \<Rightarrow> revocation_id list" where
  "revocation_ids_for_chain P c =
     revocation_id_from_signature P (rb_signature (chain_root c)) #
     map (\<lambda>b. revocation_id_from_signature P (db_signature b)) (delegations c)"

record log_entry =
  le_revoked :: revocation_id
  revoked_at :: u64
  le_reason :: string

datatype revocation_status =
    Live
  | Revoked string
  | Stale u64

datatype revocation_error =
    ErrRevoked revocation_id string
  | ErrStale revocation_id u64
  | LogUnreachable string

fun revocation_error_string :: "revocation_error \<Rightarrow> string" where
  "revocation_error_string (ErrRevoked i reason) =
     ''block '' @ revocation_id_display i @ '' is revoked: '' @ reason"
| "revocation_error_string (ErrStale i ttl) =
     ''block '' @ revocation_id_display i @ '' is stale: older than the '' @ decimal (unat ttl) @
     ''s freshness window''"
| "revocation_error_string (LogUnreachable m) = ''transparency log unreachable: '' @ m"

type_synonym 's checker = "'s \<Rightarrow> revocation_id \<Rightarrow> (revocation_error + revocation_status) \<times> 's"

section \<open>Short TTL\<close>

record short_ttl =
  ttl_seconds :: u64
  issued_at :: "revocation_id \<rightharpoonup> u64"

definition short_ttl_new :: "u64 \<Rightarrow> short_ttl" where
  "short_ttl_new ttl = \<lparr>ttl_seconds = ttl, issued_at = Map.empty\<rparr>"

definition short_ttl_register :: "short_ttl \<Rightarrow> revocation_id \<Rightarrow> u64 \<Rightarrow> short_ttl" where
  "short_ttl_register c i t = c\<lparr>issued_at := (issued_at c)(i \<mapsto> t)\<rparr>"

definition short_ttl_is_revoked ::
  "short_ttl \<Rightarrow> u64 \<Rightarrow> revocation_id \<Rightarrow> revocation_error + revocation_status" where
  "short_ttl_is_revoked c now i =
     (case issued_at c i of
        None \<Rightarrow> Inr (Stale (ttl_seconds c))
      | Some issued \<Rightarrow>
          (let age = saturating_sub now issued
           in if age > ttl_seconds c then Inr (Stale (ttl_seconds c)) else Inr Live))"

section \<open>Transparency log\<close>

text \<open>The transport is what it returns on the i-th fetch.\<close>

record tlog =
  tl_entries :: "revocation_id \<rightharpoonup> log_entry"
  tl_transport :: "(nat \<Rightarrow> string + log_entry list) option"
  tl_url :: "string option"

definition tlog_in_memory :: tlog where
  "tlog_in_memory = \<lparr>tl_entries = Map.empty, tl_transport = None, tl_url = None\<rparr>"

definition tlog_with_transport :: "(nat \<Rightarrow> string + log_entry list) \<Rightarrow> tlog" where
  "tlog_with_transport t = \<lparr>tl_entries = Map.empty, tl_transport = Some t, tl_url = None\<rparr>"

definition tlog_remote :: "string \<Rightarrow> tlog" where
  "tlog_remote url = \<lparr>tl_entries = Map.empty, tl_transport = None, tl_url = Some url\<rparr>"

definition tlog_append :: "tlog \<Rightarrow> log_entry \<Rightarrow> tlog" where
  "tlog_append t e = t\<lparr>tl_entries := (tl_entries t)(le_revoked e \<mapsto> e)\<rparr>"

definition tlog_is_revoked :: "tlog \<Rightarrow> nat \<Rightarrow> revocation_id \<Rightarrow> revocation_error + revocation_status" where
  "tlog_is_revoked t call i =
     (case tl_transport t of
        Some fetch \<Rightarrow>
          and_then (map_err LogUnreachable (fetch call)) (\<lambda>fetched.
            case find (\<lambda>e. le_revoked e = i) fetched of
              Some e \<Rightarrow> Inr (Revoked (le_reason e))
            | None \<Rightarrow> Inr Live)
      | None \<Rightarrow>
          (case tl_url t of
             Some url \<Rightarrow> Inl (LogUnreachable (''no transport wired for remote log '' @ url))
           | None \<Rightarrow>
               (case tl_entries t i of
                  Some e \<Rightarrow> Inr (Revoked (le_reason e))
                | None \<Rightarrow> Inr Live)))"

section \<open>Composite\<close>

text \<open>
  The checkers share one state, of which each uses its own part. A definite denial
  returns at once; the last undeterminable error is remembered.
\<close>

fun composite_loop ::
  "'s checker list \<Rightarrow> 's \<Rightarrow> revocation_id \<Rightarrow> revocation_error option \<Rightarrow>
   (revocation_error + revocation_status) \<times> 's" where
  "composite_loop [] s i undet = (case undet of Some e \<Rightarrow> Inl e | None \<Rightarrow> Inr Live, s)"
| "composite_loop (c # cs) s i undet =
     (case c s i of
        (Inr Live, s1) \<Rightarrow> composite_loop cs s1 i undet
      | (Inr st, s1) \<Rightarrow> (Inr st, s1)
      | (Inl e, s1) \<Rightarrow> composite_loop cs s1 i (Some e))"

definition composite_is_revoked :: "'s checker list \<Rightarrow> 's checker" where
  "composite_is_revoked cs s i = composite_loop cs s i None"

section \<open>Signed snapshots\<close>

definition snapshot_domain :: "u8 list" where
  "snapshot_domain = str_bytes ''indexone-revocation/SignedRevocationSnapshot/v1''"

text \<open>A \<^verbatim>\<open>BTreeSet\<close> iterates in ascending order.\<close>

definition revoked_set_bytes :: "revocation_id set \<Rightarrow> u8 list" where
  "revoked_set_bytes r =
     concat (map (\<lambda>i. u64_be_bytes (of_nat (length (rev_bytes i))) @ rev_bytes i) (sorted_list_of_set r))"

definition snapshot_signing_bytes :: "prims \<Rightarrow> u64 \<Rightarrow> u64 \<Rightarrow> revocation_id set \<Rightarrow> u8 list" where
  "snapshot_signing_bytes P epoch published r =
     snapshot_domain @ u64_be_bytes epoch @ u64_be_bytes published @
     array_bytes (blake3 P (revoked_set_bytes r))"

record snapshot =
  sn_epoch :: u64
  published_at :: u64
  sn_revoked :: "revocation_id set"
  sn_signature :: signature

definition snapshot_sign :: "prims \<Rightarrow> signer \<Rightarrow> u64 \<Rightarrow> u64 \<Rightarrow> revocation_id set \<Rightarrow> snapshot option" where
  "snapshot_sign P sg epoch published r =
     (case sg_sign sg (snapshot_signing_bytes P epoch published r) of
        Inl _ \<Rightarrow> None
      | Inr s \<Rightarrow> Some \<lparr>sn_epoch = epoch, published_at = published, sn_revoked = r, sn_signature = s\<rparr>)"

definition snapshot_verify_signature :: "prims \<Rightarrow> snapshot \<Rightarrow> public_key \<Rightarrow> bool" where
  "snapshot_verify_signature P sn operator_key =
     or_false (verify_signature P (snapshot_signing_bytes P (sn_epoch sn) (published_at sn) (sn_revoked sn))
       (sn_signature sn) operator_key)"

record snapshot_checker =
  operator_key :: public_key
  max_staleness :: u64
  last_seen_epoch :: u64

definition snapshot_checker_new :: "public_key \<Rightarrow> u64 \<Rightarrow> snapshot_checker" where
  "snapshot_checker_new key stale = \<lparr>operator_key = key, max_staleness = stale, last_seen_epoch = 0\<rparr>"

text \<open>The guards up to the store, as one read of the epoch cell sees them.\<close>

definition snapshot_guards ::
  "prims \<Rightarrow> snapshot_checker \<Rightarrow> string + snapshot \<Rightarrow> u64 \<Rightarrow> revocation_error + snapshot" where
  "snapshot_guards P c fetched now =
     and_then (map_err LogUnreachable fetched) (\<lambda>sn.
       if \<not> snapshot_verify_signature P sn (operator_key c)
       then Inl (LogUnreachable ''revocation snapshot signature invalid'')
       else if sn_epoch sn < last_seen_epoch c
       then Inl (LogUnreachable ''revocation snapshot epoch rolled back'')
       else if saturating_sub now (published_at sn) > max_staleness c
       then Inl (LogUnreachable (''revocation snapshot is stale (published '' @
              decimal (unat (saturating_sub now (published_at sn))) @ ''s ago > '' @
              decimal (unat (max_staleness c)) @ ''s)''))
       else Inr sn)"

definition snapshot_answer :: "snapshot \<Rightarrow> revocation_id \<Rightarrow> revocation_status" where
  "snapshot_answer sn i =
     (if i \<in> sn_revoked sn then Revoked ''listed in the signed revocation snapshot'' else Live)"

definition snapshot_is_revoked ::
  "prims \<Rightarrow> snapshot_checker \<Rightarrow> string + snapshot \<Rightarrow> u64 \<Rightarrow> revocation_id \<Rightarrow>
   (revocation_error + revocation_status) \<times> snapshot_checker" where
  "snapshot_is_revoked P c fetched now i =
     (case snapshot_guards P c fetched now of
        Inl e \<Rightarrow> (Inl e, c)
      | Inr sn \<Rightarrow> (Inr (snapshot_answer sn i), c\<lparr>last_seen_epoch := sn_epoch sn\<rparr>))"

section \<open>The check of a chain\<close>

fun check_ids :: "'s checker \<Rightarrow> 's \<Rightarrow> revocation_id list \<Rightarrow> (revocation_error + unit) \<times> 's" where
  "check_ids chk s [] = (Inr (), s)"
| "check_ids chk s (i # rest) =
     (case chk s i of
        (Inl e, s1) \<Rightarrow> (Inl e, s1)
      | (Inr Live, s1) \<Rightarrow> check_ids chk s1 rest
      | (Inr (Revoked reason), s1) \<Rightarrow> (Inl (ErrRevoked i reason), s1)
      | (Inr (Stale ttl), s1) \<Rightarrow> (Inl (ErrStale i ttl), s1))"

definition check_chain_revocation ::
  "prims \<Rightarrow> chain \<Rightarrow> 's checker \<Rightarrow> 's \<Rightarrow> (revocation_error + unit) \<times> 's" where
  "check_chain_revocation P c chk s = check_ids chk s (revocation_ids_for_chain P c)"

section \<open>The checker contract\<close>

text \<open>
  What the chain check relies on: a checker never answers \<open>Live\<close> for an id it knows to be
  denied, and knowledge of a denial is not lost by answering. \<open>denied\<close> is the provider's
  reading of its own state.
\<close>

locale revocation_checker =
  fixes check :: "'s checker" and denied :: "'s \<Rightarrow> revocation_id \<Rightarrow> bool"
  assumes live_sound: "denied s i \<Longrightarrow> check s i \<noteq> (Inr Live, s')"
    and denial_kept: "denied s i \<Longrightarrow> check s j = (r, s') \<Longrightarrow> denied s' i"
begin

lemma check_ids_sound: "check_ids check s is = (Inr (), s') \<Longrightarrow> i \<in> set is \<Longrightarrow> \<not> denied s i"
proof (induction "is" arbitrary: s)
  case (Cons j js)
  from Cons.prems(1) obtain s1 where s1: "check s j = (Inr Live, s1)" "check_ids check s1 js = (Inr (), s')"
    by (auto split: prod.splits sum.splits revocation_status.splits)
  show ?case
  proof (cases "i = j")
    case True
    with s1(1) show ?thesis using live_sound [of s i s1] by auto
  next
    case False
    with Cons.prems(2) have "i \<in> set js" by simp
    with Cons.IH [OF s1(2)] show ?thesis using denial_kept [OF _ s1(1)] by auto
  qed
qed simp

lemma chain_sound:
  "check_chain_revocation P c check s = (Inr (), s') \<Longrightarrow> i \<in> set (revocation_ids_for_chain P c) \<Longrightarrow>
     \<not> denied s i"
  unfolding check_chain_revocation_def by (rule check_ids_sound)

end

text \<open>The error names the first id that is not live, and every earlier id was.\<close>

lemma check_ids_error:
  "check_ids chk s is = (Inl e, s') \<Longrightarrow>
     \<exists>pre i post sp. is = pre @ i # post \<and> check_ids chk s pre = (Inr (), sp) \<and>
       (chk sp i = (Inl e, s') \<or>
        (\<exists>reason. e = ErrRevoked i reason \<and> chk sp i = (Inr (Revoked reason), s')) \<or>
        (\<exists>ttl. e = ErrStale i ttl \<and> chk sp i = (Inr (Stale ttl), s')))"
proof (induction "is" arbitrary: s)
  case (Cons j js)
  show ?case
  proof (cases "\<exists>s1. chk s j = (Inr Live, s1)")
    case True
    then obtain s1 where s1: "chk s j = (Inr Live, s1)" ..
    with Cons.prems have "check_ids chk s1 js = (Inl e, s')" by simp
    from Cons.IH [OF this] obtain pre i post sp where
      "js = pre @ i # post" "check_ids chk s1 pre = (Inr (), sp)"
      "chk sp i = (Inl e, s') \<or> (\<exists>reason. e = ErrRevoked i reason \<and> chk sp i = (Inr (Revoked reason), s')) \<or>
        (\<exists>ttl. e = ErrStale i ttl \<and> chk sp i = (Inr (Stale ttl), s'))" by blast
    with s1 show ?thesis
      by (intro exI [of _ "j # pre"] exI [of _ i] exI [of _ post] exI [of _ sp]) simp
  next
    case False
    with Cons.prems show ?thesis
      by (intro exI [of _ "[]"] exI [of _ j] exI [of _ js] exI [of _ s])
        (auto split: prod.splits sum.splits revocation_status.splits)
  qed
qed simp

section \<open>The providers meet the contract\<close>

text \<open>Each checker as the trait sees it; the state counts the calls to clock and source.\<close>

definition short_ttl_check :: "short_ttl \<Rightarrow> (nat \<Rightarrow> u64) \<Rightarrow> nat checker" where
  "short_ttl_check c clock n i = (short_ttl_is_revoked c (clock n) i, Suc n)"

definition tlog_check :: "tlog \<Rightarrow> nat checker" where
  "tlog_check t n i = (tlog_is_revoked t n i, Suc n)"

definition snapshot_check ::
  "prims \<Rightarrow> (nat \<Rightarrow> string + snapshot) \<Rightarrow> (nat \<Rightarrow> u64) \<Rightarrow> (nat \<times> snapshot_checker) checker" where
  "snapshot_check P src clock st i =
     (case st of (n, c) \<Rightarrow>
       (case snapshot_is_revoked P c (src n) (clock n) i of (r, c1) \<Rightarrow> (r, (Suc n, c1))))"

definition short_ttl_denied :: "short_ttl \<Rightarrow> (nat \<Rightarrow> u64) \<Rightarrow> nat \<Rightarrow> revocation_id \<Rightarrow> bool" where
  "short_ttl_denied c clock n i \<longleftrightarrow>
     (\<forall>m \<ge> n. \<forall>t. issued_at c i = Some t \<longrightarrow> unat (ttl_seconds c) < unat (clock m) - unat t)"

definition tlog_denied :: "tlog \<Rightarrow> nat \<Rightarrow> revocation_id \<Rightarrow> bool" where
  "tlog_denied t n i \<longleftrightarrow>
     (case tl_transport t of
        Some fetch \<Rightarrow> \<forall>m \<ge> n. \<forall>es. fetch m = Inr es \<longrightarrow> i \<in> le_revoked ` set es
      | None \<Rightarrow> tl_url t \<noteq> None \<or> tl_entries t i \<noteq> None)"

definition snapshot_denied :: "(nat \<Rightarrow> string + snapshot) \<Rightarrow> nat \<times> snapshot_checker \<Rightarrow> revocation_id \<Rightarrow> bool" where
  "snapshot_denied src st i \<longleftrightarrow> (\<forall>m \<ge> fst st. \<forall>sn. src m = Inr sn \<longrightarrow> i \<in> sn_revoked sn)"

lemma short_ttl_denied_mono: "short_ttl_denied c clock n i \<Longrightarrow> n \<le> m \<Longrightarrow> short_ttl_denied c clock m i"
  by (auto simp: short_ttl_denied_def)

lemma tlog_denied_mono: "tlog_denied t n i \<Longrightarrow> n \<le> m \<Longrightarrow> tlog_denied t m i"
  unfolding tlog_denied_def by (cases "tl_transport t") (simp, simp, meson order_trans)

lemma snapshot_denied_mono: "snapshot_denied src st i \<Longrightarrow> fst st \<le> fst st' \<Longrightarrow> snapshot_denied src st' i"
  unfolding snapshot_denied_def by (meson order_trans)

lemma short_ttl_live_iff:
  "short_ttl_is_revoked c now i = Inr Live \<longleftrightarrow>
     (\<exists>t. issued_at c i = Some t \<and> unat now - unat t \<le> unat (ttl_seconds c))"
  by (auto simp: short_ttl_is_revoked_def Let_def word_less_nat_alt unat_saturating_sub not_less
      split: option.splits)

lemma tlog_live_iff:
  "tlog_is_revoked t n i = Inr Live \<longleftrightarrow>
     (case tl_transport t of
        Some fetch \<Rightarrow> \<exists>es. fetch n = Inr es \<and> i \<notin> le_revoked ` set es
      | None \<Rightarrow> tl_url t = None \<and> tl_entries t i = None)"
  by (auto simp: tlog_is_revoked_def and_then_Inr_iff find_None_iff split: option.splits)

interpretation short_ttl: revocation_checker "short_ttl_check c clock" "short_ttl_denied c clock" for c clock
proof (unfold_locales, goal_cases)
  case (1 s i s')
  then show ?case
    by (auto simp: short_ttl_check_def short_ttl_live_iff short_ttl_denied_def not_less [symmetric])
next
  case (2 s i j r s')
  then show ?case by (auto simp: short_ttl_check_def intro: short_ttl_denied_mono)
qed

interpretation tlog: revocation_checker "tlog_check t" "tlog_denied t" for t
proof (unfold_locales, goal_cases)
  case (1 s i s')
  then show ?case
    by (fastforce simp: tlog_check_def tlog_live_iff tlog_denied_def split: option.splits)
next
  case (2 s i j r s')
  then show ?case by (auto simp: tlog_check_def intro: tlog_denied_mono)
qed

lemma snapshot_guards_iff:
  "snapshot_guards P c fetched now = Inr sn \<longleftrightarrow>
     fetched = Inr sn \<and> snapshot_verify_signature P sn (operator_key c) \<and>
     last_seen_epoch c \<le> sn_epoch sn \<and> unat now - unat (published_at sn) \<le> unat (max_staleness c)"
proof -
  have stale: "max_staleness c < saturating_sub now (published_at sn) \<longleftrightarrow>
      \<not> unat now - unat (published_at sn) \<le> unat (max_staleness c)" for sn
    by (simp add: word_less_nat_alt unat_saturating_sub not_le)
  show ?thesis
  proof (cases fetched)
    case (Inr x)
    then show ?thesis
      unfolding snapshot_guards_def stale by (cases "x = sn") (auto simp: not_less not_le)
  qed (simp add: snapshot_guards_def)
qed

interpretation snapshot: revocation_checker "snapshot_check P src clock" "snapshot_denied src" for P src clock
proof (unfold_locales, goal_cases)
  case (1 s i s')
  then show ?case
    by (cases s)
      (auto simp: snapshot_check_def snapshot_is_revoked_def snapshot_denied_def snapshot_guards_iff
        snapshot_answer_def split: sum.splits if_splits)
next
  case (2 s i j r s')
  then show ?case
    by (cases s) (auto simp: snapshot_check_def intro: snapshot_denied_mono split: prod.splits)
qed

text \<open>A denial by one member is never masked by the others, whatever they answer.\<close>

lemma composite_never_masks:
  assumes member: "c \<in> set cs"
    and live: "\<And>s s'. denied s i \<Longrightarrow> c s i \<noteq> (Inr Live, s')"
    and kept: "\<And>d s r s'. d \<in> set cs \<Longrightarrow> denied s i \<Longrightarrow> d s i = (r, s') \<Longrightarrow> denied s' i"
  shows "denied s i \<Longrightarrow> composite_loop cs s i u \<noteq> (Inr Live, s')"
  using member kept
proof (induction cs arbitrary: s u)
  case (Cons d ds)
  have step: "composite_loop ds s1 i v \<noteq> (Inr Live, s')"
    if "d s i = (r, s1)" "c \<in> set ds \<or> v \<noteq> None" for r s1 v
  proof (cases "c \<in> set ds")
    case True
    have "denied s1 i" using Cons.prems(1,3) that(1) by (metis list.set_intros(1))
    moreover have "denied s'' i" if "e \<in> set ds" "denied s i" "e s i = (r, s'')" for e s r s''
      using Cons.prems(3) that by (metis list.set_intros(2))
    ultimately show ?thesis using Cons.IH True by blast
  next
    case False
    with that have "v \<noteq> None" by blast
    then show ?thesis
    proof (induction ds arbitrary: s1 v)
      case (Cons e es)
      show ?case
      proof (cases "e s1 i")
        case (Pair a b)
        show ?thesis
          using Cons.IH [of v b] Cons.IH [of "Some (projl a)" b] Cons.prems Pair
          by (auto split: sum.splits revocation_status.splits)
      qed
    qed auto
  qed
  show ?case
  proof (cases "c = d")
    case True
    then show ?thesis
      using live [OF Cons.prems(1)] step [of _ _ "Some _"]
      by (auto split: prod.splits sum.splits revocation_status.splits)
  next
    case False
    with Cons.prems(2) have "c \<in> set ds" by simp
    then show ?thesis
      using step by (auto split: prod.splits sum.splits revocation_status.splits)
  qed
qed simp

lemma composite_state:
  "composite_loop cs s i u = (r, s') \<Longrightarrow> (\<And>c s r s'. c \<in> set cs \<Longrightarrow> R s \<Longrightarrow> c s i = (r, s') \<Longrightarrow> R s') \<Longrightarrow>
     R s \<Longrightarrow> R s'"
proof (induction cs arbitrary: s u)
  case (Cons c cs)
  obtain a s1 where c: "c s i = (a, s1)" by fastforce
  have "R s1" using Cons.prems(2) [of c s a s1] Cons.prems(3) c by simp
  have rest: "R s'" if "composite_loop cs s1 i v = (r, s')" for v
  proof (rule Cons.IH [OF that _ \<open>R s1\<close>])
    show "d \<in> set cs \<Longrightarrow> R t \<Longrightarrow> d t i = (q, t') \<Longrightarrow> R t'" for d t q t'
      using Cons.prems(2) [of d t q t'] by simp
  qed
  with \<open>R s1\<close> Cons.prems(1) c show ?case
    by (cases a) (auto split: revocation_status.splits)
qed simp

text \<open>The deployment of the two mechanisms together: short TTL and transparency log.\<close>

abbreviation ttl_and_log :: "short_ttl \<Rightarrow> (nat \<Rightarrow> u64) \<Rightarrow> tlog \<Rightarrow> nat checker" where
  "ttl_and_log c clock t \<equiv> composite_is_revoked [short_ttl_check c clock, tlog_check t]"

interpretation both: revocation_checker "ttl_and_log c clock t"
  "\<lambda>n i. short_ttl_denied c clock n i \<or> tlog_denied t n i" for c clock t
proof (unfold_locales, goal_cases)
  case (1 s i s')
  have k1: "short_ttl_denied c clock s' i"
    if "d \<in> set [short_ttl_check c clock, tlog_check t]" "short_ttl_denied c clock s i" "d s i = (r, s')" for d s r s'
    using that by (auto simp: short_ttl_check_def tlog_check_def intro: short_ttl_denied_mono)
  have k2: "tlog_denied t s' i"
    if "d \<in> set [short_ttl_check c clock, tlog_check t]" "tlog_denied t s i" "d s i = (r, s')" for d s r s'
    using that by (auto simp: short_ttl_check_def tlog_check_def intro: tlog_denied_mono)
  have "composite_loop [short_ttl_check c clock, tlog_check t] s i None \<noteq> (Inr Live, s')"
    if "short_ttl_denied c clock s i"
    by (rule composite_never_masks [where c = "short_ttl_check c clock" and denied = "short_ttl_denied c clock"])
      (use that short_ttl.live_sound k1 in simp_all)
  moreover have "composite_loop [short_ttl_check c clock, tlog_check t] s i None \<noteq> (Inr Live, s')"
    if "tlog_denied t s i"
    by (rule composite_never_masks [where c = "tlog_check t" and denied = "tlog_denied t"])
      (use that tlog.live_sound k2 in simp_all)
  ultimately show ?case using 1 unfolding composite_is_revoked_def by blast
next
  case (2 s i j r s')
  let ?R = "\<lambda>n. short_ttl_denied c clock n i \<or> tlog_denied t n i"
  show ?case
    using 2
    by (intro composite_state [where R = ?R, OF 2(2) [unfolded composite_is_revoked_def]])
      (auto simp: short_ttl_check_def tlog_check_def intro: short_ttl_denied_mono tlog_denied_mono)
qed

text \<open>
  Concretely: once a hop is unregistered, too old, in the local log, or of a log without
  transport, the chain stays rejected while the clock does not run backwards.
\<close>

definition dead_hop :: "short_ttl \<Rightarrow> u64 \<Rightarrow> tlog \<Rightarrow> revocation_id \<Rightarrow> bool" where
  "dead_hop ck now t i \<longleftrightarrow>
     (case issued_at ck i of None \<Rightarrow> True | Some t0 \<Rightarrow> unat (ttl_seconds ck) < unat now - unat t0) \<or>
     tl_transport t = None \<and> (tl_url t \<noteq> None \<or> tl_entries t i \<noteq> None)"

lemma dead_hop_rejected:
  assumes "mono clock" and "dead_hop ck (clock n) t i" and "i \<in> set (revocation_ids_for_chain P c)"
  shows "fst (check_chain_revocation P c (ttl_and_log ck clock t) n) \<noteq> Inr ()"
proof
  assume "fst (check_chain_revocation P c (ttl_and_log ck clock t) n) = Inr ()"
  then obtain n' where "check_chain_revocation P c (ttl_and_log ck clock t) n = (Inr (), n')" by (metis prod.collapse)
  from both.chain_sound [OF this assms(3)] have live: "\<not> short_ttl_denied ck clock n i" "\<not> tlog_denied t n i" by auto
  have "unat (clock n) \<le> unat (clock m)" if "n \<le> m" for m
    using monoD [OF assms(1) that] by (simp add: word_le_nat_alt)
  then have "short_ttl_denied ck clock n i"
    if "case issued_at ck i of None \<Rightarrow> True | Some t0 \<Rightarrow> unat (ttl_seconds ck) < unat (clock n) - unat t0"
    using that by (fastforce simp: short_ttl_denied_def)
  with live assms(2) show False by (auto simp: dead_hop_def tlog_denied_def)
qed

section \<open>Epochs of a snapshot checker\<close>

lemma snapshot_is_revoked_iff:
  "snapshot_is_revoked P c fetched now i = (Inr st, c') \<longleftrightarrow>
     (\<exists>sn. fetched = Inr sn \<and> snapshot_verify_signature P sn (operator_key c) \<and>
        last_seen_epoch c \<le> sn_epoch sn \<and> unat now - unat (published_at sn) \<le> unat (max_staleness c) \<and>
        st = snapshot_answer sn i \<and> c' = c\<lparr>last_seen_epoch := sn_epoch sn\<rparr>)"
  by (auto simp: snapshot_is_revoked_def snapshot_guards_iff split: sum.splits)
    (metis snapshot_guards_iff sum.distinct(1))+

lemma snapshot_epoch_mono:
  "snapshot_is_revoked P c fetched now i = (r, c') \<Longrightarrow>
     last_seen_epoch c \<le> last_seen_epoch c' \<and> operator_key c' = operator_key c \<and> max_staleness c' = max_staleness c"
  by (auto simp: snapshot_is_revoked_def snapshot_guards_iff split: sum.splits)

text \<open>A sequence of queries: the epochs of the snapshots that were answered from.\<close>

fun snapshot_run ::
  "prims \<Rightarrow> snapshot_checker \<Rightarrow> ((string + snapshot) \<times> u64 \<times> revocation_id) list \<Rightarrow> u64 list" where
  "snapshot_run P c [] = []"
| "snapshot_run P c ((fetched, now, i) # rest) =
     (case snapshot_is_revoked P c fetched now i of
        (Inl e, c1) \<Rightarrow> snapshot_run P c1 rest
      | (Inr st, c1) \<Rightarrow> last_seen_epoch c1 # snapshot_run P c1 rest)"

lemma snapshot_run_bound: "e \<in> set (snapshot_run P c calls) \<Longrightarrow> last_seen_epoch c \<le> e"
proof (induction calls arbitrary: c)
  case (Cons call rest)
  obtain fetched now i where call: "call = (fetched, now, i)" by (metis surj_pair)
  obtain r c1 where step: "snapshot_is_revoked P c fetched now i = (r, c1)" by fastforce
  from snapshot_epoch_mono [OF step] Cons.prems Cons.IH [of c1] show ?case
    by (auto simp: call step split: sum.splits intro: order_trans)
qed simp

lemma snapshot_run_sorted: "sorted (snapshot_run P c calls)"
proof (induction calls arbitrary: c)
  case (Cons call rest)
  obtain fetched now i where call: "call = (fetched, now, i)" by (metis surj_pair)
  obtain r c1 where step: "snapshot_is_revoked P c fetched now i = (r, c1)" by fastforce
  show ?case
    using Cons.IH [of c1] by (auto simp: call step split: sum.splits intro: snapshot_run_bound)
qed simp

subsection \<open>Concurrent queries\<close>

text \<open>
  The checker is shared between threads: a query loads the epoch cell, passes the guards,
  and stores later. A thread is idle or holds a snapshot that passed.
\<close>

datatype query_phase = Idle | Passed snapshot

record race_state =
  epoch_cell :: u64
  phases :: "nat \<Rightarrow> query_phase"

inductive race_step :: "prims \<Rightarrow> public_key \<Rightarrow> u64 \<Rightarrow> nat \<Rightarrow> race_state \<Rightarrow> race_state \<Rightarrow> bool"
  for P key stale where
  load: "phases s t = Idle \<Longrightarrow>
     snapshot_guards P \<lparr>operator_key = key, max_staleness = stale, last_seen_epoch = epoch_cell s\<rparr> fetched now = Inr sn \<Longrightarrow>
     race_step P key stale t s (s\<lparr>phases := (phases s)(t := Passed sn)\<rparr>)"
| store: "phases s t = Passed sn \<Longrightarrow>
     race_step P key stale t s (s\<lparr>epoch_cell := sn_epoch sn, phases := (phases s)(t := Idle)\<rparr>)"

inductive_cases race_stepE: "race_step P key stale t s s'"

inductive race_reachable :: "prims \<Rightarrow> public_key \<Rightarrow> u64 \<Rightarrow> nat set \<Rightarrow> race_state \<Rightarrow> bool" for P key stale T where
  start: "race_reachable P key stale T \<lparr>epoch_cell = 0, phases = (\<lambda>_. Idle)\<rparr>"
| move: "race_reachable P key stale T s \<Longrightarrow> t \<in> T \<Longrightarrow> race_step P key stale t s s' \<Longrightarrow> race_reachable P key stale T s'"

text \<open>One thread alone: what it is about to store is never older than the cell.\<close>

lemma one_thread_invariant:
  "race_reachable P key stale {t} s \<Longrightarrow>
     (\<forall>u sn. phases s u = Passed sn \<longrightarrow> u = t \<and> epoch_cell s \<le> sn_epoch sn)"
proof (induction rule: race_reachable.induct)
  case start
  then show ?case by simp
next
  case (move s t' s')
  from move.hyps(3) move.IH move.hyps(2) show ?case
    by cases (auto simp: snapshot_guards_iff)
qed

lemma one_thread_monotone:
  assumes "race_reachable P key stale {t} s" and "race_step P key stale t s s'"
  shows "epoch_cell s \<le> epoch_cell s'"
  using assms(2)
proof cases
  case (load fetched now sn)
  then show ?thesis by simp
next
  case (store sn)
  from one_thread_invariant [OF assms(1)] store(2) have "epoch_cell s \<le> sn_epoch sn" by blast
  then show ?thesis unfolding store(1) by simp
qed

text \<open>Two threads: the slower one can put back an older epoch.\<close>

lemma two_threads_roll_back:
  fixes now :: u64
  assumes new: "snapshot_verify_signature P new_sn key" "unat now - unat (published_at new_sn) \<le> unat stale"
    and old: "snapshot_verify_signature P old_sn key" "unat now - unat (published_at old_sn) \<le> unat stale"
    and epochs: "sn_epoch old_sn < sn_epoch new_sn"
  shows "\<exists>s s'. race_reachable P key stale {0, 1} s \<and> race_step P key stale 0 s s' \<and>
    epoch_cell s = sn_epoch new_sn \<and> epoch_cell s' = sn_epoch old_sn"
proof -
  let ?s0 = "\<lparr>epoch_cell = 0, phases = (\<lambda>_. Idle)\<rparr>"
  let ?s1 = "?s0\<lparr>phases := (phases ?s0)(0 := Passed old_sn)\<rparr>"
  let ?s2 = "?s1\<lparr>phases := (phases ?s1)(1 := Passed new_sn)\<rparr>"
  let ?s3 = "?s2\<lparr>epoch_cell := sn_epoch new_sn, phases := (phases ?s2)(1 := Idle)\<rparr>"
  let ?s4 = "?s3\<lparr>epoch_cell := sn_epoch old_sn, phases := (phases ?s3)(0 := Idle)\<rparr>"
  have 1: "race_step P key stale 0 ?s0 ?s1"
    by (rule race_step.load [where fetched = "Inr old_sn" and now = now]) (use old in \<open>simp_all add: snapshot_guards_iff\<close>)
  have 2: "race_step P key stale 1 ?s1 ?s2"
    by (rule race_step.load [where fetched = "Inr new_sn" and now = now]) (use new in \<open>simp_all add: snapshot_guards_iff\<close>)
  have 3: "race_step P key stale 1 ?s2 ?s3"
    by (rule race_step.store) simp
  have "race_reachable P key stale {0, 1} ?s1"
    by (rule race_reachable.move [OF race_reachable.start _ 1]) simp
  then have "race_reachable P key stale {0, 1} ?s2"
    by (rule race_reachable.move [OF _ _ 2]) simp
  then have "race_reachable P key stale {0, 1} ?s3"
    by (rule race_reachable.move [OF _ _ 3]) simp
  moreover have "race_step P key stale 0 ?s3 ?s4"
    by (rule race_step.store) simp
  ultimately show ?thesis
    by (intro exI [of _ ?s3] exI [of _ ?s4]) simp
qed

section \<open>What a snapshot signature covers\<close>

lemma prefixed_inject:
  assumes "length a < 2 ^ 64" and "length b < 2 ^ 64"
  shows "(u64_be_bytes (of_nat (length a)) @ a) @ x = (u64_be_bytes (of_nat (length b)) @ b) @ y \<longleftrightarrow> a = b \<and> x = y"
proof
  assume "(u64_be_bytes (of_nat (length a)) @ a) @ x = (u64_be_bytes (of_nat (length b)) @ b) @ y"
  then have "(of_nat (length a) :: u64) = of_nat (length b)" and rest: "a @ x = b @ y"
    by simp_all
  then have "unat (of_nat (length a) :: u64) = unat (of_nat (length b) :: u64)" by simp
  with assms have "length a = length b" by (simp add: unat_of_nat)
  with rest show "a = b \<and> x = y" by (simp add: append_eq_append_conv)
qed simp

lemma prefixed_list_inject:
  "(\<forall>i \<in> set is \<union> set js. length (rev_bytes i) < 2 ^ 64) \<Longrightarrow>
   concat (map (\<lambda>i. u64_be_bytes (of_nat (length (rev_bytes i))) @ rev_bytes i) is) =
   concat (map (\<lambda>i. u64_be_bytes (of_nat (length (rev_bytes i))) @ rev_bytes i) js) \<Longrightarrow> is = js"
proof (induction "is" arbitrary: js)
  case Nil
  then show ?case
    by (cases js) (auto simp: u64_be_bytes_def)
next
  case (Cons i "is")
  show ?case
  proof (cases js)
    case Nil
    with Cons.prems(2) show ?thesis by (simp add: u64_be_bytes_def)
  next
    case (Cons j js')
    with Cons.prems have "rev_bytes i = rev_bytes j \<and>
       concat (map (\<lambda>i. u64_be_bytes (of_nat (length (rev_bytes i))) @ rev_bytes i) is) =
       concat (map (\<lambda>i. u64_be_bytes (of_nat (length (rev_bytes i))) @ rev_bytes i) js')"
      by (subst (asm) list.map, subst (asm) list.map, subst (asm) concat.simps, subst (asm) concat.simps)
        (rule prefixed_inject [THEN iffD1]; simp)
    with Cons.IH [of js'] Cons.prems(1) Cons show ?thesis
      by (simp add: revocation_id.expand)
  qed
qed

lemma revoked_set_bytes_inject:
  assumes "finite r" and "finite s" and "\<forall>i \<in> r \<union> s. length (rev_bytes i) < 2 ^ 64"
  shows "revoked_set_bytes r = revoked_set_bytes s \<longleftrightarrow> r = s"
proof
  assume "revoked_set_bytes r = revoked_set_bytes s"
  then have "sorted_list_of_set r = sorted_list_of_set s"
    unfolding revoked_set_bytes_def using assms by (intro prefixed_list_inject) auto
  with assms(1,2) show "r = s" by (metis set_sorted_list_of_set)
qed simp

lemma snapshot_signing_bytes_inject:
  assumes "finite r" and "finite s" and "\<forall>i \<in> r \<union> s. length (rev_bytes i) < 2 ^ 64"
    and "collision_free P {revoked_set_bytes r, revoked_set_bytes s}"
    and eq: "snapshot_signing_bytes P e p r = snapshot_signing_bytes P e' p' s"
  shows "e = e' \<and> p = p' \<and> r = s"
proof -
  from eq have "e = e'" "p = p'" and "blake3 P (revoked_set_bytes r) = blake3 P (revoked_set_bytes s)"
    by (auto simp: snapshot_signing_bytes_def)
  moreover from this(3) have "revoked_set_bytes r = revoked_set_bytes s"
    by (rule collision_freeD [OF assms(4)]) simp_all
  ultimately show ?thesis
    using revoked_set_bytes_inject [OF assms(1-3)] by simp
qed

lemma revocation_id_inject:
  assumes "collision_free P {revocation_id_domain @ sig_bytes s, revocation_id_domain @ sig_bytes t}"
    and "revocation_id_from_signature P s = revocation_id_from_signature P t"
  shows "sig_bytes s = sig_bytes t"
  using collision_freeD [OF assms(1), of "revocation_id_domain @ sig_bytes s" "revocation_id_domain @ sig_bytes t"] assms(2)
  by (simp add: revocation_id_from_signature_def)

end
