(* ===== verification/Revmap.thy ===== *)
theory Revmap
  imports Merkle
begin

text \<open>
  The crate \<^verbatim>\<open>core/revmap\<close>: a sparse Merkle map over 256-bit keys, its compact proofs,
  and their verification.
\<close>

section \<open>Hashing\<close>

definition leaf_tag :: u8 where "leaf_tag = 0"
definition node_tag :: u8 where "node_tag = 1"

definition empty_leaf_domain :: "u8 list" where
  "empty_leaf_domain = str_bytes ''indexone-revmap/empty-leaf/v1''"

definition depth_max :: nat where
  "depth_max = 256"

definition leaf_hash :: "prims \<Rightarrow> bytes32 \<Rightarrow> digest" where
  "leaf_hash P key = blake3 P ([leaf_tag] @ array_bytes key)"

definition node_hash :: "prims \<Rightarrow> digest \<Rightarrow> digest \<Rightarrow> digest" where
  "node_hash P l r = blake3 P ([node_tag] @ array_bytes l @ array_bytes r)"

definition empty_leaf :: "prims \<Rightarrow> digest" where
  "empty_leaf P = blake3 P empty_leaf_domain"

text \<open>Bit \<open>i\<close> of a key, most significant first.\<close>

definition bitmap_bit :: "u8 list \<Rightarrow> nat \<Rightarrow> bool" where
  "bitmap_bit bs d = (drop_bit (7 - d mod 8) (bs ! (d div 8)) AND 1 = 1)"

definition key_bit :: "bytes32 \<Rightarrow> nat \<Rightarrow> u8" where
  "key_bit key i = drop_bit (7 - i mod 8) (array_bytes key ! (i div 8)) AND 1"

text \<open>\<^verbatim>\<open>Defaults\<close>: the table is a function of the height.\<close>

fun default_at_height :: "prims \<Rightarrow> nat \<Rightarrow> digest" where
  "default_at_height P 0 = empty_leaf P"
| "default_at_height P (Suc h) = node_hash P (default_at_height P h) (default_at_height P h)"

definition default_at_depth :: "prims \<Rightarrow> nat \<Rightarrow> digest" where
  "default_at_depth P d = default_at_height P (depth_max - d)"

section \<open>Proofs\<close>

record map_proof =
  present :: "u8 list"
  siblings :: "digest list"

text \<open>The loop of \<^verbatim>\<open>expand\<close> from depth \<open>d\<close> on; \<open>n\<close> levels are left.\<close>

fun expand_loop :: "prims \<Rightarrow> u8 list \<Rightarrow> nat \<Rightarrow> nat \<Rightarrow> digest list \<Rightarrow> digest list option" where
  "expand_loop P bm d 0 next = (if next = [] then Some [] else None)"
| "expand_loop P bm d (Suc n) next =
     (if bitmap_bit bm d then
        (case next of
           [] \<Rightarrow> None
         | h # rest \<Rightarrow> map_option (\<lambda>full. h # full) (expand_loop P bm (Suc d) n rest))
      else map_option (\<lambda>full. default_at_height P (depth_max - d - 1) # full)
             (expand_loop P bm (Suc d) n next))"

definition proof_expand :: "prims \<Rightarrow> map_proof \<Rightarrow> digest list option" where
  "proof_expand P pf =
     (if length (present pf) \<noteq> depth_max div 8 then None
      else expand_loop P (present pf) 0 depth_max (siblings pf))"

section \<open>The map\<close>

record revocation_map =
  map_keys :: "bytes32 list"

definition revmap_new :: revocation_map where
  "revmap_new = \<lparr>map_keys = []\<rparr>"

text \<open>
  \<^verbatim>\<open>binary_search\<close> on the sorted vector: found, or the position that keeps it sorted.
\<close>

definition binary_search :: "bytes32 list \<Rightarrow> bytes32 \<Rightarrow> nat + nat" where
  "binary_search ks k =
     (let pos = length (takeWhile (\<lambda>x. x < k) ks)
      in if pos < length ks \<and> ks ! pos = k then Inr pos else Inl pos)"

definition revmap_revoke :: "revocation_map \<Rightarrow> bytes32 \<Rightarrow> revocation_map" where
  "revmap_revoke m key =
     (case binary_search (map_keys m) key of
        Inl pos \<Rightarrow> m\<lparr>map_keys := take pos (map_keys m) @ [key] @ drop pos (map_keys m)\<rparr>
      | Inr _ \<Rightarrow> m)"

definition revmap_contains :: "revocation_map \<Rightarrow> bytes32 \<Rightarrow> bool" where
  "revmap_contains m key = (case binary_search (map_keys m) key of Inl _ \<Rightarrow> False | Inr _ \<Rightarrow> True)"

text \<open>\<^verbatim>\<open>partition_point\<close> of the bit at \<open>depth\<close>, which a sorted span has partitioned.\<close>

definition bit_split :: "bytes32 list \<Rightarrow> nat \<Rightarrow> nat" where
  "bit_split ks depth = length (takeWhile (\<lambda>k. key_bit k depth = 0) ks)"

function map_subtree_root :: "prims \<Rightarrow> bytes32 list \<Rightarrow> nat \<Rightarrow> digest" where
  "map_subtree_root P ks depth =
     (if ks = [] then default_at_depth P depth
      else if depth_max \<le> depth then leaf_hash P (ks ! 0)
      else
        (let split = bit_split ks depth
         in node_hash P (map_subtree_root P (take split ks) (depth + 1))
              (map_subtree_root P (drop split ks) (depth + 1))))"
  by pat_completeness auto
termination
  by (relation "measure (\<lambda>(P, ks, depth). depth_max - depth)") (auto simp: depth_max_def)

declare map_subtree_root.simps [simp del]

definition revmap_root :: "prims \<Rightarrow> revocation_map \<Rightarrow> digest" where
  "revmap_root P m = map_subtree_root P (map_keys m) 0"

text \<open>\<^verbatim>\<open>present[d / 8] |= 1 << (7 - d % 8)\<close>.\<close>

definition set_bitmap :: "u8 list \<Rightarrow> nat \<Rightarrow> u8 list" where
  "set_bitmap bm d = bm[d div 8 := (bm ! (d div 8)) OR push_bit (7 - d mod 8) 1]"

function collect_siblings ::
  "prims \<Rightarrow> bytes32 list \<Rightarrow> nat \<Rightarrow> bytes32 \<Rightarrow> digest list \<Rightarrow> u8 list \<Rightarrow> digest list \<times> u8 list" where
  "collect_siblings P ks depth key sibs bm =
     (if depth_max \<le> depth then (sibs, bm)
      else
        (let split = bit_split ks depth;
             (same, other) = (if key_bit key depth = 0 then (take split ks, drop split ks)
                              else (drop split ks, take split ks));
             sib = map_subtree_root P other (depth + 1)
         in if sib \<noteq> default_at_depth P depth
            then collect_siblings P same (depth + 1) key (sibs @ [sib]) (set_bitmap bm depth)
            else collect_siblings P same (depth + 1) key sibs bm))"
  by pat_completeness auto
termination
  by (relation "measure (\<lambda>(P, ks, depth, key, sibs, bm). depth_max - depth)") (auto simp: depth_max_def)

declare collect_siblings.simps [simp del]

definition revmap_prove :: "prims \<Rightarrow> revocation_map \<Rightarrow> bytes32 \<Rightarrow> map_proof" where
  "revmap_prove P m key =
     (case collect_siblings P (map_keys m) 0 key [] (replicate (depth_max div 8) 0) of
        (sibs, bm) \<Rightarrow> \<lparr>present = bm, siblings = sibs\<rparr>)"

section \<open>Verification\<close>

text \<open>One step of the fold, and the fold from the deepest level up.\<close>

definition fold_level :: "prims \<Rightarrow> bytes32 \<Rightarrow> digest list \<Rightarrow> nat \<Rightarrow> digest \<Rightarrow> digest" where
  "fold_level P key full depth cur =
     (if key_bit key depth = 0 then node_hash P cur (full ! depth) else node_hash P (full ! depth) cur)"

definition recompute_root :: "prims \<Rightarrow> bytes32 \<Rightarrow> digest \<Rightarrow> map_proof \<Rightarrow> digest option" where
  "recompute_root P key claimed pf =
     (case proof_expand P pf of
        None \<Rightarrow> None
      | Some full \<Rightarrow> Some (foldr (fold_level P key full) [0..<depth_max] claimed))"

definition map_verify_inclusion :: "prims \<Rightarrow> digest \<Rightarrow> bytes32 \<Rightarrow> map_proof \<Rightarrow> bool" where
  "map_verify_inclusion P root key pf \<longleftrightarrow> recompute_root P key (leaf_hash P key) pf = Some root"

definition map_verify_non_inclusion :: "prims \<Rightarrow> digest \<Rightarrow> bytes32 \<Rightarrow> map_proof \<Rightarrow> bool" where
  "map_verify_non_inclusion P root key pf \<longleftrightarrow> recompute_root P key (empty_leaf P) pf = Some root"

section \<open>Keys as numbers\<close>

text \<open>
  The byte order on keys is the order of the big-endian numbers, and \<open>key_bit\<close> reads a
  bit of that number; so a sorted span that agrees on its first bits is partitioned by the
  next one.
\<close>

definition key_num :: "bytes32 \<Rightarrow> nat" where
  "key_num k = be_value (array_bytes k)"

lemma be_value_append: "be_value (xs @ ys) = be_value xs * 256 ^ length ys + be_value ys"
proof (induction ys rule: rev_induct)
  case Nil
  then show ?case by (simp add: be_value_def)
next
  case (snoc y ys)
  have "be_value (xs @ ys @ [y]) = 256 * be_value (xs @ ys) + unat y"
    using be_value_snoc [of "xs @ ys" y] by simp
  with snoc show ?case by (simp add: be_value_snoc algebra_simps)
qed

lemma be_value_Cons: "be_value (x # xs) = unat x * 256 ^ length xs + be_value xs"
  using be_value_append [of "[x]" xs] by (simp add: be_value_def)

lemma mult_add_less_iff:
  fixes b c d :: nat
  assumes "c < d" and "e < d"
  shows "a * d + c < b * d + e \<longleftrightarrow> a < b \<or> (a = b \<and> c < e)"
proof -
  consider "a < b" | "a = b" | "b < a" by linarith
  then show ?thesis
  proof cases
    case 1
    then have "Suc a * d \<le> b * d" by (intro mult_le_mono1) simp
    with 1 assms show ?thesis by simp
  next
    case 2
    then show ?thesis by simp
  next
    case 3
    then have "Suc b * d \<le> a * d" by (intro mult_le_mono1) simp
    with 3 assms show ?thesis by simp
  qed
qed

lemma lex_less_be_value:
  fixes xs ys :: "u8 list"
  shows "length xs = length ys \<Longrightarrow> xs < ys \<longleftrightarrow> be_value xs < be_value ys"
proof (induction xs ys rule: list_induct2)
  case Nil
  then show ?case by simp
next
  case (Cons x xs y ys)
  have "be_value xs < 256 ^ length ys" "be_value ys < 256 ^ length ys"
    using be_value_less [of xs] be_value_less [of ys] Cons.hyps by simp_all
  from mult_add_less_iff [OF this, of "unat x" "unat y"] Cons
  show ?case by (auto simp: be_value_Cons word_less_nat_alt unsigned_word_eqI)
qed

lemma key_less_iff: "a < b \<longleftrightarrow> key_num a < key_num b"
  by (simp add: less_bytes32_def key_num_def lex_less_be_value)

lemma key_num_inject [simp]: "key_num a = key_num b \<longleftrightarrow> a = b"
  by (simp add: key_num_def be_value_inject)

lemma key_num_bound: "key_num k < 2 ^ 256"
  using be_value_less [of "array_bytes k"] by (simp add: key_num_def)

definition kbit :: "bytes32 \<Rightarrow> nat \<Rightarrow> bool" where
  "kbit k i = bit (key_num k) (255 - i)"

lemma be_value_byte:
  assumes "j < length bs"
  shows "be_value bs div 256 ^ (length bs - 1 - j) mod 256 = unat (bs ! j)"
proof -
  let ?a = "take j bs" and ?c = "drop (Suc j) bs"
  have bs: "bs = (?a @ [bs ! j]) @ ?c" using assms by (simp add: id_take_nth_drop)
  have len: "length bs - 1 - j = length ?c" using assms by simp
  have "be_value bs = be_value (?a @ [bs ! j]) * 256 ^ length ?c + be_value ?c"
    by (subst bs) (rule be_value_append)
  then have "be_value bs div 256 ^ length ?c = be_value (?a @ [bs ! j])"
    using be_value_less [of ?c] by (simp add: div_mult_self3)
  moreover have "unat (bs ! j) < 256"
    using unsigned_less [of "bs ! j", where ?'a = nat] by simp
  ultimately show ?thesis
    unfolding len by (simp add: be_value_snoc)
qed

lemma bit_byte: "drop_bit n w AND 1 = (if bit w n then 1 else (0 :: u8))"
  by (rule bit_word_eqI) (auto simp: bit_and_iff bit_drop_bit_eq bit_1_iff intro: gr0I)

lemma key_bit_iff:
  assumes "i < 256"
  shows "key_bit k i = (if kbit k i then 1 else 0)"
proof -
  let ?j = "i div 8" and ?r = "7 - i mod 8"
  have "?j < length (array_bytes k)" using assms by simp
  from be_value_byte [OF this]
  have byte: "unat (array_bytes k ! ?j) = key_num k div 2 ^ (8 * (31 - ?j)) mod 2 ^ 8"
    by (simp add: key_num_def power_mult)
  have pos: "8 * (31 - ?j) + ?r = 255 - i"
    using assms by (simp add: algebra_simps)
  have "bit (array_bytes k ! ?j) ?r \<longleftrightarrow> bit (unat (array_bytes k ! ?j)) ?r"
    by (simp add: bit_unsigned_iff)
  also have "\<dots> \<longleftrightarrow> bit (take_bit 8 (drop_bit (8 * (31 - ?j)) (key_num k))) ?r"
    unfolding byte by (simp add: take_bit_eq_mod drop_bit_eq_div)
  also have "\<dots> \<longleftrightarrow> kbit k i"
    using le_less_trans [OF diff_le_self, of 7 8 "i mod 8"] by (simp add: bit_take_bit_iff bit_drop_bit_eq kbit_def pos)
  finally show ?thesis by (simp add: key_bit_def bit_byte)
qed

lemma keys_equal_bits:
  assumes "\<And>i. i < 256 \<Longrightarrow> kbit a i = kbit b i"
  shows "a = b"
proof -
  have "bit (key_num a) n = bit (key_num b) n" for n
  proof (cases "n < 256")
    case True
    then have "255 - (255 - n) = n" by simp
    with assms [of "255 - n"] show ?thesis by (simp add: kbit_def)
  next
    case False
    then have "(2 :: nat) ^ 256 \<le> 2 ^ n" by (intro power_increasing) simp_all
    then have "key_num a < 2 ^ n" "key_num b < 2 ^ n"
      using key_num_bound [of a] key_num_bound [of b] by linarith+
    then show ?thesis by (simp add: bit_iff_odd)
  qed
  then have "key_num a = key_num b" by (intro bit_eqI)
  then show ?thesis by simp
qed

definition agree :: "bytes32 \<Rightarrow> bytes32 \<Rightarrow> nat \<Rightarrow> bool" where
  "agree a b d \<longleftrightarrow> (\<forall>i < d. kbit a i = kbit b i)"

lemma agree_simps [simp]: "agree a a d" "agree a b 0"
  by (simp_all add: agree_def)

lemma agree_Suc: "agree a b (Suc d) \<longleftrightarrow> agree a b d \<and> kbit a d = kbit b d"
  by (auto simp: agree_def less_Suc_eq)

lemma agree_trans: "agree a b d \<Longrightarrow> agree b c d \<Longrightarrow> agree a c d"
  by (simp add: agree_def)

lemma agree_sym: "agree a b d \<Longrightarrow> agree b a d"
  by (simp add: agree_def)

lemma agree_all: "agree a b 256 \<longleftrightarrow> a = b"
  by (auto simp: agree_def intro: keys_equal_bits)

lemma agree_div:
  assumes "agree a b d" and "d \<le> 256"
  shows "key_num a div 2 ^ (256 - d) = key_num b div 2 ^ (256 - d)"
proof -
  have "bit (drop_bit (256 - d) (key_num a)) n = bit (drop_bit (256 - d) (key_num b)) n" for n
  proof (cases "256 - d + n < 256")
    case True
    then have "255 - (255 - (256 - d + n)) = 256 - d + n" "255 - (256 - d + n) < d"
      using assms(2) by linarith+
    with assms(1) show ?thesis by (simp add: agree_def kbit_def bit_drop_bit_eq) metis
  next
    case False
    then have "(2 :: nat) ^ 256 \<le> 2 ^ (256 - d + n)" by (intro power_increasing) simp_all
    then have "key_num a < 2 ^ (256 - d + n)" "key_num b < 2 ^ (256 - d + n)"
      using key_num_bound [of a] key_num_bound [of b] by linarith+
    then show ?thesis by (simp add: bit_drop_bit_eq bit_iff_odd)
  qed
  then have "drop_bit (256 - d) (key_num a) = drop_bit (256 - d) (key_num b)" by (intro bit_eqI)
  then show ?thesis by (simp add: drop_bit_eq_div)
qed

lemma agree_order:
  assumes ag: "agree a b d" and d: "d < 256" and bits: "kbit a d" "\<not> kbit b d"
  shows "b < a"
proof -
  let ?p = "255 - d"
  have p: "256 - d = Suc ?p" using d by simp
  have split: "n div 2 ^ ?p = 2 * (n div 2 ^ Suc ?p) + (if bit n ?p then 1 else 0)" for n :: nat
  proof -
    have "n div 2 ^ Suc ?p = n div 2 ^ ?p div 2"
      by (simp only: power_Suc2 div_mult2_eq)
    moreover have "x = 2 * (x div 2) + (if odd x then 1 else 0)" for x :: nat
      by (cases "odd x") (auto elim: oddE)
    ultimately show ?thesis by (simp only: bit_iff_odd)
  qed
  have "key_num a div 2 ^ ?p = key_num b div 2 ^ ?p + 1"
    using agree_div [OF ag] d bits split [of "key_num a"] split [of "key_num b"] by (simp add: p kbit_def)
  then have "key_num b div 2 ^ ?p < key_num a div 2 ^ ?p" by simp
  then have "key_num b < key_num a"
    by (metis div_le_mono not_less)
  then show ?thesis by (simp add: key_less_iff)
qed

section \<open>Spans\<close>

text \<open>A span at a depth: sorted keys that agree on their first bits.\<close>

definition span :: "bytes32 list \<Rightarrow> nat \<Rightarrow> bool" where
  "span ks d \<longleftrightarrow> sorted_wrt (<) ks \<and> (\<forall>a \<in> set ks. \<forall>b \<in> set ks. agree a b d)"

lemma span_start: "sorted_wrt (<) ks \<Longrightarrow> span ks 0"
  by (simp add: span_def)

lemma span_short: "span ks 256 \<Longrightarrow> length ks \<le> 1"
proof (rule ccontr)
  assume "span ks 256" and "\<not> length ks \<le> 1"
  then have "ks ! 0 < ks ! 1" by (simp add: span_def sorted_wrt_iff_nth_less)
  moreover have "ks ! 0 \<in> set ks" "ks ! 1 \<in> set ks"
    using \<open>\<not> length ks \<le> 1\<close> by (auto intro!: nth_mem)
  with \<open>span ks 256\<close> have "agree (ks ! 0) (ks ! 1) 256" unfolding span_def by blast
  ultimately show False by (simp add: agree_all)
qed

definition side :: "bytes32 list \<Rightarrow> nat \<Rightarrow> bool \<Rightarrow> bytes32 list" where
  "side ks d b = filter (\<lambda>k. kbit k d = b) ks"

lemma partition_sorted:
  "(\<And>x y. x \<in> set xs \<Longrightarrow> y \<in> set xs \<Longrightarrow> Q x \<Longrightarrow> \<not> Q y \<Longrightarrow> y < x) \<Longrightarrow> sorted_wrt (<) xs \<Longrightarrow>
     takeWhile (\<lambda>x. \<not> Q x) xs = filter (\<lambda>x. \<not> Q x) xs \<and> dropWhile (\<lambda>x. \<not> Q x) xs = filter Q xs"
  for xs :: "bytes32 list"
proof (induction xs)
  case (Cons x xs)
  show ?case
  proof (cases "Q x")
    case True
    have "Q y" if "y \<in> set xs" for y
      using Cons.prems that True by (metis list.set_intros less_asym sorted_wrt.simps(2))
    with True show ?thesis by (simp add: filter_empty_conv)
  next
    case False
    with Cons show ?thesis by simp
  qed
qed simp

lemma bit_split_sides:
  assumes "span ks d" and "d < 256"
  shows "take (bit_split ks d) ks = side ks d False" and "drop (bit_split ks d) ks = side ks d True"
proof -
  have "key_bit k d = 0 \<longleftrightarrow> \<not> kbit k d" for k using assms(2) by (simp add: key_bit_iff)
  then have bits: "(\<lambda>k. key_bit k d = 0) = (\<lambda>k. \<not> kbit k d)" by (intro ext)
  have parts: "takeWhile (\<lambda>k. \<not> kbit k d) ks = filter (\<lambda>k. \<not> kbit k d) ks \<and>
      dropWhile (\<lambda>k. \<not> kbit k d) ks = filter (\<lambda>k. kbit k d) ks"
    using assms by (intro partition_sorted) (auto simp: span_def intro: agree_order)
  have "take (bit_split ks d) ks = takeWhile (\<lambda>k. \<not> kbit k d) ks"
    by (simp only: bit_split_def bits flip: takeWhile_eq_take)
  with parts show "take (bit_split ks d) ks = side ks d False" by (simp add: side_def)
  have "drop (bit_split ks d) ks = dropWhile (\<lambda>k. \<not> kbit k d) ks"
    by (simp only: bit_split_def bits flip: dropWhile_eq_drop)
  with parts show "drop (bit_split ks d) ks = side ks d True" by (simp add: side_def)
qed

lemma span_side: "span ks d \<Longrightarrow> span (side ks d b) (Suc d)"
  by (auto simp: span_def side_def agree_Suc intro: sorted_wrt_filter)

section \<open>The tree\<close>

interpretation map_hash: tree_hash P "\<lambda>k. [leaf_tag] @ array_bytes k"
  "\<lambda>l r. [node_tag] @ array_bytes l @ array_bytes r" "leaf_hash P" "node_hash P" for P
  by unfold_locales (auto simp: leaf_hash_def node_hash_def leaf_tag_def node_tag_def)

text \<open>The empty leaf's preimage is neither a leaf's nor a node's.\<close>

lemma empty_leaf_domain_apart:
  "empty_leaf_domain \<noteq> [leaf_tag] @ xs" "empty_leaf_domain \<noteq> [node_tag] @ xs"
  by (simp_all add: empty_leaf_domain_def leaf_tag_def node_tag_def str_bytes_def)

lemma root_end:
  "map_subtree_root P ks 256 = (if ks = [] then empty_leaf P else leaf_hash P (ks ! 0))"
  by (subst map_subtree_root.simps) (simp add: depth_max_def default_at_depth_def)

text \<open>The same equation holds for empty and populated spans.\<close>

lemma root_split:
  assumes "span ks d" and "d < 256"
  shows "map_subtree_root P ks d =
    node_hash P (map_subtree_root P (side ks d False) (Suc d)) (map_subtree_root P (side ks d True) (Suc d))"
proof (cases "ks = []")
  case True
  have "default_at_depth P d = node_hash P (default_at_depth P (Suc d)) (default_at_depth P (Suc d))"
  proof -
    have "256 - d = Suc (256 - Suc d)" using assms(2) by simp
    then show ?thesis by (simp only: default_at_depth_def depth_max_def default_at_height.simps)
  qed
  moreover have "map_subtree_root P [] e = default_at_depth P e" for e
    by (subst map_subtree_root.simps) simp
  ultimately show ?thesis using True by (simp add: side_def)
next
  case False
  then show ?thesis
    using assms(2) by (subst map_subtree_root.simps) (simp add: depth_max_def Let_def bit_split_sides [OF assms])
qed

text \<open>The encodings hashed for a subtree, and for the defaults.\<close>

abbreviation map_node_bytes :: "digest \<Rightarrow> digest \<Rightarrow> u8 list" where
  "map_node_bytes l r \<equiv> [node_tag] @ array_bytes l @ array_bytes r"

function map_queries :: "prims \<Rightarrow> bytes32 list \<Rightarrow> nat \<Rightarrow> u8 list set" where
  "map_queries P ks d =
     (if 256 \<le> d then (if ks = [] then {empty_leaf_domain} else {[leaf_tag] @ array_bytes (ks ! 0)})
      else insert
        (map_node_bytes (map_subtree_root P (side ks d False) (Suc d)) (map_subtree_root P (side ks d True) (Suc d)))
        (map_queries P (side ks d False) (Suc d) \<union> map_queries P (side ks d True) (Suc d)))"
  by pat_completeness auto
termination
  by (relation "measure (\<lambda>(P, ks, d). 256 - d)") auto

declare map_queries.simps [simp del]

lemma map_queries_end:
  "map_queries P ks 256 = (if ks = [] then {empty_leaf_domain} else {[leaf_tag] @ array_bytes (ks ! 0)})"
  by (subst map_queries.simps) simp

lemma map_queries_step:
  "d < 256 \<Longrightarrow> map_queries P ks d =
     insert (map_node_bytes (map_subtree_root P (side ks d False) (Suc d)) (map_subtree_root P (side ks d True) (Suc d)))
       (map_queries P (side ks d False) (Suc d) \<union> map_queries P (side ks d True) (Suc d))"
  by (subst map_queries.simps) simp

lemma hash_leaf_neq_empty:
  "collision_free P Q \<Longrightarrow> [leaf_tag] @ array_bytes k \<in> Q \<Longrightarrow> empty_leaf_domain \<in> Q \<Longrightarrow> leaf_hash P k \<noteq> empty_leaf P"
  unfolding leaf_hash_def empty_leaf_def
  using empty_leaf_domain_apart(1) by (metis collision_freeD)

lemma hash_node_neq_empty:
  "collision_free P Q \<Longrightarrow> map_node_bytes l r \<in> Q \<Longrightarrow> empty_leaf_domain \<in> Q \<Longrightarrow> empty_leaf P \<noteq> node_hash P l r"
  unfolding node_hash_def empty_leaf_def
  using empty_leaf_domain_apart(2) by (metis collision_freeD)

text \<open>The root determines the keys.\<close>

lemma subtree_root_inject:
  assumes cf: "collision_free P Q"
  shows "span ks d \<Longrightarrow> span js d \<Longrightarrow> d \<le> 256 \<Longrightarrow> map_queries P ks d \<union> map_queries P js d \<subseteq> Q \<Longrightarrow>
    map_subtree_root P ks d = map_subtree_root P js d \<Longrightarrow> set ks = set js"
proof (induction "256 - d" arbitrary: d ks js)
  case 0
  then have d: "d = 256" by simp
  from span_short 0 d have short: "length ks \<le> 1" "length js \<le> 1" by blast+
  then consider "ks = []" "js = []" | a where "ks = [a]" "js = []" | b where "ks = []" "js = [b]"
    | a b where "ks = [a]" "js = [b]"
    by (cases ks; cases js) auto
  then show ?case
  proof cases
    case (2 a)
    with 0 d show ?thesis using hash_leaf_neq_empty [OF cf, of a] by (simp add: root_end map_queries_end)
  next
    case (3 b)
    with 0 d show ?thesis using hash_leaf_neq_empty [OF cf, of b] by (simp add: root_end map_queries_end)
  next
    case (4 a b)
    with 0 d have "leaf_hash P a = leaf_hash P b" by (simp add: root_end)
    from map_hash.leaf_eqD [OF cf this] 4 0 d show ?thesis by (simp add: map_queries_end)
  qed simp
next
  case (Suc n)
  then have d: "d < 256" by simp
  let ?s = "\<lambda>ks b. map_subtree_root P (side ks d b) (Suc d)"
  have eq: "node_hash P (?s ks False) (?s ks True) = node_hash P (?s js False) (?s js True)"
    using Suc.prems(5) root_split [OF Suc.prems(1) d] root_split [OF Suc.prems(2) d] by simp
  have q: "map_node_bytes (?s ks False) (?s ks True) \<in> Q" "map_node_bytes (?s js False) (?s js True) \<in> Q"
    "map_queries P (side ks d b) (Suc d) \<union> map_queries P (side js d b) (Suc d) \<subseteq> Q" for b
    using Suc.prems(4) map_queries_step [OF d, of P] by (cases b; auto)+
  from map_hash.node_eqD [OF cf eq q(1,2)] have "?s ks b = ?s js b" for b by (cases b) simp_all
  then have "set (side ks d b) = set (side js d b)" for b
    using Suc.hyps(1) [of "Suc d" "side ks d b" "side js d b"] Suc.hyps(2) d q(3)
      span_side [OF Suc.prems(1)] span_side [OF Suc.prems(2)] by simp
  from this [of False] this [of True] show ?case by (auto simp: side_def)
qed

text \<open>
  A subtree root is never the default of the next greater height, so the comparison in
  \<^verbatim>\<open>collect_siblings\<close> (with the default of the parent's height) never elides a sibling.
\<close>

definition default_queries :: "prims \<Rightarrow> u8 list set" where
  "default_queries P = insert empty_leaf_domain
     ((\<lambda>h. map_node_bytes (default_at_height P h) (default_at_height P h)) ` {..<256})"

lemma default_queries_at: "h < 256 \<Longrightarrow> map_node_bytes (default_at_height P h) (default_at_height P h) \<in> default_queries P"
  unfolding default_queries_def by blast

lemma default_queries_empty [simp]: "empty_leaf_domain \<in> default_queries P"
  by (simp add: default_queries_def)

lemma root_not_parent_default:
  assumes cf: "collision_free P Q" and dq: "default_queries P \<subseteq> Q"
  shows "span ks d \<Longrightarrow> 0 < d \<Longrightarrow> d \<le> 256 \<Longrightarrow> map_queries P ks d \<subseteq> Q \<Longrightarrow>
    map_subtree_root P ks d \<noteq> default_at_height P (Suc (256 - d))"
proof (induction "256 - d" arbitrary: d ks)
  case 0
  then have d: "d = 256" by simp
  have "map_node_bytes (default_at_height P 0) (default_at_height P 0) \<in> Q"
    by (rule subsetD [OF dq default_queries_at]) simp
  moreover have "empty_leaf_domain \<in> Q" using dq by (auto simp: default_queries_def)
  ultimately show ?case
    using 0 d map_hash.leaf_node_neq [OF cf] hash_node_neq_empty [OF cf]
    by (auto simp: root_end map_queries_end split: if_splits)
next
  case (Suc n)
  then have d: "d < 256" by simp
  let ?L = "map_subtree_root P (side ks d False) (Suc d)" and ?R = "map_subtree_root P (side ks d True) (Suc d)"
  have h: "256 - d = Suc (256 - Suc d)" using d by simp
  have q: "map_node_bytes ?L ?R \<in> Q" "map_queries P (side ks d False) (Suc d) \<subseteq> Q"
    using Suc.prems(4) map_queries_step [OF d, of P ks] by auto
  have "map_node_bytes (default_at_height P (256 - d)) (default_at_height P (256 - d)) \<in> Q"
    using dq Suc.prems(2) default_queries_at [of "256 - d" P] by auto
  moreover have "?L \<noteq> default_at_height P (Suc (256 - Suc d))"
    using Suc.hyps q(2) span_side [OF Suc.prems(1)] d by (intro Suc.hyps(1)) simp_all
  ultimately show ?case
    using map_hash.node_eqD [OF cf _ q(1)] root_split [OF Suc.prems(1) d, of P]
    by (metis default_at_height.simps(2) h)
qed

section \<open>Proofs carry every sibling\<close>

fun sibling_list :: "prims \<Rightarrow> bytes32 list \<Rightarrow> bytes32 \<Rightarrow> nat \<Rightarrow> nat \<Rightarrow> digest list" where
  "sibling_list P ks key d 0 = []"
| "sibling_list P ks key d (Suc n) =
     map_subtree_root P (side ks d (\<not> kbit key d)) (Suc d) #
     sibling_list P (side ks d (kbit key d)) key (Suc d) n"

lemma length_sibling_list [simp]: "length (sibling_list P ks key d n) = n"
  by (induction n arbitrary: ks d) auto

lemma collect_siblings_all:
  assumes cf: "collision_free P Q" and dq: "default_queries P \<subseteq> Q"
  shows "span ks d \<Longrightarrow> d + n = 256 \<Longrightarrow> map_queries P ks d \<subseteq> Q \<Longrightarrow>
    collect_siblings P ks d key sibs bm = (sibs @ sibling_list P ks key d n, fold (\<lambda>i b. set_bitmap b i) [d..<256] bm)"
proof (induction n arbitrary: ks d sibs bm)
  case 0
  then show ?case by (subst collect_siblings.simps) (simp add: depth_max_def)
next
  case (Suc n)
  then have d: "d < 256" by simp
  let ?b = "kbit key d"
  have upto: "[d..<256] = d # [Suc d..<256]" using d by (rule upt_conv_Cons)
  have span: "span (side ks d b) (Suc d)" for b using Suc.prems(1) by (rule span_side)
  have q: "map_queries P (side ks d b) (Suc d) \<subseteq> Q" for b
    using Suc.prems(3) map_queries_step [OF d, of P ks] by (cases b) auto
  have "256 - d = Suc (256 - Suc d)" using d by simp
  then have "default_at_depth P d = default_at_height P (Suc (256 - Suc d))"
    by (simp only: default_at_depth_def depth_max_def)
  then have real: "map_subtree_root P (side ks d b) (Suc d) \<noteq> default_at_depth P d" for b
    using root_not_parent_default [OF cf dq span _ _ q] d by simp
  have sides: "(if key_bit key d = 0 then (take (bit_split ks d) ks, drop (bit_split ks d) ks)
      else (drop (bit_split ks d) ks, take (bit_split ks d) ks)) = (side ks d ?b, side ks d (\<not> ?b))"
    by (cases ?b) (simp_all add: bit_split_sides [OF Suc.prems(1) d] key_bit_iff [OF d])
  have "collect_siblings P ks d key sibs bm =
      collect_siblings P (side ks d ?b) (Suc d) key
        (sibs @ [map_subtree_root P (side ks d (\<not> ?b)) (Suc d)]) (set_bitmap bm d)"
    using d real by (subst collect_siblings.simps) (simp add: Let_def sides depth_max_def)
  also have "\<dots> = (sibs @ sibling_list P ks key d (Suc n), fold (\<lambda>i b. set_bitmap b i) [d..<256] bm)"
    using Suc.IH [OF span _ q, of ?b] Suc.prems(2) by (simp add: upto)
  finally show ?case .
qed

lemma length_set_bitmap [simp]: "length (set_bitmap bm d) = length bm"
  by (simp add: set_bitmap_def)

lemma bitmap_bit_iff: "bitmap_bit bm d \<longleftrightarrow> bit (bm ! (d div 8)) (7 - d mod 8)"
  by (simp add: bitmap_bit_def bit_byte)

lemma bitmap_bit_set:
  assumes "length bm = 32" and "d < 256" and "i < 256"
  shows "bitmap_bit (set_bitmap bm d) i \<longleftrightarrow> i = d \<or> bitmap_bit bm i"
proof -
  have less: "d div 8 < 32" "7 - d mod 8 < 8" using assms(2) by simp_all
  have pos: "i div 8 = d div 8 \<Longrightarrow> 7 - i mod 8 = 7 - d mod 8 \<longleftrightarrow> i = d"
    using mod_less_divisor [of 8 i] mod_less_divisor [of 8 d] div_mult_mod_eq [of i 8] div_mult_mod_eq [of d 8]
    by linarith
  have "7 - i mod 8 < 8" by (rule le_less_trans [OF diff_le_self]) simp
  then have "bit (push_bit (7 - d mod 8) 1 :: u8) (7 - i mod 8) \<longleftrightarrow> 7 - i mod 8 = 7 - d mod 8"
    unfolding bit_push_bit_iff bit_1_iff by (auto, linarith)
  with assms less(1) pos show ?thesis
    by (cases "i div 8 = d div 8")
      (auto simp: bitmap_bit_iff set_bitmap_def bit_or_iff nth_list_update simp del: push_bit_of_1)
qed

lemma bitmap_fold:
  "length bm = 32 \<Longrightarrow> d \<le> i \<Longrightarrow> i < 256 \<Longrightarrow> bitmap_bit (fold (\<lambda>i b. set_bitmap b i) [d..<256] bm) i"
proof -
  have keep: "set is \<subseteq> {..<256} \<Longrightarrow> length bm = 32 \<Longrightarrow> i < 256 \<Longrightarrow>
      bitmap_bit (fold (\<lambda>i b. set_bitmap b i) is bm) i \<longleftrightarrow> i \<in> set is \<or> bitmap_bit bm i" for "is" bm i
    by (induction "is" arbitrary: bm) (auto simp: bitmap_bit_set)
  show "length bm = 32 \<Longrightarrow> d \<le> i \<Longrightarrow> i < 256 \<Longrightarrow> bitmap_bit (fold (\<lambda>i b. set_bitmap b i) [d..<256] bm) i"
    by (subst keep) auto
qed

lemma length_bitmap_fold [simp]: "length (fold (\<lambda>i b. set_bitmap b i) is bm) = length bm"
  by (induction "is" arbitrary: bm) auto

lemma expand_loop_full:
  "(\<forall>i. d \<le> i \<longrightarrow> i < d + n \<longrightarrow> bitmap_bit bm i) \<Longrightarrow> length sibs = n \<Longrightarrow>
     expand_loop P bm d n sibs = Some sibs"
  by (induction n arbitrary: d sibs) (auto simp: length_Suc_conv)

lemma length_expand_loop: "expand_loop P bm d n sibs = Some full \<Longrightarrow> length full = n"
  by (induction n arbitrary: d sibs full) (auto split: if_splits list.splits)

definition revmap_ok :: "revocation_map \<Rightarrow> bool" where
  "revmap_ok m \<longleftrightarrow> sorted_wrt (<) (map_keys m)"

text \<open>What the statements about one map assume not to collide.\<close>

definition map_apart :: "prims \<Rightarrow> revocation_map \<Rightarrow> u8 list set \<Rightarrow> bool" where
  "map_apart P m X \<longleftrightarrow> collision_free P (map_queries P (map_keys m) 0 \<union> default_queries P \<union> X)"

lemma revmap_prove_full:
  assumes "revmap_ok m" and "map_apart P m X"
  shows "siblings (revmap_prove P m key) = sibling_list P (map_keys m) key 0 256"
    and "proof_expand P (revmap_prove P m key) = Some (sibling_list P (map_keys m) key 0 256)"
proof -
  have collect: "collect_siblings P (map_keys m) 0 key [] (replicate 32 0) =
      (sibling_list P (map_keys m) key 0 256, fold (\<lambda>i b. set_bitmap b i) [0..<256] (replicate 32 0))"
  proof -
    let ?Q = "map_queries P (map_keys m) 0 \<union> default_queries P \<union> X"
    have "default_queries P \<subseteq> ?Q" "map_queries P (map_keys m) 0 \<subseteq> ?Q" by auto
    moreover have "span (map_keys m) 0" using assms(1) by (simp add: revmap_ok_def span_start)
    ultimately show ?thesis
      using collect_siblings_all [of P ?Q "map_keys m" 0 256 key "[]" "replicate 32 0"] assms(2)
      by (simp add: map_apart_def)
  qed
  show "siblings (revmap_prove P m key) = sibling_list P (map_keys m) key 0 256"
    by (simp add: revmap_prove_def depth_max_def collect)
  have "expand_loop P (fold (\<lambda>i b. set_bitmap b i) [0..<256] (replicate 32 0)) 0 256
      (sibling_list P (map_keys m) key 0 256) = Some (sibling_list P (map_keys m) key 0 256)"
    by (rule expand_loop_full) (simp_all add: bitmap_fold)
  then show "proof_expand P (revmap_prove P m key) = Some (sibling_list P (map_keys m) key 0 256)"
    by (simp add: proof_expand_def revmap_prove_def depth_max_def collect)
qed

section \<open>Verification is complete\<close>

definition slot :: "prims \<Rightarrow> bytes32 list \<Rightarrow> bytes32 \<Rightarrow> digest" where
  "slot P ks key = (if key \<in> set ks then leaf_hash P key else empty_leaf P)"

lemma slot_side: "slot P (side ks d (kbit key d)) key = slot P ks key"
  by (auto simp: slot_def side_def)

lemma slot_end:
  assumes "span ks 256" and "\<forall>k \<in> set ks. agree k key 256"
  shows "map_subtree_root P ks 256 = slot P ks key"
  using assms span_short [OF assms(1)] by (cases ks) (auto simp: root_end slot_def agree_all)

lemma side_agree:
  "\<forall>k \<in> set ks. agree k key d \<Longrightarrow> \<forall>k \<in> set (side ks d (kbit key d)). agree k key (Suc d)"
  by (auto simp: side_def agree_Suc)

lemma fold_siblings:
  "span ks d \<Longrightarrow> \<forall>k \<in> set ks. agree k key d \<Longrightarrow> d + n = 256 \<Longrightarrow>
   (\<forall>i < n. full ! (d + i) = sibling_list P ks key d n ! i) \<Longrightarrow>
     foldr (fold_level P key full) [d..<256] (slot P ks key) = map_subtree_root P ks d"
proof (induction n arbitrary: ks d)
  case 0
  then show ?case by (simp add: slot_end)
next
  case (Suc n)
  then have d: "d < 256" by simp
  let ?b = "kbit key d"
  have upto: "[d..<256] = d # [Suc d..<256]" using d by (rule upt_conv_Cons)
  have sib: "full ! d = map_subtree_root P (side ks d (\<not> ?b)) (Suc d)"
    using Suc.prems(4) by (auto dest: spec [where x = 0])
  have "full ! (Suc d + i) = sibling_list P (side ks d ?b) key (Suc d) n ! i" if "i < n" for i
    using Suc.prems(4) that by (auto dest: spec [where x = "Suc i"])
  then have "foldr (fold_level P key full) [Suc d..<256] (slot P ks key) = map_subtree_root P (side ks d ?b) (Suc d)"
    using Suc.IH [of "side ks d ?b" "Suc d"] Suc.prems span_side side_agree by (simp add: slot_side)
  then show ?case
    using root_split [OF Suc.prems(1) d, of P]
    by (cases ?b) (simp_all add: upto fold_level_def [of P key full d] sib key_bit_iff [OF d])
qed

lemma recompute_honest:
  assumes "revmap_ok m" and "map_apart P m X"
  shows "recompute_root P key (slot P (map_keys m) key) (revmap_prove P m key) = Some (revmap_root P m)"
  using assms revmap_prove_full [OF assms, of key]
    fold_siblings [of "map_keys m" 0 key 256 "sibling_list P (map_keys m) key 0 256" P]
  by (simp add: recompute_root_def revmap_root_def depth_max_def revmap_ok_def span_start)

section \<open>Verification is sound\<close>

text \<open>The encodings hashed while folding a proof.\<close>

definition level_bytes :: "prims \<Rightarrow> bytes32 \<Rightarrow> digest list \<Rightarrow> digest \<Rightarrow> nat \<Rightarrow> u8 list" where
  "level_bytes P key full claimed d =
     (let cur = foldr (fold_level P key full) [Suc d..<256] claimed
      in if kbit key d then map_node_bytes (full ! d) cur else map_node_bytes cur (full ! d))"

definition proof_queries :: "prims \<Rightarrow> bytes32 \<Rightarrow> digest \<Rightarrow> map_proof \<Rightarrow> u8 list set" where
  "proof_queries P key claimed pf =
     (case proof_expand P pf of
        None \<Rightarrow> {}
      | Some full \<Rightarrow> level_bytes P key full claimed ` {..<256})"

lemma fold_sound:
  assumes cf: "collision_free P Q" and lq: "level_bytes P key full claimed ` {..<256} \<subseteq> Q"
  shows "span ks d \<Longrightarrow> \<forall>k \<in> set ks. agree k key d \<Longrightarrow> d \<le> 256 \<Longrightarrow> map_queries P ks d \<subseteq> Q \<Longrightarrow>
    foldr (fold_level P key full) [d..<256] claimed = map_subtree_root P ks d \<Longrightarrow> claimed = slot P ks key"
proof (induction "256 - d" arbitrary: ks d)
  case 0
  then have "d = 256" by simp
  with 0 show ?case by (simp add: slot_end)
next
  case (Suc n)
  then have d: "d < 256" by simp
  let ?b = "kbit key d" and ?cur = "foldr (fold_level P key full) [Suc d..<256] claimed"
  let ?L = "map_subtree_root P (side ks d False) (Suc d)" and ?R = "map_subtree_root P (side ks d True) (Suc d)"
  have upto: "[d..<256] = d # [Suc d..<256]" using d by (rule upt_conv_Cons)
  have q: "map_node_bytes ?L ?R \<in> Q" "map_queries P (side ks d ?b) (Suc d) \<subseteq> Q"
    using Suc.prems(4) map_queries_step [OF d, of P ks] by (cases ?b; auto)+
  have level: "level_bytes P key full claimed d \<in> Q" using lq d by blast
  have "?cur = map_subtree_root P (side ks d ?b) (Suc d)"
  proof (cases ?b)
    case True
    then have "node_hash P (full ! d) ?cur = node_hash P ?L ?R"
      using Suc.prems(5) root_split [OF Suc.prems(1) d, of P] by (simp add: upto fold_level_def [of P key full d] key_bit_iff [OF d])
    with True level map_hash.node_eqD [OF cf this _ q(1)] show ?thesis by (simp add: level_bytes_def Let_def)
  next
    case False
    then have "node_hash P ?cur (full ! d) = node_hash P ?L ?R"
      using Suc.prems(5) root_split [OF Suc.prems(1) d, of P] by (simp add: upto fold_level_def [of P key full d] key_bit_iff [OF d])
    with False level map_hash.node_eqD [OF cf this _ q(1)] show ?thesis by (simp add: level_bytes_def Let_def)
  qed
  then have "claimed = slot P (side ks d ?b) key"
    using Suc.hyps span_side [OF Suc.prems(1)] side_agree [OF Suc.prems(2)] q(2) d
    by (intro Suc.hyps(1)) simp_all
  then show ?case by (simp add: slot_side)
qed

lemma recompute_sound:
  assumes ok: "revmap_ok m" and apart: "map_apart P m X" and X: "proof_queries P key claimed pf \<subseteq> X"
    and root: "recompute_root P key claimed pf = Some (revmap_root P m)"
  shows "claimed = slot P (map_keys m) key"
proof -
  let ?Q = "map_queries P (map_keys m) 0 \<union> default_queries P \<union> X"
  from root obtain full where full: "proof_expand P pf = Some full"
    and eq: "foldr (fold_level P key full) [0..<256] claimed = map_subtree_root P (map_keys m) 0"
    by (auto simp: recompute_root_def revmap_root_def depth_max_def split: option.splits)
  have "level_bytes P key full claimed ` {..<256} \<subseteq> ?Q"
    using X full by (auto simp: proof_queries_def)
  from fold_sound [OF _ this _ _ _ _ eq] apart ok show ?thesis
    by (auto simp: map_apart_def revmap_ok_def span_start)
qed

lemma slot_inject:
  assumes "map_apart P m X" and "[leaf_tag] @ array_bytes key \<in> X"
  shows "slot P (map_keys m) key = leaf_hash P key \<longleftrightarrow> key \<in> set (map_keys m)"
    and "slot P (map_keys m) key = empty_leaf P \<longleftrightarrow> key \<notin> set (map_keys m)"
proof -
  have "leaf_hash P key \<noteq> empty_leaf P"
    by (rule hash_leaf_neq_empty [OF assms(1) [unfolded map_apart_def]]) (use assms(2) in auto)
  then show "slot P (map_keys m) key = leaf_hash P key \<longleftrightarrow> key \<in> set (map_keys m)"
    "slot P (map_keys m) key = empty_leaf P \<longleftrightarrow> key \<notin> set (map_keys m)"
    by (auto simp: slot_def)
qed

section \<open>The operations of the map\<close>

lemma revmap_new_ok [simp]: "revmap_ok revmap_new"
  by (simp add: revmap_ok_def revmap_new_def)

lemma sorted_position:
  fixes ks :: "bytes32 list"
  assumes "sorted_wrt (<) ks"
  shows "takeWhile (\<lambda>x. x < k) ks = filter (\<lambda>x. x < k) ks" and "dropWhile (\<lambda>x. x < k) ks = filter (\<lambda>x. \<not> x < k) ks"
proof -
  have rest: "\<not> y < k" if "\<not> x < k" "sorted_wrt (<) (x # xs)" "y \<in> set xs" for x y xs
    using that by (meson less_trans sorted_wrt.simps(2))
  show "takeWhile (\<lambda>x. x < k) ks = filter (\<lambda>x. x < k) ks"
    using assms
  proof (induction ks)
    case (Cons x xs)
    then show ?case using rest [of x xs] by (auto intro!: filter_False [symmetric])
  qed simp
  show "dropWhile (\<lambda>x. x < k) ks = filter (\<lambda>x. \<not> x < k) ks"
    using assms
  proof (induction ks)
    case (Cons x xs)
    then show ?case using rest [of x xs] by (auto intro!: filter_True [symmetric])
  qed simp
qed

lemma binary_search_iff:
  assumes "sorted_wrt (<) ks"
  shows "(\<exists>i. binary_search ks k = Inr i) \<longleftrightarrow> k \<in> set ks"
proof -
  let ?t = "takeWhile (\<lambda>x. x < k) ks" and ?d = "dropWhile (\<lambda>x. x < k) ks"
  have ks: "ks = ?t @ ?d" by simp
  have nth: "length ?t < length ks \<and> ks ! length ?t = k \<longleftrightarrow> ?d \<noteq> [] \<and> hd ?d = k"
    by (metis add_cancel_left_right append_Nil2 hd_conv_nth length_append length_greater_0_conv less_add_same_cancel1
        nth_append_length_plus ks)
  have "k \<in> set ks \<longleftrightarrow> k \<in> set ?d"
    using ks by (metis Un_iff less_irrefl set_append set_takeWhileD)
  moreover have "k \<in> set ?d \<longleftrightarrow> ?d \<noteq> [] \<and> hd ?d = k"
  proof (cases ?d)
    case (Cons x xs)
    have "\<not> x < k" using Cons by (metis hd_dropWhile list.sel(1) list.distinct(1))
    moreover have "sorted_wrt (<) (x # xs)" using assms ks Cons by (metis sorted_wrt_append)
    ultimately show ?thesis using Cons by auto
  next
    case Nil
    then show ?thesis by (simp only: list.set empty_iff simp_thms)
  qed
  ultimately show ?thesis
    using nth by (auto simp: binary_search_def Let_def)
qed

lemma revmap_contains_iff: "revmap_ok m \<Longrightarrow> revmap_contains m k \<longleftrightarrow> k \<in> set (map_keys m)"
  using binary_search_iff [of "map_keys m" k]
  by (auto simp: revmap_ok_def revmap_contains_def split: sum.splits)

lemma revmap_revoke_ok:
  assumes "revmap_ok m"
  shows "revmap_ok (revmap_revoke m k) \<and> set (map_keys (revmap_revoke m k)) = insert k (set (map_keys m))"
proof (cases "binary_search (map_keys m) k")
  case (Inl pos)
  let ?ks = "map_keys m" and ?Q = "\<lambda>x. x < k"
  have sorted: "sorted_wrt (<) ?ks" using assms by (simp add: revmap_ok_def)
  have notin: "k \<notin> set ?ks" using binary_search_iff [OF sorted, of k] Inl by auto
  have pos: "pos = length (takeWhile ?Q ?ks)" using Inl by (auto simp: binary_search_def Let_def split: if_splits)
  have parts: "take pos ?ks = filter ?Q ?ks" "drop pos ?ks = filter (\<lambda>x. \<not> ?Q x) ?ks"
    unfolding pos using sorted_position [OF sorted, of k]
      takeWhile_eq_take [of ?Q ?ks] dropWhile_eq_drop [of ?Q ?ks] by metis+
  have gt: "k < x" if "x \<in> set ?ks" "\<not> x < k" for x
    using that notin by (metis linorder_neqE)
  have "sorted_wrt (<) (filter ?Q ?ks @ [k] @ filter (\<lambda>x. \<not> ?Q x) ?ks)"
    using sorted gt by (auto simp: sorted_wrt_append sorted_wrt_filter intro: less_trans)
  moreover have "set (filter ?Q ?ks @ [k] @ filter (\<lambda>x. \<not> ?Q x) ?ks) = insert k (set ?ks)" by auto
  moreover have "map_keys (revmap_revoke m k) = filter ?Q ?ks @ [k] @ filter (\<lambda>x. \<not> ?Q x) ?ks"
    using Inl by (simp add: revmap_revoke_def parts)
  ultimately show ?thesis by (simp add: revmap_ok_def)
next
  case (Inr i)
  then have "k \<in> set (map_keys m)"
    using binary_search_iff [of "map_keys m" k] assms by (auto simp: revmap_ok_def)
  with Inr assms show ?thesis by (auto simp: revmap_revoke_def)
qed

text \<open>The map of any sequence of revocations.\<close>

lemma revmap_fold_ok:
  "revmap_ok m \<Longrightarrow> revmap_ok (fold (\<lambda>k m. revmap_revoke m k) ks m) \<and>
     set (map_keys (fold (\<lambda>k m. revmap_revoke m k) ks m)) = set ks \<union> set (map_keys m)"
proof (induction ks arbitrary: m)
  case (Cons k ks)
  with Cons.IH [of "revmap_revoke m k"] revmap_revoke_ok [OF Cons.prems, of k] show ?case by auto
qed simp

lemma revmap_root_inject:
  assumes "revmap_ok m" and "revmap_ok n"
    and "collision_free P (map_queries P (map_keys m) 0 \<union> map_queries P (map_keys n) 0)"
    and "revmap_root P m = revmap_root P n"
  shows "set (map_keys m) = set (map_keys n)"
  using assms subtree_root_inject [OF assms(3), of "map_keys m" 0 "map_keys n"]
  by (simp add: revmap_ok_def span_start revmap_root_def)

section \<open>The map as an interface\<close>

text \<open>
  What the revocation log and the verifier rely on: against the root of a set, the proofs
  of the set answer every membership question, and no proof answers one wrongly. \<open>faithful\<close>
  and \<open>apart\<close> are what the provider has to assume of its hash function for each.
\<close>

locale authenticated_set =
  fixes ok :: "'s \<Rightarrow> bool" and members :: "'s \<Rightarrow> 'k set" and root :: "'s \<Rightarrow> 'd" and prove :: "'s \<Rightarrow> 'k \<Rightarrow> 'p"
    and says_in :: "'d \<Rightarrow> 'k \<Rightarrow> 'p \<Rightarrow> bool" and says_out :: "'d \<Rightarrow> 'k \<Rightarrow> 'p \<Rightarrow> bool"
    and faithful :: "'s \<Rightarrow> bool" and apart :: "'s \<Rightarrow> 'k \<Rightarrow> 'p \<Rightarrow> bool"
  assumes complete: "ok s \<Longrightarrow> faithful s \<Longrightarrow>
      (if k \<in> members s then says_in (root s) k (prove s k) else says_out (root s) k (prove s k))"
    and sound_in: "ok s \<Longrightarrow> apart s k pf \<Longrightarrow> says_in (root s) k pf \<Longrightarrow> k \<in> members s"
    and sound_out: "ok s \<Longrightarrow> apart s k pf \<Longrightarrow> says_out (root s) k pf \<Longrightarrow> k \<notin> members s"
begin

lemma never_both:
  "ok s \<Longrightarrow> apart s k p \<Longrightarrow> apart s k q \<Longrightarrow> says_in (root s) k p \<Longrightarrow> \<not> says_out (root s) k q"
  using sound_in [of s k p] sound_out [of s k q] by blast

lemma decided:
  assumes "ok s" and "faithful s" and "apart s k (prove s k)"
  shows "says_in (root s) k (prove s k) \<longleftrightarrow> k \<in> members s"
    and "says_out (root s) k (prove s k) \<longleftrightarrow> k \<notin> members s"
  using complete [OF assms(1,2), of k] sound_in [OF assms(1,3)] sound_out [OF assms(1,3)] by meson+

end

definition query_apart :: "prims \<Rightarrow> revocation_map \<Rightarrow> bytes32 \<Rightarrow> map_proof \<Rightarrow> bool" where
  "query_apart P m k pf \<longleftrightarrow>
     map_apart P m ({[leaf_tag] @ array_bytes k} \<union> proof_queries P k (leaf_hash P k) pf \<union>
       proof_queries P k (empty_leaf P) pf)"

lemma query_apart_slot:
  assumes "revmap_ok m" and "query_apart P m k pf"
  shows "map_verify_inclusion P (revmap_root P m) k pf \<Longrightarrow> k \<in> set (map_keys m)"
    and "map_verify_non_inclusion P (revmap_root P m) k pf \<Longrightarrow> k \<notin> set (map_keys m)"
proof -
  note apart = assms(2) [unfolded query_apart_def]
  note slot = slot_inject [OF apart, of k, OF UnI1, OF UnI1, OF insertI1]
  show "k \<in> set (map_keys m)" if "map_verify_inclusion P (revmap_root P m) k pf"
    using recompute_sound [OF assms(1) apart, of k "leaf_hash P k" pf] that slot(1)
    by (simp add: map_verify_inclusion_def subset_iff)
  show "k \<notin> set (map_keys m)" if "map_verify_non_inclusion P (revmap_root P m) k pf"
    using recompute_sound [OF assms(1) apart, of k "empty_leaf P" pf] that slot(2)
    by (simp add: map_verify_non_inclusion_def subset_iff)
qed

lemma honest_answer:
  assumes "revmap_ok m" and "map_apart P m X"
  shows "if k \<in> set (map_keys m) then map_verify_inclusion P (revmap_root P m) k (revmap_prove P m k)
    else map_verify_non_inclusion P (revmap_root P m) k (revmap_prove P m k)"
  using recompute_honest [OF assms, of k]
  by (simp add: slot_def map_verify_inclusion_def map_verify_non_inclusion_def split: if_splits)

interpretation smt: authenticated_set revmap_ok "\<lambda>m. set (map_keys m)" "revmap_root P" "revmap_prove P"
  "map_verify_inclusion P" "map_verify_non_inclusion P" "\<lambda>m. map_apart P m {}" "query_apart P" for P
  by (unfold_locales; fact honest_answer query_apart_slot)

end
