(* ===== verification/Consistency.thy ===== *)
theory Consistency
  imports Witness
begin

text \<open>
  The verification of RFC 6962 consistency proofs in \<^verbatim>\<open>core/witness\<close> and the
  reconciliation of signed heads that rests on it. The code walks up from the bottom of
  the tree; the proofs relate that walk to the recursion that produced the proof.
\<close>

section \<open>The verifier\<close>

text \<open>The three loops. \<^verbatim>\<open>None\<close> is the early \<^verbatim>\<open>return false\<close> on a short proof.\<close>

function strip_ones :: "nat \<Rightarrow> nat \<Rightarrow> nat \<times> nat" where
  "strip_ones node lst = (if odd node then strip_ones (node div 2) (lst div 2) else (node, lst))"
  by pat_completeness auto
termination
  by (relation "measure fst") (auto elim: oddE)

declare strip_ones.simps [simp del]

function climb ::
  "prims \<Rightarrow> nat \<Rightarrow> nat \<Rightarrow> digest \<Rightarrow> digest \<Rightarrow> digest list \<Rightarrow> (nat \<times> digest \<times> digest \<times> digest list) option" where
  "climb P node lst old_hash new_hash proof_nodes =
     (if node = 0 then Some (lst, old_hash, new_hash, proof_nodes)
      else if odd node then
        (case proof_nodes of
           [] \<Rightarrow> None
         | s # rest \<Rightarrow>
             climb P (node div 2) (lst div 2) (hash_node P s old_hash) (hash_node P s new_hash) rest)
      else if node < lst then
        (case proof_nodes of
           [] \<Rightarrow> None
         | s # rest \<Rightarrow> climb P (node div 2) (lst div 2) old_hash (hash_node P new_hash s) rest)
      else climb P (node div 2) (lst div 2) old_hash new_hash proof_nodes)"
  by pat_completeness auto
termination
  by (relation "measure (\<lambda>(P, node, lst, oh, w, ps). node)") auto

declare climb.simps [simp del]

function absorb :: "prims \<Rightarrow> nat \<Rightarrow> digest \<Rightarrow> digest list \<Rightarrow> (digest \<times> digest list) option" where
  "absorb P lst new_hash proof_nodes =
     (if lst = 0 then Some (new_hash, proof_nodes)
      else
        (case proof_nodes of
           [] \<Rightarrow> None
         | s # rest \<Rightarrow> absorb P (lst div 2) (hash_node P new_hash s) rest))"
  by pat_completeness auto
termination
  by (relation "measure (\<lambda>(P, lst, w, ps). lst)") auto

declare absorb.simps [simp del]

definition verify_consistency ::
  "prims \<Rightarrow> digest \<Rightarrow> digest \<Rightarrow> consistency_proof \<Rightarrow> nat \<Rightarrow> nat \<Rightarrow> bool" where
  "verify_consistency P old_root new_root pf old_size new_size =
     (if new_size < old_size then False
      else if old_size = new_size then nodes pf = [] \<and> old_root = new_root
      else if old_size = 0 then nodes pf = []
      else
        (case strip_ones (old_size - 1) (new_size - 1) of (node, lst) \<Rightarrow>
          (case (if node > 0
                 then (case nodes pf of [] \<Rightarrow> None | seed # rest \<Rightarrow> Some (seed, rest))
                 else Some (old_root, nodes pf)) of
             None \<Rightarrow> False
           | Some (seed, rest) \<Rightarrow>
               (case climb P node lst seed seed rest of
                  None \<Rightarrow> False
                | Some (lst', old_hash, new_hash, rest') \<Rightarrow>
                    (case absorb P lst' new_hash rest' of
                       None \<Rightarrow> False
                     | Some (new_hash', rest'') \<Rightarrow>
                         rest'' = [] \<and> new_hash' = new_root \<and> old_hash = old_root)))))"

datatype equivocation_error =
    InvalidSignedHead
  | ForkedRoot nat
  | Inconsistent nat nat

definition reconcile_heads ::
  "prims \<Rightarrow> signed_tree_head \<Rightarrow> signed_tree_head \<Rightarrow> public_key \<Rightarrow> consistency_proof option \<Rightarrow>
   equivocation_error + unit" where
  "reconcile_heads P a b log_key pf =
     (if \<not> verify_signed_head P a log_key \<or> \<not> verify_signed_head P b log_key
      then Inl InvalidSignedHead
      else if sth_size a = sth_size b then
        (if sth_root a = sth_root b then Inr () else Inl (ForkedRoot (sth_size a)))
      else
        (case (if sth_size a < sth_size b then (a, b) else (b, a)) of (small, large) \<Rightarrow>
          and_then (ok_or pf (Inconsistent (sth_size small) (sth_size large))) (\<lambda>pf.
            if verify_consistency P (sth_root small) (sth_root large) pf (sth_size small) (sth_size large)
            then Inr ()
            else Inl (Inconsistent (sth_size small) (sth_size large)))))"

section \<open>One walk\<close>

text \<open>The two upward loops are one loop that runs until the last index is 0.\<close>

function walk :: "prims \<Rightarrow> nat \<Rightarrow> nat \<Rightarrow> digest \<Rightarrow> digest \<Rightarrow> digest list \<Rightarrow> (digest \<times> digest) option" where
  "walk P node lst o_hash n_hash ps =
     (if lst = 0 then (if ps = [] then Some (o_hash, n_hash) else None)
      else if odd node then
        (case ps of [] \<Rightarrow> None
         | s # rest \<Rightarrow> walk P (node div 2) (lst div 2) (hash_node P s o_hash) (hash_node P s n_hash) rest)
      else if node < lst then
        (case ps of [] \<Rightarrow> None
         | s # rest \<Rightarrow> walk P (node div 2) (lst div 2) o_hash (hash_node P n_hash s) rest)
      else walk P (node div 2) (lst div 2) o_hash n_hash ps)"
  by pat_completeness auto
termination
  by (relation "measure (\<lambda>(P, node, lst, oh, w, ps). lst)") auto

declare walk.simps [simp del]

lemma walk_absorb:
  "walk P 0 lst o_hash w ps =
     (case absorb P lst w ps of Some (w', []) \<Rightarrow> Some (o_hash, w') | _ \<Rightarrow> None)"
proof (induction lst arbitrary: w ps rule: less_induct)
  case (less lst)
  show ?case
  proof (cases "lst = 0")
    case True
    then show ?thesis
      by (subst walk.simps, subst absorb.simps) (auto split: list.splits)
  next
    case False
    then show ?thesis
      using less.IH [of "lst div 2"]
      by (subst walk.simps, subst absorb.simps) (auto split: list.splits)
  qed
qed

lemma walk_climb:
  "node \<le> lst \<Longrightarrow> walk P node lst o_hash w ps =
     (case climb P node lst o_hash w ps of
        None \<Rightarrow> None
      | Some (lst', o', w', ps') \<Rightarrow>
          (case absorb P lst' w' ps' of Some (w'', []) \<Rightarrow> Some (o', w'') | _ \<Rightarrow> None))"
proof (induction node arbitrary: lst o_hash w ps rule: less_induct)
  case (less node)
  show ?case
  proof (cases "node = 0")
    case True
    then show ?thesis by (subst climb.simps) (simp add: walk_absorb)
  next
    case False
    have "node div 2 < node" "node div 2 \<le> lst div 2"
      using False less.prems by (simp_all add: div_le_mono)
    with False less.prems less.IH show ?thesis
      by (subst walk.simps, subst climb.simps) (auto split: list.splits)
  qed
qed

lemma strip_ones_le: "node \<le> lst \<Longrightarrow> fst (strip_ones node lst) \<le> snd (strip_ones node lst)"
proof (induction node arbitrary: lst rule: less_induct)
  case (less node)
  then show ?case
    by (subst (1 2) strip_ones.simps) (auto simp: div_le_mono elim: oddE)
qed

definition seeded_walk :: "prims \<Rightarrow> nat \<Rightarrow> nat \<Rightarrow> digest \<Rightarrow> digest list \<Rightarrow> (digest \<times> digest) option" where
  "seeded_walk P m n x ps = (case strip_ones (m - 1) (n - 1) of (node, lst) \<Rightarrow> walk P node lst x x ps)"

lemma strip_ones_zero_iff: "0 < m \<Longrightarrow> fst (strip_ones (m - 1) l) = 0 \<longleftrightarrow> is_power_of_two m"
proof (induction m arbitrary: l rule: less_induct)
  case (less m)
  show ?case
  proof (cases "odd (m - 1)")
    case True
    with less.prems have m: "even m" "m \<noteq> 1" "0 < m div 2" "m div 2 < m" "(m - 1) div 2 = m div 2 - 1"
      by (auto elim!: evenE oddE)
    have "fst (strip_ones (m - 1) l) = fst (strip_ones (m div 2 - 1) (l div 2))"
      using True m(5) by (subst strip_ones.simps) (simp only: not_not if_True simp_thms)
    with less.IH [OF m(4,3)] show ?thesis
      by (subst is_power_of_two.simps) (use m(1,2) less.prems in auto)
  next
    case False
    with less.prems show ?thesis
      by (subst strip_ones.simps, subst is_power_of_two.simps) auto
  qed
qed

lemma verify_consistency_walk:
  assumes "0 < m" and "m < n"
  shows "verify_consistency P old_root new_root pf m n \<longleftrightarrow>
    (if is_power_of_two m then seeded_walk P m n old_root (nodes pf) = Some (old_root, new_root)
     else (case nodes pf of [] \<Rightarrow> False | s # rest \<Rightarrow> seeded_walk P m n s rest = Some (old_root, new_root)))"
proof -
  obtain node lst where st: "strip_ones (m - 1) (n - 1) = (node, lst)" by fastforce
  have le: "node \<le> lst" using strip_ones_le [of "m - 1" "n - 1"] assms st by simp
  have zero: "node = 0 \<longleftrightarrow> is_power_of_two m" using strip_ones_zero_iff [of m "n - 1"] assms st by simp
  note st = st [simplified]
  show ?thesis
  proof (cases "is_power_of_two m")
    case True
    with zero have "node = 0" by simp
    with True assms show ?thesis
      by (auto simp: verify_consistency_def st seeded_walk_def walk_climb [of 0 lst]
          split: list.splits option.splits)
  next
    case False
    with zero have "node \<noteq> 0" by simp
    with False assms show ?thesis
      by (auto simp: verify_consistency_def st seeded_walk_def walk_climb [OF le]
          split: list.splits option.splits)
  qed
qed

section \<open>The walk as a recursion from the root\<close>

lemma walk_done [simp]: "walk P node 0 oh w ps = (if ps = [] then Some (oh, w) else None)"
  by (subst walk.simps) simp

lemma walk_last_right: "walk P 0 (Suc 0) oh w ps = (case ps of [s] \<Rightarrow> Some (oh, hash_node P w s) | _ \<Rightarrow> None)"
  by (subst walk.simps) (auto split: list.splits)

lemma walk_last_left:
  "walk P (Suc 0) (Suc 0) oh w ps =
     (case ps of [s] \<Rightarrow> Some (hash_node P s oh, hash_node P s w) | _ \<Rightarrow> None)"
  by (subst walk.simps) (auto split: list.splits)

lemma walk_empty: "0 < lst \<Longrightarrow> node < lst \<Longrightarrow> walk P node lst oh w [] = None"
proof (induction lst arbitrary: node rule: less_induct)
  case (less lst)
  then show ?case by (subst walk.simps) auto
qed

lemma half_power: "(2 ^ Suc d + r) div 2 = 2 ^ d + r div (2 :: nat)" "(2 ^ Suc d - 1) div 2 = 2 ^ d - (1 :: nat)"
  "(2 ^ Suc d - Suc 0) div 2 = 2 ^ d - Suc 0" "(2 * 2 ^ d - Suc 0) div 2 = 2 ^ d - Suc 0"
  by simp_all

lemma half_less: "x < 2 ^ Suc d \<Longrightarrow> x div 2 < 2 ^ d" for x :: nat
  by auto

abbreviation take_right :: "prims \<Rightarrow> digest \<Rightarrow> digest \<times> digest \<Rightarrow> digest \<times> digest" where
  "take_right P s \<equiv> (\<lambda>(o_hash, n_hash). (o_hash, hash_node P n_hash s))"

abbreviation take_left :: "prims \<Rightarrow> digest \<Rightarrow> digest \<times> digest \<Rightarrow> digest \<times> digest" where
  "take_left P s \<equiv> (\<lambda>(o_hash, n_hash). (hash_node P s o_hash, hash_node P s n_hash))"

text \<open>The old tree ends in the left half: the last step adds the right half to the new root.\<close>

lemma walk_left:
  "node < 2 ^ d \<Longrightarrow> r < 2 ^ d \<Longrightarrow>
     walk P node (2 ^ d + r) oh w (ps @ [s]) = map_option (take_right P s) (walk P node (2 ^ d - 1) oh w ps)"
proof (induction d arbitrary: node r oh w ps)
  case 0
  then show ?case
    by (cases ps) (auto simp: walk_last_right split: list.splits)
next
  case (Suc d)
  note halves = half_less [OF Suc.prems(1)] half_less [OF Suc.prems(2)]
  have top: "0 < 2 ^ Suc d + r" "0 < (2 :: nat) ^ Suc d - 1"
    using one_less_power [of "2 :: nat" "Suc d"] by simp_all
  have empty: "walk P (node div 2) (2 ^ d + r div 2) oh w [] = None" for oh w
    using halves by (intro walk_empty) simp_all
  have parity: "odd node \<or> (node < 2 ^ Suc d + r \<and> node < 2 ^ Suc d - 1)"
    using Suc.prems(1) by (cases "node = 2 ^ Suc d - 1") auto
  show ?case
  proof (cases ps)
    case Nil
    then show ?thesis
      using top parity empty by (subst (1 2) walk.simps) (auto simp: half_power)
  next
    case (Cons p ps')
    then show ?thesis
      using top parity Suc.IH [OF halves]
      by (subst (1 2) walk.simps) (auto simp: half_power simp del: power_Suc)
  qed
qed

text \<open>It ends in the right half: the last step puts the left half before both roots.\<close>

lemma walk_right_empty: "node < 2 ^ d \<Longrightarrow> lst < 2 ^ d \<Longrightarrow> walk P (2 ^ d + node) (2 ^ d + lst) oh w [] = None"
proof (induction d arbitrary: node lst oh w)
  case 0
  then show ?case by (subst walk.simps) simp
next
  case (Suc d)
  from Suc.IH [OF half_less [OF Suc.prems(1)] half_less [OF Suc.prems(2)]]
  show ?case by (subst walk.simps) (auto simp: half_power simp del: power_Suc)
qed

lemma walk_right:
  "node \<le> lst \<Longrightarrow> lst < 2 ^ d \<Longrightarrow>
     walk P (2 ^ d + node) (2 ^ d + lst) oh w (ps @ [s]) = map_option (take_left P s) (walk P node lst oh w ps)"
proof (induction d arbitrary: node lst oh w ps)
  case 0
  then show ?case
    by (cases ps) (auto simp: walk_last_left split: list.splits)
next
  case (Suc d)
  have le: "node div 2 \<le> lst div 2" using Suc.prems(1) by (rule div_le_mono)
  have lt: "lst div 2 < 2 ^ d" using Suc.prems(2) by (rule half_less)
  note IH = Suc.IH [OF le lt]
  have empty: "walk P (2 ^ d + node div 2) (2 ^ d + lst div 2) oh w [] = None" for oh w
    using le lt by (intro walk_right_empty) simp_all
  have top: "0 < 2 ^ Suc d + lst" by simp
  show ?case
  proof (cases "lst = 0")
    case True
    with Suc.prems have z: "node = 0" by simp
    have "walk P (2 ^ Suc d + node) (2 ^ Suc d + lst) oh w (ps @ [s]) =
        walk P (2 ^ d + 0 div 2) (2 ^ d + 0 div 2) oh w (ps @ [s])"
      by (subst walk.simps) (simp add: True z)
    also have "\<dots> = map_option (take_left P s) (walk P (0 div 2) (0 div 2) oh w ps)"
      using IH True z by simp
    finally show ?thesis by (simp add: True z)
  next
    case False
    show ?thesis
    proof (cases ps)
      case Nil
      with False empty IH [of _ _ "[]"] show ?thesis
        by (subst (1 2) walk.simps) (auto simp: half_power simp del: power_Suc)
    next
      case (Cons p ps')
      with False IH [of _ _ ps] IH [of _ _ ps'] show ?thesis
        by (subst (1 2) walk.simps) (auto simp: half_power simp del: power_Suc)
    qed
  qed
qed

lemma strip_left:
  "node < 2 ^ d \<Longrightarrow> r < 2 ^ d \<Longrightarrow>
     \<exists>e r' node'. node' < 2 ^ e \<and> r' < 2 ^ e \<and> strip_ones node (2 ^ d + r) = (node', 2 ^ e + r') \<and>
       strip_ones node (2 ^ d - 1) = (node', 2 ^ e - 1)"
proof (induction d arbitrary: node r)
  case 0
  then show ?case
    by (subst (1 2) strip_ones.simps) (auto intro!: exI [of _ 0])
next
  case (Suc d)
  show ?case
  proof (cases "odd node")
    case True
    from Suc.IH [OF half_less [OF Suc.prems(1)] half_less [OF Suc.prems(2)]] True show ?thesis
      by (subst (1 2) strip_ones.simps) (simp add: half_power del: power_Suc)
  next
    case False
    then have "strip_ones node l = (node, l)" for l by (subst strip_ones.simps) simp
    with Suc.prems show ?thesis by blast
  qed
qed

lemma strip_right:
  "node < lst \<Longrightarrow> lst < 2 ^ d \<Longrightarrow>
     \<exists>e node' lst'. node' \<le> lst' \<and> lst' < 2 ^ e \<and>
       strip_ones (2 ^ d + node) (2 ^ d + lst) = (2 ^ e + node', 2 ^ e + lst') \<and>
       strip_ones node lst = (node', lst')"
proof (induction d arbitrary: node lst)
  case 0
  then show ?case by simp
next
  case (Suc d)
  show ?case
  proof (cases "odd node")
    case True
    with Suc.prems(1) have "node div 2 < lst div 2" by (auto elim!: oddE)
    from Suc.IH [OF this half_less [OF Suc.prems(2)]] True show ?thesis
      by (subst (1 2) strip_ones.simps) (simp add: half_power del: power_Suc)
  next
    case False
    with Suc.prems show ?thesis
      by (subst (1 2) strip_ones.simps) (auto intro!: exI [of _ "Suc d"])
  qed
qed

lemma seeded_walk_left:
  assumes "0 < m" and "m \<le> 2 ^ d" and "2 ^ d < n" and "n \<le> 2 * 2 ^ d"
  shows "seeded_walk P m n x (ps @ [s]) = map_option (take_right P s) (seeded_walk P m (2 ^ d) x ps)"
    and "seeded_walk P m n x [] = None"
proof -
  have "m - 1 < 2 ^ d" "n - 1 - 2 ^ d < 2 ^ d" and n: "2 ^ d + (n - 1 - 2 ^ d) = n - 1"
    using assms by linarith+
  from strip_left [OF this(1,2)] obtain e r node where
    b: "node < 2 ^ e" "r < 2 ^ e" and st: "strip_ones (m - 1) (n - 1) = (node, 2 ^ e + r)"
      "strip_ones (m - 1) (2 ^ d - 1) = (node, 2 ^ e - 1)"
    unfolding n by blast
  show "seeded_walk P m n x (ps @ [s]) = map_option (take_right P s) (seeded_walk P m (2 ^ d) x ps)"
    using walk_left [OF b] by (simp only: seeded_walk_def st prod.case)
  show "seeded_walk P m n x [] = None"
    using walk_empty [of "2 ^ e + r" node] b by (simp only: seeded_walk_def st prod.case)
qed

lemma seeded_walk_right:
  assumes "2 ^ d < m" and "m < n" and "n \<le> 2 * 2 ^ d"
  shows "seeded_walk P m n x (ps @ [s]) = map_option (take_left P s) (seeded_walk P (m - 2 ^ d) (n - 2 ^ d) x ps)"
    and "seeded_walk P m n x [] = None"
proof -
  have "m - 2 ^ d - 1 < n - 2 ^ d - 1" "n - 2 ^ d - 1 < 2 ^ d"
    and eqs: "2 ^ d + (m - 2 ^ d - 1) = m - 1" "2 ^ d + (n - 2 ^ d - 1) = n - 1"
    using assms by linarith+
  from strip_right [OF this(1,2)] obtain e node lst where
    b: "node \<le> lst" "lst < 2 ^ e" and st: "strip_ones (m - 1) (n - 1) = (2 ^ e + node, 2 ^ e + lst)"
      "strip_ones (m - 2 ^ d - 1) (n - 2 ^ d - 1) = (node, lst)"
    unfolding eqs by blast
  show "seeded_walk P m n x (ps @ [s]) = map_option (take_left P s) (seeded_walk P (m - 2 ^ d) (n - 2 ^ d) x ps)"
    using walk_right [OF b] by (simp only: seeded_walk_def st prod.case)
  show "seeded_walk P m n x [] = None"
    using walk_right_empty [of node e lst] b by (simp only: seeded_walk_def st prod.case)
qed

lemma seeded_walk_full: "seeded_walk P (2 ^ d) (2 ^ d) x ps = (if ps = [] then Some (x, x) else None)"
proof -
  have "strip_ones (2 ^ d - 1) (2 ^ d - 1) = (0, 0)"
  proof (induction d)
    case 0
    then show ?case by (subst strip_ones.simps) simp
  next
    case (Suc d)
    then show ?case by (subst strip_ones.simps) (simp add: half_power)
  qed
  then show ?thesis
    by (simp only: seeded_walk_def prod.case) (subst walk.simps, simp)
qed

text \<open>
  The proof consumed from its end, following \<open>naive_subproof\<close>. \<open>R\<close> is the claimed old
  root; the result is the pair of roots the proof yields.
\<close>

function recon :: "prims \<Rightarrow> nat \<Rightarrow> nat \<Rightarrow> bool \<Rightarrow> digest \<Rightarrow> digest list \<Rightarrow> (digest \<times> digest) option" where
  "recon P m n b R ps =
     (if m = n then
        (if b then (if ps = [] then Some (R, R) else None)
         else (case ps of [s] \<Rightarrow> Some (s, s) | _ \<Rightarrow> None))
      else if n \<le> 1 \<or> ps = [] then None
      else if m \<le> split_point n then
        map_option (take_right P (last ps)) (recon P m (split_point n) b R (butlast ps))
      else
        map_option (take_left P (last ps)) (recon P (m - split_point n) (n - split_point n) False R (butlast ps)))"
  by pat_completeness auto
termination
  by (relation "measure (\<lambda>(P, m, n, b, R, ps). n)") auto

declare recon.simps [simp del]

lemma recon_full [simp]:
  "recon P n n True R ps = (if ps = [] then Some (R, R) else None)"
  "recon P n n False R ps = (case ps of [s] \<Rightarrow> Some (s, s) | _ \<Rightarrow> None)"
  by (subst recon.simps, simp)+

lemma recon_snoc:
  "m < n \<Longrightarrow> 0 < m \<Longrightarrow> recon P m n b R (ps @ [s]) =
     (if m \<le> split_point n then map_option (take_right P s) (recon P m (split_point n) b R ps)
      else map_option (take_left P s) (recon P (m - split_point n) (n - split_point n) False R ps))"
  by (subst recon.simps) simp

lemma recon_nil: "m < n \<Longrightarrow> recon P m n b R [] = None"
  by (subst recon.simps) simp

lemma recon_walk:
  "0 < m \<Longrightarrow> m < n \<or> (m = n \<and> is_power_of_two n) \<Longrightarrow>
     recon P m n b R ps =
       (if b \<and> is_power_of_two m then seeded_walk P m n R ps
        else (case ps of [] \<Rightarrow> None | s # rest \<Rightarrow> seeded_walk P m n s rest))"
proof (induction n arbitrary: m b ps rule: less_induct)
  case (less n)
  show ?case
  proof (cases "m = n")
    case True
    with less.prems obtain d where "m = 2 ^ d" "n = 2 ^ d" by (auto simp: is_power_of_two_iff)
    then show ?thesis
      by (cases b; cases ps) (auto simp: seeded_walk_full split: list.splits)
  next
    case False
    with less.prems have mn: "m < n" and n1: "1 < n" by auto
    from n1 obtain d where d: "split_point n = 2 ^ d" "2 ^ d < n" "n \<le> 2 * 2 ^ d" by (rule split_point_spec)
    show ?thesis
    proof (cases "m \<le> 2 ^ d")
      case left: True
      have IH: "recon P m (2 ^ d) b R ps = (if b \<and> is_power_of_two m then seeded_walk P m (2 ^ d) R ps
          else (case ps of [] \<Rightarrow> None | s # rest \<Rightarrow> seeded_walk P m (2 ^ d) s rest))" for ps
      proof -
        from left have "m < 2 ^ d \<or> (m = 2 ^ d \<and> is_power_of_two (2 ^ d))" by auto
        from less.IH [OF d(2) less.prems(1) this] show ?thesis .
      qed
      note sw = seeded_walk_left [OF less.prems(1) left d(2,3)]
      show ?thesis
      proof (cases ps rule: rev_cases)
        case Nil
        then show ?thesis using mn sw(2) by (simp add: recon_nil)
      next
        case (snoc init t)
        show ?thesis
          unfolding snoc recon_snoc [OF mn less.prems(1)] d(1)
          using left sw(1) [of P R init t] sw(1) [of P _ _ t] sw(2) IH [of init]
          by (cases init) simp_all
      qed
    next
      case right: False
      have npow: "\<not> is_power_of_two m"
      proof
        assume "is_power_of_two m"
        then obtain e where "m = 2 ^ e" by (auto simp: is_power_of_two_iff)
        with right d mn have "(2 :: nat) ^ d < 2 ^ e" "(2 :: nat) ^ e < 2 ^ Suc d" by auto
        then have "d < e" "e < Suc d" by (simp_all only: power_strict_increasing_iff)
        then show False by simp
      qed
      have IH: "recon P (m - 2 ^ d) (n - 2 ^ d) False R ps =
          (case ps of [] \<Rightarrow> None | s # rest \<Rightarrow> seeded_walk P (m - 2 ^ d) (n - 2 ^ d) s rest)" for ps
      proof -
        have "n - 2 ^ d < n" "0 < m - 2 ^ d" "m - 2 ^ d < n - 2 ^ d" using d mn right by linarith+
        with less.IH [of "n - 2 ^ d" "m - 2 ^ d" False ps] show ?thesis by simp
      qed
      have "2 ^ d < m" using right by simp
      note sw = seeded_walk_right [OF this mn d(3)]
      show ?thesis
      proof (cases ps rule: rev_cases)
        case Nil
        then show ?thesis using mn npow by (simp add: recon_nil)
      next
        case (snoc init t)
        show ?thesis
          unfolding snoc recon_snoc [OF mn less.prems(1)] d(1)
          using right npow sw(1) [of P R init t] sw(1) [of P _ _ t] sw(2) IH [of init]
          by (cases init) simp_all
      qed
    qed
  qed
qed

lemma verify_consistency_recon:
  assumes "0 < m" and "m < n"
  shows "verify_consistency P old_root new_root pf m n \<longleftrightarrow>
    recon P m n True old_root (nodes pf) = Some (old_root, new_root)"
  using assms by (auto simp: verify_consistency_walk recon_walk split: list.splits)

section \<open>Completeness\<close>

lemma naive_root_prefix:
  assumes "split_point (length hs) < m" and "m \<le> length hs"
  shows "naive_root P (take m hs) =
    hash_node P (naive_root P (take (split_point (length hs)) hs))
      (naive_root P (take (m - split_point (length hs)) (drop (split_point (length hs)) hs)))"
proof (cases "Suc 0 < length hs")
  case True
  then obtain d where d: "split_point (length hs) = 2 ^ d" "length hs \<le> 2 * 2 ^ d"
    using split_point_spec [of "length hs"] by auto
  let ?k = "split_point (length hs)"
  have len: "length (take m hs) = m" using assms by simp
  have k: "split_point m = ?k" using assms d by (metis le_trans split_point_unique)
  have "Suc 0 < length (take m hs)" using split_point_less(1) [OF True] assms by simp
  from naive_root_split [OF this, of P, unfolded len k]
  show ?thesis using assms(1) by (simp add: min_def drop_take)
next
  case False
  have "split_point (length hs) = 1"
    using False by (simp add: split_point_def, subst split_loop.simps) simp
  with False assms show ?thesis by simp
qed

lemma recon_complete:
  "0 < m \<Longrightarrow> m \<le> length hs \<Longrightarrow> (b \<Longrightarrow> R = naive_root P (take m hs)) \<Longrightarrow>
     recon P m (length hs) b R (naive_subproof P m hs b) = Some (naive_root P (take m hs), naive_root P hs)"
proof (induction "length hs" arbitrary: hs m b rule: less_induct)
  case less
  show ?case
  proof (cases "m = length hs")
    case True
    with less.prems(3) show ?thesis by simp
  next
    case False
    with less.prems have m: "m < length hs" and n: "Suc 0 < length hs" by linarith+
    let ?k = "split_point (length hs)"
    have k: "?k < length hs" "0 < ?k" using n by simp_all
    show ?thesis
    proof (cases "m \<le> ?k")
      case True
      then have "recon P m (length (take ?k hs)) b R (naive_subproof P m (take ?k hs) b) =
          Some (naive_root P (take m (take ?k hs)), naive_root P (take ?k hs))"
        using less.prems k by (intro less.hyps) (simp_all add: min_def)
      moreover have "length (take ?k hs) = ?k" "take m (take ?k hs) = take m hs"
        using True k by simp_all
      ultimately have sub: "recon P m ?k b R (naive_subproof P m (take ?k hs) b) =
          Some (naive_root P (take m hs), naive_root P (take ?k hs))"
        by (simp only:)
      show ?thesis
        using True m n less.prems(1)
        by (simp add: naive_subproof_split recon_snoc sub naive_root_split [OF n])
    next
      case False
      then have "recon P (m - ?k) (length (drop ?k hs)) False R (naive_subproof P (m - ?k) (drop ?k hs) False) =
          Some (naive_root P (take (m - ?k) (drop ?k hs)), naive_root P (drop ?k hs))"
        using less.prems k m by (intro less.hyps) simp_all
      with False k m n less.prems show ?thesis
        by (simp add: naive_subproof_split recon_snoc naive_root_prefix naive_root_split [OF n])
    qed
  qed
qed

lemma verify_consistency_complete:
  assumes "m \<le> length hs"
  shows "verify_consistency P (naive_root P (take m hs)) (naive_root P hs)
    \<lparr>nodes = (if m = 0 then [] else naive_subproof P m hs True)\<rparr> m (length hs)"
proof (cases "0 < m \<and> m < length hs")
  case True
  then show ?thesis
    using recon_complete [of m hs True "naive_root P (take m hs)" P]
    by (simp add: verify_consistency_recon)
next
  case False
  then consider "m = 0" | "m = length hs" using assms by linarith
  then show ?thesis by cases (auto simp: verify_consistency_def)
qed

section \<open>Soundness\<close>

text \<open>The node encodings that the verification of a proof hashes.\<close>

abbreviation node_bytes :: "digest \<Rightarrow> digest \<Rightarrow> u8 list" where
  "node_bytes l r \<equiv> [node_prefix] @ array_bytes l @ array_bytes r"

function recon_queries :: "prims \<Rightarrow> nat \<Rightarrow> nat \<Rightarrow> bool \<Rightarrow> digest \<Rightarrow> digest list \<Rightarrow> u8 list set" where
  "recon_queries P m n b R ps =
     (if m = n \<or> n \<le> 1 \<or> ps = [] then {}
      else if m \<le> split_point n then
        (case recon P m (split_point n) b R (butlast ps) of
           None \<Rightarrow> {} | Some (oh, w) \<Rightarrow> {node_bytes w (last ps)}) \<union>
        recon_queries P m (split_point n) b R (butlast ps)
      else
        (case recon P (m - split_point n) (n - split_point n) False R (butlast ps) of
           None \<Rightarrow> {} | Some (oh, w) \<Rightarrow> {node_bytes (last ps) oh, node_bytes (last ps) w}) \<union>
        recon_queries P (m - split_point n) (n - split_point n) False R (butlast ps))"
  by pat_completeness auto
termination
  by (relation "measure (\<lambda>(P, m, n, b, R, ps). n)") auto

declare recon_queries.simps [simp del]

lemma recon_queries_snoc:
  "m < n \<Longrightarrow> 0 < m \<Longrightarrow> recon_queries P m n b R (ps @ [s]) =
     (if m \<le> split_point n then
        (case recon P m (split_point n) b R ps of
           None \<Rightarrow> {} | Some (oh, w) \<Rightarrow> {node_bytes w s}) \<union>
        recon_queries P m (split_point n) b R ps
      else
        (case recon P (m - split_point n) (n - split_point n) False R ps of
           None \<Rightarrow> {} | Some (oh, w) \<Rightarrow> {node_bytes s oh, node_bytes s w}) \<union>
        recon_queries P (m - split_point n) (n - split_point n) False R ps)"
  by (subst recon_queries.simps) (auto split: option.splits)

lemma recon_sound:
  assumes cf: "collision_free P Q"
  shows "0 < m \<Longrightarrow> m \<le> length hs \<Longrightarrow> recon P m (length hs) b R ps = Some (oh, naive_root P hs) \<Longrightarrow>
    recon_queries P m (length hs) b R ps \<union> node_queries P hs \<subseteq> Q \<Longrightarrow> oh = naive_root P (take m hs)"
proof (induction "length hs" arbitrary: hs m b ps oh rule: less_induct)
  case less
  show ?case
  proof (cases "m = length hs")
    case True
    with less.prems(3) show ?thesis
      by (cases b) (auto split: if_splits list.splits)
  next
    case False
    with less.prems have m: "m < length hs" and n: "Suc 0 < length hs" by linarith+
    let ?k = "split_point (length hs)"
    let ?L = "naive_root P (take ?k hs)" and ?R = "naive_root P (drop ?k hs)"
    have k: "?k < length hs" "0 < ?k" using n by simp_all
    have root: "naive_root P hs = hash_node P ?L ?R" by (rule naive_root_split [OF n])
    have nq: "node_bytes ?L ?R \<in> Q" "node_queries P (take ?k hs) \<subseteq> Q" "node_queries P (drop ?k hs) \<subseteq> Q"
      using less.prems(4) node_queries_split [OF n, of P] by auto
    obtain qs s where ps: "ps = qs @ [s]"
      using less.prems(3) m by (cases ps rule: rev_cases) (auto simp: recon_nil)
    note snoc = recon_snoc [OF m less.prems(1)] and qsnoc = recon_queries_snoc [OF m less.prems(1)]
    show ?thesis
    proof (cases "m \<le> ?k")
      case True
      with less.prems(3) obtain w where sub: "recon P m ?k b R qs = Some (oh, w)"
        and w: "hash_node P w s = hash_node P ?L ?R"
        by (auto simp: ps snoc root)
      from less.prems(4) True sub have q: "node_bytes w s \<in> Q" "recon_queries P m ?k b R qs \<subseteq> Q"
        by (auto simp: ps qsnoc)
      from log_hash.node_eqD [OF cf w q(1) nq(1)] have "w = ?L" by simp
      then have "oh = naive_root P (take m (take ?k hs))"
        using less.prems(1) True k sub q(2) nq(2) by (intro less.hyps) (simp_all add: min_def)
      with True show ?thesis by (simp add: min_def)
    next
      case False
      with less.prems(3) obtain o' w where sub: "recon P (m - ?k) (length hs - ?k) False R qs = Some (o', w)"
        and w: "hash_node P s w = hash_node P ?L ?R" and oh: "oh = hash_node P s o'"
        by (auto simp: ps snoc root)
      from less.prems(4) False sub have q: "node_bytes s w \<in> Q" "recon_queries P (m - ?k) (length hs - ?k) False R qs \<subseteq> Q"
        by (auto simp: ps qsnoc)
      from log_hash.node_eqD [OF cf w q(1) nq(1)] have "s = ?L" "w = ?R" by simp_all
      then have "o' = naive_root P (take (m - ?k) (drop ?k hs))"
        using False m k sub q(2) nq(3) by (intro less.hyps) simp_all
      with False m \<open>s = ?L\<close> oh show ?thesis by (simp add: naive_root_prefix)
    qed
  qed
qed

lemma naive_root_inject:
  assumes cf: "collision_free P Q"
  shows "length as = length bs \<Longrightarrow> naive_root P as = naive_root P bs \<Longrightarrow>
    node_queries P as \<union> node_queries P bs \<subseteq> Q \<Longrightarrow> as = bs"
proof (induction "length as" arbitrary: as bs rule: less_induct)
  case less
  show ?case
  proof (cases "Suc 0 < length as")
    case False
    then consider "as = []" "bs = []" | a b where "as = [a]" "bs = [b]"
      using less.prems(1) by (cases as; cases bs; cases "tl as"; cases "tl bs") auto
    then show ?thesis
    proof cases
      case 1
      then show ?thesis by simp
    next
      case (2 a b)
      with less.prems(2) have "a = b" by (simp only: naive_root_single)
      with 2 show ?thesis by simp
    qed
  next
    case True
    then have True': "Suc 0 < length bs" using less.prems(1) by simp
    let ?k = "split_point (length as)"
    have k: "?k < length as" "0 < ?k" using True by simp_all
    note len = less.prems(1) [symmetric]
    note a = naive_root_split [OF True, of P] node_queries_split [OF True, of P]
    note b = naive_root_split [OF True', of P, unfolded len] node_queries_split [OF True', of P, unfolded len]
    have root: "hash_node P (naive_root P (take ?k as)) (naive_root P (drop ?k as)) =
        hash_node P (naive_root P (take ?k bs)) (naive_root P (drop ?k bs))"
      using less.prems(2) unfolding a(1) b(1) .
    have q: "node_bytes (naive_root P (take ?k as)) (naive_root P (drop ?k as)) \<in> Q"
      "node_bytes (naive_root P (take ?k bs)) (naive_root P (drop ?k bs)) \<in> Q"
      "node_queries P (take ?k as) \<union> node_queries P (take ?k bs) \<subseteq> Q"
      "node_queries P (drop ?k as) \<union> node_queries P (drop ?k bs) \<subseteq> Q"
      using less.prems(3) unfolding a(2) b(2) by blast+
    from log_hash.node_eqD [OF cf root q(1,2)]
    have eq: "naive_root P (take ?k as) = naive_root P (take ?k bs)" "naive_root P (drop ?k as) = naive_root P (drop ?k bs)"
      by simp_all
    have "take ?k as = take ?k bs"
      by (rule less.hyps [OF _ _ eq(1) q(3)]) (use k len in simp_all)
    moreover have "drop ?k as = drop ?k bs"
      by (rule less.hyps [OF _ _ eq(2) q(4)]) (use k len in simp_all)
    ultimately show ?thesis by (metis append_take_drop_id)
  qed
qed

lemma verify_consistency_sound:
  assumes "verify_consistency P old_root (naive_root P hs) pf m (length hs)" and "0 < m"
    and "collision_free P (recon_queries P m (length hs) True old_root (nodes pf) \<union> node_queries P hs)"
  shows "m \<le> length hs \<and> old_root = naive_root P (take m hs)"
proof (cases "m < length hs")
  case True
  with assms show ?thesis
    using recon_sound [OF assms(3), of m hs True old_root "nodes pf" old_root]
    by (simp add: verify_consistency_recon)
next
  case False
  with assms show ?thesis
    by (auto simp: verify_consistency_def split: if_splits)
qed

text \<open>So a proof accepted between two trees shows that one grew out of the other.\<close>

lemma consistent_prefix:
  assumes v: "verify_consistency P (naive_root P as) (naive_root P bs) pf (length as) (length bs)" and "as \<noteq> []"
    and cf: "collision_free P (node_queries P as \<union> node_queries P bs \<union> node_queries P (take (length as) bs) \<union>
      recon_queries P (length as) (length bs) True (naive_root P as) (nodes pf))"
  shows "length as \<le> length bs \<and> as = take (length as) bs"
proof -
  from verify_consistency_sound [OF v _ collision_free_mono [OF cf]] assms(2) have
    le: "length as \<le> length bs" and "naive_root P as = naive_root P (take (length as) bs)" by auto
  with naive_root_inject [OF cf, of as "take (length as) bs"] show ?thesis by auto
qed

section \<open>Gossip\<close>

lemma reconcile_heads_iff:
  "reconcile_heads P a b k pf = Inr () \<longleftrightarrow>
     verify_signed_head P a k \<and> verify_signed_head P b k \<and>
     (if sth_size a = sth_size b then sth_root a = sth_root b
      else if sth_size a < sth_size b
        then (\<exists>p. pf = Some p \<and> verify_consistency P (sth_root a) (sth_root b) p (sth_size a) (sth_size b))
        else (\<exists>p. pf = Some p \<and> verify_consistency P (sth_root b) (sth_root a) p (sth_size b) (sth_size a)))"
  by (auto simp: reconcile_heads_def and_then_Inr_iff split: if_splits)

text \<open>A head is a view of a log state: its size and root.\<close>

definition head_of :: "prims \<Rightarrow> digest list \<Rightarrow> signed_tree_head \<Rightarrow> bool" where
  "head_of P hs h \<longleftrightarrow> sth_size h = length hs \<and> sth_root h = naive_root P hs"

lemma reconcile_sound:
  assumes rec: "reconcile_heads P a b k pf = Inr ()"
    and heads: "head_of P hs a" "head_of P ks b" and size: "0 < length hs" "length hs \<le> length ks"
    and cf: "collision_free P (node_queries P hs \<union> node_queries P ks \<union> node_queries P (take (length hs) ks) \<union>
      (case pf of None \<Rightarrow> {} | Some p \<Rightarrow> recon_queries P (length hs) (length ks) True (naive_root P hs) (nodes p)))"
      (is "collision_free P ?Q")
  shows "hs = take (length hs) ks"
proof (cases "length hs = length ks")
  case True
  with rec heads have "naive_root P hs = naive_root P ks"
    by (simp add: reconcile_heads_iff head_of_def)
  with True show ?thesis
    using naive_root_inject [OF cf, of hs ks] by auto
next
  case False
  with rec heads size obtain p where p: "pf = Some p"
    and v: "verify_consistency P (naive_root P hs) (naive_root P ks) p (length hs) (length ks)"
    by (auto simp: reconcile_heads_iff head_of_def)
  from size(1) have "hs \<noteq> []" by simp
  from consistent_prefix [OF v this] cf p show ?thesis by simp
qed

context signer_contract
begin

lemma signed_head_ok:
  assumes "good k" and "witness_ok P w"
  shows "\<exists>h w'. signed_head P w (mk k) = Some (h, w') \<and> head_of P (leaf_hashes w) h \<and>
    verify_signed_head P h (sg_public_key (mk k)) \<and> witness_ok P w' \<and> leaf_hashes w' = leaf_hashes w"
  using witness_root_ok [OF assms(2)]
    signs [OF assms(1), of "sth_signing_bytes P (length (leaf_hashes w)) (naive_root P (leaf_hashes w))"]
  by (auto simp: signed_head_def Let_def head_of_def verify_signed_head_def or_false_iff)

end

text \<open>An honest log: whatever it appends between two heads, the heads reconcile.\<close>

lemma honest_heads_reconcile:
  assumes "signer_ok P sg" and "witness_ok P w" and "witness_ok P v" and "leaf_hashes v = leaf_hashes w @ xs"
  shows "\<exists>a b w' v' p v''. signed_head P w sg = Some (a, w') \<and> signed_head P v sg = Some (b, v') \<and>
    prove_consistency P v' (sth_size a) (sth_size b) = Some (Some p, v'') \<and>
    reconcile_heads P a b (sg_public_key sg) (Some p) = Inr ()"
proof -
  from any_signer.signed_head_ok [OF assms(1,2)] obtain a w' where a: "signed_head P w sg = Some (a, w')"
    "head_of P (leaf_hashes w) a" "verify_signed_head P a (sg_public_key sg)" by blast
  from any_signer.signed_head_ok [OF assms(1,3)] obtain b v' where b: "signed_head P v sg = Some (b, v')"
    "head_of P (leaf_hashes v) b" "verify_signed_head P b (sg_public_key sg)" "witness_ok P v'"
    "leaf_hashes v' = leaf_hashes v" by blast
  let ?p = "\<lparr>nodes = (if sth_size a = 0 then [] else naive_subproof P (sth_size a) (leaf_hashes v) True)\<rparr>"
  have size: "sth_size a = length (leaf_hashes w)" "sth_size b = length (leaf_hashes v)" "sth_size a \<le> sth_size b"
    using a(2) b(2) assms(4) by (simp_all add: head_of_def)
  obtain v'' where "prove_consistency P v' (sth_size a) (sth_size b) = Some (Some ?p, v'')"
    using prove_consistency_ok [OF b(4), of "sth_size a" "sth_size b"] b(5) size by auto
  moreover have "verify_consistency P (sth_root a) (sth_root b) ?p (sth_size a) (sth_size b)"
    using verify_consistency_complete [of "sth_size a" "leaf_hashes v" P] a(2) b(2) size assms(4)
    by (simp add: head_of_def)
  then have "reconcile_heads P a b (sg_public_key sg) (Some ?p) = Inr ()"
    using a b size assms(4) by (auto simp: reconcile_heads_iff head_of_def)
  ultimately show ?thesis using a(1) b(1) by blast
qed

end
