(* ===== verification/Revlog.thy ===== *)
theory Revlog
  imports Revmap Consistency
begin

text \<open>
  The crate \<^verbatim>\<open>core/revlog\<close>: a revocation map whose roots are committed, one checkpoint
  per epoch, as leaves of the witness log, and the status proofs that bind a key, a map
  root and a signed head.
\<close>

section \<open>Checkpoints\<close>

definition checkpoint_domain :: "u8 list" where
  "checkpoint_domain = str_bytes ''indexone-revlog/MapCheckpoint/v1''"

definition checkpoint_nonce_domain :: "u8 list" where
  "checkpoint_nonce_domain = str_bytes ''indexone-revlog/checkpoint-nonce/v1''"

definition checkpoint_leaf_tag :: "prims \<Rightarrow> digest" where
  "checkpoint_leaf_tag P = blake3 P checkpoint_domain"

record map_checkpoint =
  mc_epoch :: u64
  mc_map_root :: digest
  mc_prev_log_root :: digest

definition checkpoint_bytes :: "map_checkpoint \<Rightarrow> u8 list" where
  "checkpoint_bytes c =
     checkpoint_domain @ u64_be_bytes (mc_epoch c) @ array_bytes (mc_map_root c) @ array_bytes (mc_prev_log_root c)"

definition checkpoint_digest :: "prims \<Rightarrow> map_checkpoint \<Rightarrow> digest" where
  "checkpoint_digest P c = blake3 P (checkpoint_bytes c)"

definition checkpoint_receipt :: "prims \<Rightarrow> map_checkpoint \<Rightarrow> action_receipt" where
  "checkpoint_receipt P c =
     \<lparr>chain_digest_of = checkpoint_leaf_tag P, action_digest = checkpoint_digest P c,
      nonce = blake3 P (checkpoint_nonce_domain @ u64_be_bytes (mc_epoch c) @ array_bytes (mc_map_root c)),
      prev_root = mc_prev_log_root c\<rparr>"

section \<open>The operator\<close>

record log_backed =
  lb_map :: revocation_map
  lb_witness :: witness
  lb_epoch :: u64
  lb_latest :: "(map_checkpoint \<times> nat) option"

definition log_backed_new :: log_backed where
  "log_backed_new = \<lparr>lb_map = revmap_new, lb_witness = witness_new, lb_epoch = 0, lb_latest = None\<rparr>"

definition log_backed_revoke :: "log_backed \<Rightarrow> bytes32 \<Rightarrow> log_backed" where
  "log_backed_revoke lb key = lb\<lparr>lb_map := revmap_revoke (lb_map lb) key\<rparr>"

definition publish_checkpoint :: "prims \<Rightarrow> log_backed \<Rightarrow> signer \<Rightarrow> (signed_tree_head \<times> log_backed) option" where
  "publish_checkpoint P lb sg =
     (case witness_root P (lb_witness lb) of
        None \<Rightarrow> None
      | Some (prev, w1) \<Rightarrow>
          (let c = \<lparr>mc_epoch = lb_epoch lb, mc_map_root = revmap_root P (lb_map lb), mc_prev_log_root = prev\<rparr>;
               (li, w2) = witness_append P w1 (checkpoint_receipt P c)
           in case signed_head P w2 sg of
                None \<Rightarrow> None
              | Some (sth, w3) \<Rightarrow>
                  Some (sth, lb\<lparr>lb_witness := w3, lb_epoch := lb_epoch lb + 1,
                                lb_latest := Some (c, li)\<rparr>)))"

definition lb_signed_head :: "prims \<Rightarrow> log_backed \<Rightarrow> signer \<Rightarrow> (signed_tree_head \<times> log_backed) option" where
  "lb_signed_head P lb sg =
     (case signed_head P (lb_witness lb) sg of
        None \<Rightarrow> None | Some (sth, w) \<Rightarrow> Some (sth, lb\<lparr>lb_witness := w\<rparr>))"

definition lb_consistency_proof ::
  "prims \<Rightarrow> log_backed \<Rightarrow> nat \<Rightarrow> nat \<Rightarrow> (consistency_proof option \<times> log_backed) option" where
  "lb_consistency_proof P lb m n =
     (case prove_consistency P (lb_witness lb) m n of
        None \<Rightarrow> None | Some (pf, w) \<Rightarrow> Some (pf, lb\<lparr>lb_witness := w\<rparr>))"

record log_backed_proof =
  lp_checkpoint :: map_checkpoint
  lp_map_proof :: map_proof
  lp_inclusion :: inclusion_proof
  lp_sth :: signed_tree_head

definition lb_prove ::
  "prims \<Rightarrow> log_backed \<Rightarrow> bytes32 \<Rightarrow> signer \<Rightarrow> (log_backed_proof option \<times> log_backed) option" where
  "lb_prove P lb key sg =
     (case lb_latest lb of
        None \<Rightarrow> Some (None, lb)
      | Some (c, li) \<Rightarrow>
          if revmap_root P (lb_map lb) \<noteq> mc_map_root c then Some (None, lb)
          else
            (case prove_inclusion P (lb_witness lb) li of
               None \<Rightarrow> None
             | Some (None, w1) \<Rightarrow> Some (None, lb\<lparr>lb_witness := w1\<rparr>)
             | Some (Some incl, w1) \<Rightarrow>
                 (case signed_head P w1 sg of
                    None \<Rightarrow> None
                  | Some (sth, w2) \<Rightarrow>
                      Some (Some \<lparr>lp_checkpoint = c, lp_map_proof = revmap_prove P (lb_map lb) key,
                                  lp_inclusion = incl, lp_sth = sth\<rparr>, lb\<lparr>lb_witness := w2\<rparr>))))"

section \<open>The relying party\<close>

definition map_root_is_logged :: "prims \<Rightarrow> log_backed_proof \<Rightarrow> public_key \<Rightarrow> bool" where
  "map_root_is_logged P pf log_key =
     (let r = checkpoint_receipt P (lp_checkpoint pf)
      in chain_digest_of r = checkpoint_leaf_tag P \<and> action_digest r = checkpoint_digest P (lp_checkpoint pf) \<and>
         verify_signed_head P (lp_sth pf) log_key \<and> verify_inclusion P r (lp_inclusion pf) (sth_root (lp_sth pf)))"

definition verify_not_revoked :: "prims \<Rightarrow> log_backed_proof \<Rightarrow> bytes32 \<Rightarrow> public_key \<Rightarrow> bool" where
  "verify_not_revoked P pf key log_key \<longleftrightarrow>
     map_root_is_logged P pf log_key \<and>
     map_verify_non_inclusion P (mc_map_root (lp_checkpoint pf)) key (lp_map_proof pf)"

definition verify_revoked :: "prims \<Rightarrow> log_backed_proof \<Rightarrow> bytes32 \<Rightarrow> public_key \<Rightarrow> bool" where
  "verify_revoked P pf key log_key \<longleftrightarrow>
     map_root_is_logged P pf log_key \<and>
     map_verify_inclusion P (mc_map_root (lp_checkpoint pf)) key (lp_map_proof pf)"

section \<open>The history of checkpoints\<close>

text \<open>
  An operator's history: the checkpoints it published, each with the map it froze. The
  invariant ties the log, the epoch and the latest checkpoint to it.
\<close>

type_synonym history = "(map_checkpoint \<times> revocation_map) list"

definition receipt_leaf :: "prims \<Rightarrow> map_checkpoint \<Rightarrow> digest" where
  "receipt_leaf P c = hash_leaf P (canonical_bytes P (checkpoint_receipt P c))"

definition history_leaves :: "prims \<Rightarrow> history \<Rightarrow> digest list" where
  "history_leaves P h = map (\<lambda>(c, m). receipt_leaf P c) h"

definition lb_inv :: "prims \<Rightarrow> log_backed \<Rightarrow> history \<Rightarrow> bool" where
  "lb_inv P lb h \<longleftrightarrow>
     revmap_ok (lb_map lb) \<and> witness_ok P (lb_witness lb) \<and> leaf_hashes (lb_witness lb) = history_leaves P h \<and>
     lb_epoch lb = of_nat (length h) \<and>
     (\<forall>(c, m) \<in> set h. revmap_ok m \<and> mc_map_root c = revmap_root P m) \<and>
     (\<forall>i < length h. mc_epoch (fst (h ! i)) = of_nat i \<and>
        mc_prev_log_root (fst (h ! i)) = naive_root P (history_leaves P (take i h))) \<and>
     lb_latest lb = (if h = [] then None else Some (fst (last h), length h - 1))"

lemma length_history_leaves [simp]: "length (history_leaves P h) = length h"
  by (simp add: history_leaves_def)

lemma lb_inv_new: "lb_inv P log_backed_new []"
  by (simp add: lb_inv_def log_backed_new_def history_leaves_def)

lemma lb_inv_revoke: "lb_inv P lb h \<Longrightarrow> lb_inv P (log_backed_revoke lb key) h"
  using revmap_revoke_ok by (simp add: lb_inv_def log_backed_revoke_def)

lemma lb_inv_publish:
  assumes inv: "lb_inv P lb h" and sg: "signer_ok P sg"
  shows "\<exists>sth lb' c. publish_checkpoint P lb sg = Some (sth, lb') \<and> lb_map lb' = lb_map lb \<and>
    lb_inv P lb' (h @ [(c, lb_map lb)]) \<and> head_of P (history_leaves P (h @ [(c, lb_map lb)])) sth \<and>
    verify_signed_head P sth (sg_public_key sg)"
proof -
  from inv have ok: "witness_ok P (lb_witness lb)" and leaves: "leaf_hashes (lb_witness lb) = history_leaves P h"
    by (simp_all add: lb_inv_def)
  from witness_log.root_law [OF ok] obtain w1 where
    1: "witness_root P (lb_witness lb) = Some (naive_root P (history_leaves P h), w1)" "witness_ok P w1"
      "leaf_hashes w1 = history_leaves P h"
    by (auto simp: leaves)
  let ?c = "\<lparr>mc_epoch = lb_epoch lb, mc_map_root = revmap_root P (lb_map lb),
    mc_prev_log_root = naive_root P (history_leaves P h)\<rparr>"
  let ?h = "h @ [(?c, lb_map lb)]"
  obtain i w2 where app: "witness_append P w1 (checkpoint_receipt P ?c) = (i, w2)" by fastforce
  from witness_log.append_law [OF 1(2) app] have
    2: "witness_ok P w2" "i = length h" "leaf_hashes w2 = history_leaves P ?h"
    by (simp_all add: 1(3) history_leaves_def receipt_leaf_def)
  from any_signer.signed_head_ok [OF sg 2(1)] obtain sth w3 where
    3: "signed_head P w2 sg = Some (sth, w3)" "head_of P (history_leaves P ?h) sth"
      "verify_signed_head P sth (sg_public_key sg)" "witness_ok P w3" "leaf_hashes w3 = history_leaves P ?h"
    by (auto simp: 2(3))
  let ?lb = "lb\<lparr>lb_witness := w3, lb_epoch := lb_epoch lb + 1, lb_latest := Some (?c, i)\<rparr>"
  have "publish_checkpoint P lb sg = Some (sth, ?lb)"
    by (simp add: publish_checkpoint_def 1(1) app 3(1) Let_def)
  moreover have "lb_inv P ?lb ?h"
    using inv 2(2) 3(4,5) by (auto simp: lb_inv_def nth_append less_Suc_eq)
  ultimately show ?thesis using 3(2,3) by fastforce
qed

text \<open>The inclusion proof of a published checkpoint against the current log.\<close>

lemma checkpoint_logged:
  assumes inv: "lb_inv P lb h" and i: "i < length h" and small: "length h \<le> 2 ^ 64"
    and sth: "head_of P (history_leaves P h) sth" "verify_signed_head P sth key"
    and pf: "lp_checkpoint pf = fst (h ! i)" "lp_sth pf = sth"
      "lp_inclusion pf = \<lparr>leaf_index = i, tree_size = length h, path = naive_path P (history_leaves P h) i\<rparr>"
  shows "map_root_is_logged P pf key"
proof -
  have "history_leaves P h ! i = hash_leaf P (canonical_bytes P (checkpoint_receipt P (fst (h ! i))))"
    using i by (simp add: history_leaves_def receipt_leaf_def split: prod.splits)
  from verify_inclusion_complete [OF _ this] i small sth pf show ?thesis
    by (simp add: map_root_is_logged_def head_of_def checkpoint_receipt_def Let_def)
qed

text \<open>The parts of a fresh proof.\<close>

lemma lb_prove_form:
  assumes inv: "lb_inv P lb h" and sg: "signer_ok P sg"
    and current: "h \<noteq> []" "revmap_root P (lb_map lb) = mc_map_root (fst (last h))"
  shows "\<exists>sth lb'. lb_prove P lb key sg = Some (Some \<lparr>lp_checkpoint = fst (last h),
      lp_map_proof = revmap_prove P (lb_map lb) key,
      lp_inclusion = \<lparr>leaf_index = length h - 1, tree_size = length h, path = naive_path P (history_leaves P h) (length h - 1)\<rparr>,
      lp_sth = sth\<rparr>, lb') \<and>
    lb_inv P lb' h \<and> lb_map lb' = lb_map lb \<and> head_of P (history_leaves P h) sth \<and> verify_signed_head P sth (sg_public_key sg)"
proof -
  let ?i = "length h - 1"
  from inv have ok: "witness_ok P (lb_witness lb)" and leaves: "leaf_hashes (lb_witness lb) = history_leaves P h"
    and latest: "lb_latest lb = Some (fst (last h), ?i)"
    using current(1) by (simp_all add: lb_inv_def)
  have i: "?i < length h" using current(1) by (cases h) auto
  let ?incl = "\<lparr>leaf_index = ?i, tree_size = length h, path = naive_path P (history_leaves P h) ?i\<rparr>"
  obtain w1 where 1: "prove_inclusion P (lb_witness lb) ?i = Some (Some ?incl, w1)"
    "witness_ok P w1" "leaf_hashes w1 = history_leaves P h"
    using prove_inclusion_ok [OF ok, of ?i] i by (auto simp: leaves)
  from any_signer.signed_head_ok [OF sg 1(2)] obtain sth w2 where
    2: "signed_head P w1 sg = Some (sth, w2)" "head_of P (history_leaves P h) sth"
      "verify_signed_head P sth (sg_public_key sg)" "witness_ok P w2" "leaf_hashes w2 = history_leaves P h"
    by (auto simp: 1(3))
  let ?pf = "\<lparr>lp_checkpoint = fst (last h), lp_map_proof = revmap_prove P (lb_map lb) key,
    lp_inclusion = ?incl, lp_sth = sth\<rparr>"
  have "lb_prove P lb key sg = Some (Some ?pf, lb\<lparr>lb_witness := w2\<rparr>)"
    using current(2) by (simp add: lb_prove_def latest 1(1) [simplified] 2(1))
  moreover have "lb_inv P (lb\<lparr>lb_witness := w2\<rparr>) h"
    using inv 2(4,5) by (simp add: lb_inv_def)
  ultimately show ?thesis using 2(2,3) by (intro exI [of _ sth] exI [of _ "lb\<lparr>lb_witness := w2\<rparr>"]) simp
qed

text \<open>A fresh proof answers the status of the key, whichever it is.\<close>

lemma lb_prove_complete:
  assumes inv: "lb_inv P lb h" and sg: "signer_ok P sg" and small: "length h \<le> 2 ^ 64"
    and current: "h \<noteq> []" "revmap_root P (lb_map lb) = mc_map_root (fst (last h))"
    and apart: "map_apart P (lb_map lb) X"
  shows "\<exists>pf lb'. lb_prove P lb key sg = Some (Some pf, lb') \<and> lb_inv P lb' h \<and>
    (if key \<in> set (map_keys (lb_map lb)) then verify_revoked P pf key (sg_public_key sg)
     else verify_not_revoked P pf key (sg_public_key sg))"
proof -
  let ?i = "length h - 1"
  from inv have map_ok: "revmap_ok (lb_map lb)" by (simp add: lb_inv_def)
  have i: "?i < length h" using current(1) by (cases h) auto
  from lb_prove_form [OF inv sg current, of key] obtain sth lb' where
    1: "head_of P (history_leaves P h) sth" "verify_signed_head P sth (sg_public_key sg)" "lb_inv P lb' h"
    and prove: "lb_prove P lb key sg = Some (Some \<lparr>lp_checkpoint = fst (last h), lp_map_proof = revmap_prove P (lb_map lb) key,
      lp_inclusion = \<lparr>leaf_index = ?i, tree_size = length h, path = naive_path P (history_leaves P h) ?i\<rparr>, lp_sth = sth\<rparr>, lb')"
    by blast
  let ?pf = "\<lparr>lp_checkpoint = fst (last h), lp_map_proof = revmap_prove P (lb_map lb) key,
    lp_inclusion = \<lparr>leaf_index = ?i, tree_size = length h, path = naive_path P (history_leaves P h) ?i\<rparr>, lp_sth = sth\<rparr>"
  have "map_root_is_logged P ?pf (sg_public_key sg)"
    using checkpoint_logged [OF inv i small 1(1,2), of ?pf] current(1) by (simp add: last_conv_nth)
  moreover have "if key \<in> set (map_keys (lb_map lb))
      then map_verify_inclusion P (mc_map_root (fst (last h))) key (revmap_prove P (lb_map lb) key)
      else map_verify_non_inclusion P (mc_map_root (fst (last h))) key (revmap_prove P (lb_map lb) key)"
    using recompute_honest [OF map_ok apart, of key]
    by (simp add: slot_def map_verify_inclusion_def map_verify_non_inclusion_def current(2) split: if_splits)
  ultimately show ?thesis
    using 1(3) by (intro exI [of _ ?pf] exI [of _ lb']) (simp add: prove verify_not_revoked_def verify_revoked_def split: if_splits)
qed

text \<open>Nothing is proved against a map root that is not in the log.\<close>

lemma lb_prove_unlogged:
  assumes "lb_inv P lb h" and "h = [] \<or> revmap_root P (lb_map lb) \<noteq> mc_map_root (fst (last h))"
  shows "lb_prove P lb key sg = Some (None, lb)"
  using assms by (auto simp: lb_prove_def lb_inv_def)

section \<open>Soundness for the relying party\<close>

text \<open>
  The head is that of a log of checkpoints; then an accepted proof names one of them, and
  the map that checkpoint froze answers as claimed.
\<close>

definition history_data :: "prims \<Rightarrow> history \<Rightarrow> u8 list list" where
  "history_data P h = map (\<lambda>(c, m). canonical_bytes P (checkpoint_receipt P c)) h"

lemma history_leaves_data: "history_leaves P h = map (hash_leaf P) (history_data P h)"
  by (auto simp: history_leaves_def history_data_def receipt_leaf_def)

definition proof_apart :: "prims \<Rightarrow> history \<Rightarrow> log_backed_proof \<Rightarrow> bool" where
  "proof_apart P h pf \<longleftrightarrow>
     (let d = canonical_bytes P (checkpoint_receipt P (lp_checkpoint pf))
      in collision_free P
           (leaf_queries (insert d (set (history_data P h))) \<union> node_queries P (history_leaves P h) \<union>
            path_queries P (hash_leaf P d) (path (lp_inclusion pf))) \<and>
         inj_on (jcs P) (action_receipt_json ` checkpoint_receipt P ` insert (lp_checkpoint pf) (fst ` set h)) \<and>
         collision_free P (checkpoint_bytes ` insert (lp_checkpoint pf) (fst ` set h)))"

lemma checkpoint_bytes_inject: "checkpoint_bytes c = checkpoint_bytes d \<longleftrightarrow> c = d"
  by (cases c; cases d) (auto simp: checkpoint_bytes_def)

lemma checkpoint_receipt_inject:
  assumes "collision_free P (checkpoint_bytes ` C)" and "c \<in> C" and "d \<in> C"
    and "checkpoint_receipt P c = checkpoint_receipt P d"
  shows "c = d"
proof -
  have "blake3 P (checkpoint_bytes c) = blake3 P (checkpoint_bytes d)"
    using assms(4) by (simp add: checkpoint_receipt_def checkpoint_digest_def)
  with collision_freeD [OF assms(1) this] assms(2,3) show ?thesis
    by (simp add: checkpoint_bytes_inject)
qed

lemma logged_checkpoint:
  assumes logged: "map_root_is_logged P pf key" and head: "head_of P (history_leaves P h) (lp_sth pf)" "h \<noteq> []"
    and apart: "proof_apart P h pf"
  shows "\<exists>i < length h. fst (h ! i) = lp_checkpoint pf"
proof -
  let ?d = "canonical_bytes P (checkpoint_receipt P (lp_checkpoint pf))"
  have data: "history_data P h \<noteq> []" using head(2) by (simp add: history_data_def)
  have fold: "fold_path P (hash_leaf P ?d) (path (lp_inclusion pf)) = naive_root P (map (hash_leaf P) (history_data P h))"
    using logged head(1) by (simp add: map_root_is_logged_def verify_inclusion_iff head_of_def history_leaves_data Let_def)
  from apart have cf: "collision_free P (leaf_queries (insert ?d (set (history_data P h))) \<union>
      node_queries P (map (hash_leaf P) (history_data P h)) \<union> path_queries P (hash_leaf P ?d) (path (lp_inclusion pf)))"
    and inj: "inj_on (jcs P) (action_receipt_json ` checkpoint_receipt P ` insert (lp_checkpoint pf) (fst ` set h))"
    and cf2: "collision_free P (checkpoint_bytes ` insert (lp_checkpoint pf) (fst ` set h))"
    by (simp_all add: proof_apart_def Let_def history_leaves_data)
  from fold_path_sound [OF cf data fold order_refl] obtain i where i: "i < length h" and d: "history_data P h ! i = ?d"
    by (auto simp: history_data_def)
  let ?c = "fst (h ! i)"
  have c: "?c \<in> fst ` set h" using i by simp
  have "jcs P (action_receipt_json (checkpoint_receipt P ?c)) = jcs P (action_receipt_json (checkpoint_receipt P (lp_checkpoint pf)))"
    using d i by (simp add: history_data_def canonical_bytes_def split: prod.splits)
  from inj_onD [OF inj this] have "action_receipt_json (checkpoint_receipt P ?c) = action_receipt_json (checkpoint_receipt P (lp_checkpoint pf))"
    using c by simp
  then have "?c = lp_checkpoint pf"
    using checkpoint_receipt_inject [OF cf2, of ?c "lp_checkpoint pf"] c by simp
  with i show ?thesis by blast
qed

text \<open>
  What a status proof is judged against: a head of some length of the operator's history,
  every checkpoint of which froze a well-formed map, and hashes that keep the encodings
  met on the way apart.
\<close>

definition judged :: "prims \<Rightarrow> history \<Rightarrow> bytes32 \<Rightarrow> log_backed_proof \<Rightarrow> bool" where
  "judged P h key pf \<longleftrightarrow>
     (\<exists>n. 0 < n \<and> n \<le> length h \<and> head_of P (history_leaves P (take n h)) (lp_sth pf) \<and> proof_apart P (take n h) pf) \<and>
     (\<forall>(c, m) \<in> set h. revmap_ok m \<and> mc_map_root c = revmap_root P m \<and> query_apart P m key (lp_map_proof pf))"

lemma judged_checkpoint:
  assumes "judged P h key pf" and "map_root_is_logged P pf log_key"
  obtains i m where "i < length h" "h ! i = (lp_checkpoint pf, m)" "revmap_ok m"
    "mc_map_root (lp_checkpoint pf) = revmap_root P m" "query_apart P m key (lp_map_proof pf)"
proof -
  from assms(1) obtain n where n: "0 < n" "n \<le> length h" "head_of P (history_leaves P (take n h)) (lp_sth pf)"
    "proof_apart P (take n h) pf" by (auto simp: judged_def)
  from n(1,2) have "take n h \<noteq> []" by auto
  from logged_checkpoint [OF assms(2) n(3) this n(4)] n(2) obtain i where "i < n" "fst (h ! i) = lp_checkpoint pf"
    by auto
  with n(2) have i: "i < length h" and eq: "h ! i = (lp_checkpoint pf, snd (h ! i))"
    by (simp_all add: prod_eq_iff)
  have "(lp_checkpoint pf, snd (h ! i)) \<in> set h" using i eq by (metis nth_mem)
  with assms(1) have "revmap_ok (snd (h ! i))" "mc_map_root (lp_checkpoint pf) = revmap_root P (snd (h ! i))"
    "query_apart P (snd (h ! i)) key (lp_map_proof pf)" by (auto simp: judged_def)
  with that i eq show thesis by blast
qed

lemma not_revoked_sound:
  assumes "judged P h key pf" and "verify_not_revoked P pf key log_key"
  shows "\<exists>i m. i < length h \<and> h ! i = (lp_checkpoint pf, m) \<and> key \<notin> set (map_keys m)"
proof -
  from assms(2) have l: "map_root_is_logged P pf log_key"
    and v: "map_verify_non_inclusion P (mc_map_root (lp_checkpoint pf)) key (lp_map_proof pf)"
    by (simp_all add: verify_not_revoked_def)
  from judged_checkpoint [OF assms(1) l] v show ?thesis by (metis smt.sound_out)
qed

lemma revoked_sound:
  assumes "judged P h key pf" and "verify_revoked P pf key log_key"
  shows "\<exists>i m. i < length h \<and> h ! i = (lp_checkpoint pf, m) \<and> key \<in> set (map_keys m)"
proof -
  from assms(2) have l: "map_root_is_logged P pf log_key"
    and v: "map_verify_inclusion P (mc_map_root (lp_checkpoint pf)) key (lp_map_proof pf)"
    by (simp_all add: verify_revoked_def)
  from judged_checkpoint [OF assms(1) l] v show ?thesis by (metis smt.sound_in)
qed

text \<open>
  Freshness is not part of the check: against the current head an earlier checkpoint is
  as good as the latest, so a key revoked since then still has an accepted proof that it
  is not revoked.
\<close>

lemma stale_checkpoint_accepted:
  assumes inv: "lb_inv P lb h" and i: "i < length h" and small: "length h \<le> 2 ^ 64"
    and sth: "head_of P (history_leaves P h) sth" "verify_signed_head P sth log_key"
    and apart: "map_apart P (snd (h ! i)) X" and absent: "key \<notin> set (map_keys (snd (h ! i)))"
  shows "\<exists>pf. lp_sth pf = sth \<and> lp_checkpoint pf = fst (h ! i) \<and> verify_not_revoked P pf key log_key"
proof -
  let ?m = "snd (h ! i)"
  let ?pf = "\<lparr>lp_checkpoint = fst (h ! i), lp_map_proof = revmap_prove P ?m key,
    lp_inclusion = \<lparr>leaf_index = i, tree_size = length h, path = naive_path P (history_leaves P h) i\<rparr>, lp_sth = sth\<rparr>"
  have "(fst (h ! i), ?m) \<in> set h" using i by simp
  with inv have m: "revmap_ok ?m" "mc_map_root (fst (h ! i)) = revmap_root P ?m"
    unfolding lb_inv_def by auto
  have "map_root_is_logged P ?pf log_key"
    using checkpoint_logged [OF inv i small sth, of ?pf] by simp
  moreover have "map_verify_non_inclusion P (mc_map_root (fst (h ! i))) key (revmap_prove P ?m key)"
    using recompute_honest [OF m(1) apart, of key] absent m(2) by (simp add: slot_def map_verify_non_inclusion_def)
  ultimately have "verify_not_revoked P ?pf key log_key" by (simp add: verify_not_revoked_def)
  then show ?thesis by (intro exI [of _ ?pf]) simp
qed

section \<open>The operator over time\<close>

text \<open>Reads may fill the cache of the witness log and change nothing else.\<close>

lemma signed_head_keeps:
  "witness_ok P w \<Longrightarrow> signed_head P w sg = Some (sth, w') \<Longrightarrow> witness_ok P w' \<and> leaf_hashes w' = leaf_hashes w"
  using witness_root_ok [of P w] by (auto simp: signed_head_def Let_def split: sum.splits)

lemma prove_inclusion_keeps:
  "witness_ok P w \<Longrightarrow> prove_inclusion P w i = Some (pf, w') \<Longrightarrow> witness_ok P w' \<and> leaf_hashes w' = leaf_hashes w"
  using prove_inclusion_ok [of P w i] by auto

lemma lb_inv_cache:
  "lb_inv P lb h \<Longrightarrow> witness_ok P w \<Longrightarrow> leaf_hashes w = leaf_hashes (lb_witness lb) \<Longrightarrow> lb_inv P (lb\<lparr>lb_witness := w\<rparr>) h"
  by (simp add: lb_inv_def)

lemma lb_signed_head_keeps:
  assumes "lb_inv P lb h" and "lb_signed_head P lb sg = Some (sth, lb')"
  shows "lb_inv P lb' h \<and> lb_map lb' = lb_map lb"
proof -
  have ok: "witness_ok P (lb_witness lb)" using assms(1) by (simp add: lb_inv_def)
  from assms(2) obtain w where w: "signed_head P (lb_witness lb) sg = Some (sth, w)" "lb' = lb\<lparr>lb_witness := w\<rparr>"
    by (auto simp: lb_signed_head_def split: option.splits)
  from signed_head_keeps [OF ok w(1)] assms(1) show ?thesis by (simp add: w(2) lb_inv_cache)
qed

lemma lb_consistency_keeps:
  assumes "lb_inv P lb h"
  shows "\<exists>lb'. lb_consistency_proof P lb m n =
      Some (if n = length h \<and> m \<le> n
            then Some \<lparr>nodes = (if m = 0 then [] else naive_subproof P m (history_leaves P h) True)\<rparr> else None, lb') \<and>
    lb_inv P lb' h \<and> lb_map lb' = lb_map lb"
proof -
  from assms have ok: "witness_ok P (lb_witness lb)" and leaves: "leaf_hashes (lb_witness lb) = history_leaves P h"
    by (simp_all add: lb_inv_def)
  from prove_consistency_ok [OF ok, of m n] obtain w where
    w: "prove_consistency P (lb_witness lb) m n = Some (if n = length h \<and> m \<le> n
          then Some \<lparr>nodes = (if m = 0 then [] else naive_subproof P m (history_leaves P h) True)\<rparr> else None, w)"
      "witness_ok P w" "leaf_hashes w = leaf_hashes (lb_witness lb)"
    by (auto simp: leaves)
  from lb_inv_cache [OF assms w(2,3)] w(1) show ?thesis
    by (intro exI [of _ "lb\<lparr>lb_witness := w\<rparr>"]) (simp add: lb_consistency_proof_def)
qed

lemma lb_prove_keeps:
  assumes "lb_inv P lb h" and "lb_prove P lb key sg = Some (pf, lb')"
  shows "lb_inv P lb' h \<and> lb_map lb' = lb_map lb"
proof -
  have ok: "witness_ok P (lb_witness lb)" using assms(1) by (simp add: lb_inv_def)
  note keeps = lb_inv_cache [OF assms(1)]
  show ?thesis
  proof (cases "\<exists>c li. lb_latest lb = Some (c, li) \<and> revmap_root P (lb_map lb) = mc_map_root c")
    case False
    with assms show ?thesis by (auto simp: lb_prove_def split: option.splits)
  next
    case True
    then obtain c li where latest: "lb_latest lb = Some (c, li)" "revmap_root P (lb_map lb) = mc_map_root c" by blast
    obtain p w1 where 1: "prove_inclusion P (lb_witness lb) li = Some (p, w1)"
      using prove_inclusion_ok [OF ok, of li] by auto
    note w1 = prove_inclusion_keeps [OF ok 1]
    show ?thesis
    proof (cases p)
      case None
      with assms(2) have "lb' = lb\<lparr>lb_witness := w1\<rparr>" by (simp add: lb_prove_def latest 1)
      with keeps w1 show ?thesis by simp
    next
      case (Some incl)
      with assms(2) obtain sth w where 2: "signed_head P w1 sg = Some (sth, w)" and "lb' = lb\<lparr>lb_witness := w\<rparr>"
        by (auto simp: lb_prove_def latest 1 split: option.splits)
      with keeps w1 signed_head_keeps [OF conjunct1 [OF w1] 2] show ?thesis by simp
    qed
  qed
qed

text \<open>
  The states an operator reaches from the empty log by its operations, in any order, with
  the history of what it published.
\<close>

inductive operated :: "prims \<Rightarrow> log_backed \<Rightarrow> history \<Rightarrow> bool" for P where
  fresh: "operated P log_backed_new []"
| revoke: "operated P lb h \<Longrightarrow> operated P (log_backed_revoke lb key) h"
| publish: "operated P lb h \<Longrightarrow> signer_ok P sg \<Longrightarrow> publish_checkpoint P lb sg = Some (sth, lb') \<Longrightarrow>
    lb_latest lb' = Some (c, i) \<Longrightarrow> operated P lb' (h @ [(c, lb_map lb)])"
| head: "operated P lb h \<Longrightarrow> lb_signed_head P lb sg = Some (sth, lb') \<Longrightarrow> operated P lb' h"
| consistency: "operated P lb h \<Longrightarrow> lb_consistency_proof P lb m n = Some (pf, lb') \<Longrightarrow> operated P lb' h"
| proved: "operated P lb h \<Longrightarrow> lb_prove P lb key sg = Some (lp, lb') \<Longrightarrow> operated P lb' h"

lemma operated_inv:
  "operated P lb h \<Longrightarrow> lb_inv P lb h \<and>
     (\<forall>(c, m) \<in> set h. set (map_keys m) \<subseteq> set (map_keys (lb_map lb))) \<and>
     sorted_wrt (\<lambda>(c, m) (d, n). set (map_keys m) \<subseteq> set (map_keys n)) h"
proof (induction rule: operated.induct)
  case fresh
  then show ?case by (simp add: lb_inv_new)
next
  case (revoke lb h key)
  then have "set (map_keys (lb_map lb)) \<subseteq> set (map_keys (lb_map (log_backed_revoke lb key)))"
    using revmap_revoke_ok [of "lb_map lb" key] by (auto simp: lb_inv_def log_backed_revoke_def)
  with revoke.IH show ?case using lb_inv_revoke by fastforce
next
  case (publish lb h sg sth lb' c i)
  from lb_inv_publish [OF conjunct1 [OF publish.IH] publish.hyps(2)] publish.hyps(3) obtain d where
    d: "lb_map lb' = lb_map lb" "lb_inv P lb' (h @ [(d, lb_map lb)])" by auto
  then have "c = d" using publish.hyps(4) by (auto simp: lb_inv_def)
  with d publish.IH show ?case by (auto simp: sorted_wrt_append)
next
  case (head lb h sg sth lb')
  with lb_signed_head_keeps [of P lb h sg sth lb'] show ?case by simp
next
  case (consistency lb h m n pf lb')
  with lb_consistency_keeps [of P lb h m n] show ?case by auto
next
  case (proved lb h key sg lp lb')
  with lb_prove_keeps [of P lb h key sg lp lb'] show ?case by simp
qed

text \<open>A key in the map of one checkpoint is in that of every later one.\<close>

lemma revocation_persists:
  assumes "operated P lb h" and "i \<le> j" and "j < length h" and "key \<in> set (map_keys (snd (h ! i)))"
  shows "key \<in> set (map_keys (snd (h ! j)))"
proof (cases "i = j")
  case False
  with assms(2,3) operated_inv [OF assms(1)] show ?thesis
    using assms(4) sorted_wrt_nth_less [of "\<lambda>(c, m) (d, n). set (map_keys m) \<subseteq> set (map_keys n)" h i j]
    by (auto split: prod.splits)
qed (use assms in simp)

end
