(* ===== verification/Verifier.thy ===== *)
theory Verifier
  imports Attestation Revocation Revlog
begin

text \<open>
  The crate \<^verbatim>\<open>core/verifier\<close>: the composed, fail-closed check of a cross-org action
  (chain, binding, witnessed root, inclusion, independent attestation, digests), its k-of-n
  form, and the two gates that precede it, log-backed revocation and purpose binding.
\<close>

section \<open>Policy\<close>

record verify_policy =
  trusted_attesters :: "public_key list"
  allow_counter_signed :: bool

definition policy_default :: verify_policy where
  "policy_default = \<lparr>trusted_attesters = [], allow_counter_signed = False\<rparr>"

definition policy_third_party :: "public_key list \<Rightarrow> verify_policy" where
  "policy_third_party trusted = \<lparr>trusted_attesters = trusted, allow_counter_signed = False\<rparr>"

definition policy_counter_signed :: verify_policy where
  "policy_counter_signed = \<lparr>trusted_attesters = [], allow_counter_signed = True\<rparr>"

definition chain_has_key :: "chain \<Rightarrow> public_key \<Rightarrow> bool" where
  "chain_has_key c k \<longleftrightarrow>
     principal_key (chain_root c) = k \<or> list_ex (\<lambda>d. from_key d = k \<or> to_key d = k) (delegations c)"

definition attester_is_anchored :: "chain \<Rightarrow> completion_attestation \<Rightarrow> verify_policy \<Rightarrow> bool" where
  "attester_is_anchored c a pol =
     (case ca_role a of
        ThirdParty \<Rightarrow> attester_key a \<in> set (trusted_attesters pol)
      | CounterSigned \<Rightarrow> allow_counter_signed pol \<and> chain_has_key c (attester_key a))"

section \<open>What is verified\<close>

record verifiable_action =
  va_chain :: chain
  va_receipt :: action_receipt
  va_completion :: completion_attestation

record verifiable_threshold_action =
  vt_chain :: chain
  vt_receipt :: action_receipt
  vt_completion :: threshold_attestation

datatype verify_error =
    VerifyChain chain_error
  | Omission
  | Equivocation
  | VerifyAttestation attestation_error
  | OutcomeMismatch
  | AttesterNotAnchored
  | ChainBindingMismatch
  | ActionDigestInconsistent
  | VerifyThreshold threshold_error
  | InsufficientAttestation nat nat
  | HopRevoked
  | PurposeMismatch

section \<open>The composed check\<close>

definition verify ::
  "prims \<Rightarrow> verifiable_action \<Rightarrow> public_key \<Rightarrow> digest \<Rightarrow> verify_policy \<Rightarrow> verify_error + scope" where
  "verify P act root_key trusted_root pol =
     and_then (map_err VerifyChain (chain_verify P (va_chain act) root_key)) (\<lambda>sc.
       (let cd = chain_digest P (va_chain act); r = va_receipt act; c = va_completion act
        in if chain_digest_of r \<noteq> cd \<or> ca_chain_digest c \<noteq> cd then Inl ChainBindingMismatch
           else if witnessed_root c \<noteq> trusted_root then Inl Equivocation
           else if \<not> verify_inclusion P r (inclusion c) trusted_root then Inl Omission
           else
             and_then (map_err VerifyAttestation (attestation_verify P c (executor_key (va_chain act)))) (\<lambda>_.
               if \<not> attester_is_anchored (va_chain act) c pol then Inl AttesterNotAnchored
               else if outcome_digest c \<noteq> action_digest r then Inl OutcomeMismatch
               else if requested_action_digest c \<noteq> action_digest r then Inl ActionDigestInconsistent
               else if requested_action_digest c \<noteq> action_digest r then Inl ActionDigestInconsistent
               else Inr sc)))"

text \<open>The last loop of the threshold form, over every member of the bundle.\<close>

fun check_digests :: "digest \<Rightarrow> completion_attestation list \<Rightarrow> verify_error + unit" where
  "check_digests d [] = Inr ()"
| "check_digests d (a # rest) =
     (if outcome_digest a \<noteq> d then Inl OutcomeMismatch
      else if requested_action_digest a \<noteq> d then Inl ActionDigestInconsistent
      else check_digests d rest)"

definition verify_threshold ::
  "prims \<Rightarrow> verifiable_threshold_action \<Rightarrow> public_key \<Rightarrow> digest \<Rightarrow> nat \<Rightarrow> verify_policy \<Rightarrow> verify_error + scope" where
  "verify_threshold P act root_key trusted_root required pol =
     and_then (map_err VerifyChain (chain_verify P (vt_chain act) root_key)) (\<lambda>sc.
       (let cd = chain_digest P (vt_chain act); r = vt_receipt act; bundle = vt_completion act
        in if ta_threshold bundle < required then Inl (InsufficientAttestation required (ta_threshold bundle))
           else if chain_digest_of r \<noteq> cd \<or> list_ex (\<lambda>a. ca_chain_digest a \<noteq> cd) (attestations bundle)
             then Inl ChainBindingMismatch
           else if list_ex (\<lambda>a. witnessed_root a \<noteq> trusted_root) (attestations bundle) then Inl Equivocation
           else if list_ex (\<lambda>a. \<not> verify_inclusion P r (inclusion a) trusted_root) (attestations bundle)
             then Inl Omission
           else
             and_then (map_err VerifyThreshold (threshold_verify P bundle (executor_key (vt_chain act)))) (\<lambda>_.
               if list_ex (\<lambda>a. \<not> attester_is_anchored (vt_chain act) a pol) (attestations bundle)
               then Inl AttesterNotAnchored
               else and_then (check_digests (action_digest r) (attestations bundle)) (\<lambda>_. Inr sc))))"

section \<open>The revocation gate\<close>

record revocation_evidence =
  ev_log_key :: public_key
  ev_proofs :: "revocation_id \<rightharpoonup> log_backed_proof"

fun check_hops :: "prims \<Rightarrow> revocation_evidence \<Rightarrow> revocation_id list \<Rightarrow> verify_error + unit" where
  "check_hops P ev [] = Inr ()"
| "check_hops P ev (i # rest) =
     and_then (ok_or (ev_proofs ev i) HopRevoked) (\<lambda>pf.
     and_then (ok_or (try_bytes32 (rev_bytes i)) HopRevoked) (\<lambda>key.
       if \<not> verify_not_revoked P pf key (ev_log_key ev) then Inl HopRevoked else check_hops P ev rest))"

definition verify_chain_not_revoked :: "prims \<Rightarrow> chain \<Rightarrow> revocation_evidence \<Rightarrow> verify_error + unit" where
  "verify_chain_not_revoked P c ev = check_hops P ev (revocation_ids_for_chain P c)"

definition verify_with_revocation ::
  "prims \<Rightarrow> verifiable_action \<Rightarrow> public_key \<Rightarrow> digest \<Rightarrow> verify_policy \<Rightarrow> revocation_evidence \<Rightarrow>
   verify_error + scope" where
  "verify_with_revocation P act root_key trusted_root pol ev =
     and_then (verify_chain_not_revoked P (va_chain act) ev) (\<lambda>_. verify P act root_key trusted_root pol)"

definition verify_threshold_with_revocation ::
  "prims \<Rightarrow> verifiable_threshold_action \<Rightarrow> public_key \<Rightarrow> digest \<Rightarrow> nat \<Rightarrow> verify_policy \<Rightarrow>
   revocation_evidence \<Rightarrow> verify_error + scope" where
  "verify_threshold_with_revocation P act root_key trusted_root required pol ev =
     and_then (verify_chain_not_revoked P (vt_chain act) ev)
       (\<lambda>_. verify_threshold P act root_key trusted_root required pol)"

section \<open>The purpose gate\<close>

definition verify_action_purpose_binding ::
  "prims \<Rightarrow> verifiable_action \<Rightarrow> digest \<Rightarrow> verify_error + unit" where
  "verify_action_purpose_binding P act params_digest =
     and_then (ok_or (if delegations (va_chain act) = [] then None
                      else Some (purpose (last (delegations (va_chain act))))) PurposeMismatch) (\<lambda>purp.
       if bind_action P purp params_digest \<noteq> action_digest (va_receipt act) then Inl PurposeMismatch
       else Inr ())"

definition verify_with_purpose ::
  "prims \<Rightarrow> verifiable_action \<Rightarrow> public_key \<Rightarrow> digest \<Rightarrow> verify_policy \<Rightarrow> digest \<Rightarrow> verify_error + scope" where
  "verify_with_purpose P act root_key trusted_root pol params_digest =
     and_then (verify_action_purpose_binding P act params_digest)
       (\<lambda>_. verify P act root_key trusted_root pol)"

section \<open>Acceptance\<close>

lemma attester_is_anchored_iff:
  "attester_is_anchored c a pol \<longleftrightarrow>
     (ca_role a = ThirdParty \<and> attester_key a \<in> set (trusted_attesters pol)) \<or>
     (ca_role a = CounterSigned \<and> allow_counter_signed pol \<and> chain_has_key c (attester_key a))"
  by (cases "ca_role a") (simp_all add: attester_is_anchored_def)

text \<open>What one attestation has to satisfy for an action, whichever form carries it.\<close>

definition vouches ::
  "prims \<Rightarrow> chain \<Rightarrow> action_receipt \<Rightarrow> digest \<Rightarrow> verify_policy \<Rightarrow> completion_attestation \<Rightarrow> bool" where
  "vouches P c r root pol a \<longleftrightarrow>
     binding a = (chain_digest P c, action_digest r, action_digest r, root) \<and>
     verify_inclusion P r (inclusion a) root \<and> attester_is_anchored c a pol"

lemma verify_iff:
  "verify P act rk root pol = Inr s \<longleftrightarrow>
     chain_ok P (va_chain act) rk \<and> s = fst (chain_tail P (va_chain act)) \<and>
     chain_digest_of (va_receipt act) = chain_digest P (va_chain act) \<and>
     vouches P (va_chain act) (va_receipt act) root pol (va_completion act) \<and>
     attester_key (va_completion act) \<noteq> executor_key (va_chain act) \<and>
     attestation_signed P (va_completion act)"
proof -
  have steps: "(if a then Inl x else if b then Inl y else if c then Inl z else and_then m f) = Inr s \<longleftrightarrow>
      \<not> a \<and> \<not> b \<and> \<not> c \<and> m = Inr () \<and> f () = Inr s" for a b c x y z and m :: "verify_error + unit" and f
    by (auto simp: and_then_Inr_iff)
  have tail: "(if a then Inl x else if b then Inl y else if c then Inl z else if c then Inl z else Inr t) = Inr s \<longleftrightarrow>
      \<not> a \<and> \<not> b \<and> \<not> c \<and> t = s" for a b c x y z and t :: scope and s
    by auto
  show ?thesis
    unfolding verify_def and_then_Inr_iff [of "map_err VerifyChain _"] map_err_Inr_iff chain_verify_iff Let_def
      steps tail attestation_verify_iff vouches_def binding_def
    by auto
qed

lemma check_digests_iff:
  "check_digests d as = Inr () \<longleftrightarrow> (\<forall>a \<in> set as. outcome_digest a = d \<and> requested_action_digest a = d)"
  by (induction as) auto

lemma verify_threshold_iff:
  "verify_threshold P act rk root required pol = Inr s \<longleftrightarrow>
     chain_ok P (vt_chain act) rk \<and> s = fst (chain_tail P (vt_chain act)) \<and>
     chain_digest_of (vt_receipt act) = chain_digest P (vt_chain act) \<and>
     required \<le> ta_threshold (vt_completion act) \<and>
     (\<forall>a \<in> set (attestations (vt_completion act)). vouches P (vt_chain act) (vt_receipt act) root pol a) \<and>
     threshold_verify P (vt_completion act) (executor_key (vt_chain act)) = Inr ()"
proof -
  have steps: "(if a then Inl w else if b then Inl x else if c then Inl y else if d then Inl z else and_then m f) = Inr s \<longleftrightarrow>
      \<not> a \<and> \<not> b \<and> \<not> c \<and> \<not> d \<and> m = Inr () \<and> f () = Inr s"
    for a b c d w x y z and m :: "verify_error + unit" and f
    by (auto simp: and_then_Inr_iff)
  have tail: "(if a then Inl x else and_then m (\<lambda>_. Inr t)) = Inr s \<longleftrightarrow> \<not> a \<and> m = Inr () \<and> t = s"
    for a x t s and m :: "verify_error + unit"
    by (auto simp: and_then_Inr_iff)
  show ?thesis
    unfolding verify_threshold_def and_then_Inr_iff [of "map_err VerifyChain _"] map_err_Inr_iff chain_verify_iff
      Let_def steps tail check_digests_iff vouches_def binding_def list_ex_iff
    by auto
qed

lemma check_hops_iff:
  "check_hops P ev is = Inr () \<longleftrightarrow>
     (\<forall>i \<in> set is. \<exists>pf key. ev_proofs ev i = Some pf \<and> rev_bytes i = array_bytes key \<and>
        verify_not_revoked P pf key (ev_log_key ev))"
  by (induction "is") (auto simp: and_then_Inr_iff try_bytes32_Some_iff)

lemma check_hops_error: "check_hops P ev is = Inl e \<Longrightarrow> e = HopRevoked"
  by (induction "is") (auto simp: and_then_Inl_iff ok_or_def split: option.splits if_splits)

lemma verify_chain_not_revoked_iff:
  "verify_chain_not_revoked P c ev = Inr () \<longleftrightarrow>
     (\<forall>i \<in> set (revocation_ids_for_chain P c). \<exists>pf key. ev_proofs ev i = Some pf \<and>
        rev_bytes i = array_bytes key \<and> verify_not_revoked P pf key (ev_log_key ev))"
  by (simp add: verify_chain_not_revoked_def check_hops_iff)

section \<open>Gates\<close>

text \<open>
  The wrappers of the code put one check before another. Whatever the two are, the
  composition accepts what both accept, reports the gate first and never accepts more.
\<close>

locale gated =
  fixes gate :: "'a \<Rightarrow> 'e + unit" and base :: "'a \<Rightarrow> 'e + 's" and whole :: "'a \<Rightarrow> 'e + 's"
  assumes composed: "whole a = and_then (gate a) (\<lambda>_. base a)"
begin

lemma accepts_iff: "whole a = Inr s \<longleftrightarrow> gate a = Inr () \<and> base a = Inr s"
  by (simp add: composed and_then_Inr_iff)

lemma gate_first: "gate a = Inl e \<Longrightarrow> whole a = Inl e"
  by (simp add: composed)

lemma gate_passes: "gate a = Inr () \<Longrightarrow> whole a = base a"
  by (simp add: composed)

end

interpretation revocation_gate: gated "\<lambda>act. verify_chain_not_revoked P (va_chain act) ev"
  "\<lambda>act. verify P act rk root pol" "\<lambda>act. verify_with_revocation P act rk root pol ev" for P ev rk root pol
  by unfold_locales (simp add: verify_with_revocation_def)

interpretation threshold_revocation_gate: gated "\<lambda>act. verify_chain_not_revoked P (vt_chain act) ev"
  "\<lambda>act. verify_threshold P act rk root k pol" "\<lambda>act. verify_threshold_with_revocation P act rk root k pol ev"
  for P ev rk root k pol
  by unfold_locales (simp add: verify_threshold_with_revocation_def)

interpretation purpose_gate: gated "\<lambda>act. verify_action_purpose_binding P act d"
  "\<lambda>act. verify P act rk root pol" "\<lambda>act. verify_with_purpose P act rk root pol d" for P d rk root pol
  by unfold_locales (simp add: verify_with_purpose_def)

lemma purpose_binding_iff:
  "verify_action_purpose_binding P act d = Inr () \<longleftrightarrow>
     delegations (va_chain act) \<noteq> [] \<and>
     bind_action P (purpose (last (delegations (va_chain act)))) d = action_digest (va_receipt act)"
  by (auto simp: verify_action_purpose_binding_def and_then_Inr_iff)

lemma purpose_binding_error: "verify_action_purpose_binding P act d = Inl e \<Longrightarrow> e = PurposeMismatch"
  by (auto simp: verify_action_purpose_binding_def split: if_splits)

section \<open>Soundness\<close>

text \<open>
  The trusted root is that of a log of receipts, and neither the canonical form nor the
  hash confuses the encodings met while checking the receipt against it.
\<close>

definition log_root :: "prims \<Rightarrow> action_receipt list \<Rightarrow> digest" where
  "log_root P rs = naive_root P (map (\<lambda>r. hash_leaf P (canonical_bytes P r)) rs)"

definition log_apart :: "prims \<Rightarrow> action_receipt list \<Rightarrow> action_receipt \<Rightarrow> path_step list \<Rightarrow> bool" where
  "log_apart P rs r p \<longleftrightarrow>
     collision_free P
       (leaf_queries (insert (canonical_bytes P r) (canonical_bytes P ` set rs)) \<union>
        node_queries P (map (\<lambda>r. hash_leaf P (canonical_bytes P r)) rs) \<union>
        path_queries P (hash_leaf P (canonical_bytes P r)) p) \<and>
     inj_on (jcs P) (action_receipt_json ` insert r (set rs))"

lemma included_in_log:
  assumes "verify_inclusion P r pf (log_root P rs)" and "rs \<noteq> []" and apart: "log_apart P rs r (path pf)"
  shows "r \<in> set rs"
proof -
  let ?ds = "map (canonical_bytes P) rs" and ?d = "canonical_bytes P r"
  have hs: "map (\<lambda>r. hash_leaf P (canonical_bytes P r)) rs = map (hash_leaf P) ?ds" by simp
  have fold: "fold_path P (hash_leaf P ?d) (path pf) = naive_root P (map (hash_leaf P) ?ds)"
    using assms(1) by (simp add: verify_inclusion_iff log_root_def comp_def)
  from apart have cf: "collision_free P (leaf_queries (insert ?d (set ?ds)) \<union>
      node_queries P (map (hash_leaf P) ?ds) \<union> path_queries P (hash_leaf P ?d) (path pf))"
    and inj: "inj_on (jcs P) (action_receipt_json ` insert r (set rs))"
    unfolding log_apart_def hs by simp_all
  have "?ds \<noteq> []" using assms(2) by simp
  from fold_path_sound [OF cf this fold order_refl] obtain i where i: "i < length rs"
    and eq: "canonical_bytes P (rs ! i) = canonical_bytes P r" by auto
  have "action_receipt_json (rs ! i) = action_receipt_json r"
    using inj_onD [OF inj eq [unfolded canonical_bytes_def]] i by simp
  with i show ?thesis by (auto simp: action_receipt_json_inject)
qed

lemma verify_sound:
  assumes "verify P act rk (log_root P rs) pol = Inr s" and "rs \<noteq> []"
    and "log_apart P rs (va_receipt act) (path (inclusion (va_completion act)))"
  shows "chain_ok P (va_chain act) rk" and "s = fst (chain_tail P (va_chain act))"
    and "va_receipt act \<in> set rs"
    and "chain_digest_of (va_receipt act) = chain_digest P (va_chain act)"
    and "attester_key (va_completion act) \<noteq> executor_key (va_chain act)"
    and "attester_is_anchored (va_chain act) (va_completion act) pol"
    and "attestation_signed P (va_completion act)"
    and "binding (va_completion act) =
      (chain_digest P (va_chain act), action_digest (va_receipt act), action_digest (va_receipt act), log_root P rs)"
  using assms(1) included_in_log [OF _ assms(2,3)] by (simp_all add: verify_iff vouches_def)

text \<open>What one receipt is bound to: no other chain has its digest.\<close>

lemma bound_to_one_chain:
  assumes "verify P act rk root pol = Inr s" and "chain_digest_of (va_receipt act) = chain_digest P c"
    and "hashes_apart P {chain_json c, chain_json (va_chain act)}"
  shows "va_chain act = c"
  using chain_digest_inject [of P c "va_chain act"] assms by (simp add: verify_iff)

lemma threshold_sound:
  assumes "verify_threshold P act rk root required pol = Inr s"
  shows "\<exists>K. finite K \<and> required \<le> card K \<and> executor_key (vt_chain act) \<notin> K \<and>
    (\<forall>k \<in> K. \<exists>a \<in> set (attestations (vt_completion act)). attester_key a = k \<and> attestation_signed P a \<and>
       vouches P (vt_chain act) (vt_receipt act) root pol a)"
proof -
  from assms have ok: "threshold_verify P (vt_completion act) (executor_key (vt_chain act)) = Inr ()"
    and each: "\<forall>a \<in> set (attestations (vt_completion act)). vouches P (vt_chain act) (vt_receipt act) root pol a"
    and "required \<le> ta_threshold (vt_completion act)"
    by (simp_all add: verify_threshold_iff)
  with threshold_verify_keys [OF ok] show ?thesis by (meson order_trans)
qed

lemma threshold_in_log:
  assumes "verify_threshold P act rk (log_root P rs) required pol = Inr s" and "0 < required" and "rs \<noteq> []"
    and "\<forall>a \<in> set (attestations (vt_completion act)). log_apart P rs (vt_receipt act) (path (inclusion a))"
  shows "vt_receipt act \<in> set rs"
proof -
  from threshold_sound [OF assms(1)] obtain K where "required \<le> card K"
    and K: "\<And>k. k \<in> K \<Longrightarrow> \<exists>a \<in> set (attestations (vt_completion act)). attester_key a = k \<and>
      attestation_signed P a \<and> vouches P (vt_chain act) (vt_receipt act) (log_root P rs) pol a"
    by (elim exE conjE) simp
  with assms(2) obtain k where "k \<in> K" by fastforce
  from K [OF this] obtain a where a: "a \<in> set (attestations (vt_completion act))"
    "vouches P (vt_chain act) (vt_receipt act) (log_root P rs) pol a" by blast
  with included_in_log [OF _ assms(3)] assms(4) show ?thesis by (auto simp: vouches_def)
qed

text \<open>One attester and a bar of at most one: the two forms accept the same.\<close>

lemma threshold_of_one:
  assumes "required \<le> 1"
  shows "verify_threshold P \<lparr>vt_chain = c, vt_receipt = r, vt_completion = \<lparr>attestations = [a], ta_threshold = 1\<rparr>\<rparr>
      rk root required pol = Inr s \<longleftrightarrow>
    verify P \<lparr>va_chain = c, va_receipt = r, va_completion = a\<rparr> rk root pol = Inr s"
  using assms by (auto simp: verify_threshold_iff verify_iff threshold_verify_iff)

text \<open>
  With a bar of zero an empty bundle is enough: nothing is attested and nothing is looked
  up in the log.
\<close>

lemma threshold_zero_accepts:
  assumes "chain_ok P c rk" and "chain_digest_of r = chain_digest P c"
  shows "verify_threshold P \<lparr>vt_chain = c, vt_receipt = r, vt_completion = \<lparr>attestations = [], ta_threshold = n\<rparr>\<rparr>
      rk root 0 pol = Inr (fst (chain_tail P c)) \<longleftrightarrow> n = 0"
  using assms by (auto simp: verify_threshold_iff threshold_verify_iff)

section \<open>The errors\<close>

text \<open>Which check answers when several would fail: the lead cases of the crate's tests.\<close>

lemma verify_omission_iff:
  "verify P act rk root pol = Inl Omission \<longleftrightarrow>
     chain_ok P (va_chain act) rk \<and>
     chain_digest_of (va_receipt act) = chain_digest P (va_chain act) \<and>
     ca_chain_digest (va_completion act) = chain_digest P (va_chain act) \<and>
     witnessed_root (va_completion act) = root \<and>
     \<not> verify_inclusion P (va_receipt act) (inclusion (va_completion act)) root"
proof -
  have steps: "(if a then Inl ChainBindingMismatch else if b then Inl Equivocation else if c then Inl Omission
      else and_then (map_err VerifyAttestation m) (\<lambda>_. if x then Inl AttesterNotAnchored
        else if y then Inl OutcomeMismatch else if z then Inl ActionDigestInconsistent
        else if z then Inl ActionDigestInconsistent else Inr t)) = Inl Omission \<longleftrightarrow>
      \<not> a \<and> \<not> b \<and> c" for a b c x y z and m :: "attestation_error + unit" and t :: scope
    by (cases m) auto
  have chain: "and_then (map_err VerifyChain m) f = Inl Omission \<longleftrightarrow> (\<exists>sc. m = Inr sc \<and> f sc = Inl Omission)"
    for m and f :: "scope \<Rightarrow> verify_error + scope"
    by (cases m) auto
  show ?thesis
    unfolding verify_def chain Let_def steps chain_verify_iff by blast
qed

lemma verify_self_report:
  assumes "chain_ok P (va_chain act) rk" and "chain_digest_of (va_receipt act) = chain_digest P (va_chain act)"
    and "ca_chain_digest (va_completion act) = chain_digest P (va_chain act)"
    and "witnessed_root (va_completion act) = root"
    and "verify_inclusion P (va_receipt act) (inclusion (va_completion act)) root"
    and "attester_key (va_completion act) = executor_key (va_chain act)"
  shows "verify P act rk root pol = Inl (VerifyAttestation NotIndependent)"
  using assms by (simp add: verify_def chain_verify_ok attestation_verify_def)

lemma verify_chain_error:
  "verify P act rk root pol = Inl (VerifyChain e) \<longleftrightarrow> chain_verify P (va_chain act) rk = Inl e"
  by (cases "chain_verify P (va_chain act) rk")
    (auto simp: verify_def Let_def and_then_Inl_iff map_err_Inl_iff)

lemma verify_threshold_bar:
  assumes "chain_ok P (vt_chain act) rk" and "ta_threshold (vt_completion act) < required"
  shows "verify_threshold P act rk root required pol =
    Inl (InsufficientAttestation required (ta_threshold (vt_completion act)))"
  using assms by (simp add: verify_threshold_def chain_verify_ok)

section \<open>Honest actions are accepted\<close>

text \<open>
  An action recorded in a log and vouched for by a trusted third party, however the three
  came about, passes.
\<close>

lemma verify_complete:
  assumes chain: "chain_ok P c rk" and receipt: "chain_digest_of r = chain_digest P c"
    and log: "witness_ok P w" "i < length (leaf_hashes w)" "leaf_hashes w ! i = hash_leaf P (canonical_bytes P r)"
      "length (leaf_hashes w) \<le> 2 ^ 64"
    and notary: "signer_ok P sg" "sg_public_key sg \<noteq> executor_key c" "sg_public_key sg \<in> set trusted"
  shows "\<exists>pf w' a. prove_inclusion P w i = Some (Some pf, w') \<and>
    attest P sg who (chain_digest P c) (action_digest r) (action_digest r) (naive_root P (leaf_hashes w)) pf = Some a \<and>
    verify P \<lparr>va_chain = c, va_receipt = r, va_completion = a\<rparr> rk (naive_root P (leaf_hashes w))
      (policy_third_party trusted) = Inr (fst (chain_tail P c))"
proof -
  let ?root = "naive_root P (leaf_hashes w)"
  from witness_log.prove_law [OF log] obtain pf w' where
    pf: "prove_inclusion P w i = Some (Some pf, w')" "verify_inclusion P r pf ?root" by blast
  from any_signer.attest_as_signed [OF notary(1), of ThirdParty who "chain_digest P c" "action_digest r"
      "action_digest r" ?root pf]
  obtain a where a: "attest P sg who (chain_digest P c) (action_digest r) (action_digest r) ?root pf = Some a"
    "attestation_signed P a" "attester_key a = sg_public_key sg" "ca_role a = ThirdParty" "inclusion a = pf"
    "binding a = (chain_digest P c, action_digest r, action_digest r, ?root)"
    by (auto simp: attest_def)
  then have "verify P \<lparr>va_chain = c, va_receipt = r, va_completion = a\<rparr> rk ?root (policy_third_party trusted) =
      Inr (fst (chain_tail P c))"
    using chain receipt notary pf(2)
    by (simp add: verify_iff vouches_def attester_is_anchored_iff policy_third_party_def)
  with pf(1) a(1) show ?thesis by blast
qed

section \<open>Revocation and purpose, end to end\<close>

text \<open>
  The evidence is judged against the operator's history; then each hop of an accepted
  chain is absent from a map the operator published, and from all those before it.
\<close>

definition evidence_judged :: "prims \<Rightarrow> history \<Rightarrow> chain \<Rightarrow> revocation_evidence \<Rightarrow> bool" where
  "evidence_judged P h c ev \<longleftrightarrow>
     (\<forall>i \<in> set (revocation_ids_for_chain P c). \<forall>pf key. ev_proofs ev i = Some pf \<longrightarrow>
        rev_bytes i = array_bytes key \<longrightarrow> judged P h key pf)"

lemma hops_not_revoked:
  assumes op: "operated P lb h" and judged: "evidence_judged P h c ev"
    and gate: "verify_chain_not_revoked P c ev = Inr ()" and i: "i \<in> set (revocation_ids_for_chain P c)"
  shows "\<exists>key n. rev_bytes i = array_bytes key \<and> n < length h \<and>
    (\<forall>j \<le> n. key \<notin> set (map_keys (snd (h ! j))))"
proof -
  from gate i obtain pf key where p: "ev_proofs ev i = Some pf" "rev_bytes i = array_bytes key"
    "verify_not_revoked P pf key (ev_log_key ev)"
    by (auto simp: verify_chain_not_revoked_iff)
  with judged i have "judged P h key pf" by (simp add: evidence_judged_def)
  from not_revoked_sound [OF this p(3)] obtain n where n: "n < length h" "key \<notin> set (map_keys (snd (h ! n)))"
    by auto
  with revocation_persists [OF op] have "\<forall>j \<le> n. key \<notin> set (map_keys (snd (h ! j)))" by blast
  with p(2) n(1) show ?thesis by blast
qed

lemma revoked_hop_rejected:
  assumes "operated P lb h" and "evidence_judged P h c ev"
    and "revocation_id_from_signature P sig \<in> set (revocation_ids_for_chain P c)"
    and "rev_bytes (revocation_id_from_signature P sig) = array_bytes key"
    and "h \<noteq> []" and "key \<in> set (map_keys (snd (h ! 0)))"
  shows "verify_chain_not_revoked P c ev = Inl HopRevoked"
proof (cases "verify_chain_not_revoked P c ev")
  case (Inl e)
  then show ?thesis using check_hops_error by (simp add: verify_chain_not_revoked_def)
next
  case (Inr u)
  with hops_not_revoked [OF assms(1,2) _ assms(3)] assms(4,6) show ?thesis by auto
qed

text \<open>
  One action digest is bound to one purpose and one parameter digest: presented with any
  other, it is turned away at the gate.
\<close>

lemma purpose_fixed:
  assumes "verify_with_purpose P act rk root pol d = Inr s"
    and "action_digest (va_receipt act') = action_digest (va_receipt act)"
    and "(purpose (last (delegations (va_chain act'))), d') \<noteq> (purpose (last (delegations (va_chain act))), d)"
    and "collision_free P {bind_action_bytes (purpose (last (delegations (va_chain act)))) d,
      bind_action_bytes (purpose (last (delegations (va_chain act')))) d'}"
    and "length (purpose (last (delegations (va_chain act)))) < 2 ^ 64"
    and "length (purpose (last (delegations (va_chain act')))) < 2 ^ 64"
  shows "verify_with_purpose P act' rk' root' pol' d' = Inl PurposeMismatch"
proof (cases "verify_action_purpose_binding P act' d'")
  case (Inl e)
  with purpose_binding_error [OF Inl] show ?thesis by (simp add: purpose_gate.gate_first)
next
  case (Inr u)
  let ?p = "purpose (last (delegations (va_chain act)))" and ?q = "purpose (last (delegations (va_chain act')))"
  have "bind_action P ?p d = bind_action P ?q d'"
    using assms(1,2) Inr by (simp add: purpose_gate.accepts_iff purpose_binding_iff)
  then have "bind_action_bytes ?p d = bind_action_bytes ?q d'"
    unfolding bind_action_def by (rule collision_freeD [OF assms(4)]) simp_all
  with bind_action_bytes_inject [OF assms(5,6)] assms(3) show ?thesis by simp
qed

end
