(* ===== verification/Scenarios.thy ===== *)
theory Scenarios
  imports Text Verifier
begin

text \<open>
  The programs that exercise the core and fail loudly: the conformance suite
  (\<^verbatim>\<open>conformance\<close>), the omission and self-report demonstration and the AP2 attribution
  test (\<^verbatim>\<open>exploits\<close>). \<^verbatim>\<open>None\<close> is a panic: a failed \<^verbatim>\<open>unwrap\<close>, \<^verbatim>\<open>expect\<close> or assertion.
  What they print is not modelled.
\<close>

section \<open>The world of the cases\<close>

definition unwrap :: "'e + 'a \<Rightarrow> 'a option" where
  "unwrap m = (case m of Inl _ \<Rightarrow> None | Inr a \<Rightarrow> Some a)"

text \<open>An array \<^verbatim>\<open>[b; 32]\<close>.\<close>

definition fill :: "u8 \<Rightarrow> bytes32" where
  "fill b = mk_bytes32 (replicate 32 b)"

definition named :: "string \<Rightarrow> principal" where
  "named i = \<lparr>principal_id = i, display_name = i\<rparr>"

definition charge_scope :: "u64 \<Rightarrow> u32 \<Rightarrow> scope" where
  "charge_scope b depth =
     \<lparr>permissions = [permission_action ''payments.charge''], budget = Some b, currency = Some ''USD'',
      max_depth = depth, expires_at = 4102444800\<rparr>"

record world =
  w_chain :: chain
  w_root_key :: public_key
  w_executor :: signer
  w_attester :: signer

definition build_world :: "prims \<Rightarrow> world option" where
  "build_world P =
     (let human = ed25519_from_seed P (fill 1); a = ed25519_from_seed P (fill 2);
          b = ed25519_from_seed P (fill 3); c = ed25519_from_seed P (fill 4);
          root_key = sg_public_key human
      in Option.bind (chain_issue P human (named ''human:alice'') (charge_scope 10000 3)) (\<lambda>c0.
         Option.bind (unwrap (attenuate P c0 human (named ''agent:a@org1'') (sg_public_key a)
                                (charge_scope 5000 2) ''book travel'')) (\<lambda>c1.
         Option.bind (unwrap (attenuate P c1 a (named ''agent:b@org2'') (sg_public_key b)
                                (charge_scope 5000 1) ''charge airline'')) (\<lambda>c2.
         Option.bind (unwrap (attenuate P c2 b (named ''agent:c@org3'') (sg_public_key c)
                                (charge_scope 4000 0) ''settle fare'')) (\<lambda>c3.
           Some \<lparr>w_chain = c3, w_root_key = root_key, w_executor = c, w_attester = b\<rparr>)))))"

definition record_action ::
  "prims \<Rightarrow> chain \<Rightarrow> digest \<Rightarrow> (action_receipt \<times> inclusion_proof \<times> digest) option" where
  "record_action P c action =
     Option.bind (witness_root P witness_new) (\<lambda>(r0, w0).
       let receipt = \<lparr>chain_digest_of = chain_digest P c, action_digest = action, nonce = fill 0xCD, prev_root = r0\<rparr>;
           (idx, w1) = witness_append P w0 receipt
       in Option.bind (prove_inclusion P w1 idx) (\<lambda>(pf, w2).
          Option.bind pf (\<lambda>proof.
          Option.bind (witness_root P w2) (\<lambda>(root, w3). Some (receipt, proof, root)))))"

section \<open>The conformance cases\<close>

definition case_honest_accepted :: "prims \<Rightarrow> bool option" where
  "case_honest_accepted P =
     Option.bind (build_world P) (\<lambda>w.
       let pol = policy_third_party [sg_public_key (w_attester w)]; action = fill 42
       in Option.bind (record_action P (w_chain w) action) (\<lambda>(receipt, proof, root).
          Option.bind (attest P (w_attester w) (named ''agent:b@org2'') (chain_digest P (w_chain w))
                         action action root proof) (\<lambda>completion.
            let va = \<lparr>va_chain = w_chain w, va_receipt = receipt, va_completion = completion\<rparr>
            in Some (is_ok (verify P va (w_root_key w) root pol)))))"

text \<open>\<^verbatim>\<open>matches!(result, Err(VerifyError::Attestation(_)))\<close>.\<close>

definition is_attestation_error :: "verify_error + 'a \<Rightarrow> bool" where
  "is_attestation_error m = (case m of Inl (VerifyAttestation _) \<Rightarrow> True | _ \<Rightarrow> False)"

definition case_self_report_rejected :: "prims \<Rightarrow> bool option" where
  "case_self_report_rejected P =
     Option.bind (build_world P) (\<lambda>w.
       let pol = policy_third_party [sg_public_key (w_attester w)]; action = fill 42
       in Option.bind (record_action P (w_chain w) action) (\<lambda>(receipt, proof, root).
          Option.bind (attest P (w_executor w) (named ''agent:c@org3'') (chain_digest P (w_chain w))
                         action action root proof) (\<lambda>completion.
            let va = \<lparr>va_chain = w_chain w, va_receipt = receipt, va_completion = completion\<rparr>
            in Some (is_attestation_error (verify P va (w_root_key w) root pol)))))"

text \<open>A receipt that was never appended, under the proof of another one.\<close>

definition omitted_receipt :: "prims \<Rightarrow> chain \<Rightarrow> action_receipt" where
  "omitted_receipt P c =
     \<lparr>chain_digest_of = chain_digest P c, action_digest = fill 99, nonce = fill 0xCD, prev_root = fill 0\<rparr>"

definition case_omission_rejected :: "prims \<Rightarrow> bool option" where
  "case_omission_rejected P =
     Option.bind (build_world P) (\<lambda>w.
       let pol = policy_third_party [sg_public_key (w_attester w)]; recorded = fill 42
       in Option.bind (record_action P (w_chain w) recorded) (\<lambda>(_, proof, root).
          let omitted = fill 99
          in Option.bind (attest P (w_attester w) (named ''agent:b@org2'') (chain_digest P (w_chain w))
                            omitted omitted root proof) (\<lambda>completion.
            let chain_valid = is_ok (chain_verify P (w_chain w) (w_root_key w));
                va = \<lparr>va_chain = w_chain w, va_receipt = omitted_receipt P (w_chain w), va_completion = completion\<rparr>
            in Some (chain_valid \<and> verify P va (w_root_key w) root pol = Inl Omission))))"

definition case_equivocation_rejected :: "prims \<Rightarrow> bool option" where
  "case_equivocation_rejected P =
     Option.bind (build_world P) (\<lambda>w.
       let pol = policy_third_party [sg_public_key (w_attester w)]; action = fill 42
       in Option.bind (record_action P (w_chain w) action) (\<lambda>(receipt, proof, root).
          Option.bind (attest P (w_attester w) (named ''agent:b@org2'') (chain_digest P (w_chain w))
                         action action root proof) (\<lambda>completion.
            let gossip_root = fill 123;
                va = \<lparr>va_chain = w_chain w, va_receipt = receipt, va_completion = completion\<rparr>
            in Some (verify P va (w_root_key w) gossip_root pol = Inl Equivocation))))"

definition case_scope_widening_rejected :: "prims \<Rightarrow> bool option" where
  "case_scope_widening_rejected P =
     (let human = ed25519_from_seed P (fill 1); a = ed25519_from_seed P (fill 2)
      in Option.bind (chain_issue P human (named ''human:alice'') (charge_scope 10000 2)) (\<lambda>c.
           let widened = charge_scope 10000 1
                 \<lparr>permissions := [permission_action ''payments.charge'', permission_action ''payments.refund'']\<rparr>;
               result = attenuate P c human (named ''agent:a@org1'') (sg_public_key a) widened ''grab more''
           in Some (result = Inl ScopeWidened)))"

definition case_sockpuppet_rejected :: "prims \<Rightarrow> bool option" where
  "case_sockpuppet_rejected P =
     Option.bind (build_world P) (\<lambda>w.
       let pol = policy_third_party [sg_public_key (w_attester w)]; action = fill 42
       in Option.bind (record_action P (w_chain w) action) (\<lambda>(receipt, proof, root).
          let sockpuppet = ed25519_from_seed P (fill 66)
          in Option.bind (attest P sockpuppet (named ''attester:notary'') (chain_digest P (w_chain w))
                            action action root proof) (\<lambda>completion.
            let va = \<lparr>va_chain = w_chain w, va_receipt = receipt, va_completion = completion\<rparr>
            in Some (verify P va (w_root_key w) root pol = Inl AttesterNotAnchored))))"

text \<open>The runner: every case is run, the exit status says whether all passed.\<close>

definition conformance_cases :: "(prims \<Rightarrow> bool option) list" where
  "conformance_cases = [case_honest_accepted, case_self_report_rejected, case_omission_rejected, case_equivocation_rejected,
     case_scope_widening_rejected, case_sockpuppet_rejected]"

fun run_cases :: "prims \<Rightarrow> bool \<Rightarrow> (prims \<Rightarrow> bool option) list \<Rightarrow> bool option" where
  "run_cases P all_passed [] = Some all_passed"
| "run_cases P all_passed (f # fs) = Option.bind (f P) (\<lambda>passed. run_cases P (all_passed \<and> passed) fs)"

definition conformance_main :: "prims \<Rightarrow> nat option" where
  "conformance_main P = map_option (\<lambda>all_passed. if all_passed then 0 else 1) (run_cases P True conformance_cases)"

section \<open>The omission demonstration\<close>

definition proof_of :: "prims \<Rightarrow> chain \<Rightarrow> digest \<Rightarrow> inclusion_proof option" where
  "proof_of P c action = map_option (\<lambda>(_, proof, _). proof) (record_action P c action)"

text \<open>The program returns normally exactly when its assertions hold.\<close>

definition omission_main :: "prims \<Rightarrow> unit option" where
  "omission_main P =
     Option.bind (build_world P) (\<lambda>w.
       let pol = policy_third_party [sg_public_key (w_attester w)]; honest_action = fill 42; cd = chain_digest P (w_chain w)
       in Option.bind (unwrap (chain_verify P (w_chain w) (w_root_key w))) (\<lambda>effective.
          Option.bind (record_action P (w_chain w) honest_action) (\<lambda>(receipt, proof, root).
          Option.bind (attest P (w_attester w) (named ''agent:b@org2'') cd honest_action honest_action root proof) (\<lambda>honest.
          let honest_verdict =
                verify P \<lparr>va_chain = w_chain w, va_receipt = receipt, va_completion = honest\<rparr> (w_root_key w) root pol;
              omitted_action = fill 99
          in Option.bind (proof_of P (w_chain w) honest_action) (\<lambda>other_proof.
             Option.bind (attest P (w_attester w) (named ''agent:b@org2'') cd omitted_action omitted_action root other_proof)
               (\<lambda>omitted.
             let omission_verdict =
                   verify P \<lparr>va_chain = w_chain w, va_receipt = omitted_receipt P (w_chain w), va_completion = omitted\<rparr>
                     (w_root_key w) root pol
             in Option.bind (record_action P (w_chain w) honest_action) (\<lambda>(c_receipt, c_proof, c_root).
                Option.bind (attest P (w_executor w) (named ''agent:c@org3'') cd honest_action honest_action c_root c_proof)
                  (\<lambda>self_report.
                let self_report_verdict =
                      verify P \<lparr>va_chain = w_chain w, va_receipt = c_receipt, va_completion = self_report\<rparr>
                        (w_root_key w) c_root pol
                in if \<not> is_ok honest_verdict then None
                   else if omission_verdict \<noteq> Inl Omission then None
                   else if \<not> is_attestation_error self_report_verdict then None
                   else Some ()))))))))"

section \<open>The attribution test\<close>

record single_hop_mandate =
  bound_user :: string
  issuer_agent :: string
  budget_minor :: u64
  issuer_key :: public_key
  m_signature :: signature

definition mandate_bytes :: "string \<Rightarrow> string \<Rightarrow> u64 \<Rightarrow> u8 list" where
  "mandate_bytes user issuer b =
     str_bytes (''AP2|user='' @ user @ ''|issuer='' @ issuer @ ''|budget='' @ decimal (unat b))"

definition mint_mandate :: "signer \<Rightarrow> string \<Rightarrow> string \<Rightarrow> u64 \<Rightarrow> single_hop_mandate option" where
  "mint_mandate sg user issuer b =
     Option.bind (unwrap (sg_sign sg (mandate_bytes user issuer b))) (\<lambda>sig.
       Some \<lparr>bound_user = user, issuer_agent = issuer, budget_minor = b, issuer_key = sg_public_key sg,
             m_signature = sig\<rparr>)"

definition verify_ap2_single_hop :: "prims \<Rightarrow> single_hop_mandate \<Rightarrow> bool" where
  "verify_ap2_single_hop P m =
     or_false (verify_signature P (mandate_bytes (bound_user m) (issuer_agent m) (budget_minor m))
       (m_signature m) (issuer_key m))"

definition ap2_run :: "prims \<Rightarrow> (bool \<times> bool \<times> bool) option" where
  "ap2_run P =
     (let human = ed25519_from_seed P (fill 1); agent_a = ed25519_from_seed P (fill 2);
          agent_b = ed25519_from_seed P (fill 3); human_root_key = sg_public_key human
      in Option.bind (chain_issue P human (named ''human:alice'') (charge_scope 10000 2)) (\<lambda>c0.
         Option.bind (unwrap (attenuate P c0 human (named ''agent:a@org1'') (sg_public_key agent_a)
                                (charge_scope 5000 1) ''book travel'')) (\<lambda>legit.
         let legit_ok = is_ok (chain_verify P legit human_root_key)
         in Option.bind (mint_mandate agent_b ''human:alice'' ''agent:b@org2'' 10000) (\<lambda>forged_mandate.
            let ap2_ok = verify_ap2_single_hop P forged_mandate
            in Option.bind (chain_issue P agent_b (named ''human:alice'') (charge_scope 10000 0)) (\<lambda>forged_chain.
               let indexone_rejected = \<not> is_ok (chain_verify P forged_chain human_root_key)
               in Some (legit_ok, ap2_ok, indexone_rejected))))))"

text \<open>The rest of \<^verbatim>\<open>main\<close>: the reason to print, and the assertions.\<close>

definition ap2_main :: "prims \<Rightarrow> unit option" where
  "ap2_main P =
     Option.bind (ap2_run P) (\<lambda>(legit_ok, ap2_ok, indexone_rejected).
     Option.bind (chain_issue P (ed25519_from_seed P (fill 3)) (named ''human:alice'') (charge_scope 10000 0)) (\<lambda>_.
       if \<not> legit_ok then None
       else if \<not> ap2_ok then None
       else if \<not> indexone_rejected then None
       else Some ()))"

section \<open>Facts\<close>

lemma unwrap_simps [simp]: "unwrap (Inl e) = None" "unwrap (Inr a) = Some a"
  by (simp_all add: unwrap_def)

lemma charge_scope_narrows [simp]: "narrows (charge_scope b d) (charge_scope b' d') \<longleftrightarrow> b \<le> b'"
  by (simp add: narrows_def charge_scope_def)

lemma charge_scope_depth [simp]: "max_depth (charge_scope b d) = d"
  by (simp add: charge_scope_def)

text \<open>The world is built, and what it holds.\<close>

definition world_ok :: "prims \<Rightarrow> world \<Rightarrow> bool" where
  "world_ok P w \<longleftrightarrow>
     built P (w_root_key w) (w_chain w) \<and> fst (chain_tail P (w_chain w)) = charge_scope 4000 0 \<and>
     executor_key (w_chain w) = sg_public_key (w_executor w) \<and>
     w_attester w = ed25519_from_seed P (fill 3) \<and> w_executor w = ed25519_from_seed P (fill 4)"

lemma build_world_ok:
  assumes good: "\<And>b. b \<in> {1, 2, 3, 4} \<Longrightarrow> ed_good P (fill b)"
  shows "\<exists>w. build_world P = Some w \<and> world_ok P w"
proof -
  let ?s = "\<lambda>b. ed25519_from_seed P (fill b)"
  have ok: "signer_ok P (?s 1)" "signer_ok P (?s 2)" "signer_ok P (?s 3)"
    by (simp_all add: ed.ok good)
  have said: "\<not> trim_is_empty ''book travel''" "\<not> trim_is_empty ''charge airline''" "\<not> trim_is_empty ''settle fare''"
    by code_simp+
  from issue_tail [OF ok(1)] obtain c0 h0 where
    0: "chain_issue P (?s 1) (named ''human:alice'') (charge_scope 10000 3) = Some c0"
      "built P (sg_public_key (?s 1)) c0" "chain_tail P c0 = (charge_scope 10000 3, sg_public_key (?s 1), named ''human:alice'', h0)"
    by meson
  from attenuate_step [OF ok(1) 0(2,3) said(1), of "charge_scope 5000 2"] obtain c1 h1 where
    1: "attenuate P c0 (?s 1) (named ''agent:a@org1'') (sg_public_key (?s 2)) (charge_scope 5000 2) ''book travel'' = Inr c1"
      "built P (sg_public_key (?s 1)) c1" "chain_tail P c1 = (charge_scope 5000 2, sg_public_key (?s 2), named ''agent:a@org1'', h1)"
    by simp meson
  from attenuate_step [OF ok(2) 1(2,3) said(2), of "charge_scope 5000 1"] obtain c2 h2 where
    2: "attenuate P c1 (?s 2) (named ''agent:b@org2'') (sg_public_key (?s 3)) (charge_scope 5000 1) ''charge airline'' = Inr c2"
      "built P (sg_public_key (?s 1)) c2" "chain_tail P c2 = (charge_scope 5000 1, sg_public_key (?s 3), named ''agent:b@org2'', h2)"
    by simp meson
  from attenuate_step [OF ok(3) 2(2,3) said(3), of "charge_scope 4000 0"] obtain c3 h3 where
    3: "attenuate P c2 (?s 3) (named ''agent:c@org3'') (sg_public_key (?s 4)) (charge_scope 4000 0) ''settle fare'' = Inr c3"
      "built P (sg_public_key (?s 1)) c3" "chain_tail P c3 = (charge_scope 4000 0, sg_public_key (?s 4), named ''agent:c@org3'', h3)"
    by simp meson
  have "delegations c3 \<noteq> []" using attenuate_shape [OF 3(1)] by auto
  then have "executor_key c3 = sg_public_key (?s 4)" using executor_key_tail 3(3) by blast
  with 0 1 2 3 show ?thesis by (simp add: build_world_def Let_def world_ok_def)
qed

text \<open>The first receipt of a log, its proof and the root.\<close>

definition first_receipt :: "prims \<Rightarrow> chain \<Rightarrow> digest \<Rightarrow> action_receipt" where
  "first_receipt P c action =
     \<lparr>chain_digest_of = chain_digest P c, action_digest = action, nonce = fill 0xCD, prev_root = empty_root P\<rparr>"

abbreviation first_proof :: inclusion_proof where
  "first_proof \<equiv> \<lparr>leaf_index = 0, tree_size = Suc 0, path = []\<rparr>"

lemma first_logged:
  "\<exists>w0 w1 w2 w3. witness_root P witness_new = Some (empty_root P, w0) \<and> witness_append P w0 r = (0, w1) \<and>
     prove_inclusion P w1 0 = Some (Some first_proof, w2) \<and> witness_root P w2 = Some (log_root P [r], w3)"
proof -
  from witness_root_ok [OF witness_ok_new, of P] obtain w0 where
    0: "witness_root P witness_new = Some (empty_root P, w0)" "witness_ok P w0" "leaf_hashes w0 = []" by auto
  obtain i w1 where app: "witness_append P w0 r = (i, w1)" by fastforce
  from witness_append_ok [OF 0(2) app] have
    1: "witness_ok P w1" "i = 0" "leaf_hashes w1 = [hash_leaf P (canonical_bytes P r)]" by (simp_all add: 0(3))
  from prove_inclusion_ok [OF 1(1), of 0] obtain w2 where
    2: "prove_inclusion P w1 0 = Some (Some first_proof, w2)" "witness_ok P w2" "leaf_hashes w2 = leaf_hashes w1"
    by (auto simp: 1(3) naive_path.simps)
  from witness_root_ok [OF 2(2)] obtain w3 where "witness_root P w2 = Some (log_root P [r], w3)"
    by (auto simp: 2(3) 1(3) log_root_def)
  with 0(1) app 1(2) 2(1) show ?thesis by blast
qed

lemma record_action_ok:
  "record_action P c action =
     Some (first_receipt P c action, first_proof, log_root P [first_receipt P c action])"
proof -
  from first_logged [of P "first_receipt P c action"] obtain w0 w1 w2 w3 where
    "witness_root P witness_new = Some (empty_root P, w0)" "witness_append P w0 (first_receipt P c action) = (0, w1)"
    "prove_inclusion P w1 0 = Some (Some first_proof, w2)" "witness_root P w2 = Some (log_root P [first_receipt P c action], w3)"
    by blast
  then show ?thesis by (simp add: record_action_def first_receipt_def Let_def)
qed

lemma first_included [simp]: "verify_inclusion P (first_receipt P c a) first_proof (log_root P [first_receipt P c a])"
  by (simp add: verify_inclusion_iff log_root_def max_proof_path_def)

text \<open>
  What a third-party attestation over one action of a built chain is answered with, check
  by check.
\<close>

lemma attested_verdict:
  assumes "built P rk c" and "attestation_signed P a"
  shows "verify P \<lparr>va_chain = c, va_receipt = r, va_completion = a\<rparr> rk trusted pol =
    (if chain_digest_of r \<noteq> chain_digest P c \<or> ca_chain_digest a \<noteq> chain_digest P c then Inl ChainBindingMismatch
     else if witnessed_root a \<noteq> trusted then Inl Equivocation
     else if \<not> verify_inclusion P r (inclusion a) trusted then Inl Omission
     else if attester_key a = executor_key c then Inl (VerifyAttestation NotIndependent)
     else if \<not> attester_is_anchored c a pol then Inl AttesterNotAnchored
     else if outcome_digest a \<noteq> action_digest r then Inl OutcomeMismatch
     else if requested_action_digest a \<noteq> action_digest r then Inl ActionDigestInconsistent
     else Inr (fst (chain_tail P c)))"
proof -
  have "attestation_verify P a k = (if attester_key a = k then Inl NotIndependent else Inr ())" for k
    using attestation_verify_iff [of P a k] assms(2) by (auto simp: attestation_verify_def)
  then show ?thesis
    using chain_verify_ok [OF built_ok [OF assms(1)]] by (simp add: verify_def Let_def)
qed

lemma third_party_verdict:
  assumes "built P rk c" and "chain_digest_of r = chain_digest P c"
    and a: "binding a = (chain_digest P c, action_digest r, action_digest r, root)"
      "attestation_signed P a" "ca_role a = ThirdParty"
  shows "verify P \<lparr>va_chain = c, va_receipt = r, va_completion = a\<rparr> rk trusted (policy_third_party ks) =
    (if root \<noteq> trusted then Inl Equivocation
     else if \<not> verify_inclusion P r (inclusion a) trusted then Inl Omission
     else if attester_key a = executor_key c then Inl (VerifyAttestation NotIndependent)
     else if attester_key a \<notin> set ks then Inl AttesterNotAnchored
     else Inr (fst (chain_tail P c)))"
  using attested_verdict [OF assms(1) a(2)] assms(2) a
  by (simp add: binding_def attester_is_anchored_iff policy_third_party_def)

lemma seed_attestation:
  assumes "ed_good P sd"
  shows "\<exists>a. attest P (ed25519_from_seed P sd) who cd ad ad root pf = Some a \<and> attestation_signed P a \<and>
    attester_key a = sg_public_key (ed25519_from_seed P sd) \<and> ca_role a = ThirdParty \<and> inclusion a = pf \<and>
    binding a = (cd, ad, ad, root)"
  unfolding attest_def by (rule any_signer.attest_as_signed [OF ed.ok [OF assms]])

text \<open>
  What the cases rely on: the five seeds give working signers with their own keys, the
  recorded receipt is not confused with the omitted one, and the root of its log is not
  the constant of the forked view.
\<close>

definition cases_apart :: "prims \<Rightarrow> bool" where
  "cases_apart P \<longleftrightarrow>
     list_all (\<lambda>b. ed_good P (fill b)) [1, 2, 3, 4, 66] \<and>
     distinct (map (\<lambda>b. ed_public P (fill b)) [1, 3, 4, 66]) \<and>
     (case build_world P of
        None \<Rightarrow> True
      | Some w \<Rightarrow>
          log_apart P [first_receipt P (w_chain w) (fill 42)] (omitted_receipt P (w_chain w)) [] \<and>
          log_root P [first_receipt P (w_chain w) (fill 42)] \<noteq> fill 123)"

lemma fill_inject [simp]: "fill a = fill b \<longleftrightarrow> a = b"
proof
  assume "fill a = fill b"
  then have "array_bytes (fill a) = array_bytes (fill b)" by simp
  then show "a = b" by (simp add: fill_def numeral_eq_Suc)
qed simp

lemma cases_apartD:
  assumes "cases_apart P"
  shows "b \<in> {1, 2, 3, 4, 66} \<Longrightarrow> ed_good P (fill b)"
    and "a \<in> {1, 3, 4, 66} \<Longrightarrow> b \<in> {1, 3, 4, 66} \<Longrightarrow>
      sg_public_key (ed25519_from_seed P (fill a)) = sg_public_key (ed25519_from_seed P (fill b)) \<longleftrightarrow> a = b"
  using assms by (auto simp: cases_apart_def ed25519_from_seed_def)

lemma omitted_excluded:
  assumes "cases_apart P" and "build_world P = Some w"
  shows "\<not> verify_inclusion P (omitted_receipt P (w_chain w)) first_proof
           (log_root P [first_receipt P (w_chain w) (fill 42)])"
proof
  let ?r = "first_receipt P (w_chain w) (fill 42)" and ?o = "omitted_receipt P (w_chain w)"
  assume "verify_inclusion P ?o first_proof (log_root P [?r])"
  then have "?o \<in> set [?r]"
    by (rule included_in_log) (use assms in \<open>simp_all add: cases_apart_def\<close>)
  then show False by (simp add: omitted_receipt_def first_receipt_def)
qed

lemma case_verdict:
  assumes apart: "cases_apart P" and w: "world_ok P w" and b: "b \<in> {3, 4, 66}"
    and r: "chain_digest_of r = chain_digest P (w_chain w)" "action_digest r = ad"
  shows "\<exists>a. attest P (ed25519_from_seed P (fill b)) who (chain_digest P (w_chain w)) ad ad root first_proof = Some a \<and>
    (\<forall>trusted. verify P \<lparr>va_chain = w_chain w, va_receipt = r, va_completion = a\<rparr> (w_root_key w) trusted
        (policy_third_party [sg_public_key (ed25519_from_seed P (fill 3))]) =
      (if root \<noteq> trusted then Inl Equivocation
       else if \<not> verify_inclusion P r first_proof trusted then Inl Omission
       else if b = 4 then Inl (VerifyAttestation NotIndependent)
       else if b \<noteq> 3 then Inl AttesterNotAnchored
       else Inr (charge_scope 4000 0)))"
proof -
  from seed_attestation [OF cases_apartD(1) [OF apart], of b who "chain_digest P (w_chain w)" ad root first_proof] b
  obtain a where a: "attest P (ed25519_from_seed P (fill b)) who (chain_digest P (w_chain w)) ad ad root first_proof = Some a"
    "attestation_signed P a" "attester_key a = sg_public_key (ed25519_from_seed P (fill b))" "ca_role a = ThirdParty"
    "inclusion a = first_proof" "binding a = (chain_digest P (w_chain w), ad, ad, root)"
    by auto
  have keys: "attester_key a = executor_key (w_chain w) \<longleftrightarrow> b = 4"
    "attester_key a \<in> set [sg_public_key (ed25519_from_seed P (fill 3))] \<longleftrightarrow> b = 3"
    using w cases_apartD(2) [OF apart, of b 4] cases_apartD(2) [OF apart, of b 3] b
    by (auto simp: a(3) world_ok_def)
  from w have "built P (w_root_key w) (w_chain w)" "fst (chain_tail P (w_chain w)) = charge_scope 4000 0"
    by (simp_all add: world_ok_def)
  from third_party_verdict [OF this(1) r(1), of a root] this(2) keys a r(2) show ?thesis by auto
qed

lemma world_built:
  assumes "cases_apart P"
  shows "\<exists>w. build_world P = Some w \<and> world_ok P w"
  by (rule build_world_ok) (use cases_apartD(1) [OF assms] in auto)

lemma first_receipt_fields [simp]:
  "chain_digest_of (first_receipt P c a) = chain_digest P c" "action_digest (first_receipt P c a) = a"
  "chain_digest_of (omitted_receipt P c) = chain_digest P c" "action_digest (omitted_receipt P c) = fill 99"
  by (simp_all add: first_receipt_def omitted_receipt_def)

lemma is_attestation_error_simps [simp]:
  "is_attestation_error (Inl (VerifyAttestation e))" "\<not> is_attestation_error (Inr s)"
  by (simp_all add: is_attestation_error_def)

text \<open>Every case passes.\<close>

lemma cases_pass:
  assumes apart: "cases_apart P"
  shows "case_honest_accepted P = Some True" and "case_self_report_rejected P = Some True"
    and "case_omission_rejected P = Some True" and "case_equivocation_rejected P = Some True"
    and "case_sockpuppet_rejected P = Some True"
proof -
  from world_built [OF apart] obtain w where w: "build_world P = Some w" "world_ok P w" by blast
  let ?c = "w_chain w" and ?r = "first_receipt P (w_chain w) (fill 42)"
  have parties: "w_attester w = ed25519_from_seed P (fill 3)" "w_executor w = ed25519_from_seed P (fill 4)"
    using w(2) by (simp_all add: world_ok_def)
  note verdict = case_verdict [OF apart w(2)]
  from verdict [of 3 ?r "fill 42" "named ''agent:b@org2''" "log_root P [?r]"]
  show "case_honest_accepted P = Some True"
    by (auto simp: case_honest_accepted_def w(1) parties record_action_ok Let_def)
  from verdict [of 4 ?r "fill 42" "named ''agent:c@org3''" "log_root P [?r]"]
  show "case_self_report_rejected P = Some True"
    by (auto simp: case_self_report_rejected_def w(1) parties record_action_ok Let_def)
  from verdict [of 3 "omitted_receipt P ?c" "fill 99" "named ''agent:b@org2''" "log_root P [?r]"]
  show "case_omission_rejected P = Some True"
    using omitted_excluded [OF apart w(1)] chain_verify_ok [OF built_ok] w(2)
    by (auto simp: case_omission_rejected_def w(1) parties record_action_ok Let_def world_ok_def)
  from verdict [of 3 ?r "fill 42" "named ''agent:b@org2''" "log_root P [?r]"]
  show "case_equivocation_rejected P = Some True"
    using apart by (auto simp: case_equivocation_rejected_def w(1) parties record_action_ok Let_def cases_apart_def)
  from verdict [of 66 ?r "fill 42" "named ''attester:notary''" "log_root P [?r]"]
  show "case_sockpuppet_rejected P = Some True"
    by (auto simp: case_sockpuppet_rejected_def w(1) parties record_action_ok Let_def)
qed

lemma widening_pass:
  assumes "cases_apart P"
  shows "case_scope_widening_rejected P = Some True"
proof -
  let ?h = "ed25519_from_seed P (fill 1)"
  let ?wide = "charge_scope 10000 1
    \<lparr>permissions := [permission_action ''payments.charge'', permission_action ''payments.refund'']\<rparr>"
  have "signer_ok P ?h" by (rule ed.ok) (simp add: cases_apartD(1) [OF assms])
  from issue_tail [OF this] obtain c h where
    c: "chain_issue P ?h (named ''human:alice'') (charge_scope 10000 2) = Some c"
      "chain_tail P c = (charge_scope 10000 2, sg_public_key ?h, named ''human:alice'', h)"
    by meson
  have "\<not> trim_is_empty ''grab more''" by code_simp
  moreover have "is_narrowing_of ?wide (charge_scope 10000 2) = Inl ScopeWidened"
    by (simp add: is_narrowing_of_def charge_scope_def authorizes_subset_of_def permission_action_def)
  ultimately show ?thesis
    by (simp add: case_scope_widening_rejected_def c attenuate_def Let_def)
qed

lemma conformance_zero: "cases_apart P \<Longrightarrow> conformance_main P = Some 0"
  by (simp add: conformance_main_def conformance_cases_def cases_pass widening_pass)

lemma omission_returns:
  assumes apart: "cases_apart P"
  shows "omission_main P = Some ()"
proof -
  from world_built [OF apart] obtain w where w: "build_world P = Some w" "world_ok P w" by blast
  let ?c = "w_chain w" and ?r = "first_receipt P (w_chain w) (fill 42)"
  have parties: "w_attester w = ed25519_from_seed P (fill 3)" "w_executor w = ed25519_from_seed P (fill 4)"
    using w(2) by (simp_all add: world_ok_def)
  have valid: "chain_verify P ?c (w_root_key w) = Inr (charge_scope 4000 0)"
    using chain_verify_ok [OF built_ok] w(2) by (auto simp: world_ok_def)
  note verdict = case_verdict [OF apart w(2), where root = "log_root P [?r]"]
  show ?thesis
    using verdict [of 3 ?r "fill 42" "named ''agent:b@org2''"]
      verdict [of 3 "omitted_receipt P ?c" "fill 99" "named ''agent:b@org2''"]
      verdict [of 4 ?r "fill 42" "named ''agent:c@org3''"] omitted_excluded [OF apart w(1)]
    by (auto simp: omission_main_def w(1) parties record_action_ok Let_def valid proof_of_def)
qed

text \<open>
  The mandate check takes whatever its issuer signs, whoever the user is; the chain check
  refuses a root that is not the trusted key's.
\<close>

lemma mandate_accepted:
  assumes "signer_ok P sg"
  shows "\<exists>m. mint_mandate sg user issuer b = Some m \<and> verify_ap2_single_hop P m \<and> issuer_key m = sg_public_key sg"
  using any_signer.signs [OF assms, of "mandate_bytes user issuer b"]
  by (auto simp: mint_mandate_def verify_ap2_single_hop_def or_false_def)

lemma foreign_root_rejected:
  assumes "chain_issue P sg p s = Some c" and "sg_public_key sg \<noteq> k"
  shows "chain_verify P c k = Inl RootKeyMismatch"
  using assms by (auto simp: chain_issue_iff chain_verify_def verify_root_def)

lemma ap2_verdicts:
  assumes good: "ed_good P (fill 1)" "ed_good P (fill 3)" and apart: "ed_public P (fill 1) \<noteq> ed_public P (fill 3)"
  shows "ap2_run P = Some (True, True, True)" and "ap2_main P = Some ()"
proof -
  let ?s = "\<lambda>b. ed25519_from_seed P (fill b)"
  have ok: "signer_ok P (?s 1)" "signer_ok P (?s 3)" using good by (simp_all add: ed.ok)
  have said: "\<not> trim_is_empty ''book travel''" by code_simp
  from issue_tail [OF ok(1)] obtain c0 h0 where
    0: "chain_issue P (?s 1) (named ''human:alice'') (charge_scope 10000 2) = Some c0"
      "built P (sg_public_key (?s 1)) c0" "chain_tail P c0 = (charge_scope 10000 2, sg_public_key (?s 1), named ''human:alice'', h0)"
    by meson
  from attenuate_step [OF ok(1) 0(2,3) said, of "charge_scope 5000 1"] obtain c1 where
    1: "attenuate P c0 (?s 1) (named ''agent:a@org1'') (sg_public_key (?s 2)) (charge_scope 5000 1) ''book travel'' = Inr c1"
      "built P (sg_public_key (?s 1)) c1"
    by simp meson
  from mandate_accepted [OF ok(2), of "''human:alice''" "''agent:b@org2''" 10000] obtain m where
    2: "mint_mandate (?s 3) ''human:alice'' ''agent:b@org2'' 10000 = Some m" "verify_ap2_single_hop P m" by auto
  from issue_tail [OF ok(2)] obtain c2 where
    3: "chain_issue P (?s 3) (named ''human:alice'') (charge_scope 10000 0) = Some c2" by meson
  have "sg_public_key (?s 3) \<noteq> sg_public_key (?s 1)" using apart by (simp add: ed25519_from_seed_def)
  from foreign_root_rejected [OF 3 this] chain_verify_ok [OF built_ok [OF 1(2)]] 0(1) 1(1) 2 3
  show "ap2_run P = Some (True, True, True)" by (simp add: ap2_run_def Let_def)
  with 3 show "ap2_main P = Some ()" by (simp add: ap2_main_def)
qed

end
