(* ===== verification/Verifier_Tests.thy ===== *)
theory Verifier_Tests
  imports Scenarios "HOL-Library.Monad_Syntax"
begin

unbundle bit_operations_syntax

text \<open>
  The acceptance tests of \<^verbatim>\<open>core/verifier\<close> (its module \<^verbatim>\<open>tests\<close>): each builds the chain of
  four parties, records an action and asserts a verdict. A test is \<open>None\<close> when an \<^verbatim>\<open>unwrap\<close> or
  an assertion of it panics. Every test passes for all primitives that keep apart what the
  tests keep apart.
\<close>

section \<open>The world of the tests\<close>

definition asserts :: "bool \<Rightarrow> unit option" where
  "asserts b = (if b then Some () else None)"

lemma asserts_simps [simp]: "asserts True = Some ()" "asserts False = None"
  by (simp_all add: asserts_def)

record test_world =
  tw_chain :: chain
  tw_root_key :: public_key
  tw_executor :: signer
  tw_delegator :: signer
  tw_notary :: signer

definition build_chain :: "prims \<Rightarrow> test_world option" where
  "build_chain P = do {
     let human = ed25519_from_seed P (fill 1);
     let a = ed25519_from_seed P (fill 2);
     let b = ed25519_from_seed P (fill 3);
     let c = ed25519_from_seed P (fill 4);
     let notary = ed25519_from_seed P (fill 9);
     let root_key = sg_public_key human;
     c0 \<leftarrow> chain_issue P human (named ''human:alice'') (charge_scope 10000 3);
     c1 \<leftarrow> unwrap (attenuate P c0 human (named ''agent:a@org1'') (sg_public_key a) (charge_scope 5000 2) ''book travel'');
     c2 \<leftarrow> unwrap (attenuate P c1 a (named ''agent:b@org2'') (sg_public_key b) (charge_scope 5000 1) ''charge airline'');
     c3 \<leftarrow> unwrap (attenuate P c2 b (named ''agent:c@org3'') (sg_public_key c) (charge_scope 4000 0) ''settle fare'');
     Some \<lparr>tw_chain = c3, tw_root_key = root_key, tw_executor = c, tw_delegator = b, tw_notary = notary\<rparr>}"

definition trusting :: "test_world \<Rightarrow> verify_policy" where
  "trusting w = policy_third_party [sg_public_key (tw_notary w)]"

definition record_test :: "prims \<Rightarrow> chain \<Rightarrow> digest \<Rightarrow> (action_receipt \<times> inclusion_proof \<times> digest) option" where
  "record_test P c action = do {
     (r0, w0) \<leftarrow> witness_root P witness_new;
     let receipt = \<lparr>chain_digest_of = chain_digest P c, action_digest = action, nonce = fill 0xAB, prev_root = r0\<rparr>;
     let (idx, w1) = witness_append P w0 receipt;
     (pf, w2) \<leftarrow> prove_inclusion P w1 idx;
     proof \<leftarrow> pf;
     (root, w3) \<leftarrow> witness_root P w2;
     Some (receipt, proof, root)}"

definition third_party :: "prims \<Rightarrow> signer" where
  "third_party P = ed25519_from_seed P (fill 10)"

text \<open>\<^verbatim>\<open>d[0] ^= 0xFF\<close>.\<close>

definition flip_first :: "digest \<Rightarrow> digest" where
  "flip_first d = mk_bytes32 ((hd (array_bytes d) XOR 0xFF) # tl (array_bytes d))"

section \<open>Verdicts on one attestation\<close>

definition test_honest_action_verifies :: "prims \<Rightarrow> unit option" where
  "test_honest_action_verifies P = do {
     w \<leftarrow> build_chain P;
     let action = fill 42;
     (receipt, proof, root) \<leftarrow> record_test P (tw_chain w) action;
     completion \<leftarrow> attest P (tw_notary w) (named ''attester:notary'') (chain_digest P (tw_chain w)) action action root proof;
     let va = \<lparr>va_chain = tw_chain w, va_receipt = receipt, va_completion = completion\<rparr>;
     asserts (is_ok (verify P va (tw_root_key w) root (trusting w)))}"

definition test_omitted_action_is_invalid :: "prims \<Rightarrow> unit option" where
  "test_omitted_action_is_invalid P = do {
     w \<leftarrow> build_chain P;
     (_, proof, root) \<leftarrow> record_test P (tw_chain w) (fill 42);
     let omitted = fill 99;
     let omitted_receipt = \<lparr>chain_digest_of = chain_digest P (tw_chain w), action_digest = omitted, nonce = fill 0xAB,
           prev_root = fill 0\<rparr>;
     completion \<leftarrow> attest P (tw_notary w) (named ''attester:notary'') (chain_digest P (tw_chain w)) omitted omitted root proof;
     asserts (is_ok (chain_verify P (tw_chain w) (tw_root_key w)));
     let va = \<lparr>va_chain = tw_chain w, va_receipt = omitted_receipt, va_completion = completion\<rparr>;
     asserts (verify P va (tw_root_key w) root (trusting w) = Inl Omission)}"

definition test_self_reported_completion_is_invalid :: "prims \<Rightarrow> unit option" where
  "test_self_reported_completion_is_invalid P = do {
     w \<leftarrow> build_chain P;
     let action = fill 42;
     (receipt, proof, root) \<leftarrow> record_test P (tw_chain w) action;
     completion \<leftarrow> attest P (tw_executor w) (named ''agent:c@org3'') (chain_digest P (tw_chain w)) action action root proof;
     let va = \<lparr>va_chain = tw_chain w, va_receipt = receipt, va_completion = completion\<rparr>;
     asserts (is_attestation_error (verify P va (tw_root_key w) root (trusting w)))}"

definition test_sockpuppet_key_is_rejected :: "prims \<Rightarrow> unit option" where
  "test_sockpuppet_key_is_rejected P = do {
     w \<leftarrow> build_chain P;
     let action = fill 42;
     (receipt, proof, root) \<leftarrow> record_test P (tw_chain w) action;
     let sockpuppet = ed25519_from_seed P (fill 66);
     completion \<leftarrow> attest P sockpuppet (named ''attester:notary'') (chain_digest P (tw_chain w)) action action root proof;
     let va = \<lparr>va_chain = tw_chain w, va_receipt = receipt, va_completion = completion\<rparr>;
     asserts (verify P va (tw_root_key w) root (trusting w) = Inl AttesterNotAnchored)}"

definition test_counter_signed_by_delegator_verifies :: "prims \<Rightarrow> unit option" where
  "test_counter_signed_by_delegator_verifies P = do {
     w \<leftarrow> build_chain P;
     let action = fill 42;
     (receipt, proof, root) \<leftarrow> record_test P (tw_chain w) action;
     completion \<leftarrow> attest_as P CounterSigned (tw_delegator w) (named ''agent:b@org2'') (chain_digest P (tw_chain w))
       action action root proof;
     let va = \<lparr>va_chain = tw_chain w, va_receipt = receipt, va_completion = completion\<rparr>;
     asserts (is_ok (verify P va (tw_root_key w) root policy_counter_signed))}"

definition test_equivocated_root_is_invalid :: "prims \<Rightarrow> unit option" where
  "test_equivocated_root_is_invalid P = do {
     w \<leftarrow> build_chain P;
     let action = fill 42;
     (receipt, proof, root) \<leftarrow> record_test P (tw_chain w) action;
     completion \<leftarrow> attest P (tw_notary w) (named ''attester:notary'') (chain_digest P (tw_chain w)) action action root proof;
     let gossip_root = fill 123;
     let va = \<lparr>va_chain = tw_chain w, va_receipt = receipt, va_completion = completion\<rparr>;
     asserts (verify P va (tw_root_key w) gossip_root (trusting w) = Inl Equivocation)}"

definition test_dishonest_outcome_is_invalid :: "prims \<Rightarrow> unit option" where
  "test_dishonest_outcome_is_invalid P = do {
     w \<leftarrow> build_chain P;
     let logged = fill 42;
     (receipt, proof, root) \<leftarrow> record_test P (tw_chain w) logged;
     completion \<leftarrow> attest P (tw_notary w) (named ''attester:notary'') (chain_digest P (tw_chain w)) logged (fill 7) root proof;
     let va = \<lparr>va_chain = tw_chain w, va_receipt = receipt, va_completion = completion\<rparr>;
     asserts (verify P va (tw_root_key w) root (trusting w) = Inl OutcomeMismatch)}"

definition test_spliced_receipt_is_rejected :: "prims \<Rightarrow> unit option" where
  "test_spliced_receipt_is_rejected P = do {
     w \<leftarrow> build_chain P;
     let action = fill 42;
     (receipt, proof, root) \<leftarrow> record_test P (tw_chain w) action;
     let spliced = receipt\<lparr>chain_digest_of := flip_first (chain_digest_of receipt)\<rparr>;
     completion \<leftarrow> attest P (tw_notary w) (named ''agent:b@org2'') (chain_digest P (tw_chain w)) action action root proof;
     let va = \<lparr>va_chain = tw_chain w, va_receipt = spliced, va_completion = completion\<rparr>;
     asserts (verify P va (tw_root_key w) root (trusting w) = Inl ChainBindingMismatch)}"

definition test_spliced_attestation_is_rejected :: "prims \<Rightarrow> unit option" where
  "test_spliced_attestation_is_rejected P = do {
     w \<leftarrow> build_chain P;
     let action = fill 42;
     (receipt, proof, root) \<leftarrow> record_test P (tw_chain w) action;
     let foreign = flip_first (chain_digest P (tw_chain w));
     completion \<leftarrow> attest P (tw_notary w) (named ''agent:b@org2'') foreign action action root proof;
     let va = \<lparr>va_chain = tw_chain w, va_receipt = receipt, va_completion = completion\<rparr>;
     asserts (verify P va (tw_root_key w) root (trusting w) = Inl ChainBindingMismatch)}"

definition test_requested_differs_is_rejected :: "prims \<Rightarrow> unit option" where
  "test_requested_differs_is_rejected P = do {
     w \<leftarrow> build_chain P;
     let witnessed = fill 42;
     (receipt, proof, root) \<leftarrow> record_test P (tw_chain w) witnessed;
     completion \<leftarrow> attest P (tw_notary w) (named ''agent:b@org2'') (chain_digest P (tw_chain w)) (fill 99) witnessed root proof;
     let va = \<lparr>va_chain = tw_chain w, va_receipt = receipt, va_completion = completion\<rparr>;
     asserts (verify P va (tw_root_key w) root (trusting w) = Inl ActionDigestInconsistent)}"

section \<open>Verdicts on a bundle\<close>

definition test_two_of_two_verifies :: "prims \<Rightarrow> unit option" where
  "test_two_of_two_verifies P = do {
     w \<leftarrow> build_chain P;
     let action = fill 42;
     (receipt, proof, root) \<leftarrow> record_test P (tw_chain w) action;
     let cd = chain_digest P (tw_chain w);
     a1 \<leftarrow> attest P (tw_notary w) (named ''agent:b@org2'') cd action action root proof;
     a2 \<leftarrow> attest P (third_party P) (named ''attester:notary'') cd action action root proof;
     let pol = policy_third_party [sg_public_key (tw_notary w), sg_public_key (third_party P)];
     let vta = \<lparr>vt_chain = tw_chain w, vt_receipt = receipt, vt_completion = \<lparr>attestations = [a1, a2], ta_threshold = 2\<rparr>\<rparr>;
     effective \<leftarrow> unwrap (verify_threshold P vta (tw_root_key w) root 2 pol);
     asserts (budget effective = Some 4000)}"

definition test_below_bar_is_rejected :: "prims \<Rightarrow> unit option" where
  "test_below_bar_is_rejected P = do {
     w \<leftarrow> build_chain P;
     let action = fill 42;
     (receipt, proof, root) \<leftarrow> record_test P (tw_chain w) action;
     a1 \<leftarrow> attest P (tw_notary w) (named ''agent:b@org2'') (chain_digest P (tw_chain w)) action action root proof;
     let vta = \<lparr>vt_chain = tw_chain w, vt_receipt = receipt, vt_completion = \<lparr>attestations = [a1], ta_threshold = 1\<rparr>\<rparr>;
     asserts (verify_threshold P vta (tw_root_key w) root 2 (trusting w) = Inl (InsufficientAttestation 2 1))}"

definition test_self_report_lacks_independence :: "prims \<Rightarrow> unit option" where
  "test_self_report_lacks_independence P = do {
     w \<leftarrow> build_chain P;
     let action = fill 42;
     (receipt, proof, root) \<leftarrow> record_test P (tw_chain w) action;
     let cd = chain_digest P (tw_chain w);
     independent \<leftarrow> attest P (tw_notary w) (named ''agent:b@org2'') cd action action root proof;
     self_report \<leftarrow> attest P (tw_executor w) (named ''agent:c@org3'') cd action action root proof;
     let vta = \<lparr>vt_chain = tw_chain w, vt_receipt = receipt,
                vt_completion = \<lparr>attestations = [independent, self_report], ta_threshold = 2\<rparr>\<rparr>;
     asserts (verify_threshold P vta (tw_root_key w) root 2 (trusting w) =
       Inl (VerifyThreshold (NotEnoughIndependentAttestations 1 2)))}"

section \<open>The purpose gate\<close>

definition test_purpose_bound_action_verifies :: "prims \<Rightarrow> unit option" where
  "test_purpose_bound_action_verifies P = do {
     w \<leftarrow> build_chain P;
     let params = fill 7;
     let action = bind_action P ''settle fare'' params;
     (receipt, proof, root) \<leftarrow> record_test P (tw_chain w) action;
     completion \<leftarrow> attest P (tw_notary w) (named ''attester:notary'') (chain_digest P (tw_chain w)) action action root proof;
     let va = \<lparr>va_chain = tw_chain w, va_receipt = receipt, va_completion = completion\<rparr>;
     effective \<leftarrow> unwrap (verify_with_purpose P va (tw_root_key w) root (trusting w) params);
     asserts (budget effective = Some 4000)}"

definition test_different_purpose_is_rejected :: "prims \<Rightarrow> unit option" where
  "test_different_purpose_is_rejected P = do {
     w \<leftarrow> build_chain P;
     let params = fill 7;
     let wrong = bind_action P ''wire funds offshore'' params;
     (receipt, proof, root) \<leftarrow> record_test P (tw_chain w) wrong;
     completion \<leftarrow> attest P (tw_notary w) (named ''attester:notary'') (chain_digest P (tw_chain w)) wrong wrong root proof;
     let va = \<lparr>va_chain = tw_chain w, va_receipt = receipt, va_completion = completion\<rparr>;
     asserts (is_ok (verify P va (tw_root_key w) root (trusting w)));
     asserts (verify_with_purpose P va (tw_root_key w) root (trusting w) params = Inl PurposeMismatch)}"

definition test_root_only_chain_has_no_purpose :: "prims \<Rightarrow> unit option" where
  "test_root_only_chain_has_no_purpose P = do {
     w \<leftarrow> build_chain P;
     let params = fill 7;
     let action = bind_action P ''anything'' params;
     (receipt, proof, root) \<leftarrow> record_test P (tw_chain w) action;
     completion \<leftarrow> attest P (tw_notary w) (named ''attester:notary'') (chain_digest P (tw_chain w)) action action root proof;
     root_only \<leftarrow> chain_issue P (ed25519_from_seed P (fill 1)) (named ''human:alice'') (charge_scope 10000 0);
     let va = \<lparr>va_chain = root_only, va_receipt = receipt, va_completion = completion\<rparr>;
     asserts (verify_action_purpose_binding P va params = Inl PurposeMismatch)}"

section \<open>The revocation gate\<close>

definition log_operator :: "prims \<Rightarrow> signer" where
  "log_operator P = ed25519_from_seed P (fill 77)"

fun revoke_all :: "revocation_id list \<Rightarrow> log_backed \<Rightarrow> log_backed option" where
  "revoke_all [] rl = Some rl"
| "revoke_all (i # is) rl = do {
     key \<leftarrow> try_bytes32 (rev_bytes i);
     revoke_all is (log_backed_revoke rl key)}"

fun prove_all ::
  "prims \<Rightarrow> signer \<Rightarrow> revocation_id list \<Rightarrow> log_backed \<Rightarrow> (revocation_id \<rightharpoonup> log_backed_proof) \<Rightarrow>
   (revocation_id \<rightharpoonup> log_backed_proof) option" where
  "prove_all P opr [] rl proofs = Some proofs"
| "prove_all P opr (i # is) rl proofs = do {
     key \<leftarrow> try_bytes32 (rev_bytes i);
     (pf, rl') \<leftarrow> lb_prove P rl key opr;
     p \<leftarrow> pf;
     prove_all P opr is rl' (proofs(i \<mapsto> p))}"

definition evidence_for ::
  "prims \<Rightarrow> chain \<Rightarrow> revocation_id list \<Rightarrow> signer \<Rightarrow> (revocation_id \<rightharpoonup> log_backed_proof) option" where
  "evidence_for P c revoked opr = do {
     rl \<leftarrow> revoke_all revoked log_backed_new;
     (_, rl1) \<leftarrow> publish_checkpoint P rl opr;
     prove_all P opr (revocation_ids_for_chain P c) rl1 Map.empty}"

definition honest_with_evidence :: "prims \<Rightarrow> (test_world \<times> verifiable_action \<times> digest \<times> verify_policy) option" where
  "honest_with_evidence P = do {
     w \<leftarrow> build_chain P;
     let action = fill 42;
     (receipt, proof, root) \<leftarrow> record_test P (tw_chain w) action;
     completion \<leftarrow> attest P (tw_notary w) (named ''attester:notary'') (chain_digest P (tw_chain w)) action action root proof;
     Some (w, \<lparr>va_chain = tw_chain w, va_receipt = receipt, va_completion = completion\<rparr>, root, trusting w)}"

definition test_fresh_chain_passes_the_gate :: "prims \<Rightarrow> unit option" where
  "test_fresh_chain_passes_the_gate P = do {
     (w, va, root, pol) \<leftarrow> honest_with_evidence P;
     let opr = log_operator P;
     proofs \<leftarrow> evidence_for P (tw_chain w) [] opr;
     let ev = \<lparr>ev_log_key = sg_public_key opr, ev_proofs = proofs\<rparr>;
     asserts (is_ok (verify_with_revocation P va (tw_root_key w) root pol ev))}"

definition test_revoked_hop_fails_closed :: "prims \<Rightarrow> unit option" where
  "test_revoked_hop_fails_closed P = do {
     (w, va, root, pol) \<leftarrow> honest_with_evidence P;
     let opr = log_operator P;
     let ids = revocation_ids_for_chain P (tw_chain w);
     proofs \<leftarrow> evidence_for P (tw_chain w) [ids ! 2] opr;
     let ev = \<lparr>ev_log_key = sg_public_key opr, ev_proofs = proofs\<rparr>;
     asserts (verify_with_revocation P va (tw_root_key w) root pol ev = Inl HopRevoked)}"

definition test_missing_proof_fails_closed :: "prims \<Rightarrow> unit option" where
  "test_missing_proof_fails_closed P = do {
     (w, va, root, pol) \<leftarrow> honest_with_evidence P;
     let opr = log_operator P;
     proofs \<leftarrow> evidence_for P (tw_chain w) [] opr;
     let ids = revocation_ids_for_chain P (tw_chain w);
     let ev = \<lparr>ev_log_key = sg_public_key opr, ev_proofs = proofs(ids ! 0 := None)\<rparr>;
     asserts (verify_with_revocation P va (tw_root_key w) root pol ev = Inl HopRevoked)}"

definition test_wrong_log_key_fails_closed :: "prims \<Rightarrow> unit option" where
  "test_wrong_log_key_fails_closed P = do {
     (w, va, root, pol) \<leftarrow> honest_with_evidence P;
     let opr = log_operator P;
     proofs \<leftarrow> evidence_for P (tw_chain w) [] opr;
     let ev = \<lparr>ev_log_key = sg_public_key (ed25519_from_seed P (fill 88)), ev_proofs = proofs\<rparr>;
     asserts (verify_with_revocation P va (tw_root_key w) root pol ev = Inl HopRevoked)}"

definition verifier_tests :: "(prims \<Rightarrow> unit option) list" where
  "verifier_tests =
     [test_honest_action_verifies, test_omitted_action_is_invalid, test_self_reported_completion_is_invalid,
      test_sockpuppet_key_is_rejected, test_counter_signed_by_delegator_verifies, test_equivocated_root_is_invalid,
      test_dishonest_outcome_is_invalid, test_spliced_receipt_is_rejected, test_spliced_attestation_is_rejected,
      test_requested_differs_is_rejected, test_two_of_two_verifies, test_below_bar_is_rejected,
      test_self_report_lacks_independence, test_purpose_bound_action_verifies, test_different_purpose_is_rejected,
      test_root_only_chain_has_no_purpose]"

definition revocation_gate_tests :: "(prims \<Rightarrow> unit option) list" where
  "revocation_gate_tests =
     [test_fresh_chain_passes_the_gate, test_revoked_hop_fails_closed, test_missing_proof_fails_closed,
      test_wrong_log_key_fails_closed]"

section \<open>Facts about the world\<close>

lemma asserts_iff [simp]: "asserts b = Some u \<longleftrightarrow> b"
  by (simp add: asserts_def)

lemma build_chain_world:
  "build_chain P = map_option (\<lambda>w. \<lparr>tw_chain = w_chain w, tw_root_key = w_root_key w, tw_executor = w_executor w,
     tw_delegator = w_attester w, tw_notary = ed25519_from_seed P (fill 9)\<rparr>) (build_world P)"
  by (simp add: build_chain_def build_world_def Let_def map_option_bind comp_def)

lemma flip_first_differs [simp]: "flip_first d \<noteq> d"
proof
  assume eq: "flip_first d = d"
  obtain b bs where d: "array_bytes d = b # bs" "length bs = 31"
    using length_array_bytes [of d] by (cases "array_bytes d") auto
  have "array_bytes (flip_first d) = (b XOR 0xFF) # bs"
    by (simp add: flip_first_def d array_bytes_mk)
  with eq d have "b XOR 0xFF = b" by simp
  then have "(b XOR b) XOR 0xFF = b XOR b" by (metis xor.assoc)
  then show False by simp
qed

text \<open>The first receipt of a log, whatever it says, with its proof and the root.\<close>

definition test_receipt :: "prims \<Rightarrow> chain \<Rightarrow> digest \<Rightarrow> action_receipt" where
  "test_receipt P c action =
     \<lparr>chain_digest_of = chain_digest P c, action_digest = action, nonce = fill 0xAB, prev_root = empty_root P\<rparr>"

lemma test_receipt_fields [simp]:
  "chain_digest_of (test_receipt P c a) = chain_digest P c" "action_digest (test_receipt P c a) = a"
  by (simp_all add: test_receipt_def)

lemma record_test_ok: "record_test P c a = Some (test_receipt P c a, first_proof, log_root P [test_receipt P c a])"
proof -
  from first_logged [of P "test_receipt P c a"] obtain w0 w1 w2 w3 where
    "witness_root P witness_new = Some (empty_root P, w0)" "witness_append P w0 (test_receipt P c a) = (0, w1)"
    "prove_inclusion P w1 0 = Some (Some first_proof, w2)" "witness_root P w2 = Some (log_root P [test_receipt P c a], w3)"
    by blast
  then show ?thesis by (simp add: record_test_def test_receipt_def Let_def)
qed

section \<open>The chain of the tests\<close>

lemma unwrap_Some_iff: "unwrap m = Some a \<longleftrightarrow> m = Inr a"
  by (cases m) simp_all

text \<open>The last hop is the one the purpose is bound to, and the delegator is a key of the chain.\<close>

lemma built_world_last:
  assumes "build_world P = Some w"
  shows "length (delegations (w_chain w)) = 3" and "purpose (last (delegations (w_chain w))) = ''settle fare''"
    and "chain_has_key (w_chain w) (sg_public_key (ed25519_from_seed P (fill 3)))"
proof -
  let ?s = "\<lambda>b. ed25519_from_seed P (fill b)"
  from assms obtain c0 c1 c2 c3 where c:
    "chain_issue P (?s 1) (named ''human:alice'') (charge_scope 10000 3) = Some c0"
    "attenuate P c0 (?s 1) (named ''agent:a@org1'') (sg_public_key (?s 2)) (charge_scope 5000 2) ''book travel'' = Inr c1"
    "attenuate P c1 (?s 2) (named ''agent:b@org2'') (sg_public_key (?s 3)) (charge_scope 5000 1) ''charge airline'' = Inr c2"
    "attenuate P c2 (?s 3) (named ''agent:c@org3'') (sg_public_key (?s 4)) (charge_scope 4000 0) ''settle fare'' = Inr c3"
    "w_chain w = c3"
    by (auto simp: build_world_def Let_def bind_eq_Some_conv unwrap_Some_iff)
  have "delegations c0 = []" using c(1) by (auto simp: chain_issue_iff)
  then show "length (delegations (w_chain w)) = 3" "purpose (last (delegations (w_chain w))) = ''settle fare''"
    "chain_has_key (w_chain w) (sg_public_key (?s 3))"
    using c(2-5) by (auto simp: attenuate_iff chain_has_key_def)
qed

section \<open>Attestations of the parties\<close>

lemma party_attests:
  assumes "ed_good P sd"
  shows "\<exists>a. attest_as P role (ed25519_from_seed P sd) who cd req outc root pf = Some a \<and> attestation_signed P a \<and>
    attester_key a = sg_public_key (ed25519_from_seed P sd) \<and> ca_role a = role \<and> inclusion a = pf \<and>
    ca_chain_digest a = cd \<and> requested_action_digest a = req \<and> outcome_digest a = outc \<and> witnessed_root a = root"
  using any_signer.attest_as_signed [OF ed.ok [OF assms], of role who cd req outc root pf] by (auto simp: binding_def)

text \<open>
  What the tests rely on: their seeds give working signers, each with its own key; the
  receipt that was never appended is not confused with the recorded one, nor the root of
  the log with the constant of the forked view, nor one purpose with the other.
\<close>

definition test_keys :: "prims \<Rightarrow> bool" where
  "test_keys P \<longleftrightarrow>
     list_all (\<lambda>b. ed_good P (fill b)) [1, 2, 3, 4, 9, 10, 66] \<and>
     distinct (map (\<lambda>b. ed_public P (fill b)) [3, 4, 9, 10, 66])"

definition never_appended :: "prims \<Rightarrow> chain \<Rightarrow> action_receipt" where
  "never_appended P c =
     \<lparr>chain_digest_of = chain_digest P c, action_digest = fill 99, nonce = fill 0xAB, prev_root = fill 0\<rparr>"

definition tests_apart :: "prims \<Rightarrow> bool" where
  "tests_apart P \<longleftrightarrow>
     test_keys P \<and> bind_action P ''wire funds offshore'' (fill 7) \<noteq> bind_action P ''settle fare'' (fill 7) \<and>
     (case build_world P of
        None \<Rightarrow> True
      | Some w \<Rightarrow>
          log_apart P [test_receipt P (w_chain w) (fill 42)] (never_appended P (w_chain w)) [] \<and>
          log_root P [test_receipt P (w_chain w) (fill 42)] \<noteq> fill 123)"

lemma test_keysD:
  assumes "test_keys P"
  shows "b \<in> {1, 2, 3, 4, 9, 10, 66} \<Longrightarrow> ed_good P (fill b)"
    and "a \<in> {3, 4, 9, 10, 66} \<Longrightarrow> b \<in> {3, 4, 9, 10, 66} \<Longrightarrow>
      sg_public_key (ed25519_from_seed P (fill a)) = sg_public_key (ed25519_from_seed P (fill b)) \<longleftrightarrow> a = b"
  using assms by (auto simp: test_keys_def ed25519_from_seed_def)

abbreviation parties :: "prims \<Rightarrow> chain \<Rightarrow> public_key \<Rightarrow> test_world" where
  "parties P c rk \<equiv> \<lparr>tw_chain = c, tw_root_key = rk, tw_executor = ed25519_from_seed P (fill 4),
     tw_delegator = ed25519_from_seed P (fill 3), tw_notary = ed25519_from_seed P (fill 9)\<rparr>"

lemma test_world_built:
  assumes "test_keys P"
  obtains w c rk where "build_world P = Some w" and "w_chain w = c"
    and "build_chain P = Some (parties P c rk)"
    and "built P rk c" and "fst (chain_tail P c) = charge_scope 4000 0"
    and "executor_key c = sg_public_key (ed25519_from_seed P (fill 4))"
proof -
  from build_world_ok [of P] test_keysD(1) [OF assms] obtain w where w: "build_world P = Some w" "world_ok P w" by auto
  with that [OF w(1) refl] show thesis by (simp add: build_chain_world world_ok_def)
qed

lemma test_included [simp]: "verify_inclusion P (test_receipt P c a) first_proof (log_root P [test_receipt P c a])"
  by (simp add: verify_inclusion_iff log_root_def max_proof_path_def)

section \<open>The verdicts\<close>

text \<open>What an attestation by the holder of a seed is answered with, check by check.\<close>

lemma seed_verdict:
  assumes keys: "test_keys P" and b: "b \<in> {3, 4, 9, 10, 66}" and c: "built P rk c"
    and executor: "executor_key c = sg_public_key (ed25519_from_seed P (fill 4))"
  shows "\<exists>a. attest_as P role (ed25519_from_seed P (fill b)) who cd req outc root pf = Some a \<and>
    (\<forall>r trusted pol. verify P \<lparr>va_chain = c, va_receipt = r, va_completion = a\<rparr> rk trusted pol =
      (if chain_digest_of r \<noteq> chain_digest P c \<or> cd \<noteq> chain_digest P c then Inl ChainBindingMismatch
       else if root \<noteq> trusted then Inl Equivocation
       else if \<not> verify_inclusion P r pf trusted then Inl Omission
       else if b = 4 then Inl (VerifyAttestation NotIndependent)
       else if \<not> (case role of
           ThirdParty \<Rightarrow> sg_public_key (ed25519_from_seed P (fill b)) \<in> set (trusted_attesters pol)
         | CounterSigned \<Rightarrow> allow_counter_signed pol \<and> chain_has_key c (sg_public_key (ed25519_from_seed P (fill b))))
         then Inl AttesterNotAnchored
       else if outc \<noteq> action_digest r then Inl OutcomeMismatch
       else if req \<noteq> action_digest r then Inl ActionDigestInconsistent
       else Inr (fst (chain_tail P c))))"
proof -
  have good: "ed_good P (fill b)" by (rule test_keysD(1) [OF keys]) (use b in auto)
  from party_attests [OF this, of role who cd req outc root pf] obtain a where
    a: "attest_as P role (ed25519_from_seed P (fill b)) who cd req outc root pf = Some a" "attestation_signed P a"
      "attester_key a = sg_public_key (ed25519_from_seed P (fill b))" "ca_role a = role" "inclusion a = pf"
      "ca_chain_digest a = cd" "requested_action_digest a = req" "outcome_digest a = outc" "witnessed_root a = root" by blast
  have "sg_public_key (ed25519_from_seed P (fill b)) = executor_key c \<longleftrightarrow> b = 4"
    unfolding executor by (rule test_keysD(2) [OF keys b]) simp
  with attested_verdict [OF c a(2)] a show ?thesis by (intro exI [of _ a]) (simp add: attester_is_anchored_def split: attester_role.split)
qed

lemmas tests_simps = record_test_ok trusting_def policy_third_party_def policy_counter_signed_def third_party_def
  test_keysD(2) charge_scope_def is_ok_def asserts_def

lemma never_appended_excluded:
  assumes "tests_apart P" and "build_world P = Some w"
  shows "\<not> verify_inclusion P (never_appended P (w_chain w)) first_proof
           (log_root P [test_receipt P (w_chain w) (fill 42)])"
proof
  let ?r = "test_receipt P (w_chain w) (fill 42)" and ?o = "never_appended P (w_chain w)"
  assume "verify_inclusion P ?o first_proof (log_root P [?r])"
  then have "?o \<in> set [?r]"
    by (rule included_in_log) (use assms in \<open>simp_all add: tests_apart_def\<close>)
  then show False by (simp add: never_appended_def test_receipt_def)
qed

lemma attestation_tests:
  assumes keys: "test_keys P"
  shows "test_honest_action_verifies P = Some ()" and "test_self_reported_completion_is_invalid P = Some ()"
    and "test_sockpuppet_key_is_rejected P = Some ()" and "test_counter_signed_by_delegator_verifies P = Some ()"
    and "test_dishonest_outcome_is_invalid P = Some ()" and "test_spliced_receipt_is_rejected P = Some ()"
    and "test_spliced_attestation_is_rejected P = Some ()" and "test_requested_differs_is_rejected P = Some ()"
proof -
  from test_world_built [OF keys] obtain w c rk where w: "build_world P = Some w" "w_chain w = c"
    "build_chain P = Some (parties P c rk)"
    "built P rk c" "fst (chain_tail P c) = charge_scope 4000 0"
    "executor_key c = sg_public_key (ed25519_from_seed P (fill 4))" by blast
  let ?r = "test_receipt P c (fill 42)"
  note verdict = seed_verdict [OF keys _ w(4,6)]
  note world = w(3,5) tests_simps test_keysD(2) [OF keys]
  from verdict [of 9 ThirdParty "named ''attester:notary''" "chain_digest P c" "fill 42" "fill 42" "log_root P [?r]" first_proof]
  show "test_honest_action_verifies P = Some ()"
    by (auto simp: test_honest_action_verifies_def world attest_def Let_def)
  from verdict [of 4 ThirdParty "named ''agent:c@org3''" "chain_digest P c" "fill 42" "fill 42" "log_root P [?r]" first_proof]
  show "test_self_reported_completion_is_invalid P = Some ()"
    by (auto simp: test_self_reported_completion_is_invalid_def world attest_def Let_def)
  from verdict [of 66 ThirdParty "named ''attester:notary''" "chain_digest P c" "fill 42" "fill 42" "log_root P [?r]" first_proof]
  show "test_sockpuppet_key_is_rejected P = Some ()"
    by (auto simp: test_sockpuppet_key_is_rejected_def world attest_def Let_def)
  from verdict [of 3 CounterSigned "named ''agent:b@org2''" "chain_digest P c" "fill 42" "fill 42" "log_root P [?r]" first_proof]
  show "test_counter_signed_by_delegator_verifies P = Some ()"
    using built_world_last(3) [OF w(1)] w(2)
    by (auto simp: test_counter_signed_by_delegator_verifies_def world Let_def)
  from verdict [of 9 ThirdParty "named ''attester:notary''" "chain_digest P c" "fill 42" "fill 7" "log_root P [?r]" first_proof]
  show "test_dishonest_outcome_is_invalid P = Some ()"
    by (auto simp: test_dishonest_outcome_is_invalid_def world attest_def Let_def)
  from verdict [of 9 ThirdParty "named ''agent:b@org2''" "chain_digest P c" "fill 42" "fill 42" "log_root P [?r]" first_proof]
  show "test_spliced_receipt_is_rejected P = Some ()"
    by (auto simp: test_spliced_receipt_is_rejected_def world attest_def Let_def)
  from verdict [of 9 ThirdParty "named ''agent:b@org2''" "flip_first (chain_digest P c)" "fill 42" "fill 42" "log_root P [?r]" first_proof]
  show "test_spliced_attestation_is_rejected P = Some ()"
    by (auto simp: test_spliced_attestation_is_rejected_def world attest_def Let_def)
  from verdict [of 9 ThirdParty "named ''agent:b@org2''" "chain_digest P c" "fill 99" "fill 42" "log_root P [?r]" first_proof]
  show "test_requested_differs_is_rejected P = Some ()"
    by (auto simp: test_requested_differs_is_rejected_def world attest_def Let_def)
qed

lemma apart_tests:
  assumes apart: "tests_apart P"
  shows "test_omitted_action_is_invalid P = Some ()" and "test_equivocated_root_is_invalid P = Some ()"
    and "test_different_purpose_is_rejected P = Some ()"
proof -
  from apart have keys: "test_keys P" by (simp add: tests_apart_def)
  from test_world_built [OF keys] obtain w c rk where w: "build_world P = Some w" "w_chain w = c"
    "build_chain P = Some (parties P c rk)"
    "built P rk c" "fst (chain_tail P c) = charge_scope 4000 0"
    "executor_key c = sg_public_key (ed25519_from_seed P (fill 4))" by blast
  let ?r = "test_receipt P c (fill 42)"
  note verdict = seed_verdict [OF keys _ w(4,6)]
  note world = w(3,5) tests_simps test_keysD(2) [OF keys]
  from verdict [of 9 ThirdParty "named ''attester:notary''" "chain_digest P c" "fill 99" "fill 99" "log_root P [?r]" first_proof]
  show "test_omitted_action_is_invalid P = Some ()"
    using never_appended_excluded [OF apart w(1)] chain_verify_ok [OF built_ok [OF w(4)]]
    by (auto simp: test_omitted_action_is_invalid_def never_appended_def w(2) world attest_def Let_def)
  from verdict [of 9 ThirdParty "named ''attester:notary''" "chain_digest P c" "fill 42" "fill 42" "log_root P [?r]" first_proof]
  show "test_equivocated_root_is_invalid P = Some ()"
    using apart by (auto simp: test_equivocated_root_is_invalid_def tests_apart_def w(1,2) world attest_def Let_def)
  let ?d = "bind_action P ''wire funds offshore'' (fill 7)" and ?r = "\<lambda>d. test_receipt P c d"
  have delegated: "delegations c \<noteq> []" "purpose (last (delegations c)) = ''settle fare''"
    using built_world_last(1,2) [OF w(1)] w(2) by auto
  from verdict [of 9 ThirdParty "named ''attester:notary''" "chain_digest P c" ?d ?d "log_root P [?r ?d]" first_proof]
  show "test_different_purpose_is_rejected P = Some ()"
    using apart delegated by (auto simp: test_different_purpose_is_rejected_def tests_apart_def verify_with_purpose_def
      verify_action_purpose_binding_def world attest_def Let_def)
qed

lemma purpose_tests:
  assumes keys: "test_keys P"
  shows "test_purpose_bound_action_verifies P = Some ()" and "test_root_only_chain_has_no_purpose P = Some ()"
proof -
  from test_world_built [OF keys] obtain w c rk where w: "build_world P = Some w" "w_chain w = c"
    "build_chain P = Some (parties P c rk)"
    "built P rk c" "fst (chain_tail P c) = charge_scope 4000 0"
    "executor_key c = sg_public_key (ed25519_from_seed P (fill 4))" by blast
  note verdict = seed_verdict [OF keys _ w(4,6)]
  note world = w(3,5) tests_simps test_keysD(2) [OF keys]
  have delegated: "delegations c \<noteq> []" "purpose (last (delegations c)) = ''settle fare''"
    using built_world_last(1,2) [OF w(1)] w(2) by auto
  let ?d = "bind_action P ''settle fare'' (fill 7)" and ?e = "bind_action P ''anything'' (fill 7)"
  from verdict [of 9 ThirdParty "named ''attester:notary''" "chain_digest P c" ?d ?d "log_root P [test_receipt P c ?d]" first_proof]
  show "test_purpose_bound_action_verifies P = Some ()"
    using delegated by (auto simp: test_purpose_bound_action_verifies_def verify_with_purpose_def
      verify_action_purpose_binding_def world attest_def Let_def)
  have "signer_ok P (ed25519_from_seed P (fill 1))" by (rule ed.ok) (simp add: test_keysD(1) [OF keys])
  from issue_tail [OF this] obtain c0 where
    issued: "chain_issue P (ed25519_from_seed P (fill 1)) (named ''human:alice'') (charge_scope 10000 0) = Some c0" by meson
  then have "delegations c0 = []" by (auto simp: chain_issue_iff)
  with issued verdict [of 9 ThirdParty "named ''attester:notary''" "chain_digest P c" ?e ?e "log_root P [test_receipt P c ?e]" first_proof]
  show "test_root_only_chain_has_no_purpose P = Some ()"
    by (auto simp: test_root_only_chain_has_no_purpose_def verify_action_purpose_binding_def w(3) record_test_ok attest_def Let_def)
qed

text \<open>The bundles: what counts is the attesters that are not the executor.\<close>

lemma threshold_tests:
  assumes keys: "test_keys P"
  shows "test_two_of_two_verifies P = Some ()" and "test_below_bar_is_rejected P = Some ()"
    and "test_self_report_lacks_independence P = Some ()"
proof -
  from test_world_built [OF keys] obtain w c rk where w: "build_world P = Some w" "w_chain w = c"
    "build_chain P = Some (parties P c rk)"
    "built P rk c" "fst (chain_tail P c) = charge_scope 4000 0"
    "executor_key c = sg_public_key (ed25519_from_seed P (fill 4))" by blast
  let ?r = "test_receipt P c (fill 42)" and ?s = "\<lambda>b. ed25519_from_seed P (fill b)"
  have attests: "\<exists>a. attest P (?s b) who (chain_digest P c) (fill 42) (fill 42) (log_root P [?r]) first_proof = Some a \<and>
      attestation_signed P a \<and> attester_key a = sg_public_key (?s b) \<and> ca_role a = ThirdParty \<and>
      inclusion a = first_proof \<and> ca_chain_digest a = chain_digest P c \<and> requested_action_digest a = fill 42 \<and>
      outcome_digest a = fill 42 \<and> witnessed_root a = log_root P [?r]" if "b \<in> {4, 9, 10}" for b who
    unfolding attest_def by (rule party_attests, rule test_keysD(1) [OF keys]) (use that in auto)
  have distinct: "sg_public_key (?s a) = sg_public_key (?s b) \<longleftrightarrow> a = b" if "a \<in> {4, 9, 10}" "b \<in> {4, 9, 10}" for a b
    by (rule test_keysD(2) [OF keys]) (use that in auto)
  have valid: "chain_verify P c rk = Inr (charge_scope 4000 0)"
    using chain_verify_ok [OF built_ok [OF w(4)]] w(5) by simp
  have judged: "is_ok (attestation_verify P a k) \<longleftrightarrow> attester_key a \<noteq> k" if "attestation_signed P a" for a k
    using attestation_verify_iff [of P a k] that by (cases "attestation_verify P a k") (auto simp: is_ok_def)
  obtain a where a: "attest P (?s 9) (named ''agent:b@org2'') (chain_digest P c) (fill 42) (fill 42) (log_root P [?r]) first_proof = Some a"
    "attestation_signed P a" "attester_key a = sg_public_key (?s 9)" "ca_role a = ThirdParty" "inclusion a = first_proof"
    "ca_chain_digest a = chain_digest P c" "requested_action_digest a = fill 42" "outcome_digest a = fill 42"
    "witnessed_root a = log_root P [?r]" using attests [of 9 "named ''agent:b@org2''"] by auto
  obtain b where b: "attest P (?s 10) (named ''attester:notary'') (chain_digest P c) (fill 42) (fill 42) (log_root P [?r]) first_proof = Some b"
    "attestation_signed P b" "attester_key b = sg_public_key (?s 10)" "ca_role b = ThirdParty" "inclusion b = first_proof"
    "ca_chain_digest b = chain_digest P c" "requested_action_digest b = fill 42" "outcome_digest b = fill 42"
    "witnessed_root b = log_root P [?r]" using attests [of 10 "named ''attester:notary''"] by auto
  obtain d where d: "attest P (?s 4) (named ''agent:c@org3'') (chain_digest P c) (fill 42) (fill 42) (log_root P [?r]) first_proof = Some d"
    "attestation_signed P d" "attester_key d = sg_public_key (?s 4)" "ca_role d = ThirdParty" "inclusion d = first_proof"
    "ca_chain_digest d = chain_digest P c" "requested_action_digest d = fill 42" "outcome_digest d = fill 42"
    "witnessed_root d = log_root P [?r]" using attests [of 4 "named ''agent:c@org3''"] by auto
  note steps = w(3) record_test_ok valid verify_threshold_def threshold_verify_def trusting_def policy_third_party_def
    third_party_def attester_is_anchored_def binding_def judged distinct w(6) Let_def asserts_def
  show "test_two_of_two_verifies P = Some ()"
    by (simp add: test_two_of_two_verifies_def a b steps charge_scope_def)
  show "test_below_bar_is_rejected P = Some ()"
    by (simp add: test_below_bar_is_rejected_def a steps)
  show "test_self_report_lacks_independence P = Some ()"
    by (simp add: test_self_report_lacks_independence_def a d steps)
qed

lemma verifier_tests_pass:
  assumes "tests_apart P"
  shows "map (\<lambda>test. test P) verifier_tests = replicate 16 (Some ())"
proof -
  from assms have keys: "test_keys P" by (simp add: tests_apart_def)
  show ?thesis
    by (simp add: verifier_tests_def attestation_tests [OF keys] apart_tests [OF assms] purpose_tests [OF keys]
        threshold_tests [OF keys] numeral_eq_Suc)
qed

section \<open>The evidence\<close>

text \<open>What a proof is made of: the current map, the latest checkpoint and a head signed for it.\<close>

definition made_of :: "prims \<Rightarrow> signer \<Rightarrow> revocation_map \<Rightarrow> bytes32 \<Rightarrow> log_backed_proof \<Rightarrow> bool" where
  "made_of P opr m key pf \<longleftrightarrow>
     lp_map_proof pf = revmap_prove P m key \<and> mc_map_root (lp_checkpoint pf) = revmap_root P m \<and>
     sg_sign opr (sth_signing_bytes P (sth_size (lp_sth pf)) (sth_root (lp_sth pf))) = Inr (sth_signature (lp_sth pf))"

lemma lb_prove_made: "lb_prove P lb key opr = Some (Some pf, lb') \<Longrightarrow> made_of P opr (lb_map lb) key pf"
  by (auto simp: lb_prove_def made_of_def signed_head_def Let_def split: option.splits if_splits sum.splits)

text \<open>Every id gets a proof, which answers whether its key is in the map.\<close>

definition answers :: "prims \<Rightarrow> signer \<Rightarrow> revocation_map \<Rightarrow> bytes32 \<Rightarrow> log_backed_proof \<Rightarrow> bool" where
  "answers P opr m key pf \<longleftrightarrow> made_of P opr m key pf \<and>
     (if key \<in> set (map_keys m) then verify_revoked P pf key (sg_public_key opr)
      else verify_not_revoked P pf key (sg_public_key opr))"

lemma prove_all_answers:
  assumes "signer_ok P opr" and "length h \<le> 2 ^ 64" and "h \<noteq> []"
    and "revmap_root P m = mc_map_root (fst (last h))" and "map_apart P m X"
  shows "lb_inv P lb h \<Longrightarrow> lb_map lb = m \<Longrightarrow> \<forall>i \<in> set is. \<exists>key. rev_bytes i = array_bytes key \<Longrightarrow>
    \<exists>proofs'. prove_all P opr is lb proofs = Some proofs' \<and>
      (\<forall>i key. i \<in> set is \<longrightarrow> rev_bytes i = array_bytes key \<longrightarrow> (\<exists>pf. proofs' i = Some pf \<and> answers P opr m key pf)) \<and>
      (\<forall>i. i \<notin> set is \<longrightarrow> proofs' i = proofs i)"
proof (induction "is" arbitrary: lb proofs)
  case (Cons i rest)
  then obtain key where key: "rev_bytes i = array_bytes key" by auto
  from lb_prove_complete [OF Cons.prems(1) assms(1-3), of X key] Cons.prems(2) assms(4,5) obtain pf lb' where
    p: "lb_prove P lb key opr = Some (Some pf, lb')" "lb_inv P lb' h"
      "if key \<in> set (map_keys m) then verify_revoked P pf key (sg_public_key opr)
       else verify_not_revoked P pf key (sg_public_key opr)" by auto
  have pf: "answers P opr m key pf"
    using lb_prove_made [OF p(1)] p(3) Cons.prems(2) by (simp add: answers_def)
  have same: "lb_map lb' = m" using lb_prove_keeps [OF Cons.prems(1) p(1)] Cons.prems(2) by simp
  have "\<forall>i \<in> set rest. \<exists>key. rev_bytes i = array_bytes key" using Cons.prems(3) by simp
  from Cons.IH [OF p(2) same this, of "proofs(i \<mapsto> pf)"] obtain proofs' where
    rest: "prove_all P opr rest lb' (proofs(i \<mapsto> pf)) = Some proofs'"
      "\<forall>j key. j \<in> set rest \<longrightarrow> rev_bytes j = array_bytes key \<longrightarrow> (\<exists>pf. proofs' j = Some pf \<and> answers P opr m key pf)"
      "\<forall>j. j \<notin> set rest \<longrightarrow> proofs' j = (proofs(i \<mapsto> pf)) j" by blast
  have "\<exists>pf. proofs' i = Some pf \<and> answers P opr m k pf" if "rev_bytes i = array_bytes k" for k
    using rest(2,3) that pf key by (cases "i \<in> set rest") auto
  with rest show ?case by (auto simp: key p(1))
qed simp

lemma chain_ids_keyed: "i \<in> set (revocation_ids_for_chain P c) \<Longrightarrow> \<exists>key. rev_bytes i = array_bytes key"
  by (auto simp: revocation_ids_for_chain_def revocation_id_from_signature_def)

text \<open>The map after the keys of some ids were revoked.\<close>

definition id_key :: "revocation_id \<Rightarrow> bytes32" where
  "id_key i = mk_bytes32 (rev_bytes i)"

lemma id_key_bytes: "rev_bytes i = array_bytes key \<Longrightarrow> id_key i = key"
  by (simp add: id_key_def)

lemma revoke_all_ok:
  "lb_inv P lb [] \<Longrightarrow> \<forall>i \<in> set is. \<exists>key. rev_bytes i = array_bytes key \<Longrightarrow>
     \<exists>lb'. revoke_all is lb = Some lb' \<and> lb_inv P lb' [] \<and>
       lb_map lb' = fold (\<lambda>i m. revmap_revoke m (id_key i)) is (lb_map lb)"
proof (induction "is" arbitrary: lb)
  case (Cons i rest)
  then obtain key where key: "rev_bytes i = array_bytes key" by auto
  from Cons.IH [OF lb_inv_revoke [OF Cons.prems(1), of key]] Cons.prems(2) key show ?case
    by (auto simp: id_key_bytes log_backed_revoke_def)
qed simp

lemma evidence_ok:
  assumes sg: "signer_ok P opr" and ids: "set revoked \<subseteq> set (revocation_ids_for_chain P c)"
    and m: "m = fold (\<lambda>i m. revmap_revoke m (id_key i)) revoked revmap_new" and apart: "map_apart P m X"
  shows "\<exists>proofs. evidence_for P c revoked opr = Some proofs \<and>
    (\<forall>i key. i \<in> set (revocation_ids_for_chain P c) \<longrightarrow> rev_bytes i = array_bytes key \<longrightarrow>
      (\<exists>pf. proofs i = Some pf \<and> answers P opr m key pf))"
proof -
  have keyed: "\<forall>i \<in> set is. \<exists>key. rev_bytes i = array_bytes key" if "set is \<subseteq> set (revocation_ids_for_chain P c)" for "is"
    using that chain_ids_keyed by blast
  from revoke_all_ok [OF lb_inv_new keyed [OF ids]] obtain lb where
    1: "revoke_all revoked log_backed_new = Some lb" "lb_inv P lb []" "lb_map lb = m"
    by (auto simp: m log_backed_new_def)
  from lb_inv_publish [OF 1(2) sg] obtain sth lb' ck where
    2: "publish_checkpoint P lb opr = Some (sth, lb')" "lb_map lb' = m" "lb_inv P lb' [(ck, m)]"
    by (auto simp: 1(3))
  then have "revmap_root P m = mc_map_root ck" by (simp add: lb_inv_def)
  with prove_all_answers [OF sg _ _ _ apart 2(3,2) keyed [OF subset_refl], of Map.empty] 1(1) 2(1) show ?thesis
    by (auto simp: evidence_for_def)
qed

section \<open>The gate\<close>

text \<open>
  What the revocation tests rely on beyond the keys: the operator's seed gives a working
  signer, whose signatures are not the impostor's, and the hash keeps apart what the proofs
  of the empty map and of the map of the revoked hop are made of.
\<close>

definition revoked_map :: "prims \<Rightarrow> chain \<Rightarrow> revocation_map" where
  "revoked_map P c = revmap_revoke revmap_new (id_key (revocation_ids_for_chain P c ! 2))"

definition gate_apart :: "prims \<Rightarrow> bool" where
  "gate_apart P \<longleftrightarrow>
     test_keys P \<and> ed_good P (fill 77) \<and> (\<forall>m. \<not> ed_check P (ed_public P (fill 88)) m (ed_raw_sign P (fill 77) m)) \<and>
     map_apart P revmap_new {} \<and>
     (case build_world P of
        None \<Rightarrow> True
      | Some w \<Rightarrow>
          let key = id_key (revocation_ids_for_chain P (w_chain w) ! 2); m = revoked_map P (w_chain w)
          in query_apart P m key (revmap_prove P m key))"

lemma honest_evidence:
  assumes keys: "test_keys P"
  obtains w c rk va root where "build_world P = Some w" and "w_chain w = c"
    and "honest_with_evidence P = Some (parties P c rk, va, root, trusting (parties P c rk))"
    and "va_chain va = c" and "is_ok (verify P va rk root (trusting (parties P c rk)))"
proof -
  from test_world_built [OF keys] obtain w c rk where w: "build_world P = Some w" "w_chain w = c"
    "build_chain P = Some (parties P c rk)" "built P rk c" "fst (chain_tail P c) = charge_scope 4000 0"
    "executor_key c = sg_public_key (ed25519_from_seed P (fill 4))" by blast
  let ?r = "test_receipt P c (fill 42)"
  from seed_verdict [OF keys _ w(4,6), of 9 ThirdParty "named ''attester:notary''" "chain_digest P c" "fill 42" "fill 42"
      "log_root P [?r]" first_proof]
  obtain a where a: "attest P (ed25519_from_seed P (fill 9)) (named ''attester:notary'') (chain_digest P c) (fill 42) (fill 42)
      (log_root P [?r]) first_proof = Some a"
    "verify P \<lparr>va_chain = c, va_receipt = ?r, va_completion = a\<rparr> rk (log_root P [?r]) (trusting (parties P c rk)) =
      Inr (charge_scope 4000 0)"
    by (auto simp: attest_def trusting_def policy_third_party_def w(5))
  show thesis
    by (rule that [OF w(1,2)]) (use a in \<open>auto simp: honest_with_evidence_def w(3) record_test_ok Let_def is_ok_def\<close>)
qed

lemma hop_fails:
  assumes "i \<in> set (revocation_ids_for_chain P c)"
    and "\<And>pf key. ev_proofs ev i = Some pf \<Longrightarrow> rev_bytes i = array_bytes key \<Longrightarrow> \<not> verify_not_revoked P pf key (ev_log_key ev)"
  shows "verify_chain_not_revoked P c ev = Inl HopRevoked"
proof (cases "verify_chain_not_revoked P c ev")
  case (Inl e)
  then show ?thesis using check_hops_error by (simp add: verify_chain_not_revoked_def)
next
  case (Inr u)
  then show ?thesis using assms by (auto simp: verify_chain_not_revoked_iff)
qed

text \<open>A proof answers one way only.\<close>

lemma answers_revoked:
  assumes "answers P opr m key pf" and "key \<in> set (map_keys m)" and "revmap_ok m"
    and "query_apart P m key (revmap_prove P m key)"
  shows "\<not> verify_not_revoked P pf key log_key"
  using query_apart_slot(2) [OF assms(3,4)] assms(1,2) by (auto simp: answers_def made_of_def verify_not_revoked_def)

lemma foreign_head:
  assumes "answers P (ed25519_from_seed P sd) m key pf" and "\<forall>m. \<not> ed_check P (ed_public P sd') m (ed_raw_sign P sd m)"
  shows "\<not> verify_not_revoked P pf key (sg_public_key (ed25519_from_seed P sd'))"
proof -
  have "or_false (verify_signature P m \<lparr>sig_algorithm = Ed25519, sig_bytes = ed_raw_sign P sd m\<rparr>
      (sg_public_key (ed25519_from_seed P sd'))) = False" for m
    using assms(2) by (simp add: ed25519_from_seed_def ed25519_verify_def or_false_def)
  moreover have "sth_signature (lp_sth pf) = \<lparr>sig_algorithm = Ed25519,
      sig_bytes = ed_raw_sign P sd (sth_signing_bytes P (sth_size (lp_sth pf)) (sth_root (lp_sth pf)))\<rparr>"
    using assms(1) by (simp add: answers_def made_of_def ed25519_from_seed_def)
  ultimately show ?thesis by (simp add: verify_not_revoked_def map_root_is_logged_def verify_signed_head_def Let_def)
qed

lemma gate_tests_pass:
  assumes apart: "gate_apart P"
  shows "map (\<lambda>test. test P) revocation_gate_tests = replicate 4 (Some ())"
proof -
  from apart have keys: "test_keys P" and opr: "signer_ok P (log_operator P)"
    and foreign: "\<forall>m. \<not> ed_check P (ed_public P (fill 88)) m (ed_raw_sign P (fill 77) m)"
    and empty: "map_apart P revmap_new {}"
    by (simp_all add: gate_apart_def log_operator_def ed.ok)
  from honest_evidence [OF keys] obtain w c rk va root where w: "build_world P = Some w" "w_chain w = c"
    "honest_with_evidence P = Some (parties P c rk, va, root, trusting (parties P c rk))" "va_chain va = c"
    "is_ok (verify P va rk root (trusting (parties P c rk)))" by blast
  let ?ids = "revocation_ids_for_chain P c"
  have "length ?ids = 4" using built_world_last(1) [OF w(1)] w(2) by (simp add: revocation_ids_for_chain_def)
  then have ids: "?ids ! 0 \<in> set ?ids" "?ids ! 2 \<in> set ?ids" by simp_all
  from evidence_ok [OF opr, of "[]" c revmap_new, OF _ _ empty] obtain proofs where
    fresh: "evidence_for P c [] (log_operator P) = Some proofs"
      "\<And>i key. i \<in> set ?ids \<Longrightarrow> rev_bytes i = array_bytes key \<Longrightarrow>
        \<exists>pf. proofs i = Some pf \<and> answers P (log_operator P) revmap_new key pf" by auto
  have "verify_chain_not_revoked P c \<lparr>ev_log_key = sg_public_key (log_operator P), ev_proofs = proofs\<rparr> = Inr ()"
    using fresh(2) chain_ids_keyed by (fastforce simp: verify_chain_not_revoked_iff answers_def revmap_new_def)
  with w(5) have 1: "test_fresh_chain_passes_the_gate P = Some ()"
    by (simp add: test_fresh_chain_passes_the_gate_def w(3,4) fresh(1) Let_def revocation_gate.gate_passes)
  have "verify_chain_not_revoked P c \<lparr>ev_log_key = sg_public_key (log_operator P), ev_proofs = proofs(?ids ! 0 := None)\<rparr> =
      Inl HopRevoked"
    by (rule hop_fails [OF ids(1)]) simp
  then have 2: "test_missing_proof_fails_closed P = Some ()"
    by (simp add: test_missing_proof_fails_closed_def w(3,4) fresh(1) Let_def revocation_gate.gate_first)
  have "verify_chain_not_revoked P c \<lparr>ev_log_key = sg_public_key (ed25519_from_seed P (fill 88)), ev_proofs = proofs\<rparr> =
      Inl HopRevoked"
    by (rule hop_fails [OF ids(1)]) (use fresh(2) [OF ids(1)] foreign_head [OF _ foreign] in \<open>auto simp: log_operator_def\<close>)
  then have 3: "test_wrong_log_key_fails_closed P = Some ()"
    by (simp add: test_wrong_log_key_fails_closed_def w(3,4) fresh(1) Let_def revocation_gate.gate_first)
  obtain key where key: "rev_bytes (?ids ! 2) = array_bytes key" using chain_ids_keyed [OF ids(2)] by blast
  have m: "revmap_ok (revoked_map P c)" "key \<in> set (map_keys (revoked_map P c))"
    using revmap_revoke_ok [OF revmap_new_ok, of key] by (simp_all add: revoked_map_def id_key_bytes [OF key])
  have query: "query_apart P (revoked_map P c) key (revmap_prove P (revoked_map P c) key)"
    using apart w(1,2) by (simp add: gate_apart_def id_key_bytes [OF key] Let_def)
  then obtain X where "map_apart P (revoked_map P c) X" unfolding query_apart_def by blast
  from evidence_ok [OF opr, of "[?ids ! 2]" c "revoked_map P c", OF _ _ this] ids(2) obtain proofs' where
    pulled: "evidence_for P c [?ids ! 2] (log_operator P) = Some proofs'"
      "\<And>i key. i \<in> set ?ids \<Longrightarrow> rev_bytes i = array_bytes key \<Longrightarrow>
        \<exists>pf. proofs' i = Some pf \<and> answers P (log_operator P) (revoked_map P c) key pf"
    by (auto simp: revoked_map_def)
  have "verify_chain_not_revoked P c \<lparr>ev_log_key = sg_public_key (log_operator P), ev_proofs = proofs'\<rparr> = Inl HopRevoked"
    by (rule hop_fails [OF ids(2)]) (use pulled(2) [OF ids(2) key] answers_revoked [OF _ m(2,1) query] key in auto)
  then have 4: "test_revoked_hop_fails_closed P = Some ()"
    by (simp add: test_revoked_hop_fails_closed_def w(3,4) pulled(1) Let_def revocation_gate.gate_first)
  from 1 2 3 4 show ?thesis by (simp add: revocation_gate_tests_def numeral_eq_Suc)
qed

end
