(* ===== verification/Pq_Tests.thy ===== *)
theory Pq_Tests
  imports Verifier_Tests
begin

text \<open>
  The end-to-end test of \<^verbatim>\<open>core/verifier/tests/pq_end_to_end.rs\<close>: the pipeline from issuing
  to the composed verification, with every key made by one function, once per party. It
  passes for every scheme whose signers keep the contract, so under ML-DSA-87 and under the
  hybrid of it with Ed25519.
\<close>

section \<open>The pipeline\<close>

text \<open>\<^verbatim>\<open>make_signer\<close> is called five times; its argument is the number of the call.\<close>

definition run_end_to_end :: "prims \<Rightarrow> (nat \<Rightarrow> signer option) \<Rightarrow> unit option" where
  "run_end_to_end P make_signer = do {
     human \<leftarrow> make_signer 0;
     a \<leftarrow> make_signer 1;
     b \<leftarrow> make_signer 2;
     c \<leftarrow> make_signer 3;
     notary \<leftarrow> make_signer 4;
     let root_key = sg_public_key human;
     c0 \<leftarrow> chain_issue P human (named ''human:alice'') (charge_scope 10000 3);
     c1 \<leftarrow> unwrap (attenuate P c0 human (named ''agent:a@org1'') (sg_public_key a) (charge_scope 5000 2) ''book travel'');
     c2 \<leftarrow> unwrap (attenuate P c1 a (named ''agent:b@org2'') (sg_public_key b) (charge_scope 5000 1) ''charge airline'');
     c3 \<leftarrow> unwrap (attenuate P c2 b (named ''agent:c@org3'') (sg_public_key c) (charge_scope 4000 0) ''settle fare'');
     asserts (is_ok (chain_verify P c3 root_key));
     let action = fill 42;
     (r0, w0) \<leftarrow> witness_root P witness_new;
     let receipt = \<lparr>chain_digest_of = chain_digest P c3, action_digest = action, nonce = fill 7, prev_root = r0\<rparr>;
     let (idx, w1) = witness_append P w0 receipt;
     (pf, w2) \<leftarrow> prove_inclusion P w1 idx;
     proof \<leftarrow> pf;
     (root, w3) \<leftarrow> witness_root P w2;
     completion \<leftarrow> attest P notary (named ''attester:notary'') (chain_digest P c3) action action root proof;
     let pol = policy_third_party [sg_public_key notary];
     let honest = \<lparr>va_chain = c3, va_receipt = receipt, va_completion = completion\<rparr>;
     asserts (is_ok (verify P honest root_key root pol));
     self_report \<leftarrow> attest P c (named ''agent:c@org3'') (chain_digest P c3) action action root proof;
     let self_policy = policy_third_party [sg_public_key c];
     let reported = \<lparr>va_chain = c3, va_receipt = receipt, va_completion = self_report\<rparr>;
     asserts (is_attestation_error (verify P reported root_key root self_policy))}"

text \<open>What the key generators return, call by call, is an argument.\<close>

definition ml_dsa_87_end_to_end :: "prims \<Rightarrow> (nat \<Rightarrow> string + u8 list) \<Rightarrow> unit option" where
  "ml_dsa_87_end_to_end P keygen = run_end_to_end P (\<lambda>n. unwrap (mldsa_generate P (keygen n)))"

definition hybrid_ed25519_mldsa_end_to_end ::
  "prims \<Rightarrow> (nat \<Rightarrow> bytes32 option) \<Rightarrow> (nat \<Rightarrow> string + u8 list) \<Rightarrow> unit option" where
  "hybrid_ed25519_mldsa_end_to_end P rng keygen =
     run_end_to_end P (\<lambda>n. do {
       classical \<leftarrow> unwrap (ed25519_generate P (rng n));
       post_quantum \<leftarrow> unwrap (mldsa_generate P (keygen n));
       unwrap (hybrid_new classical post_quantum)})"

section \<open>It passes under every scheme\<close>

lemma signer_verdict:
  assumes "signer_ok P sg" and c: "built P rk c" and r: "chain_digest_of r = chain_digest P c"
  shows "\<exists>a. attest P sg who (chain_digest P c) (action_digest r) (action_digest r) root pf = Some a \<and>
    (\<forall>ks. verify P \<lparr>va_chain = c, va_receipt = r, va_completion = a\<rparr> rk root (policy_third_party ks) =
      (if \<not> verify_inclusion P r pf root then Inl Omission
       else if sg_public_key sg = executor_key c then Inl (VerifyAttestation NotIndependent)
       else if sg_public_key sg \<notin> set ks then Inl AttesterNotAnchored
       else Inr (fst (chain_tail P c))))"
proof -
  from any_signer.attest_as_signed [OF assms(1)] obtain a where
    a: "attest P sg who (chain_digest P c) (action_digest r) (action_digest r) root pf = Some a" "attestation_signed P a"
      "attester_key a = sg_public_key sg" "ca_role a = ThirdParty" "inclusion a = pf"
      "binding a = (chain_digest P c, action_digest r, action_digest r, root)"
    unfolding attest_def by blast
  from third_party_verdict [OF c r a(6,2,4)] a(1,3,5) show ?thesis by (intro exI [of _ a]) simp
qed

lemma run_end_to_end_passes:
  assumes make: "\<And>n. n < 5 \<Longrightarrow> make_signer n = Some (sg n) \<and> signer_ok P (sg n)"
    and apart: "sg_public_key (sg 3) \<noteq> sg_public_key (sg 4)"
  shows "run_end_to_end P make_signer = Some ()"
proof -
  have m: "make_signer 0 = Some (sg 0)" "make_signer 1 = Some (sg 1)" "make_signer 2 = Some (sg 2)"
      "make_signer 3 = Some (sg 3)" "make_signer 4 = Some (sg 4)"
    and ok: "signer_ok P (sg 0)" "signer_ok P (sg 1)" "signer_ok P (sg 2)" "signer_ok P (sg 3)" "signer_ok P (sg 4)"
    using make by simp_all
  have said: "\<not> trim_is_empty ''book travel''" "\<not> trim_is_empty ''charge airline''" "\<not> trim_is_empty ''settle fare''"
    by code_simp+
  from issue_tail [OF ok(1)] obtain c0 h0 where
    0: "chain_issue P (sg 0) (named ''human:alice'') (charge_scope 10000 3) = Some c0"
      "built P (sg_public_key (sg 0)) c0" "chain_tail P c0 = (charge_scope 10000 3, sg_public_key (sg 0), named ''human:alice'', h0)"
    by meson
  from attenuate_step [OF ok(1) 0(2,3) said(1), of "charge_scope 5000 2"] obtain c1 h1 where
    1: "attenuate P c0 (sg 0) (named ''agent:a@org1'') (sg_public_key (sg 1)) (charge_scope 5000 2) ''book travel'' = Inr c1"
      "built P (sg_public_key (sg 0)) c1" "chain_tail P c1 = (charge_scope 5000 2, sg_public_key (sg 1), named ''agent:a@org1'', h1)"
    by simp meson
  from attenuate_step [OF ok(2) 1(2,3) said(2), of "charge_scope 5000 1"] obtain c2 h2 where
    2: "attenuate P c1 (sg 1) (named ''agent:b@org2'') (sg_public_key (sg 2)) (charge_scope 5000 1) ''charge airline'' = Inr c2"
      "built P (sg_public_key (sg 0)) c2" "chain_tail P c2 = (charge_scope 5000 1, sg_public_key (sg 2), named ''agent:b@org2'', h2)"
    by simp meson
  from attenuate_step [OF ok(3) 2(2,3) said(3), of "charge_scope 4000 0"] obtain c3 h3 where
    3: "attenuate P c2 (sg 2) (named ''agent:c@org3'') (sg_public_key (sg 3)) (charge_scope 4000 0) ''settle fare'' = Inr c3"
      "built P (sg_public_key (sg 0)) c3" "chain_tail P c3 = (charge_scope 4000 0, sg_public_key (sg 3), named ''agent:c@org3'', h3)"
    by simp meson
  have executor: "executor_key c3 = sg_public_key (sg 3)"
    using executor_key_tail [OF _ 3(3)] attenuate_shape [OF 3(1)] by auto
  let ?r = "\<lparr>chain_digest_of = chain_digest P c3, action_digest = fill 42, nonce = fill 7, prev_root = empty_root P\<rparr>"
  from first_logged [of P ?r] obtain w0 w1 w2 w3 where
    w: "witness_root P witness_new = Some (empty_root P, w0)" "witness_append P w0 ?r = (0, w1)"
      "prove_inclusion P w1 0 = Some (Some first_proof, w2)" "witness_root P w2 = Some (log_root P [?r], w3)"
    by blast
  have incl: "verify_inclusion P ?r first_proof (log_root P [?r])"
    by (simp add: verify_inclusion_iff log_root_def max_proof_path_def)
  note verdict = signer_verdict [OF _ 3(2), of _ ?r _ "log_root P [?r]" first_proof]
  from verdict [OF ok(5), of "named ''attester:notary''"] incl executor apart obtain a where
    a: "attest P (sg 4) (named ''attester:notary'') (chain_digest P c3) (fill 42) (fill 42) (log_root P [?r]) first_proof = Some a"
      "is_ok (verify P \<lparr>va_chain = c3, va_receipt = ?r, va_completion = a\<rparr> (sg_public_key (sg 0)) (log_root P [?r])
         (policy_third_party [sg_public_key (sg 4)]))" by auto
  from verdict [OF ok(4), of "named ''agent:c@org3''"] incl executor obtain s where
    s: "attest P (sg 3) (named ''agent:c@org3'') (chain_digest P c3) (fill 42) (fill 42) (log_root P [?r]) first_proof = Some s"
      "is_attestation_error (verify P \<lparr>va_chain = c3, va_receipt = ?r, va_completion = s\<rparr> (sg_public_key (sg 0)) (log_root P [?r])
         (policy_third_party [sg_public_key (sg 3)]))" by auto
  show ?thesis
    using chain_verify_ok [OF built_ok [OF 3(2)]]
    by (simp add: run_end_to_end_def m 0(1) 1(1) 2(1) 3(1) w Let_def a s asserts_def del: One_nat_def)
qed

lemma ml_dsa_passes:
  assumes "\<And>n. n < 5 \<Longrightarrow> keygen n = Inr (sk n) \<and> mldsa_good P (sk n)" and "ml_public P (sk 3) \<noteq> ml_public P (sk 4)"
  shows "ml_dsa_87_end_to_end P keygen = Some ()"
  unfolding ml_dsa_87_end_to_end_def
proof (rule run_end_to_end_passes)
  show "unwrap (mldsa_generate P (keygen n)) = Some (mldsa_signer P (sk n)) \<and> signer_ok P (mldsa_signer P (sk n))" if "n < 5" for n
    using assms(1) [OF that] mldsa.ok by (simp add: mldsa_generate_def)
  show "sg_public_key (mldsa_signer P (sk 3)) \<noteq> sg_public_key (mldsa_signer P (sk 4))"
    using assms(2) by (simp add: mldsa_signer_def)
qed

lemma hybrid_new_frame:
  "hybrid_new c q = Inr h \<Longrightarrow>
     frame_two (pk_algorithm (sg_public_key c)) (pk_bytes (sg_public_key c))
       (pk_algorithm (sg_public_key q)) (pk_bytes (sg_public_key q)) = Inr (pk_bytes (sg_public_key h))"
  by (auto simp: hybrid_new_def Let_def and_then_Inr_iff)

lemma hybrid_passes:
  assumes ok: "\<And>n. n < 5 \<Longrightarrow> rng n = Some (sd n) \<and> keygen n = Inr (sk n) \<and>
      hybrid_good P (ed25519_from_seed P (sd n), mldsa_signer P (sk n), h n)"
    and apart: "ed_public P (sd 3) \<noteq> ed_public P (sd 4) \<or> ml_public P (sk 3) \<noteq> ml_public P (sk 4)"
  shows "hybrid_ed25519_mldsa_end_to_end P rng keygen = Some ()"
  unfolding hybrid_ed25519_mldsa_end_to_end_def
proof (rule run_end_to_end_passes)
  show "(do {
       classical \<leftarrow> unwrap (ed25519_generate P (rng n));
       post_quantum \<leftarrow> unwrap (mldsa_generate P (keygen n));
       unwrap (hybrid_new classical post_quantum)}) = Some (h n) \<and> signer_ok P (h n)" if "n < 5" for n
    using ok [OF that] hybrid.ok [of P "(ed25519_from_seed P (sd n), mldsa_signer P (sk n), h n)"]
    by (auto simp: ed25519_generate_def mldsa_generate_def hybrid_good_def)
  have frame: "frame_two Ed25519 (ed_public P (sd n)) MlDsa87 (ml_public P (sk n)) = Inr (pk_bytes (sg_public_key (h n)))"
    if "n < 5" for n
  proof -
    from ok [OF that] have "hybrid_new (ed25519_from_seed P (sd n)) (mldsa_signer P (sk n)) = Inr (h n)"
      by (simp add: hybrid_good_def)
    from hybrid_new_frame [OF this] show ?thesis by (simp add: ed25519_from_seed_def mldsa_signer_def)
  qed
  show "sg_public_key (h 3) \<noteq> sg_public_key (h 4)"
  proof
    assume "sg_public_key (h 3) = sg_public_key (h 4)"
    with frame [of 4] have "frame_two Ed25519 (ed_public P (sd 4)) MlDsa87 (ml_public P (sk 4)) =
        Inr (pk_bytes (sg_public_key (h 3)))" by simp
    from frame_two_inject [OF frame [of 3] this] apart show False by simp
  qed
qed

text \<open>
  What the two tests rely on: the generators return working keys, the hybrid of each pair
  fits its frame, and the executor and the notary do not get the same ML-DSA key.
\<close>

definition generators_ok :: "prims \<Rightarrow> (nat \<Rightarrow> bytes32 option) \<Rightarrow> (nat \<Rightarrow> string + u8 list) \<Rightarrow> bool" where
  "generators_ok P rng keygen \<longleftrightarrow>
     (\<forall>n \<in> {..<5}. \<exists>sd sk h. rng n = Some sd \<and> keygen n = Inr sk \<and> mldsa_good P sk \<and>
        hybrid_good P (ed25519_from_seed P sd, mldsa_signer P sk, h)) \<and>
     ml_public P (projr (keygen 3)) \<noteq> ml_public P (projr (keygen 4))"

lemma pq_tests_pass:
  assumes "generators_ok P rng keygen"
  shows "ml_dsa_87_end_to_end P keygen = Some ()" and "hybrid_ed25519_mldsa_end_to_end P rng keygen = Some ()"
proof -
  let ?sk = "\<lambda>n. projr (keygen n)" and ?sd = "\<lambda>n. the (rng n)"
  have keys: "keygen n = Inr (?sk n) \<and> mldsa_good P (?sk n)" if "n < 5" for n
    using assms that by (force simp: generators_ok_def)
  have apart: "ml_public P (?sk 3) \<noteq> ml_public P (?sk 4)" using assms by (simp add: generators_ok_def)
  show "ml_dsa_87_end_to_end P keygen = Some ()" by (rule ml_dsa_passes [OF keys apart])
  have "\<exists>h. rng n = Some (?sd n) \<and> keygen n = Inr (?sk n) \<and>
      hybrid_good P (ed25519_from_seed P (?sd n), mldsa_signer P (?sk n), h)" if "n < 5" for n
    using assms that by (force simp: generators_ok_def)
  then obtain h where h: "\<And>n. n < 5 \<Longrightarrow> rng n = Some (?sd n) \<and> keygen n = Inr (?sk n) \<and>
      hybrid_good P (ed25519_from_seed P (?sd n), mldsa_signer P (?sk n), h n)" by metis
  show "hybrid_ed25519_mldsa_end_to_end P rng keygen = Some ()"
    by (rule hybrid_passes [where sd = ?sd and sk = ?sk and h = h]) (use h apart in auto)
qed

end
