(* ===== verification/Store.thy ===== *)
theory Store
  imports Witness Chain
begin

text \<open>
  The durable store of \<^verbatim>\<open>services/witness\<close>: a file of length-prefixed receipts that is
  replayed into the log on start. The file is its bytes; what the operating system may do
  to a write is an argument of the operation.
\<close>

section \<open>Receipts read back\<close>

text \<open>The derived readers: a byte, a byte array, and a struct from an object or an array.\<close>

fun json_u8 :: "json \<Rightarrow> u8 option" where
  "json_u8 (JNum n) = (if n < 256 then Some (of_nat n) else None)"
| "json_u8 _ = None"

definition json_digest :: "json \<Rightarrow> digest option" where
  "json_digest j = Option.bind (json_list json_u8 j) try_bytes32"

definition receipt_of_fields :: "json \<Rightarrow> json \<Rightarrow> json \<Rightarrow> json \<Rightarrow> action_receipt option" where
  "receipt_of_fields c a n p =
     (case (json_digest c, json_digest a, json_digest n, json_digest p) of
        (Some c', Some a', Some n', Some p') \<Rightarrow>
          Some \<lparr>chain_digest_of = c', action_digest = a', nonce = n', prev_root = p'\<rparr>
      | _ \<Rightarrow> None)"

fun receipt_of_json :: "json \<Rightarrow> action_receipt option" where
  "receipt_of_json (JObj kvs) =
     (case (json_field ''chain_digest'' kvs, json_field ''action_digest'' kvs, json_field ''nonce'' kvs,
            json_field ''prev_root'' kvs) of
        (Some (Some c), Some (Some a), Some (Some n), Some (Some p)) \<Rightarrow> receipt_of_fields c a n p
      | _ \<Rightarrow> None)"
| "receipt_of_json (JArr [c, a, n, p]) = receipt_of_fields c a n p"
| "receipt_of_json _ = None"

definition receipt_of_bytes :: "prims \<Rightarrow> u8 list \<Rightarrow> action_receipt option" where
  "receipt_of_bytes P bs = Option.bind (json_parse P bs) receipt_of_json"

section \<open>Opening and appending\<close>

datatype io_error =
    InvalidData
  | OsError string

text \<open>\<^verbatim>\<open>committed\<close> equals \<^verbatim>\<open>cursor\<close> wherever the loop is left.\<close>

function replay :: "prims \<Rightarrow> u8 list \<Rightarrow> nat \<Rightarrow> witness \<Rightarrow> io_error + (nat \<times> witness)" where
  "replay P bytes cursor w =
     (if cursor + 4 \<le> length bytes then
        (let len = unat (u32_from_le (take 4 (drop cursor bytes))); body = cursor + 4
         in if length bytes < body + len then Inr (cursor, w)
            else
              (case receipt_of_bytes P (take len (drop body bytes)) of
                 Some r \<Rightarrow> replay P bytes (body + len) (snd (witness_append P w r))
               | None \<Rightarrow> if body + len < length bytes then Inl InvalidData else Inr (cursor, w)))
      else Inr (cursor, w))"
  by pat_completeness auto
termination
  by (relation "measure (\<lambda>(P, bytes, cursor, w). length bytes - cursor)") auto

declare replay.simps [simp del]

datatype file_read =
    FileBytes "u8 list"
  | FileMissing
  | ReadFailed string

text \<open>
  The two later arguments are the failures of opening for append and of the truncation
  with its fsync; the fsync of the directory is best effort and has no effect here. The
  result is the file as it stands.
\<close>

definition store_open ::
  "prims \<Rightarrow> file_read \<Rightarrow> string option \<Rightarrow> string option \<Rightarrow> witness \<Rightarrow> io_error + (u8 list \<times> witness)" where
  "store_open P contents open_failure truncate_failure w =
     and_then (case contents of
                 FileBytes b \<Rightarrow> Inr b
               | FileMissing \<Rightarrow> Inr []
               | ReadFailed e \<Rightarrow> Inl (OsError e)) (\<lambda>bytes.
     and_then (replay P bytes 0 w) (\<lambda>(committed, w').
       (case open_failure of
          Some e \<Rightarrow> Inl (OsError e)
        | None \<Rightarrow>
            if committed < length bytes then
              (case truncate_failure of
                 Some e \<Rightarrow> Inl (OsError e)
               | None \<Rightarrow> Inr (take committed bytes, w'))
            else Inr (bytes, w'))))"

definition frame :: "prims \<Rightarrow> action_receipt \<Rightarrow> u8 list" where
  "frame P r = u32_le_bytes (of_nat (length (canonical_bytes P r))) @ canonical_bytes P r"

text \<open>
  The two writes and the fsync either all succeed, or one of them fails after some bytes
  of the frame have reached the file.
\<close>

datatype write_outcome =
    Written
  | WriteFailed nat string

definition store_append ::
  "prims \<Rightarrow> u8 list \<Rightarrow> action_receipt \<Rightarrow> write_outcome \<Rightarrow> (io_error + unit) \<times> u8 list" where
  "store_append P file r out =
     (if 2 ^ 32 \<le> length (canonical_bytes P r) then (Inl InvalidData, file)
      else
        (case out of
           Written \<Rightarrow> (Inr (), file @ frame P r)
         | WriteFailed n e \<Rightarrow> (Inl (OsError e), file @ take n (frame P r))))"

section \<open>Facts\<close>

lemma json_u8_byte [simp]: "json_u8 (JNum (unat b)) = Some b"
  using unsigned_less [of b] by simp

lemma json_digest_array [simp]: "json_digest (array_json d) = Some d"
  using those_map_some [of Some "\<lambda>x. x" "array_bytes d"]
  by (simp add: json_digest_def array_json_def bytes_json_def comp_def del: json_u8.simps)

lemma receipt_of_json_json [simp]: "receipt_of_json (action_receipt_json r) = Some r"
  by (simp add: action_receipt_json_def json_field_def receipt_of_fields_def)

text \<open>
  A receipt the store can hold: its canonical text is not too long and reads back as the
  receipt, which is what \<^verbatim>\<open>serde_json\<close> documents of any value it is given the text of.
\<close>

definition storable :: "prims \<Rightarrow> action_receipt \<Rightarrow> bool" where
  "storable P r \<longleftrightarrow>
     length (canonical_bytes P r) < 2 ^ 32 \<and> receipt_of_bytes P (canonical_bytes P r) = Some r"

definition frames :: "prims \<Rightarrow> action_receipt list \<Rightarrow> u8 list" where
  "frames P rs = concat (map (frame P) rs)"

lemma frames_simps [simp]:
  "frames P [] = []" "frames P (r # rs) = frame P r @ frames P rs" "frames P (rs @ ss) = frames P rs @ frames P ss"
  by (simp_all add: frames_def)

lemma length_frame: "length (frame P r) = 4 + length (canonical_bytes P r)"
  by (simp add: frame_def)

fun appended :: "prims \<Rightarrow> witness \<Rightarrow> action_receipt list \<Rightarrow> witness" where
  "appended P w [] = w"
| "appended P w (r # rs) = appended P (snd (witness_append P w r)) rs"

lemma appended_append [simp]: "appended P w (rs @ ss) = appended P (appended P w rs) ss"
  by (induction rs arbitrary: w) auto

lemma appended_ok:
  "witness_ok P w \<Longrightarrow> witness_ok P (appended P w rs) \<and>
     leaf_hashes (appended P w rs) = leaf_hashes w @ map (\<lambda>r. hash_leaf P (canonical_bytes P r)) rs"
proof (induction rs arbitrary: w)
  case (Cons r rs)
  obtain i w' where w': "witness_append P w r = (i, w')" by fastforce
  with Cons.IH [of w'] witness_append_ok [OF Cons.prems w'] show ?case by simp
qed simp

text \<open>Bytes at the end of a file that are no complete frame.\<close>

definition torn :: "u8 list \<Rightarrow> bool" where
  "torn t \<longleftrightarrow> length t < 4 \<or> length t < 4 + unat (u32_from_le (take 4 t))"

lemma replay_torn: "torn t \<Longrightarrow> replay P (pre @ t) (length pre) w = Inr (length pre, w)"
  by (subst replay.simps) (auto simp: torn_def Let_def)

lemma replay_frame:
  assumes "storable P r"
  shows "replay P (pre @ frame P r @ post) (length pre) w =
    replay P (pre @ frame P r @ post) (length (pre @ frame P r)) (snd (witness_append P w r))"
proof -
  have "unat (of_nat (length (canonical_bytes P r)) :: u32) = length (canonical_bytes P r)"
    using assms by (simp add: storable_def unat_of_nat)
  then show ?thesis
    using assms by (subst replay.simps) (simp add: frame_def storable_def Let_def add.assoc)
qed

lemma replay_frames:
  assumes "\<forall>r \<in> set rs. storable P r" and "torn t"
  shows "replay P (pre @ frames P rs @ t) (length pre) w = Inr (length (pre @ frames P rs), appended P w rs)"
  using assms
proof (induction rs arbitrary: pre w)
  case Nil
  then show ?case by (simp add: replay_torn)
next
  case (Cons r rs)
  then show ?case
    using replay_frame [of P r pre "frames P rs @ t" w] Cons.IH [of "pre @ frame P r" "snd (witness_append P w r)"]
    by simp
qed

lemma store_open_frames:
  assumes "\<forall>r \<in> set rs. storable P r" and "torn t"
  shows "store_open P (FileBytes (frames P rs @ t)) None None w = Inr (frames P rs, appended P w rs)"
  using replay_frames [OF assms, of "[]" w] by (simp add: store_open_def)

lemma torn_nil [simp]: "torn []"
  by (simp add: torn_def)

lemma torn_take: "storable P r \<Longrightarrow> n < length (frame P r) \<Longrightarrow> torn (take n (frame P r))"
  by (auto simp: torn_def frame_def storable_def min_def unat_of_nat not_less split: if_splits)

text \<open>
  Recovery: a crash after any number of bytes of a frame leaves the log before the append
  or the log after it, and a file on a frame boundary.
\<close>

lemma crash_recovery:
  assumes "\<forall>r' \<in> set rs. storable P r'" and "storable P r"
  shows "\<exists>rs'. rs' \<in> {rs, rs @ [r]} \<and>
    store_open P (FileBytes (frames P rs @ take n (frame P r))) None None w = Inr (frames P rs', appended P w rs')"
proof (cases "n < length (frame P r)")
  case True
  with store_open_frames [OF assms(1) torn_take [OF assms(2)]] show ?thesis by blast
next
  case False
  have "\<forall>r' \<in> set (rs @ [r]). storable P r'" using assms by simp
  from store_open_frames [OF this torn_nil] False show ?thesis
    by (intro exI [of _ "rs @ [r]"]) simp
qed

text \<open>
  A damaged length in the middle of the file that reaches past its end counts as a torn
  tail as well: every later entry is cut off, and nothing is reported.
\<close>

lemma long_length_cuts:
  assumes "\<forall>r \<in> set rs. storable P r" and "length rest < unat n"
  shows "store_open P (FileBytes (frames P rs @ u32_le_bytes n @ rest)) None None w = Inr (frames P rs, appended P w rs)"
  using store_open_frames [OF assms(1), of "u32_le_bytes n @ rest"] assms(2) by (simp add: torn_def)

text \<open>
  A failed append may leave a torn frame in a file that stays open. A single byte of it
  is enough for the frame of the next successful append to be read as torn.
\<close>

lemma torn_before_frame:
  assumes "0 < length (canonical_bytes P r)" and "length (canonical_bytes P r) < 2 ^ 24"
  shows "torn (take 1 (frame P r) @ frame P r)"
proof -
  let ?L = "length (canonical_bytes P r)"
  obtain a b c d where bytes: "u32_le_bytes (of_nat ?L) = [a, b, c, d]"
    by (simp add: u32_le_bytes_def u32_be_bytes_def)
  have "be_value (rev (u32_le_bytes (of_nat ?L :: u32))) = ?L"
    using assms by (simp add: u32_le_bytes_def be_value_u32_be unat_of_nat)
  then have L: "unat a + 256 * unat b + 65536 * unat c + 16777216 * unat d = ?L"
    by (simp add: bytes be_value_def)
  then have d: "unat d = 0" using assms by simp
  have "unat (u32_from_le [a, a, b, c]) = unat a + 256 * unat a + 65536 * unat b + 16777216 * unat c"
  proof -
    have "be_value [c, b, a, a] < 2 ^ 32" using be_value_less [of "[c, b, a, a]"] by simp
    then have "unat (u32_from_le [a, a, b, c]) = be_value [c, b, a, a]"
      by (simp add: u32_from_le_def u32_from_be_def unat_of_nat)
    then show ?thesis by (simp add: be_value_def)
  qed
  moreover have "?L + 1 < unat a + 256 * unat a + 65536 * unat b + 16777216 * unat c"
    using L d assms(1) by linarith
  ultimately show ?thesis by (simp add: torn_def frame_def bytes)
qed

lemma acked_entry_lost:
  assumes "\<forall>r' \<in> set rs. storable P r'" and "storable P r" and "0 < length (canonical_bytes P r)"
    and "length (canonical_bytes P r) < 2 ^ 24"
  shows "\<exists>f1 f2. store_append P (frames P rs) r (WriteFailed 1 e) = (Inl (OsError e), f1) \<and>
    store_append P f1 r Written = (Inr (), f2) \<and>
    store_open P (FileBytes f2) None None w = Inr (frames P rs, appended P w rs)"
  using assms(4) store_open_frames [OF assms(1) torn_before_frame [OF assms(3,4)], of w]
  by (simp add: store_append_def)

end
