(* ===== verification/Wire.thy ===== *)
theory Wire
  imports Attestation Store Revlog Revocation "HOL-Library.Monad_Syntax" "HOL-Library.Char_ord" "HOL-Library.List_Lexorder"
begin

text \<open>
  The wire forms of the types that the crates derive \<^verbatim>\<open>Serialize\<close> and \<^verbatim>\<open>Deserialize\<close>
  for, as serde documents the derived code: a struct is an object in field order and is
  read from an object, unknown fields ignored, or from an array in field order; a missing
  \<^verbatim>\<open>Option\<close> of an object is \<^verbatim>\<open>None\<close>, any other missing field is an error unless it is marked
  \<^verbatim>\<open>#[serde(default)]\<close>, a repeated one is an error; a unit variant is its name. A reader
  answers \<^verbatim>\<open>None\<close> for any error, whose text is not modelled. One locale states what a
  writer and a reader owe each other and is interpreted for every type.
\<close>

section \<open>Fields\<close>

text \<open>A field of a struct: not in the object, past the end of the array, or a value.\<close>

datatype slot = Absent | Cut | Given json

fun slot_of :: "json option \<Rightarrow> slot" where
  "slot_of None = Absent"
| "slot_of (Some j) = Given j"

fun slots :: "string list \<Rightarrow> json \<Rightarrow> slot list option" where
  "slots names (JObj kvs) = those (map (\<lambda>k. map_option slot_of (json_field k kvs)) names)"
| "slots names (JArr js) =
     (if length js \<le> length names then Some (map Given js @ replicate (length names - length js) Cut) else None)"
| "slots names _ = None"

fun mandatory :: "(json \<Rightarrow> 'a option) \<Rightarrow> slot \<Rightarrow> 'a option" where
  "mandatory f (Given j) = f j"
| "mandatory f _ = None"

fun nullable :: "(json \<Rightarrow> 'a option) \<Rightarrow> json \<Rightarrow> 'a option option" where
  "nullable f JNull = Some None"
| "nullable f j = map_option Some (f j)"

fun optional :: "(json \<Rightarrow> 'a option) \<Rightarrow> slot \<Rightarrow> 'a option option" where
  "optional f Absent = Some None"
| "optional f Cut = None"
| "optional f (Given j) = nullable f j"

fun with_default :: "'a \<Rightarrow> (json \<Rightarrow> 'a option) \<Rightarrow> slot \<Rightarrow> 'a option" where
  "with_default d f (Given j) = f j"
| "with_default d f _ = Some d"

section \<open>Scalars\<close>

fun json_u32 :: "json \<Rightarrow> u32 option" where
  "json_u32 (JNum n) = (if n < 2 ^ 32 then Some (of_nat n) else None)"
| "json_u32 _ = None"

fun json_usize :: "json \<Rightarrow> nat option" where
  "json_usize (JNum n) = (if n < 2 ^ 64 then Some n else None)"
| "json_usize _ = None"

fun json_bool :: "json \<Rightarrow> bool option" where
  "json_bool (JBool b) = Some b"
| "json_bool _ = None"

text \<open>A unit variant: its name, or an object from its name to null.\<close>

fun json_variant :: "(string \<times> 'a) list \<Rightarrow> json \<Rightarrow> 'a option" where
  "json_variant vs (JStr s) = map_of vs s"
| "json_variant vs (JObj [(s, JNull)]) = map_of vs s"
| "json_variant vs _ = None"

definition json_bytes :: "json \<Rightarrow> u8 list option" where
  "json_bytes = json_list json_u8"

text \<open>
  The \<^verbatim>\<open>json!\<close> macro makes values whose objects are sorted by key.
\<close>

primrec by_key :: "json \<Rightarrow> json" where
  "by_key JNull = JNull"
| "by_key (JBool b) = JBool b"
| "by_key (JNum n) = JNum n"
| "by_key (JStr s) = JStr s"
| "by_key (JArr js) = JArr (map by_key js)"
| "by_key (JObj kvs) = JObj (sort_key fst (map (map_prod id by_key) kvs))"

text \<open>A member of an answer, as a client takes it.\<close>

fun member :: "string \<Rightarrow> json \<Rightarrow> json" where
  "member k (JObj kvs) = (case map_of kvs k of Some j \<Rightarrow> j | None \<Rightarrow> JNull)"
| "member k j = JNull"

section \<open>Keys, signatures and chains\<close>

definition algorithm_of_json :: "json \<Rightarrow> algorithm option" where
  "algorithm_of_json = json_variant [(''Ed25519'', Ed25519), (''MlDsa87'', MlDsa87), (''Hybrid'', Hybrid)]"

definition public_key_of_json :: "json \<Rightarrow> public_key option" where
  "public_key_of_json j = do {
     s \<leftarrow> slots [''algorithm'', ''bytes''] j;
     a \<leftarrow> mandatory algorithm_of_json (s ! 0);
     b \<leftarrow> mandatory json_bytes (s ! 1);
     Some \<lparr>pk_algorithm = a, pk_bytes = b\<rparr>}"

definition signature_of_json :: "json \<Rightarrow> signature option" where
  "signature_of_json j = do {
     s \<leftarrow> slots [''algorithm'', ''bytes''] j;
     a \<leftarrow> mandatory algorithm_of_json (s ! 0);
     b \<leftarrow> mandatory json_bytes (s ! 1);
     Some \<lparr>sig_algorithm = a, sig_bytes = b\<rparr>}"

definition principal_of_json :: "json \<Rightarrow> principal option" where
  "principal_of_json j = do {
     s \<leftarrow> slots [''id'', ''display_name''] j;
     i \<leftarrow> mandatory json_string (s ! 0);
     n \<leftarrow> mandatory json_string (s ! 1);
     Some \<lparr>principal_id = i, display_name = n\<rparr>}"

definition scope_of_json :: "json \<Rightarrow> scope option" where
  "scope_of_json j = do {
     s \<leftarrow> slots [''permissions'', ''budget'', ''currency'', ''max_depth'', ''expires_at''] j;
     ps \<leftarrow> mandatory (json_list permission_of_json) (s ! 0);
     b \<leftarrow> optional json_u64 (s ! 1);
     c \<leftarrow> optional json_string (s ! 2);
     d \<leftarrow> mandatory json_u32 (s ! 3);
     e \<leftarrow> mandatory json_u64 (s ! 4);
     Some \<lparr>permissions = ps, budget = b, currency = c, max_depth = d, expires_at = e\<rparr>}"

definition root_block_of_json :: "json \<Rightarrow> root_block option" where
  "root_block_of_json j = do {
     s \<leftarrow> slots [''principal'', ''principal_key'', ''scope'', ''signature''] j;
     p \<leftarrow> mandatory principal_of_json (s ! 0);
     k \<leftarrow> mandatory public_key_of_json (s ! 1);
     sc \<leftarrow> mandatory scope_of_json (s ! 2);
     sig \<leftarrow> mandatory signature_of_json (s ! 3);
     Some \<lparr>rb_principal = p, principal_key = k, rb_scope = sc, rb_signature = sig\<rparr>}"

definition delegation_block_of_json :: "json \<Rightarrow> delegation_block option" where
  "delegation_block_of_json j = do {
     s \<leftarrow> slots [''from'', ''from_key'', ''to'', ''to_key'', ''scope'', ''purpose'', ''prev_block_hash'', ''signature''] j;
     f \<leftarrow> mandatory principal_of_json (s ! 0);
     fk \<leftarrow> mandatory public_key_of_json (s ! 1);
     t \<leftarrow> mandatory principal_of_json (s ! 2);
     tk \<leftarrow> mandatory public_key_of_json (s ! 3);
     sc \<leftarrow> mandatory scope_of_json (s ! 4);
     pur \<leftarrow> mandatory json_string (s ! 5);
     h \<leftarrow> mandatory json_bytes (s ! 6);
     sig \<leftarrow> mandatory signature_of_json (s ! 7);
     Some \<lparr>db_from = f, from_key = fk, db_to = t, to_key = tk, db_scope = sc, purpose = pur,
           prev_block_hash = h, db_signature = sig\<rparr>}"

definition chain_of_json :: "json \<Rightarrow> chain option" where
  "chain_of_json j = do {
     s \<leftarrow> slots [''root'', ''delegations''] j;
     r \<leftarrow> mandatory root_block_of_json (s ! 0);
     ds \<leftarrow> mandatory (json_list delegation_block_of_json) (s ! 1);
     Some \<lparr>chain_root = r, delegations = ds\<rparr>}"

section \<open>The laws\<close>

lemma nullable_value: "j \<noteq> JNull \<Longrightarrow> nullable f j = map_option Some (f j)"
  by (cases j) simp_all

text \<open>
  A writer and a reader of one type: what is written of a value the type can hold reads
  back as that value.
\<close>

locale wire_form =
  fixes enc :: "'a \<Rightarrow> json" and dec :: "json \<Rightarrow> 'a option" and fits :: "'a \<Rightarrow> bool"
  assumes dec_enc: "fits a \<Longrightarrow> dec (enc a) = Some a"
begin

lemma dec_list: "\<forall>a \<in> set xs. fits a \<Longrightarrow> json_list dec (list_json enc xs) = Some xs"
  by (induction xs) (simp_all add: list_json_def dec_enc)

lemma dec_given: "fits a \<Longrightarrow> mandatory dec (Given (enc a)) = Some a"
  by (simp add: dec_enc)

lemma dec_option:
  assumes "\<And>a. enc a \<noteq> JNull" and "\<forall>a \<in> set_option x. fits a"
  shows "nullable dec (option_json enc x) = Some x"
proof (cases x)
  case None
  then show ?thesis by (simp add: option_json_def)
next
  case (Some a)
  with assms(2) have "dec (enc a) = Some a" by (simp add: dec_enc)
  with nullable_value [OF assms(1), of dec a] Some show ?thesis by (simp add: option_json_def)
qed

text \<open>Different values have different wire forms.\<close>

lemma enc_inject: "fits a \<Longrightarrow> fits b \<Longrightarrow> enc a = enc b \<longleftrightarrow> a = b"
  by (metis dec_enc option.inject)

end

section \<open>Scalars and lists\<close>

lemma json_variant_inverse: "distinct (map fst vs) \<Longrightarrow> (s, a) \<in> set vs \<Longrightarrow> json_variant vs (JStr s) = Some a"
  by simp

interpretation bool_form: wire_form JBool json_bool "\<lambda>_. True"
  by unfold_locales simp

interpretation string_form: wire_form JStr json_string "\<lambda>_. True"
  by unfold_locales simp

interpretation usize_form: wire_form JNum json_usize "\<lambda>n. n < 2 ^ 64"
  by unfold_locales simp

interpretation u64_form: wire_form word_json json_u64 "\<lambda>_. True"
  by unfold_locales simp

interpretation u32_form: wire_form word_json json_u32 "\<lambda>_. True"
proof (unfold_locales)
  fix w :: u32
  show "json_u32 (word_json w) = Some w"
    using unsigned_less [of w, where ?'a = nat] by (simp add: word_json_def)
qed

interpretation digest_form: wire_form array_json json_digest "\<lambda>_. True"
  by unfold_locales simp

lemma json_bytes_json: "json_bytes (bytes_json bs) = Some bs"
proof -
  have "json_u8 (JNum (unat b)) = Some b" for b :: u8
    using unsigned_less [of b, where ?'a = nat] by simp
  then show ?thesis
    using those_map_some [of Some "\<lambda>x. x" bs] by (simp add: json_bytes_def bytes_json_def comp_def del: json_u8.simps)
qed

interpretation bytes_form: wire_form bytes_json json_bytes "\<lambda>_. True"
  by unfold_locales (simp add: json_bytes_json)

interpretation permission_form: wire_form permission_json permission_of_json "\<lambda>_. True"
  by unfold_locales (simp add: permission_of_json_json)

interpretation algorithm_form: wire_form algorithm_json algorithm_of_json "\<lambda>_. True"
proof (unfold_locales)
  fix a :: algorithm
  show "algorithm_of_json (algorithm_json a) = Some a"
    by (cases a) (simp_all add: algorithm_of_json_def algorithm_json_def)
qed

section \<open>Structs\<close>

lemmas struct_simps = json_field_def algorithm_form.dec_enc string_form.dec_enc bytes_form.dec_enc digest_form.dec_enc
  u64_form.dec_enc u32_form.dec_enc bool_form.dec_enc

interpretation public_key_form: wire_form public_key_json public_key_of_json "\<lambda>_. True"
  by unfold_locales (simp add: public_key_of_json_def public_key_json_def struct_simps del: json_string.simps)

interpretation signature_form: wire_form signature_json signature_of_json "\<lambda>_. True"
  by unfold_locales (simp add: signature_of_json_def signature_json_def struct_simps)

interpretation principal_form: wire_form principal_json principal_of_json "\<lambda>_. True"
  by unfold_locales (simp add: principal_of_json_def principal_json_def struct_simps)

interpretation scope_form: wire_form scope_json scope_of_json "\<lambda>_. True"
proof (unfold_locales)
  fix s :: scope
  have opt: "nullable json_u64 (option_json word_json (budget s)) = Some (budget s)"
    "nullable json_string (option_json JStr (currency s)) = Some (currency s)"
    by (rule u64_form.dec_option string_form.dec_option; simp)+
  then show "scope_of_json (scope_json s) = Some s"
    using permission_form.dec_list [of "permissions s"]
    by (simp add: scope_of_json_def scope_json_def struct_simps)
qed

interpretation root_block_form: wire_form root_block_json root_block_of_json "\<lambda>_. True"
  by unfold_locales
    (simp add: root_block_of_json_def root_block_json_def json_field_def principal_form.dec_enc
      public_key_form.dec_enc scope_form.dec_enc signature_form.dec_enc)

interpretation delegation_block_form: wire_form delegation_block_json delegation_block_of_json "\<lambda>_. True"
  by unfold_locales
    (simp add: delegation_block_of_json_def delegation_block_json_def struct_simps principal_form.dec_enc
      public_key_form.dec_enc scope_form.dec_enc signature_form.dec_enc)

interpretation chain_form: wire_form chain_json chain_of_json "\<lambda>_. True"
proof (unfold_locales)
  fix c :: chain
  show "chain_of_json (chain_json c) = Some c"
    using delegation_block_form.dec_list [of "delegations c"]
    by (simp add: chain_of_json_def chain_json_def json_field_def root_block_form.dec_enc)
qed

section \<open>Receipts, log proofs and attestations\<close>

definition path_step_of_json :: "json \<Rightarrow> path_step option" where
  "path_step_of_json j = do {
     s \<leftarrow> slots [''sibling'', ''sibling_is_left''] j;
     d \<leftarrow> mandatory json_digest (s ! 0);
     b \<leftarrow> mandatory json_bool (s ! 1);
     Some \<lparr>sibling = d, sibling_is_left = b\<rparr>}"

definition inclusion_proof_of_json :: "json \<Rightarrow> inclusion_proof option" where
  "inclusion_proof_of_json j = do {
     s \<leftarrow> slots [''leaf_index'', ''tree_size'', ''path''] j;
     i \<leftarrow> mandatory json_usize (s ! 0);
     n \<leftarrow> mandatory json_usize (s ! 1);
     p \<leftarrow> mandatory (json_list path_step_of_json) (s ! 2);
     Some \<lparr>leaf_index = i, tree_size = n, path = p\<rparr>}"

definition consistency_proof_json :: "consistency_proof \<Rightarrow> json" where
  "consistency_proof_json p = JObj [(''nodes'', list_json array_json (nodes p))]"

definition consistency_proof_of_json :: "json \<Rightarrow> consistency_proof option" where
  "consistency_proof_of_json j = do {
     s \<leftarrow> slots [''nodes''] j;
     ns \<leftarrow> mandatory (json_list json_digest) (s ! 0);
     Some \<lparr>nodes = ns\<rparr>}"

definition sth_json :: "signed_tree_head \<Rightarrow> json" where
  "sth_json h =
     JObj [(''tree_size'', JNum (sth_size h)), (''root'', array_json (sth_root h)),
           (''signature'', signature_json (sth_signature h))]"

definition sth_of_json :: "json \<Rightarrow> signed_tree_head option" where
  "sth_of_json j = do {
     s \<leftarrow> slots [''tree_size'', ''root'', ''signature''] j;
     n \<leftarrow> mandatory json_usize (s ! 0);
     r \<leftarrow> mandatory json_digest (s ! 1);
     sig \<leftarrow> mandatory signature_of_json (s ! 2);
     Some \<lparr>sth_size = n, sth_root = r, sth_signature = sig\<rparr>}"

definition attester_role_of_json :: "json \<Rightarrow> attester_role option" where
  "attester_role_of_json = json_variant [(''CounterSigned'', CounterSigned), (''ThirdParty'', ThirdParty)]"

definition completion_json :: "completion_attestation \<Rightarrow> json" where
  "completion_json a =
     JObj [(''chain_digest'', array_json (ca_chain_digest a)),
           (''requested_action_digest'', array_json (requested_action_digest a)),
           (''outcome_digest'', array_json (outcome_digest a)),
           (''witnessed_root'', array_json (witnessed_root a)),
           (''inclusion'', inclusion_proof_json (inclusion a)),
           (''attester'', principal_json (attester a)),
           (''attester_key'', public_key_json (attester_key a)),
           (''role'', attester_role_json (ca_role a)),
           (''signature'', signature_json (ca_signature a))]"

definition completion_of_json :: "json \<Rightarrow> completion_attestation option" where
  "completion_of_json j = do {
     s \<leftarrow> slots [''chain_digest'', ''requested_action_digest'', ''outcome_digest'', ''witnessed_root'', ''inclusion'',
        ''attester'', ''attester_key'', ''role'', ''signature''] j;
     cd \<leftarrow> mandatory json_digest (s ! 0);
     req \<leftarrow> mandatory json_digest (s ! 1);
     outc \<leftarrow> mandatory json_digest (s ! 2);
     wr \<leftarrow> mandatory json_digest (s ! 3);
     incl \<leftarrow> mandatory inclusion_proof_of_json (s ! 4);
     att \<leftarrow> mandatory principal_of_json (s ! 5);
     key \<leftarrow> mandatory public_key_of_json (s ! 6);
     role \<leftarrow> mandatory attester_role_of_json (s ! 7);
     sig \<leftarrow> mandatory signature_of_json (s ! 8);
     Some \<lparr>ca_chain_digest = cd, requested_action_digest = req, outcome_digest = outc, witnessed_root = wr,
           inclusion = incl, attester = att, attester_key = key, ca_role = role, ca_signature = sig\<rparr>}"

definition threshold_attestation_json :: "threshold_attestation \<Rightarrow> json" where
  "threshold_attestation_json t =
     JObj [(''attestations'', list_json completion_json (attestations t)), (''threshold'', JNum (ta_threshold t))]"

definition threshold_attestation_of_json :: "json \<Rightarrow> threshold_attestation option" where
  "threshold_attestation_of_json j = do {
     s \<leftarrow> slots [''attestations'', ''threshold''] j;
     as \<leftarrow> mandatory (json_list completion_of_json) (s ! 0);
     k \<leftarrow> mandatory json_usize (s ! 1);
     Some \<lparr>attestations = as, ta_threshold = k\<rparr>}"

text \<open>The sizes a proof carries are \<^verbatim>\<open>usize\<close> values.\<close>

definition proof_fits :: "inclusion_proof \<Rightarrow> bool" where
  "proof_fits p \<longleftrightarrow> leaf_index p < 2 ^ 64 \<and> tree_size p < 2 ^ 64"

interpretation receipt_form: wire_form action_receipt_json receipt_of_json "\<lambda>_. True"
  by unfold_locales simp

interpretation path_step_form: wire_form path_step_json path_step_of_json "\<lambda>_. True"
  by unfold_locales (simp add: path_step_of_json_def path_step_json_def struct_simps)

interpretation inclusion_form: wire_form inclusion_proof_json inclusion_proof_of_json proof_fits
proof (unfold_locales)
  fix p
  assume "proof_fits p"
  then show "inclusion_proof_of_json (inclusion_proof_json p) = Some p"
    using path_step_form.dec_list [of "path p"]
    by (simp add: inclusion_proof_of_json_def inclusion_proof_json_def json_field_def proof_fits_def)
qed

interpretation consistency_form: wire_form consistency_proof_json consistency_proof_of_json "\<lambda>_. True"
proof (unfold_locales)
  fix p
  show "consistency_proof_of_json (consistency_proof_json p) = Some p"
    using digest_form.dec_list [of "nodes p"]
    by (simp add: consistency_proof_of_json_def consistency_proof_json_def json_field_def)
qed

interpretation sth_form: wire_form sth_json sth_of_json "\<lambda>h. sth_size h < 2 ^ 64"
  by unfold_locales (simp add: sth_of_json_def sth_json_def struct_simps signature_form.dec_enc)

interpretation attester_role_form: wire_form attester_role_json attester_role_of_json "\<lambda>_. True"
proof (unfold_locales)
  fix r
  show "attester_role_of_json (attester_role_json r) = Some r"
    by (cases r) (simp_all add: attester_role_of_json_def)
qed

interpretation completion_form: wire_form completion_json completion_of_json "\<lambda>a. proof_fits (inclusion a)"
  by unfold_locales
    (simp add: completion_of_json_def completion_json_def struct_simps inclusion_form.dec_enc
      principal_form.dec_enc public_key_form.dec_enc attester_role_form.dec_enc signature_form.dec_enc)

interpretation threshold_form: wire_form threshold_attestation_json threshold_attestation_of_json
  "\<lambda>t. ta_threshold t < 2 ^ 64 \<and> (\<forall>a \<in> set (attestations t). proof_fits (inclusion a))"
proof (unfold_locales)
  fix t :: threshold_attestation
  assume "ta_threshold t < 2 ^ 64 \<and> (\<forall>a \<in> set (attestations t). proof_fits (inclusion a))"
  then show "threshold_attestation_of_json (threshold_attestation_json t) = Some t"
    using completion_form.dec_list [of "attestations t"]
    by (simp add: threshold_attestation_of_json_def threshold_attestation_json_def json_field_def)
qed

section \<open>Revocations\<close>

text \<open>A one-field tuple struct is its field; a \<^verbatim>\<open>BTreeSet\<close> an ascending array.\<close>

definition revocation_id_json :: "revocation_id \<Rightarrow> json" where
  "revocation_id_json i = bytes_json (rev_bytes i)"

definition revocation_id_of_json :: "json \<Rightarrow> revocation_id option" where
  "revocation_id_of_json j = map_option RevocationId (json_bytes j)"

definition log_entry_json :: "log_entry \<Rightarrow> json" where
  "log_entry_json e =
     JObj [(''revoked'', revocation_id_json (le_revoked e)), (''revoked_at'', word_json (revoked_at e)),
           (''reason'', JStr (le_reason e))]"

definition log_entry_of_json :: "json \<Rightarrow> log_entry option" where
  "log_entry_of_json j = do {
     s \<leftarrow> slots [''revoked'', ''revoked_at'', ''reason''] j;
     i \<leftarrow> mandatory revocation_id_of_json (s ! 0);
     t \<leftarrow> mandatory json_u64 (s ! 1);
     r \<leftarrow> mandatory json_string (s ! 2);
     Some \<lparr>le_revoked = i, revoked_at = t, le_reason = r\<rparr>}"

definition snapshot_json :: "snapshot \<Rightarrow> json" where
  "snapshot_json sn =
     JObj [(''epoch'', word_json (sn_epoch sn)), (''published_at'', word_json (published_at sn)),
           (''revoked'', list_json revocation_id_json (sorted_list_of_set (sn_revoked sn))),
           (''signature'', signature_json (sn_signature sn))]"

definition snapshot_of_json :: "json \<Rightarrow> snapshot option" where
  "snapshot_of_json j = do {
     s \<leftarrow> slots [''epoch'', ''published_at'', ''revoked'', ''signature''] j;
     e \<leftarrow> mandatory json_u64 (s ! 0);
     t \<leftarrow> mandatory json_u64 (s ! 1);
     is \<leftarrow> mandatory (json_list revocation_id_of_json) (s ! 2);
     sig \<leftarrow> mandatory signature_of_json (s ! 3);
     Some \<lparr>sn_epoch = e, published_at = t, sn_revoked = set is, sn_signature = sig\<rparr>}"

definition map_checkpoint_json :: "map_checkpoint \<Rightarrow> json" where
  "map_checkpoint_json c =
     JObj [(''epoch'', word_json (mc_epoch c)), (''map_root'', array_json (mc_map_root c)),
           (''prev_log_root'', array_json (mc_prev_log_root c))]"

definition map_checkpoint_of_json :: "json \<Rightarrow> map_checkpoint option" where
  "map_checkpoint_of_json j = do {
     s \<leftarrow> slots [''epoch'', ''map_root'', ''prev_log_root''] j;
     e \<leftarrow> mandatory json_u64 (s ! 0);
     m \<leftarrow> mandatory json_digest (s ! 1);
     p \<leftarrow> mandatory json_digest (s ! 2);
     Some \<lparr>mc_epoch = e, mc_map_root = m, mc_prev_log_root = p\<rparr>}"

definition map_proof_json :: "map_proof \<Rightarrow> json" where
  "map_proof_json p =
     JObj [(''present'', bytes_json (present p)), (''siblings'', list_json array_json (siblings p))]"

definition map_proof_of_json :: "json \<Rightarrow> map_proof option" where
  "map_proof_of_json j = do {
     s \<leftarrow> slots [''present'', ''siblings''] j;
     b \<leftarrow> mandatory json_bytes (s ! 0);
     ds \<leftarrow> mandatory (json_list json_digest) (s ! 1);
     Some \<lparr>present = b, siblings = ds\<rparr>}"

definition log_backed_proof_json :: "log_backed_proof \<Rightarrow> json" where
  "log_backed_proof_json p =
     JObj [(''checkpoint'', map_checkpoint_json (lp_checkpoint p)), (''map_proof'', map_proof_json (lp_map_proof p)),
           (''inclusion'', inclusion_proof_json (lp_inclusion p)), (''sth'', sth_json (lp_sth p))]"

definition log_backed_proof_of_json :: "json \<Rightarrow> log_backed_proof option" where
  "log_backed_proof_of_json j = do {
     s \<leftarrow> slots [''checkpoint'', ''map_proof'', ''inclusion'', ''sth''] j;
     c \<leftarrow> mandatory map_checkpoint_of_json (s ! 0);
     m \<leftarrow> mandatory map_proof_of_json (s ! 1);
     i \<leftarrow> mandatory inclusion_proof_of_json (s ! 2);
     h \<leftarrow> mandatory sth_of_json (s ! 3);
     Some \<lparr>lp_checkpoint = c, lp_map_proof = m, lp_inclusion = i, lp_sth = h\<rparr>}"

interpretation revocation_id_form: wire_form revocation_id_json revocation_id_of_json "\<lambda>_. True"
  by unfold_locales (simp add: revocation_id_of_json_def revocation_id_json_def json_bytes_json)

interpretation log_entry_form: wire_form log_entry_json log_entry_of_json "\<lambda>_. True"
  by unfold_locales (simp add: log_entry_of_json_def log_entry_json_def struct_simps revocation_id_form.dec_enc)

interpretation snapshot_form: wire_form snapshot_json snapshot_of_json "\<lambda>sn. finite (sn_revoked sn)"
proof (unfold_locales)
  fix sn :: snapshot
  assume "finite (sn_revoked sn)"
  then show "snapshot_of_json (snapshot_json sn) = Some sn"
    using revocation_id_form.dec_list [of "sorted_list_of_set (sn_revoked sn)"]
    by (simp add: snapshot_of_json_def snapshot_json_def struct_simps signature_form.dec_enc)
qed

interpretation map_checkpoint_form: wire_form map_checkpoint_json map_checkpoint_of_json "\<lambda>_. True"
  by unfold_locales (simp add: map_checkpoint_of_json_def map_checkpoint_json_def struct_simps)

interpretation map_proof_form: wire_form map_proof_json map_proof_of_json "\<lambda>_. True"
proof (unfold_locales)
  fix p
  show "map_proof_of_json (map_proof_json p) = Some p"
    using digest_form.dec_list [of "siblings p"]
    by (simp add: map_proof_of_json_def map_proof_json_def struct_simps)
qed

interpretation log_backed_proof_form: wire_form log_backed_proof_json log_backed_proof_of_json
  "\<lambda>p. proof_fits (lp_inclusion p) \<and> sth_size (lp_sth p) < 2 ^ 64"
  by unfold_locales
    (simp add: log_backed_proof_of_json_def log_backed_proof_json_def json_field_def map_checkpoint_form.dec_enc
      map_proof_form.dec_enc inclusion_form.dec_enc sth_form.dec_enc)

end
