(* ===== verification/Sidecar.thy ===== *)
theory Sidecar
  imports Text Verifier Wire
begin

text \<open>
  The two entry points that other languages call: \<^verbatim>\<open>core/cli\<close>, one JSON request on stdin
  and one response on stdout, and \<^verbatim>\<open>clients/wasm-verifier\<close>. The derived JSON readers of
  their request types are parameters of the outermost functions. \<^verbatim>\<open>None\<close> is a panic of
  the crates called.
\<close>

section \<open>Error texts\<close>

fun chain_error_string :: "chain_error \<Rightarrow> string" where
  "chain_error_string ScopeWidened = ''scope widened: a block granted authority its parent did not hold''"
| "chain_error_string ExpiryExtended = ''expiry extended: a block outlives the authority it was delegated from''"
| "chain_error_string DepthExceeded = ''delegation depth exceeded: no remaining hops were authorized''"
| "chain_error_string MissingPurpose = ''missing purpose: delegation blocks must state why authority flowed''"
| "chain_error_string BrokenHashLink = ''broken hash link: a block does not reference its predecessor''"
| "chain_error_string (SignatureInvalid i) = ''signature invalid on block '' @ decimal i"
| "chain_error_string WrongSigner = ''wrong signer: a block was not signed by the key its predecessor delegated to''"
| "chain_error_string PrincipalMismatch = ''principal/key mismatch: a block's principal does not match its predecessor''"
| "chain_error_string RootKeyMismatch = ''root key mismatch: the chain does not trace to the trusted root key''"
| "chain_error_string (ChainCrypto m) = ''crypto error: '' @ m"

fun attestation_error_string :: "attestation_error \<Rightarrow> string" where
  "attestation_error_string NotIndependent = ''not independent: completion was signed by the executing agent itself''"
| "attestation_error_string AttestationSignatureInvalid = ''attestation signature invalid''"
| "attestation_error_string (AttestationCrypto m) = ''crypto error: '' @ m"

fun threshold_error_string :: "threshold_error \<Rightarrow> string" where
  "threshold_error_string (NotEnoughIndependentAttestations have_n need) =
     ''not enough independent attestations: have '' @ decimal have_n @ '', need '' @ decimal need"
| "threshold_error_string DuplicateAttester =
     ''duplicate attester: two attestations were signed under the same attester key''"
| "threshold_error_string InconsistentBinding =
     ''inconsistent binding: attestations do not all commit to the same (chain, requested action, outcome, witnessed root)''"

fun verify_error_string :: "verify_error \<Rightarrow> string" where
  "verify_error_string (VerifyChain e) = ''chain invalid: '' @ chain_error_string e"
| "verify_error_string Omission = ''omission: the action has no inclusion proof against the witnessed root''"
| "verify_error_string Equivocation = ''equivocation: the attested witness root does not match the gossip-trusted root''"
| "verify_error_string (VerifyAttestation e) = ''completion not independently attested: '' @ attestation_error_string e"
| "verify_error_string OutcomeMismatch =
     ''outcome mismatch: the attested outcome is not the action recorded in the witness''"
| "verify_error_string AttesterNotAnchored =
     ''attester not anchored: the attester's identity is not trusted for its role''"
| "verify_error_string ChainBindingMismatch =
     ''chain binding mismatch: receipt/attestation do not bind to this chain''"
| "verify_error_string ActionDigestInconsistent =
     ''action digest inconsistent: the requested action is not the one recorded in the witness''"
| "verify_error_string (VerifyThreshold e) = ''threshold attestation failed: '' @ threshold_error_string e"
| "verify_error_string (InsufficientAttestation required declared) =
     ''insufficient attestation: verifier requires '' @ decimal required @
     '' independent attesters, presenter declared '' @ decimal declared"
| "verify_error_string HopRevoked =
     ''revoked: a chain hop is not provably unrevoked against the logged revocation map''"
| "verify_error_string PurposeMismatch =
     ''purpose mismatch: the witnessed action is not bound to the delegated purpose''"

section \<open>Requests and responses\<close>

datatype attest_role = AttestThirdParty | AttestCounterSigned

fun attester_role_of :: "attest_role \<Rightarrow> attester_role" where
  "attester_role_of AttestThirdParty = ThirdParty"
| "attester_role_of AttestCounterSigned = CounterSigned"

record policy_dto =
  pd_trusted_attesters :: "public_key list"
  pd_allow_counter_signed :: bool

datatype request =
    ReqIssue string principal scope
  | ReqAttenuate chain string principal string scope string
  | ReqVerify chain public_key
  | ReqPubkey string
  | ReqChainDigest chain
  | ReqBindAction string string
  | ReqWitnessAppend "action_receipt list" string string string string
  | ReqAttest string principal string string string string inclusion_proof attest_role
  | ReqComposedVerify chain public_key string action_receipt completion_attestation policy_dto "string option"

text \<open>The first field of every response is its \<^verbatim>\<open>ok\<close>.\<close>

datatype response =
    RspIssue bool chain public_key
  | RspAttenuate bool chain public_key
  | RspScope bool scope
  | RspDigest bool string
  | RspWitnessAppend bool action_receipt "action_receipt list" nat string inclusion_proof
  | RspAttest bool completion_attestation
  | RspPubkey bool public_key
  | RspError bool string

definition seed_from_hex :: "prims \<Rightarrow> string \<Rightarrow> string + bytes32" where
  "seed_from_hex P s =
     and_then (map_err (\<lambda>e. ''invalid hex seed: '' @ e) (hex_decode P s)) (\<lambda>bs.
       ok_or (try_bytes32 bs) ''seed must be exactly 32 bytes (64 hex chars)'')"

definition digest_from_hex :: "prims \<Rightarrow> string \<Rightarrow> string + digest" where
  "digest_from_hex P s =
     and_then (map_err (\<lambda>e. ''invalid hex digest: '' @ e) (hex_decode P s)) (\<lambda>bs.
       ok_or (try_bytes32 bs) ''digest must be exactly 32 bytes (64 hex chars)'')"

section \<open>The handler\<close>

text \<open>\<^verbatim>\<open>?\<close> on a value, where the rest of the arm may panic, and a call that may panic.\<close>

definition or_fail :: "'e + 'a \<Rightarrow> ('a \<Rightarrow> ('e + 'b) option) \<Rightarrow> ('e + 'b) option" where
  "or_fail m f = (case m of Inl e \<Rightarrow> Some (Inl e) | Inr a \<Rightarrow> f a)"

fun handle :: "prims \<Rightarrow> request \<Rightarrow> (string + response) option" where
  "handle P (ReqIssue seed who s) =
     or_fail (seed_from_hex P seed) (\<lambda>sd.
       let sg = ed25519_from_seed P sd; root_key = sg_public_key sg
       in Option.bind (chain_issue P sg who s) (\<lambda>c. Some (Inr (RspIssue True c root_key))))"
| "handle P (ReqAttenuate c signer_seed t to_seed s pur) =
     or_fail (seed_from_hex P signer_seed) (\<lambda>sd.
     or_fail (seed_from_hex P to_seed) (\<lambda>td.
       let to_key = sg_public_key (ed25519_from_seed P td)
       in or_fail (map_err chain_error_string (attenuate P c (ed25519_from_seed P sd) t to_key s pur)) (\<lambda>c'.
            Some (Inr (RspAttenuate True c' to_key)))))"
| "handle P (ReqVerify c root_key) =
     or_fail (map_err chain_error_string (chain_verify P c root_key)) (\<lambda>s. Some (Inr (RspScope True s)))"
| "handle P (ReqPubkey seed) =
     or_fail (seed_from_hex P seed) (\<lambda>sd. Some (Inr (RspPubkey True (sg_public_key (ed25519_from_seed P sd)))))"
| "handle P (ReqChainDigest c) = Some (Inr (RspDigest True (hex_encode P (array_bytes (chain_digest P c)))))"
| "handle P (ReqBindAction pur params) =
     or_fail (digest_from_hex P params) (\<lambda>d.
       Some (Inr (RspDigest True (hex_encode P (array_bytes (bind_action P pur d))))))"
| "handle P (ReqWitnessAppend log cd ad n pr) =
     (let w = appended P witness_new log
      in or_fail (digest_from_hex P cd) (\<lambda>cd.
         or_fail (digest_from_hex P ad) (\<lambda>ad.
         or_fail (digest_from_hex P n) (\<lambda>n.
         or_fail (digest_from_hex P pr) (\<lambda>pr.
           let r = \<lparr>chain_digest_of = cd, action_digest = ad, nonce = n, prev_root = pr\<rparr>;
               (leaf, w1) = witness_append P w r
           in Option.bind (prove_inclusion P w1 leaf) (\<lambda>(pf, w2).
                or_fail (ok_or pf ''just-appended leaf is out of range (unreachable)'') (\<lambda>incl.
                Option.bind (witness_root P w2) (\<lambda>(root, w3).
                  Some (Inr (RspWitnessAppend True r (log @ [r]) leaf (hex_encode P (array_bytes root)) incl))))))))))"
| "handle P (ReqAttest seed att cd req outc wr incl role) =
     or_fail (seed_from_hex P seed) (\<lambda>sd.
     or_fail (digest_from_hex P cd) (\<lambda>cd.
     or_fail (digest_from_hex P req) (\<lambda>req.
     or_fail (digest_from_hex P outc) (\<lambda>outc.
     or_fail (digest_from_hex P wr) (\<lambda>wr.
       Option.bind (attest_as P (attester_role_of role) (ed25519_from_seed P sd) att cd req outc wr incl) (\<lambda>a.
         Some (Inr (RspAttest True a))))))))"
| "handle P (ReqComposedVerify c root_key trusted_root r a pol params) =
     or_fail (digest_from_hex P trusted_root) (\<lambda>root.
       let act = \<lparr>va_chain = c, va_receipt = r, va_completion = a\<rparr>;
           policy = \<lparr>trusted_attesters = pd_trusted_attesters pol, allow_counter_signed = pd_allow_counter_signed pol\<rparr>
       in or_fail (case params of
                     Some pd \<Rightarrow>
                       and_then (digest_from_hex P pd) (\<lambda>d.
                         map_err verify_error_string (verify_with_purpose P act root_key root policy d))
                   | None \<Rightarrow> map_err verify_error_string (verify P act root_key root policy)) (\<lambda>s.
            Some (Inr (RspScope True s))))"

section \<open>The process\<close>

text \<open>
  What is written and the exit status. \<open>stdin\<close> is what reading the input gives, \<open>parse\<close>
  the derived reader of a request.
\<close>

definition sidecar_main ::
  "prims \<Rightarrow> (string \<Rightarrow> string + request) \<Rightarrow> string + string \<Rightarrow> (response \<times> nat) option" where
  "sidecar_main P parse stdin =
     (case stdin of
        Inl e \<Rightarrow> Some (RspError False (''failed to read stdin: '' @ e), 1)
      | Inr input \<Rightarrow>
          Option.bind (or_fail (map_err (\<lambda>e. ''invalid request JSON: '' @ e) (parse input)) (handle P)) (\<lambda>res.
            case res of
              Inr resp \<Rightarrow> Some (resp, 0)
            | Inl e \<Rightarrow> Some (RspError False e, 1)))"

section \<open>The browser entry point\<close>

record wasm_request =
  wr_chain :: chain
  wr_root_key :: public_key
  wr_trusted_root :: string
  wr_action_receipt :: action_receipt
  wr_completion :: completion_attestation
  wr_trusted_attesters :: "public_key list"
  wr_allow_counter_signed :: bool

definition wasm_run :: "prims \<Rightarrow> (string \<Rightarrow> string + wasm_request) \<Rightarrow> string \<Rightarrow> string + scope" where
  "wasm_run P parse input =
     and_then (map_err (\<lambda>e. ''invalid request JSON: '' @ e) (parse input)) (\<lambda>req.
     and_then (map_err (\<lambda>e. ''invalid trusted_root hex: '' @ e) (hex_decode P (str_trim (wr_trusted_root req)))) (\<lambda>bs.
     and_then (ok_or (try_bytes32 bs) ''trusted_root must be 32 bytes (64 hex chars)'') (\<lambda>root.
       map_err verify_error_string
         (verify P \<lparr>va_chain = wr_chain req, va_receipt = wr_action_receipt req, va_completion = wr_completion req\<rparr>
           (wr_root_key req) root
           \<lparr>trusted_attesters = wr_trusted_attesters req, allow_counter_signed = wr_allow_counter_signed req\<rparr>))))"

text \<open>What is returned is the text of the answer, whose objects \<^verbatim>\<open>json!\<close> sorts by key.\<close>

definition verify_action :: "prims \<Rightarrow> (string \<Rightarrow> string + wasm_request) \<Rightarrow> string \<Rightarrow> json" where
  "verify_action P parse input =
     by_key (case wasm_run P parse input of
        Inr s \<Rightarrow> JObj [(''ok'', JBool True), (''effective_scope'', scope_json s)]
      | Inl e \<Rightarrow> JObj [(''ok'', JBool False), (''error'', JStr e)])"

section \<open>Facts\<close>

lemma or_fail_simps [simp]: "or_fail (Inl e) f = Some (Inl e)" "or_fail (Inr a) f = f a"
  by (simp_all add: or_fail_def)

lemma or_fail_Inr_iff: "or_fail m f = Some (Inr b) \<longleftrightarrow> (\<exists>a. m = Inr a \<and> f a = Some (Inr b))"
  by (cases m) simp_all

lemma or_fail_total: "(\<And>a. m = Inr a \<Longrightarrow> \<exists>r. f a = Some r) \<Longrightarrow> \<exists>r. or_fail m f = Some r"
  by (cases m) simp_all

lemma bind_total: "\<exists>a. m = Some a \<Longrightarrow> (\<And>a. m = Some a \<Longrightarrow> \<exists>r. f a = Some r) \<Longrightarrow> \<exists>r. Option.bind m f = Some r"
  by auto

text \<open>What the codec of digests promises.\<close>

definition hex_ok :: "prims \<Rightarrow> bool" where
  "hex_ok P \<longleftrightarrow> (\<forall>bs. hex_decode P (hex_encode P bs) = Inr bs)"

abbreviation hex_of :: "prims \<Rightarrow> bytes32 \<Rightarrow> string" where
  "hex_of P d \<equiv> hex_encode P (array_bytes d)"

lemma hex_roundtrip [simp]:
  "hex_ok P \<Longrightarrow> seed_from_hex P (hex_of P d) = Inr d"
  "hex_ok P \<Longrightarrow> digest_from_hex P (hex_of P d) = Inr d"
  by (simp_all add: hex_ok_def seed_from_hex_def digest_from_hex_def)

text \<open>The sidecar never panics: seeds give signers that sign everything.\<close>

lemma seed_issues: "\<exists>c. chain_issue P (ed25519_from_seed P sd) who s = Some c"
  by (simp add: chain_issue_def ed25519_from_seed_def Let_def)

lemma seed_attests: "\<exists>a. attest_as P role (ed25519_from_seed P sd) att cd req outc wr incl = Some a"
  by (simp add: attest_as_def ed25519_from_seed_def Let_def)

text \<open>The append of one request, on the log it threads.\<close>

abbreviation log_leaves :: "prims \<Rightarrow> action_receipt list \<Rightarrow> digest list" where
  "log_leaves P rs \<equiv> map (\<lambda>r. hash_leaf P (canonical_bytes P r)) rs"

lemma handle_append:
  assumes "digest_from_hex P cd = Inr c" and "digest_from_hex P ad = Inr a"
    and "digest_from_hex P n = Inr m" and "digest_from_hex P pr = Inr p"
  shows "handle P (ReqWitnessAppend log cd ad n pr) =
    (let r = \<lparr>chain_digest_of = c, action_digest = a, nonce = m, prev_root = p\<rparr>; hs = log_leaves P (log @ [r])
     in Some (Inr (RspWitnessAppend True r (log @ [r]) (length log) (hex_of P (naive_root P hs))
          \<lparr>leaf_index = length log, tree_size = Suc (length log), path = naive_path P hs (length log)\<rparr>)))"
proof -
  let ?r = "\<lparr>chain_digest_of = c, action_digest = a, nonce = m, prev_root = p\<rparr>"
  let ?hs = "log_leaves P (log @ [?r])"
  have start: "witness_ok P (appended P witness_new log)" "leaf_hashes (appended P witness_new log) = log_leaves P log"
    using appended_ok [OF witness_ok_new, of P log] by simp_all
  obtain i w1 where app: "witness_append P (appended P witness_new log) ?r = (i, w1)" by fastforce
  from witness_append_ok [OF start(1) app] have
    1: "witness_ok P w1" "i = length log" "leaf_hashes w1 = ?hs" by (simp_all add: start(2))
  from prove_inclusion_ok [OF 1(1), of i] obtain w2 where
    2: "prove_inclusion P w1 i = Some (Some \<lparr>leaf_index = length log, tree_size = Suc (length log),
        path = naive_path P ?hs (length log)\<rparr>, w2)" "witness_ok P w2" "leaf_hashes w2 = ?hs"
    by (auto simp: 1(2,3))
  from witness_root_ok [OF 2(2)] obtain w3 where "witness_root P w2 = Some (naive_root P ?hs, w3)"
    by (auto simp: 2(3))
  then show ?thesis using assms app 2(1) 1(2) by (simp add: Let_def)
qed

lemma handle_append_cases:
  obtains c a m p where "digest_from_hex P cd = Inr c" "digest_from_hex P ad = Inr a" "digest_from_hex P n = Inr m"
    "digest_from_hex P pr = Inr p"
  | e where "handle P (ReqWitnessAppend log cd ad n pr) = Some (Inl e)"
  by (cases "digest_from_hex P cd"; cases "digest_from_hex P ad"; cases "digest_from_hex P n"; cases "digest_from_hex P pr")
    (simp_all add: Let_def)

lemma handle_total: "\<exists>r. handle P req = Some r"
proof (cases req)
  case (ReqWitnessAppend log cd ad n pr)
  show ?thesis
    by (rule handle_append_cases [of P cd ad n pr _ log]) (auto simp: ReqWitnessAppend handle_append Let_def simp del: handle.simps)
qed (auto simp: Let_def intro!: or_fail_total bind_total seed_issues seed_attests)

text \<open>The exit status tells a response from an error.\<close>

definition response_ok :: "response \<Rightarrow> bool" where
  "response_ok resp \<longleftrightarrow> (case resp of RspError b _ \<Rightarrow> b | RspIssue b _ _ \<Rightarrow> b | RspAttenuate b _ _ \<Rightarrow> b | RspScope b _ \<Rightarrow> b
     | RspDigest b _ \<Rightarrow> b | RspWitnessAppend b _ _ _ _ _ \<Rightarrow> b | RspAttest b _ \<Rightarrow> b | RspPubkey b _ \<Rightarrow> b)"

lemma handle_ok: "handle P req = Some (Inr resp) \<Longrightarrow> response_ok resp"
proof (cases req)
  case (ReqWitnessAppend log cd ad n pr)
  assume ok: "handle P req = Some (Inr resp)"
  show ?thesis
    by (rule handle_append_cases [of P cd ad n pr _ log])
      (use ok in \<open>auto simp: ReqWitnessAppend handle_append Let_def response_ok_def simp del: handle.simps\<close>)
qed (auto simp: response_ok_def or_fail_Inr_iff Let_def bind_eq_Some_conv)

lemma sidecar_main_total:
  "\<exists>resp code. sidecar_main P parse stdin = Some (resp, code) \<and> (code = 0 \<longleftrightarrow> response_ok resp)"
proof (cases stdin)
  case (Inr input)
  show ?thesis
  proof (cases "parse input")
    case (Inr req)
    obtain res where res: "handle P req = Some res" using handle_total [of P req] by blast
    show ?thesis
      using handle_ok [of P req] by (cases res) (simp_all add: sidecar_main_def \<open>stdin = Inr input\<close> Inr res response_ok_def)
  qed (simp add: sidecar_main_def Inr response_ok_def)
qed (simp add: sidecar_main_def response_ok_def)

text \<open>A scope comes back exactly when the verifier accepts.\<close>

lemma composed_verify_iff:
  "handle P (ReqComposedVerify c rk root r a pol pd) = Some (Inr resp) \<longleftrightarrow>
     (\<exists>d s. digest_from_hex P root = Inr d \<and> resp = RspScope True s \<and>
        (let act = \<lparr>va_chain = c, va_receipt = r, va_completion = a\<rparr>;
             policy = \<lparr>trusted_attesters = pd_trusted_attesters pol, allow_counter_signed = pd_allow_counter_signed pol\<rparr>
         in case pd of None \<Rightarrow> verify P act rk d policy = Inr s
            | Some h \<Rightarrow> \<exists>e. digest_from_hex P h = Inr e \<and> verify_with_purpose P act rk d policy e = Inr s))"
  by (cases pd) (auto simp: or_fail_Inr_iff Let_def and_then_Inr_iff)

text \<open>The browser and the sidecar agree, up to the blanks the browser trims.\<close>

lemma wasm_agrees:
  assumes "parse input = Inr req" and "str_trim (wr_trusted_root req) = wr_trusted_root req"
  shows "wasm_run P parse input = Inr s \<longleftrightarrow>
    handle P (ReqComposedVerify (wr_chain req) (wr_root_key req) (wr_trusted_root req) (wr_action_receipt req)
      (wr_completion req)
      \<lparr>pd_trusted_attesters = wr_trusted_attesters req, pd_allow_counter_signed = wr_allow_counter_signed req\<rparr> None) =
    Some (Inr (RspScope True s))"
  unfolding composed_verify_iff
  using assms by (auto simp: wasm_run_def digest_from_hex_def and_then_Inr_iff Let_def)

section \<open>A session\<close>

text \<open>The chains a client gets from \<^verbatim>\<open>issue\<close> and \<^verbatim>\<open>attenuate\<close> are built chains.\<close>

lemma issue_builds:
  assumes "\<And>sd. ed_good P sd" and "handle P (ReqIssue seed who s) = Some (Inr (RspIssue True c rk))"
  shows "built P rk c"
proof -
  from assms(2) obtain sd where "chain_issue P (ed25519_from_seed P sd) who s = Some c"
    "rk = sg_public_key (ed25519_from_seed P sd)"
    by (auto simp: or_fail_Inr_iff Let_def bind_eq_Some_conv)
  with built.issued [OF ed.ok [OF assms(1)]] show ?thesis by blast
qed

lemma attenuate_builds:
  assumes "\<And>sd. ed_good P sd" and "built P rk c"
    and "handle P (ReqAttenuate c seed t tseed s pur) = Some (Inr (RspAttenuate True c' tk))"
  shows "built P rk c'"
proof -
  from assms(3) obtain sd where "attenuate P c (ed25519_from_seed P sd) t tk s pur = Inr c'"
    by (auto simp: or_fail_Inr_iff Let_def)
  with built.extended [OF assms(2) ed.ok [OF assms(1)]] show ?thesis by blast
qed

text \<open>
  Append, attest, verify, each request made of the answers to the ones before, on a log
  the client threads: accepted, when the attester is trusted and not the executor.
\<close>

lemma session_steps:
  assumes codec: "hex_ok P" and chain: "built P rk c" and notary: "ed_good P ns"
    and key: "nk = sg_public_key (ed25519_from_seed P ns)" "nk \<noteq> executor_key c" "nk \<in> set trusted"
    and small: "length log < 2 ^ 64"
  shows "\<exists>cd r root incl a.
    handle P (ReqChainDigest c) = Some (Inr (RspDigest True cd)) \<and>
    handle P (ReqWitnessAppend log cd (hex_of P ad) (hex_of P n) (hex_of P pr)) =
      Some (Inr (RspWitnessAppend True r (log @ [r]) (length log) root incl)) \<and>
    r = \<lparr>chain_digest_of = chain_digest P c, action_digest = ad, nonce = n, prev_root = pr\<rparr> \<and>
    handle P (ReqAttest (hex_of P ns) who cd (hex_of P ad) (hex_of P ad) root incl AttestThirdParty) = Some (Inr (RspAttest True a)) \<and>
    handle P (ReqComposedVerify c rk root r a \<lparr>pd_trusted_attesters = trusted, pd_allow_counter_signed = False\<rparr> None) =
      Some (Inr (RspScope True (fst (chain_tail P c)))) \<and>
    leaf_index incl = length log \<and> tree_size incl = Suc (length log) \<and> inclusion a = incl"
proof -
  let ?r = "\<lparr>chain_digest_of = chain_digest P c, action_digest = ad, nonce = n, prev_root = pr\<rparr>"
  let ?hs = "log_leaves P (log @ [?r])"
  let ?incl = "\<lparr>leaf_index = length log, tree_size = Suc (length log), path = naive_path P ?hs (length log)\<rparr>"
  let ?root = "naive_root P ?hs" and ?cd = "hex_of P (chain_digest P c)"
  have app: "handle P (ReqWitnessAppend log ?cd (hex_of P ad) (hex_of P n) (hex_of P pr)) =
      Some (Inr (RspWitnessAppend True ?r (log @ [?r]) (length log) (hex_of P ?root) ?incl))"
    using codec handle_append [of P ?cd "chain_digest P c" "hex_of P ad" ad "hex_of P n" n "hex_of P pr" pr log]
    by (simp add: Let_def del: handle.simps)
  have incl: "verify_inclusion P ?r ?incl ?root"
    using verify_inclusion_complete [of "length log" ?hs P ?r] small by (simp add: nth_append)
  from any_signer.attest_as_signed [OF ed.ok [OF notary], of ThirdParty who "chain_digest P c" ad ad ?root ?incl]
  obtain a where a: "attest_as P ThirdParty (ed25519_from_seed P ns) who (chain_digest P c) ad ad ?root ?incl = Some a"
    "attestation_signed P a" "attester_key a = nk" "ca_role a = ThirdParty" "inclusion a = ?incl"
    "binding a = (chain_digest P c, ad, ad, ?root)"
    by (auto simp: key(1))
  then have "verify P \<lparr>va_chain = c, va_receipt = ?r, va_completion = a\<rparr> rk ?root
      \<lparr>trusted_attesters = trusted, allow_counter_signed = False\<rparr> = Inr (fst (chain_tail P c))"
    using incl key built_ok [OF chain] by (simp add: verify_iff vouches_def attester_is_anchored_iff)
  then have "handle P (ReqComposedVerify c rk (hex_of P ?root) ?r a
      \<lparr>pd_trusted_attesters = trusted, pd_allow_counter_signed = False\<rparr> None) = Some (Inr (RspScope True (fst (chain_tail P c))))"
    using codec by simp
  moreover have "handle P (ReqAttest (hex_of P ns) who ?cd (hex_of P ad) (hex_of P ad) (hex_of P ?root) ?incl AttestThirdParty) =
      Some (Inr (RspAttest True a))"
    using codec a(1) by simp
  moreover have "handle P (ReqChainDigest c) = Some (Inr (RspDigest True ?cd))" by simp
  moreover have "leaf_index ?incl = length log \<and> tree_size ?incl = Suc (length log) \<and> inclusion a = ?incl"
    by (simp add: a(5))
  ultimately show ?thesis using app by blast
qed

text \<open>The browser's answer says \<^verbatim>\<open>ok\<close> exactly when its verification accepts.\<close>

lemma by_key_answer:
  "by_key (JObj [(''ok'', a), (''effective_scope'', b)]) = JObj [(''effective_scope'', by_key b), (''ok'', by_key a)]"
  "by_key (JObj [(''ok'', a), (''error'', b)]) = JObj [(''error'', by_key b), (''ok'', by_key a)]"
  by (simp_all add: less_eq_char_def less_char_def)

lemma verify_action_answers:
  "verify_action P parse input =
     (case wasm_run P parse input of
        Inr s \<Rightarrow> JObj [(''effective_scope'', by_key (scope_json s)), (''ok'', JBool True)]
      | Inl e \<Rightarrow> JObj [(''error'', JStr e), (''ok'', JBool False)])"
  by (cases "wasm_run P parse input") (simp_all add: verify_action_def by_key_answer)

end
