(* ===== verification/Demo.thy ===== *)
theory Demo
  imports Chain
begin

text \<open>
  A concrete instance of the third-party functions, on which the hypotheses of the
  properties can be shown to hold together: a text of a JSON value that keeps its shape,
  its top-level numbers, the lengths of its top-level strings and the first byte of each
  byte string an object holds, a hash that keeps a prefix, and a
  signature that is the public key followed by a prefix of the message. It is an instance
  for the witnesses and models nothing of the code. Keys whose first byte is 7 verify a
  delegation payload only, which makes them unforgeable.
\<close>

fun demo_scalar :: "json \<Rightarrow> u8 list" where
  "demo_scalar (JNum n) = [of_nat n]"
| "demo_scalar (JStr s) = [of_nat (length s)]"
| "demo_scalar _ = []"

fun demo_field :: "json \<Rightarrow> u8 list" where
  "demo_field (JArr (JNum n # _)) = [of_nat n]"
| "demo_field j = demo_scalar j"

fun demo_jcs :: "json \<Rightarrow> u8 list" where
  "demo_jcs (JObj kvs) = 1 # of_nat (length kvs) # concat (map (\<lambda>kv. demo_field (snd kv)) kvs)"
| "demo_jcs (JArr js) = 2 # of_nat (length js) # concat (map demo_scalar js)"
| "demo_jcs j = 3 # demo_scalar j"

definition pad32 :: "u8 list \<Rightarrow> u8 list" where
  "pad32 bs = take 32 (bs @ replicate 32 0)"

text \<open>
  The hash keeps the first 32 bytes, of a 65-byte tree node eight of each child, and of
  anything longer its length and last bytes.
\<close>

definition demo_hash :: "u8 list \<Rightarrow> digest" where
  "demo_hash bs =
     (if length bs = 65 then mk_bytes32 (take 9 bs @ take 8 (drop 33 bs))
      else if 65 < length bs then mk_bytes32 (of_nat (length bs) # rev bs) else mk_bytes32 bs)"

definition demo_sign :: "u8 list \<Rightarrow> u8 list \<Rightarrow> u8 list" where
  "demo_sign key m = key @ pad32 m"

definition demo_check :: "u8 list \<Rightarrow> u8 list \<Rightarrow> u8 list \<Rightarrow> bool" where
  "demo_check key m s \<longleftrightarrow> s = demo_sign key m \<and> (hd key = 7 \<longrightarrow> m = [2, 7, 2])"

definition demo :: prims where
  "demo =
     \<lparr>blake3 = demo_hash, jcs = demo_jcs, json_parse = (\<lambda>_. None),
      ed_key_ok = (\<lambda>_. True), ed_check = demo_check, ed_public = array_bytes,
      ed_raw_sign = (\<lambda>seed. demo_sign (array_bytes seed)),
      ml_pk_len = 32, ml_sig_len = 64, ml_key_ok = (\<lambda>_. True), ml_check = demo_check,
      ml_public = pad32, ml_raw_sign = (\<lambda>sk m. Inr (demo_sign (pad32 sk) m)),
      sha256 = demo_hash,
      b64_encode = (\<lambda>bs. map (\<lambda>b. char_of (unat b)) bs), b64_decode = (\<lambda>s. Some (str_bytes s)),
      b64url_encode = (\<lambda>bs. map (\<lambda>b. char_of (unat b)) bs), b64url_decode = (\<lambda>s. Some (str_bytes s)),
      hex_encode = (\<lambda>bs. map (\<lambda>b. char_of (unat b)) bs), hex_decode = (\<lambda>s. Inr (str_bytes s))\<rparr>"

lemma demo_simps [simp]:
  "blake3 demo = demo_hash" "jcs demo = demo_jcs" "ed_key_ok demo k" "ed_check demo = demo_check"
  "ed_public demo = array_bytes" "ed_raw_sign demo seed = demo_sign (array_bytes seed)"
  "ml_pk_len demo = 32" "ml_sig_len demo = 64" "ml_key_ok demo k" "ml_check demo = demo_check"
  "ml_public demo = pad32" "ml_raw_sign demo sk m = Inr (demo_sign (pad32 sk) m)"
  "sha256 demo = demo_hash"
  by (simp_all add: demo_def)

lemma length_pad32 [simp]: "length (pad32 bs) = 32"
  by (simp add: pad32_def)

lemma hd_pad32 [simp]: "hd (pad32 (b # bs)) = b"
  by (simp add: pad32_def)

definition demo_seed :: "u8 \<Rightarrow> bytes32" where
  "demo_seed b = mk_bytes32 (replicate 32 b)"

lemma array_demo_seed [simp]: "array_bytes (demo_seed b) = replicate 32 b"
  by (simp add: demo_seed_def)

lemma replicate_32_hd [simp]: "hd (replicate 32 x) = x"
  by (simp add: numeral_eq_Suc)

lemma replicate_32_eq [simp]: "replicate 32 x = replicate 32 y \<longleftrightarrow> x = y"
  by (simp add: numeral_eq_Suc)

lemma demo_ed_good: "b \<noteq> 7 \<Longrightarrow> ed_good demo (demo_seed b)"
  by (simp add: ed_good_def demo_check_def demo_sign_def)

abbreviation demo_signer :: "u8 \<Rightarrow> signer" where
  "demo_signer b \<equiv> ed25519_from_seed demo (demo_seed b)"

abbreviation demo_key :: "u8 \<Rightarrow> public_key" where
  "demo_key b \<equiv> \<lparr>pk_algorithm = Ed25519, pk_bytes = replicate 32 b\<rparr>"

lemma demo_signer_key [simp]: "sg_public_key (demo_signer b) = demo_key b"
  by (simp add: ed25519_from_seed_def)

lemma demo_signer_ok: "b \<noteq> 7 \<Longrightarrow> signer_ok demo (demo_signer b)"
  by (rule ed.ok) (rule demo_ed_good)

text \<open>An Ed25519 and an ML-DSA signer composed into a hybrid.\<close>

definition demo_mldsa :: signer where
  "demo_mldsa = mldsa_signer demo [5]"

lemma demo_mldsa_ok: "signer_ok demo demo_mldsa"
  unfolding demo_mldsa_def
  by (rule mldsa.ok) (simp add: mldsa_good_def demo_check_def demo_sign_def)

definition demo_hybrid :: signer where
  "demo_hybrid = projr (hybrid_new (demo_signer 1) demo_mldsa)"

lemma demo_hybrid_new: "hybrid_new (demo_signer 1) demo_mldsa = Inr demo_hybrid"
  by (simp add: demo_hybrid_def hybrid_new_def demo_mldsa_def mldsa_signer_def frame_two_def
      encode_component_def Let_def)

lemma demo_hybrid_good: "hybrid_good demo (demo_signer 1, demo_mldsa, demo_hybrid)"
  by (simp add: hybrid_good_def demo_hybrid_new demo_signer_ok demo_mldsa_ok)
    (auto simp: fits_frame_def demo_mldsa_def mldsa_signer_def ed25519_from_seed_def demo_sign_def)

section \<open>A chain\<close>

definition demo_perm :: permission where
  "demo_perm = permission_with ''pay'' [AmountMax 500, ResourceIn [''air'', ''rail'']]"

definition demo_scope :: "u32 \<Rightarrow> scope" where
  "demo_scope d =
     \<lparr>permissions = [demo_perm], budget = Some 900, currency = Some ''USD'', max_depth = d, expires_at = 100\<rparr>"

abbreviation demo_principal :: principal where
  "demo_principal \<equiv> \<lparr>principal_id = ''a'', display_name = ''A''\<rparr>"

lemma demo_scope_simps [simp]:
  "max_depth (demo_scope d) = d" "budget (demo_scope d) = Some 900" "expires_at (demo_scope d) = 100"
  "permissions (demo_scope d) = [demo_perm]" "currency (demo_scope d) = Some ''USD''"
  by (simp_all add: demo_scope_def)

lemma demo_narrows [simp]: "narrows (demo_scope a) (demo_scope b)"
  by (simp add: narrows_def)

lemma demo_purpose [simp]: "\<not> trim_is_empty ''up''" "\<not> trim_is_empty ''down''"
  by (simp_all add: trim_is_empty_def str_bytes_def)

definition demo_chain0 :: chain where
  "demo_chain0 = the (chain_issue demo (demo_signer 1) demo_principal (demo_scope 3))"

definition demo_chain1 :: chain where
  "demo_chain1 = projr (attenuate demo demo_chain0 (demo_signer 1) demo_principal (demo_key 7) (demo_scope 2) ''down'')"

definition demo_chain2 :: chain where
  "demo_chain2 = projr (attenuate demo demo_chain1 (demo_signer 7) demo_principal (demo_key 2) (demo_scope 1) ''up'')"

lemma demo_chain0_issue: "chain_issue demo (demo_signer 1) demo_principal (demo_scope 3) = Some demo_chain0"
  by (simp add: demo_chain0_def chain_issue_def ed25519_from_seed_def Let_def)

lemma demo_chain0_tail:
  "chain_tail demo demo_chain0 = (demo_scope 3, demo_key 1, demo_principal, root_hash demo (chain_root demo_chain0))"
  by (simp add: demo_chain0_def chain_issue_def ed25519_from_seed_def Let_def chain_tail_def root_tail_def)

lemma demo_chain1_attenuate:
  "attenuate demo demo_chain0 (demo_signer 1) demo_principal (demo_key 7) (demo_scope 2) ''down'' = Inr demo_chain1"
  by (simp add: demo_chain1_def attenuate_def demo_chain0_tail ed25519_from_seed_def Let_def is_narrowing_of_Inr
    is_narrowing_of_iff [THEN iffD2])

lemma demo_built1: "built demo (demo_key 1) demo_chain1"
  using built.issued [OF demo_signer_ok demo_chain0_issue]
    built.extended [OF _ demo_signer_ok demo_chain1_attenuate] by simp

lemma demo_chain1_tail:
  "fst (chain_tail demo demo_chain1) = demo_scope 2" "fst (snd (chain_tail demo demo_chain1)) = demo_key 7"
  using attenuate_tail [OF demo_chain1_attenuate] by auto

lemma not_2_le_1: "\<not> (2 :: u32) \<le> 1"
  by (simp add: word_le_nat_alt)

lemma demo_chain2_attenuate:
  "attenuate demo demo_chain1 (demo_signer 7) demo_principal (demo_key 2) (demo_scope 1) ''up'' = Inr demo_chain2"
  using demo_chain1_tail
  by (cases "chain_tail demo demo_chain1") (simp add: demo_chain2_def attenuate_def not_2_le_1 ed25519_from_seed_def Let_def
    is_narrowing_of_iff [THEN iffD2])

lemma demo_chain1_verify: "chain_verify demo demo_chain1 (demo_key 1) = Inr (demo_scope 2)"
  using chain_verify_ok [OF built_ok [OF demo_built1]] by (simp add: demo_chain1_tail)

lemma demo_chain0_delegations [simp]: "delegations demo_chain0 = []"
  by (simp add: demo_chain0_def chain_issue_def ed25519_from_seed_def Let_def)

lemma demo_chain1_apart: "hashes_apart demo (block_images demo_chain1)"
proof -
  obtain b where b: "delegations demo_chain1 = [b]"
    using attenuate_shape [OF demo_chain1_attenuate] by auto
  have "demo_jcs (root_block_json r) = [1, 4]" for r
    by (simp add: root_block_json_def principal_json_def public_key_json_def scope_json_def signature_json_def)
  moreover have "\<exists>x y. demo_jcs (delegation_block_json b) = [1, 8, x] \<or> demo_jcs (delegation_block_json b) = [1, 8, x, y]"
    by (cases "prev_block_hash b")
      (auto simp: delegation_block_json_def principal_json_def public_key_json_def scope_json_def
        signature_json_def bytes_json_def)
  ultimately show ?thesis
    by (auto simp: hashes_apart_def collision_free_def block_images_def b inj_on_def)
      (auto simp: demo_hash_def array_bytes_mk simp flip: array_bytes_eq_iff)
qed

text \<open>The second hop is signed by key 7, which verifies nothing else.\<close>

lemma demo_payload_text:
  "demo_jcs (delegation_payload_json f fk t tk s pur h) = [2, 7, of_nat (length pur)]"
  by (simp add: delegation_payload_json_def principal_json_def public_key_json_def scope_json_def bytes_json_def)

lemma demo_chain2_block:
  obtains h sig where
    "delegations demo_chain2 = delegations demo_chain1 @
      [\<lparr>db_from = demo_principal, from_key = demo_key 7, db_to = demo_principal, to_key = demo_key 2,
        db_scope = demo_scope 1, purpose = ''up'', prev_block_hash = h, db_signature = sig\<rparr>]"
    and "chain_tail demo demo_chain1 = (demo_scope 2, demo_key 7, demo_principal, h)"
    and "chain_root demo_chain2 = chain_root demo_chain1"
    and "sig = \<lparr>sig_algorithm = Ed25519, sig_bytes = demo_sign (replicate 32 7) [2, 7, 2]\<rparr>"
proof -
  from attenuate_tail [OF demo_chain1_attenuate] obtain h
    where t: "chain_tail demo demo_chain1 = (demo_scope 2, demo_key 7, demo_principal, h)" by blast
  with demo_chain2_attenuate obtain sig
    where s: "sg_sign (demo_signer 7) (jcs demo (delegation_payload_json demo_principal (demo_key 7) demo_principal
        (demo_key 2) (demo_scope 1) ''up'' h)) = Inr sig"
      and c: "demo_chain2 = demo_chain1\<lparr>delegations := delegations demo_chain1 @
        [\<lparr>db_from = demo_principal, from_key = demo_key 7, db_to = demo_principal, to_key = demo_key 2,
          db_scope = demo_scope 1, purpose = ''up'', prev_block_hash = h, db_signature = sig\<rparr>]\<rparr>"
    unfolding attenuate_iff by auto
  show thesis
    by (rule that [of h sig], unfold c t) (use s in \<open>simp_all add: ed25519_from_seed_def demo_payload_text\<close>)
qed

lemma demo_key7_check:
  "verify_signature demo m s (demo_key 7) = Inr True \<longleftrightarrow>
     m = [2, 7, 2] \<and> s = \<lparr>sig_algorithm = Ed25519, sig_bytes = demo_sign (replicate 32 7) [2, 7, 2]\<rparr>"
  by (cases s) (auto simp: verify_signature.simps ed25519_verify_def demo_check_def demo_sign_def)

lemma demo_chain2_verify: "chain_verify demo demo_chain2 (demo_key 1) = Inr (demo_scope 1)"
proof -
  obtain h sig where d: "delegations demo_chain2 = delegations demo_chain1 @
      [\<lparr>db_from = demo_principal, from_key = demo_key 7, db_to = demo_principal, to_key = demo_key 2,
        db_scope = demo_scope 1, purpose = ''up'', prev_block_hash = h, db_signature = sig\<rparr>]"
    and t: "chain_tail demo demo_chain1 = (demo_scope 2, demo_key 7, demo_principal, h)"
    and r: "chain_root demo_chain2 = chain_root demo_chain1"
    and s: "sig = \<lparr>sig_algorithm = Ed25519, sig_bytes = demo_sign (replicate 32 7) [2, 7, 2]\<rparr>"
    by (rule demo_chain2_block)
  have "block_ok demo (last (delegations demo_chain2)) (chain_tail demo demo_chain1)"
    using not_2_le_1
    by (simp add: d t s block_ok_def block_signed_def block_payload_json_def demo_payload_text demo_key7_check
        del: verify_signature_arms)
  then have "chain_ok demo demo_chain2 (demo_key 1)"
    using built_ok [OF demo_built1] by (simp add: chain_ok_def d r chain_tail_last)
  moreover have "fst (chain_tail demo demo_chain2) = demo_scope 1"
    by (simp add: chain_tail_def d block_tail_def)
  ultimately show ?thesis by (simp add: chain_verify_iff)
qed

lemma demo_chain1_length: "length (delegations demo_chain1) = 1"
  using attenuate_shape [OF demo_chain1_attenuate] by auto

lemma demo_chain2_length: "1 < length (delegations demo_chain2)"
  by (rule demo_chain2_block) (simp add: demo_chain1_length)

lemma demo_chain2_unforgeable:
  "unforgeable demo (from_key (delegations demo_chain2 ! 1)) {block_payload_json (delegations demo_chain2 ! 1)}"
  by (rule demo_chain2_block)
    (auto simp: nth_append demo_chain1_length unforgeable_def demo_key7_check block_payload_json_def
      demo_payload_text)

text \<open>The first chain with its delegation's signature cut off at its last byte and replaced.\<close>

definition demo_forged :: chain where
  "demo_forged = demo_chain1\<lparr>delegations :=
     map (\<lambda>b. b\<lparr>db_signature := \<lparr>sig_algorithm = Ed25519, sig_bytes = replicate 64 0\<rparr>\<rparr>) (delegations demo_chain1)\<rparr>"

lemma demo_forged_error: "chain_verify demo demo_forged (demo_key 1) = Inl (SignatureInvalid 1)"
proof -
  have ok: "chain_ok demo demo_chain1 (demo_key 1)" by (rule built_ok) (rule demo_built1)
  obtain b where b: "delegations demo_chain1 = [b]"
    using demo_chain1_length by (metis One_nat_def length_0_conv length_Suc_conv)
  obtain s k p h where t: "root_tail demo (chain_root demo_chain1) = (s, k, p, h)"
    by (metis surj_pair)
  from ok have *: "block_ok demo b (s, k, p, h)" and root: "verify_root demo (chain_root demo_chain1) (demo_key 1) = Inr (s, k, p, h)"
    by (simp_all add: chain_ok_def b t verify_root_iff)
  have k: "from_key b = demo_key 1"
    using ok chain_ok_continuity [OF ok, of 0] by (simp add: b chain_ok_def)
  have "demo_sign (replicate 32 1) m \<noteq> replicate 64 0" for m
    by (simp add: demo_sign_def numeral_eq_Suc)
  then have "verify_signature demo m \<lparr>sig_algorithm = Ed25519, sig_bytes = replicate 64 0\<rparr> (demo_key 1) = Inr False" for m
    by (simp add: ed25519_verify_def demo_check_def) metis
  with * k have "verify_block demo 1 (b\<lparr>db_signature := \<lparr>sig_algorithm = Ed25519, sig_bytes = replicate 64 0\<rparr>\<rparr>) (s, k, p, h) =
      Inl (SignatureInvalid 1)"
    by (auto simp: verify_block_def block_ok_def Let_def is_narrowing_of_iff [THEN iffD2] not_le)
  then show ?thesis
    using root by (simp add: chain_verify_def demo_forged_def b)
qed

end
