(* ===== verification/Demo_Log.thy ===== *)
theory Demo_Log
  imports Verifier Demo
begin

text \<open>
  The instance of \<^verbatim>\<open>Demo\<close> continued for the witnesses of the log, the attestations and the
  verifier: two receipts for one chain in a log, and an action vouched for by a notary.
\<close>

definition demo_receipt :: "u8 \<Rightarrow> action_receipt" where
  "demo_receipt n =
     \<lparr>chain_digest_of = chain_digest demo demo_chain1, action_digest = demo_seed n, nonce = demo_seed 0,
      prev_root = demo_seed 0\<rparr>"

abbreviation demo_receipts :: "action_receipt list" where
  "demo_receipts \<equiv> [demo_receipt 4, demo_receipt 5]"

abbreviation demo_root :: digest where
  "demo_root \<equiv> log_root demo demo_receipts"

definition demo_proof :: inclusion_proof where
  "demo_proof =
     \<lparr>leaf_index = 1, tree_size = 2,
      path = [\<lparr>sibling = hash_leaf demo (canonical_bytes demo (demo_receipt 4)), sibling_is_left = True\<rparr>]\<rparr>"

definition demo_attest :: "u8 \<Rightarrow> u8 \<Rightarrow> completion_attestation" where
  "demo_attest k n =
     the (attest demo (demo_signer k) demo_principal (chain_digest demo demo_chain1) (demo_seed n) (demo_seed n)
            demo_root demo_proof)"

definition demo_action :: "u8 \<Rightarrow> verifiable_action" where
  "demo_action k =
     \<lparr>va_chain = demo_chain1, va_receipt = demo_receipt 5, va_completion = demo_attest k 5\<rparr>"

lemma demo_chain1_image: "demo_jcs (chain_json demo_chain1) = [1, 2]"
proof -
  obtain b where "delegations demo_chain1 = [b]"
    using demo_chain1_length by (metis One_nat_def length_0_conv length_Suc_conv)
  then show ?thesis by (simp add: chain_json_def list_json_def root_block_json_def delegation_block_json_def)
qed

lemma demo_canonical: "canonical_bytes demo (demo_receipt n) = [1, 4, 1, n, 0, 0]"
  by (simp add: canonical_bytes_def action_receipt_json_def demo_receipt_def array_json_def bytes_json_def
      chain_digest_def demo_chain1_image demo_hash_def array_bytes_mk numeral_eq_Suc)

lemma split_point_two [simp]: "split_point (Suc (Suc 0)) = Suc 0"
  using split_point_bounds [of "Suc (Suc 0)"] by linarith

lemma naive_root_two: "naive_root P [a, b] = hash_node P a b"
  by (simp add: naive_root_split)

lemma node_queries_two: "node_queries P [a, b] = {[node_prefix] @ array_bytes a @ array_bytes b}"
  by (simp add: node_queries_split) (simp add: node_queries.simps)

lemma recon_queries_two:
  "recon_queries P (Suc 0) (Suc (Suc 0)) True R [s] = {[node_prefix] @ array_bytes R @ array_bytes s}"
  using recon_queries_snoc [of "Suc 0" "Suc (Suc 0)" P True R "[]" s]
  by simp (simp add: recon_queries.simps)

lemma demo_hash_leaf: "hash_leaf demo [1, 4, 1, n, 0, 0] = mk_bytes32 [0, 1, 4, 1, n, 0, 0]"
  by (simp add: hash_leaf_def demo_hash_def leaf_prefix_def)

lemma demo_leaf: "hash_leaf demo (canonical_bytes demo (demo_receipt n)) = mk_bytes32 [0, 1, 4, 1, n, 0, 0]"
  by (simp add: demo_canonical demo_hash_leaf)

lemma demo_root_node:
  "demo_root = hash_node demo (mk_bytes32 [0, 1, 4, 1, 4, 0, 0]) (mk_bytes32 [0, 1, 4, 1, 5, 0, 0])"
  by (simp add: log_root_def demo_leaf naive_root_two)

lemma demo_included: "verify_inclusion demo (demo_receipt 5) demo_proof demo_root"
  by (simp add: verify_inclusion_iff demo_proof_def demo_leaf demo_root_node max_proof_path_def)

lemma demo_apart: "log_apart demo demo_receipts (demo_receipt 5) (path demo_proof)"
proof -
  have node: "demo_hash (1 # array_bytes (mk_bytes32 [0, 1, 4, 1, 4, 0, 0]) @ array_bytes (mk_bytes32 [0, 1, 4, 1, 5, 0, 0])) =
      mk_bytes32 [1, 0, 1, 4, 1, 4, 0, 0, 0, 0, 1, 4, 1, 5, 0, 0, 0]"
    by (simp add: demo_hash_def array_bytes_mk numeral_eq_Suc)
  have "collision_free demo {[0, 1, 4, 1, 4, 0, 0], [0, 1, 4, 1, 5, 0, 0],
      1 # array_bytes (mk_bytes32 [0, 1, 4, 1, 4, 0, 0]) @ array_bytes (mk_bytes32 [0, 1, 4, 1, 5, 0, 0])}"
    by (simp add: collision_free_def node)
      (simp add: demo_hash_def array_bytes_mk numeral_eq_Suc flip: array_bytes_eq_iff)
  moreover have "inj_on demo_jcs (action_receipt_json ` {demo_receipt 5, demo_receipt 4})"
    using demo_canonical [of 4] demo_canonical [of 5] by (auto simp: canonical_bytes_def inj_on_def)
  ultimately show ?thesis
    by (simp add: log_apart_def leaf_queries_def demo_canonical demo_hash_leaf node_queries_two demo_proof_def
        leaf_prefix_def node_prefix_def insert_commute)
qed

lemma demo_attested:
  assumes "k \<noteq> 7"
  shows "attest demo (demo_signer k) demo_principal (chain_digest demo demo_chain1) (demo_seed n) (demo_seed n)
      demo_root demo_proof = Some (demo_attest k n)"
    and "attestation_signed demo (demo_attest k n)"
    and "attester_key (demo_attest k n) = demo_key k" and "ca_role (demo_attest k n) = ThirdParty"
    and "inclusion (demo_attest k n) = demo_proof"
    and "binding (demo_attest k n) = (chain_digest demo demo_chain1, demo_seed n, demo_seed n, demo_root)"
  using any_signer.attest_as_signed [OF demo_signer_ok [OF assms], of ThirdParty demo_principal
      "chain_digest demo demo_chain1" "demo_seed n" "demo_seed n" demo_root demo_proof]
  by (auto simp: demo_attest_def attest_def)

lemma demo_executor: "executor_key demo_chain1 = demo_key 7"
  using demo_chain1_tail(2) demo_chain1_length
  by (cases "delegations demo_chain1") (auto simp: chain_tail_def executor_key_def block_tail_def)

lemma demo_chain1_ok: "chain_ok demo demo_chain1 (demo_key 1)"
  by (rule built_ok) (rule demo_built1)

lemma demo_vouches:
  "k \<noteq> 7 \<Longrightarrow> demo_key k \<in> set trusted \<Longrightarrow>
     vouches demo demo_chain1 (demo_receipt 5) demo_root (policy_third_party trusted) (demo_attest k 5)"
  by (simp add: vouches_def demo_attested demo_included attester_is_anchored_iff policy_third_party_def)
    (simp add: demo_receipt_def)

lemma demo_action_accepted:
  "verify demo (demo_action 9) (demo_key 1) demo_root (policy_third_party [demo_key 9]) = Inr (demo_scope 2)"
  by (simp add: verify_iff demo_action_def demo_chain1_ok demo_chain1_tail demo_vouches demo_attested demo_executor)
    (simp add: demo_receipt_def)

text \<open>The same action vouched for by two notaries.\<close>

definition demo_bundle :: verifiable_threshold_action where
  "demo_bundle =
     \<lparr>vt_chain = demo_chain1, vt_receipt = demo_receipt 5,
      vt_completion = \<lparr>attestations = [demo_attest 8 5, demo_attest 9 5], ta_threshold = 2\<rparr>\<rparr>"

lemma demo_bundle_accepted:
  "verify_threshold demo demo_bundle (demo_key 1) demo_root 2 (policy_third_party [demo_key 8, demo_key 9]) =
     Inr (demo_scope 2)"
  by (simp add: verify_threshold_iff threshold_verify_iff demo_bundle_def demo_chain1_ok demo_chain1_tail demo_vouches
      demo_attested demo_executor)
    (simp add: demo_receipt_def)

text \<open>A receipt of the same chain that is not in the log.\<close>

definition demo_omitted :: verifiable_action where
  "demo_omitted = (demo_action 9)\<lparr>va_receipt := demo_receipt 6\<rparr>"

lemma demo_omitted_proof: "\<not> verify_inclusion demo (demo_receipt 6) demo_proof demo_root"
  by (simp add: verify_inclusion_iff demo_proof_def demo_leaf demo_root_node hash_node_def demo_hash_def node_prefix_def)
    (simp add: array_bytes_mk numeral_eq_Suc flip: array_bytes_eq_iff)

text \<open>A receipt whose action digest is bound to the purpose of the last hop.\<close>

definition demo_bound_receipt :: action_receipt where
  "demo_bound_receipt = (demo_receipt 5)\<lparr>action_digest := bind_action demo ''down'' (demo_seed 3)\<rparr>"

lemma demo_purpose_down: "delegations demo_chain1 \<noteq> [] \<and> purpose (last (delegations demo_chain1)) = ''down''"
proof -
  from attenuate_iff [THEN iffD1, OF demo_chain1_attenuate] obtain st k p h sig where
    "demo_chain1 = demo_chain0\<lparr>delegations := delegations demo_chain0 @
       [\<lparr>db_from = p, from_key = k, db_to = demo_principal, to_key = demo_key 7, db_scope = demo_scope 2,
         purpose = ''down'', prev_block_hash = h, db_signature = sig\<rparr>]\<rparr>" by blast
  from arg_cong [OF this, of delegations] show ?thesis by simp
qed

lemma demo_bound_accepted:
  obtains act where "va_chain act = demo_chain1" and "va_receipt act = demo_bound_receipt"
    and "verify_with_purpose demo act (demo_key 1) (hash_leaf demo (canonical_bytes demo demo_bound_receipt))
      (policy_third_party [demo_key 9]) (demo_seed 3) = Inr (demo_scope 2)"
proof -
  obtain i w where "witness_append demo witness_new demo_bound_receipt = (i, w)" by fastforce
  from witness_append_ok [OF witness_ok_new this] have
    w: "witness_ok demo w" "0 < length (leaf_hashes w)"
      "leaf_hashes w ! 0 = hash_leaf demo (canonical_bytes demo demo_bound_receipt)" "length (leaf_hashes w) \<le> 2 ^ 64"
    and root: "naive_root demo (leaf_hashes w) = hash_leaf demo (canonical_bytes demo demo_bound_receipt)"
    by simp_all
  have receipt: "chain_digest_of demo_bound_receipt = chain_digest demo demo_chain1"
    by (simp add: demo_bound_receipt_def demo_receipt_def)
  have notary: "signer_ok demo (demo_signer 9)" "sg_public_key (demo_signer 9) \<noteq> executor_key demo_chain1"
      "sg_public_key (demo_signer 9) \<in> set [demo_key 9]"
    by (rule demo_signer_ok) (simp_all add: demo_executor)
  from verify_complete [OF demo_chain1_ok receipt w notary] root obtain act where
    act: "va_chain act = demo_chain1" "va_receipt act = demo_bound_receipt"
    and "verify demo act (demo_key 1) (hash_leaf demo (canonical_bytes demo demo_bound_receipt))
      (policy_third_party [demo_key 9]) = Inr (demo_scope 2)"
    by (metis demo_chain1_tail(1) verifiable_action.select_convs(1,2))
  moreover from act have "verify_action_purpose_binding demo act (demo_seed 3) = Inr ()"
    using demo_purpose_down by (simp add: purpose_binding_iff demo_bound_receipt_def)
  ultimately show thesis using that by (simp add: purpose_gate.accepts_iff)
qed

lemma demo_binding_apart:
  "collision_free demo {bind_action_bytes ''down'' (demo_seed 3), bind_action_bytes ''down'' (demo_seed 4)}"
proof -
  have "array_bytes (demo_hash (bind_action_bytes ''down'' (demo_seed n))) ! 1 = n" for n
    by (simp add: bind_action_bytes_def demo_hash_def array_bytes_mk action_digest_domain_def nth_append rev_nth)
  from this [of 3] this [of 4] show ?thesis
    by (auto simp: collision_free_def inj_on_def)
qed

end
