(* ===== verification/Demo_Scenarios.thy ===== *)
theory Demo_Scenarios
  imports Scenarios Sidecar Demo_Log
begin

text \<open>
  The instance of \<^verbatim>\<open>Demo\<close> for the witnesses of the scenarios and the sidecar.
\<close>

lemma fill_demo: "fill b = demo_seed b"
  by (simp add: fill_def demo_seed_def)

lemma demo_chain_image: "demo_jcs (chain_json c) = [1, 2]"
  by (cases "delegations c")
    (simp_all add: chain_json_def list_json_def root_block_json_def delegation_block_json_def)

lemma demo_canonical_image:
  "canonical_bytes demo
     \<lparr>chain_digest_of = chain_digest demo c, action_digest = demo_seed a, nonce = demo_seed n, prev_root = p\<rparr> =
   [1, 4, 1, a, n, hd (array_bytes p)]"
  by (cases "array_bytes p")
    (simp_all add: canonical_bytes_def action_receipt_json_def array_json_def bytes_json_def
      chain_digest_def demo_chain_image demo_hash_def array_bytes_mk numeral_eq_Suc)

lemma demo_first_canonical:
  "canonical_bytes demo (first_receipt demo c (fill 42)) = [1, 4, 1, 42, 205, 0]"
  "canonical_bytes demo (omitted_receipt demo c) = [1, 4, 1, 99, 205, 0]"
  by (simp_all add: first_receipt_def omitted_receipt_def fill_demo demo_canonical_image empty_root_def demo_hash_def
      hash_leaf_def leaf_prefix_def array_bytes_mk)


lemma demo_scenario_log:
  "log_apart demo [first_receipt demo c (fill 42)] (omitted_receipt demo c) []"
  "log_root demo [first_receipt demo c (fill 42)] \<noteq> fill 123"
proof -
  have leaves: "demo_hash [0, 1, 4, 1, 42, 205, 0] = mk_bytes32 [0, 1, 4, 1, 42, 205, 0]"
    "demo_hash [0, 1, 4, 1, 99, 205, 0] = mk_bytes32 [0, 1, 4, 1, 99, 205, 0]"
    by (simp_all add: demo_hash_def)
  have "array_bytes (mk_bytes32 [0, 1, 4, 1, 42, 205, 0]) ! 4 \<noteq> array_bytes (mk_bytes32 [0, 1, 4, 1, 99, 205, 0]) ! 4"
    by (simp add: array_bytes_mk nth_append)
  then have "collision_free demo {[0, 1, 4, 1, 42, 205, 0], [0, 1, 4, 1, 99, 205, 0]}"
    by (auto simp: collision_free_def leaves)
  moreover have "inj_on demo_jcs (action_receipt_json ` {omitted_receipt demo c, first_receipt demo c (fill 42)})"
    using demo_first_canonical [of c] by (auto simp: canonical_bytes_def inj_on_def)
  ultimately show "log_apart demo [first_receipt demo c (fill 42)] (omitted_receipt demo c) []"
    by (simp add: log_apart_def leaf_queries_def demo_first_canonical leaf_prefix_def node_queries.simps insert_commute)
  have "array_bytes (mk_bytes32 [0, 1, 4, 1, 42, 205, 0]) ! 0 \<noteq> array_bytes (fill 123) ! 0"
    by (simp add: fill_def array_bytes_mk)
  then show "log_root demo [first_receipt demo c (fill 42)] \<noteq> fill 123"
    by (auto simp: log_root_def demo_first_canonical hash_leaf_def leaf_prefix_def leaves)
qed

lemma demo_cases_apart: "cases_apart demo"
  by (simp add: cases_apart_def fill_demo demo_ed_good demo_scenario_log [unfolded fill_demo] split: option.split)

text \<open>The hexadecimal codec of the instance.\<close>

lemma demo_hex_ok: "hex_ok demo"
proof -
  have "of_nat (of_char (char_of (unat b) :: char)) = b" for b :: u8
    using unsigned_less [of b, where ?'a = nat] by simp
  then show ?thesis by (simp add: hex_ok_def demo_def str_bytes_def comp_def del: of_char_of)
qed

end
