(* ===== verification/Demo_Map.thy ===== *)
theory Demo_Map
  imports Verifier Demo
begin

text \<open>
  A second instance of the third-party functions, for the witnesses of the revocation map
  and of what rests on it. Its hash reads the number its left child stands for and adds
  two, so the defaults of the map are the even numbers and the path of one present key the
  odd ones. Like \<^verbatim>\<open>Demo\<close> it models nothing of the code.
\<close>

section \<open>A hash that counts\<close>

definition num32 :: "nat \<Rightarrow> digest" where
  "num32 n = mk_bytes32 [of_nat (n div 256), of_nat n]"

definition tally :: "u8 list \<Rightarrow> nat" where
  "tally bs = 256 * unat (bs ! 0) + unat (bs ! 1)"

definition tally_hash :: "u8 list \<Rightarrow> digest" where
  "tally_hash bs =
     (if length bs = 65 \<and> hd bs = 1 then num32 (tally (tl bs) + 2)
      else if length bs = 33 \<and> hd bs = 0 then num32 1
      else num32 0)"

lemma tally_num32 [simp]: "n < 65536 \<Longrightarrow> tally (array_bytes (num32 n)) = n"
proof -
  assume "n < 65536"
  then have "n div 256 < 256" by simp
  then have "n div 256 mod 256 = n div 256" by (rule mod_less)
  then show ?thesis by (simp add: tally_def num32_def array_bytes_mk unat_of_nat)
qed

lemma num32_inject: "m < 65536 \<Longrightarrow> n < 65536 \<Longrightarrow> num32 m = num32 n \<longleftrightarrow> m = n"
  by (metis tally_num32)

definition demo_map :: prims where
  "demo_map = demo\<lparr>blake3 := tally_hash\<rparr>"

lemma demo_map_simps [simp]:
  "blake3 demo_map = tally_hash" "jcs demo_map = demo_jcs" "ed_key_ok demo_map k" "ed_check demo_map = demo_check"
  "ed_public demo_map = array_bytes" "ed_raw_sign demo_map seed = demo_sign (array_bytes seed)"
  by (simp_all add: demo_map_def demo_def)

lemma demo_map_signer_ok: "b \<noteq> 7 \<Longrightarrow> signer_ok demo_map (ed25519_from_seed demo_map (demo_seed b))"
  by (rule ed.ok) (simp add: ed_good_def demo_check_def demo_sign_def)

lemma tally_node: "tally_hash (map_node_bytes l r) = num32 (tally (array_bytes l) + 2)"
proof -
  have "tally (array_bytes l @ array_bytes r) = tally (array_bytes l)"
    by (simp add: tally_def nth_append)
  then show ?thesis by (simp add: tally_hash_def node_tag_def)
qed

lemma tally_leaf: "tally_hash ([leaf_tag] @ array_bytes k) = num32 1"
  by (simp add: tally_hash_def leaf_tag_def)

lemma tally_domain: "tally_hash empty_leaf_domain = num32 0"
  by (simp add: tally_hash_def empty_leaf_domain_def str_bytes_def)

section \<open>Defaults\<close>

lemma tally_default: "h \<le> 256 \<Longrightarrow> default_at_height demo_map h = num32 (2 * h)"
  by (induction h) (simp_all add: empty_leaf_def tally_domain node_hash_def tally_node [simplified])

abbreviation zero_key :: bytes32 where
  "zero_key \<equiv> num32 0"

lemma zero_key_bits: "\<not> kbit zero_key d"
proof -
  have "be_value (replicate n 0) = 0" for n
    by (induction n) (simp_all add: be_value_Cons, simp add: be_value_def)
  moreover have "array_bytes zero_key = take 32 (replicate (Suc (Suc 32)) 0)"
    by (simp only: num32_def array_bytes_mk replicate_Suc) simp
  ultimately show ?thesis by (simp add: kbit_def key_num_def)
qed

definition present_node :: "nat \<Rightarrow> u8 list" where
  "present_node h = map_node_bytes (num32 (2 * h + 1)) (num32 (2 * h))"

definition default_node :: "nat \<Rightarrow> u8 list" where
  "default_node h = map_node_bytes (num32 (2 * h)) (num32 (2 * h))"

text \<open>The encodings met along the path of the key, be it present or absent.\<close>

definition path_images :: "u8 list set" where
  "path_images = {empty_leaf_domain, [leaf_tag] @ array_bytes zero_key} \<union>
     default_node ` {..<256} \<union> present_node ` {..<256}"

lemma path_imagesI: "h < 256 \<Longrightarrow> default_node h \<in> path_images" "h < 256 \<Longrightarrow> present_node h \<in> path_images"
  by (simp_all add: path_images_def)

lemma path_images_apart: "collision_free demo_map path_images"
proof -
  define g where "g d = (let n = tally (array_bytes d) in
    if n = 0 then empty_leaf_domain else if n = 1 then [leaf_tag] @ array_bytes zero_key
    else if even n then default_node (n div 2 - 1) else present_node (n div 2 - 1))" for d :: digest
  have "tally_hash (default_node h) = num32 (2 * h + 2)" "tally_hash (present_node h) = num32 (2 * h + 3)" if "h < 256" for h
    using that tally_node [of "num32 (2 * h)" "num32 (2 * h)"] tally_node [of "num32 (2 * h + 1)" "num32 (2 * h)"]
    by (simp_all add: default_node_def present_node_def numeral_3_eq_3)
  moreover have "(2 * h + 3) div 2 - 1 = h" for h :: nat by simp
  ultimately have "g (tally_hash x) = x" if "x \<in> path_images" for x
    using that unfolding path_images_def
    by (elim UnE insertE imageE emptyE) (simp_all add: g_def Let_def tally_domain tally_leaf [simplified])
  then show ?thesis
    unfolding collision_free_def demo_map_simps by (rule inj_on_inverseI)
qed

lemma default_images: "default_queries demo_map \<subseteq> path_images"
  by (auto simp: default_queries_def path_images_def default_node_def tally_default)

section \<open>Two maps\<close>

text \<open>The empty map, and the map of one key; the siblings on the path are the same.\<close>

lemma empty_subtree: "map_subtree_root demo_map [] d = num32 (2 * (256 - d))"
  by (subst map_subtree_root.simps) (simp add: default_at_depth_def depth_max_def tally_default)

lemma empty_side [simp]: "side [] d b = []"
  by (simp add: side_def)

lemma zero_side [simp]: "side [zero_key] d b = (if b then [] else [zero_key])"
  by (simp add: side_def zero_key_bits)

lemma zero_span: "span [zero_key] d"
  by (simp add: span_def agree_def)

lemma zero_subtree: "d \<le> 256 \<Longrightarrow> map_subtree_root demo_map [zero_key] d = num32 (2 * (256 - d) + 1)"
proof (induction "256 - d" arbitrary: d)
  case 0
  then have "d = 256" by simp
  then show ?case by (simp add: root_end leaf_hash_def tally_leaf [simplified])
next
  case (Suc n)
  then have d: "d < 256" by simp
  have "map_subtree_root demo_map [zero_key] (Suc d) = num32 (2 * (256 - Suc d) + 1)"
    using Suc.hyps d by (intro Suc.hyps(1)) simp_all
  then have "map_subtree_root demo_map [zero_key] d = num32 (2 * (256 - Suc d) + 1 + 2)"
    using d root_split [OF zero_span d, of demo_map] tally_node [of "num32 (2 * (256 - Suc d) + 1)"]
    by (simp add: node_hash_def)
  moreover have "2 * (256 - Suc d) + 1 + 2 = 2 * (256 - d) + 1" using d by simp
  ultimately show ?case by (simp only:)
qed

lemma empty_queries: "d \<le> 256 \<Longrightarrow> map_queries demo_map [] d \<subseteq> path_images"
proof (induction "256 - d" arbitrary: d)
  case 0
  then have "d = 256" by simp
  then show ?case by (simp add: map_queries_end path_images_def)
next
  case (Suc n)
  then have d: "d < 256" by simp
  have "map_queries demo_map [] (Suc d) \<subseteq> path_images"
    using Suc.hyps d by (intro Suc.hyps(1)) simp_all
  moreover have "map_node_bytes (num32 (2 * (256 - Suc d))) (num32 (2 * (256 - Suc d))) \<in> path_images"
    using path_imagesI(1) [of "256 - Suc d"] d unfolding default_node_def by simp
  ultimately show ?case using d by (simp add: map_queries_step empty_subtree)
qed

lemma zero_queries: "d \<le> 256 \<Longrightarrow> map_queries demo_map [zero_key] d \<subseteq> path_images"
proof (induction "256 - d" arbitrary: d)
  case 0
  then have "d = 256" by simp
  then show ?case by (simp add: map_queries_end path_images_def)
next
  case (Suc n)
  then have d: "d < 256" by simp
  have "map_queries demo_map [zero_key] (Suc d) \<subseteq> path_images"
    using Suc.hyps d by (intro Suc.hyps(1)) simp_all
  moreover have "map_node_bytes (num32 (2 * (256 - Suc d) + 1)) (num32 (2 * (256 - Suc d))) \<in> path_images"
    using path_imagesI(2) [of "256 - Suc d"] d unfolding present_node_def by simp
  ultimately show ?case
    using d empty_queries [of "Suc d"] by (simp add: map_queries_step empty_subtree zero_subtree)
qed

definition demo_empty :: revocation_map where
  "demo_empty = revmap_new"

definition demo_single :: revocation_map where
  "demo_single = revmap_revoke revmap_new zero_key"

lemma demo_maps [simp]:
  "map_keys demo_empty = []" "map_keys demo_single = [zero_key]" "revmap_ok demo_empty" "revmap_ok demo_single"
  by (simp_all add: demo_empty_def demo_single_def revmap_new_def revmap_revoke_def binary_search_def revmap_ok_def)

lemma demo_maps_apart:
  assumes "X \<subseteq> path_images"
  shows "map_apart demo_map demo_empty X" and "map_apart demo_map demo_single X"
  using collision_free_mono [OF path_images_apart] assms default_images empty_queries [of 0] zero_queries [of 0]
  by (simp_all add: map_apart_def)

section \<open>The proofs of the key\<close>

lemma demo_siblings:
  "ks \<in> {[], [zero_key]} \<Longrightarrow> d + n = 256 \<Longrightarrow>
     sibling_list demo_map ks zero_key d n = map (\<lambda>i. num32 (2 * (255 - i))) [d..<256]"
proof (induction n arbitrary: ks d)
  case (Suc n)
  then have d: "d < 256" by simp
  then have upto: "[d..<256] = d # [Suc d..<256]" by (rule upt_conv_Cons)
  have "side ks d False \<in> {[], [zero_key]}" "side ks d True = []" using Suc.prems(1) by auto
  with Suc.IH [of "side ks d False" "Suc d"] Suc.prems(2) d show ?case
    by (simp add: zero_key_bits empty_subtree upto del: upt_Suc)
qed simp

abbreviation demo_full :: "digest list" where
  "demo_full \<equiv> map (\<lambda>i. num32 (2 * (255 - i))) [0..<256]"

lemma demo_fold:
  assumes "c \<le> 1"
  shows "d \<le> 256 \<Longrightarrow> foldr (fold_level demo_map zero_key demo_full) [d..<256] (num32 c) = num32 (2 * (256 - d) + c)"
proof (induction "256 - d" arbitrary: d)
  case (Suc n)
  then have d: "d < 256" by simp
  then have upto: "[d..<256] = d # [Suc d..<256]" by (rule upt_conv_Cons)
  have "foldr (fold_level demo_map zero_key demo_full) [Suc d..<256] (num32 c) = num32 (2 * (256 - Suc d) + c)"
    using Suc.hyps d by (intro Suc.hyps(1)) simp_all
  moreover have "2 * (256 - Suc d) + c < 65536" using assms by simp
  moreover have "2 * (256 - Suc d) + c + 2 = 2 * (256 - d) + c" using d by simp
  ultimately show ?case
    unfolding upto foldr.simps comp_apply
    using tally_node [of "num32 (2 * (256 - Suc d) + c)" "demo_full ! d"]
    by (simp only: fold_level_def key_bit_iff [OF d] zero_key_bits if_False if_True simp_thms node_hash_def
        demo_map_simps tally_num32)
qed simp

lemma demo_prove:
  assumes "m \<in> {demo_empty, demo_single}"
  shows "proof_expand demo_map (revmap_prove demo_map m zero_key) = Some demo_full"
proof -
  have "revmap_ok m" "map_apart demo_map m {}" using assms demo_maps_apart [of "{}"] by auto
  moreover have "map_keys m \<in> {[], [zero_key]}" using assms by auto
  ultimately show ?thesis using revmap_prove_full(2) [of m demo_map "{}" zero_key] demo_siblings [of "map_keys m" 0 256]
    by simp
qed

lemma demo_levels:
  assumes "c \<le> 1" and "m \<in> {demo_empty, demo_single}"
  shows "proof_queries demo_map zero_key (num32 c) (revmap_prove demo_map m zero_key) \<subseteq> path_images"
proof -
  have "level_bytes demo_map zero_key demo_full (num32 c) d \<in> path_images" if d: "d < 256" for d
  proof -
    have "level_bytes demo_map zero_key demo_full (num32 c) d =
        map_node_bytes (num32 (2 * (255 - d) + c)) (num32 (2 * (255 - d)))"
      using demo_fold [OF assms(1), of "Suc d"] d
      by (simp only: level_bytes_def Let_def zero_key_bits if_False) simp
    moreover have "c = 0 \<or> c = 1" using assms(1) by linarith
    ultimately show ?thesis
      using path_imagesI [of "255 - d"] d by (auto simp: default_node_def present_node_def)
  qed
  with demo_prove [OF assms(2)] show ?thesis by (auto simp: proof_queries_def)
qed

lemma demo_query_apart:
  assumes "m \<in> {demo_empty, demo_single}"
  shows "query_apart demo_map m zero_key (revmap_prove demo_map m zero_key)"
proof -
  have "leaf_hash demo_map zero_key = num32 1" "empty_leaf demo_map = num32 0"
    by (simp_all add: leaf_hash_def empty_leaf_def tally_leaf [simplified] tally_domain)
  moreover have "[leaf_tag] @ array_bytes zero_key \<in> path_images" by (simp add: path_images_def)
  ultimately have "{[leaf_tag] @ array_bytes zero_key} \<union>
      proof_queries demo_map zero_key (leaf_hash demo_map zero_key) (revmap_prove demo_map m zero_key) \<union>
      proof_queries demo_map zero_key (empty_leaf demo_map) (revmap_prove demo_map m zero_key) \<subseteq> path_images"
    using demo_levels [of 1 m] demo_levels [of 0 m] assms by simp
  from demo_maps_apart [OF this] assms show ?thesis by (auto simp: query_apart_def)
qed

section \<open>An operator\<close>

text \<open>One checkpoint of the empty map, and the proof it serves for the key.\<close>

abbreviation demo_operator :: signer where
  "demo_operator \<equiv> ed25519_from_seed demo_map (demo_seed 3)"

definition demo_checkpoint :: map_checkpoint where
  "demo_checkpoint =
     \<lparr>mc_epoch = 0, mc_map_root = revmap_root demo_map demo_empty, mc_prev_log_root = naive_root demo_map []\<rparr>"

abbreviation demo_history :: history where
  "demo_history \<equiv> [(demo_checkpoint, demo_empty)]"

definition demo_lb :: log_backed where
  "demo_lb = snd (the (publish_checkpoint demo_map log_backed_new demo_operator))"

definition demo_status :: log_backed_proof where
  "demo_status = the (fst (the (lb_prove demo_map demo_lb zero_key demo_operator)))"

lemma demo_operated: "operated demo_map demo_lb demo_history" and demo_lb_map: "lb_map demo_lb = demo_empty"
proof -
  have sg: "signer_ok demo_map demo_operator" by (rule demo_map_signer_ok) simp
  from lb_inv_publish [OF lb_inv_new sg] obtain sth lb c where
    p: "publish_checkpoint demo_map log_backed_new demo_operator = Some (sth, lb)" "lb_map lb = demo_empty"
      "lb_inv demo_map lb ([] @ [(c, demo_empty)])"
    by (auto simp: log_backed_new_def demo_empty_def)
  then have lb: "demo_lb = lb" by (simp add: demo_lb_def)
  from p(3) have c: "c = demo_checkpoint" and latest: "lb_latest lb = Some (c, 0)"
    by (auto simp: lb_inv_def demo_checkpoint_def history_leaves_def)
  from operated.publish [OF operated.fresh sg p(1) latest] show "operated demo_map demo_lb demo_history"
    by (simp add: lb c log_backed_new_def demo_empty_def)
  show "lb_map demo_lb = demo_empty" by (simp add: lb p(2))
qed

lemma demo_status_proved:
  "verify_not_revoked demo_map demo_status zero_key (demo_key 3)"
  "lp_checkpoint demo_status = demo_checkpoint" "lp_map_proof demo_status = revmap_prove demo_map demo_empty zero_key"
  "path (lp_inclusion demo_status) = []" "head_of demo_map (history_leaves demo_map demo_history) (lp_sth demo_status)"
proof -
  have sg: "signer_ok demo_map demo_operator" by (rule demo_map_signer_ok) simp
  have inv: "lb_inv demo_map demo_lb demo_history" using operated_inv [OF demo_operated] by simp
  have apart: "map_apart demo_map (lb_map demo_lb) {}" by (simp add: demo_lb_map demo_maps_apart)
  have current: "revmap_root demo_map (lb_map demo_lb) = mc_map_root (fst (last demo_history))"
    by (simp add: demo_lb_map demo_checkpoint_def)
  show "verify_not_revoked demo_map demo_status zero_key (demo_key 3)"
    using lb_prove_complete [OF inv sg _ _ current apart, of zero_key]
    by (auto simp: demo_status_def demo_lb_map ed25519_from_seed_def)
  have ok: "witness_ok demo_map (lb_witness demo_lb)" and leaves: "leaf_hashes (lb_witness demo_lb) = history_leaves demo_map demo_history"
    and latest: "lb_latest demo_lb = Some (demo_checkpoint, 0)" using inv by (simp_all add: lb_inv_def)
  from prove_inclusion_ok [OF ok, of 0] obtain w1 where
    1: "prove_inclusion demo_map (lb_witness demo_lb) 0 = Some (Some \<lparr>leaf_index = 0, tree_size = 1, path = []\<rparr>, w1)"
      "witness_ok demo_map w1" "leaf_hashes w1 = history_leaves demo_map demo_history"
    by (auto simp: leaves)
  from any_signer.signed_head_ok [OF sg 1(2)] obtain sth w2 where
    2: "signed_head demo_map w1 demo_operator = Some (sth, w2)" "head_of demo_map (history_leaves demo_map demo_history) sth"
    by (auto simp: 1(3))
  have status: "demo_status = \<lparr>lp_checkpoint = demo_checkpoint, lp_map_proof = revmap_prove demo_map (lb_map demo_lb) zero_key,
      lp_inclusion = \<lparr>leaf_index = 0, tree_size = 1, path = []\<rparr>, lp_sth = sth\<rparr>"
    using current by (simp add: demo_status_def lb_prove_def latest 1(1) 2(1))
  show "lp_checkpoint demo_status = demo_checkpoint"
    "lp_map_proof demo_status = revmap_prove demo_map demo_empty zero_key"
    "path (lp_inclusion demo_status) = []" "head_of demo_map (history_leaves demo_map demo_history) (lp_sth demo_status)"
    by (simp_all add: status demo_lb_map 2(2))
qed

lemma node_queries_single [simp]: "node_queries P [h] = {}"
  by (subst node_queries.simps) simp

lemma demo_judged: "judged demo_map demo_history zero_key demo_status"
proof -
  have "proof_apart demo_map demo_history demo_status"
    using demo_status_proved(2,4)
    by (simp add: proof_apart_def history_data_def leaf_queries_def collision_free_def history_leaves_def Let_def)
  moreover have "query_apart demo_map demo_empty zero_key (lp_map_proof demo_status)"
    by (simp add: demo_status_proved demo_query_apart)
  ultimately show ?thesis
    using demo_status_proved(5) by (auto simp: judged_def demo_checkpoint_def intro!: exI [of _ 1])
qed

section \<open>A chain whose hop is not revoked\<close>

definition demo_hop_chain :: chain where
  "demo_hop_chain = the (chain_issue demo_map (ed25519_from_seed demo_map (demo_seed 1)) demo_principal (demo_scope 3))"

definition demo_evidence :: revocation_evidence where
  "demo_evidence = \<lparr>ev_log_key = demo_key 3, ev_proofs = (\<lambda>_. Some demo_status)\<rparr>"

lemma demo_hop_issue:
  "chain_issue demo_map (ed25519_from_seed demo_map (demo_seed 1)) demo_principal (demo_scope 3) = Some demo_hop_chain"
  by (simp add: demo_hop_chain_def chain_issue_def ed25519_from_seed_def Let_def)

lemma demo_hop_ok: "chain_ok demo_map demo_hop_chain (demo_key 1)"
  using built_ok [OF built.issued [OF demo_map_signer_ok demo_hop_issue]] by (simp add: ed25519_from_seed_def)

lemma demo_hop_id: "rev_bytes (revocation_id_from_signature demo_map sg) = array_bytes zero_key"
  by (simp add: revocation_id_from_signature_def tally_hash_def revocation_id_domain_def str_bytes_def)

lemma demo_hop_ids: "set (revocation_ids_for_chain demo_map demo_hop_chain) = {RevocationId (array_bytes zero_key)}"
proof -
  have "revocation_id_from_signature demo_map sg = RevocationId (array_bytes zero_key)" for sg
    using demo_hop_id [of sg] by (cases "revocation_id_from_signature demo_map sg") simp
  then show ?thesis by (auto simp: revocation_ids_for_chain_def)
qed

lemma demo_hop_passes: "verify_chain_not_revoked demo_map demo_hop_chain demo_evidence = Inr ()"
  and demo_hop_judged: "evidence_judged demo_map demo_history demo_hop_chain demo_evidence"
  using demo_status_proved(1) demo_judged
  by (auto simp: verify_chain_not_revoked_iff evidence_judged_def demo_hop_ids demo_evidence_def)

definition demo_hop_receipt :: action_receipt where
  "demo_hop_receipt =
     \<lparr>chain_digest_of = chain_digest demo_map demo_hop_chain, action_digest = demo_seed 5, nonce = demo_seed 0,
      prev_root = demo_seed 0\<rparr>"

definition demo_hop_root :: digest where
  "demo_hop_root = hash_leaf demo_map (canonical_bytes demo_map demo_hop_receipt)"

lemma demo_hop_accepted:
  obtains act where "va_chain act = demo_hop_chain"
    and "verify_with_revocation demo_map act (demo_key 1) demo_hop_root (policy_third_party [demo_key 9]) demo_evidence =
      Inr (demo_scope 3)"
proof -
  obtain i w where "witness_append demo_map witness_new demo_hop_receipt = (i, w)" by fastforce
  from witness_append_ok [OF witness_ok_new this] have
    w: "witness_ok demo_map w" "0 < length (leaf_hashes w)"
      "leaf_hashes w ! 0 = hash_leaf demo_map (canonical_bytes demo_map demo_hop_receipt)" "length (leaf_hashes w) \<le> 2 ^ 64"
    and root: "naive_root demo_map (leaf_hashes w) = demo_hop_root"
    by (simp_all add: demo_hop_root_def)
  have receipt: "chain_digest_of demo_hop_receipt = chain_digest demo_map demo_hop_chain"
    by (simp add: demo_hop_receipt_def)
  have issued: "delegations demo_hop_chain = []" "principal_key (chain_root demo_hop_chain) = demo_key 1"
      "rb_scope (chain_root demo_hop_chain) = demo_scope 3"
    by (simp_all add: demo_hop_chain_def chain_issue_def ed25519_from_seed_def Let_def)
  have notary: "signer_ok demo_map (ed25519_from_seed demo_map (demo_seed 9))"
      "sg_public_key (ed25519_from_seed demo_map (demo_seed 9)) \<noteq> executor_key demo_hop_chain"
      "sg_public_key (ed25519_from_seed demo_map (demo_seed 9)) \<in> set [demo_key 9]"
    by (rule demo_map_signer_ok) (simp_all add: ed25519_from_seed_def executor_key_def issued)
  have "fst (chain_tail demo_map demo_hop_chain) = demo_scope 3"
    by (simp add: chain_tail_def issued root_tail_def)
  with verify_complete [OF demo_hop_ok receipt w notary] root obtain act where "va_chain act = demo_hop_chain"
    "verify demo_map act (demo_key 1) demo_hop_root (policy_third_party [demo_key 9]) = Inr (demo_scope 3)"
    by (metis verifiable_action.select_convs(1))
  with that show thesis by (simp add: revocation_gate.accepts_iff demo_hop_passes)
qed

end
