(* ===== verification/Demo_Tests.thy ===== *)
theory Demo_Tests
  imports Pq_Tests Demo_Scenarios Demo_Map
begin

text \<open>
  The instances of \<^verbatim>\<open>Demo\<close> and \<^verbatim>\<open>Demo_Map\<close> for the witnesses of the acceptance tests.
\<close>

lemma demo_test_keys: "test_keys demo"
  by (simp add: test_keys_def fill_demo demo_ed_good)

lemma demo_test_canonical:
  "canonical_bytes demo (test_receipt demo c (fill 42)) = [1, 4, 1, 42, 171, 0]"
  "canonical_bytes demo (never_appended demo c) = [1, 4, 1, 99, 171, 0]"
  by (simp_all add: test_receipt_def never_appended_def fill_demo demo_canonical_image empty_root_def demo_hash_def
      hash_leaf_def leaf_prefix_def array_bytes_mk)

lemma demo_test_log:
  "log_apart demo [test_receipt demo c (fill 42)] (never_appended demo c) []"
  "log_root demo [test_receipt demo c (fill 42)] \<noteq> fill 123"
proof -
  have leaves: "demo_hash [0, 1, 4, 1, 42, 171, 0] = mk_bytes32 [0, 1, 4, 1, 42, 171, 0]"
    "demo_hash [0, 1, 4, 1, 99, 171, 0] = mk_bytes32 [0, 1, 4, 1, 99, 171, 0]"
    by (simp_all add: demo_hash_def)
  have "array_bytes (mk_bytes32 [0, 1, 4, 1, 42, 171, 0]) ! 4 \<noteq> array_bytes (mk_bytes32 [0, 1, 4, 1, 99, 171, 0]) ! 4"
    by (simp add: array_bytes_mk nth_append)
  then have "collision_free demo {[0, 1, 4, 1, 42, 171, 0], [0, 1, 4, 1, 99, 171, 0]}"
    by (auto simp: collision_free_def leaves)
  moreover have "inj_on demo_jcs (action_receipt_json ` {never_appended demo c, test_receipt demo c (fill 42)})"
    using demo_test_canonical [of c] by (auto simp: canonical_bytes_def inj_on_def)
  ultimately show "log_apart demo [test_receipt demo c (fill 42)] (never_appended demo c) []"
    by (simp add: log_apart_def leaf_queries_def demo_test_canonical leaf_prefix_def node_queries.simps insert_commute)
  have "array_bytes (mk_bytes32 [0, 1, 4, 1, 42, 171, 0]) ! 0 \<noteq> array_bytes (fill 123) ! 0"
    by (simp add: fill_def array_bytes_mk)
  then show "log_root demo [test_receipt demo c (fill 42)] \<noteq> fill 123"
    by (auto simp: log_root_def demo_test_canonical hash_leaf_def leaf_prefix_def leaves)
qed

lemma demo_tests_apart: "tests_apart demo"
proof -
  have "bind_action demo ''wire funds offshore'' (fill 7) \<noteq> bind_action demo ''settle fare'' (fill 7)"
  proof -
    have "array_bytes (bind_action demo purp (fill 7)) ! 0 = of_nat (73 + length purp)" for purp
      by (simp add: bind_action_def demo_hash_def bind_action_bytes_def action_digest_domain_def array_bytes_mk)
    from this [of "''wire funds offshore''"] this [of "''settle fare''"] show ?thesis by auto
  qed
  then show ?thesis
    by (simp add: tests_apart_def demo_test_keys demo_test_log split: option.split)
qed

lemma demo_gate_apart: "gate_apart demo_map"
proof -
  have good: "ed_good demo_map (fill b)" if "b \<noteq> 7" for b
    using that by (simp add: fill_demo ed_good_def demo_check_def demo_sign_def)
  then have "test_keys demo_map" "ed_good demo_map (fill 77)" by (simp_all add: test_keys_def fill_demo)
  moreover have "\<not> ed_check demo_map (ed_public demo_map (fill 88)) m (ed_raw_sign demo_map (fill 77) m)" for m
    by (simp add: fill_demo demo_check_def demo_sign_def)
  moreover have "map_apart demo_map revmap_new {}" using demo_maps_apart(1) [of "{}"] by (simp add: demo_empty_def)
  moreover have "id_key (revocation_ids_for_chain demo_map c ! 2) = zero_key" if "length (delegations c) = 3" for c
    using that by (simp add: id_key_def revocation_ids_for_chain_def demo_hop_id)
  then have "id_key (revocation_ids_for_chain demo_map (w_chain w) ! 2) = zero_key"
    "revoked_map demo_map (w_chain w) = demo_single" if "build_world demo_map = Some w" for w
    using built_world_last(1) [OF that] by (simp_all add: revoked_map_def demo_single_def)
  ultimately show ?thesis
    using demo_query_apart [of demo_single] by (simp add: gate_apart_def Let_def split: option.split)
qed

text \<open>Generators that return another key at every call.\<close>

definition demo_rng :: "nat \<Rightarrow> bytes32 option" where
  "demo_rng n = Some (demo_seed (of_nat n + 10))"

definition demo_keygen :: "nat \<Rightarrow> string + u8 list" where
  "demo_keygen n = Inr [of_nat n + 10]"

lemma demo_generators_ok: "generators_ok demo demo_rng demo_keygen"
proof -
  have fits: "fits_frame (demo_signer b)" "fits_frame (mldsa_signer demo [b])" for b
    by (auto simp: fits_frame_def mldsa_signer_def ed25519_from_seed_def demo_sign_def)
  have mldsa: "mldsa_good demo [b]" if "b \<noteq> 7" for b
    using that by (simp add: mldsa_good_def demo_check_def demo_sign_def)
  have hybrid: "hybrid_good demo (demo_signer b, mldsa_signer demo [b], projr (hybrid_new (demo_signer b) (mldsa_signer demo [b])))"
    if "b \<noteq> 7" for b
    using that fits mldsa.ok [OF mldsa [OF that]] demo_signer_ok [OF that]
    by (simp add: hybrid_good_def hybrid_new_def mldsa_signer_def ed25519_from_seed_def frame_two_def encode_component_def Let_def)
  have seeds: "(of_nat n + 10 :: u8) \<noteq> 7" if "n < 5" for n
  proof -
    have "n = 0 \<or> n = 1 \<or> n = 2 \<or> n = 3 \<or> n = 4" using that by linarith
    then show ?thesis by auto
  qed
  have "pad32 [13] \<noteq> pad32 [14]" by (auto dest: arg_cong [of _ _ hd])
  moreover have "\<exists>sd sk h. demo_rng n = Some sd \<and> demo_keygen n = Inr sk \<and> mldsa_good demo sk \<and>
      hybrid_good demo (ed25519_from_seed demo sd, mldsa_signer demo sk, h)" if "n < 5" for n
    using mldsa [OF seeds [OF that]] hybrid [OF seeds [OF that]] by (auto simp: demo_rng_def demo_keygen_def)
  ultimately show ?thesis by (simp add: generators_ok_def demo_keygen_def)
qed

end
