(* ===== verification/Checkpoint.thy ===== *)
theory Checkpoint
  imports Text Consistency
begin

text \<open>
  The crate \<^verbatim>\<open>clients/checkpoint\<close>: a signed tree head as a signed note of three body
  lines, its signature lines, a witness that cosigns a log's heads, and the quorum over
  its cosignatures. The em dash of a signature line is its three UTF-8 bytes.
\<close>

section \<open>Notes\<close>

definition ed25519_note_alg :: u8 where
  "ed25519_note_alg = 1"

record checkpoint =
  cp_origin :: string
  cp_size :: nat
  cp_root :: digest

definition checkpoint_from_sth :: "string \<Rightarrow> signed_tree_head \<Rightarrow> checkpoint" where
  "checkpoint_from_sth org h = \<lparr>cp_origin = org, cp_size = sth_size h, cp_root = sth_root h\<rparr>"

definition checkpoint_body :: "prims \<Rightarrow> checkpoint \<Rightarrow> string" where
  "checkpoint_body P c =
     cp_origin c @ [nl] @ decimal (cp_size c) @ [nl] @ b64_encode P (array_bytes (cp_root c)) @ [nl]"

definition key_hash :: "prims \<Rightarrow> string \<Rightarrow> u8 list \<Rightarrow> u8 list" where
  "key_hash P name pubkey =
     take 4 (array_bytes (sha256 P (str_bytes name @ str_bytes [nl] @ [ed25519_note_alg] @ pubkey)))"

definition sig_marker :: string where
  "sig_marker = [CHR 0xE2, CHR 0x80, CHR 0x94, CHR 0x20]"

text \<open>\<^verbatim>\<open>None\<close> is the panic of \<^verbatim>\<open>expect("ed25519 sign")\<close>.\<close>

definition signature_line :: "prims \<Rightarrow> string \<Rightarrow> signer \<Rightarrow> string \<Rightarrow> string option" where
  "signature_line P body sg key_name =
     (case sg_sign sg (str_bytes body) of
        Inl _ \<Rightarrow> None
      | Inr s \<Rightarrow>
          Some (sig_marker @ key_name @ '' '' @
            b64_encode P (key_hash P key_name (pk_bytes (sg_public_key sg)) @ sig_bytes s) @ [nl]))"

definition sign_checkpoint :: "prims \<Rightarrow> signer \<Rightarrow> string \<Rightarrow> checkpoint \<Rightarrow> string option" where
  "sign_checkpoint P sg key_name c =
     (let body = checkpoint_body P c
      in case signature_line P body sg key_name of None \<Rightarrow> None | Some l \<Rightarrow> Some (body @ l))"

text \<open>The lines of a note, and its body lines apart from the rest.\<close>

definition note_lines :: "string \<Rightarrow> string list" where
  "note_lines note = (let ls = split_on nl note in if last ls = [] then butlast ls else ls)"

definition note_split :: "string \<Rightarrow> (string \<times> string list) option" where
  "note_split note =
     (let ls = note_lines note
      in case position (starts_with sig_marker) ls of
           None \<Rightarrow> None
         | Some sig_start \<Rightarrow>
             if sig_start < 3 then None
             else Some (join [nl] (take sig_start ls) @ [nl], drop sig_start ls))"

definition note_body :: "string \<Rightarrow> string option" where
  "note_body note = map_option fst (note_split note)"

text \<open>The outer \<^verbatim>\<open>None\<close> is the panic, the inner one a malformed note.\<close>

definition cosign :: "prims \<Rightarrow> string \<Rightarrow> signer \<Rightarrow> string \<Rightarrow> string option option" where
  "cosign P note sg key_name =
     (case note_body note of
        None \<Rightarrow> Some None
      | Some body \<Rightarrow>
          (case signature_line P body sg key_name of None \<Rightarrow> None | Some l \<Rightarrow> Some (Some (note @ l))))"

section \<open>Verification\<close>

text \<open>One round of the search for a valid line of the key; False is its \<^verbatim>\<open>continue\<close>.\<close>

definition line_verifies :: "prims \<Rightarrow> string \<Rightarrow> string \<Rightarrow> public_key \<Rightarrow> string \<Rightarrow> bool" where
  "line_verifies P body key_name pk l =
     (case strip_prefix_str sig_marker l of
        None \<Rightarrow> False
      | Some rest \<Rightarrow>
          (case split_once (CHR '' '') rest of
             None \<Rightarrow> False
           | Some (name, b64) \<Rightarrow>
               if name \<noteq> key_name then False
               else
                 (case b64_decode P b64 of
                    None \<Rightarrow> False
                  | Some blob \<Rightarrow>
                      if length blob \<noteq> 4 + 64 \<or> take 4 blob \<noteq> key_hash P key_name (pk_bytes pk) then False
                      else or_false (verify_signature P (str_bytes body)
                             \<lparr>sig_algorithm = Ed25519, sig_bytes = drop 4 blob\<rparr> pk))))"

definition parse_body :: "prims \<Rightarrow> string \<Rightarrow> checkpoint option" where
  "parse_body P body =
     (case str_lines body of
        org # sz # rt # _ \<Rightarrow>
          (case parse_usize sz of
             None \<Rightarrow> None
           | Some n \<Rightarrow>
               (case Option.bind (b64_decode P rt) try_bytes32 of
                  None \<Rightarrow> None
                | Some r \<Rightarrow> Some \<lparr>cp_origin = org, cp_size = n, cp_root = r\<rparr>))
      | _ \<Rightarrow> None)"

definition verify_checkpoint :: "prims \<Rightarrow> string \<Rightarrow> string \<Rightarrow> public_key \<Rightarrow> checkpoint option" where
  "verify_checkpoint P note key_name pk =
     (case note_split note of
        None \<Rightarrow> None
      | Some (body, sigs) \<Rightarrow>
          if \<not> list_ex (line_verifies P body key_name pk) sigs then None else parse_body P body)"

section \<open>The cosigning witness\<close>

datatype cosign_error =
    BadLogSignature
  | SizeMismatch nat
  | Rollback nat nat
  | InconsistentProof

record cosigning_witness =
  cw_signer :: signer
  cw_key_name :: string
  cw_log_origin :: string
  cw_log_key :: public_key
  cw_seen :: "(nat \<times> digest) option"

definition cosigning_witness_new :: "signer \<Rightarrow> string \<Rightarrow> string \<Rightarrow> public_key \<Rightarrow> cosigning_witness" where
  "cosigning_witness_new sg name org key =
     \<lparr>cw_signer = sg, cw_key_name = name, cw_log_origin = org, cw_log_key = key, cw_seen = None\<rparr>"

definition last_size :: "cosigning_witness \<Rightarrow> nat" where
  "last_size w = (case cw_seen w of None \<Rightarrow> 0 | Some (s, _) \<Rightarrow> s)"

text \<open>
  The state is updated before the cosignature is made; \<^verbatim>\<open>None\<close> is the panic of the
  signer.
\<close>

definition add_checkpoint ::
  "prims \<Rightarrow> cosigning_witness \<Rightarrow> string \<Rightarrow> nat \<Rightarrow> consistency_proof \<Rightarrow>
   ((cosign_error + string) \<times> cosigning_witness) option" where
  "add_checkpoint P w note old_size pf =
     (case verify_checkpoint P note (cw_log_origin w) (cw_log_key w) of
        None \<Rightarrow> Some (Inl BadLogSignature, w)
      | Some c \<Rightarrow>
          (let (our_size, our_root) = (case cw_seen w of None \<Rightarrow> (0, mk_bytes32 (replicate 32 0)) | Some s \<Rightarrow> s)
           in if old_size \<noteq> our_size then Some (Inl (SizeMismatch our_size), w)
              else if cp_size c < our_size then Some (Inl (Rollback our_size (cp_size c)), w)
              else if \<not> (if our_size = 0 then nodes pf = []
                         else verify_consistency P our_root (cp_root c) pf our_size (cp_size c))
              then Some (Inl InconsistentProof, w)
              else
                (let w' = w\<lparr>cw_seen := Some (cp_size c, cp_root c)\<rparr>
                 in case note_body note of
                      None \<Rightarrow> Some (Inl BadLogSignature, w')
                    | Some body \<Rightarrow>
                        (case signature_line P body (cw_signer w) (cw_key_name w) of
                           None \<Rightarrow> None
                         | Some l \<Rightarrow> Some (Inr l, w')))))"

section \<open>The quorum\<close>

text \<open>The loop carries the agreed checkpoint and the count; \<^verbatim>\<open>None\<close> is its early return.\<close>

fun quorum_loop ::
  "prims \<Rightarrow> string \<Rightarrow> (string \<times> public_key) list \<Rightarrow> checkpoint option \<Rightarrow> nat \<Rightarrow> (checkpoint option \<times> nat) option" where
  "quorum_loop P note [] agreed count = Some (agreed, count)"
| "quorum_loop P note ((name, key) # ws) agreed count =
     (case verify_checkpoint P note name key of
        None \<Rightarrow> quorum_loop P note ws agreed count
      | Some c \<Rightarrow>
          (case agreed of
             None \<Rightarrow> quorum_loop P note ws (Some c) (count + 1)
           | Some existing \<Rightarrow>
               if existing \<noteq> c then None else quorum_loop P note ws agreed (count + 1)))"

definition verify_quorum ::
  "prims \<Rightarrow> string \<Rightarrow> (string \<times> public_key) list \<Rightarrow> nat \<Rightarrow> checkpoint option" where
  "verify_quorum P note ws threshold =
     (case quorum_loop P note ws None 0 of
        None \<Rightarrow> None
      | Some (agreed, count) \<Rightarrow> if threshold \<le> count then agreed else None)"

section \<open>What base64 promises\<close>

definition b64_alphabet :: "char set" where
  "b64_alphabet = set ''ABCDEFGHIJKLMNOPQRSTUVWXYZabcdefghijklmnopqrstuvwxyz0123456789+/=''"

definition base64_ok :: "prims \<Rightarrow> bool" where
  "base64_ok P \<longleftrightarrow>
     (\<forall>bs. b64_decode P (b64_encode P bs) = Some bs \<and> set (b64_encode P bs) \<subseteq> b64_alphabet)"

lemma base64_decode [simp]: "base64_ok P \<Longrightarrow> b64_decode P (b64_encode P bs) = Some bs"
  by (simp add: base64_ok_def)

lemma base64_free:
  assumes "base64_ok P"
  shows "nl \<notin> set (b64_encode P bs)" and "CHR '' '' \<notin> set (b64_encode P bs)" and "cr \<notin> set (b64_encode P bs)"
    and "CHR 0xE2 \<notin> set (b64_encode P bs)"
proof -
  have "set (b64_encode P bs) \<subseteq> b64_alphabet" using assms by (simp add: base64_ok_def)
  moreover have "nl \<notin> b64_alphabet" "CHR '' '' \<notin> b64_alphabet" "cr \<notin> b64_alphabet" "CHR 0xE2 \<notin> b64_alphabet"
    by (simp_all add: b64_alphabet_def nl_def cr_def)
  ultimately show "nl \<notin> set (b64_encode P bs)" "CHR '' '' \<notin> set (b64_encode P bs)"
    "cr \<notin> set (b64_encode P bs)" "CHR 0xE2 \<notin> set (b64_encode P bs)" by blast+
qed

lemma strip_cr_free: "cr \<notin> set l \<Longrightarrow> strip_cr l = l"
  unfolding strip_cr_def by (metis last_in_set)

lemma marker_free: "CHR 0xE2 \<notin> set l \<Longrightarrow> \<not> starts_with sig_marker l"
  by (cases l) (auto simp: starts_with_def sig_marker_def)

lemma marker_no_nl: "nl \<notin> set sig_marker"
  by (simp add: sig_marker_def nl_def)

section \<open>The shape of a note\<close>

lemma note_lines_unlines:
  assumes "\<forall>l \<in> set ls. nl \<notin> set l"
  shows "note_lines (unlines ls) = ls"
  using split_unlines [OF assms, of "[]"] by (simp add: note_lines_def)

lemma note_lines_nl: "note = [] \<or> last note = nl \<longleftrightarrow> unlines (note_lines note) = note"
proof
  assume "note = [] \<or> last note = nl"
  then have "last (split_on nl note) = []" by (simp add: last_split_nil_iff)
  then show "unlines (note_lines note) = note"
    using unlines_split [of "note"] by (simp add: note_lines_def)
next
  assume *: "unlines (note_lines note) = note"
  have "unlines ls = [] \<or> last (unlines ls) = nl" for ls
    by (cases ls rule: rev_cases) simp_all
  from this [of "note_lines note"] * show "note = [] \<or> last note = nl" by simp
qed

lemma note_lines_free: "\<forall>l \<in> set (note_lines note). nl \<notin> set l"
  using split_on_lines [of nl "note"] by (auto simp: note_lines_def Let_def dest: in_set_butlastD)

lemma note_split_iff:
  "note_split note = Some (body, sigs) \<longleftrightarrow>
     (\<exists>i. position (starts_with sig_marker) (note_lines note) = Some i \<and> 3 \<le> i \<and>
        body = unlines (take i (note_lines note)) \<and> sigs = drop i (note_lines note))"
proof -
  have "join [nl] (take i ls) @ [nl] = unlines (take i ls)" if "position p ls = Some i" "3 \<le> i" for p :: "string \<Rightarrow> bool" and ls i
    using that by (intro join_unlines) (auto simp: position_Some_iff)
  then show ?thesis
    by (auto simp: note_split_def Let_def not_less split: option.splits if_splits)
qed

lemma note_split_lines:
  assumes "\<forall>l \<in> set (ls @ s # sigs). nl \<notin> set l" and "\<forall>l \<in> set ls. \<not> starts_with sig_marker l"
    and "starts_with sig_marker s" and "3 \<le> length ls"
  shows "note_split (unlines (ls @ s # sigs)) = Some (unlines ls, s # sigs)"
  using position_here [OF assms(2,3), of sigs] assms(4) note_lines_unlines [OF assms(1)]
  by (simp add: note_split_iff del: unlines_simps)

text \<open>Whatever is appended to a terminated note leaves its body alone.\<close>

lemma note_split_append:
  assumes "note_split note = Some (body, sigs)" and "last note = nl" and "nl \<notin> set l"
  shows "note_split (note @ l @ [nl]) = Some (body, sigs @ [l])"
proof -
  have "note = unlines (note_lines note)" using note_lines_nl [of "note"] assms(2) by simp
  then have "note @ l @ [nl] = unlines (note_lines note @ [l])" by (metis unlines_simps append_Nil)
  moreover have "\<forall>m \<in> set (note_lines note @ [l]). nl \<notin> set m" using note_lines_free assms(3) by auto
  ultimately have "note_lines (note @ l @ [nl]) = note_lines note @ [l]" by (metis note_lines_unlines)
  moreover from assms(1) obtain i where "position (starts_with sig_marker) (note_lines note) = Some i" "3 \<le> i"
    "body = unlines (take i (note_lines note))" "sigs = drop i (note_lines note)" "i < length (note_lines note)"
    by (auto simp: note_split_iff position_Some_iff)
  ultimately show ?thesis
    using position_append [of "starts_with sig_marker" "note_lines note" i "[l]"]
    by (simp add: note_split_iff)
qed

section \<open>Signature lines\<close>

lemma marked_line_iff:
  "strip_prefix_str sig_marker l = Some rest \<and> split_once (CHR '' '') rest = Some (name, b64) \<longleftrightarrow>
     rest = name @ '' '' @ b64 \<and> l = sig_marker @ rest \<and> CHR '' '' \<notin> set name"
  by (auto simp: strip_prefix_Some split_once_iff)

lemma blob_iff:
  assumes "length h = 4"
  shows "length blob = 4 + 64 \<and> take 4 blob = h \<longleftrightarrow> (\<exists>s. length s = 64 \<and> blob = h @ s)"
proof
  assume *: "length blob = 4 + 64 \<and> take 4 blob = h"
  then have "blob = h @ drop 4 blob" by (metis append_take_drop_id)
  with * show "\<exists>s. length s = 64 \<and> blob = h @ s" by (intro exI [of _ "drop 4 blob"]) simp
qed (use assms in auto)

lemma line_verifies_iff:
  "line_verifies P body name pk l \<longleftrightarrow>
     CHR '' '' \<notin> set name \<and>
     (\<exists>b64 s. l = sig_marker @ name @ '' '' @ b64 \<and> length s = 64 \<and>
        b64_decode P b64 = Some (key_hash P name (pk_bytes pk) @ s) \<and>
        verify_signature P (str_bytes body) \<lparr>sig_algorithm = Ed25519, sig_bytes = s\<rparr> pk = Inr True)"
proof -
  have h: "length (key_hash P name (pk_bytes pk)) = 4" by (simp add: key_hash_def)
  have "line_verifies P body name pk l \<longleftrightarrow>
    (\<exists>rest b64 blob. (strip_prefix_str sig_marker l = Some rest \<and> split_once (CHR '' '') rest = Some (name, b64)) \<and>
       b64_decode P b64 = Some blob \<and> (length blob = 4 + 64 \<and> take 4 blob = key_hash P name (pk_bytes pk)) \<and>
       verify_signature P (str_bytes body) \<lparr>sig_algorithm = Ed25519, sig_bytes = drop 4 blob\<rparr> pk = Inr True)"
    unfolding line_verifies_def by (simp add: or_false_iff split: option.splits prod.splits) blast
  also have "\<dots> \<longleftrightarrow> CHR '' '' \<notin> set name \<and>
     (\<exists>b64 s. l = sig_marker @ name @ '' '' @ b64 \<and> length s = 64 \<and>
        b64_decode P b64 = Some (key_hash P name (pk_bytes pk) @ s) \<and>
        verify_signature P (str_bytes body) \<lparr>sig_algorithm = Ed25519, sig_bytes = s\<rparr> pk = Inr True)"
    unfolding marked_line_iff blob_iff [OF h] using h by (auto 0 4)
  finally show ?thesis .
qed

lemma verify_checkpoint_iff:
  "verify_checkpoint P note name pk = Some c \<longleftrightarrow>
     (\<exists>body sigs. note_split note = Some (body, sigs) \<and> (\<exists>l \<in> set sigs. line_verifies P body name pk l) \<and>
        parse_body P body = Some c)"
  by (auto simp: verify_checkpoint_def list_ex_iff split: option.splits)

section \<open>Checkpoints written and read back\<close>

text \<open>
  An origin that survives: one line, not mistaken for a signature line, and not ending in
  the carriage return that \<^verbatim>\<open>lines()\<close> takes away. A key name is one word of one line.
\<close>

definition origin_ok :: "string \<Rightarrow> bool" where
  "origin_ok org \<longleftrightarrow> nl \<notin> set org \<and> \<not> starts_with sig_marker org \<and> strip_cr org = org"

definition name_ok :: "string \<Rightarrow> bool" where
  "name_ok name \<longleftrightarrow> nl \<notin> set name \<and> CHR '' '' \<notin> set name"

definition checkpoint_lines :: "prims \<Rightarrow> checkpoint \<Rightarrow> string list" where
  "checkpoint_lines P c = [cp_origin c, decimal (cp_size c), b64_encode P (array_bytes (cp_root c))]"

lemma checkpoint_body_lines: "checkpoint_body P c = unlines (checkpoint_lines P c)"
  by (simp add: checkpoint_body_def checkpoint_lines_def)

lemma checkpoint_lines_free:
  assumes "base64_ok P" and "origin_ok (cp_origin c)"
  shows "\<forall>l \<in> set (checkpoint_lines P c). nl \<notin> set l"
  using assms base64_free [OF assms(1)] by (simp add: checkpoint_lines_def origin_ok_def)

text \<open>Further lines of a body are ignored by the reader.\<close>

lemma parse_extended_body:
  assumes "base64_ok P" and "origin_ok (cp_origin c)" and "cp_size c < usize_bound" and "\<forall>l \<in> set ext. nl \<notin> set l"
  shows "parse_body P (unlines (checkpoint_lines P c @ ext)) = Some c"
proof -
  have "\<forall>l \<in> set (checkpoint_lines P c @ ext). nl \<notin> set l"
    using checkpoint_lines_free [OF assms(1,2)] assms(4) by auto
  from str_lines_unlines [OF this]
  have "str_lines (unlines (checkpoint_lines P c @ ext)) = checkpoint_lines P c @ map strip_cr ext"
    using assms(2) strip_cr_free [OF base64_free(3) [OF assms(1)]]
    by (simp add: checkpoint_lines_def origin_ok_def)
  then show ?thesis
    using assms by (simp add: parse_body_def checkpoint_lines_def parse_usize_decimal del: unlines_simps)
qed

lemma parse_checkpoint_body:
  assumes "base64_ok P" and "origin_ok (cp_origin c)" and "cp_size c < usize_bound"
  shows "parse_body P (checkpoint_body P c) = Some c"
  using parse_extended_body [OF assms, of "[]"] by (simp add: checkpoint_body_lines)

lemma digit_not_marker: "\<not> starts_with sig_marker (decimal n)"
  by (rule marker_free) (rule decimal_free; simp)

lemma checkpoint_lines_unmarked:
  assumes "base64_ok P" and "origin_ok (cp_origin c)"
  shows "\<forall>l \<in> set (checkpoint_lines P c). \<not> starts_with sig_marker l"
  using assms digit_not_marker marker_free [OF base64_free(4) [OF assms(1)]]
  by (simp add: checkpoint_lines_def origin_ok_def)

lemma note_split_checkpoint:
  assumes "base64_ok P" and "origin_ok (cp_origin c)" and "starts_with sig_marker s" and "\<forall>l \<in> set (s # sigs). nl \<notin> set l"
  shows "note_split (checkpoint_body P c @ unlines (s # sigs)) = Some (checkpoint_body P c, s # sigs)"
  using note_split_lines [of "checkpoint_lines P c" s sigs] checkpoint_lines_free [OF assms(1,2)]
    checkpoint_lines_unmarked [OF assms(1,2)] assms(3,4)
  by (simp add: checkpoint_body_lines checkpoint_lines_def)

text \<open>The line of an Ed25519 key over any body.\<close>

definition key_line :: "prims \<Rightarrow> string \<Rightarrow> bytes32 \<Rightarrow> string \<Rightarrow> string" where
  "key_line P body seed name =
     sig_marker @ name @ '' '' @
       b64_encode P (key_hash P name (ed_public P seed) @ ed_raw_sign P seed (str_bytes body))"

lemma signature_line_key [simp]:
  "signature_line P body (ed25519_from_seed P seed) name = Some (key_line P body seed name @ [nl])"
  by (simp add: signature_line_def ed25519_from_seed_def key_line_def)

lemma key_line_shape:
  assumes "base64_ok P" and "name_ok name"
  shows "starts_with sig_marker (key_line P body seed name)" and "nl \<notin> set (key_line P body seed name)"
  using assms base64_free(1) by (auto simp: key_line_def name_ok_def marker_no_nl) (simp add: nl_def)

lemma key_line_verifies:
  assumes "base64_ok P" and "name_ok name" and "ed_good P seed"
  shows "line_verifies P body name (sg_public_key (ed25519_from_seed P seed)) (key_line P body seed name)"
  using assms
  by (auto simp: line_verifies_iff key_line_def name_ok_def ed_good_def ed25519_from_seed_def ed25519_verify_def)

lemma sign_checkpoint_ok:
  assumes "base64_ok P" and "origin_ok (cp_origin c)" and "cp_size c < usize_bound" and "name_ok name" and "ed_good P seed"
  obtains n where "sign_checkpoint P (ed25519_from_seed P seed) name c = Some n" and "last n = nl"
    and "note_split n = Some (checkpoint_body P c, [key_line P (checkpoint_body P c) seed name])"
    and "verify_checkpoint P n name (sg_public_key (ed25519_from_seed P seed)) = Some c"
proof -
  let ?body = "checkpoint_body P c" and ?l = "key_line P (checkpoint_body P c) seed name"
  let ?n = "?body @ unlines [?l]"
  have split: "note_split ?n = Some (?body, [?l])"
    using note_split_checkpoint [OF assms(1,2) key_line_shape(1) [OF assms(1,4)], of "?body" seed "[]"]
      key_line_shape(2) [OF assms(1,4), of ?body seed] by simp
  then have "verify_checkpoint P ?n name (sg_public_key (ed25519_from_seed P seed)) = Some c"
    using key_line_verifies [OF assms(1,4,5)] parse_checkpoint_body [OF assms(1-3)]
    by (simp add: verify_checkpoint_iff)
  moreover have "sign_checkpoint P (ed25519_from_seed P seed) name c = Some ?n"
    by (simp add: sign_checkpoint_def Let_def)
  ultimately show thesis using that split by simp
qed

lemma verify_extended:
  assumes "base64_ok P" and "origin_ok (cp_origin c)" and "cp_size c < usize_bound" and "name_ok name" and "ed_good P seed"
    and "\<forall>l \<in> set ext. nl \<notin> set l \<and> \<not> starts_with sig_marker l"
  shows "verify_checkpoint P
      (unlines ((checkpoint_lines P c @ ext) @ [key_line P (unlines (checkpoint_lines P c @ ext)) seed name]))
      name (sg_public_key (ed25519_from_seed P seed)) = Some c"
proof -
  let ?ls = "checkpoint_lines P c @ ext" and ?l = "key_line P (unlines (checkpoint_lines P c @ ext)) seed name"
  have "note_split (unlines (?ls @ [?l])) = Some (unlines ?ls, [?l])"
    using checkpoint_lines_free [OF assms(1,2)] checkpoint_lines_unmarked [OF assms(1,2)] assms(6)
      key_line_shape [OF assms(1,4), of "unlines ?ls" seed]
    by (intro note_split_lines) (auto simp: checkpoint_lines_def)
  moreover have "parse_body P (unlines ?ls) = Some c"
    by (rule parse_extended_body) (use assms in auto)
  ultimately show ?thesis
    using key_line_verifies [OF assms(1,4,5)] by (auto simp: verify_checkpoint_iff simp del: unlines_simps)
qed

section \<open>Cosigning\<close>

lemma cosign_ok:
  assumes "base64_ok P" and "name_ok name" and "ed_good P seed"
    and "note_split n = Some (body, sigs)" and "last n = nl"
  obtains n' where "cosign P n (ed25519_from_seed P seed) name = Some (Some n')" and "last n' = nl"
    and "note_split n' = Some (body, sigs @ [key_line P body seed name])"
proof -
  let ?n = "n @ key_line P body seed name @ [nl]"
  have "cosign P n (ed25519_from_seed P seed) name = Some (Some ?n)"
    by (simp add: cosign_def note_body_def assms(4))
  moreover have "note_split ?n = Some (body, sigs @ [key_line P body seed name])"
    by (rule note_split_append [OF assms(4,5) key_line_shape(2) [OF assms(1,2)]])
  ultimately show thesis using that by simp
qed

lemma cosign_keeps:
  assumes "base64_ok P" and "name_ok name" and "ed_good P seed" and "last n = nl"
    and "verify_checkpoint P n other pk = Some c" and "cosign P n (ed25519_from_seed P seed) name = Some (Some n')"
  shows "verify_checkpoint P n' other pk = Some c"
    and "verify_checkpoint P n' name (sg_public_key (ed25519_from_seed P seed)) = Some c"
proof -
  from assms(5) obtain body sigs where s: "note_split n = Some (body, sigs)" "\<exists>l \<in> set sigs. line_verifies P body other pk l"
    "parse_body P body = Some c" by (auto simp: verify_checkpoint_iff)
  from cosign_ok [OF assms(1-3) s(1) assms(4)] assms(6)
  have "note_split n' = Some (body, sigs @ [key_line P body seed name])" by (metis option.inject)
  with s key_line_verifies [OF assms(1-3)] show
    "verify_checkpoint P n' other pk = Some c"
    "verify_checkpoint P n' name (sg_public_key (ed25519_from_seed P seed)) = Some c"
    by (auto simp: verify_checkpoint_iff)
qed

text \<open>
  A note has one body, so all keys that verify it see one checkpoint, and the checkpoint
  is the body's.
\<close>

lemma verify_checkpoint_same:
  "verify_checkpoint P n k pk = Some c \<Longrightarrow> verify_checkpoint P n k' pk' = Some c' \<Longrightarrow> c = c'"
  by (auto simp: verify_checkpoint_iff)

lemma verified_checkpoint:
  assumes "base64_ok P" and "origin_ok (cp_origin c)" and "cp_size c < usize_bound"
    and "note_split n = Some (checkpoint_body P c, sigs)" and "verify_checkpoint P n k pk = Some c'"
  shows "c' = c"
  using assms parse_checkpoint_body [OF assms(1-3)] by (auto simp: verify_checkpoint_iff)

lemma verify_checkpoint_signed:
  assumes "verify_checkpoint P n k pk = Some c"
  shows "\<exists>body sigs s. note_split n = Some (body, sigs) \<and> parse_body P body = Some c \<and>
    verify_signature P (str_bytes body) s pk = Inr True"
  using assms by (auto simp: verify_checkpoint_iff line_verifies_iff)

section \<open>The cosigning witness is append-only\<close>

text \<open>What the witness holds against, before its first cosignature as after.\<close>

definition seen_view :: "cosigning_witness \<Rightarrow> nat \<times> digest" where
  "seen_view w = (case cw_seen w of None \<Rightarrow> (0, mk_bytes32 (replicate 32 0)) | Some s \<Rightarrow> s)"

lemma fst_seen_view [simp]: "fst (seen_view w) = last_size w"
  by (auto simp: seen_view_def last_size_def split: option.splits)

definition extends_view :: "prims \<Rightarrow> nat \<times> digest \<Rightarrow> checkpoint \<Rightarrow> consistency_proof \<Rightarrow> bool" where
  "extends_view P v c pf \<longleftrightarrow>
     fst v \<le> cp_size c \<and>
     (if fst v = 0 then nodes pf = [] else verify_consistency P (snd v) (cp_root c) pf (fst v) (cp_size c))"

lemma add_checkpoint_iff:
  assumes "signer_ok P (cw_signer w)"
  shows "add_checkpoint P w n old pf = Some (Inr l, w') \<longleftrightarrow>
    (\<exists>c body. verify_checkpoint P n (cw_log_origin w) (cw_log_key w) = Some c \<and> old = last_size w \<and>
       extends_view P (seen_view w) c pf \<and> w' = w\<lparr>cw_seen := Some (cp_size c, cp_root c)\<rparr> \<and>
       note_body n = Some body \<and> signature_line P body (cw_signer w) (cw_key_name w) = Some l)"
proof (cases "verify_checkpoint P n (cw_log_origin w) (cw_log_key w)")
  case (Some c)
  then obtain body where "note_body n = Some body" by (auto simp: verify_checkpoint_iff note_body_def)
  moreover obtain m r where "seen_view w = (m, r)" by fastforce
  ultimately show ?thesis
    using Some fst_seen_view [of w]
    by (auto simp: add_checkpoint_def extends_view_def not_less simp flip: seen_view_def split: option.splits)
qed (simp add: add_checkpoint_def)

text \<open>A refusal leaves the witness as it was, and names the size to retry from.\<close>

lemma add_checkpoint_refused:
  assumes "add_checkpoint P w n old pf = Some (Inl e, w')"
  shows "w' = w"
proof (cases "verify_checkpoint P n (cw_log_origin w) (cw_log_key w)")
  case (Some c)
  then obtain body where "note_body n = Some body" by (auto simp: verify_checkpoint_iff note_body_def)
  with Some assms show ?thesis
    by (auto simp: add_checkpoint_def Let_def split: option.splits if_splits prod.splits)
qed (use assms in \<open>simp add: add_checkpoint_def\<close>)

lemma add_checkpoint_errors:
  assumes "verify_checkpoint P n (cw_log_origin w) (cw_log_key w) = Some c"
  shows "old \<noteq> last_size w \<Longrightarrow> add_checkpoint P w n old pf = Some (Inl (SizeMismatch (last_size w)), w)"
    and "old = last_size w \<Longrightarrow> cp_size c < last_size w \<Longrightarrow>
      add_checkpoint P w n old pf = Some (Inl (Rollback (last_size w) (cp_size c)), w)"
proof -
  obtain r where "seen_view w = (last_size w, r)" by (metis fst_seen_view prod.collapse)
  with assms show "old \<noteq> last_size w \<Longrightarrow> add_checkpoint P w n old pf = Some (Inl (SizeMismatch (last_size w)), w)"
    and "old = last_size w \<Longrightarrow> cp_size c < last_size w \<Longrightarrow>
      add_checkpoint P w n old pf = Some (Inl (Rollback (last_size w) (cp_size c)), w)"
    by (simp_all add: add_checkpoint_def flip: seen_view_def)
qed

text \<open>The heads a witness cosigned, in order, and the witness they leave behind.\<close>

inductive cosigned :: "prims \<Rightarrow> cosigning_witness \<Rightarrow> checkpoint list \<Rightarrow> bool" for P where
  fresh: "cosigned P (cosigning_witness_new sg name org key) []"
| refuse: "cosigned P w cs \<Longrightarrow> add_checkpoint P w n old pf = Some (Inl e, w') \<Longrightarrow> cosigned P w' cs"
| accept: "cosigned P w cs \<Longrightarrow> signer_ok P (cw_signer w) \<Longrightarrow> add_checkpoint P w n old pf = Some (Inr l, w') \<Longrightarrow>
    verify_checkpoint P n (cw_log_origin w) (cw_log_key w) = Some c \<Longrightarrow> cosigned P w' (cs @ [c])"

definition view_after :: "checkpoint list \<Rightarrow> nat \<times> digest" where
  "view_after cs = (if cs = [] then (0, mk_bytes32 (replicate 32 0)) else (cp_size (last cs), cp_root (last cs)))"

lemma cosigned_inv:
  "cosigned P w cs \<Longrightarrow>
     seen_view w = view_after cs \<and>
     (\<forall>i < length cs. \<exists>pf. extends_view P (view_after (take i cs)) (cs ! i) pf)"
proof (induction rule: cosigned.induct)
  case (fresh sg name org key)
  then show ?case by (simp add: seen_view_def view_after_def cosigning_witness_new_def)
next
  case (refuse w cs n old pf e w')
  then show ?case using add_checkpoint_refused by blast
next
  case (accept w cs n old pf l w' c)
  then have "extends_view P (seen_view w) c pf" and "w' = w\<lparr>cw_seen := Some (cp_size c, cp_root c)\<rparr>"
    by (auto simp: add_checkpoint_iff)
  moreover from this(2) have "seen_view w' = view_after (cs @ [c])"
    by (simp add: seen_view_def view_after_def)
  ultimately show ?case using accept.IH by (auto simp: nth_append less_Suc_eq)
qed

lemma cosigned_sizes: "cosigned P w cs \<Longrightarrow> sorted (map cp_size cs)"
proof (induction rule: cosigned.induct)
  case (accept w cs n old pf l w' c)
  then have "extends_view P (seen_view w) c pf" by (auto simp: add_checkpoint_iff)
  with cosigned_inv [OF accept.hyps(1)] have "cs \<noteq> [] \<Longrightarrow> cp_size (last cs) \<le> cp_size c"
    by (simp add: extends_view_def view_after_def)
  moreover have "cp_size d \<le> cp_size (last cs)" if "d \<in> set cs" for d
    using that accept.IH by (cases cs rule: rev_cases) (auto simp: sorted_append)
  ultimately have "\<forall>d \<in> set cs. cp_size d \<le> cp_size c"
    by (metis empty_iff empty_set order_trans)
  with accept.IH show ?case by (simp add: sorted_append)
qed simp_all

text \<open>Each head the witness cosigned after another one was shown to extend it.\<close>

lemma cosigned_consistent:
  assumes "cosigned P w cs" and "Suc i < length cs" and "0 < cp_size (cs ! i)"
  shows "\<exists>pf. verify_consistency P (cp_root (cs ! i)) (cp_root (cs ! Suc i)) pf (cp_size (cs ! i)) (cp_size (cs ! Suc i))"
proof -
  have "take (Suc i) cs \<noteq> [] \<and> last (take (Suc i) cs) = cs ! i"
    using assms(2) by (simp add: take_Suc_conv_app_nth)
  then have "view_after (take (Suc i) cs) = (cp_size (cs ! i), cp_root (cs ! i))" by (simp add: view_after_def)
  with cosigned_inv [OF assms(1)] assms(2,3) obtain pf where
    "extends_view P (cp_size (cs ! i), cp_root (cs ! i)) (cs ! Suc i) pf" by metis
  with assms(3) show ?thesis by (auto simp: extends_view_def)
qed

text \<open>
  The heads of one log: if each is the root of that many leaves of some list of leaves,
  the lists extend one another, unless the hashes of the proofs collide.
\<close>

lemma extends_view_prefix:
  assumes "extends_view P (length as, naive_root P as) c pf" and "as \<noteq> []"
    and "cp_size c = length bs" and "cp_root c = naive_root P bs"
    and "collision_free P (recon_queries P (length as) (length bs) True (naive_root P as) (nodes pf) \<union>
      node_queries P bs \<union> node_queries P as \<union> node_queries P (take (length as) bs))"
  shows "as = take (length as) bs"
proof -
  have "verify_consistency P (naive_root P as) (naive_root P bs) pf (length as) (length bs)"
    using assms by (auto simp: extends_view_def)
  from consistent_prefix [OF this assms(2) collision_free_mono [OF assms(5)]] show ?thesis by auto
qed

section \<open>The quorum\<close>

definition verifiers :: "prims \<Rightarrow> string \<Rightarrow> (string \<times> public_key) list \<Rightarrow> (string \<times> public_key) list" where
  "verifiers P n ws = filter (\<lambda>(name, key). verify_checkpoint P n name key \<noteq> None) ws"

lemma verifiers_simps [simp]:
  "verifiers P n [] = []"
  "verifiers P n ((name, key) # ws) =
     (if verify_checkpoint P n name key = None then verifiers P n ws else (name, key) # verifiers P n ws)"
  by (simp_all add: verifiers_def)

lemma in_verifiers: "(name, key) \<in> set (verifiers P n ws) \<longleftrightarrow> (name, key) \<in> set ws \<and> verify_checkpoint P n name key \<noteq> None"
  by (auto simp: verifiers_def)

definition first_view :: "prims \<Rightarrow> string \<Rightarrow> (string \<times> public_key) list \<Rightarrow> checkpoint option" where
  "first_view P n ws =
     (case verifiers P n ws of [] \<Rightarrow> None | (name, key) # _ \<Rightarrow> verify_checkpoint P n name key)"

lemma quorum_loop_eq:
  assumes "\<forall>d. agreed = Some d \<longrightarrow> (\<exists>k pk. verify_checkpoint P n k pk = Some d)"
  shows "quorum_loop P n ws agreed count =
    Some (if agreed = None then first_view P n ws else agreed, count + length (verifiers P n ws))"
  using assms
proof (induction ws arbitrary: agreed count)
  case (Cons w ws)
  obtain name key where w: "w = (name, key)" by fastforce
  show ?case
  proof (cases "verify_checkpoint P n name key")
    case None
    with Cons.IH [OF Cons.prems, of count] show ?thesis by (simp add: w first_view_def)
  next
    case (Some c)
    have "agreed = None \<or> agreed = Some c"
      using Cons.prems verify_checkpoint_same [OF _ Some] by (cases agreed) auto
    moreover have "quorum_loop P n ws (Some c) (Suc count) = Some (Some c, Suc count + length (verifiers P n ws))"
      using Cons.IH [of "Some c" "Suc count"] Some by auto
    ultimately show ?thesis using Some by (auto simp: w first_view_def)
  qed
qed (simp add: first_view_def)

lemma first_view_iff: "first_view P n ws = Some c \<longleftrightarrow> (\<exists>(k, pk) \<in> set ws. verify_checkpoint P n k pk = Some c)"
proof (cases "verifiers P n ws")
  case Nil
  then have "\<forall>(k, pk) \<in> set ws. verify_checkpoint P n k pk = None"
    by (auto simp: verifiers_def filter_empty_conv)
  with Nil show ?thesis by (auto simp: first_view_def)
next
  case (Cons v vs)
  obtain k pk where v: "v = (k, pk)" by fastforce
  obtain d where d: "verify_checkpoint P n k pk = Some d" and mem: "(k, pk) \<in> set ws"
    using in_verifiers [of k pk P n ws] by (auto simp: Cons v)
  have "verify_checkpoint P n a b = Some c \<Longrightarrow> c = d" for a b
    using verify_checkpoint_same [OF _ d] by blast
  with d mem show ?thesis by (auto simp: first_view_def Cons v)
qed

lemma verify_quorum_iff:
  "verify_quorum P n ws t = Some c \<longleftrightarrow>
     t \<le> length (verifiers P n ws) \<and> (\<exists>(k, pk) \<in> set ws. verify_checkpoint P n k pk = Some c)"
  using quorum_loop_eq [of None P n ws 0] by (simp add: verify_quorum_def first_view_iff)

text \<open>The branch for a forked view is dead: no note shows two checkpoints.\<close>

lemma quorum_never_forks: "quorum_loop P n ws None 0 \<noteq> None"
  using quorum_loop_eq [of None P n ws 0] by auto

text \<open>One cosigner listed often enough is a quorum.\<close>

lemma quorum_of_one:
  "verify_quorum P n (replicate t (name, key)) t = (if t = 0 then None else verify_checkpoint P n name key)"
proof (cases "verify_checkpoint P n name key")
  case None
  then have "\<forall>c. verify_quorum P n (replicate t (name, key)) t \<noteq> Some c" by (auto simp: verify_quorum_iff)
  with None show ?thesis by (cases "verify_quorum P n (replicate t (name, key)) t") auto
next
  case (Some c)
  then show ?thesis
  proof (cases "t = 0")
    case True
    then show ?thesis by (simp add: verify_quorum_def)
  next
    case False
    then have "verify_quorum P n (replicate t (name, key)) t = Some c"
      using Some by (simp add: verify_quorum_iff verifiers_def filter_replicate)
    with Some False show ?thesis by simp
  qed
qed

text \<open>Distinct listed names: that many of them signed the one body of the note.\<close>

lemma quorum_signers:
  assumes "verify_quorum P n ws t = Some c" and "distinct ws"
  shows "\<exists>body. note_body n = Some body \<and> parse_body P body = Some c \<and>
    (\<exists>S \<subseteq> set ws. t \<le> card S \<and> (\<forall>(name, key) \<in> S. \<exists>s. verify_signature P (str_bytes body) s key = Inr True))"
proof -
  from assms(1) obtain k pk where t: "t \<le> length (verifiers P n ws)" and "verify_checkpoint P n k pk = Some c"
    by (auto simp: verify_quorum_iff)
  then obtain body sigs where s: "note_split n = Some (body, sigs)" "parse_body P body = Some c"
    by (auto simp: verify_checkpoint_iff)
  have "t \<le> card (set (verifiers P n ws))" using t distinct_card [of "verifiers P n ws"] assms(2) by (simp add: verifiers_def)
  moreover have "\<exists>x. verify_signature P (str_bytes body) x key = Inr True" if "(name, key) \<in> set (verifiers P n ws)" for name key
    using that s(1) by (auto simp: in_verifiers verify_checkpoint_iff line_verifies_iff)
  moreover have "set (verifiers P n ws) \<subseteq> set ws" by (auto simp: verifiers_def)
  ultimately show ?thesis
    using s by (intro exI [of _ body]) (auto simp: note_body_def intro!: exI [of _ "set (verifiers P n ws)"])
qed

text \<open>
  The witness looks for a line named after the log's origin, but never at the origin in
  the body: a head of another log signed under that name is cosigned as its own.
\<close>

lemma foreign_origin_cosigned:
  assumes "base64_ok P" and "origin_ok (cp_origin c)" and "cp_size c < usize_bound" and "name_ok org" and "ed_good P seed"
    and "ed_good P own"
  shows "\<exists>n l w'. sign_checkpoint P (ed25519_from_seed P seed) org c = Some n \<and>
    add_checkpoint P (cosigning_witness_new (ed25519_from_seed P own) name org (sg_public_key (ed25519_from_seed P seed)))
      n 0 \<lparr>nodes = []\<rparr> = Some (Inr l, w') \<and> cw_seen w' = Some (cp_size c, cp_root c)"
proof -
  let ?w = "cosigning_witness_new (ed25519_from_seed P own) name org (sg_public_key (ed25519_from_seed P seed))"
  obtain n where n: "sign_checkpoint P (ed25519_from_seed P seed) org c = Some n"
    "note_split n = Some (checkpoint_body P c, [key_line P (checkpoint_body P c) seed org])"
    "verify_checkpoint P n org (sg_public_key (ed25519_from_seed P seed)) = Some c"
    by (rule sign_checkpoint_ok [OF assms(1-5)])
  have "signer_ok P (cw_signer ?w)"
    using ed.ok [OF assms(6)] by (simp add: cosigning_witness_new_def)
  from add_checkpoint_iff [OF this, of n 0 "\<lparr>nodes = []\<rparr>"] n(2,3)
  have "add_checkpoint P ?w n 0 \<lparr>nodes = []\<rparr> =
      Some (Inr (key_line P (checkpoint_body P c) own name @ [nl]), ?w\<lparr>cw_seen := Some (cp_size c, cp_root c)\<rparr>)"
    by (simp add: cosigning_witness_new_def last_size_def extends_view_def seen_view_def note_body_def)
  with n(1) show ?thesis by fastforce
qed

end
