(* ===== verification/Witness_Service.thy ===== *)
theory Witness_Service
  imports Store Checkpoint
begin

text \<open>
  The crate \<^verbatim>\<open>services/witness\<close>: the HTTP handlers over one log, its signer and its
  store. Requests arrive as the values the extractors parse, responses are the values the
  handlers return; each handler holds the lock of the log from its first to its last use of
  it, so one call is one step. \<^verbatim>\<open>None\<close> is a panic under the lock.
\<close>

section \<open>State\<close>

record witness_service =
  ws_witness :: witness
  ws_signer :: signer
  ws_key :: public_key
  ws_store :: "u8 list option"

definition witness_service_new :: "signer \<Rightarrow> witness_service" where
  "witness_service_new sg =
     \<lparr>ws_witness = witness_new, ws_signer = sg, ws_key = sg_public_key sg, ws_store = None\<rparr>"

definition witness_service_persistent ::
  "prims \<Rightarrow> signer \<Rightarrow> file_read \<Rightarrow> string option \<Rightarrow> string option \<Rightarrow> io_error + witness_service" where
  "witness_service_persistent P sg contents open_failure truncate_failure =
     and_then (store_open P contents open_failure truncate_failure witness_new) (\<lambda>(file, w).
       Inr \<lparr>ws_witness = w, ws_signer = sg, ws_key = sg_public_key sg, ws_store = Some file\<rparr>)"

definition default_origin :: string where
  "default_origin = ''indexone.dev/witness''"

section \<open>Errors\<close>

datatype api_error =
    BadRequest string
  | ApiNotFound string
  | StalePrevRoot
  | ApiEquivocation json
  | ApiInternal string

definition problem :: "string \<Rightarrow> string \<Rightarrow> json" where
  "problem title detail = JObj [(''title'', JStr title), (''detail'', JStr detail)]"

fun api_error_response :: "api_error \<Rightarrow> nat \<times> json" where
  "api_error_response (BadRequest d) = (400, problem ''bad request'' d)"
| "api_error_response (ApiNotFound d) = (404, problem ''not found'' d)"
| "api_error_response StalePrevRoot =
     (409, problem ''stale prev_root'' ''prev_root must equal the log's current root at submission'')"
| "api_error_response (ApiEquivocation evidence) = (409, evidence)"
| "api_error_response (ApiInternal d) = (500, problem ''internal error'' d)"

section \<open>Wire values\<close>

definition unb64 :: "prims \<Rightarrow> string \<Rightarrow> api_error + u8 list" where
  "unb64 P s = ok_or (b64url_decode P s) (BadRequest ''invalid base64url'')"

definition digest_from_b64 :: "prims \<Rightarrow> string \<Rightarrow> api_error + digest" where
  "digest_from_b64 P s =
     and_then (unb64 P s) (\<lambda>bs. ok_or (try_bytes32 bs) (BadRequest ''digest must be 32 bytes''))"

record submit_request =
  rq_chain_digest :: string
  rq_action_digest :: string
  rq_nonce :: string
  rq_prev_root :: string

definition to_receipt :: "prims \<Rightarrow> submit_request \<Rightarrow> api_error + action_receipt" where
  "to_receipt P q =
     and_then (digest_from_b64 P (rq_chain_digest q)) (\<lambda>c.
     and_then (digest_from_b64 P (rq_action_digest q)) (\<lambda>a.
     and_then (digest_from_b64 P (rq_nonce q)) (\<lambda>n.
     and_then (digest_from_b64 P (rq_prev_root q)) (\<lambda>p.
       Inr \<lparr>chain_digest_of = c, action_digest = a, nonce = n, prev_root = p\<rparr>))))"

record sth_dto =
  sd_tree_size :: nat
  sd_root :: string
  sd_signature :: string

definition sth_to_dto :: "prims \<Rightarrow> signed_tree_head \<Rightarrow> sth_dto" where
  "sth_to_dto P h =
     \<lparr>sd_tree_size = sth_size h, sd_root = b64url_encode P (array_bytes (sth_root h)),
      sd_signature = b64url_encode P (sig_bytes (sth_signature h))\<rparr>"

definition dto_to_sth :: "prims \<Rightarrow> sth_dto \<Rightarrow> api_error + signed_tree_head" where
  "dto_to_sth P d =
     and_then (digest_from_b64 P (sd_root d)) (\<lambda>root.
     and_then (unb64 P (sd_signature d)) (\<lambda>s.
       Inr \<lparr>sth_size = sd_tree_size d, sth_root = root,
            sth_signature = \<lparr>sig_algorithm = Ed25519, sig_bytes = s\<rparr>\<rparr>))"

definition sth_dto_json :: "sth_dto \<Rightarrow> json" where
  "sth_dto_json d =
     JObj [(''tree_size'', JNum (sd_tree_size d)), (''root'', JStr (sd_root d)), (''signature'', JStr (sd_signature d))]"

record inclusion_dto =
  id_leaf_index :: nat
  id_tree_size :: nat
  id_path :: "(string \<times> bool) list"

definition inclusion_to_dto :: "prims \<Rightarrow> inclusion_proof \<Rightarrow> inclusion_dto" where
  "inclusion_to_dto P p =
     \<lparr>id_leaf_index = leaf_index p, id_tree_size = tree_size p,
      id_path = map (\<lambda>s. (b64url_encode P (array_bytes (sibling s)), sibling_is_left s)) (path p)\<rparr>"

definition consistency_to_dto :: "prims \<Rightarrow> consistency_proof \<Rightarrow> string list" where
  "consistency_to_dto P p = map (\<lambda>n. b64url_encode P (array_bytes n)) (nodes p)"

fun digests_from_b64 :: "prims \<Rightarrow> string list \<Rightarrow> api_error + digest list" where
  "digests_from_b64 P [] = Inr []"
| "digests_from_b64 P (s # ss) =
     and_then (digest_from_b64 P s) (\<lambda>d. and_then (digests_from_b64 P ss) (\<lambda>ds. Inr (d # ds)))"

definition dto_to_consistency :: "prims \<Rightarrow> string list \<Rightarrow> api_error + consistency_proof" where
  "dto_to_consistency P ss = and_then (digests_from_b64 P ss) (\<lambda>ds. Inr \<lparr>nodes = ds\<rparr>)"

record submit_response =
  sr_leaf_index :: nat
  sr_inclusion_proof :: inclusion_dto
  sr_sth :: sth_dto

record gossip_request =
  gq_peer_sth :: sth_dto
  gq_consistency_proof :: "string list option"

section \<open>Handlers\<close>

definition submit ::
  "prims \<Rightarrow> witness_service \<Rightarrow> submit_request \<Rightarrow> write_outcome \<Rightarrow>
   ((api_error + (nat \<times> submit_response)) \<times> witness_service) option" where
  "submit P st q out =
     (case to_receipt P q of
        Inl e \<Rightarrow> Some (Inl e, st)
      | Inr r \<Rightarrow>
          (case witness_root P (ws_witness st) of
             None \<Rightarrow> None
           | Some (root, w) \<Rightarrow>
               if prev_root r \<noteq> root then Some (Inl StalePrevRoot, st\<lparr>ws_witness := w\<rparr>)
               else
                 (case (case ws_store st of
                          None \<Rightarrow> (Inr (), None)
                        | Some file \<Rightarrow> map_prod id Some (store_append P file r out)) of
                    (Inl e, file) \<Rightarrow>
                      Some (Inl (ApiInternal (''persist: '' @ (case e of InvalidData \<Rightarrow> ''receipt frame too large''
                                                                 | OsError m \<Rightarrow> m))),
                            st\<lparr>ws_witness := w, ws_store := file\<rparr>)
                  | (Inr _, file) \<Rightarrow>
                      (case witness_append P w r of (idx, w1) \<Rightarrow>
                        (case prove_inclusion P w1 idx of
                           None \<Rightarrow> None
                         | Some (None, _) \<Rightarrow> None
                         | Some (Some pf, w2) \<Rightarrow>
                             (case signed_head P w2 (ws_signer st) of
                                None \<Rightarrow> None
                              | Some (sth, w3) \<Rightarrow>
                                  Some (Inr (201, \<lparr>sr_leaf_index = idx, sr_inclusion_proof = inclusion_to_dto P pf,
                                                   sr_sth = sth_to_dto P sth\<rparr>),
                                        st\<lparr>ws_witness := w3, ws_store := file\<rparr>)))))))"

definition get_sth :: "prims \<Rightarrow> witness_service \<Rightarrow> (sth_dto \<times> witness_service) option" where
  "get_sth P st =
     (case signed_head P (ws_witness st) (ws_signer st) of
        None \<Rightarrow> None
      | Some (sth, w) \<Rightarrow> Some (sth_to_dto P sth, st\<lparr>ws_witness := w\<rparr>))"

definition get_proof ::
  "prims \<Rightarrow> witness_service \<Rightarrow> nat \<Rightarrow> ((api_error + inclusion_dto) \<times> witness_service) option" where
  "get_proof P st i =
     (case prove_inclusion P (ws_witness st) i of
        None \<Rightarrow> None
      | Some (Some pf, w) \<Rightarrow> Some (Inr (inclusion_to_dto P pf), st\<lparr>ws_witness := w\<rparr>)
      | Some (None, w) \<Rightarrow> Some (Inl (ApiNotFound (''no leaf at index '' @ decimal i)), st\<lparr>ws_witness := w\<rparr>))"

definition get_consistency ::
  "prims \<Rightarrow> witness_service \<Rightarrow> nat \<Rightarrow> nat \<Rightarrow> ((api_error + string list) \<times> witness_service) option" where
  "get_consistency P st m n =
     (case prove_consistency P (ws_witness st) m n of
        None \<Rightarrow> None
      | Some (Some pf, w) \<Rightarrow> Some (Inr (consistency_to_dto P pf), st\<lparr>ws_witness := w\<rparr>)
      | Some (None, w) \<Rightarrow>
          Some (Inl (BadRequest ''second must equal the current tree size and first <= second''), st\<lparr>ws_witness := w\<rparr>))"

fun equivocation_reason :: "equivocation_error \<Rightarrow> string" where
  "equivocation_reason InvalidSignedHead = ''invalid_signed_head''"
| "equivocation_reason (ForkedRoot _) = ''forked_root''"
| "equivocation_reason (Inconsistent _ _) = ''inconsistent''"

definition gossip ::
  "prims \<Rightarrow> witness_service \<Rightarrow> gossip_request \<Rightarrow> ((api_error + json) \<times> witness_service) option" where
  "gossip P st q =
     (case dto_to_sth P (gq_peer_sth q) of
        Inl e \<Rightarrow> Some (Inl e, st)
      | Inr peer \<Rightarrow>
          (case (case gq_consistency_proof q of
                   None \<Rightarrow> Inr None
                 | Some ss \<Rightarrow> and_then (dto_to_consistency P ss) (\<lambda>p. Inr (Some p))) of
             Inl e \<Rightarrow> Some (Inl e, st)
           | Inr pf \<Rightarrow>
               (case signed_head P (ws_witness st) (ws_signer st) of
                  None \<Rightarrow> None
                | Some (ours, w) \<Rightarrow>
                    (case reconcile_heads P ours peer (ws_key st) pf of
                       Inr _ \<Rightarrow> Some (Inr (JObj [(''status'', JStr ''consistent'')]), st\<lparr>ws_witness := w\<rparr>)
                     | Inl e \<Rightarrow>
                         Some (Inl (ApiEquivocation
                                 (JObj [(''status'', JStr ''equivocation''), (''reason'', JStr (equivocation_reason e)),
                                        (''our_sth'', sth_dto_json (sth_to_dto P ours)),
                                        (''peer_sth'', sth_dto_json (gq_peer_sth q))])),
                               st\<lparr>ws_witness := w\<rparr>)))))"

record key_entry =
  ke_kid :: string
  ke_public_key :: string
  ke_alg :: string

definition get_keys :: "prims \<Rightarrow> witness_service \<Rightarrow> key_entry list" where
  "get_keys P st =
     [\<lparr>ke_kid = b64url_encode P (pk_bytes (ws_key st)), ke_public_key = b64url_encode P (pk_bytes (ws_key st)),
       ke_alg = ''ed25519''\<rparr>]"

definition get_checkpoint ::
  "prims \<Rightarrow> witness_service \<Rightarrow> string option \<Rightarrow> (string \<times> witness_service) option" where
  "get_checkpoint P st origin_query =
     (let org = (case origin_query of None \<Rightarrow> default_origin | Some s \<Rightarrow> s)
      in case signed_head P (ws_witness st) (ws_signer st) of
           None \<Rightarrow> None
         | Some (sth, w) \<Rightarrow>
             (case sign_checkpoint P (ws_signer st) org (checkpoint_from_sth org sth) of
                None \<Rightarrow> None
              | Some n \<Rightarrow> Some (n, st\<lparr>ws_witness := w\<rparr>)))"

section \<open>The log behind the handlers\<close>

abbreviation receipt_leaves :: "prims \<Rightarrow> action_receipt list \<Rightarrow> digest list" where
  "receipt_leaves P rs \<equiv> map (\<lambda>r. hash_leaf P (canonical_bytes P r)) rs"

text \<open>Each receipt names the root of the log it was submitted to.\<close>

definition chained :: "prims \<Rightarrow> action_receipt list \<Rightarrow> bool" where
  "chained P rs \<longleftrightarrow> (\<forall>i < length rs. prev_root (rs ! i) = naive_root P (receipt_leaves P (take i rs)))"

definition ws_log :: "prims \<Rightarrow> witness_service \<Rightarrow> action_receipt list \<Rightarrow> bool" where
  "ws_log P st rs \<longleftrightarrow>
     witness_ok P (ws_witness st) \<and> leaf_hashes (ws_witness st) = receipt_leaves P rs \<and> chained P rs \<and>
     signer_ok P (ws_signer st) \<and> ws_key st = sg_public_key (ws_signer st)"

definition on_disk :: "prims \<Rightarrow> witness_service \<Rightarrow> action_receipt list \<Rightarrow> bool" where
  "on_disk P st rs \<longleftrightarrow> (case ws_store st of None \<Rightarrow> True | Some file \<Rightarrow> file = frames P rs)"

lemma chained_snoc:
  "chained P rs \<Longrightarrow> prev_root r = naive_root P (receipt_leaves P rs) \<Longrightarrow> chained P (rs @ [r])"
  by (auto simp: chained_def nth_append less_Suc_eq)

lemma chained_front:
  assumes "chained P (rs @ [r])"
  shows "chained P rs"
  unfolding chained_def
proof (intro allI impI)
  fix i
  assume i: "i < length rs"
  then have "prev_root ((rs @ [r]) ! i) = naive_root P (receipt_leaves P (take i (rs @ [r])))"
    using assms by (simp add: chained_def)
  with i show "prev_root (rs ! i) = naive_root P (receipt_leaves P (take i rs))"
    by (simp add: nth_append)
qed

lemma ws_log_new: "signer_ok P sg \<Longrightarrow> ws_log P (witness_service_new sg) [] \<and> on_disk P (witness_service_new sg) []"
  by (simp add: ws_log_def on_disk_def witness_service_new_def chained_def)

text \<open>The write as \<^verbatim>\<open>submit\<close> sees it; the store is left alone when there is none.\<close>

definition persist :: "prims \<Rightarrow> u8 list option \<Rightarrow> action_receipt \<Rightarrow> write_outcome \<Rightarrow> (io_error + unit) \<times> u8 list option" where
  "persist P store r out =
     (case store of None \<Rightarrow> (Inr (), None) | Some file \<Rightarrow> map_prod id Some (store_append P file r out))"

lemma submit_malformed: "to_receipt P q = Inl e \<Longrightarrow> submit P st q out = Some (Inl e, st)"
  by (simp add: submit_def)

lemma submit_stale:
  assumes "ws_log P st rs" and "to_receipt P q = Inr r" and "prev_root r \<noteq> naive_root P (receipt_leaves P rs)"
  shows "\<exists>st'. submit P st q out = Some (Inl StalePrevRoot, st') \<and> ws_log P st' rs \<and> ws_store st' = ws_store st"
proof -
  from assms(1) obtain w where "witness_root P (ws_witness st) = Some (naive_root P (receipt_leaves P rs), w)"
    "witness_ok P w" "leaf_hashes w = receipt_leaves P rs"
    using witness_root_ok [of P "ws_witness st"] by (auto simp: ws_log_def)
  with assms show ?thesis by (auto simp: submit_def ws_log_def)
qed

lemma submit_unsaved:
  assumes "ws_log P st rs" and "to_receipt P q = Inr r" and "prev_root r = naive_root P (receipt_leaves P rs)"
    and "persist P (ws_store st) r out = (Inl e, store)"
  shows "\<exists>d st'. submit P st q out = Some (Inl (ApiInternal d), st') \<and> ws_log P st' rs \<and> ws_store st' = store"
proof -
  from assms(1) obtain w where "witness_root P (ws_witness st) = Some (naive_root P (receipt_leaves P rs), w)"
    "witness_ok P w" "leaf_hashes w = receipt_leaves P rs"
    using witness_root_ok [of P "ws_witness st"] by (auto simp: ws_log_def)
  with assms show ?thesis by (auto simp: submit_def ws_log_def simp flip: persist_def)
qed

text \<open>
  An accepted receipt is the next leaf, and the response proves it against the head it
  carries.
\<close>

definition acknowledges :: "prims \<Rightarrow> public_key \<Rightarrow> action_receipt list \<Rightarrow> action_receipt \<Rightarrow> submit_response \<Rightarrow> bool" where
  "acknowledges P key rs r resp \<longleftrightarrow>
     sr_leaf_index resp = length rs \<and>
     (\<exists>pf sth. sr_inclusion_proof resp = inclusion_to_dto P pf \<and> sr_sth resp = sth_to_dto P sth \<and>
        head_of P (receipt_leaves P (rs @ [r])) sth \<and> verify_signed_head P sth key \<and>
        leaf_index pf = length rs \<and> tree_size pf = sth_size sth \<and> verify_inclusion P r pf (sth_root sth))"

lemma submit_accepted:
  assumes log: "ws_log P st rs" and r: "to_receipt P q = Inr r"
    and root: "prev_root r = naive_root P (receipt_leaves P rs)"
    and saved: "persist P (ws_store st) r out = (Inr (), store)" and small: "length rs < 2 ^ 64"
  shows "\<exists>resp st'. submit P st q out = Some (Inr (201, resp), st') \<and> ws_log P st' (rs @ [r]) \<and>
    ws_store st' = store \<and> acknowledges P (ws_key st) rs r resp"
proof -
  from log obtain w where w: "witness_root P (ws_witness st) = Some (naive_root P (receipt_leaves P rs), w)"
    "witness_ok P w" "leaf_hashes w = receipt_leaves P rs"
    using witness_root_ok [of P "ws_witness st"] by (auto simp: ws_log_def)
  obtain i w1 where app: "witness_append P w r = (i, w1)" by fastforce
  from witness_log.append_law [OF w(2) app] have w1: "witness_ok P w1" "i = length rs"
    "leaf_hashes w1 = receipt_leaves P (rs @ [r])" by (simp_all add: w(3))
  let ?n = "length rs + 1"
  obtain w2 where w2: "prove_inclusion P w1 i = Some (Some \<lparr>leaf_index = i, tree_size = ?n,
      path = naive_path P (receipt_leaves P (rs @ [r])) i\<rparr>, w2)" "witness_ok P w2"
    "leaf_hashes w2 = receipt_leaves P (rs @ [r])"
    using prove_inclusion_ok [OF w1(1), of i] by (auto simp: w1(2,3))
  then obtain pf where pf: "prove_inclusion P w1 i = Some (Some pf, w2)" "leaf_index pf = length rs" "tree_size pf = ?n"
    "verify_inclusion P r pf (naive_root P (receipt_leaves P (rs @ [r])))"
    using verify_inclusion_complete [of i "receipt_leaves P (rs @ [r])" P r] small by (auto simp: w1(2) nth_append)
  have "signer_ok P (ws_signer st)" using log by (simp add: ws_log_def)
  from any_signer.signed_head_ok [OF this w2(2)] obtain sth w3 where w3: "signed_head P w2 (ws_signer st) = Some (sth, w3)"
    "head_of P (receipt_leaves P (rs @ [r])) sth" "verify_signed_head P sth (sg_public_key (ws_signer st))"
    "witness_ok P w3" "leaf_hashes w3 = receipt_leaves P (rs @ [r])"
    by (auto simp: w2(3))
  let ?resp = "\<lparr>sr_leaf_index = i, sr_inclusion_proof = inclusion_to_dto P pf, sr_sth = sth_to_dto P sth\<rparr>"
  let ?st = "st\<lparr>ws_witness := w3, ws_store := store\<rparr>"
  have "submit P st q out = Some (Inr (201, ?resp), ?st)"
    using r root saved w(1) app pf(1) w3(1) by (simp add: submit_def flip: persist_def)
  moreover have "ws_log P ?st (rs @ [r])"
    using log chained_snoc [OF _ root] w3(4,5) by (simp add: ws_log_def)
  moreover have "acknowledges P (ws_key st) rs r ?resp"
    unfolding acknowledges_def
    using w1(2) pf(2-4) w3(2,3) log
    by (intro conjI exI [of _ pf] exI [of _ sth]) (simp_all add: ws_log_def head_of_def)
  ultimately show ?thesis by (intro exI [of _ ?resp] exI [of _ ?st]) simp
qed

text \<open>Reads answer from the log and leave it as it is.\<close>

lemma ws_log_head:
  assumes "ws_log P st rs"
  shows "\<exists>sth w. signed_head P (ws_witness st) (ws_signer st) = Some (sth, w) \<and> head_of P (receipt_leaves P rs) sth \<and>
    verify_signed_head P sth (ws_key st) \<and> ws_log P (st\<lparr>ws_witness := w\<rparr>) rs"
  using any_signer.signed_head_ok [of P "ws_signer st" "ws_witness st"] assms by (auto simp: ws_log_def)

lemma get_sth_ok:
  assumes "ws_log P st rs"
  shows "\<exists>sth st'. get_sth P st = Some (sth_to_dto P sth, st') \<and> head_of P (receipt_leaves P rs) sth \<and>
    verify_signed_head P sth (ws_key st) \<and> ws_log P st' rs \<and> ws_store st' = ws_store st"
  using ws_log_head [OF assms] by (fastforce simp: get_sth_def)

lemma get_proof_ok:
  assumes log: "ws_log P st rs" and small: "length rs \<le> 2 ^ 64"
  shows "\<exists>res st'. get_proof P st i = Some (res, st') \<and> ws_log P st' rs \<and> ws_store st' = ws_store st \<and>
    (if i < length rs
     then \<exists>pf. res = Inr (inclusion_to_dto P pf) \<and> verify_inclusion P (rs ! i) pf (naive_root P (receipt_leaves P rs))
     else res = Inl (ApiNotFound (''no leaf at index '' @ decimal i)))"
proof -
  from log have ok: "witness_ok P (ws_witness st)" and leaves: "leaf_hashes (ws_witness st) = receipt_leaves P rs"
    by (simp_all add: ws_log_def)
  let ?pf = "\<lparr>leaf_index = i, tree_size = length rs, path = naive_path P (receipt_leaves P rs) i\<rparr>"
  obtain w where w: "prove_inclusion P (ws_witness st) i = Some (if i < length rs then Some ?pf else None, w)"
    "witness_ok P w" "leaf_hashes w = receipt_leaves P rs"
    using prove_inclusion_ok [OF ok, of i] by (auto simp: leaves)
  have "ws_log P (st\<lparr>ws_witness := w\<rparr>) rs" using log w(2,3) by (simp add: ws_log_def)
  moreover have "i < length rs \<Longrightarrow> verify_inclusion P (rs ! i) ?pf (naive_root P (receipt_leaves P rs))"
    using verify_inclusion_complete [of i "receipt_leaves P rs" P "rs ! i"] small by simp
  ultimately show ?thesis
    using w(1) by (cases "i < length rs") (auto simp: get_proof_def intro!: exI [of _ "st\<lparr>ws_witness := w\<rparr>"])
qed

lemma get_consistency_ok:
  assumes log: "ws_log P st rs"
  shows "\<exists>res st'. get_consistency P st m n = Some (res, st') \<and> ws_log P st' rs \<and> ws_store st' = ws_store st \<and>
    (if n = length rs \<and> m \<le> n
     then \<exists>p. res = Inr (consistency_to_dto P p) \<and>
       verify_consistency P (naive_root P (receipt_leaves P (take m rs))) (naive_root P (receipt_leaves P rs)) p m n
     else res = Inl (BadRequest ''second must equal the current tree size and first <= second''))"
proof -
  from log have ok: "witness_ok P (ws_witness st)" and leaves: "leaf_hashes (ws_witness st) = receipt_leaves P rs"
    by (simp_all add: ws_log_def)
  let ?p = "\<lparr>nodes = (if m = 0 then [] else naive_subproof P m (receipt_leaves P rs) True)\<rparr>"
  obtain w where w: "prove_consistency P (ws_witness st) m n = Some (if n = length rs \<and> m \<le> n then Some ?p else None, w)"
    "witness_ok P w" "leaf_hashes w = receipt_leaves P rs"
    using prove_consistency_ok [OF ok, of m n] by (auto simp: leaves)
  have "ws_log P (st\<lparr>ws_witness := w\<rparr>) rs" using log w(2,3) by (simp add: ws_log_def)
  moreover have "n = length rs \<and> m \<le> n \<Longrightarrow>
      verify_consistency P (naive_root P (receipt_leaves P (take m rs))) (naive_root P (receipt_leaves P rs)) ?p m n"
    using verify_consistency_complete [of m "receipt_leaves P rs" P] by (auto simp: take_map)
  ultimately show ?thesis
    using w(1)
    by (cases "n = length rs \<and> m \<le> n") (auto simp: get_consistency_def intro!: exI [of _ "st\<lparr>ws_witness := w\<rparr>"])
qed

section \<open>Wire values read back\<close>

definition b64url_ok :: "prims \<Rightarrow> bool" where
  "b64url_ok P \<longleftrightarrow> (\<forall>bs. b64url_decode P (b64url_encode P bs) = Some bs)"

lemma digest_roundtrip [simp]: "b64url_ok P \<Longrightarrow> digest_from_b64 P (b64url_encode P (array_bytes d)) = Inr d"
  by (simp add: b64url_ok_def digest_from_b64_def unb64_def)

lemma sth_dto_roundtrip:
  assumes "b64url_ok P" and "sig_algorithm (sth_signature h) = Ed25519"
  shows "dto_to_sth P (sth_to_dto P h) = Inr h"
  using assms by (simp add: dto_to_sth_def sth_to_dto_def unb64_def b64url_ok_def)

lemma consistency_dto_roundtrip: "b64url_ok P \<Longrightarrow> dto_to_consistency P (consistency_to_dto P p) = Inr p"
proof -
  assume ok: "b64url_ok P"
  have "digests_from_b64 P (map (\<lambda>n. b64url_encode P (array_bytes n)) ns) = Inr ns" for ns
    using ok by (induction ns) simp_all
  then show ?thesis by (simp add: dto_to_consistency_def consistency_to_dto_def)
qed

text \<open>The tag of the operator's key is assumed, so a head signed otherwise does not survive.\<close>

lemma sth_dto_forces_ed25519: "dto_to_sth P d = Inr h \<Longrightarrow> sig_algorithm (sth_signature h) = Ed25519"
  by (auto simp: dto_to_sth_def and_then_Inr_iff)

definition to_request :: "prims \<Rightarrow> action_receipt \<Rightarrow> submit_request" where
  "to_request P r =
     \<lparr>rq_chain_digest = b64url_encode P (array_bytes (chain_digest_of r)),
      rq_action_digest = b64url_encode P (array_bytes (action_digest r)),
      rq_nonce = b64url_encode P (array_bytes (nonce r)), rq_prev_root = b64url_encode P (array_bytes (prev_root r))\<rparr>"

lemma to_receipt_request [simp]: "b64url_ok P \<Longrightarrow> to_receipt P (to_request P r) = Inr r"
  by (simp add: to_receipt_def to_request_def)

section \<open>Gossip\<close>

definition gossip_with :: "prims \<Rightarrow> signed_tree_head \<Rightarrow> consistency_proof option \<Rightarrow> gossip_request" where
  "gossip_with P peer pf =
     \<lparr>gq_peer_sth = sth_to_dto P peer, gq_consistency_proof = map_option (consistency_to_dto P) pf\<rparr>"

lemma gossip_spec:
  assumes log: "ws_log P st rs" and codec: "b64url_ok P" "sig_algorithm (sth_signature peer) = Ed25519"
  shows "\<exists>ours st' res. gossip P st (gossip_with P peer pf) = Some (res, st') \<and> ws_log P st' rs \<and>
    head_of P (receipt_leaves P rs) ours \<and> verify_signed_head P ours (ws_key st) \<and>
    (case reconcile_heads P ours peer (ws_key st) pf of
       Inr _ \<Rightarrow> res = Inr (JObj [(''status'', JStr ''consistent'')])
     | Inl e \<Rightarrow> res = Inl (ApiEquivocation
         (JObj [(''status'', JStr ''equivocation''), (''reason'', JStr (equivocation_reason e)),
                (''our_sth'', sth_dto_json (sth_to_dto P ours)), (''peer_sth'', sth_dto_json (sth_to_dto P peer))])))"
proof -
  from ws_log_head [OF log] obtain ours w where
    o: "signed_head P (ws_witness st) (ws_signer st) = Some (ours, w)" "head_of P (receipt_leaves P rs) ours"
      "verify_signed_head P ours (ws_key st)" "ws_log P (st\<lparr>ws_witness := w\<rparr>) rs" by blast
  have pf: "(case map_option (consistency_to_dto P) pf of None \<Rightarrow> Inr None
      | Some ss \<Rightarrow> and_then (dto_to_consistency P ss) (\<lambda>p. Inr (Some p))) = Inr pf"
    using consistency_dto_roundtrip [OF codec(1)] by (cases pf) simp_all
  show ?thesis
    using o(2-4) sth_dto_roundtrip [OF codec] pf
    by (intro exI [of _ ours] exI [of _ "st\<lparr>ws_witness := w\<rparr>"])
      (auto simp: gossip_def gossip_with_def o(1) split: sum.splits)
qed

lemma head_same_size:
  assumes "head_of P hs a" and "sth_size b = length hs" and "verify_signed_head P a k" and "verify_signed_head P b k"
  shows "reconcile_heads P a b k pf = (if sth_root b = naive_root P hs then Inr () else Inl (ForkedRoot (length hs)))"
  using assms by (auto simp: reconcile_heads_def head_of_def)

text \<open>
  A head of the operator for the same size that is not this log's root is answered with
  the two heads, both signed by the operator's key.
\<close>

lemma gossip_detects_fork:
  assumes log: "ws_log P st rs" and codec: "b64url_ok P" "sig_algorithm (sth_signature peer) = Ed25519"
    and peer: "verify_signed_head P peer (ws_key st)" "sth_size peer = length rs"
      "sth_root peer \<noteq> naive_root P (receipt_leaves P rs)"
  shows "\<exists>ours st'. gossip P st (gossip_with P peer pf) =
      Some (Inl (ApiEquivocation
         (JObj [(''status'', JStr ''equivocation''), (''reason'', JStr ''forked_root''),
                (''our_sth'', sth_dto_json (sth_to_dto P ours)), (''peer_sth'', sth_dto_json (sth_to_dto P peer))])), st') \<and>
    ws_log P st' rs \<and> verify_signed_head P ours (ws_key st) \<and> verify_signed_head P peer (ws_key st) \<and>
    sth_size ours = sth_size peer \<and> sth_root ours \<noteq> sth_root peer"
proof -
  from gossip_spec [OF log codec, of pf] obtain ours st' res where
    g: "gossip P st (gossip_with P peer pf) = Some (res, st')" "ws_log P st' rs" "head_of P (receipt_leaves P rs) ours"
      "verify_signed_head P ours (ws_key st)"
    and res: "case reconcile_heads P ours peer (ws_key st) pf of
       Inr _ \<Rightarrow> res = Inr (JObj [(''status'', JStr ''consistent'')])
     | Inl e \<Rightarrow> res = Inl (ApiEquivocation
         (JObj [(''status'', JStr ''equivocation''), (''reason'', JStr (equivocation_reason e)),
                (''our_sth'', sth_dto_json (sth_to_dto P ours)), (''peer_sth'', sth_dto_json (sth_to_dto P peer))]))"
    by blast
  have "reconcile_heads P ours peer (ws_key st) pf = Inl (ForkedRoot (length rs))"
    using head_same_size [OF g(3) _ g(4) peer(1), of pf] peer(2,3) by simp
  with res g peer show ?thesis by (auto simp: head_of_def)
qed

text \<open>An earlier head of this log, with the proof the service itself serves, is consistent.\<close>

lemma gossip_accepts_past:
  assumes log: "ws_log P st rs" and codec: "b64url_ok P" "sig_algorithm (sth_signature peer) = Ed25519"
    and peer: "verify_signed_head P peer (ws_key st)" "head_of P (receipt_leaves P (take m rs)) peer" "m \<le> length rs"
    and served: "get_consistency P st m (length rs) = Some (Inr ss, st1)"
  shows "\<exists>pf st'. dto_to_consistency P ss = Inr pf \<and>
    gossip P st (gossip_with P peer (Some pf)) = Some (Inr (JObj [(''status'', JStr ''consistent'')]), st') \<and> ws_log P st' rs"
proof -
  from get_consistency_ok [OF log, of m "length rs"] served peer(3) obtain pf where
    ss: "ss = consistency_to_dto P pf"
    and v: "verify_consistency P (naive_root P (receipt_leaves P (take m rs))) (naive_root P (receipt_leaves P rs)) pf m (length rs)"
    by auto
  from gossip_spec [OF log codec, of "Some pf"] obtain ours st' res where
    g: "gossip P st (gossip_with P peer (Some pf)) = Some (res, st')" "ws_log P st' rs" "head_of P (receipt_leaves P rs) ours"
      "verify_signed_head P ours (ws_key st)"
    and res: "case reconcile_heads P ours peer (ws_key st) (Some pf) of
       Inr _ \<Rightarrow> res = Inr (JObj [(''status'', JStr ''consistent'')])
     | Inl e \<Rightarrow> res = Inl (ApiEquivocation
         (JObj [(''status'', JStr ''equivocation''), (''reason'', JStr (equivocation_reason e)),
                (''our_sth'', sth_dto_json (sth_to_dto P ours)), (''peer_sth'', sth_dto_json (sth_to_dto P peer))]))"
    by blast
  have "reconcile_heads P ours peer (ws_key st) (Some pf) = Inr ()"
    using g(3,4) peer v by (auto simp: reconcile_heads_iff head_of_def)
  with res g(1,2) ss codec(1) show ?thesis by (auto simp: consistency_dto_roundtrip)
qed

section \<open>Restart\<close>

lemma restart_log:
  assumes "\<forall>r \<in> set rs. storable P r" and "chained P rs" and "signer_ok P sg" and "torn t"
  shows "\<exists>st. witness_service_persistent P sg (FileBytes (frames P rs @ t)) None None = Inr st \<and>
    ws_log P st rs \<and> on_disk P st rs \<and> ws_store st \<noteq> None"
  using store_open_frames [OF assms(1,4), of witness_new] appended_ok [of P witness_new rs] assms(2,3)
  by (simp add: witness_service_persistent_def ws_log_def on_disk_def)

text \<open>
  What a crash of \<^verbatim>\<open>submit\<close> leaves of an entry is all of it or nothing; an entry
  acknowledged before is there in both cases.
\<close>

lemma restart_after_crash:
  assumes "\<forall>r' \<in> set (rs @ [r]). storable P r'" and "chained P (rs @ [r])" and "signer_ok P sg"
  shows "\<exists>st rs'. rs' \<in> {rs, rs @ [r]} \<and>
    witness_service_persistent P sg (FileBytes (frames P rs @ take n (frame P r))) None None = Inr st \<and>
    ws_log P st rs' \<and> on_disk P st rs'"
proof -
  have "chained P rs" using assms(2) by (rule chained_front)
  moreover obtain rs' where "rs' \<in> {rs, rs @ [r]}"
    "store_open P (FileBytes (frames P rs @ take n (frame P r))) None None witness_new = Inr (frames P rs', appended P witness_new rs')"
    using crash_recovery [of rs P r n witness_new] assms(1) by auto
  ultimately show ?thesis
    using appended_ok [of P witness_new rs'] assms(2,3)
    by (auto simp: witness_service_persistent_def ws_log_def on_disk_def)
qed

text \<open>
  After a failed write the service goes on with a file that ends in a torn frame. The next
  submission of the same receipt is acknowledged, and a restart forgets it.
\<close>

lemma retried_submission_lost:
  assumes log: "ws_log P st rs" and disk: "ws_store st = Some (frames P rs)" and stored: "\<forall>r' \<in> set rs. storable P r'"
    and r: "storable P r" "0 < length (canonical_bytes P r)" "length (canonical_bytes P r) < 2 ^ 24"
    and root: "prev_root r = naive_root P (receipt_leaves P rs)" and codec: "b64url_ok P" and small: "length rs < 2 ^ 64"
  shows "\<exists>d st1 resp st2 st3. submit P st (to_request P r) (WriteFailed 1 e) = Some (Inl (ApiInternal d), st1) \<and>
    submit P st1 (to_request P r) Written = Some (Inr (201, resp), st2) \<and> ws_log P st2 (rs @ [r]) \<and>
    witness_service_persistent P (ws_signer st) (FileBytes (the (ws_store st2))) None None = Inr st3 \<and> ws_log P st3 rs"
proof -
  let ?f = "frames P rs @ take 1 (frame P r)"
  from r(3) have fits: "\<not> 2 ^ 32 \<le> length (canonical_bytes P r)" by simp
  have p1: "persist P (ws_store st) r (WriteFailed 1 e) = (Inl (OsError e), Some ?f)"
    using fits by (simp add: persist_def disk store_append_def)
  from submit_unsaved [OF log _ root this, of "to_request P r"] codec obtain d st1 where
    1: "submit P st (to_request P r) (WriteFailed 1 e) = Some (Inl (ApiInternal d), st1)" "ws_log P st1 rs" "ws_store st1 = Some ?f"
    by auto
  have p2: "persist P (ws_store st1) r Written = (Inr (), Some (?f @ frame P r))"
    using fits by (simp add: persist_def 1(3) store_append_def)
  from submit_accepted [OF 1(2) _ root this small, of "to_request P r"] codec obtain resp st2 where
    2: "submit P st1 (to_request P r) Written = Some (Inr (201, resp), st2)" "ws_log P st2 (rs @ [r])"
      "ws_store st2 = Some (?f @ frame P r)" by auto
  have "chained P rs" "signer_ok P (ws_signer st)" using log by (simp_all add: ws_log_def)
  from restart_log [OF stored this torn_before_frame [OF r(2,3)]] 1(1) 2 show ?thesis by auto
qed

section \<open>Every handler, any order\<close>

lemma persist_cases:
  obtains (saved) store where "persist P s r out = (Inr (), store)"
  | (failed) e store where "persist P s r out = (Inl e, store)"
  by (cases "persist P s r out"; cases "fst (persist P s r out)") auto

lemma submit_cases:
  assumes log: "ws_log P st rs" and small: "length rs < 2 ^ 64"
  shows "\<exists>res st'. submit P st q out = Some (res, st') \<and>
    ((\<exists>e. res = Inl e \<and> ws_log P st' rs) \<or>
     (\<exists>r resp. res = Inr (201, resp) \<and> to_receipt P q = Inr r \<and> ws_log P st' (rs @ [r]) \<and>
        persist P (ws_store st) r out = (Inr (), ws_store st') \<and> acknowledges P (ws_key st) rs r resp))"
proof (cases "to_receipt P q")
  case (Inl e)
  with submit_malformed log show ?thesis by fastforce
next
  case (Inr r)
  show ?thesis
  proof (cases "prev_root r = naive_root P (receipt_leaves P rs)")
    case False
    with submit_stale [OF log Inr] show ?thesis by blast
  next
    case True
    show ?thesis
    proof (cases P "ws_store st" r out rule: persist_cases)
      case (saved store)
      from submit_accepted [OF log Inr True saved small] saved Inr show ?thesis by blast
    next
      case (failed e store)
      from submit_unsaved [OF log Inr True failed] show ?thesis by blast
    qed
  qed
qed

lemma signs_checkpoint:
  assumes "signer_ok P sg"
  shows "\<exists>n. sign_checkpoint P sg org c = Some n"
proof -
  from assms obtain s where "sg_sign sg (str_bytes (checkpoint_body P c)) = Inr s"
    unfolding signer_ok_def by blast
  then show ?thesis by (simp add: sign_checkpoint_def signature_line_def Let_def)
qed

lemma get_checkpoint_ok:
  assumes "ws_log P st rs"
  shows "\<exists>sth n st'. get_checkpoint P st q = Some (n, st') \<and> head_of P (receipt_leaves P rs) sth \<and>
    sign_checkpoint P (ws_signer st) (case q of None \<Rightarrow> default_origin | Some s \<Rightarrow> s)
      (checkpoint_from_sth (case q of None \<Rightarrow> default_origin | Some s \<Rightarrow> s) sth) = Some n \<and>
    ws_log P st' rs \<and> ws_store st' = ws_store st"
proof -
  from ws_log_head [OF assms] obtain sth w where h: "signed_head P (ws_witness st) (ws_signer st) = Some (sth, w)"
    "head_of P (receipt_leaves P rs) sth" "ws_log P (st\<lparr>ws_witness := w\<rparr>) rs" by blast
  have "signer_ok P (ws_signer st)" using assms by (simp add: ws_log_def)
  from signs_checkpoint [OF this] obtain n where
    "sign_checkpoint P (ws_signer st) (case q of None \<Rightarrow> default_origin | Some s \<Rightarrow> s)
      (checkpoint_from_sth (case q of None \<Rightarrow> default_origin | Some s \<Rightarrow> s) sth) = Some n" by blast
  with h show ?thesis
    by (intro exI [of _ sth] exI [of _ n] exI [of _ "st\<lparr>ws_witness := w\<rparr>"]) (simp add: get_checkpoint_def)
qed

inductive ws_step :: "prims \<Rightarrow> witness_service \<Rightarrow> witness_service \<Rightarrow> bool" for P where
  submitted: "submit P st q out = Some (res, st') \<Longrightarrow> ws_step P st st'"
| sth_read: "get_sth P st = Some (dto, st') \<Longrightarrow> ws_step P st st'"
| proof_read: "get_proof P st i = Some (pr, st') \<Longrightarrow> ws_step P st st'"
| consistency_read: "get_consistency P st m n = Some (ans, st') \<Longrightarrow> ws_step P st st'"
| gossiped: "gossip P st g = Some (gr, st') \<Longrightarrow> ws_step P st st'"
| checkpoint_read: "get_checkpoint P st og = Some (note_text, st') \<Longrightarrow> ws_step P st st'"

inductive_cases ws_stepE: "ws_step P st st'"

inductive ws_run :: "prims \<Rightarrow> witness_service \<Rightarrow> nat \<Rightarrow> witness_service \<Rightarrow> bool" for P and st where
  start: "ws_run P st 0 st"
| step: "ws_run P st n st1 \<Longrightarrow> ws_step P st1 st2 \<Longrightarrow> ws_run P st (Suc n) st2"

lemma gossip_log:
  assumes log: "ws_log P st rs" and "gossip P st g = Some (res, st')"
  shows "ws_log P st' rs \<and> ws_store st' = ws_store st"
proof -
  from ws_log_head [OF log] obtain sth w where "signed_head P (ws_witness st) (ws_signer st) = Some (sth, w)"
    "ws_log P (st\<lparr>ws_witness := w\<rparr>) rs" by blast
  with assms show ?thesis by (auto simp: gossip_def split: sum.splits)
qed

lemma ws_step_log:
  assumes "ws_step P st st'" and log: "ws_log P st rs" and small: "length rs < 2 ^ 64"
  shows "\<exists>xs. ws_log P st' (rs @ xs) \<and> length xs \<le> 1 \<and>
    ((\<forall>r \<in> set xs. \<exists>out. persist P (ws_store st) r out = (Inr (), ws_store st')) \<and> (xs = [] \<longrightarrow> ws_store st' = ws_store st \<or> ws_store st \<noteq> None))"
  using assms(1)
proof (cases rule: ws_step.cases)
  case (submitted q out res)
  from submit_cases [OF log small, of q out] submitted consider
    "ws_log P st' rs" | r where "ws_log P st' (rs @ [r])" "persist P (ws_store st) r out = (Inr (), ws_store st')"
    by auto
  then show ?thesis
  proof cases
    case 1
    have "ws_store st' = None" if "ws_store st = None"
      using submitted that by (auto simp: submit_def split: sum.splits option.splits prod.splits if_splits)
    with 1 show ?thesis by (intro exI [of _ "[]"]) auto
  next
    case 2
    then show ?thesis by (intro exI [of _ "[r]"]) auto
  qed
next
  case (sth_read dto)
  with get_sth_ok [OF log] show ?thesis by (intro exI [of _ "[]"]) auto
next
  case (proof_read i pr)
  with get_proof_ok [OF log, of i] small show ?thesis by (intro exI [of _ "[]"]) auto
next
  case (consistency_read m n ans)
  with get_consistency_ok [OF log, of m n] show ?thesis by (intro exI [of _ "[]"]) auto
next
  case (gossiped g gr)
  with gossip_log [OF log] show ?thesis by (intro exI [of _ "[]"]) auto
next
  case (checkpoint_read og note_text)
  with get_checkpoint_ok [OF log, of og] show ?thesis by (intro exI [of _ "[]"]) auto
qed

lemma ws_run_log:
  "ws_run P st n st' \<Longrightarrow> ws_log P st rs \<Longrightarrow> length rs + n < 2 ^ 64 \<Longrightarrow> \<exists>xs. ws_log P st' (rs @ xs) \<and> length xs \<le> n"
proof (induction rule: ws_run.induct)
  case start
  then show ?case by (intro exI [of _ "[]"]) simp
next
  case (step n st1 st2)
  then obtain xs where xs: "ws_log P st1 (rs @ xs)" "length xs \<le> n" by auto
  with ws_step_log [OF step.hyps(2) xs(1)] step.prems(2) obtain ys where "ws_log P st2 ((rs @ xs) @ ys)" "length ys \<le> 1"
    by auto
  with xs(2) show ?case by (intro exI [of _ "xs @ ys"]) auto
qed

text \<open>While no write fails, the file is the log.\<close>

lemma submit_on_disk:
  assumes log: "ws_log P st rs" and small: "length rs < 2 ^ 64" and disk: "on_disk P st rs"
    and sub: "submit P st q Written = Some (Inr (201, resp), st')"
  shows "\<exists>r. ws_log P st' (rs @ [r]) \<and> on_disk P st' (rs @ [r])"
proof -
  from submit_cases [OF log small, of q Written] sub obtain r where
    "ws_log P st' (rs @ [r])" "persist P (ws_store st) r Written = (Inr (), ws_store st')" by auto
  moreover from this(2) disk have "on_disk P st' (rs @ [r])"
    by (auto simp: on_disk_def persist_def store_append_def split: option.splits if_splits)
  ultimately show ?thesis by blast
qed

section \<open>The checkpoint endpoint\<close>

lemma get_checkpoint_verifies:
  assumes log: "ws_log P st rs" and sg: "ws_signer st = ed25519_from_seed P seed" "ed_good P seed"
    and codec: "base64_ok P" and org: "origin_ok org" "name_ok org" and small: "length rs < usize_bound"
  shows "\<exists>n st'. get_checkpoint P st (Some org) = Some (n, st') \<and>
    verify_checkpoint P n org (ws_key st) =
      Some \<lparr>cp_origin = org, cp_size = length rs, cp_root = naive_root P (receipt_leaves P rs)\<rparr>"
proof -
  from get_checkpoint_ok [OF log, of "Some org"] obtain sth n st' where
    g: "get_checkpoint P st (Some org) = Some (n, st')" "head_of P (receipt_leaves P rs) sth"
      "sign_checkpoint P (ed25519_from_seed P seed) org (checkpoint_from_sth org sth) = Some n"
    by (auto simp: sg(1))
  have "origin_ok (cp_origin (checkpoint_from_sth org sth))" "cp_size (checkpoint_from_sth org sth) < usize_bound"
    using org(1) small g(2) by (simp_all add: checkpoint_from_sth_def head_of_def)
  from sign_checkpoint_ok [OF codec this org(2) sg(2)] g(3)
  have "verify_checkpoint P n org (sg_public_key (ed25519_from_seed P seed)) = Some (checkpoint_from_sth org sth)"
    by (metis option.inject)
  with g log show ?thesis by (auto simp: checkpoint_from_sth_def head_of_def ws_log_def sg(1))
qed

text \<open>
  The origin of the query goes into the signed body as it is. An origin of three lines is
  signed as the three lines of a checkpoint, and the signature in the response makes a note
  that verifies as that checkpoint under any name.
\<close>

definition injected_origin :: "prims \<Rightarrow> checkpoint \<Rightarrow> string" where
  "injected_origin P c = join [nl] (checkpoint_lines P c)"

lemma checkpoint_injection:
  assumes log: "ws_log P st rs" and sg: "ws_signer st = ed25519_from_seed P seed" "ed_good P seed"
    and codec: "base64_ok P" and c: "origin_ok (cp_origin c)" "cp_size c < usize_bound" and name: "name_ok name"
  shows "\<exists>body s st'. get_checkpoint P st (Some (injected_origin P c)) =
      Some (body @ sig_marker @ injected_origin P c @ '' '' @
        b64_encode P (key_hash P (injected_origin P c) (pk_bytes (ws_key st)) @ s) @ [nl], st') \<and>
    verify_checkpoint P (body @ sig_marker @ name @ '' '' @ b64_encode P (key_hash P name (pk_bytes (ws_key st)) @ s) @ [nl])
      name (ws_key st) = Some c"
proof -
  let ?org = "injected_origin P c"
  from get_checkpoint_ok [OF log, of "Some ?org"] obtain sth n st' where
    g: "get_checkpoint P st (Some ?org) = Some (n, st')"
      "sign_checkpoint P (ed25519_from_seed P seed) ?org (checkpoint_from_sth ?org sth) = Some n"
    by (auto simp: sg(1))
  let ?ls = "checkpoint_lines P c @ [decimal (sth_size sth), b64_encode P (array_bytes (sth_root sth))]"
  let ?body = "unlines ?ls" and ?s = "ed_raw_sign P seed (str_bytes (unlines ?ls))"
  have key: "ws_key st = sg_public_key (ed25519_from_seed P seed)" "pk_bytes (ws_key st) = ed_public P seed"
    using log by (simp_all add: ws_log_def sg(1) ed25519_from_seed_def)
  have "checkpoint_body P (checkpoint_from_sth ?org sth) = ?body"
    by (simp add: checkpoint_body_def checkpoint_from_sth_def injected_origin_def checkpoint_lines_def)
  with g(2) have n: "n = ?body @ sig_marker @ ?org @ '' '' @ b64_encode P (key_hash P ?org (ed_public P seed) @ ?s) @ [nl]"
    by (simp add: sign_checkpoint_def key_line_def Let_def)
  have "verify_checkpoint P (unlines (?ls @ [key_line P ?body seed name])) name (ws_key st) = Some c"
    using verify_extended [OF codec c name sg(2),
        of "[decimal (sth_size sth), b64_encode P (array_bytes (sth_root sth))]"] base64_free [OF codec] digit_not_marker
    by (auto simp: key(1) marker_free)
  then have "verify_checkpoint P (?body @ sig_marker @ name @ '' '' @ b64_encode P (key_hash P name (ed_public P seed) @ ?s) @ [nl])
      name (ws_key st) = Some c"
    by (simp add: key_line_def)
  with g(1) show ?thesis
    unfolding n key(2) by (intro exI [of _ ?body] exI [of _ ?s] exI [of _ st']) simp
qed

end
