(* ===== verification/Revocation_Service.thy ===== *)
theory Revocation_Service
  imports Text Revocation Revlog
begin

text \<open>
  The crate \<^verbatim>\<open>services/revocation-log\<close>, the publisher of signed snapshots and of the
  log-backed map, and \<^verbatim>\<open>clients/revocation-http\<close>, which fetches a snapshot. The clock is
  read once per signature and is an argument; \<^verbatim>\<open>None\<close> is a panic under a lock.
\<close>

section \<open>State\<close>

record revocation_log =
  rl_revoked :: "revocation_id set"
  rl_reasons :: "revocation_id \<rightharpoonup> string"
  rl_epoch :: u64

record revocation_service =
  rs_log :: revocation_log
  rs_logbacked :: log_backed
  rs_signer :: signer
  rs_key :: public_key

definition revocation_service_new :: "signer \<Rightarrow> revocation_service" where
  "revocation_service_new sg =
     \<lparr>rs_log = \<lparr>rl_revoked = {}, rl_reasons = Map.empty, rl_epoch = 0\<rparr>, rs_logbacked = log_backed_new,
      rs_signer = sg, rs_key = sg_public_key sg\<rparr>"

definition current_snapshot :: "prims \<Rightarrow> revocation_service \<Rightarrow> u64 \<Rightarrow> snapshot option" where
  "current_snapshot P st now = snapshot_sign P (rs_signer st) (rl_epoch (rs_log st)) now (rl_revoked (rs_log st))"

section \<open>Errors and requests\<close>

datatype revocation_api_error =
    RevBadRequest string
  | RevConflict string

fun revocation_error_response :: "revocation_api_error \<Rightarrow> nat \<times> json" where
  "revocation_error_response (RevBadRequest d) = (400, JObj [(''title'', JStr ''bad request''), (''detail'', JStr d)])"
| "revocation_error_response (RevConflict d) = (409, JObj [(''title'', JStr ''conflict''), (''detail'', JStr d)])"

definition hex_bytes :: "prims \<Rightarrow> string \<Rightarrow> u8 list option" where
  "hex_bytes P s = (case hex_decode P (str_trim s) of Inl _ \<Rightarrow> None | Inr bs \<Rightarrow> Some bs)"

definition revocation_id_from_hex :: "prims \<Rightarrow> string \<Rightarrow> revocation_api_error + revocation_id" where
  "revocation_id_from_hex P s =
     and_then (ok_or (hex_bytes P s) (RevBadRequest ''revocation_id must be hex'')) (\<lambda>bs.
       if length bs \<noteq> 32 then Inl (RevBadRequest ''revocation_id must be 32 bytes (64 hex chars)'')
       else Inr (RevocationId bs))"

definition hash_from_hex :: "prims \<Rightarrow> string \<Rightarrow> revocation_api_error + bytes32" where
  "hash_from_hex P s =
     and_then (ok_or (hex_bytes P s) (RevBadRequest ''key must be hex'')) (\<lambda>bs.
       ok_or (try_bytes32 bs) (RevBadRequest ''key must be 32 bytes (64 hex chars)''))"

record revoke_request =
  rr_revocation_id :: string
  rr_reason :: string

section \<open>Handlers, first version\<close>

definition get_snapshot :: "prims \<Rightarrow> revocation_service \<Rightarrow> u64 \<Rightarrow> snapshot option" where
  "get_snapshot P st now = current_snapshot P st now"

text \<open>The first critical section of \<^verbatim>\<open>revoke\<close>; the snapshot it returns takes the lock anew.\<close>

definition revoke_update :: "revocation_log \<Rightarrow> revocation_id \<Rightarrow> string \<Rightarrow> revocation_log" where
  "revoke_update l i reason =
     (let l1 = (if i \<in> rl_revoked l then l else l\<lparr>rl_revoked := insert i (rl_revoked l), rl_epoch := rl_epoch l + 1\<rparr>)
      in l1\<lparr>rl_reasons := (rl_reasons l1)(i \<mapsto> reason)\<rparr>)"

definition handle_revoke ::
  "prims \<Rightarrow> revocation_service \<Rightarrow> revoke_request \<Rightarrow> u64 \<Rightarrow>
   ((revocation_api_error + (nat \<times> snapshot)) \<times> revocation_service) option" where
  "handle_revoke P st q now =
     (case revocation_id_from_hex P (rr_revocation_id q) of
        Inl e \<Rightarrow> Some (Inl e, st)
      | Inr i \<Rightarrow>
          (let st' = st\<lparr>rs_log := revoke_update (rs_log st) i (rr_reason q)\<rparr>
           in case current_snapshot P st' now of
                None \<Rightarrow> None
              | Some sn \<Rightarrow> Some (Inr (201, sn), st')))"

definition get_entries :: "revocation_service \<Rightarrow> u64 \<times> (string \<times> string) list" where
  "get_entries st =
     (rl_epoch (rs_log st),
      map (\<lambda>i. (revocation_id_display i, case rl_reasons (rs_log st) i of None \<Rightarrow> [] | Some r \<Rightarrow> r))
        (sorted_list_of_set (rl_revoked (rs_log st))))"

definition get_revocation_keys :: "prims \<Rightarrow> revocation_service \<Rightarrow> (string \<times> string \<times> string) list" where
  "get_revocation_keys P st =
     (let hex_key = hex_encode P (pk_bytes (rs_key st)) in [(hex_key, hex_key, ''ed25519'')])"

section \<open>Handlers, second version\<close>

definition v2_revoke ::
  "prims \<Rightarrow> revocation_service \<Rightarrow> revoke_request \<Rightarrow> (revocation_api_error + nat) \<times> revocation_service" where
  "v2_revoke P st q =
     (case hash_from_hex P (rr_revocation_id q) of
        Inl e \<Rightarrow> (Inl e, st)
      | Inr key \<Rightarrow> (Inr 201, st\<lparr>rs_logbacked := log_backed_revoke (rs_logbacked st) key\<rparr>))"

definition v2_checkpoint ::
  "prims \<Rightarrow> revocation_service \<Rightarrow> ((nat \<times> signed_tree_head) \<times> revocation_service) option" where
  "v2_checkpoint P st =
     (case publish_checkpoint P (rs_logbacked st) (rs_signer st) of
        None \<Rightarrow> None
      | Some (sth, lb) \<Rightarrow> Some ((201, sth), st\<lparr>rs_logbacked := lb\<rparr>))"

definition v2_head :: "prims \<Rightarrow> revocation_service \<Rightarrow> (signed_tree_head \<times> revocation_service) option" where
  "v2_head P st =
     (case lb_signed_head P (rs_logbacked st) (rs_signer st) of
        None \<Rightarrow> None
      | Some (sth, lb) \<Rightarrow> Some (sth, st\<lparr>rs_logbacked := lb\<rparr>))"

definition v2_status ::
  "prims \<Rightarrow> revocation_service \<Rightarrow> string \<Rightarrow>
   ((revocation_api_error + log_backed_proof) \<times> revocation_service) option" where
  "v2_status P st key_query =
     (case hash_from_hex P key_query of
        Inl e \<Rightarrow> Some (Inl e, st)
      | Inr key \<Rightarrow>
          (case lb_prove P (rs_logbacked st) key (rs_signer st) of
             None \<Rightarrow> None
           | Some (pf, lb) \<Rightarrow>
               Some (ok_or pf (RevConflict ''no checkpoint covers the current map root; POST /revocations/v2/checkpoint''),
                     st\<lparr>rs_logbacked := lb\<rparr>)))"

definition v2_consistency ::
  "prims \<Rightarrow> revocation_service \<Rightarrow> nat \<Rightarrow> nat \<Rightarrow>
   ((revocation_api_error + consistency_proof) \<times> revocation_service) option" where
  "v2_consistency P st m n =
     (case lb_consistency_proof P (rs_logbacked st) m n of
        None \<Rightarrow> None
      | Some (pf, lb) \<Rightarrow>
          Some (ok_or pf (RevBadRequest ''invalid sizes: need first <= second <= current tree size''),
                st\<lparr>rs_logbacked := lb\<rparr>))"

section \<open>The client\<close>

record http_source =
  hs_url :: string
  hs_timeout :: u64

definition http_source_new :: "string \<Rightarrow> http_source" where
  "http_source_new url = \<lparr>hs_url = url, hs_timeout = 10\<rparr>"

definition with_timeout :: "http_source \<Rightarrow> u64 \<Rightarrow> http_source" where
  "with_timeout s secs = s\<lparr>hs_timeout := secs\<rparr>"

text \<open>
  \<open>get url timeout\<close> is the HTTP library: an error text, or the status and what its JSON
  reader makes of the body.
\<close>

definition http_fetch :: "(string \<Rightarrow> u64 \<Rightarrow> string + (nat \<times> (string + snapshot))) \<Rightarrow> http_source \<Rightarrow> string + snapshot" where
  "http_fetch get s =
     and_then (map_err (\<lambda>e. ''revocation snapshot fetch failed: '' @ e) (get (hs_url s) (hs_timeout s))) (\<lambda>(status, body).
       if \<not> (200 \<le> status \<and> status < 300) then Inl (''revocation log returned HTTP '' @ decimal status)
       else map_err (\<lambda>e. ''malformed revocation snapshot: '' @ e) body)"

section \<open>The published set\<close>

text \<open>The epoch counts the changes of the set, which only grows.\<close>

definition rl_ok :: "revocation_log \<Rightarrow> bool" where
  "rl_ok l \<longleftrightarrow>
     finite (rl_revoked l) \<and> rl_epoch l = of_nat (card (rl_revoked l)) \<and> dom (rl_reasons l) = rl_revoked l \<and>
     (\<forall>i \<in> rl_revoked l. length (rev_bytes i) = 32)"

definition rs_ok :: "prims \<Rightarrow> revocation_service \<Rightarrow> history \<Rightarrow> bool" where
  "rs_ok P st h \<longleftrightarrow>
     rl_ok (rs_log st) \<and> operated P (rs_logbacked st) h \<and> signer_ok P (rs_signer st) \<and>
     rs_key st = sg_public_key (rs_signer st)"

lemma revoke_update_simps [simp]:
  "rl_revoked (revoke_update l i r) = insert i (rl_revoked l)"
  "rl_epoch (revoke_update l i r) = (if i \<in> rl_revoked l then rl_epoch l else rl_epoch l + 1)"
  "rl_reasons (revoke_update l i r) = (rl_reasons l)(i \<mapsto> r)"
  by (auto simp: revoke_update_def Let_def)

lemma revoke_update_ok: "rl_ok l \<Longrightarrow> length (rev_bytes i) = 32 \<Longrightarrow> rl_ok (revoke_update l i r)"
  by (auto simp: rl_ok_def insert_absorb card_insert_if)

lemma revoke_update_idem: "i \<in> rl_revoked l \<Longrightarrow>
    rl_revoked (revoke_update l i r) = rl_revoked l \<and> rl_epoch (revoke_update l i r) = rl_epoch l"
  by auto

lemma id_from_hex_length: "revocation_id_from_hex P s = Inr i \<Longrightarrow> length (rev_bytes i) = 32"
  by (auto simp: revocation_id_from_hex_def and_then_Inr_iff split: if_splits)

lemma rs_ok_new: "signer_ok P sg \<Longrightarrow> rs_ok P (revocation_service_new sg) []"
  by (simp add: rs_ok_def rl_ok_def revocation_service_new_def operated.fresh)

lemma snapshot_sign_ok:
  assumes "signer_ok P sg"
  shows "\<exists>sn. snapshot_sign P sg e p r = Some sn \<and> sn_epoch sn = e \<and> published_at sn = p \<and> sn_revoked sn = r \<and>
    snapshot_verify_signature P sn (sg_public_key sg)"
proof -
  obtain s where "sg_sign sg (snapshot_signing_bytes P e p r) = Inr s"
    "verify_signature P (snapshot_signing_bytes P e p r) s (sg_public_key sg) = Inr True"
    using assms unfolding signer_ok_def by blast
  then show ?thesis by (simp add: snapshot_sign_def snapshot_verify_signature_def)
qed

lemma current_snapshot_ok:
  assumes "rs_ok P st h"
  shows "\<exists>sn. current_snapshot P st now = Some sn \<and> sn_epoch sn = rl_epoch (rs_log st) \<and> published_at sn = now \<and>
    sn_revoked sn = rl_revoked (rs_log st) \<and> snapshot_verify_signature P sn (rs_key st)"
  using snapshot_sign_ok [of P "rs_signer st"] assms by (simp add: current_snapshot_def rs_ok_def)

text \<open>A revocation takes effect in the snapshot it is answered with.\<close>

lemma handle_revoke_ok:
  assumes ok: "rs_ok P st h" and i: "revocation_id_from_hex P (rr_revocation_id q) = Inr i"
  shows "\<exists>sn st'. handle_revoke P st q now = Some (Inr (201, sn), st') \<and> rs_ok P st' h \<and>
    rl_revoked (rs_log st') = insert i (rl_revoked (rs_log st)) \<and> sn_revoked sn = rl_revoked (rs_log st') \<and>
    sn_epoch sn = rl_epoch (rs_log st') \<and> published_at sn = now \<and> snapshot_verify_signature P sn (rs_key st)"
proof -
  let ?st = "st\<lparr>rs_log := revoke_update (rs_log st) i (rr_reason q)\<rparr>"
  have "rs_ok P ?st h"
    using ok revoke_update_ok [OF _ id_from_hex_length [OF i]] by (simp add: rs_ok_def)
  with current_snapshot_ok [OF this, of now] show ?thesis
    by (auto simp: handle_revoke_def i)
qed

text \<open>
  From the service to the client: a fetched snapshot that is recent enough, checked under
  the published key by a client that saw no later epoch, answers by membership.
\<close>

lemma client_reads_service:
  assumes ok: "rs_ok P st h" and sn: "get_snapshot P st published = Some sn"
    and http: "get (hs_url s) (hs_timeout s) = Inr (200, Inr sn)"
    and client: "operator_key c = rs_key st" "last_seen_epoch c \<le> rl_epoch (rs_log st)"
    and fresh: "unat now - unat published \<le> unat (max_staleness c)"
  shows "snapshot_is_revoked P c (http_fetch get s) now i =
    (Inr (if i \<in> rl_revoked (rs_log st) then Revoked ''listed in the signed revocation snapshot'' else Live),
     c\<lparr>last_seen_epoch := rl_epoch (rs_log st)\<rparr>)"
proof -
  have "sn_epoch sn = rl_epoch (rs_log st)" "published_at sn = published" "sn_revoked sn = rl_revoked (rs_log st)"
    "snapshot_verify_signature P sn (rs_key st)"
    using current_snapshot_ok [OF ok, of published] sn by (auto simp: get_snapshot_def)
  moreover have "http_fetch get s = Inr sn" by (simp add: http_fetch_def http)
  ultimately show ?thesis
    using client fresh
    by (intro snapshot_is_revoked_iff [THEN iffD2]) (auto simp: snapshot_answer_def)
qed

lemma http_fetch_iff:
  "http_fetch get s = Inr sn \<longleftrightarrow>
     (\<exists>status. get (hs_url s) (hs_timeout s) = Inr (status, Inr sn) \<and> 200 \<le> status \<and> status < 300)"
  by (auto simp: http_fetch_def and_then_Inr_iff split: if_splits)

lemma http_failure_closed:
  "http_fetch get s = Inl e \<Longrightarrow> snapshot_is_revoked P c (http_fetch get s) now i = (Inl (LogUnreachable e), c)"
  by (simp add: snapshot_is_revoked_def snapshot_guards_def)

section \<open>Every handler, any order\<close>

text \<open>One request; the label is the snapshot it served, if it served one.\<close>

inductive rs_step :: "prims \<Rightarrow> revocation_service \<Rightarrow> snapshot option \<Rightarrow> revocation_service \<Rightarrow> bool" for P where
  snapshot_read: "get_snapshot P st now = Some sn \<Longrightarrow> rs_step P st (Some sn) st"
| revoked: "handle_revoke P st q now = Some (Inr (code, sn), st') \<Longrightarrow> rs_step P st (Some sn) st'"
| refused: "handle_revoke P st q now = Some (Inl e, st') \<Longrightarrow> rs_step P st None st'"
| map_revoked: "v2_revoke P st q = (res, st') \<Longrightarrow> rs_step P st None st'"
| checkpointed: "v2_checkpoint P st = Some (csth, st') \<Longrightarrow> rs_step P st None st'"
| head_read: "v2_head P st = Some (sth, st') \<Longrightarrow> rs_step P st None st'"
| status_read: "v2_status P st key = Some (sres, st') \<Longrightarrow> rs_step P st None st'"
| consistency_read: "v2_consistency P st m n = Some (cres, st') \<Longrightarrow> rs_step P st None st'"

definition grew :: "revocation_service \<Rightarrow> revocation_service \<Rightarrow> bool" where
  "grew st st' \<longleftrightarrow>
     rs_key st' = rs_key st \<and> rl_revoked (rs_log st) \<subseteq> rl_revoked (rs_log st') \<and>
     set (map_keys (lb_map (rs_logbacked st))) \<subseteq> set (map_keys (lb_map (rs_logbacked st')))"

lemma grew_refl [simp]: "grew st st"
  by (simp add: grew_def)

lemma grew_trans: "grew a b \<Longrightarrow> grew b c \<Longrightarrow> grew a c"
  by (auto simp: grew_def)

text \<open>The snapshot a step serves is the set after the step.\<close>

definition serves :: "prims \<Rightarrow> revocation_service \<Rightarrow> snapshot \<Rightarrow> bool" where
  "serves P st sn \<longleftrightarrow>
     sn_revoked sn = rl_revoked (rs_log st) \<and> sn_epoch sn = rl_epoch (rs_log st) \<and>
     snapshot_verify_signature P sn (rs_key st)"

lemma rs_ok_logbacked:
  "rs_ok P st h \<Longrightarrow> operated P lb h' \<Longrightarrow> rs_ok P (st\<lparr>rs_logbacked := lb\<rparr>) h'"
  by (simp add: rs_ok_def)

lemma rs_step_ok:
  assumes "rs_step P st out st'" and ok: "rs_ok P st h"
  shows "\<exists>xs. rs_ok P st' (h @ xs) \<and> grew st st' \<and> (\<forall>sn. out = Some sn \<longrightarrow> serves P st' sn)"
  using assms(1)
proof (cases rule: rs_step.cases)
  case (snapshot_read now sn)
  with current_snapshot_ok [OF ok, of now] ok show ?thesis
    by (intro exI [of _ "[]"]) (auto simp: get_snapshot_def serves_def)
next
  case (revoked q now code sn)
  then obtain i where "revocation_id_from_hex P (rr_revocation_id q) = Inr i"
    by (auto simp: handle_revoke_def split: sum.splits)
  from handle_revoke_ok [OF ok this, of now] revoked show ?thesis
    by (intro exI [of _ "[]"])
      (auto simp: handle_revoke_def serves_def grew_def Let_def split: sum.splits option.splits)
next
  case (refused q now e)
  then have "st' = st" by (auto simp: handle_revoke_def Let_def split: sum.splits option.splits)
  with ok refused(1) show ?thesis by (intro exI [of _ "[]"]) simp
next
  case (map_revoked q res)
  have keys: "set (map_keys (lb_map lb)) \<subseteq> set (map_keys (lb_map (log_backed_revoke lb key)))" if "operated P lb h" for lb key
    using operated_inv [OF that] revmap_revoke_ok [of "lb_map lb" key] by (auto simp: lb_inv_def log_backed_revoke_def)
  from map_revoked ok rs_ok_logbacked [OF ok operated.revoke] show ?thesis
    by (intro exI [of _ "[]"])
      (auto simp: v2_revoke_def grew_def rs_ok_def subsetD [OF keys] split: sum.splits)
next
  case (checkpointed csth)
  then obtain sth lb where p: "publish_checkpoint P (rs_logbacked st) (rs_signer st) = Some (sth, lb)"
    and st': "st' = st\<lparr>rs_logbacked := lb\<rparr>"
    by (auto simp: v2_checkpoint_def split: option.splits)
  from ok have op: "operated P (rs_logbacked st) h" and sg: "signer_ok P (rs_signer st)" by (simp_all add: rs_ok_def)
  from lb_inv_publish [OF conjunct1 [OF operated_inv [OF op]] sg] p obtain c where
    c: "lb_map lb = lb_map (rs_logbacked st)" "lb_inv P lb (h @ [(c, lb_map (rs_logbacked st))])" by auto
  then have "lb_latest lb = Some (c, length h)" by (simp add: lb_inv_def)
  from rs_ok_logbacked [OF ok operated.publish [OF op sg p this]] c(1) checkpointed(1) show ?thesis
    by (intro exI [of _ "[(c, lb_map (rs_logbacked st))]"]) (simp add: st' grew_def)
next
  case (head_read sth)
  then obtain lb where p: "lb_signed_head P (rs_logbacked st) (rs_signer st) = Some (sth, lb)"
    and st': "st' = st\<lparr>rs_logbacked := lb\<rparr>"
    by (auto simp: v2_head_def split: option.splits)
  from ok have op: "operated P (rs_logbacked st) h" by (simp add: rs_ok_def)
  from rs_ok_logbacked [OF ok operated.head [OF op p]] lb_signed_head_keeps [OF conjunct1 [OF operated_inv [OF op]] p]
    head_read(1)
  show ?thesis by (intro exI [of _ "[]"]) (simp add: st' grew_def)
next
  case (status_read key sres)
  show ?thesis
  proof (cases "hash_from_hex P key")
    case (Inl e)
    with status_read ok show ?thesis by (intro exI [of _ "[]"]) (simp add: v2_status_def)
  next
    case (Inr k)
    with status_read obtain pf lb where p: "lb_prove P (rs_logbacked st) k (rs_signer st) = Some (pf, lb)"
      and st': "st' = st\<lparr>rs_logbacked := lb\<rparr>"
      by (auto simp: v2_status_def split: option.splits)
    from ok have op: "operated P (rs_logbacked st) h" by (simp add: rs_ok_def)
    from rs_ok_logbacked [OF ok operated.proved [OF op p]] lb_prove_keeps [OF conjunct1 [OF operated_inv [OF op]] p]
      status_read(1)
    show ?thesis by (intro exI [of _ "[]"]) (simp add: st' grew_def)
  qed
next
  case (consistency_read m n cres)
  then obtain pf lb where p: "lb_consistency_proof P (rs_logbacked st) m n = Some (pf, lb)"
    and st': "st' = st\<lparr>rs_logbacked := lb\<rparr>"
    by (auto simp: v2_consistency_def split: option.splits)
  from ok have op: "operated P (rs_logbacked st) h" by (simp add: rs_ok_def)
  from rs_ok_logbacked [OF ok operated.consistency [OF op p]]
    lb_consistency_keeps [OF conjunct1 [OF operated_inv [OF op]], of m n] p consistency_read(1)
  show ?thesis by (intro exI [of _ "[]"]) (simp add: st' grew_def)
qed

text \<open>The snapshots served in a run, in order.\<close>

inductive rs_run :: "prims \<Rightarrow> revocation_service \<Rightarrow> snapshot list \<Rightarrow> revocation_service \<Rightarrow> bool" for P and st where
  start: "rs_run P st [] st"
| serve: "rs_run P st sns st1 \<Longrightarrow> rs_step P st1 (Some sn) st2 \<Longrightarrow> rs_run P st (sns @ [sn]) st2"
| silent: "rs_run P st sns st1 \<Longrightarrow> rs_step P st1 None st2 \<Longrightarrow> rs_run P st sns st2"

lemma rs_run_ok:
  "rs_run P st sns st' \<Longrightarrow> rs_ok P st h \<Longrightarrow>
     (\<exists>xs. rs_ok P st' (h @ xs)) \<and> grew st st' \<and>
     (\<forall>sn \<in> set sns. snapshot_verify_signature P sn (rs_key st) \<and> rl_revoked (rs_log st) \<subseteq> sn_revoked sn \<and>
        sn_revoked sn \<subseteq> rl_revoked (rs_log st') \<and> sn_epoch sn = of_nat (card (sn_revoked sn))) \<and>
     sorted_wrt (\<lambda>a b. sn_revoked a \<subseteq> sn_revoked b) sns"
proof (induction rule: rs_run.induct)
  case start
  then show ?case by (auto intro!: exI [of _ "[]"])
next
  case (serve sns st1 sn st2)
  then obtain xs where xs: "rs_ok P st1 (h @ xs)" by blast
  from rs_step_ok [OF serve.hyps(2) xs] obtain ys where
    s: "rs_ok P st2 (h @ xs @ ys)" "grew st1 st2" "serves P st2 sn" by auto
  have "sn_epoch sn = of_nat (card (sn_revoked sn))" using s(1,3) by (simp add: rs_ok_def rl_ok_def serves_def)
  moreover note IH = serve.IH [OF serve.prems]
  moreover have up: "grew st st2" using IH s(2) grew_trans by blast
  moreover have below: "\<forall>a \<in> set sns. sn_revoked a \<subseteq> rl_revoked (rs_log st2)"
    using IH s(2) unfolding grew_def by blast
  moreover have "sn_revoked sn = rl_revoked (rs_log st2)" "snapshot_verify_signature P sn (rs_key st)"
    using s(3) up by (auto simp: serves_def grew_def)
  ultimately show ?case
    using s(1) by (auto simp: sorted_wrt_append grew_def)
next
  case (silent sns st1 st2)
  then obtain xs where xs: "rs_ok P st1 (h @ xs)" by blast
  from rs_step_ok [OF silent.hyps(2) xs] obtain ys where s: "rs_ok P st2 (h @ xs @ ys)" "grew st1 st2" by auto
  moreover note IH = silent.IH [OF silent.prems]
  moreover have "grew st st2" using IH s(2) grew_trans by blast
  moreover have "\<forall>a \<in> set sns. sn_revoked a \<subseteq> rl_revoked (rs_log st2)"
    using IH s(2) unfolding grew_def by blast
  ultimately show ?case by auto
qed

text \<open>So no client that follows the service ever meets its own rollback guard.\<close>

lemma served_epochs_sorted:
  assumes "rs_run P st sns st'" and "rs_ok P st h" and "card (rl_revoked (rs_log st')) < 2 ^ 64"
  shows "sorted (map sn_epoch sns)"
proof -
  note run = rs_run_ok [OF assms(1,2)]
  have fin: "finite (rl_revoked (rs_log st'))" using run by (auto simp: rs_ok_def rl_ok_def)
  have le: "sn_epoch a \<le> sn_epoch b" if "a \<in> set sns" "b \<in> set sns" "sn_revoked a \<subseteq> sn_revoked b" for a b
  proof -
    have b: "sn_revoked b \<subseteq> rl_revoked (rs_log st')" using run that(2) by blast
    have "card (sn_revoked a) \<le> card (sn_revoked b)" using that(3) b fin by (meson card_mono finite_subset)
    moreover have "card (sn_revoked b) < 2 ^ 64" using card_mono [OF fin b] assms(3) by simp
    ultimately show ?thesis using run that by (simp add: word_le_nat_alt unat_of_nat)
  qed
  have "sorted_wrt (\<lambda>a b. sn_epoch a \<le> sn_epoch b) sns"
    using run le by (auto intro: sorted_wrt_mono_rel [of sns "\<lambda>a b. sn_revoked a \<subseteq> sn_revoked b"])
  then show ?thesis by (simp add: sorted_map)
qed

section \<open>Status proofs over HTTP\<close>

text \<open>
  The status of a key is provable exactly while the latest checkpoint covers the map; the
  proof says what the map says.
\<close>

lemma v2_status_uncovered:
  assumes ok: "rs_ok P st h" and key: "hash_from_hex P q = Inr k"
    and "h = [] \<or> revmap_root P (lb_map (rs_logbacked st)) \<noteq> mc_map_root (fst (last h))"
  shows "v2_status P st q =
    Some (Inl (RevConflict ''no checkpoint covers the current map root; POST /revocations/v2/checkpoint''), st)"
  using lb_prove_unlogged [of P "rs_logbacked st" h k "rs_signer st"] operated_inv [of P "rs_logbacked st" h] assms
  by (simp add: v2_status_def rs_ok_def)

lemma v2_status_covered:
  assumes ok: "rs_ok P st h" and key: "hash_from_hex P q = Inr k" and small: "length h \<le> 2 ^ 64"
    and current: "h \<noteq> []" "revmap_root P (lb_map (rs_logbacked st)) = mc_map_root (fst (last h))"
    and apart: "map_apart P (lb_map (rs_logbacked st)) X"
  shows "\<exists>pf st'. v2_status P st q = Some (Inr pf, st') \<and> rs_ok P st' h \<and>
    (if k \<in> set (map_keys (lb_map (rs_logbacked st))) then verify_revoked P pf k (rs_key st)
     else verify_not_revoked P pf k (rs_key st))"
proof -
  from ok have op: "operated P (rs_logbacked st) h" and sg: "signer_ok P (rs_signer st)"
    and k: "rs_key st = sg_public_key (rs_signer st)" by (simp_all add: rs_ok_def)
  from lb_prove_complete [OF conjunct1 [OF operated_inv [OF op]] sg small current apart, of k] obtain pf lb where
    p: "lb_prove P (rs_logbacked st) k (rs_signer st) = Some (Some pf, lb)"
    and v: "if k \<in> set (map_keys (lb_map (rs_logbacked st))) then verify_revoked P pf k (rs_key st)
     else verify_not_revoked P pf k (rs_key st)"
    unfolding k by blast
  from rs_ok_logbacked [OF ok operated.proved [OF op p]] p v key show ?thesis
    by (intro exI [of _ pf] exI [of _ "st\<lparr>rs_logbacked := lb\<rparr>"]) (simp add: v2_status_def)
qed

text \<open>
  The consistency endpoint answers only for the current size, though its refusal says that
  any second size up to it would do.
\<close>

lemma v2_consistency_iff:
  assumes ok: "rs_ok P st h"
  shows "\<exists>res st'. v2_consistency P st m n = Some (res, st') \<and> rs_ok P st' h \<and>
    (if n = length h \<and> m \<le> n
     then \<exists>p. res = Inr p \<and>
       verify_consistency P (naive_root P (take m (history_leaves P h))) (naive_root P (history_leaves P h)) p m n
     else res = Inl (RevBadRequest ''invalid sizes: need first <= second <= current tree size''))"
proof -
  from ok have op: "operated P (rs_logbacked st) h" by (simp add: rs_ok_def)
  let ?p = "\<lparr>nodes = (if m = 0 then [] else naive_subproof P m (history_leaves P h) True)\<rparr>"
  from lb_consistency_keeps [OF conjunct1 [OF operated_inv [OF op]], of m n] obtain lb where
    p: "lb_consistency_proof P (rs_logbacked st) m n = Some (if n = length h \<and> m \<le> n then Some ?p else None, lb)"
    by blast
  have "rs_ok P (st\<lparr>rs_logbacked := lb\<rparr>) h" by (rule rs_ok_logbacked [OF ok operated.consistency [OF op p]])
  moreover have "n = length h \<and> m \<le> n \<Longrightarrow>
      verify_consistency P (naive_root P (take m (history_leaves P h))) (naive_root P (history_leaves P h)) ?p m n"
    using verify_consistency_complete [of m "history_leaves P h" P] by auto
  ultimately show ?thesis
    using p by (cases "n = length h \<and> m \<le> n") (auto simp: v2_consistency_def intro!: exI [of _ "st\<lparr>rs_logbacked := lb\<rparr>"])
qed

end
