(* ===== verification/Demo_Services.thy ===== *)
theory Demo_Services
  imports Demo_Log Witness_Service Revocation_Service
begin

text \<open>
  The instance of \<^verbatim>\<open>Demo\<close> with codecs that round trip: base64 as two letters per byte, and
  a reader of the texts of receipts. It serves the witnesses of the checkpoints, the store
  and the services, and models nothing of the code.
\<close>

section \<open>Codecs\<close>

definition letter :: "u8 \<Rightarrow> char" where
  "letter b = char_of (65 + unat b)"

definition letters :: "u8 list \<Rightarrow> string" where
  "letters bs = concat (map (\<lambda>b. [letter (drop_bit 4 b), letter (take_bit 4 b)]) bs)"

fun unletters :: "string \<Rightarrow> u8 list option" where
  "unletters [] = Some []"
| "unletters (c # d # cs) =
     map_option (\<lambda>bs. (push_bit 4 (of_nat (of_char c - 65)) OR of_nat (of_char d - 65)) # bs) (unletters cs)"
| "unletters [c] = None"

fun demo_parse :: "u8 list \<Rightarrow> json option" where
  "demo_parse [a, b, c, d, e, f] =
     Some (action_receipt_json
       \<lparr>chain_digest_of = demo_seed c, action_digest = demo_seed d, nonce = demo_seed e, prev_root = demo_seed f\<rparr>)"
| "demo_parse _ = None"

definition demo_text :: prims where
  "demo_text = demo\<lparr>b64_encode := letters, b64_decode := unletters, json_parse := demo_parse\<rparr>"

lemma demo_text_simps [simp]:
  "blake3 demo_text = demo_hash" "jcs demo_text = demo_jcs" "json_parse demo_text = demo_parse"
  "ed_key_ok demo_text k" "ed_check demo_text = demo_check"
  "ed_public demo_text = array_bytes" "ed_raw_sign demo_text seed = demo_sign (array_bytes seed)"
  "b64_encode demo_text = letters" "b64_decode demo_text = unletters"
  by (simp_all add: demo_text_def demo_def)

lemma demo_text_good: "b \<noteq> 7 \<Longrightarrow> ed_good demo_text (demo_seed b)"
  by (simp add: ed_good_def demo_check_def demo_sign_def)

abbreviation text_signer :: "u8 \<Rightarrow> signer" where
  "text_signer b \<equiv> ed25519_from_seed demo_text (demo_seed b)"

lemma text_signer_key [simp]: "sg_public_key (text_signer b) = demo_key b"
  by (simp add: ed25519_from_seed_def)

lemma text_signer_ok: "b \<noteq> 7 \<Longrightarrow> signer_ok demo_text (text_signer b)"
  by (rule ed.ok) (rule demo_text_good)

lemma nibble:
  assumes "unat n < 16"
  shows "letter n \<in> b64_alphabet" and "of_nat (of_char (letter n) - 65) = n"
proof -
  have "list_all (\<lambda>k. char_of (65 + k) \<in> b64_alphabet) [0 :: nat..<16]"
    by code_simp
  moreover have "unat n \<in> set [0..<16]" using assms by simp
  ultimately show "letter n \<in> b64_alphabet" by (simp only: letter_def list_all_iff)
  have "of_char (letter n) = 65 + unat n" using assms by (simp add: letter_def)
  then show "of_nat (of_char (letter n) - 65) = n" by simp
qed

lemma byte_nibbles:
  fixes b :: u8
  shows "unat (drop_bit 4 b) < 16" and "unat (take_bit 4 b) < 16" and "push_bit 4 (drop_bit 4 b) OR take_bit 4 b = b"
proof -
  have "unat b < 256" using unsigned_less [of b, where ?'a = nat] by simp
  moreover have "unat (drop_bit 4 b) = unat b div 16" by (simp add: unat_div_distrib drop_bit_eq_div)
  ultimately show "unat (drop_bit 4 b) < 16" by (simp only:)
  show "unat (take_bit 4 b) < 16" by (simp add: take_bit_eq_mod unat_mod_distrib)
  show "push_bit 4 (drop_bit 4 b) OR take_bit 4 b = b"
    by (rule bit_eqI) (auto simp: bit_or_iff bit_push_bit_iff bit_drop_bit_eq bit_take_bit_iff)
qed

lemma demo_base64: "base64_ok demo_text"
proof -
  have "unletters (letters bs) = Some bs" for bs
    by (induction bs) (simp_all add: letters_def nibble byte_nibbles)
  moreover have "set (letters bs) \<subseteq> b64_alphabet" for bs
    using nibble(1) byte_nibbles(1,2) by (auto simp: letters_def)
  ultimately show ?thesis by (simp add: base64_ok_def)
qed

lemma demo_b64url: "b64url_ok demo_text"
proof -
  have "of_nat (of_char (char_of (unat b) :: char)) = b" for b :: u8
    using unsigned_less [of b, where ?'a = nat] by simp
  then show ?thesis by (simp add: b64url_ok_def demo_text_def demo_def str_bytes_def comp_def del: of_char_of)
qed

section \<open>A receipt the store can hold\<close>

definition text_receipt :: "u8 \<Rightarrow> action_receipt" where
  "text_receipt n =
     \<lparr>chain_digest_of = demo_seed 1, action_digest = demo_seed n, nonce = demo_seed 0, prev_root = demo_seed 0\<rparr>"

lemma text_canonical: "canonical_bytes demo_text (text_receipt n) = [1, 4, 1, n, 0, 0]"
  by (simp add: canonical_bytes_def action_receipt_json_def text_receipt_def array_json_def bytes_json_def
      numeral_eq_Suc)

lemma text_storable: "storable demo_text (text_receipt n)"
  by (simp add: storable_def text_canonical receipt_of_bytes_def) (simp add: text_receipt_def)

lemma text_prev_root: "prev_root (text_receipt n) = naive_root demo_text []"
  by (simp add: text_receipt_def empty_root_def hash_leaf_def leaf_prefix_def demo_hash_def flip: array_bytes_eq_iff)
    (simp add: array_bytes_mk flip: replicate_Suc)

section \<open>Services\<close>

definition demo_service :: "action_receipt list \<Rightarrow> witness_service" where
  "demo_service rs =
     projr (witness_service_persistent demo_text (text_signer 1) (FileBytes (frames demo_text rs)) None None)"

lemma text_chained: "rs \<in> {[], [text_receipt n]} \<Longrightarrow> chained demo_text rs"
  by (auto simp: chained_def text_prev_root)

lemma demo_service_ok:
  assumes "rs \<in> {[], [text_receipt n]}"
  shows "ws_log demo_text (demo_service rs) rs" and "ws_store (demo_service rs) = Some (frames demo_text rs)"
    and "ws_signer (demo_service rs) = text_signer 1" and "ws_key (demo_service rs) = demo_key 1"
proof -
  have stored: "\<forall>r \<in> set rs. storable demo_text r" using assms text_storable by auto
  have "ws_signer (demo_service rs) = text_signer 1 \<and> ws_store (demo_service rs) = Some (frames demo_text rs) \<and>
      ws_log demo_text (demo_service rs) rs"
    using store_open_frames [OF stored torn_nil, of witness_new] appended_ok [of demo_text witness_new rs]
      text_chained [OF assms] text_signer_ok [of 1]
    by (simp add: demo_service_def witness_service_persistent_def ws_log_def)
  then show "ws_log demo_text (demo_service rs) rs" "ws_store (demo_service rs) = Some (frames demo_text rs)"
    "ws_signer (demo_service rs) = text_signer 1" "ws_key (demo_service rs) = demo_key 1"
    by (auto simp: ws_log_def)
qed

text \<open>A second head of the size of the log, signed by its key.\<close>

definition demo_fork :: signed_tree_head where
  "demo_fork =
     \<lparr>sth_size = 1, sth_root = demo_seed 9,
      sth_signature = \<lparr>sig_algorithm = Ed25519,
        sig_bytes = demo_sign (replicate 32 1) (sth_signing_bytes demo_text 1 (demo_seed 9))\<rparr>\<rparr>"

lemma demo_fork_signed: "verify_signed_head demo_text demo_fork (demo_key 1)"
  by (simp add: verify_signed_head_def demo_fork_def ed25519_verify_def demo_check_def demo_sign_def or_false_iff)

lemma demo_fork_differs: "demo_seed 9 \<noteq> hash_leaf demo_text (canonical_bytes demo_text (text_receipt 4))"
proof
  assume "demo_seed 9 = hash_leaf demo_text (canonical_bytes demo_text (text_receipt 4))"
  from arg_cong [OF this, of "\<lambda>d. array_bytes d ! 0"] show False
    by (simp add: text_canonical hash_leaf_def demo_hash_def leaf_prefix_def array_bytes_mk)
qed

end
