(* ===== verification/Http.thy ===== *)
theory Http
  imports Text Wire
begin

text \<open>
  What the two services use of the web framework, as its documentation states it: a router
  that finds the path and the method, and the extractors of a JSON body and of the query.
  A body arrives as the value its text parses to, or as the rejection the extractor gives
  before it looks at the value; the query as its decoded pairs. The text of a rejection is
  a parameter, a function of the request.
\<close>

record http_request =
  hq_method :: string
  hq_path :: string
  hq_query :: "(string \<times> string) list"
  hq_json :: "(nat \<times> string) + json"

datatype http_reply =
    JsonReply nat json
  | TextReply nat string

fun reply_status :: "http_reply \<Rightarrow> nat" where
  "reply_status (JsonReply s _) = s"
| "reply_status (TextReply s _) = s"

section \<open>Extractors\<close>

definition json_body :: "(http_request \<Rightarrow> string) \<Rightarrow> (json \<Rightarrow> 'a option) \<Rightarrow> http_request \<Rightarrow> http_reply + 'a" where
  "json_body rejection read_json q =
     (case hq_json q of
        Inl (status, t) \<Rightarrow> Inl (TextReply status t)
      | Inr j \<Rightarrow> ok_or (read_json j) (TextReply 422 (rejection q)))"

definition query_string ::
  "(http_request \<Rightarrow> string) \<Rightarrow> ((string \<times> string) list \<Rightarrow> 'a option) \<Rightarrow> http_request \<Rightarrow> http_reply + 'a" where
  "query_string rejection read_query q = ok_or (read_query (hq_query q)) (TextReply 400 (rejection q))"

text \<open>A field of the query string: a repeated one is an error, as in JSON.\<close>

definition query_field :: "string \<Rightarrow> (string \<times> string) list \<Rightarrow> string option option" where
  "query_field k kvs =
     (case filter (\<lambda>kv. fst kv = k) kvs of
        [] \<Rightarrow> Some None
      | [kv] \<Rightarrow> Some (Some (snd kv))
      | _ \<Rightarrow> None)"

definition query_required :: "(string \<Rightarrow> 'a option) \<Rightarrow> string \<Rightarrow> (string \<times> string) list \<Rightarrow> 'a option" where
  "query_required parse k kvs = do {v \<leftarrow> query_field k kvs; t \<leftarrow> v; parse t}"

text \<open>The extractors refuse with a client error.\<close>

definition refuses_as_client_error :: "http_request \<Rightarrow> bool" where
  "refuses_as_client_error q \<longleftrightarrow> (case hq_json q of Inl (s, _) \<Rightarrow> 400 \<le> s \<and> s < 500 | Inr _ \<Rightarrow> True)"

lemma json_body_refusal:
  "refuses_as_client_error q \<Longrightarrow> json_body rej f q = Inl r \<Longrightarrow> 400 \<le> reply_status r \<and> reply_status r < 500"
  by (auto simp: json_body_def refuses_as_client_error_def ok_or_def split: sum.splits option.splits)

lemma query_refusal: "query_string rej f q = Inl r \<Longrightarrow> reply_status r = 400"
  by (auto simp: query_string_def ok_or_def split: option.splits)

section \<open>Routing\<close>

text \<open>
  A path has one method. \<^verbatim>\<open>get\<close> also serves \<^verbatim>\<open>HEAD\<close>, whose reply has no body; a known path
  under another method is 405, an unknown one 404.
\<close>

definition without_body :: "http_reply \<Rightarrow> http_reply" where
  "without_body r = TextReply (reply_status r) ''''"

lemma without_body_status [simp]: "reply_status (without_body r) = reply_status r"
  by (simp add: without_body_def)

definition route ::
  "(string \<times> string \<times> 'h) list \<Rightarrow> http_request \<Rightarrow> http_reply + ('h \<times> bool)" where
  "route table q =
     (case map_of table (hq_path q) of
        None \<Rightarrow> Inl (TextReply 404 '''')
      | Some (m, h) \<Rightarrow>
          if hq_method q = m then Inr (h, False)
          else if m = ''GET'' \<and> hq_method q = ''HEAD'' then Inr (h, True)
          else Inl (TextReply 405 ''''))"

lemma route_miss: "route table q = Inl r \<Longrightarrow> reply_status r \<in> {404, 405}"
  by (auto simp: route_def split: option.splits if_splits)

lemma route_hit:
  "route table q = Inr (h, head) \<Longrightarrow> \<exists>m. (hq_path q, m, h) \<in> set table \<and> (head \<longrightarrow> m = ''GET'')"
  by (fastforce simp: route_def split: option.splits if_splits dest: map_of_SomeD)

text \<open>
  A request against a handler per route. The outer \<open>None\<close> is a panic of the handler, after
  which the framework has no reply to send.
\<close>

definition routed ::
  "(string \<times> string \<times> 'h) list \<Rightarrow> ('h \<Rightarrow> http_request \<Rightarrow> 's \<Rightarrow> (http_reply \<times> 's) option) \<Rightarrow>
   http_request \<Rightarrow> 's \<Rightarrow> (http_reply \<times> 's) option" where
  "routed table serve q st =
     (case route table q of
        Inl r \<Rightarrow> Some (r, st)
      | Inr (h, head) \<Rightarrow>
          map_option (map_prod (if head then without_body else id) id) (serve h q st))"

section \<open>Requests a client sends\<close>

definition get_request :: "string \<Rightarrow> (string \<times> string) list \<Rightarrow> http_request" where
  "get_request p kvs = \<lparr>hq_method = ''GET'', hq_path = p, hq_query = kvs, hq_json = Inl (415, '''')\<rparr>"

definition post_request :: "string \<Rightarrow> json \<Rightarrow> http_request" where
  "post_request p j = \<lparr>hq_method = ''POST'', hq_path = p, hq_query = [], hq_json = Inr j\<rparr>"

lemma client_requests:
  "refuses_as_client_error (get_request p kvs)"
  "refuses_as_client_error (post_request p j)"
  "query_string rej f (get_request p kvs) = ok_or (f kvs) (TextReply 400 (rej (get_request p kvs)))"
  "json_body rej g (post_request p j) = ok_or (g j) (TextReply 422 (rej (post_request p j)))"
  by (simp_all add: refuses_as_client_error_def get_request_def post_request_def query_string_def json_body_def)

lemma routed_client:
  "map_of table p = Some (''GET'', h) \<Longrightarrow> routed table serve (get_request p kvs) st = serve h (get_request p kvs) st"
  "map_of table p = Some (''POST'', h) \<Longrightarrow> routed table serve (post_request p j) st = serve h (post_request p j) st"
  by (simp_all add: routed_def route_def get_request_def post_request_def option.map_id0 prod.map_id0)

end
