(* ===== verification/Witness_Http.thy ===== *)
theory Witness_Http
  imports Witness_Service Http
begin

text \<open>
  The router of \<^verbatim>\<open>services/witness\<close>: the derived readers of its requests, the writers of
  its replies, and the whole service as a function of requests. A request comes with the
  outcome of the one write to the log file it may lead to.
\<close>

section \<open>Requests\<close>

definition submit_request_json :: "submit_request \<Rightarrow> json" where
  "submit_request_json q =
     JObj [(''chain_digest'', JStr (rq_chain_digest q)), (''action_digest'', JStr (rq_action_digest q)),
           (''nonce'', JStr (rq_nonce q)), (''prev_root'', JStr (rq_prev_root q))]"

definition submit_request_of_json :: "json \<Rightarrow> submit_request option" where
  "submit_request_of_json j = do {
     s \<leftarrow> slots [''chain_digest'', ''action_digest'', ''nonce'', ''prev_root''] j;
     c \<leftarrow> mandatory json_string (s ! 0);
     a \<leftarrow> mandatory json_string (s ! 1);
     n \<leftarrow> mandatory json_string (s ! 2);
     p \<leftarrow> mandatory json_string (s ! 3);
     Some \<lparr>rq_chain_digest = c, rq_action_digest = a, rq_nonce = n, rq_prev_root = p\<rparr>}"

definition sth_dto_of_json :: "json \<Rightarrow> sth_dto option" where
  "sth_dto_of_json j = do {
     s \<leftarrow> slots [''tree_size'', ''root'', ''signature''] j;
     n \<leftarrow> mandatory json_usize (s ! 0);
     r \<leftarrow> mandatory json_string (s ! 1);
     g \<leftarrow> mandatory json_string (s ! 2);
     Some \<lparr>sd_tree_size = n, sd_root = r, sd_signature = g\<rparr>}"

definition consistency_dto_json :: "string list \<Rightarrow> json" where
  "consistency_dto_json ss = JObj [(''consistency'', list_json JStr ss)]"

definition consistency_dto_of_json :: "json \<Rightarrow> string list option" where
  "consistency_dto_of_json j = do {
     s \<leftarrow> slots [''consistency''] j;
     mandatory (json_list json_string) (s ! 0)}"

definition gossip_request_json :: "gossip_request \<Rightarrow> json" where
  "gossip_request_json q =
     JObj [(''peer_sth'', sth_dto_json (gq_peer_sth q)),
           (''consistency_proof'', option_json consistency_dto_json (gq_consistency_proof q))]"

definition gossip_request_of_json :: "json \<Rightarrow> gossip_request option" where
  "gossip_request_of_json j = do {
     s \<leftarrow> slots [''peer_sth'', ''consistency_proof''] j;
     h \<leftarrow> mandatory sth_dto_of_json (s ! 0);
     c \<leftarrow> optional consistency_dto_of_json (s ! 1);
     Some \<lparr>gq_peer_sth = h, gq_consistency_proof = c\<rparr>}"

definition proof_query :: "(string \<times> string) list \<Rightarrow> nat option" where
  "proof_query = query_required parse_usize ''leaf_index''"

definition consistency_query :: "(string \<times> string) list \<Rightarrow> (nat \<times> nat) option" where
  "consistency_query kvs = do {
     m \<leftarrow> query_required parse_usize ''first'' kvs;
     n \<leftarrow> query_required parse_usize ''second'' kvs;
     Some (m, n)}"

definition checkpoint_query :: "(string \<times> string) list \<Rightarrow> string option option" where
  "checkpoint_query = query_field ''origin''"

section \<open>Replies\<close>

definition inclusion_dto_json :: "inclusion_dto \<Rightarrow> json" where
  "inclusion_dto_json d =
     JObj [(''leaf_index'', JNum (id_leaf_index d)), (''tree_size'', JNum (id_tree_size d)),
           (''path'', list_json (\<lambda>(s, b). JObj [(''sibling'', JStr s), (''sibling_is_left'', JBool b)]) (id_path d))]"

definition submit_response_json :: "submit_response \<Rightarrow> json" where
  "submit_response_json r =
     JObj [(''leaf_index'', JNum (sr_leaf_index r)), (''inclusion_proof'', inclusion_dto_json (sr_inclusion_proof r)),
           (''sth'', sth_dto_json (sr_sth r))]"

definition keys_dto_json :: "key_entry list \<Rightarrow> json" where
  "keys_dto_json ks =
     JObj [(''keys'', list_json (\<lambda>k. JObj [(''kid'', JStr (ke_kid k)), (''public_key'', JStr (ke_public_key k)),
       (''alg'', JStr (ke_alg k))]) ks)]"

text \<open>The error type as a reply: its body is made by the macro.\<close>

definition api_error_reply :: "api_error \<Rightarrow> http_reply" where
  "api_error_reply e = (case api_error_response e of (status, body) \<Rightarrow> JsonReply status (by_key body))"

section \<open>Handlers behind their extractors\<close>

datatype witness_route = SubmitRoute | SthRoute | ProofRoute | ConsistencyRoute | GossipRoute | CheckpointRoute | KeysRoute

definition witness_routes :: "(string \<times> string \<times> witness_route) list" where
  "witness_routes =
     [(''/witness/v1/entries'', ''POST'', SubmitRoute),
      (''/witness/v1/sth'', ''GET'', SthRoute),
      (''/witness/v1/proof'', ''GET'', ProofRoute),
      (''/witness/v1/consistency'', ''GET'', ConsistencyRoute),
      (''/witness/v1/gossip'', ''POST'', GossipRoute),
      (''/witness/v1/checkpoint'', ''GET'', CheckpointRoute),
      (''/.well-known/witness-keys'', ''GET'', KeysRoute)]"

text \<open>The result of a handler as a reply.\<close>

fun reply_of :: "('a \<Rightarrow> http_reply) \<Rightarrow> api_error + 'a \<Rightarrow> http_reply" where
  "reply_of f (Inl e) = api_error_reply e"
| "reply_of f (Inr a) = f a"

fun witness_serve ::
  "prims \<Rightarrow> (http_request \<Rightarrow> string) \<Rightarrow> write_outcome \<Rightarrow> witness_route \<Rightarrow> http_request \<Rightarrow> witness_service \<Rightarrow>
   (http_reply \<times> witness_service) option" where
  "witness_serve P rej out SubmitRoute q st =
     (case json_body rej submit_request_of_json q of
        Inl r \<Rightarrow> Some (r, st)
      | Inr req \<Rightarrow> map_option (map_prod (reply_of (\<lambda>(status, resp). JsonReply status (submit_response_json resp))) id)
                    (submit P st req out))"
| "witness_serve P rej out SthRoute q st =
     map_option (map_prod (\<lambda>d. JsonReply 200 (sth_dto_json d)) id) (get_sth P st)"
| "witness_serve P rej out ProofRoute q st =
     (case query_string rej proof_query q of
        Inl r \<Rightarrow> Some (r, st)
      | Inr i \<Rightarrow> map_option (map_prod (reply_of (\<lambda>d. JsonReply 200 (inclusion_dto_json d))) id) (get_proof P st i))"
| "witness_serve P rej out ConsistencyRoute q st =
     (case query_string rej consistency_query q of
        Inl r \<Rightarrow> Some (r, st)
      | Inr (m, n) \<Rightarrow>
          map_option (map_prod (reply_of (\<lambda>d. JsonReply 200 (consistency_dto_json d))) id) (get_consistency P st m n))"
| "witness_serve P rej out GossipRoute q st =
     (case json_body rej gossip_request_of_json q of
        Inl r \<Rightarrow> Some (r, st)
      | Inr g \<Rightarrow> map_option (map_prod (reply_of (\<lambda>j. JsonReply 200 (by_key j))) id) (gossip P st g))"
| "witness_serve P rej out CheckpointRoute q st =
     (case query_string rej checkpoint_query q of
        Inl r \<Rightarrow> Some (r, st)
      | Inr org \<Rightarrow> map_option (map_prod (TextReply 200) id) (get_checkpoint P st org))"
| "witness_serve P rej out KeysRoute q st = Some (JsonReply 200 (keys_dto_json (get_keys P st)), st)"

definition witness_app ::
  "prims \<Rightarrow> (http_request \<Rightarrow> string) \<Rightarrow> write_outcome \<Rightarrow> http_request \<Rightarrow> witness_service \<Rightarrow>
   (http_reply \<times> witness_service) option" where
  "witness_app P rej out = routed witness_routes (witness_serve P rej out)"

text \<open>The replies to requests in order.\<close>

fun witness_session ::
  "prims \<Rightarrow> (http_request \<Rightarrow> string) \<Rightarrow> witness_service \<Rightarrow> (http_request \<times> write_outcome) list \<Rightarrow>
   (http_reply list \<times> witness_service) option" where
  "witness_session P rej st [] = Some ([], st)"
| "witness_session P rej st ((q, out) # qs) = do {
     (r, st1) \<leftarrow> witness_app P rej out q st;
     (rs, st2) \<leftarrow> witness_session P rej st1 qs;
     Some (r # rs, st2)}"

section \<open>Forms read back\<close>

interpretation submit_request_form: wire_form submit_request_json submit_request_of_json "\<lambda>_. True"
  by unfold_locales (simp_all add: submit_request_json_def submit_request_of_json_def json_field_def)

interpretation sth_dto_form: wire_form sth_dto_json sth_dto_of_json "\<lambda>d. sd_tree_size d < 2 ^ 64"
  by unfold_locales (simp_all add: sth_dto_json_def sth_dto_of_json_def json_field_def)

interpretation consistency_dto_form: wire_form consistency_dto_json consistency_dto_of_json "\<lambda>_. True"
proof
  fix ss :: "string list"
  show "consistency_dto_of_json (consistency_dto_json ss) = Some ss"
    using string_form.dec_list [of ss] by (simp add: consistency_dto_json_def consistency_dto_of_json_def json_field_def)
qed

interpretation gossip_request_form: wire_form gossip_request_json gossip_request_of_json
  "\<lambda>g. sd_tree_size (gq_peer_sth g) < 2 ^ 64"
proof
  fix g :: gossip_request
  assume "sd_tree_size (gq_peer_sth g) < 2 ^ 64"
  moreover have "consistency_dto_json ss \<noteq> JNull" for ss by (simp add: consistency_dto_json_def)
  ultimately show "gossip_request_of_json (gossip_request_json g) = Some g"
    using sth_dto_form.dec_enc [of "gq_peer_sth g"] consistency_dto_form.dec_option [of "gq_consistency_proof g"]
    by (simp add: gossip_request_json_def gossip_request_of_json_def json_field_def)
qed

section \<open>Every request is answered\<close>

lemma gossip_answers:
  assumes "ws_log P st rs"
  shows "\<exists>res st'. gossip P st g = Some (res, st') \<and> ws_log P st' rs"
proof -
  from ws_log_head [OF assms] obtain sth w where "signed_head P (ws_witness st) (ws_signer st) = Some (sth, w)"
    "ws_log P (st\<lparr>ws_witness := w\<rparr>) rs" by blast
  with assms show ?thesis by (auto simp: gossip_def split: sum.splits)
qed

lemma api_error_refuses: "400 \<le> reply_status (api_error_reply e)"
  by (cases e) (simp_all add: api_error_reply_def)

lemma reply_of_201: "reply_status (reply_of f x) = 201 \<longleftrightarrow> (\<exists>a. x = Inr a \<and> reply_status (f a) = 201)"
proof (cases x)
  case (Inl e)
  then show ?thesis using api_error_refuses [of e] by auto
qed simp

lemma witness_serve_answers:
  assumes log: "ws_log P st rs" and small: "length rs < 2 ^ 64" and ext: "refuses_as_client_error q"
  shows "\<exists>reply st'. witness_serve P rej out rt q st = Some (reply, st') \<and>
    (if reply_status reply = 201
     then \<exists>req r resp. rt = SubmitRoute \<and> json_body rej submit_request_of_json q = Inr req \<and> to_receipt P req = Inr r \<and>
       reply = JsonReply 201 (submit_response_json resp) \<and> ws_log P st' (rs @ [r]) \<and>
       prev_root r = naive_root P (receipt_leaves P rs) \<and>
       persist P (ws_store st) r out = (Inr (), ws_store st') \<and> acknowledges P (ws_key st) rs r resp
     else ws_log P st' rs)"
proof (cases rt)
  case SubmitRoute
  show ?thesis
  proof (cases "json_body rej submit_request_of_json q")
    case (Inl r)
    with json_body_refusal [OF ext Inl] log SubmitRoute show ?thesis by auto
  next
    case (Inr req)
    from submit_cases [OF log small, of req out] obtain res st' where
      s: "submit P st req out = Some (res, st')"
      and c: "(\<exists>e. res = Inl e \<and> ws_log P st' rs) \<or>
        (\<exists>r resp. res = Inr (201, resp) \<and> to_receipt P req = Inr r \<and> ws_log P st' (rs @ [r]) \<and>
           persist P (ws_store st) r out = (Inr (), ws_store st') \<and> acknowledges P (ws_key st) rs r resp)"
      by blast
    from c show ?thesis
    proof
      assume "\<exists>e. res = Inl e \<and> ws_log P st' rs"
      then obtain e where "res = Inl e" "ws_log P st' rs" by blast
      with s Inr SubmitRoute api_error_refuses [of e] show ?thesis by auto
    next
      assume "\<exists>r resp. res = Inr (201, resp) \<and> to_receipt P req = Inr r \<and> ws_log P st' (rs @ [r]) \<and>
           persist P (ws_store st) r out = (Inr (), ws_store st') \<and> acknowledges P (ws_key st) rs r resp"
      then obtain r resp where r: "res = Inr (201, resp)" "to_receipt P req = Inr r" "ws_log P st' (rs @ [r])"
        "persist P (ws_store st) r out = (Inr (), ws_store st')" "acknowledges P (ws_key st) rs r resp" by blast
      have "prev_root r = naive_root P (receipt_leaves P rs)"
        using r(3) by (auto simp: ws_log_def chained_def nth_append)
      with s Inr SubmitRoute r show ?thesis by auto
    qed
  qed
next
  case SthRoute
  with get_sth_ok [OF log] show ?thesis by fastforce
next
  case ProofRoute
  show ?thesis
  proof (cases "query_string rej proof_query q")
    case (Inl r)
    with query_refusal [OF Inl] log ProofRoute show ?thesis by auto
  next
    case (Inr i)
    from get_proof_ok [OF log, of i] small obtain res st' where "get_proof P st i = Some (res, st')" "ws_log P st' rs"
      by auto
    with Inr ProofRoute show ?thesis by (auto simp: reply_of_201)
  qed
next
  case ConsistencyRoute
  show ?thesis
  proof (cases "query_string rej consistency_query q")
    case (Inl r)
    with query_refusal [OF Inl] log ConsistencyRoute show ?thesis by auto
  next
    case (Inr mn)
    from get_consistency_ok [OF log, of "fst mn" "snd mn"] obtain res st' where
      "get_consistency P st (fst mn) (snd mn) = Some (res, st')" "ws_log P st' rs" by auto
    with Inr ConsistencyRoute show ?thesis by (cases mn) (auto simp: reply_of_201)
  qed
next
  case GossipRoute
  show ?thesis
  proof (cases "json_body rej gossip_request_of_json q")
    case (Inl r)
    with json_body_refusal [OF ext Inl] log GossipRoute show ?thesis by auto
  next
    case (Inr g)
    from gossip_answers [OF log, of g] obtain res st' where "gossip P st g = Some (res, st')" "ws_log P st' rs" by blast
    with Inr GossipRoute show ?thesis by (auto simp: reply_of_201)
  qed
next
  case CheckpointRoute
  show ?thesis
  proof (cases "query_string rej checkpoint_query q")
    case (Inl r)
    with query_refusal [OF Inl] log CheckpointRoute show ?thesis by auto
  next
    case (Inr org)
    from get_checkpoint_ok [OF log, of org] obtain n st' where "get_checkpoint P st org = Some (n, st')" "ws_log P st' rs"
      by blast
    with Inr CheckpointRoute show ?thesis by auto
  qed
next
  case KeysRoute
  with log show ?thesis by auto
qed

lemma witness_app_answers:
  assumes log: "ws_log P st rs" and small: "length rs < 2 ^ 64" and ext: "refuses_as_client_error q"
  shows "\<exists>reply st'. witness_app P rej out q st = Some (reply, st') \<and>
    (if reply_status reply = 201
     then \<exists>req r resp. hq_method q = ''POST'' \<and> hq_path q = ''/witness/v1/entries'' \<and>
       json_body rej submit_request_of_json q = Inr req \<and> to_receipt P req = Inr r \<and>
       reply = JsonReply 201 (submit_response_json resp) \<and> ws_log P st' (rs @ [r]) \<and>
       prev_root r = naive_root P (receipt_leaves P rs) \<and>
       persist P (ws_store st) r out = (Inr (), ws_store st') \<and> acknowledges P (ws_key st) rs r resp
     else ws_log P st' rs)"
proof (cases "route witness_routes q")
  case (Inl r)
  with route_miss [OF Inl] log show ?thesis by (auto simp: witness_app_def routed_def)
next
  case (Inr hb)
  obtain h head where hb: "hb = (h, head)" by (cases hb)
  have post: "h = SubmitRoute \<Longrightarrow> hq_method q = ''POST'' \<and> hq_path q = ''/witness/v1/entries'' \<and> \<not> head"
    using Inr by (auto simp: hb route_def witness_routes_def split: option.splits if_splits)
  from witness_serve_answers [OF log small ext, of rej out h] obtain reply st' where
    s: "witness_serve P rej out h q st = Some (reply, st')"
    and c: "if reply_status reply = 201
     then \<exists>req r resp. h = SubmitRoute \<and> json_body rej submit_request_of_json q = Inr req \<and> to_receipt P req = Inr r \<and>
       reply = JsonReply 201 (submit_response_json resp) \<and> ws_log P st' (rs @ [r]) \<and>
       prev_root r = naive_root P (receipt_leaves P rs) \<and>
       persist P (ws_store st) r out = (Inr (), ws_store st') \<and> acknowledges P (ws_key st) rs r resp
     else ws_log P st' rs" by blast
  have app: "witness_app P rej out q st = Some ((if head then without_body else id) reply, st')"
    by (simp add: witness_app_def routed_def Inr hb s)
  show ?thesis
  proof (cases "reply_status reply = 201")
    case True
    with c have "h = SubmitRoute" by auto
    with c True post app show ?thesis by auto
  next
    case False
    then have "reply_status ((if head then without_body else id) reply) \<noteq> 201" by simp
    with c False app show ?thesis by auto
  qed
qed

section \<open>Sessions\<close>

lemma witness_serve_key:
  assumes "witness_serve P rej out rt q st = Some (reply, st')"
  shows "ws_key st' = ws_key st"
proof (cases rt)
  case SubmitRoute
  with assms show ?thesis
    by (auto simp: submit_def split: sum.splits option.splits prod.splits if_splits)
next
  case GossipRoute
  with assms show ?thesis by (auto simp: gossip_def split: sum.splits option.splits prod.splits)
qed (use assms in \<open>auto simp: get_sth_def get_proof_def get_consistency_def get_checkpoint_def Let_def
  split: sum.splits option.splits prod.splits\<close>)

lemma witness_app_key: "witness_app P rej out q st = Some (reply, st') \<Longrightarrow> ws_key st' = ws_key st"
  by (auto simp: witness_app_def routed_def split: sum.splits prod.splits dest: witness_serve_key)

text \<open>
  The replies that acknowledge an entry, and that they acknowledge these entries, in order.
\<close>

definition acknowledged :: "http_reply list \<Rightarrow> http_reply list" where
  "acknowledged replies = filter (\<lambda>r. reply_status r = 201) replies"

fun acknowledge_all :: "prims \<Rightarrow> public_key \<Rightarrow> action_receipt list \<Rightarrow> action_receipt list \<Rightarrow> http_reply list \<Rightarrow> bool" where
  "acknowledge_all P key rs [] [] = True"
| "acknowledge_all P key rs (x # xs) (reply # replies) =
     ((\<exists>resp. reply = JsonReply 201 (submit_response_json resp) \<and> acknowledges P key rs x resp) \<and>
      acknowledge_all P key (rs @ [x]) xs replies)"
| "acknowledge_all P key rs _ _ = False"

lemma acknowledge_all_length: "acknowledge_all P key rs xs replies \<Longrightarrow> length xs = length replies"
  by (induction P key rs xs replies rule: acknowledge_all.induct) simp_all

section \<open>Clients of the log\<close>

lemma witness_client:
  "witness_app P rej out (get_request ''/witness/v1/sth'' []) st = map_option (map_prod (\<lambda>d. JsonReply 200 (sth_dto_json d)) id) (get_sth P st)"
  "witness_app P rej out (post_request ''/witness/v1/entries'' (submit_request_json req)) st =
     map_option (map_prod (reply_of (\<lambda>(status, resp). JsonReply status (submit_response_json resp))) id) (submit P st req out)"
  "m < usize_bound \<Longrightarrow> n < usize_bound \<Longrightarrow>
   witness_app P rej out (get_request ''/witness/v1/consistency'' [(''first'', decimal m), (''second'', decimal n)]) st =
     map_option (map_prod (reply_of (\<lambda>d. JsonReply 200 (consistency_dto_json d))) id) (get_consistency P st m n)"
  "sd_tree_size (gq_peer_sth g) < 2 ^ 64 \<Longrightarrow>
   witness_app P rej out (post_request ''/witness/v1/gossip'' (gossip_request_json g)) st =
     map_option (map_prod (reply_of (\<lambda>j. JsonReply 200 (by_key j))) id) (gossip P st g)"
  by (simp_all add: witness_app_def routed_client witness_routes_def client_requests submit_request_form.dec_enc
    gossip_request_form.dec_enc consistency_query_def query_required_def query_field_def parse_usize_decimal)

text \<open>
  A client that reads the head and names its root submits without a conflict, using only
  what the replies say. The receipt is acknowledged at the index the head gave.
\<close>

lemma client_submits:
  assumes log: "ws_log P st rs" and codec: "b64url_ok P" and small: "length rs < 2 ^ 64"
    and r: "r = \<lparr>chain_digest_of = c, action_digest = a, nonce = n, prev_root = naive_root P (receipt_leaves P rs)\<rparr>"
    and saved: "persist P (ws_store st) r out = (Inr (), store)"
  shows "\<exists>body st1 resp st2.
    witness_app P rej out' (get_request ''/witness/v1/sth'' []) st = Some (JsonReply 200 body, st1) \<and>
    witness_app P rej out (post_request ''/witness/v1/entries''
      (JObj [(''chain_digest'', JStr (b64url_encode P (array_bytes c))), (''action_digest'', JStr (b64url_encode P (array_bytes a))),
             (''nonce'', JStr (b64url_encode P (array_bytes n))), (''prev_root'', member ''root'' body)])) st1 =
      Some (JsonReply 201 (submit_response_json resp), st2) \<and>
    JNum (sr_leaf_index resp) = member ''tree_size'' body \<and>
    ws_log P st2 (rs @ [r]) \<and> acknowledges P (ws_key st) rs r resp"
proof -
  from get_sth_ok [OF log] obtain sth st1 where h: "get_sth P st = Some (sth_to_dto P sth, st1)"
    "head_of P (receipt_leaves P rs) sth" "ws_log P st1 rs" "ws_store st1 = ws_store st" by blast
  let ?body = "sth_dto_json (sth_to_dto P sth)"
  have body: "member ''root'' ?body = JStr (b64url_encode P (array_bytes (prev_root r)))"
    "member ''tree_size'' ?body = JNum (length rs)"
    using h(2) by (simp_all add: sth_dto_json_def sth_to_dto_def head_of_def r)
  have key: "ws_key st1 = ws_key st" using h(1) by (auto simp: get_sth_def split: option.splits)
  from submit_accepted [OF h(3) to_receipt_request [OF codec] _ _ small, of r out store] saved h(4) obtain resp st2 where
    s: "submit P st1 (to_request P r) out = Some (Inr (201, resp), st2)" "ws_log P st2 (rs @ [r])"
      "acknowledges P (ws_key st) rs r resp"
    by (auto simp: r key)
  have "JObj [(''chain_digest'', JStr (b64url_encode P (array_bytes c))), (''action_digest'', JStr (b64url_encode P (array_bytes a))),
             (''nonce'', JStr (b64url_encode P (array_bytes n))), (''prev_root'', member ''root'' ?body)] =
    submit_request_json (to_request P r)"
    by (simp add: body(1) submit_request_json_def to_request_def) (simp add: r)
  then show ?thesis
    using h(1) s body(2)
    by (intro exI [of _ ?body] exI [of _ st1] exI [of _ resp] exI [of _ st2])
      (simp add: witness_client acknowledges_def)
qed

text \<open>
  A watcher keeps the head of an earlier reply. Whatever was logged since, the proof the
  service serves for it and the head itself, posted back, are found consistent.
\<close>

lemma watcher_consistent:
  assumes log: "ws_log P st (rs @ xs)" and codec: "b64url_ok P" and small: "length (rs @ xs) < 2 ^ 64"
    and old: "head_of P (receipt_leaves P rs) sth" "verify_signed_head P sth (ws_key st)"
      "sig_algorithm (sth_signature sth) = Ed25519"
  shows "\<exists>proof st1 st2.
    witness_app P rej out (get_request ''/witness/v1/consistency''
      [(''first'', decimal (length rs)), (''second'', decimal (length (rs @ xs)))]) st = Some (JsonReply 200 proof, st1) \<and>
    witness_app P rej out (post_request ''/witness/v1/gossip''
      (JObj [(''peer_sth'', sth_dto_json (sth_to_dto P sth)), (''consistency_proof'', proof)])) st1 =
      Some (JsonReply 200 (JObj [(''status'', JStr ''consistent'')]), st2) \<and> ws_log P st2 (rs @ xs)"
proof -
  from get_consistency_ok [OF log, of "length rs" "length (rs @ xs)"] obtain pf st1 where
    c: "get_consistency P st (length rs) (length (rs @ xs)) = Some (Inr (consistency_to_dto P pf), st1)" "ws_log P st1 (rs @ xs)"
    and v: "verify_consistency P (naive_root P (receipt_leaves P rs)) (naive_root P (receipt_leaves P (rs @ xs))) pf
      (length rs) (length (rs @ xs))"
    by auto
  have key: "ws_key st1 = ws_key st" using c(1) by (auto simp: get_consistency_def split: option.splits)
  let ?g = "gossip_with P sth (Some pf)"
  from gossip_spec [OF c(2) codec old(3), of "Some pf"] obtain ours st2 res where
    g: "gossip P st1 ?g = Some (res, st2)" "ws_log P st2 (rs @ xs)" "head_of P (receipt_leaves P (rs @ xs)) ours"
      "verify_signed_head P ours (ws_key st1)"
    and res: "case reconcile_heads P ours sth (ws_key st1) (Some pf) of
       Inr _ \<Rightarrow> res = Inr (JObj [(''status'', JStr ''consistent'')])
     | Inl e \<Rightarrow> res = Inl (ApiEquivocation
         (JObj [(''status'', JStr ''equivocation''), (''reason'', JStr (equivocation_reason e)),
                (''our_sth'', sth_dto_json (sth_to_dto P ours)), (''peer_sth'', sth_dto_json (sth_to_dto P sth))]))"
    by blast
  have "reconcile_heads P ours sth (ws_key st1) (Some pf) = Inr ()"
    using g(3,4) old(1,2) v by (auto simp: reconcile_heads_iff head_of_def key)
  with res have res: "res = Inr (JObj [(''status'', JStr ''consistent'')])" by simp
  have "JObj [(''peer_sth'', sth_dto_json (sth_to_dto P sth)), (''consistency_proof'', consistency_dto_json (consistency_to_dto P pf))] =
    gossip_request_json ?g"
    by (simp add: gossip_request_json_def gossip_with_def option_json_def)
  moreover have "sd_tree_size (gq_peer_sth ?g) < 2 ^ 64"
    using old(1) small by (simp add: gossip_with_def sth_to_dto_def head_of_def)
  moreover have "length (rs @ xs) < usize_bound" "length rs < usize_bound" using small by (simp_all add: usize_bound_def)
  ultimately show ?thesis
    using c(1) g(1,2) res
    by (intro exI [of _ "consistency_dto_json (consistency_to_dto P pf)"] exI [of _ st1] exI [of _ st2])
      (simp add: witness_client)
qed

section \<open>The service as a list of receipts\<close>

text \<open>
  The specification: what a request asks to log, and the log after it. A receipt is taken
  when it names the root of the log and, if the log is kept on disk, fits a frame that the
  disk takes.
\<close>

definition asked :: "prims \<Rightarrow> http_request \<Rightarrow> action_receipt option" where
  "asked P q =
     (if hq_method q = ''POST'' \<and> hq_path q = ''/witness/v1/entries'' then
        (case hq_json q of
           Inl _ \<Rightarrow> None
         | Inr j \<Rightarrow> do {
             req \<leftarrow> submit_request_of_json j;
             case to_receipt P req of Inl _ \<Rightarrow> None | Inr r \<Rightarrow> Some r})
      else None)"

definition takes :: "prims \<Rightarrow> bool \<Rightarrow> action_receipt list \<Rightarrow> action_receipt \<Rightarrow> write_outcome \<Rightarrow> bool" where
  "takes P durable rs r out \<longleftrightarrow>
     prev_root r = naive_root P (receipt_leaves P rs) \<and>
     (durable \<longrightarrow> length (canonical_bytes P r) < 2 ^ 32 \<and> out = Written)"

fun logs_next :: "prims \<Rightarrow> bool \<Rightarrow> action_receipt list \<Rightarrow> http_request \<times> write_outcome \<Rightarrow> action_receipt list" where
  "logs_next P durable rs (q, out) =
     (case asked P q of
        None \<Rightarrow> rs
      | Some r \<Rightarrow> if takes P durable rs r out then rs @ [r] else rs)"

lemma logs_next_length: "length (logs_next P d rs p) \<le> Suc (length rs)"
  by (cases p) (simp split: option.splits)

lemma persist_iff:
  "(\<exists>store. persist P s r out = (Inr (), store)) \<longleftrightarrow> (s \<noteq> None \<longrightarrow> length (canonical_bytes P r) < 2 ^ 32 \<and> out = Written)"
  by (cases s; cases out) (auto simp: persist_def store_append_def)

lemma asked_body:
  "asked P q = Some r \<longleftrightarrow> hq_method q = ''POST'' \<and> hq_path q = ''/witness/v1/entries'' \<and>
     (\<exists>req. json_body rej submit_request_of_json q = Inr req \<and> to_receipt P req = Inr r)"
proof (cases "hq_json q")
  case (Inr j)
  then show ?thesis
    by (cases "submit_request_of_json j") (auto simp: asked_def json_body_def ok_or_def split: sum.splits)
qed (auto simp: asked_def json_body_def split: prod.splits)

lemma witness_serve_durable:
  assumes "witness_serve P rej out rt q st = Some (reply, st')"
  shows "ws_store st' = None \<longleftrightarrow> ws_store st = None"
proof (cases rt)
  case SubmitRoute
  with assms show ?thesis
    by (auto simp: submit_def map_prod_def split: sum.splits option.splits prod.splits if_splits)
next
  case GossipRoute
  with assms show ?thesis by (auto simp: gossip_def split: sum.splits option.splits prod.splits)
qed (use assms in \<open>auto simp: get_sth_def get_proof_def get_consistency_def get_checkpoint_def Let_def
  split: sum.splits option.splits prod.splits\<close>)

lemma witness_app_durable:
  "witness_app P rej out q st = Some (reply, st') \<Longrightarrow> ws_store st' = None \<longleftrightarrow> ws_store st = None"
  by (auto simp: witness_app_def routed_def split: sum.splits prod.splits dest: witness_serve_durable)

lemma witness_app_refines:
  assumes log: "ws_log P st rs" and small: "length rs < 2 ^ 64" and ext: "refuses_as_client_error q"
  shows "\<exists>reply st'. witness_app P rej out q st = Some (reply, st') \<and>
    ws_log P st' (logs_next P (ws_store st \<noteq> None) rs (q, out)) \<and>
    (if reply_status reply = 201
     then \<exists>r resp. logs_next P (ws_store st \<noteq> None) rs (q, out) = rs @ [r] \<and>
       reply = JsonReply 201 (submit_response_json resp) \<and> acknowledges P (ws_key st) rs r resp
     else logs_next P (ws_store st \<noteq> None) rs (q, out) = rs)"
proof -
  let ?next = "logs_next P (ws_store st \<noteq> None) rs (q, out)"
  from witness_app_answers [OF log small ext, of rej out] obtain reply st' where
    a: "witness_app P rej out q st = Some (reply, st')"
    and c: "if reply_status reply = 201
     then \<exists>req r resp. hq_method q = ''POST'' \<and> hq_path q = ''/witness/v1/entries'' \<and>
       json_body rej submit_request_of_json q = Inr req \<and> to_receipt P req = Inr r \<and>
       reply = JsonReply 201 (submit_response_json resp) \<and> ws_log P st' (rs @ [r]) \<and>
       prev_root r = naive_root P (receipt_leaves P rs) \<and>
       persist P (ws_store st) r out = (Inr (), ws_store st') \<and> acknowledges P (ws_key st) rs r resp
     else ws_log P st' rs" by blast
  show ?thesis
  proof (cases "reply_status reply = 201")
    case True
    with c obtain r resp where "asked P q = Some r" "ws_log P st' (rs @ [r])" "takes P (ws_store st \<noteq> None) rs r out"
      "reply = JsonReply 201 (submit_response_json resp)" "acknowledges P (ws_key st) rs r resp"
      using persist_iff [of P "ws_store st" _ out] by (auto simp: asked_body [of P q _ rej] takes_def)
    with a True show ?thesis by auto
  next
    case False
    have "?next = rs"
    proof (rule ccontr)
      assume "?next \<noteq> rs"
      then obtain r where r: "asked P q = Some r" "takes P (ws_store st \<noteq> None) rs r out"
        by (auto split: option.splits if_splits)
      from r(1) obtain req where q: "hq_method q = ''POST''" "hq_path q = ''/witness/v1/entries''"
        "json_body rej submit_request_of_json q = Inr req" "to_receipt P req = Inr r" by (auto simp: asked_body [of P q r rej])
      obtain store where saved: "persist P (ws_store st) r out = (Inr (), store)"
        using r(2) persist_iff [of P "ws_store st" r out] by (auto simp: takes_def)
      have "prev_root r = naive_root P (receipt_leaves P rs)" using r(2) by (simp add: takes_def)
      from submit_accepted [OF log q(4) this saved small] obtain resp st2 where
        "submit P st req out = Some (Inr (201, resp), st2)" by blast
      with q a have "reply_status reply = 201"
        by (auto simp: witness_app_def routed_def route_def witness_routes_def)
      with False show False by simp
    qed
    with a c False show ?thesis by auto
  qed
qed

lemma witness_session_refines:
  assumes "ws_log P st rs" and "length rs + length qs < 2 ^ 64" and "\<forall>q \<in> fst ` set qs. refuses_as_client_error q"
  shows "\<exists>replies st' xs. witness_session P rej st qs = Some (replies, st') \<and> length replies = length qs \<and>
    foldl (logs_next P (ws_store st \<noteq> None)) rs qs = rs @ xs \<and> ws_log P st' (rs @ xs) \<and>
    acknowledge_all P (ws_key st) rs xs (acknowledged replies)"
  using assms
proof (induction qs arbitrary: st rs)
  case Nil
  then show ?case by (intro exI [of _ "[]"] exI [of _ st]) (simp add: acknowledged_def)
next
  case (Cons p qs)
  obtain q out where p: "p = (q, out)" by (cases p)
  let ?d = "ws_store st \<noteq> None"
  from Cons.prems(3) have ext: "refuses_as_client_error q" "\<forall>q \<in> fst ` set qs. refuses_as_client_error q" by (auto simp: p)
  from witness_app_refines [OF Cons.prems(1) _ ext(1), of rej out] Cons.prems(2) obtain reply st1 where
    a: "witness_app P rej out q st = Some (reply, st1)" "ws_log P st1 (logs_next P ?d rs (q, out))"
    and c: "if reply_status reply = 201
     then \<exists>r resp. logs_next P ?d rs (q, out) = rs @ [r] \<and>
       reply = JsonReply 201 (submit_response_json resp) \<and> acknowledges P (ws_key st) rs r resp
     else logs_next P ?d rs (q, out) = rs" by auto
  have same: "ws_key st1 = ws_key st" "(ws_store st1 \<noteq> None) = ?d"
    using witness_app_key [OF a(1)] witness_app_durable [OF a(1)] by simp_all
  show ?case
  proof (cases "reply_status reply = 201")
    case False
    with c have n: "logs_next P ?d rs (q, out) = rs" by simp
    with a(2) have "ws_log P st1 rs" by simp
    from Cons.IH [OF this _ ext(2), unfolded same] Cons.prems(2) a(1) n False show ?thesis
      by (auto simp: p acknowledged_def simp del: logs_next.simps)
  next
    case True
    with c obtain r resp where n: "logs_next P ?d rs (q, out) = rs @ [r]"
      and r: "reply = JsonReply 201 (submit_response_json resp)" "acknowledges P (ws_key st) rs r resp" by auto
    from a(2) n have "ws_log P st1 (rs @ [r])" by simp
    from Cons.IH [OF this _ ext(2), unfolded same] Cons.prems(2) obtain replies st' xs where
      ih: "witness_session P rej st1 qs = Some (replies, st')" "length replies = length qs"
        "foldl (logs_next P ?d) (rs @ [r]) qs = (rs @ [r]) @ xs" "ws_log P st' ((rs @ [r]) @ xs)"
        "acknowledge_all P (ws_key st) (rs @ [r]) xs (acknowledged replies)"
      by (auto simp del: logs_next.simps)
    have "acknowledged (reply # replies) = reply # acknowledged replies" using True by (simp add: acknowledged_def)
    then show ?thesis
      using a(1) ih r n
      by (intro exI [of _ "reply # replies"] exI [of _ st'] exI [of _ "r # xs"]) (auto simp: p simp del: logs_next.simps)
  qed
qed

end
