(* ===== verification/Revocation_Tests.thy ===== *)
theory Revocation_Tests
  imports Verifier_Tests
begin

text \<open>
  The tests of \<^verbatim>\<open>core/revocation\<close> (its module \<^verbatim>\<open>tests\<close>), as programs over the model that
  return \<open>None\<close> where an \<^verbatim>\<open>unwrap\<close>, a \<^verbatim>\<open>panic!\<close> or an assertion stops the test. The checkers
  behind \<^verbatim>\<open>Box<dyn RevocationChecker>\<close> are functions of the number of queries made.
\<close>

section \<open>The world of the tests\<close>

definition expect_err :: "'e + 'a \<Rightarrow> 'e option" where
  "expect_err m = (case m of Inl e \<Rightarrow> Some e | Inr _ \<Rightarrow> None)"

definition tag_sig :: "u8 \<Rightarrow> signature" where
  "tag_sig tag = \<lparr>sig_algorithm = Ed25519, sig_bytes = replicate 64 tag\<rparr>"

definition tag_key :: "u8 \<Rightarrow> public_key" where
  "tag_key tag = \<lparr>pk_algorithm = Ed25519, pk_bytes = replicate 32 tag\<rparr>"

definition tag_id :: "prims \<Rightarrow> u8 \<Rightarrow> revocation_id" where
  "tag_id P tag = revocation_id_from_signature P (tag_sig tag)"

definition tag_hop :: "string \<Rightarrow> string \<Rightarrow> u8 \<Rightarrow> string \<Rightarrow> delegation_block" where
  "tag_hop from to tag pur =
     \<lparr>db_from = named from, from_key = tag_key tag, db_to = named to, to_key = tag_key (tag + 1),
      db_scope = charge_scope 10000 5, purpose = pur, prev_block_hash = replicate 32 tag, db_signature = tag_sig tag\<rparr>"

definition three_hop_chain :: chain where
  "three_hop_chain =
     \<lparr>chain_root = \<lparr>rb_principal = named ''human:alice'', principal_key = tag_key 0, rb_scope = charge_scope 10000 5,
                   rb_signature = tag_sig 0\<rparr>,
      delegations = [tag_hop ''human:alice'' ''agent:a@org1'' 1 ''hop1: dispatch'',
                     tag_hop ''agent:a@org1'' ''agent:b@org2'' 2 ''hop2: book flight'',
                     tag_hop ''agent:b@org2'' ''agent:c@org3'' 3 ''hop3: charge card'']\<rparr>"

definition entry_for :: "revocation_id \<Rightarrow> string \<Rightarrow> log_entry" where
  "entry_for i reason = \<lparr>le_revoked = i, revoked_at = 1000, le_reason = reason\<rparr>"

text \<open>\<^verbatim>\<open>FixedClock\<close>.\<close>

definition fixed_clock :: "u64 \<Rightarrow> nat \<Rightarrow> u64" where
  "fixed_clock t = (\<lambda>_. t)"

definition check_chain :: "prims \<Rightarrow> nat checker \<Rightarrow> revocation_error + unit" where
  "check_chain P chk = fst (check_chain_revocation P three_hop_chain chk 0)"

fun register_all :: "revocation_id list \<Rightarrow> u64 \<Rightarrow> short_ttl \<Rightarrow> short_ttl" where
  "register_all [] t c = c"
| "register_all (i # is) t c = register_all is t (short_ttl_register c i t)"

section \<open>Ids\<close>

definition test_id_is_deterministic_and_keyless :: "prims \<Rightarrow> unit option" where
  "test_id_is_deterministic_and_keyless P = do {
     asserts (tag_id P 7 = tag_id P 7);
     asserts (tag_id P 7 \<noteq> tag_id P 8);
     asserts (length (rev_bytes (tag_id P 7)) = 32)}"

definition test_ids_cover_root_and_all_delegations :: "prims \<Rightarrow> unit option" where
  "test_ids_cover_root_and_all_delegations P = do {
     let ids = revocation_ids_for_chain P three_hop_chain;
     asserts (length ids = 4);
     asserts (ids ! 0 = revocation_id_from_signature P (rb_signature (chain_root three_hop_chain)));
     asserts (ids ! 2 = tag_id P 2)}"

section \<open>The transparency log and the window\<close>

definition test_revoked_middle_hop_is_caught :: "prims \<Rightarrow> unit option" where
  "test_revoked_middle_hop_is_caught P = do {
     let middle = tag_id P 2;
     let log = tlog_append tlog_in_memory (entry_for middle ''hop2 key compromised'');
     err \<leftarrow> expect_err (check_chain P (tlog_check log));
     (case err of
        ErrRevoked i reason \<Rightarrow> do { asserts (i = middle); asserts (reason = ''hop2 key compromised'') }
      | _ \<Rightarrow> None)}"

definition test_fresh_chain_passes :: "prims \<Rightarrow> unit option" where
  "test_fresh_chain_passes P = asserts (is_ok (check_chain P (tlog_check tlog_in_memory)))"

definition test_short_ttl_staleness :: "prims \<Rightarrow> unit option" where
  "test_short_ttl_staleness P = do {
     let ttl = 300;
     let issued = 10000;
     let ids = revocation_ids_for_chain P three_hop_chain;
     let fresh = register_all ids issued (short_ttl_new ttl);
     asserts (is_ok (check_chain P (short_ttl_check fresh (fixed_clock (issued + ttl)))));
     let stale = register_all ids issued (short_ttl_new ttl);
     err \<leftarrow> expect_err (check_chain P (short_ttl_check stale (fixed_clock (issued + ttl + 1))));
     asserts (case err of ErrStale _ t \<Rightarrow> t = ttl | _ \<Rightarrow> False)}"

definition test_unregistered_block_is_stale :: "prims \<Rightarrow> unit option" where
  "test_unregistered_block_is_stale P = do {
     err \<leftarrow> expect_err (check_chain P (short_ttl_check (short_ttl_new 300) (fixed_clock 10000)));
     asserts (case err of ErrStale _ _ \<Rightarrow> True | _ \<Rightarrow> False)}"

definition test_log_revocation_is_found :: "prims \<Rightarrow> unit option" where
  "test_log_revocation_is_found P = do {
     let revoked = tag_id P 3;
     let live = tag_id P 1;
     let log = tlog_append tlog_in_memory (entry_for revoked ''leaked'');
     let (r1, n) = tlog_check log 0 revoked;
     status \<leftarrow> unwrap r1;
     asserts (status = Revoked ''leaked'');
     let (r2, n) = tlog_check log n live;
     status \<leftarrow> unwrap r2;
     asserts (status = Live)}"

definition test_hop_one_survives_hop_two :: "prims \<Rightarrow> unit option" where
  "test_hop_one_survives_hop_two P = do {
     let hop1 = tag_id P 1;
     let log = tlog_append tlog_in_memory (entry_for hop1 ''hop1 delegation withdrawn'');
     err \<leftarrow> expect_err (check_chain P (tlog_check log));
     asserts (case err of ErrRevoked i _ \<Rightarrow> i = hop1 | _ \<Rightarrow> False)}"

definition test_unreachable_log_fails_closed :: "prims \<Rightarrow> unit option" where
  "test_unreachable_log_fails_closed P = do {
     err \<leftarrow> expect_err (check_chain P (tlog_check (tlog_remote ''https://log.example/segment'')));
     asserts (case err of LogUnreachable _ \<Rightarrow> True | _ \<Rightarrow> False)}"

section \<open>Composites and transports\<close>

definition test_composite_catches_either :: "prims \<Rightarrow> unit option" where
  "test_composite_catches_either P = do {
     let ids = revocation_ids_for_chain P three_hop_chain;
     let middle = ids ! 2;
     let ttl = register_all ids 10000 (short_ttl_new 300);
     let log = tlog_append tlog_in_memory (entry_for middle ''revoked out-of-band'');
     let composite = composite_is_revoked [short_ttl_check ttl (fixed_clock 10100), tlog_check log];
     err \<leftarrow> expect_err (check_chain P composite);
     asserts (case err of ErrRevoked i _ \<Rightarrow> i = middle | _ \<Rightarrow> False)}"

definition is_revoked_answer :: "revocation_error + revocation_status \<Rightarrow> bool" where
  "is_revoked_answer r = (case r of Inr (Revoked _) \<Rightarrow> True | _ \<Rightarrow> False)"

definition is_unreachable :: "revocation_error + revocation_status \<Rightarrow> bool" where
  "is_unreachable r = (case r of Inl (LogUnreachable _) \<Rightarrow> True | _ \<Rightarrow> False)"

definition test_composite_beats_unreachable :: "prims \<Rightarrow> unit option" where
  "test_composite_beats_unreachable P = do {
     let live = tag_id P 9;
     let revoked = tag_id P 1;
     let log = tlog_append tlog_in_memory (entry_for revoked ''pulled'');
     let composite = composite_is_revoked [tlog_check (tlog_remote ''https://down.example''), tlog_check log];
     let (r1, n) = composite 0 revoked;
     asserts (is_revoked_answer r1);
     let (r2, n) = composite n live;
     asserts (is_unreachable r2)}"

definition test_transport_fails_closed :: "prims \<Rightarrow> unit option" where
  "test_transport_fails_closed P = do {
     let revoked = tag_id P 2;
     let live = tag_id P 5;
     let reachable = tlog_check (tlog_with_transport (\<lambda>_. Inr [entry_for revoked ''leaked over the wire'']));
     let (r1, n) = reachable 0 revoked;
     status \<leftarrow> unwrap r1;
     asserts (case status of Revoked _ \<Rightarrow> True | _ \<Rightarrow> False);
     let (r2, n) = reachable n live;
     status \<leftarrow> unwrap r2;
     asserts (status = Live);
     let down = tlog_check (tlog_with_transport (\<lambda>_. Inl ''connection refused''));
     asserts (is_unreachable (fst (down 0 revoked)))}"

section \<open>Snapshots\<close>

definition operator :: "prims \<Rightarrow> signer" where
  "operator P = ed25519_from_seed P (fill 50)"

text \<open>\<^verbatim>\<open>FixedSnapshot\<close>, and \<^verbatim>\<open>SeqSource\<close>, which repeats its last snapshot.\<close>

definition fixed_snapshot :: "snapshot \<Rightarrow> nat \<Rightarrow> string + snapshot" where
  "fixed_snapshot sn = (\<lambda>_. Inr sn)"

definition seq_source :: "snapshot list \<Rightarrow> nat \<Rightarrow> string + snapshot" where
  "seq_source snaps n = Inr (snaps ! min n (length snaps - 1))"

definition test_snapshot_reports_revoked_and_live :: "prims \<Rightarrow> unit option" where
  "test_snapshot_reports_revoked_and_live P = do {
     let revoked = tag_id P 2;
     let live = tag_id P 5;
     snap \<leftarrow> snapshot_sign P (operator P) 1 1000 {revoked};
     let checker = snapshot_check P (fixed_snapshot snap) (fixed_clock 1100);
     let st = (0, snapshot_checker_new (sg_public_key (operator P)) 3600);
     let (r1, st) = checker st revoked;
     status \<leftarrow> unwrap r1;
     asserts (case status of Revoked _ \<Rightarrow> True | _ \<Rightarrow> False);
     let (r2, st) = checker st live;
     status \<leftarrow> unwrap r2;
     asserts (status = Live)}"

definition test_snapshot_fails_closed_when_stale :: "prims \<Rightarrow> unit option" where
  "test_snapshot_fails_closed_when_stale P = do {
     snap \<leftarrow> snapshot_sign P (operator P) 1 1000 {};
     let checker = snapshot_check P (fixed_snapshot snap) (fixed_clock (1000 + 3601));
     asserts (is_unreachable (fst (checker (0, snapshot_checker_new (sg_public_key (operator P)) 3600) (tag_id P 1))))}"

definition test_snapshot_rejects_wrong_signer :: "prims \<Rightarrow> unit option" where
  "test_snapshot_rejects_wrong_signer P = do {
     snap \<leftarrow> snapshot_sign P (ed25519_from_seed P (fill 99)) 1 1000 {};
     let checker = snapshot_check P (fixed_snapshot snap) (fixed_clock 1100);
     asserts (is_unreachable (fst (checker (0, snapshot_checker_new (sg_public_key (operator P)) 3600) (tag_id P 1))))}"

definition test_snapshot_rejects_epoch_rollback :: "prims \<Rightarrow> unit option" where
  "test_snapshot_rejects_epoch_rollback P = do {
     let i = tag_id P 3;
     newer \<leftarrow> snapshot_sign P (operator P) 5 5000 {i};
     older \<leftarrow> snapshot_sign P (operator P) 2 5000 {};
     let checker = snapshot_check P (seq_source [newer, older]) (fixed_clock 5100);
     let (r1, st) = checker (0, snapshot_checker_new (sg_public_key (operator P)) 3600) i;
     status \<leftarrow> unwrap r1;
     asserts (case status of Revoked _ \<Rightarrow> True | _ \<Rightarrow> False);
     let (r2, st) = checker st i;
     asserts (is_unreachable r2)}"

definition revocation_tests :: "(prims \<Rightarrow> unit option) list" where
  "revocation_tests =
     [test_id_is_deterministic_and_keyless, test_ids_cover_root_and_all_delegations, test_revoked_middle_hop_is_caught,
      test_fresh_chain_passes, test_short_ttl_staleness, test_unregistered_block_is_stale, test_log_revocation_is_found,
      test_hop_one_survives_hop_two, test_unreachable_log_fails_closed, test_composite_catches_either,
      test_composite_beats_unreachable, test_transport_fails_closed, test_snapshot_reports_revoked_and_live,
      test_snapshot_fails_closed_when_stale, test_snapshot_rejects_wrong_signer, test_snapshot_rejects_epoch_rollback]"

section \<open>Every test passes\<close>

text \<open>
  What the tests rely on: the hash keeps apart the tagged signatures, the operator's seed
  makes a working signer, and the impostor's signatures do not verify under its key.
\<close>

definition tags_apart :: "prims \<Rightarrow> bool" where
  "tags_apart P \<longleftrightarrow>
     collision_free P ((\<lambda>t. revocation_id_domain @ sig_bytes (tag_sig t)) ` {0, 1, 2, 3, 5, 7, 8, 9}) \<and>
     ed_good P (fill 50) \<and> ed_good P (fill 99) \<and>
     (\<forall>m. \<not> ed_check P (ed_public P (fill 50)) m (ed_raw_sign P (fill 99) m))"

lemma tag_sig_bytes: "sig_bytes (tag_sig a) = sig_bytes (tag_sig b) \<longleftrightarrow> a = b"
  by (auto simp: tag_sig_def)

lemma tag_id_eq:
  assumes "tags_apart P" and "a \<in> {0, 1, 2, 3, 5, 7, 8, 9}" and "b \<in> {0, 1, 2, 3, 5, 7, 8, 9}"
  shows "tag_id P a = tag_id P b \<longleftrightarrow> a = b"
proof -
  have "inj_on (blake3 P) ((\<lambda>t. revocation_id_domain @ sig_bytes (tag_sig t)) ` {0, 1, 2, 3, 5, 7, 8, 9})"
    using assms(1) by (simp add: tags_apart_def collision_free_def)
  from inj_onD [OF this, of "revocation_id_domain @ sig_bytes (tag_sig a)" "revocation_id_domain @ sig_bytes (tag_sig b)"]
  have "tag_id P a = tag_id P b \<Longrightarrow> sig_bytes (tag_sig a) = sig_bytes (tag_sig b)"
    using assms(2,3) by (auto simp: tag_id_def revocation_id_from_signature_def)
  then show ?thesis using tag_sig_bytes by blast
qed

lemma three_hop_ids: "revocation_ids_for_chain P three_hop_chain = [tag_id P 0, tag_id P 1, tag_id P 2, tag_id P 3]"
  by (simp add: revocation_ids_for_chain_def three_hop_chain_def tag_hop_def tag_id_def)

lemma expect_err_simps [simp]: "expect_err (Inl e) = Some e" "expect_err (Inr a) = None"
  by (simp_all add: expect_err_def)

lemmas log_test_simps = check_chain_def check_chain_revocation_def three_hop_ids tlog_check_def tlog_is_revoked_def
  tlog_append_def tlog_in_memory_def tlog_remote_def tlog_with_transport_def entry_for_def Let_def

lemma id_tests:
  assumes "tags_apart P"
  shows "test_id_is_deterministic_and_keyless P = Some ()" and "test_ids_cover_root_and_all_delegations P = Some ()"
proof -
  show "test_id_is_deterministic_and_keyless P = Some ()"
    using tag_id_eq [OF assms, of 7 8]
    by (simp add: test_id_is_deterministic_and_keyless_def) (simp add: tag_id_def revocation_id_from_signature_def)
  show "test_ids_cover_root_and_all_delegations P = Some ()"
    by (simp add: test_ids_cover_root_and_all_delegations_def three_hop_ids Let_def)
      (simp add: three_hop_chain_def tag_id_def)
qed

lemma log_tests:
  assumes "tags_apart P"
  shows "test_revoked_middle_hop_is_caught P = Some ()" and "test_fresh_chain_passes P = Some ()"
    and "test_log_revocation_is_found P = Some ()" and "test_hop_one_survives_hop_two P = Some ()"
    and "test_unreachable_log_fails_closed P = Some ()"
    and "test_composite_beats_unreachable P = Some ()" and "test_transport_fails_closed P = Some ()"
  using tag_id_eq [OF assms]
  by (simp_all add: test_revoked_middle_hop_is_caught_def test_fresh_chain_passes_def test_log_revocation_is_found_def
      test_hop_one_survives_hop_two_def test_unreachable_log_fails_closed_def test_composite_beats_unreachable_def
      test_transport_fails_closed_def is_revoked_answer_def is_unreachable_def composite_is_revoked_def log_test_simps)

lemma window_tests:
  assumes "tags_apart P"
  shows "test_short_ttl_staleness P = Some ()" and "test_unregistered_block_is_stale P = Some ()"
    and "test_composite_catches_either P = Some ()"
proof -
  have ages: "saturating_sub 10300 10000 = (300 :: u64)" "saturating_sub 10301 10000 = (301 :: u64)"
      "saturating_sub 10100 10000 = (100 :: u64)"
    by (simp_all add: saturating_sub_def)
  note simps = check_chain_def check_chain_revocation_def three_hop_ids short_ttl_check_def short_ttl_is_revoked_def
    short_ttl_new_def short_ttl_register_def fixed_clock_def Let_def ages
  show "test_short_ttl_staleness P = Some ()" "test_unregistered_block_is_stale P = Some ()"
    using tag_id_eq [OF assms]
    by (simp_all add: test_short_ttl_staleness_def test_unregistered_block_is_stale_def simps)
  show "test_composite_catches_either P = Some ()"
    using tag_id_eq [OF assms]
    by (simp add: test_composite_catches_either_def composite_is_revoked_def simps log_test_simps)
qed

lemma seed_signs_snapshot:
  "snapshot_sign P (ed25519_from_seed P sd) e t r = Some \<lparr>sn_epoch = e, published_at = t, sn_revoked = r,
     sn_signature = \<lparr>sig_algorithm = Ed25519, sig_bytes = ed_raw_sign P sd (snapshot_signing_bytes P e t r)\<rparr>\<rparr>"
  by (simp add: snapshot_sign_def ed25519_from_seed_def)

lemma seed_snapshot_verifies:
  "snapshot_verify_signature P \<lparr>sn_epoch = e, published_at = t, sn_revoked = r,
     sn_signature = \<lparr>sig_algorithm = Ed25519, sig_bytes = ed_raw_sign P sd (snapshot_signing_bytes P e t r)\<rparr>\<rparr>
     (sg_public_key (ed25519_from_seed P sd')) \<longleftrightarrow>
   ed25519_verify P (snapshot_signing_bytes P e t r) (ed_raw_sign P sd (snapshot_signing_bytes P e t r)) (ed_public P sd') =
     Inr True"
  by (simp add: snapshot_verify_signature_def ed25519_from_seed_def or_false_iff)

lemma snapshot_tests:
  assumes "tags_apart P"
  shows "test_snapshot_reports_revoked_and_live P = Some ()" and "test_snapshot_fails_closed_when_stale P = Some ()"
    and "test_snapshot_rejects_wrong_signer P = Some ()" and "test_snapshot_rejects_epoch_rollback P = Some ()"
proof -
  have good: "ed25519_verify P m (ed_raw_sign P (fill 50) m) (ed_public P (fill 50)) = Inr True" for m
    using assms by (simp add: tags_apart_def ed_good_def ed25519_verify_def)
  have foreign: "ed25519_verify P m (ed_raw_sign P (fill 99) m) (ed_public P (fill 50)) \<noteq> Inr True" for m
    using assms by (simp add: tags_apart_def ed25519_verify_def)
  have ages: "saturating_sub 1100 1000 = (100 :: u64)" "saturating_sub 4601 1000 = (3601 :: u64)"
      "saturating_sub 5100 5000 = (100 :: u64)"
    by (simp_all add: saturating_sub_def)
  note simps = operator_def seed_signs_snapshot seed_snapshot_verifies good foreign ages snapshot_check_def
    snapshot_is_revoked_def snapshot_guards_def snapshot_checker_new_def snapshot_answer_def fixed_snapshot_def
    seq_source_def fixed_clock_def is_unreachable_def Let_def
  show "test_snapshot_reports_revoked_and_live P = Some ()"
    using tag_id_eq [OF assms] by (simp add: test_snapshot_reports_revoked_and_live_def simps)
  show "test_snapshot_fails_closed_when_stale P = Some ()" by (simp add: test_snapshot_fails_closed_when_stale_def simps)
  show "test_snapshot_rejects_wrong_signer P = Some ()" by (simp add: test_snapshot_rejects_wrong_signer_def simps)
  show "test_snapshot_rejects_epoch_rollback P = Some ()" by (simp add: test_snapshot_rejects_epoch_rollback_def simps)
qed

lemma revocation_tests_pass: "tags_apart P \<Longrightarrow> map (\<lambda>test. test P) revocation_tests = replicate 16 (Some ())"
  by (simp add: revocation_tests_def id_tests log_tests window_tests snapshot_tests numeral_eq_Suc)

end
