(* ===== verification/Chain_Tests.thy ===== *)
theory Chain_Tests
  imports Revocation_Tests
begin

text \<open>
  The tests of \<^verbatim>\<open>core/chain\<close> (its module \<^verbatim>\<open>tests\<close>), except the three that read or write JSON
  text. \<open>None\<close> is a failed \<^verbatim>\<open>unwrap\<close> or assertion.
\<close>

section \<open>Chains\<close>

definition perm_scope :: "string list \<Rightarrow> u64 \<Rightarrow> u32 \<Rightarrow> scope" where
  "perm_scope perms b depth =
     \<lparr>permissions = map permission_action perms, budget = Some b, currency = Some ''USD'', max_depth = depth,
      expires_at = 4102444800\<rparr>"

abbreviation seed_signer :: "prims \<Rightarrow> u8 \<Rightarrow> signer" where
  "seed_signer P b \<equiv> ed25519_from_seed P (fill b)"

definition three_hop :: "prims \<Rightarrow> (chain \<times> public_key) option" where
  "three_hop P = do {
     let human = seed_signer P 1;
     let a = seed_signer P 2;
     let b = seed_signer P 3;
     let c = seed_signer P 4;
     let root_key = sg_public_key human;
     c0 \<leftarrow> chain_issue P human (named ''human:alice'') (perm_scope [''payments.charge''] 10000 3);
     c1 \<leftarrow> unwrap (attenuate P c0 human (named ''agent:a@org1'') (sg_public_key a)
             (perm_scope [''payments.charge''] 5000 2) ''book travel under $50'');
     c2 \<leftarrow> unwrap (attenuate P c1 a (named ''agent:b@org2'') (sg_public_key b)
             (perm_scope [''payments.charge''] 5000 1) ''charge the airline'');
     c3 \<leftarrow> unwrap (attenuate P c2 b (named ''agent:c@org3'') (sg_public_key c)
             (perm_scope [''payments.charge''] 4000 0) ''settle fare'');
     Some (c3, root_key)}"

definition test_valid_three_hop_chain_verifies :: "prims \<Rightarrow> unit option" where
  "test_valid_three_hop_chain_verifies P = do {
     (c, root_key) \<leftarrow> three_hop P;
     effective \<leftarrow> unwrap (chain_verify P c root_key);
     asserts (budget effective = Some 4000);
     asserts (max_depth effective = 0)}"

definition test_widening_scope_is_rejected :: "prims \<Rightarrow> unit option" where
  "test_widening_scope_is_rejected P = do {
     let a = seed_signer P 2;
     let human = seed_signer P 1;
     c \<leftarrow> chain_issue P human (named ''human:alice'') (perm_scope [''payments.charge''] 10000 2);
     err \<leftarrow> expect_err (attenuate P c human (named ''agent:a@org1'') (sg_public_key a)
              (perm_scope [''payments.charge'', ''payments.refund''] 10000 1) ''grab extra authority'');
     asserts (err = ScopeWidened)}"

definition test_empty_purpose_is_rejected :: "prims \<Rightarrow> unit option" where
  "test_empty_purpose_is_rejected P = do {
     let human = seed_signer P 1;
     let a = seed_signer P 2;
     c \<leftarrow> chain_issue P human (named ''human:alice'') (perm_scope [''payments.charge''] 10000 2);
     err \<leftarrow> expect_err (attenuate P c human (named ''agent:a@org1'') (sg_public_key a)
              (perm_scope [''payments.charge''] 5000 1) ''   '');
     asserts (err = MissingPurpose)}"

definition test_wrong_signer_cannot_extend_chain :: "prims \<Rightarrow> unit option" where
  "test_wrong_signer_cannot_extend_chain P = do {
     let human = seed_signer P 1;
     let a = seed_signer P 2;
     let impostor = seed_signer P 99;
     c \<leftarrow> chain_issue P human (named ''human:alice'') (perm_scope [''payments.charge''] 10000 2);
     err \<leftarrow> expect_err (attenuate P c impostor (named ''agent:a@org1'') (sg_public_key a)
              (perm_scope [''payments.charge''] 5000 1) ''splice in'');
     asserts (err = WrongSigner)}"

text \<open>The second block's budget, rewritten after it was signed.\<close>

definition test_tampered_scope_fails_verification :: "prims \<Rightarrow> unit option" where
  "test_tampered_scope_fails_verification P = do {
     (c, root_key) \<leftarrow> three_hop P;
     let b = delegations c ! 1;
     let tampered = c\<lparr>delegations := (delegations c)[1 := b\<lparr>db_scope := (db_scope b)\<lparr>budget := Some 9999\<rparr>\<rparr>]\<rparr>;
     asserts (\<not> is_ok (chain_verify P tampered root_key))}"

definition test_wrong_root_key_is_rejected :: "prims \<Rightarrow> unit option" where
  "test_wrong_root_key_is_rejected P = do {
     (c, _) \<leftarrow> three_hop P;
     let attacker = seed_signer P 250;
     err \<leftarrow> expect_err (chain_verify P c (sg_public_key attacker));
     asserts (err = RootKeyMismatch)}"

section \<open>Constraints\<close>

definition scope_with :: "permission \<Rightarrow> scope" where
  "scope_with p = (perm_scope [] 10000 3)\<lparr>permissions := [p]\<rparr>"

definition test_tightening_an_amount_cap_narrows :: "unit option" where
  "test_tightening_an_amount_cap_narrows = do {
     let parent = scope_with (permission_with ''payments.charge'' [AmountMax 500]);
     let child = scope_with (permission_with ''payments.charge'' [AmountMax 300]);
     asserts (is_ok (is_narrowing_of child parent))}"

definition test_raising_an_amount_cap_is_rejected :: "unit option" where
  "test_raising_an_amount_cap_is_rejected = do {
     let parent = scope_with (permission_with ''payments.charge'' [AmountMax 300]);
     let child = scope_with (permission_with ''payments.charge'' [AmountMax 500]);
     err \<leftarrow> expect_err (is_narrowing_of child parent);
     asserts (err = ScopeWidened)}"

definition test_adding_a_constraint_narrows :: "unit option" where
  "test_adding_a_constraint_narrows = do {
     let parent = scope_with (permission_action ''payments.charge'');
     let child = scope_with (permission_with ''payments.charge'' [AmountMax 500, ResourceIn [''airlines'']]);
     asserts (is_ok (is_narrowing_of child parent))}"

definition test_dropping_a_constraint_is_rejected :: "unit option" where
  "test_dropping_a_constraint_is_rejected = do {
     let parent = scope_with (permission_with ''payments.charge'' [AmountMax 500]);
     let child = scope_with (permission_action ''payments.charge'');
     err \<leftarrow> expect_err (is_narrowing_of child parent);
     asserts (err = ScopeWidened)}"

definition test_resource_subset_narrows :: "unit option" where
  "test_resource_subset_narrows = do {
     let parent = scope_with (permission_with ''payments.charge'' [ResourceIn [''airlines'', ''hotels'']]);
     let subset = scope_with (permission_with ''payments.charge'' [ResourceIn [''airlines'']]);
     asserts (is_ok (is_narrowing_of subset parent));
     let superset = scope_with (permission_with ''payments.charge'' [ResourceIn [''airlines'', ''hotels'', ''casinos'']]);
     err \<leftarrow> expect_err (is_narrowing_of superset parent);
     asserts (err = ScopeWidened)}"

definition test_different_action_never_narrows :: "unit option" where
  "test_different_action_never_narrows = do {
     let parent = scope_with (permission_action ''payments.charge'');
     let child = scope_with (permission_action ''payments.refund'');
     err \<leftarrow> expect_err (is_narrowing_of child parent);
     asserts (err = ScopeWidened)}"

definition test_structured_narrowing_holds :: "prims \<Rightarrow> unit option" where
  "test_structured_narrowing_holds P = do {
     let human = seed_signer P 1;
     let a = seed_signer P 2;
     let root_key = sg_public_key human;
     let root_scope = (perm_scope [] 10000 2)
       \<lparr>permissions := [permission_with ''payments.charge'' [AmountMax 500, ResourceIn [''airlines'', ''hotels'']]]\<rparr>;
     c0 \<leftarrow> chain_issue P human (named ''human:alice'') root_scope;
     let child_scope = (perm_scope [] 5000 1)
       \<lparr>permissions := [permission_with ''payments.charge'' [AmountMax 300, ResourceIn [''airlines'']]]\<rparr>;
     c1 \<leftarrow> unwrap (attenuate P c0 human (named ''agent:a@org1'') (sg_public_key a) child_scope ''book a flight under $3'');
     asserts (is_ok (chain_verify P c1 root_key))}"

definition chain_tests :: "(prims \<Rightarrow> unit option) list" where
  "chain_tests =
     [test_valid_three_hop_chain_verifies, test_widening_scope_is_rejected, test_empty_purpose_is_rejected,
      test_wrong_signer_cannot_extend_chain, test_tampered_scope_fails_verification, test_wrong_root_key_is_rejected,
      test_structured_narrowing_holds]"

definition narrowing_tests :: "unit option list" where
  "narrowing_tests =
     [test_tightening_an_amount_cap_narrows, test_raising_an_amount_cap_is_rejected, test_adding_a_constraint_narrows,
      test_dropping_a_constraint_is_rejected, test_resource_subset_narrows, test_different_action_never_narrows]"

section \<open>Every test passes\<close>

text \<open>The narrowing tests need no assumption: they are evaluated.\<close>

lemma narrowing_tests_pass: "narrowing_tests = replicate 6 (Some ())"
  by code_simp

text \<open>What the chain tests rely on: working signers, with keys of their own where one must not pass for another.\<close>

definition chain_keys :: "prims \<Rightarrow> bool" where
  "chain_keys P \<longleftrightarrow>
     list_all (\<lambda>b. ed_good P (fill b)) [1, 2, 3] \<and>
     ed_public P (fill 1) \<noteq> ed_public P (fill 99) \<and> ed_public P (fill 1) \<noteq> ed_public P (fill 250)"

lemma perm_scope_narrows [simp]:
  "narrows (perm_scope ps b d) (perm_scope ps b' d') \<longleftrightarrow> b \<le> b'" "max_depth (perm_scope ps b d) = d"
  by (auto simp: narrows_def perm_scope_def intro!: bexI authorizes_subset_refl)

lemma chain_keysD:
  assumes "chain_keys P"
  shows "b \<in> {1, 2, 3} \<Longrightarrow> signer_ok P (seed_signer P b)"
    and "sg_public_key (seed_signer P 1) \<noteq> sg_public_key (seed_signer P 99)"
    and "sg_public_key (seed_signer P 1) \<noteq> sg_public_key (seed_signer P 250)"
  using assms by (auto simp: chain_keys_def ed25519_from_seed_def intro: ed.ok [unfolded ed25519_from_seed_def])

lemma three_hop_ok:
  assumes "chain_keys P"
  obtains c b1 b2 b3 where "three_hop P = Some (c, sg_public_key (seed_signer P 1))"
    and "chain_ok P c (sg_public_key (seed_signer P 1))" and "delegations c = [b1, b2, b3]"
    and "db_scope b1 = perm_scope [''payments.charge''] 5000 2" and "db_scope b3 = perm_scope [''payments.charge''] 4000 0"
proof -
  let ?s = "\<lambda>b. seed_signer P b" and ?sc = "perm_scope [''payments.charge'']"
  have ok: "signer_ok P (?s 1)" "signer_ok P (?s 2)" "signer_ok P (?s 3)"
    using chain_keysD(1) [OF assms] by simp_all
  have said: "\<not> trim_is_empty ''book travel under $50''" "\<not> trim_is_empty ''charge the airline''" "\<not> trim_is_empty ''settle fare''"
    by code_simp+
  from issue_tail [OF ok(1)] obtain c0 h0 where
    0: "chain_issue P (?s 1) (named ''human:alice'') (?sc 10000 3) = Some c0"
      "built P (sg_public_key (?s 1)) c0" "chain_tail P c0 = (?sc 10000 3, sg_public_key (?s 1), named ''human:alice'', h0)"
    by meson
  from attenuate_step [OF ok(1) 0(2,3) said(1), of "?sc 5000 2"] obtain c1 h1 where
    1: "attenuate P c0 (?s 1) (named ''agent:a@org1'') (sg_public_key (?s 2)) (?sc 5000 2) ''book travel under $50'' = Inr c1"
      "built P (sg_public_key (?s 1)) c1" "chain_tail P c1 = (?sc 5000 2, sg_public_key (?s 2), named ''agent:a@org1'', h1)"
    by simp meson
  from attenuate_step [OF ok(2) 1(2,3) said(2), of "?sc 5000 1"] obtain c2 h2 where
    2: "attenuate P c1 (?s 2) (named ''agent:b@org2'') (sg_public_key (?s 3)) (?sc 5000 1) ''charge the airline'' = Inr c2"
      "built P (sg_public_key (?s 1)) c2" "chain_tail P c2 = (?sc 5000 1, sg_public_key (?s 3), named ''agent:b@org2'', h2)"
    by simp meson
  from attenuate_step [OF ok(3) 2(2,3) said(3), of "?sc 4000 0"] obtain c3 where
    3: "attenuate P c2 (?s 3) (named ''agent:c@org3'') (sg_public_key (?s 4)) (?sc 4000 0) ''settle fare'' = Inr c3"
      "built P (sg_public_key (?s 1)) c3"
    by simp meson
  have "delegations c0 = []" using 0(1) by (auto simp: chain_issue_iff)
  then obtain b1 b2 b3 where "delegations c3 = [b1, b2, b3]" "db_scope b1 = ?sc 5000 2" "db_scope b3 = ?sc 4000 0"
    using 1(1) 2(1) 3(1) by (auto simp: attenuate_iff)
  moreover have "three_hop P = Some (c3, sg_public_key (?s 1))" by (simp add: three_hop_def 0(1) 1(1) 2(1) 3(1))
  ultimately show thesis using that built_ok [OF 3(2)] by blast
qed

text \<open>
  The tampered budget exceeds the parent's, so the verification stops at the scope, before
  it looks at any signature of the block.
\<close>

lemma tampered_is_widened:
  assumes ok: "chain_ok P c rk" and d: "delegations c = [b1, b2, b3]" and s: "db_scope b1 = perm_scope ps 5000 dp"
  shows "chain_verify P (c\<lparr>delegations := (delegations c)[1 := b2\<lparr>db_scope := (db_scope b2)\<lparr>budget := Some 9999\<rparr>\<rparr>]\<rparr>) rk =
    Inl ScopeWidened"
proof -
  let ?t = "b2\<lparr>db_scope := (db_scope b2)\<lparr>budget := Some 9999\<rparr>\<rparr>"
  from ok have root: "verify_root P (chain_root c) rk = Inr (root_tail P (chain_root c))"
    and b1: "verify_block P i b1 (root_tail P (chain_root c)) = Inr (block_tail P b1)"
    and b2: "block_ok P b2 (block_tail P b1)" for i
    by (simp_all add: chain_ok_def verify_root_iff verify_block_iff d)
  have "\<not> narrows (db_scope ?t) (db_scope b1)" by (simp add: narrows_def s perm_scope_def)
  moreover have "expires_at (db_scope b2) \<le> expires_at (db_scope b1)"
    using b2 by (simp add: block_ok_def block_tail_def narrows_def)
  ultimately have "is_narrowing_of (db_scope ?t) (db_scope b1) = Inl ScopeWidened"
    unfolding is_narrowing_of_iff [symmetric] by (auto simp: is_narrowing_of_def s perm_scope_def split: if_splits)
  moreover have "max_depth (db_scope b1) \<noteq> 0"
    using b2 by (auto simp: block_ok_def block_tail_def)
  ultimately have "verify_block P i ?t (block_tail P b1) = Inl ScopeWidened" for i
    using b2 by (simp add: verify_block_def block_ok_def block_tail_def)
  then show ?thesis by (simp add: chain_verify_def root b1 d)
qed

lemma structured_passes:
  assumes keys: "chain_keys P"
  shows "test_structured_narrowing_holds P = Some ()"
proof -
  let ?s = "\<lambda>b. seed_signer P b"
  have human: "signer_ok P (?s 1)" by (rule chain_keysD(1) [OF keys]) simp
  have said: "\<not> trim_is_empty ''book a flight under $3''" by code_simp
  let ?p = "(perm_scope [] 10000 2)\<lparr>permissions := [permission_with ''payments.charge'' [AmountMax 500, ResourceIn [''airlines'', ''hotels'']]]\<rparr>"
    and ?q = "(perm_scope [] 5000 1)\<lparr>permissions := [permission_with ''payments.charge'' [AmountMax 300, ResourceIn [''airlines'']]]\<rparr>"
  have "is_narrowing_of ?q ?p = Inr ()" by code_simp
  then have narrows: "narrows ?q ?p" "max_depth ?q < max_depth ?p" by (simp_all add: is_narrowing_of_iff perm_scope_def)
  from issue_tail [OF human, of "named ''human:alice''" ?p] obtain d0 k where
    7: "chain_issue P (?s 1) (named ''human:alice'') ?p = Some d0" "built P (sg_public_key (?s 1)) d0"
      "chain_tail P d0 = (?p, sg_public_key (?s 1), named ''human:alice'', k)" by meson
  from attenuate_step [OF human 7(2,3) said narrows] obtain d1 where
    8: "attenuate P d0 (?s 1) (named ''agent:a@org1'') (sg_public_key (?s 2)) ?q ''book a flight under $3'' = Inr d1"
      "built P (sg_public_key (?s 1)) d1" by meson
  then show ?thesis
    using chain_verify_ok [OF built_ok [OF 8(2)]] by (simp add: test_structured_narrowing_holds_def 7(1) 8(1))
qed

lemma chain_tests_pass:
  assumes keys: "chain_keys P"
  shows "map (\<lambda>test. test P) chain_tests = replicate 7 (Some ())"
proof -
  let ?s = "\<lambda>b. seed_signer P b" and ?sc = "perm_scope [''payments.charge'']"
  have human: "signer_ok P (?s 1)" by (rule chain_keysD(1) [OF keys]) simp
  from three_hop_ok [OF keys] obtain c b1 b2 b3 where c: "three_hop P = Some (c, sg_public_key (?s 1))"
    "chain_ok P c (sg_public_key (?s 1))" "delegations c = [b1, b2, b3]" "db_scope b1 = ?sc 5000 2" "db_scope b3 = ?sc 4000 0"
    by blast
  have "chain_verify P c (sg_public_key (?s 1)) = Inr (?sc 4000 0)"
    using chain_verify_ok [OF c(2)] by (simp add: chain_tail_def c(3,5) block_tail_def)
  then have 1: "test_valid_three_hop_chain_verifies P = Some ()"
    by (simp add: test_valid_three_hop_chain_verifies_def c(1)) (simp add: perm_scope_def)
  have 5: "test_tampered_scope_fails_verification P = Some ()"
    using tampered_is_widened [OF c(2,3,4)]
    by (simp add: test_tampered_scope_fails_verification_def c(1,3) Let_def is_ok_def)
  have "principal_key (chain_root c) = sg_public_key (?s 1)" using c(2) by (simp add: chain_ok_def)
  then have 6: "test_wrong_root_key_is_rejected P = Some ()"
    using chain_keysD(3) [OF keys]
    by (simp add: test_wrong_root_key_is_rejected_def c(1) chain_verify_def verify_root_def Let_def)
  from issue_tail [OF human, of "named ''human:alice''" "?sc 10000 2"] obtain c0 h where
    0: "chain_issue P (?s 1) (named ''human:alice'') (?sc 10000 2) = Some c0"
      "chain_tail P c0 = (?sc 10000 2, sg_public_key (?s 1), named ''human:alice'', h)" by meson
  have said: "\<not> trim_is_empty ''grab extra authority''" "trim_is_empty ''   ''" "\<not> trim_is_empty ''splice in''"
    by code_simp+
  have "is_narrowing_of (perm_scope [''payments.charge'', ''payments.refund''] 10000 1) (?sc 10000 2) = Inl ScopeWidened"
    by (simp add: is_narrowing_of_def perm_scope_def authorizes_subset_of_def permission_action_def)
  then have 2: "test_widening_scope_is_rejected P = Some ()"
    by (simp add: test_widening_scope_is_rejected_def 0(1)) (simp add: attenuate_def 0(2) said Let_def)
  have 3: "test_empty_purpose_is_rejected P = Some ()"
    by (simp add: test_empty_purpose_is_rejected_def 0(1)) (simp add: attenuate_def 0(2) said Let_def)
  have 4: "test_wrong_signer_cannot_extend_chain P = Some ()"
    using chain_keysD(2) [OF keys]
    by (simp add: test_wrong_signer_cannot_extend_chain_def 0(1)) (simp add: attenuate_def 0(2) said Let_def)
  from 1 2 3 4 5 6 structured_passes [OF keys] show ?thesis by (simp add: chain_tests_def numeral_eq_Suc)
qed

end
