(* ===== verification/Log_Service_Tests.thy ===== *)
theory Log_Service_Tests
  imports Witness_Http Chain_Tests
begin

text \<open>
  The tests of \<^verbatim>\<open>services/witness\<close> (its module \<^verbatim>\<open>tests\<close>): sessions with the router, and
  restarts of a persisted log. \<open>None\<close> is a failed \<^verbatim>\<open>unwrap\<close> or assertion, or a panic of the
  service.
\<close>

section \<open>Requests\<close>

definition test_state :: "prims \<Rightarrow> witness_service" where
  "test_state P = witness_service_new (ed25519_from_seed P (fill 7))"

text \<open>
  A response is read back as JSON; an empty one is null. The text a JSON reply is sent as
  parses to its value.
\<close>

fun reply_value :: "prims \<Rightarrow> http_reply \<Rightarrow> json option" where
  "reply_value P (JsonReply _ j) = Some j"
| "reply_value P (TextReply _ t) = (if t = '''' then Some JNull else json_parse P (str_bytes t))"

definition json_request ::
  "prims \<Rightarrow> (http_request \<Rightarrow> string) \<Rightarrow> string \<Rightarrow> string \<Rightarrow> (string \<times> string) list \<Rightarrow> json \<Rightarrow> witness_service \<Rightarrow>
   (nat \<times> json \<times> witness_service) option" where
  "json_request P rej m uri kvs body st = do {
     (reply, st1) \<leftarrow> witness_app P rej Written \<lparr>hq_method = m, hq_path = uri, hq_query = kvs, hq_json = Inr body\<rparr> st;
     v \<leftarrow> reply_value P reply;
     Some (reply_status reply, v, st1)}"

definition receipt_json :: "prims \<Rightarrow> u8 \<Rightarrow> digest \<Rightarrow> json" where
  "receipt_json P action prev =
     JObj [(''chain_digest'', JStr (b64url_encode P (array_bytes (fill 1)))),
           (''action_digest'', JStr (b64url_encode P (array_bytes (fill action)))),
           (''nonce'', JStr (b64url_encode P (array_bytes (fill action)))),
           (''prev_root'', JStr (b64url_encode P (array_bytes prev)))]"

definition current_root :: "prims \<Rightarrow> (http_request \<Rightarrow> string) \<Rightarrow> witness_service \<Rightarrow> (digest \<times> witness_service) option" where
  "current_root P rej st = do {
     (_, body, st1) \<leftarrow> json_request P rej ''GET'' ''/witness/v1/sth'' [] JNull st;
     s \<leftarrow> json_string (member ''root'' body);
     d \<leftarrow> unwrap (digest_from_b64 P s);
     Some (d, st1)}"

abbreviation entries :: string where
  "entries \<equiv> ''/witness/v1/entries''"

section \<open>Sessions\<close>

text \<open>The proof of the response, read field by field.\<close>

definition step_of_value :: "prims \<Rightarrow> json \<Rightarrow> path_step option" where
  "step_of_value P j = do {
     s \<leftarrow> json_string (member ''sibling'' j);
     d \<leftarrow> unwrap (digest_from_b64 P s);
     l \<leftarrow> json_bool (member ''sibling_is_left'' j);
     Some \<lparr>sibling = d, sibling_is_left = l\<rparr>}"

definition proof_of_value :: "prims \<Rightarrow> json \<Rightarrow> inclusion_proof option" where
  "proof_of_value P j = do {
     i \<leftarrow> json_usize (member ''leaf_index'' j);
     n \<leftarrow> json_usize (member ''tree_size'' j);
     steps \<leftarrow> json_list (step_of_value P) (member ''path'' j);
     Some \<lparr>leaf_index = i, tree_size = n, path = steps\<rparr>}"

definition test_submit_proof_verifies :: "prims \<Rightarrow> (http_request \<Rightarrow> string) \<Rightarrow> unit option" where
  "test_submit_proof_verifies P rej = do {
     (root0, st) \<leftarrow> current_root P rej (test_state P);
     (status, body, st) \<leftarrow> json_request P rej ''POST'' entries [] (receipt_json P 42 root0) st;
     asserts (status = 201);
     asserts (member ''leaf_index'' body = JNum 0);
     let receipt = \<lparr>chain_digest_of = fill 1, action_digest = fill 42, nonce = fill 42, prev_root = root0\<rparr>;
     dto \<leftarrow> sth_dto_of_json (member ''sth'' body);
     sth \<leftarrow> unwrap (dto_to_sth P dto);
     asserts (verify_signed_head P sth (ws_key st));
     proof \<leftarrow> proof_of_value P (member ''inclusion_proof'' body);
     asserts (verify_inclusion P receipt proof (sth_root sth))}"

definition test_stale_prev_root_is_rejected :: "prims \<Rightarrow> (http_request \<Rightarrow> string) \<Rightarrow> unit option" where
  "test_stale_prev_root_is_rejected P rej = do {
     (r0, st) \<leftarrow> current_root P rej (test_state P);
     (first, _, st) \<leftarrow> json_request P rej ''POST'' entries [] (receipt_json P 1 r0) st;
     asserts (first = 201);
     (status, body, st) \<leftarrow> json_request P rej ''POST'' entries [] (receipt_json P 2 r0) st;
     asserts (status = 409);
     asserts (member ''title'' body = JStr ''stale prev_root'')}"

text \<open>The loop over the three appends.\<close>

fun submit_chained :: "prims \<Rightarrow> (http_request \<Rightarrow> string) \<Rightarrow> u8 list \<Rightarrow> digest \<Rightarrow> witness_service \<Rightarrow> (digest \<times> witness_service) option" where
  "submit_chained P rej [] prev st = Some (prev, st)"
| "submit_chained P rej (i # is) prev st = do {
     (_, body, st1) \<leftarrow> json_request P rej ''POST'' entries [] (receipt_json P i prev) st;
     dto \<leftarrow> sth_dto_of_json (member ''sth'' body);
     next \<leftarrow> unwrap (digest_from_b64 P (sd_root dto));
     submit_chained P rej is next st1}"

definition test_consistency_tracks_appends :: "prims \<Rightarrow> (http_request \<Rightarrow> string) \<Rightarrow> unit option" where
  "test_consistency_tracks_appends P rej = do {
     (prev, st) \<leftarrow> current_root P rej (test_state P);
     (prev, st) \<leftarrow> submit_chained P rej [0, 1, 2] prev st;
     (status, body, st) \<leftarrow> json_request P rej ''GET'' ''/witness/v1/consistency'' [(''first'', ''1''), (''second'', ''3'')] JNull st;
     asserts (status = 200);
     ns \<leftarrow> json_list Some (member ''consistency'' body);
     asserts (ns \<noteq> [])}"

definition test_gossip_detects_a_forked_root :: "prims \<Rightarrow> (http_request \<Rightarrow> string) \<Rightarrow> unit option" where
  "test_gossip_detects_a_forked_root P rej = do {
     (r0, st) \<leftarrow> current_root P rej (test_state P);
     (_, _, st) \<leftarrow> json_request P rej ''POST'' entries [] (receipt_json P 1 r0) st;
     let (_, forked) = witness_append P witness_new
       \<lparr>chain_digest_of = fill 9, action_digest = fill 9, nonce = fill 9, prev_root = fill 0\<rparr>;
     (forked_head, _) \<leftarrow> signed_head P forked (ed25519_from_seed P (fill 7));
     (status, body, st) \<leftarrow> json_request P rej ''POST'' ''/witness/v1/gossip'' []
       (JObj [(''peer_sth'', sth_dto_json (sth_to_dto P forked_head))]) st;
     asserts (status = 409);
     asserts (member ''status'' body = JStr ''equivocation'');
     asserts (member ''reason'' body = JStr ''forked_root'')}"

text \<open>\<^verbatim>\<open>value[i]\<close> of an array.\<close>

fun nth_value :: "nat \<Rightarrow> json \<Rightarrow> json" where
  "nth_value i (JArr js) = (if i < length js then js ! i else JNull)"
| "nth_value i _ = JNull"

definition test_well_known_keys_are_served :: "prims \<Rightarrow> (http_request \<Rightarrow> string) \<Rightarrow> unit option" where
  "test_well_known_keys_are_served P rej = do {
     (status, body, st) \<leftarrow> json_request P rej ''GET'' ''/.well-known/witness-keys'' [] JNull (test_state P);
     asserts (status = 200);
     asserts (member ''alg'' (nth_value 0 (member ''keys'' body)) = JStr ''ed25519'');
     asserts (member ''public_key'' (nth_value 0 (member ''keys'' body)) = JStr (b64url_encode P (pk_bytes (ws_key st))))}"

definition test_checkpoint_is_a_verifiable_note :: "prims \<Rightarrow> (http_request \<Rightarrow> string) \<Rightarrow> unit option" where
  "test_checkpoint_is_a_verifiable_note P rej = do {
     (root0, st) \<leftarrow> current_root P rej (test_state P);
     (_, _, st) \<leftarrow> json_request P rej ''POST'' entries [] (receipt_json P 1 root0) st;
     (reply, st) \<leftarrow> witness_app P rej Written (get_request ''/witness/v1/checkpoint'' []) st;
     asserts (reply_status reply = 200);
     n \<leftarrow> (case reply of TextReply _ t \<Rightarrow> Some t | _ \<Rightarrow> None);
     cp \<leftarrow> verify_checkpoint P n ''indexone.dev/witness'' (ws_key st);
     asserts (cp_origin cp = ''indexone.dev/witness'');
     (root, w) \<leftarrow> witness_root P (ws_witness st);
     asserts (cp_size cp = length (leaf_hashes w));
     asserts (cp_root cp = root)}"

section \<open>Restarts\<close>

text \<open>The loop of the chained receipts, on disk and in memory; every byte of the array is the counter.\<close>

fun append_chained ::
  "prims \<Rightarrow> u8 list \<Rightarrow> digest \<Rightarrow> u8 list \<Rightarrow> witness \<Rightarrow> (u8 list \<times> witness) option" where
  "append_chained P [] prev file w = Some (file, w)"
| "append_chained P (i # is) prev file w = do {
     let r = \<lparr>chain_digest_of = fill i, action_digest = fill i, nonce = fill i, prev_root = prev\<rparr>;
     let (res, file1) = store_append P file r Written;
     unwrap res;
     let (_, w1) = witness_append P w r;
     (next, w2) \<leftarrow> witness_root P w1;
     append_chained P is next file1 w2}"

text \<open>A path without a file; the file, the root and the length after the appends.\<close>

definition seed_log :: "prims \<Rightarrow> bytes32 \<Rightarrow> u8 list \<Rightarrow> (u8 list \<times> digest \<times> nat) option" where
  "seed_log P seed is = do {
     st \<leftarrow> unwrap (witness_service_persistent P (ed25519_from_seed P seed) FileMissing None None);
     file \<leftarrow> ws_store st;
     (prev, w) \<leftarrow> witness_root P (ws_witness st);
     (file, w) \<leftarrow> append_chained P is prev file w;
     (root, w) \<leftarrow> witness_root P w;
     Some (file, root, length (leaf_hashes w))}"

definition reopen :: "prims \<Rightarrow> bytes32 \<Rightarrow> u8 list \<Rightarrow> (u8 list \<times> witness) option" where
  "reopen P seed file = do {
     st \<leftarrow> unwrap (witness_service_persistent P (ed25519_from_seed P seed) (FileBytes file) None None);
     file1 \<leftarrow> ws_store st;
     Some (file1, ws_witness st)}"

definition test_persisted_log_survives_restart :: "prims \<Rightarrow> unit option" where
  "test_persisted_log_survives_restart P = do {
     (file, expected_root, expected_len) \<leftarrow> seed_log P (fill 7) [0, 1, 2];
     (_, w2) \<leftarrow> reopen P (fill 7) file;
     asserts (length (leaf_hashes w2) = expected_len);
     (root, _) \<leftarrow> witness_root P w2;
     asserts (root = expected_root);
     empty \<leftarrow> unwrap (witness_service_persistent P (ed25519_from_seed P (fill 7)) FileMissing None None);
     asserts (length (leaf_hashes (ws_witness empty)) = 0)}"

definition test_torn_trailing_frame_is_recovered :: "prims \<Rightarrow> unit option" where
  "test_torn_trailing_frame_is_recovered P = do {
     (file, root2, len2) \<leftarrow> seed_log P (fill 8) [0, 1];
     let crashed = file @ u32_le_bytes 100 @ [1, 2, 3];
     (file1, w) \<leftarrow> reopen P (fill 8) crashed;
     asserts (length (leaf_hashes w) = len2);
     (root, w) \<leftarrow> witness_root P w;
     asserts (root = root2);
     (prev, w) \<leftarrow> witness_root P w;
     (file2, w) \<leftarrow> append_chained P [9] prev file1 w;
     (expected, w) \<leftarrow> witness_root P w;
     (_, w3) \<leftarrow> reopen P (fill 8) file2;
     (root3, w3) \<leftarrow> witness_root P w3;
     asserts ((root3, length (leaf_hashes w3)) = (expected, length (leaf_hashes w)))}"

definition test_partial_length_prefix_is_recovered :: "prims \<Rightarrow> unit option" where
  "test_partial_length_prefix_is_recovered P = do {
     (file, root1, len1) \<leftarrow> seed_log P (fill 8) [0];
     (_, w2) \<leftarrow> reopen P (fill 8) (file @ [0xAB, 0xCD]);
     asserts (length (leaf_hashes w2) = len1);
     (root, _) \<leftarrow> witness_root P w2;
     asserts (root = root1)}"

definition log_session_tests :: "(prims \<Rightarrow> (http_request \<Rightarrow> string) \<Rightarrow> unit option) list" where
  "log_session_tests =
     [test_submit_proof_verifies, test_stale_prev_root_is_rejected, test_consistency_tracks_appends,
      test_gossip_detects_a_forked_root, test_well_known_keys_are_served, test_checkpoint_is_a_verifiable_note]"

definition restart_tests :: "(prims \<Rightarrow> unit option) list" where
  "restart_tests =
     [test_persisted_log_survives_restart, test_torn_trailing_frame_is_recovered, test_partial_length_prefix_is_recovered]"

section \<open>The sessions pass\<close>

abbreviation tagged_receipt :: "u8 \<Rightarrow> digest \<Rightarrow> action_receipt" where
  "tagged_receipt a prev \<equiv> \<lparr>chain_digest_of = fill 1, action_digest = fill a, nonce = fill a, prev_root = prev\<rparr>"

abbreviation log_root_of :: "prims \<Rightarrow> action_receipt list \<Rightarrow> digest" where
  "log_root_of P rs \<equiv> naive_root P (receipt_leaves P rs)"

lemma receipt_json_request: "receipt_json P a prev = submit_request_json (to_request P (tagged_receipt a prev))"
  by (simp add: receipt_json_def submit_request_json_def to_request_def)

lemma json_request_route:
  assumes "map_of witness_routes uri = Some (m, h)"
  shows "json_request P rej m uri kvs body st = do {
    (reply, st1) \<leftarrow> witness_serve P rej Written h \<lparr>hq_method = m, hq_path = uri, hq_query = kvs, hq_json = Inr body\<rparr> st;
    v \<leftarrow> reply_value P reply;
    Some (reply_status reply, v, st1)}"
  using assms by (simp add: json_request_def witness_app_def routed_def route_def option.map_id0 prod.map_id0)

lemma test_routes:
  "map_of witness_routes ''/witness/v1/sth'' = Some (''GET'', SthRoute)"
  "map_of witness_routes ''/.well-known/witness-keys'' = Some (''GET'', KeysRoute)"
  "map_of witness_routes entries = Some (''POST'', SubmitRoute)"
  "map_of witness_routes ''/witness/v1/gossip'' = Some (''POST'', GossipRoute)"
  "map_of witness_routes ''/witness/v1/consistency'' = Some (''GET'', ConsistencyRoute)"
  "map_of witness_routes ''/witness/v1/checkpoint'' = Some (''GET'', CheckpointRoute)"
  by (simp_all add: witness_routes_def)

text \<open>The handlers' answers as the tests see them.\<close>

fun handler_value :: "('a \<Rightarrow> nat \<times> json) \<Rightarrow> (api_error + 'a) \<times> 's \<Rightarrow> nat \<times> json \<times> 's" where
  "handler_value f (Inr a, st) = (fst (f a), snd (f a), st)"
| "handler_value f (Inl e, st) = (fst (api_error_response e), by_key (snd (api_error_response e)), st)"

lemma handler_bind:
  "Option.bind (map_option (map_prod (reply_of (\<lambda>a. JsonReply (fst (f a)) (snd (f a)))) id) ans) (\<lambda>(reply, st1).
     Option.bind (reply_value P reply) (\<lambda>v. Some (reply_status reply, v, st1))) = map_option (handler_value f) ans"
proof (cases ans)
  case (Some a)
  then show ?thesis by (cases "fst a"; cases a) (simp_all add: api_error_reply_def split: prod.splits)
qed simp

lemma test_requests:
  "json_request P rej ''GET'' ''/witness/v1/sth'' [] b st = map_option (\<lambda>(d, st1). (200, sth_dto_json d, st1)) (get_sth P st)"
  "json_request P rej ''GET'' ''/.well-known/witness-keys'' [] b st = Some (200, keys_dto_json (get_keys P st), st)"
  "json_request P rej ''POST'' entries [] (submit_request_json req) st =
     map_option (handler_value (map_prod id submit_response_json)) (submit P st req Written)"
  "json_request P rej ''GET'' ''/witness/v1/consistency'' [(''first'', ''1''), (''second'', ''3'')] b st =
     map_option (handler_value (\<lambda>d. (200, consistency_dto_json d))) (get_consistency P st 1 3)"
  "gossip_request_of_json j = Some g \<Longrightarrow> json_request P rej ''POST'' ''/witness/v1/gossip'' [] j st =
     map_option (handler_value (\<lambda>j. (200, by_key j))) (gossip P st g)"
  "witness_app P rej out (get_request ''/witness/v1/checkpoint'' []) st =
     map_option (map_prod (TextReply 200) id) (get_checkpoint P st None)"
proof -
  have "decimal 1 = ''1''" "decimal 3 = ''3''" by code_simp+
  then have numbers: "parse_usize ''1'' = Some 1" "parse_usize ''3'' = Some 3"
    using parse_usize_decimal [of 1] parse_usize_decimal [of 3] by (simp_all add: usize_bound_def)
  show "json_request P rej ''GET'' ''/witness/v1/sth'' [] b st = map_option (\<lambda>(d, st1). (200, sth_dto_json d, st1)) (get_sth P st)"
    by (cases "get_sth P st") (auto simp: json_request_route [OF test_routes(1)])
  show "json_request P rej ''GET'' ''/.well-known/witness-keys'' [] b st = Some (200, keys_dto_json (get_keys P st), st)"
    by (simp add: json_request_route [OF test_routes(2)])
  show "json_request P rej ''POST'' entries [] (submit_request_json req) st =
     map_option (handler_value (map_prod id submit_response_json)) (submit P st req Written)"
    using handler_bind [where f = "map_prod id submit_response_json" and ans = "submit P st req Written" and P = P]
    by (simp add: json_request_route [OF test_routes(3)] json_body_def submit_request_form.dec_enc case_prod_beta')
  show "json_request P rej ''GET'' ''/witness/v1/consistency'' [(''first'', ''1''), (''second'', ''3'')] b st =
     map_option (handler_value (\<lambda>d. (200, consistency_dto_json d))) (get_consistency P st 1 3)"
    using handler_bind [where f = "\<lambda>d. (200, consistency_dto_json d)" and ans = "get_consistency P st 1 3" and P = P]
    by (simp add: json_request_route [OF test_routes(5)] query_string_def consistency_query_def query_required_def
        query_field_def numbers)
  show "json_request P rej ''POST'' ''/witness/v1/gossip'' [] j st =
     map_option (handler_value (\<lambda>j. (200, by_key j))) (gossip P st g)" if "gossip_request_of_json j = Some g"
    using handler_bind [where f = "\<lambda>j. (200, by_key j)" and ans = "gossip P st g" and P = P] that
    by (simp add: json_request_route [OF test_routes(4)] json_body_def)
  show "witness_app P rej out (get_request ''/witness/v1/checkpoint'' []) st =
     map_option (map_prod (TextReply 200) id) (get_checkpoint P st None)"
    by (simp add: witness_app_def routed_client(1) [OF test_routes(6)] client_requests checkpoint_query_def query_field_def)
qed

text \<open>A service over a log, as the tests hold it: in memory, under its own key.\<close>

definition serving_log :: "prims \<Rightarrow> witness_service \<Rightarrow> action_receipt list \<Rightarrow> bool" where
  "serving_log P st rs \<longleftrightarrow>
     ws_log P st rs \<and> ws_store st = None \<and> ws_signer st = ed25519_from_seed P (fill 7) \<and>
     ws_key st = sg_public_key (ed25519_from_seed P (fill 7))"

lemma serving_log_new: "ed_good P (fill 7) \<Longrightarrow> serving_log P (test_state P) []"
  using ws_log_new [OF ed.ok, of P "fill 7"] by (simp add: serving_log_def test_state_def witness_service_new_def)

lemma current_root_ok:
  assumes "serving_log P st rs" and "b64url_ok P"
  shows "\<exists>st1. current_root P rej st = Some (log_root_of P rs, st1) \<and> serving_log P st1 rs"
proof -
  from assms(1) get_sth_ok [of P st rs] obtain sth st1 where
    h: "get_sth P st = Some (sth_to_dto P sth, st1)" "head_of P (receipt_leaves P rs) sth" "ws_log P st1 rs"
    by (auto simp: serving_log_def)
  from h(1) assms(1) have "ws_store st1 = None" "ws_signer st1 = ed25519_from_seed P (fill 7)"
    "ws_key st1 = sg_public_key (ed25519_from_seed P (fill 7))"
    by (auto simp: get_sth_def serving_log_def split: option.splits)
  with h(3) have "serving_log P st1 rs" by (simp add: serving_log_def)
  then show ?thesis
    using h(1,2) assms(2)
    by (simp add: current_root_def test_requests(1) sth_dto_json_def sth_to_dto_def head_of_def)
qed

lemma entry_submitted:
  assumes st: "serving_log P st rs" and codec: "b64url_ok P" and small: "length rs < 2 ^ 63" and prev: "prev = log_root_of P rs"
  shows "\<exists>resp st1. json_request P rej ''POST'' entries [] (receipt_json P a prev) st = Some (201, submit_response_json resp, st1) \<and>
    serving_log P st1 (rs @ [tagged_receipt a prev]) \<and> acknowledges P (ws_key st) rs (tagged_receipt a prev) resp"
proof -
  let ?r = "tagged_receipt a prev"
  from st have log: "ws_log P st rs" and saved: "persist P (ws_store st) ?r Written = (Inr (), None)"
    by (simp_all add: serving_log_def persist_def)
  from submit_accepted [OF log to_receipt_request [OF codec] _ saved] small prev obtain resp st1 where
    s: "submit P st (to_request P ?r) Written = Some (Inr (201, resp), st1)" "ws_log P st1 (rs @ [?r])"
      "ws_store st1 = None" "acknowledges P (ws_key st) rs ?r resp" by auto
  from s(1) have "ws_signer st1 = ws_signer st" "ws_key st1 = ws_key st"
    by (auto simp: submit_def split: sum.splits option.splits prod.splits if_splits)
  with s(2,3) st have "serving_log P st1 (rs @ [?r])" by (simp add: serving_log_def)
  with s show ?thesis
    by (intro exI [of _ resp] exI [of _ st1]) (simp add: receipt_json_request test_requests(3))
qed

text \<open>
  What the sessions rely on: a working seed, codecs that read back what they wrote, and
  roots of different logs that differ.
\<close>

definition forked_receipt :: action_receipt where
  "forked_receipt = \<lparr>chain_digest_of = fill 9, action_digest = fill 9, nonce = fill 9, prev_root = fill 0\<rparr>"

definition log_service_apart :: "prims \<Rightarrow> bool" where
  "log_service_apart P \<longleftrightarrow>
     ed_good P (fill 7) \<and> b64url_ok P \<and> base64_ok P \<and>
     (let root = log_root_of P [tagged_receipt 1 (log_root_of P [])]
      in root \<noteq> log_root_of P [] \<and> root \<noteq> log_root_of P [forked_receipt])"

lemma proof_of_dto:
  assumes "b64url_ok P" and "leaf_index pf < 2 ^ 64" and "tree_size pf < 2 ^ 64"
  shows "proof_of_value P (inclusion_dto_json (inclusion_to_dto P pf)) = Some pf"
proof -
  have "step_of_value P (JObj [(''sibling'', JStr (b64url_encode P (array_bytes (sibling s)))), (''sibling_is_left'', JBool (sibling_is_left s))]) = Some s" for s
    using assms(1) by (simp add: step_of_value_def)
  then have "those (map (\<lambda>x. step_of_value P (JObj [(''sibling'', JStr (b64url_encode P (array_bytes (sibling x)))),
      (''sibling_is_left'', JBool (sibling_is_left x))])) (path pf)) = Some (path pf)"
    by (induction "path pf") (simp_all add: those_map_some [where f = Some and g = "\<lambda>x. x", simplified])
  with assms(2,3) show ?thesis
    by (cases pf) (simp add: proof_of_value_def inclusion_dto_json_def inclusion_to_dto_def list_json_def comp_def)
qed

lemma first_session:
  assumes apart: "log_service_apart P"
  shows "test_submit_proof_verifies P rej = Some ()"
proof -
  from apart have codec: "b64url_ok P" and good: "ed_good P (fill 7)" by (simp_all add: log_service_apart_def)
  from current_root_ok [OF serving_log_new [OF good] codec, of rej] obtain st where
    0: "current_root P rej (test_state P) = Some (log_root_of P [], st)" "serving_log P st []" by blast
  let ?r = "tagged_receipt 42 (log_root_of P [])"
  from entry_submitted [OF 0(2) codec _ refl, of rej 42] obtain resp st1 where
    1: "json_request P rej ''POST'' entries [] (receipt_json P 42 (log_root_of P [])) st = Some (201, submit_response_json resp, st1)"
      "serving_log P st1 [?r]" "acknowledges P (ws_key st) [] ?r resp" by auto
  from 1(3) obtain pf sth where a: "sr_leaf_index resp = 0" "sr_inclusion_proof resp = inclusion_to_dto P pf"
    "sr_sth resp = sth_to_dto P sth" "sth_size sth = 1" "verify_signed_head P sth (ws_key st)" "leaf_index pf = 0"
    "tree_size pf = sth_size sth" "verify_inclusion P ?r pf (sth_root sth)"
    by (auto simp: acknowledges_def head_of_def)
  have key: "ws_key st1 = ws_key st" "ws_key st = sg_public_key (ed25519_from_seed P (fill 7))"
    using 0(2) 1(2) by (simp_all add: serving_log_def)
  have "verify_signature P (sth_signing_bytes P (sth_size sth) (sth_root sth)) (sth_signature sth) (ws_key st) = Inr True"
    using a(5) by (simp only: verify_signed_head_def or_false_iff)
  from verify_signature_same_algorithm [OF this] have "sig_algorithm (sth_signature sth) = Ed25519"
    by (simp add: key(2) ed25519_from_seed_def)
  from sth_dto_roundtrip [OF codec this] have "dto_to_sth P (sth_to_dto P sth) = Inr sth" .
  moreover have "sth_dto_of_json (sth_dto_json (sth_to_dto P sth)) = Some (sth_to_dto P sth)"
    by (rule sth_dto_form.dec_enc) (simp add: sth_to_dto_def a(4))
  moreover have "proof_of_value P (inclusion_dto_json (inclusion_to_dto P pf)) = Some pf"
    by (rule proof_of_dto [OF codec]) (simp_all add: a(4,6,7))
  ultimately show ?thesis
    using a by (simp add: test_submit_proof_verifies_def 0(1) [simplified] 1(1) [simplified] submit_response_json_def key(1))
qed

text \<open>The part the sessions share: the root is read and one entry submitted.\<close>

lemma one_entry:
  assumes apart: "log_service_apart P"
  obtains st st1 resp where "current_root P rej (test_state P) = Some (log_root_of P [], st)"
    and "json_request P rej ''POST'' entries [] (receipt_json P 1 (log_root_of P [])) st = Some (201, submit_response_json resp, st1)"
    and "serving_log P st1 [tagged_receipt 1 (log_root_of P [])]" and "ws_log P st1 [tagged_receipt 1 (log_root_of P [])]"
proof -
  from apart have codec: "b64url_ok P" and good: "ed_good P (fill 7)" by (simp_all add: log_service_apart_def)
  from current_root_ok [OF serving_log_new [OF good] codec, of rej] obtain st where
    0: "current_root P rej (test_state P) = Some (log_root_of P [], st)" "serving_log P st []" by blast
  from entry_submitted [OF 0(2) codec _ refl, of rej 1] obtain resp st1 where
    1: "json_request P rej ''POST'' entries [] (receipt_json P 1 (log_root_of P [])) st = Some (201, submit_response_json resp, st1)"
      "serving_log P st1 [tagged_receipt 1 (log_root_of P [])]" by auto
  from that [OF 0(1) 1] 1(2) show thesis by (simp add: serving_log_def)
qed

lemma stale_session:
  assumes apart: "log_service_apart P"
  shows "test_stale_prev_root_is_rejected P rej = Some ()"
proof -
  let ?r = "tagged_receipt 1 (log_root_of P [])"
  from apart have codec: "b64url_ok P" "base64_ok P" and good: "ed_good P (fill 7)"
    and roots: "log_root_of P [] \<noteq> log_root_of P [?r]" "log_root_of P [forked_receipt] \<noteq> log_root_of P [?r]"
    by (auto simp: log_service_apart_def Let_def)
  from one_entry [OF apart, of rej] obtain st st1 resp where
    0: "current_root P rej (test_state P) = Some (log_root_of P [], st)"
    and 1: "json_request P rej ''POST'' entries [] (receipt_json P 1 (log_root_of P [])) st = Some (201, submit_response_json resp, st1)"
      "serving_log P st1 [?r]" and log: "ws_log P st1 [?r]" by blast
  have "prev_root (tagged_receipt 2 (log_root_of P [])) \<noteq> log_root_of P [?r]" using roots(1) by simp
  from submit_stale [OF log to_receipt_request [OF codec(1)] this] obtain st2 where
    "submit P st1 (to_request P (tagged_receipt 2 (log_root_of P []))) Written = Some (Inl StalePrevRoot, st2)" by blast
  then have "json_request P rej ''POST'' entries [] (receipt_json P 2 (log_root_of P [])) st1 =
      Some (409, by_key (problem ''stale prev_root'' ''prev_root must equal the log's current root at submission''), st2)"
    by (simp add: receipt_json_request test_requests(3))
  then show ?thesis
    by (simp add: test_stale_prev_root_is_rejected_def 0 [simplified] 1(1) [simplified] problem_def)
qed

lemma gossip_session:
  assumes apart: "log_service_apart P"
  shows "test_gossip_detects_a_forked_root P rej = Some ()"
proof -
  let ?r = "tagged_receipt 1 (log_root_of P [])"
  from apart have codec: "b64url_ok P" "base64_ok P" and good: "ed_good P (fill 7)"
    and roots: "log_root_of P [] \<noteq> log_root_of P [?r]" "log_root_of P [forked_receipt] \<noteq> log_root_of P [?r]"
    by (auto simp: log_service_apart_def Let_def)
  from one_entry [OF apart, of rej] obtain st st1 resp where
    0: "current_root P rej (test_state P) = Some (log_root_of P [], st)"
    and 1: "json_request P rej ''POST'' entries [] (receipt_json P 1 (log_root_of P [])) st = Some (201, submit_response_json resp, st1)"
      "serving_log P st1 [?r]" and log: "ws_log P st1 [?r]" by blast
  obtain i w where forked: "witness_append P witness_new forked_receipt = (i, w)" by fastforce
  from witness_append_ok [OF witness_ok_new forked] have w: "witness_ok P w" "leaf_hashes w = receipt_leaves P [forked_receipt]"
    by simp_all
  from any_signer.signed_head_ok [OF ed.ok [OF good] w(1)] obtain h w' where
    h: "signed_head P w (ed25519_from_seed P (fill 7)) = Some (h, w')" "head_of P (receipt_leaves P [forked_receipt]) h"
      "verify_signed_head P h (sg_public_key (ed25519_from_seed P (fill 7)))" by (auto simp: w(2))
  have alg: "sig_algorithm (sth_signature h) = Ed25519"
    using h(1) by (auto simp: signed_head_def ed25519_from_seed_def Let_def split: option.splits)
  have peer: "verify_signed_head P h (ws_key st1)" "sth_size h = length [?r]" "sth_root h \<noteq> log_root_of P [?r]"
    using 1(2) h(2,3) roots(2) by (simp_all add: serving_log_def head_of_def)
  from gossip_detects_fork [OF log codec(1) alg peer, of None] obtain ours st3 where
    g: "gossip P st1 (gossip_with P h None) = Some (Inl (ApiEquivocation
         (JObj [(''status'', JStr ''equivocation''), (''reason'', JStr ''forked_root''),
                (''our_sth'', sth_dto_json (sth_to_dto P ours)), (''peer_sth'', sth_dto_json (sth_to_dto P h))])), st3)" by blast
  have "sth_dto_of_json (sth_dto_json (sth_to_dto P h)) = Some (sth_to_dto P h)"
    by (rule sth_dto_form.dec_enc) (use h(2) in \<open>simp add: sth_to_dto_def head_of_def\<close>)
  then have "gossip_request_of_json (JObj [(''peer_sth'', sth_dto_json (sth_to_dto P h))]) = Some (gossip_with P h None)"
    by (simp add: gossip_request_of_json_def gossip_with_def json_field_def)
  from test_requests(5) [OF this] g have "json_request P rej ''POST'' ''/witness/v1/gossip'' []
      (JObj [(''peer_sth'', sth_dto_json (sth_to_dto P h))]) st1 = Some (409, by_key (JObj [(''status'', JStr ''equivocation''),
        (''reason'', JStr ''forked_root''), (''our_sth'', sth_dto_json (sth_to_dto P ours)),
        (''peer_sth'', sth_dto_json (sth_to_dto P h))]), st3)"
    by simp
  then show ?thesis
    using forked h(1)
    by (simp add: test_gossip_detects_a_forked_root_def 0 [simplified] 1(1) [simplified] forked_receipt_def)
qed

lemma checkpoint_session:
  assumes apart: "log_service_apart P"
  shows "test_checkpoint_is_a_verifiable_note P rej = Some ()"
proof -
  let ?r = "tagged_receipt 1 (log_root_of P [])"
  from apart have codec: "b64url_ok P" "base64_ok P" and good: "ed_good P (fill 7)"
    and roots: "log_root_of P [] \<noteq> log_root_of P [?r]" "log_root_of P [forked_receipt] \<noteq> log_root_of P [?r]"
    by (auto simp: log_service_apart_def Let_def)
  from one_entry [OF apart, of rej] obtain st st1 resp where
    0: "current_root P rej (test_state P) = Some (log_root_of P [], st)"
    and 1: "json_request P rej ''POST'' entries [] (receipt_json P 1 (log_root_of P [])) st = Some (201, submit_response_json resp, st1)"
      "serving_log P st1 [?r]" and log: "ws_log P st1 [?r]" by blast
  have org: "origin_ok default_origin" "name_ok default_origin"
    by (simp_all add: origin_ok_def name_ok_def default_origin_def nl_def strip_cr_def cr_def starts_with_def
        strip_prefix_str_def sig_marker_def)
  have "ws_signer st1 = ed25519_from_seed P (fill 7)" using 1(2) by (simp add: serving_log_def)
  from get_checkpoint_verifies [OF log this good codec(2) org] obtain n st4 where
    n: "get_checkpoint P st1 (Some default_origin) = Some (n, st4)" "verify_checkpoint P n default_origin (ws_key st1) =
      Some \<lparr>cp_origin = default_origin, cp_size = 1, cp_root = log_root_of P [?r]\<rparr>" by (auto simp: usize_bound_def)
  then have served: "get_checkpoint P st1 None = Some (n, st4)" by (simp add: get_checkpoint_def)
  from get_checkpoint_ok [OF log, of None] served have log4: "ws_log P st4 [?r]" by auto
  have key: "ws_key st4 = ws_key st1" using served by (auto simp: get_checkpoint_def Let_def split: option.splits)
  from log4 witness_root_ok [of P "ws_witness st4"] obtain w4 where
    "witness_root P (ws_witness st4) = Some (log_root_of P [?r], w4)" "leaf_hashes w4 = receipt_leaves P [?r]"
    by (auto simp: ws_log_def)
  with n(2) key served show ?thesis
    by (simp add: test_checkpoint_is_a_verifiable_note_def 0 [simplified] 1(1) [simplified] test_requests(6)
        default_origin_def)
qed

lemma keys_session: "test_well_known_keys_are_served P rej = Some ()"
  by (simp add: test_well_known_keys_are_served_def test_requests(2) keys_dto_json_def get_keys_def list_json_def)

lemma submit_chained_ok:
  assumes codec: "b64url_ok P"
  shows "serving_log P st rs \<Longrightarrow> length rs + length is < 2 ^ 63 \<Longrightarrow>
    \<exists>xs st1. submit_chained P rej is (log_root_of P rs) st = Some (log_root_of P (rs @ xs), st1) \<and>
      serving_log P st1 (rs @ xs) \<and> length xs = length is"
proof (induction "is" arbitrary: st rs)
  case Nil
  then show ?case by (intro exI [of _ "[]"]) simp
next
  case (Cons i rest)
  let ?r = "tagged_receipt i (log_root_of P rs)"
  from entry_submitted [OF Cons.prems(1) codec _ refl, of rej i] Cons.prems(2) obtain resp st1 where
    1: "json_request P rej ''POST'' entries [] (receipt_json P i (log_root_of P rs)) st = Some (201, submit_response_json resp, st1)"
      "serving_log P st1 (rs @ [?r])" "acknowledges P (ws_key st) rs ?r resp" by auto
  from 1(3) obtain sth where sth: "sr_sth resp = sth_to_dto P sth" "head_of P (receipt_leaves P (rs @ [?r])) sth"
    by (auto simp: acknowledges_def)
  have "sth_dto_of_json (sth_dto_json (sth_to_dto P sth)) = Some (sth_to_dto P sth)"
    by (rule sth_dto_form.dec_enc) (use sth(2) Cons.prems(2) in \<open>simp add: sth_to_dto_def head_of_def\<close>)
  moreover from Cons.IH [OF 1(2)] Cons.prems(2) obtain xs st2 where
    "submit_chained P rej rest (log_root_of P (rs @ [?r])) st1 = Some (log_root_of P ((rs @ [?r]) @ xs), st2)"
    "serving_log P st2 ((rs @ [?r]) @ xs)" "length xs = length rest" by auto
  ultimately show ?case
    using 1(1) sth codec
    by (intro exI [of _ "?r # xs"] exI [of _ st2])
      (simp add: submit_response_json_def sth_to_dto_def head_of_def)
qed

lemma those_some: "those (map (\<lambda>x. Some (f x)) xs) = Some (map f xs)"
  by (induction xs) simp_all

lemma consistency_session:
  assumes apart: "log_service_apart P"
  shows "test_consistency_tracks_appends P rej = Some ()"
proof -
  from apart have codec: "b64url_ok P" and good: "ed_good P (fill 7)" by (simp_all add: log_service_apart_def)
  from current_root_ok [OF serving_log_new [OF good] codec, of rej] obtain st where
    0: "current_root P rej (test_state P) = Some (log_root_of P [], st)" "serving_log P st []" by blast
  from submit_chained_ok [OF codec 0(2), of "[0, 1, 2]" rej] obtain rs st1 where
    1: "submit_chained P rej [0, 1, 2] (log_root_of P []) st = Some (log_root_of P rs, st1)" "serving_log P st1 rs" "length rs = 3"
    by auto
  then have w: "witness_ok P (ws_witness st1)" "leaf_hashes (ws_witness st1) = receipt_leaves P rs"
    by (simp_all add: serving_log_def ws_log_def)
  let ?p = "\<lparr>nodes = naive_subproof P 1 (receipt_leaves P rs) True\<rparr>"
  from prove_consistency_ok [OF w(1), of 1 3] 1(3) obtain w' where
    "prove_consistency P (ws_witness st1) 1 3 = Some (Some ?p, w')" by (auto simp: w(2))
  then have "get_consistency P st1 1 3 = Some (Inr (consistency_to_dto P ?p), st1\<lparr>ws_witness := w'\<rparr>)"
    by (simp add: get_consistency_def)
  moreover have "naive_subproof P 1 (receipt_leaves P rs) True \<noteq> []"
    using naive_subproof_split [of "receipt_leaves P rs" 1 P True] 1(3) by simp
  moreover have "log_root_of P [] = empty_root P" by simp
  ultimately show ?thesis
    using 0(1) 1(1) test_requests(4) [of P rej JNull st1]
    by (simp add: test_consistency_tracks_appends_def consistency_dto_json_def consistency_to_dto_def list_json_def
        those_some comp_def del: submit_chained.simps)
qed

lemma log_sessions_pass:
  assumes "log_service_apart P"
  shows "map (\<lambda>test. test P rej) log_session_tests = replicate 6 (Some ())"
  by (simp add: log_session_tests_def first_session [OF assms] stale_session [OF assms] consistency_session [OF assms]
      gossip_session [OF assms] keys_session checkpoint_session [OF assms] numeral_eq_Suc)

section \<open>The restarts pass\<close>

fun chained_receipts :: "prims \<Rightarrow> action_receipt list \<Rightarrow> u8 list \<Rightarrow> action_receipt list" where
  "chained_receipts P rs [] = rs"
| "chained_receipts P rs (i # is) = chained_receipts P
     (rs @ [\<lparr>chain_digest_of = fill i, action_digest = fill i, nonce = fill i, prev_root = log_root_of P rs\<rparr>]) is"

text \<open>
  What the restarts rely on: receipts whose text reads back as they were.
\<close>

definition restarts_apart :: "prims \<Rightarrow> bool" where
  "restarts_apart P \<longleftrightarrow>
     list_all (storable P) (chained_receipts P [] [0, 1, 2]) \<and> list_all (storable P) (chained_receipts P [] [0, 1, 9])"

lemma chained_receipts_append: "chained_receipts P rs (is @ js) = chained_receipts P (chained_receipts P rs is) js"
  by (induction "is" arbitrary: rs) simp_all

lemma chained_receipts_grow: "set rs \<subseteq> set (chained_receipts P rs is)"
  by (induction P rs "is" rule: chained_receipts.induct) auto

text \<open>A log in memory and its file.\<close>

definition recorded :: "prims \<Rightarrow> witness \<Rightarrow> action_receipt list \<Rightarrow> bool" where
  "recorded P w rs \<longleftrightarrow> witness_ok P w \<and> leaf_hashes w = receipt_leaves P rs"

lemma recorded_root: "recorded P w rs \<Longrightarrow> \<exists>w'. witness_root P w = Some (log_root_of P rs, w') \<and> recorded P w' rs"
  using witness_root_ok [of P w] by (auto simp: recorded_def)

lemma recorded_length: "recorded P w rs \<Longrightarrow> length (leaf_hashes w) = length rs"
  by (simp add: recorded_def)

lemma append_chained_ok:
  "recorded P w rs \<Longrightarrow> prev = log_root_of P rs \<Longrightarrow> \<forall>r \<in> set (chained_receipts P rs is). storable P r \<Longrightarrow>
     \<exists>w'. append_chained P is prev (frames P rs) w = Some (frames P (chained_receipts P rs is), w') \<and>
       recorded P w' (chained_receipts P rs is)"
proof (induction P rs "is" arbitrary: w prev rule: chained_receipts.induct)
  case (2 P rs i "is")
  let ?r = "\<lparr>chain_digest_of = fill i, action_digest = fill i, nonce = fill i, prev_root = log_root_of P rs\<rparr>"
  obtain k w1 where w1: "witness_append P w ?r = (k, w1)" by fastforce
  from witness_append_ok [OF _ this] 2(2) have rec1: "recorded P w1 (rs @ [?r])" by (simp add: recorded_def)
  from recorded_root [OF this] obtain w2 where
    w2: "witness_root P w1 = Some (log_root_of P (rs @ [?r]), w2)" "recorded P w2 (rs @ [?r])" by blast
  have "storable P ?r" using 2(4) chained_receipts_grow [of "rs @ [?r]" P "is"] by auto
  then have st: "store_append P (frames P rs) ?r Written = (Inr (), frames P (rs @ [?r]))"
    by (simp add: store_append_def storable_def)
  from 2(1) [OF w2(2) refl] 2(4) obtain w' where
    "append_chained P is (log_root_of P (rs @ [?r])) (frames P (rs @ [?r])) w2 =
       Some (frames P (chained_receipts P (rs @ [?r]) is), w')" "recorded P w' (chained_receipts P (rs @ [?r]) is)" by auto
  with st w1 w2(1) 2(3) show ?case by (simp del: map_append frames_simps)
qed simp

lemma fresh_file: "store_open P FileMissing None None w = Inr ([], w)"
  using replay_torn [OF torn_nil, of P "[]" w] by (simp add: store_open_def)

lemma seed_log_ok:
  assumes "\<forall>r \<in> set (chained_receipts P [] is). storable P r"
  shows "seed_log P seed is = Some (frames P (chained_receipts P [] is), log_root_of P (chained_receipts P [] is),
    length (chained_receipts P [] is))"
proof -
  have rec: "recorded P witness_new []" by (simp add: recorded_def)
  from recorded_root [OF rec] obtain w where
    w: "witness_root P witness_new = Some (log_root_of P [], w)" "recorded P w []" by blast
  from append_chained_ok [OF w(2) refl assms] obtain w1 where
    w1: "append_chained P is (log_root_of P []) [] w = Some (frames P (chained_receipts P [] is), w1)"
      "recorded P w1 (chained_receipts P [] is)" by auto
  from recorded_root [OF w1(2)] obtain w2 where
    "witness_root P w1 = Some (log_root_of P (chained_receipts P [] is), w2)" "recorded P w2 (chained_receipts P [] is)" by blast
  with w(1) w1(1) show ?thesis
    by (simp add: seed_log_def witness_service_persistent_def fresh_file recorded_length)
qed

lemma reopen_ok:
  assumes "\<forall>r \<in> set rs. storable P r" and "torn t"
  shows "\<exists>w. reopen P seed (frames P rs @ t) = Some (frames P rs, w) \<and> recorded P w rs"
  using store_open_frames [OF assms, of witness_new] appended_ok [of P witness_new rs]
  by (simp add: reopen_def witness_service_persistent_def recorded_def)

lemma torn_tails: "torn (u32_le_bytes 100 @ [1, 2, 3])" "torn [0xAB, 0xCD]"
  by (simp_all add: torn_def)

lemma restart_receipts:
  assumes "restarts_apart P"
  shows "\<forall>r \<in> set (chained_receipts P [] [0, 1, 2]). storable P r" "\<forall>r \<in> set (chained_receipts P [] [0, 1, 9]). storable P r"
    "\<forall>r \<in> set (chained_receipts P [] [0, 1]). storable P r" "\<forall>r \<in> set (chained_receipts P [] [0]). storable P r"
  using assms by (simp_all add: restarts_apart_def)

lemma survives_restart:
  assumes "restarts_apart P"
  shows "test_persisted_log_survives_restart P = Some ()"
proof -
  let ?rs = "chained_receipts P [] [0, 1, 2]"
  from reopen_ok [OF restart_receipts(1) [OF assms] torn_nil, of "fill 7"] obtain w2 where
    w2: "reopen P (fill 7) (frames P ?rs) = Some (frames P ?rs, w2)" "recorded P w2 ?rs" by auto
  from recorded_root [OF w2(2)] obtain w3 where "witness_root P w2 = Some (log_root_of P ?rs, w3)" by blast
  with w2(1) recorded_length [OF w2(2)] show ?thesis
    by (simp add: test_persisted_log_survives_restart_def seed_log_ok [OF restart_receipts(1) [OF assms]]
        witness_service_persistent_def fresh_file del: chained_receipts.simps)
qed

lemma torn_frame_recovered:
  assumes "restarts_apart P"
  shows "test_torn_trailing_frame_is_recovered P = Some ()"
proof -
  let ?rs = "chained_receipts P [] [0, 1]" and ?rs9 = "chained_receipts P [] [0, 1, 9]"
  from reopen_ok [OF restart_receipts(3) [OF assms] torn_tails(1), of "fill 8"] obtain w where
    w: "reopen P (fill 8) (frames P ?rs @ u32_le_bytes 100 @ [1, 2, 3]) = Some (frames P ?rs, w)" "recorded P w ?rs" by blast
  from recorded_root [OF w(2)] obtain w1 where w1: "witness_root P w = Some (log_root_of P ?rs, w1)" "recorded P w1 ?rs" by blast
  from recorded_root [OF w1(2)] obtain w2 where w2: "witness_root P w1 = Some (log_root_of P ?rs, w2)" "recorded P w2 ?rs" by blast
  have grown: "chained_receipts P ?rs [9] = ?rs9" by simp
  from append_chained_ok [OF w2(2) refl, of "[9]"] restart_receipts(2) [OF assms] obtain w3 where
    w3: "append_chained P [9] (log_root_of P ?rs) (frames P ?rs) w2 = Some (frames P ?rs9, w3)" "recorded P w3 ?rs9"
    unfolding grown by blast
  from recorded_root [OF w3(2)] obtain w4 where w4: "witness_root P w3 = Some (log_root_of P ?rs9, w4)" "recorded P w4 ?rs9" by blast
  from reopen_ok [OF restart_receipts(2) [OF assms] torn_nil, of "fill 8"] obtain w5 where
    w5: "reopen P (fill 8) (frames P ?rs9) = Some (frames P ?rs9, w5)" "recorded P w5 ?rs9" by auto
  from recorded_root [OF w5(2)] obtain w6 where "witness_root P w5 = Some (log_root_of P ?rs9, w6)" "recorded P w6 ?rs9" by blast
  with w(1) w1(1) w2(1) w3(1) w4 w5(1) recorded_length [OF w(2)] show ?thesis
    by (simp add: test_torn_trailing_frame_is_recovered_def seed_log_ok [OF restart_receipts(3) [OF assms]] recorded_length
        del: chained_receipts.simps append_chained.simps)
qed

lemma partial_length_recovered:
  assumes "restarts_apart P"
  shows "test_partial_length_prefix_is_recovered P = Some ()"
proof -
  let ?rs = "chained_receipts P [] [0]"
  from reopen_ok [OF restart_receipts(4) [OF assms] torn_tails(2), of "fill 8"] obtain w where
    w: "reopen P (fill 8) (frames P ?rs @ [0xAB, 0xCD]) = Some (frames P ?rs, w)" "recorded P w ?rs" by blast
  from recorded_root [OF w(2)] obtain w1 where "witness_root P w = Some (log_root_of P ?rs, w1)" by blast
  with w(1) recorded_length [OF w(2)] show ?thesis
    by (simp add: test_partial_length_prefix_is_recovered_def seed_log_ok [OF restart_receipts(4) [OF assms]]
        del: chained_receipts.simps)
qed

lemma restart_tests_pass:
  assumes "restarts_apart P"
  shows "map (\<lambda>test. test P) restart_tests = replicate 3 (Some ())"
  by (simp add: restart_tests_def survives_restart [OF assms] torn_frame_recovered [OF assms]
      partial_length_recovered [OF assms] numeral_eq_Suc)

end
