(* ===== verification/Demo_Sessions.thy ===== *)
theory Demo_Sessions
  imports Demo_Tests Demo_Services Log_Service_Tests
begin

text \<open>
  The instances for the witnesses of the tests of the chain, of revocation and of the log's
  service. The last one reads back the texts of the receipts the tests append.
\<close>

section \<open>Chains and revocation\<close>

lemma demo_chain_keys: "chain_keys demo"
  by (simp add: chain_keys_def fill_demo demo_ed_good)

lemma demo_tags_apart: "tags_apart demo"
proof -
  have "array_bytes (demo_hash (revocation_id_domain @ sig_bytes (tag_sig t))) ! 1 = t" for t
    by (simp add: demo_hash_def tag_sig_def revocation_id_domain_def array_bytes_mk numeral_eq_Suc)
  then have "collision_free demo ((\<lambda>t. revocation_id_domain @ sig_bytes (tag_sig t)) ` T)" for T
    by (auto simp: collision_free_def inj_on_def) metis+
  from this [of "{0, 1, 2, 3, 5, 7, 8, 9}"] show ?thesis
    by (simp add: tags_apart_def fill_demo demo_ed_good demo_check_def demo_sign_def)
qed

section \<open>The log's service\<close>

text \<open>The log the restarts build has at most two receipts when one is appended.\<close>

fun session_parse :: "u8 list \<Rightarrow> json option" where
  "session_parse [a, b, c, d, e, f] =
     Some (action_receipt_json
       \<lparr>chain_digest_of = fill c, action_digest = fill d, nonce = fill e,
        prev_root = log_root_of demo (chained_receipts demo [] (if d = 0 then [] else if d = 1 then [0] else [0, 1]))\<rparr>)"
| "session_parse _ = None"

definition demo_session :: prims where
  "demo_session = demo_text\<lparr>ed_check := (\<lambda>key m s. s = demo_sign key m), json_parse := session_parse\<rparr>"

lemma demo_session_simps [simp]:
  "blake3 demo_session = demo_hash" "jcs demo_session = demo_jcs" "json_parse demo_session = session_parse"
  "ed_key_ok demo_session k" "ed_public demo_session = array_bytes"
  "ed_raw_sign demo_session seed = demo_sign (array_bytes seed)"
  "ed_check demo_session key m s \<longleftrightarrow> s = demo_sign key m"
  by (simp_all add: demo_session_def)

lemma session_codecs: "b64url_ok demo_session" "base64_ok demo_session"
  using demo_b64url demo_base64 by (simp_all add: demo_session_def b64url_ok_def base64_ok_def)

lemma session_roots: "hash_leaf demo_session = hash_leaf demo" "canonical_bytes demo_session = canonical_bytes demo"
  "naive_root demo_session hs = naive_root demo hs"
proof -
  show "hash_leaf demo_session = hash_leaf demo" "canonical_bytes demo_session = canonical_bytes demo"
    by (auto simp: fun_eq_iff hash_leaf_def canonical_bytes_def)
  show "naive_root demo_session hs = naive_root demo hs"
  proof (induction demo hs rule: naive_root.induct)
    case (1 hs)
    then show ?case
      by (subst (1 2) naive_root.simps) (simp add: Let_def empty_root_def hash_leaf_def hash_node_def)
  qed
qed

lemma session_receipts: "chained_receipts demo_session rs is = chained_receipts demo rs is"
  by (induction "is" arbitrary: rs) (simp_all add: session_roots)

lemma session_canonical:
  "canonical_bytes demo \<lparr>chain_digest_of = fill a, action_digest = fill b, nonce = fill c, prev_root = d\<rparr> =
     [1, 4, a, b, c, hd (array_bytes d)]"
  by (cases "array_bytes d")
    (simp_all add: canonical_bytes_def action_receipt_json_def array_json_def bytes_json_def fill_demo numeral_eq_Suc)

lemma session_first:
  "log_root_of demo [] = fill 0"
  "log_root_of demo_session [tagged_receipt 1 (log_root_of demo_session [])] = mk_bytes32 [0, 1, 4, 1, 1, 1, 0]"
  "log_root_of demo_session [forked_receipt] = mk_bytes32 [0, 1, 4, 9, 9, 9, 0]"
proof -
  show empty: "log_root_of demo [] = fill 0"
    by (simp add: empty_root_def hash_leaf_def leaf_prefix_def demo_hash_def fill_demo flip: array_bytes_eq_iff)
      (simp add: array_bytes_mk flip: replicate_Suc)
  then have root: "log_root_of demo_session [] = fill 0" by (simp only: session_roots list.map)
  then show "log_root_of demo_session [tagged_receipt 1 (log_root_of demo_session [])] = mk_bytes32 [0, 1, 4, 1, 1, 1, 0]"
    unfolding root by (simp add: session_roots session_canonical hash_leaf_def leaf_prefix_def demo_hash_def) (simp add: fill_demo)
  show "log_root_of demo_session [forked_receipt] = mk_bytes32 [0, 1, 4, 9, 9, 9, 0]"
    by (simp add: forked_receipt_def session_roots session_canonical hash_leaf_def leaf_prefix_def demo_hash_def)
      (simp add: fill_demo)
qed

lemma session_apart: "log_service_apart demo_session"
proof -
  have "ed_good demo_session (fill 7)" by (simp add: ed_good_def fill_demo demo_sign_def)
  moreover have "log_root_of demo_session [] = fill 0" using session_first(1) by (simp only: session_roots list.map)
  moreover have "array_bytes (mk_bytes32 [0, 1, 4, 1, 1, 1, 0]) ! 2 \<noteq> array_bytes (fill 0) ! 2"
    "array_bytes (mk_bytes32 [0, 1, 4, 1, 1, 1, 0]) ! 3 \<noteq> array_bytes (mk_bytes32 [0, 1, 4, 9, 9, 9, 0]) ! 3"
    by (simp_all add: fill_def array_bytes_mk)
  ultimately show ?thesis
    unfolding log_service_apart_def Let_def session_first(2,3) using session_codecs by auto
qed

lemma session_storable:
  assumes "d = log_root_of demo (chained_receipts demo [] (if b = 0 then [] else if b = 1 then [0] else [0, 1]))"
  shows "storable demo_session \<lparr>chain_digest_of = fill a, action_digest = fill b, nonce = fill c, prev_root = d\<rparr>"
  by (simp add: storable_def session_roots session_canonical receipt_of_bytes_def assms)

lemma session_restarts: "restarts_apart demo_session"
  unfolding restarts_apart_def session_receipts
  by (simp add: session_storable)

end
