(* ===== verification/Log_Tests.thy ===== *)
theory Log_Tests
  imports Verifier_Tests
begin

text \<open>
  The tests of \<^verbatim>\<open>core/witness\<close>: its module \<^verbatim>\<open>tests\<close>, which compares the memoised log with the
  plain recursion over every small size, and its property tests, whose sampled inputs are
  arguments here. \<open>None\<close> is a failed assertion or a panic.
\<close>

section \<open>Loops\<close>

text \<open>A \<^verbatim>\<open>for\<close> loop over a state, left at the first failure.\<close>

primrec for_each :: "('a \<Rightarrow> 's \<Rightarrow> 's option) \<Rightarrow> 'a list \<Rightarrow> 's \<Rightarrow> 's option" where
  "for_each f [] s = Some s"
| "for_each f (x # xs) s = Option.bind (f x s) (for_each f xs)"

lemma for_each_ok:
  assumes "I 0 s" and "\<And>k s. k < length xs \<Longrightarrow> I k s \<Longrightarrow> \<exists>s'. f (xs ! k) s = Some s' \<and> I (Suc k) s'"
  shows "\<exists>s'. for_each f xs s = Some s' \<and> I (length xs) s'"
  using assms
proof (induction xs arbitrary: s I)
  case (Cons x xs)
  from Cons.prems(2) [of 0 s] Cons.prems(1) obtain s1 where s1: "f x s = Some s1" "I (Suc 0) s1" by auto
  have "\<exists>s'. for_each f xs s1 = Some s' \<and> I (Suc (length xs)) s'"
    by (rule Cons.IH [of "\<lambda>k. I (Suc k)"]) (use s1(2) Cons.prems(2) [of "Suc k" for k] in auto)
  with s1(1) show ?case by simp
qed simp

lemma for_upt_ok:
  assumes "I a s" and "a \<le> b" and "\<And>n s. a \<le> n \<Longrightarrow> n < b \<Longrightarrow> I n s \<Longrightarrow> \<exists>s'. f n s = Some s' \<and> I (Suc n) s'"
  shows "\<exists>s'. for_each f [a..<b] s = Some s' \<and> I b s'"
  using for_each_ok [of "\<lambda>k. I (a + k)" s "[a..<b]" f] assms by simp

section \<open>Receipts\<close>

definition small_receipt :: "u8 \<Rightarrow> action_receipt" where
  "small_receipt a = \<lparr>chain_digest_of = fill 1, action_digest = fill a, nonce = fill a, prev_root = fill 0\<rparr>"

text \<open>A distinct receipt for each number: its little-endian bytes, then zeros.\<close>

definition receipt_n :: "nat \<Rightarrow> action_receipt" where
  "receipt_n i =
     (let d = mk_bytes32 (rev (u64_be_bytes (of_nat i)))
      in \<lparr>chain_digest_of = fill 1, action_digest = d, nonce = d, prev_root = fill 0\<rparr>)"

definition leaf_of :: "prims \<Rightarrow> action_receipt \<Rightarrow> digest" where
  "leaf_of P r = hash_leaf P (canonical_bytes P r)"

section \<open>The memo against the plain recursion\<close>

text \<open>The rounds of the loops.\<close>

definition record_leaf :: "prims \<Rightarrow> nat \<Rightarrow> witness \<times> digest list \<Rightarrow> witness \<times> digest list" where
  "record_leaf P i = (\<lambda>(w, hashes).
     let r = receipt_n i
     in (snd (witness_append P w r), hashes @ [hash_leaf P (canonical_bytes P r)]))"

definition root_round :: "prims \<Rightarrow> nat \<Rightarrow> witness \<times> digest list \<Rightarrow> (witness \<times> digest list) option" where
  "root_round P n = (\<lambda>(w, hashes). do {
     (root, w) \<leftarrow> witness_root P w;
     asserts (root = naive_root P hashes);
     Some (record_leaf P n (w, hashes))})"

definition path_round :: "prims \<Rightarrow> digest list \<Rightarrow> nat \<Rightarrow> witness \<Rightarrow> witness option" where
  "path_round P hashes i w = do {
     (pf, w) \<leftarrow> prove_inclusion P w i;
     pf \<leftarrow> pf;
     asserts (path pf = naive_path P hashes i);
     Some w}"

definition paths_round :: "prims \<Rightarrow> nat \<Rightarrow> witness \<times> digest list \<Rightarrow> (witness \<times> digest list) option" where
  "paths_round P n s = do {
     let (w, hashes) = record_leaf P (n - 1) s;
     w \<leftarrow> for_each (path_round P hashes) [0..<n] w;
     Some (w, hashes)}"

definition subproof_round :: "prims \<Rightarrow> digest list \<Rightarrow> nat \<Rightarrow> nat \<Rightarrow> witness \<Rightarrow> witness option" where
  "subproof_round P hashes new old w = do {
     (pf, w) \<leftarrow> prove_consistency P w old new;
     pf \<leftarrow> pf;
     let want = (if old \<noteq> 0 \<and> old \<noteq> new then naive_subproof P old (take new hashes) True else []);
     asserts (nodes pf = want);
     Some w}"

definition subproofs_round :: "prims \<Rightarrow> nat \<Rightarrow> witness \<times> digest list \<Rightarrow> (witness \<times> digest list) option" where
  "subproofs_round P new = (\<lambda>(w, hashes). do {
     w \<leftarrow> for_each (subproof_round P hashes new) [0..<new + 1] w;
     Some (record_leaf P new (w, hashes))})"

definition test_cached_root_matches_naive :: "prims \<Rightarrow> unit option" where
  "test_cached_root_matches_naive P =
     map_option (\<lambda>_. ()) (for_each (root_round P) [0..<301] (witness_new, []))"

definition test_cached_paths_match_naive :: "prims \<Rightarrow> unit option" where
  "test_cached_paths_match_naive P =
     map_option (\<lambda>_. ()) (for_each (paths_round P) [1..<201] (witness_new, []))"

definition test_cached_consistency_matches_naive :: "prims \<Rightarrow> unit option" where
  "test_cached_consistency_matches_naive P =
     map_option (\<lambda>_. ()) (for_each (subproofs_round P) [0..<151] (witness_new, []))"

section \<open>Inclusion and consistency\<close>

text \<open>A new log with some receipts.\<close>

definition log_with :: "prims \<Rightarrow> action_receipt list \<Rightarrow> witness" where
  "log_with P rs = foldl (\<lambda>w r. snd (witness_append P w r)) witness_new rs"

definition leaf_round :: "prims \<Rightarrow> digest \<Rightarrow> nat \<times> action_receipt \<Rightarrow> witness \<Rightarrow> witness option" where
  "leaf_round P root = (\<lambda>(i, r) w. do {
     (pf, w) \<leftarrow> prove_inclusion P w i;
     pf \<leftarrow> pf;
     asserts (verify_inclusion P r pf root);
     Some w})"

definition every_leaf :: "prims \<Rightarrow> action_receipt list \<Rightarrow> unit option" where
  "every_leaf P receipts = do {
     (root, w) \<leftarrow> witness_root P (log_with P receipts);
     map_option (\<lambda>_. ()) (for_each (leaf_round P root) (enumerate 0 receipts) w)}"

definition test_proof_verifies_for_every_leaf :: "prims \<Rightarrow> unit option" where
  "test_proof_verifies_for_every_leaf P =
     for_each (\<lambda>n _. every_leaf P (map (\<lambda>i. small_receipt (of_nat i)) [0..<n])) [1..<10] ()"

definition test_omitted_has_no_proof :: "prims \<Rightarrow> unit option" where
  "test_omitted_has_no_proof P = do {
     (root, w) \<leftarrow> witness_root P (log_with P [small_receipt 1, small_receipt 2]);
     let never_recorded = small_receipt 99;
     (pf, w) \<leftarrow> prove_inclusion P w 0;
     borrowed \<leftarrow> pf;
     asserts (\<not> verify_inclusion P never_recorded borrowed root)}"

definition test_wrong_root_is_rejected :: "prims \<Rightarrow> unit option" where
  "test_wrong_root_is_rejected P = do {
     (pf, w) \<leftarrow> prove_inclusion P (log_with P [small_receipt 1]) 0;
     pf \<leftarrow> pf;
     asserts (\<not> verify_inclusion P (small_receipt 1) pf (fill 7))}"

definition test_appending_changes_the_root :: "prims \<Rightarrow> unit option" where
  "test_appending_changes_the_root P = do {
     (before, w) \<leftarrow> witness_root P witness_new;
     let (_, w) = witness_append P w (small_receipt 1);
     (after, w) \<leftarrow> witness_root P w;
     asserts (before \<noteq> after)}"

definition test_oversized_proof_is_rejected :: "prims \<Rightarrow> unit option" where
  "test_oversized_proof_is_rejected P = do {
     (root, w) \<leftarrow> witness_root P (log_with P [small_receipt 1]);
     (pf, w) \<leftarrow> prove_inclusion P w 0;
     good \<leftarrow> pf;
     asserts (verify_inclusion P (small_receipt 1) good root);
     let huge = good\<lparr>path := replicate (max_proof_path + 1) \<lparr>sibling = fill 0, sibling_is_left = False\<rparr>\<rparr>;
     asserts (\<not> verify_inclusion P (small_receipt 1) huge root);
     let oob = good\<lparr>leaf_index := 99, tree_size := 1\<rparr>;
     asserts (\<not> verify_inclusion P (small_receipt 1) oob root)}"

text \<open>The inner loop: the log of \<^verbatim>\<open>n\<close> receipts and its root at each size.\<close>

definition grow_round ::
  "prims \<Rightarrow> (nat \<Rightarrow> action_receipt) \<Rightarrow> nat \<Rightarrow> witness \<times> digest list \<Rightarrow> (witness \<times> digest list) option" where
  "grow_round P receipt i = (\<lambda>(w, roots). do {
     let (_, w) = witness_append P w (receipt i);
     (r, w) \<leftarrow> witness_root P w;
     Some (w, roots @ [r])})"

definition roots_while_growing ::
  "prims \<Rightarrow> (nat \<Rightarrow> action_receipt) \<Rightarrow> nat \<Rightarrow> (witness \<times> digest list) option" where
  "roots_while_growing P receipt n = do {
     (r0, w) \<leftarrow> witness_root P witness_new;
     for_each (grow_round P receipt) [0..<n] (w, [r0])}"

definition prefix_round :: "prims \<Rightarrow> digest list \<Rightarrow> nat \<Rightarrow> nat \<Rightarrow> witness \<Rightarrow> witness option" where
  "prefix_round P roots n m w = do {
     (pf, w) \<leftarrow> prove_consistency P w m n;
     pf \<leftarrow> pf;
     asserts (verify_consistency P (roots ! m) (roots ! n) pf m n);
     Some w}"

definition every_prefix :: "prims \<Rightarrow> nat \<Rightarrow> unit option" where
  "every_prefix P n = do {
     (w, roots) \<leftarrow> roots_while_growing P (\<lambda>i. small_receipt (of_nat i)) n;
     map_option (\<lambda>_. ()) (for_each (prefix_round P roots n) [0..<n + 1] w)}"

definition test_consistency_for_all_prefix_pairs :: "prims \<Rightarrow> unit option" where
  "test_consistency_for_all_prefix_pairs P = for_each (\<lambda>n _. every_prefix P n) [1..<11] ()"

definition test_rewritten_history_fails :: "prims \<Rightarrow> unit option" where
  "test_rewritten_history_fails P = do {
     (old_root, honest) \<leftarrow> witness_root P (log_with P [small_receipt 0, small_receipt 1, small_receipt 2]);
     let (_, honest) = witness_append P honest (small_receipt 9);
     (new_root, honest) \<leftarrow> witness_root P honest;
     (pf, honest) \<leftarrow> prove_consistency P honest 3 4;
     pf \<leftarrow> pf;
     asserts (verify_consistency P old_root new_root pf 3 4);
     (forked_root, forked) \<leftarrow> witness_root P
       (log_with P [small_receipt 200, small_receipt 1, small_receipt 2, small_receipt 9]);
     (forked_pf, forked) \<leftarrow> prove_consistency P forked 3 4;
     forked_pf \<leftarrow> forked_pf;
     asserts (\<not> verify_consistency P old_root forked_root forked_pf 3 4)}"

definition test_consistency_edge_cases :: "prims \<Rightarrow> unit option" where
  "test_consistency_edge_cases P = do {
     (root, w) \<leftarrow> witness_root P (log_with P (map small_receipt [0, 1, 2, 3]));
     (p, w) \<leftarrow> prove_consistency P w 4 4;
     p \<leftarrow> p;
     asserts (verify_consistency P root root p 4 4);
     asserts (\<not> verify_consistency P root (fill 7) p 4 4);
     (p0, w) \<leftarrow> prove_consistency P w 0 4;
     p0 \<leftarrow> p0;
     asserts (verify_consistency P (fill 0) root p0 0 4);
     asserts (\<not> verify_consistency P (fill 0) root \<lparr>nodes = [fill 1]\<rparr> 0 4);
     (out_of_range, w) \<leftarrow> prove_consistency P w 2 5;
     asserts (out_of_range = None)}"

section \<open>Gossip\<close>

definition test_honest_heads_reconcile :: "prims \<Rightarrow> unit option" where
  "test_honest_heads_reconcile P = do {
     let log = ed25519_from_seed P (fill 77);
     (head_2, w) \<leftarrow> signed_head P (log_with P [small_receipt 1, small_receipt 2]) log;
     let (_, w) = witness_append P w (small_receipt 3);
     let (_, w) = witness_append P w (small_receipt 4);
     (head_4, w) \<leftarrow> signed_head P w log;
     asserts (verify_signed_head P head_2 (sg_public_key log));
     (pf, w) \<leftarrow> prove_consistency P w 2 4;
     pf \<leftarrow> pf;
     asserts (is_ok (reconcile_heads P head_2 head_4 (sg_public_key log) (Some pf)))}"

definition test_forked_root_is_equivocation :: "prims \<Rightarrow> unit option" where
  "test_forked_root_is_equivocation P = do {
     let log = ed25519_from_seed P (fill 77);
     (head_a, a) \<leftarrow> signed_head P (log_with P [small_receipt 1, small_receipt 2]) log;
     (head_b, b) \<leftarrow> signed_head P (log_with P [small_receipt 1, small_receipt 99]) log;
     asserts (reconcile_heads P head_a head_b (sg_public_key log) None = Inl (ForkedRoot 2))}"

definition test_head_from_wrong_key_is_rejected :: "prims \<Rightarrow> unit option" where
  "test_head_from_wrong_key_is_rejected P = do {
     let log = ed25519_from_seed P (fill 77);
     let impostor = ed25519_from_seed P (fill 13);
     (head1, w) \<leftarrow> signed_head P (log_with P [small_receipt 1]) log;
     asserts (\<not> verify_signed_head P head1 (sg_public_key impostor));
     let (_, w) = witness_append P w (small_receipt 2);
     (head2, w) \<leftarrow> signed_head P w log;
     asserts (reconcile_heads P head1 head2 (sg_public_key impostor) None = Inl InvalidSignedHead)}"

definition log_tests :: "(prims \<Rightarrow> unit option) list" where
  "log_tests =
     [test_cached_root_matches_naive, test_cached_paths_match_naive, test_cached_consistency_matches_naive,
      test_proof_verifies_for_every_leaf, test_omitted_has_no_proof, test_wrong_root_is_rejected,
      test_appending_changes_the_root, test_oversized_proof_is_rejected, test_consistency_for_all_prefix_pairs,
      test_rewritten_history_fails, test_consistency_edge_cases, test_honest_heads_reconcile,
      test_forked_root_is_equivocation, test_head_from_wrong_key_is_rejected]"

section \<open>A log under the operations\<close>

text \<open>A log whose memo is right and whose leaves are those of the receipts.\<close>

definition logs :: "prims \<Rightarrow> witness \<Rightarrow> action_receipt list \<Rightarrow> bool" where
  "logs P w rs \<longleftrightarrow> witness_ok P w \<and> leaf_hashes w = map (leaf_of P) rs"

lemma logs_new [simp]: "logs P witness_new []"
  by (simp add: logs_def)

lemma logs_append: "logs P w rs \<Longrightarrow> \<exists>w'. witness_append P w r = (length rs, w') \<and> logs P w' (rs @ [r])"
  using witness_append_ok [of P w r] by (cases "witness_append P w r") (auto simp: logs_def leaf_of_def)

lemma logs_with: "logs P (log_with P rs) rs"
proof (induction rs rule: rev_induct)
  case (snoc r rs)
  then show ?case using logs_append [OF snoc.IH, of r] by (auto simp: log_with_def)
qed (simp add: log_with_def)

lemma logs_root: "logs P w rs \<Longrightarrow> \<exists>w'. witness_root P w = Some (naive_root P (map (leaf_of P) rs), w') \<and> logs P w' rs"
  using witness_root_ok [of P w] by (auto simp: logs_def)

lemma logs_inclusion:
  "logs P w rs \<Longrightarrow> i < length rs \<Longrightarrow> \<exists>w'. prove_inclusion P w i =
     Some (Some \<lparr>leaf_index = i, tree_size = length rs, path = naive_path P (map (leaf_of P) rs) i\<rparr>, w') \<and> logs P w' rs"
  using prove_inclusion_ok [of P w i] by (auto simp: logs_def)

lemma logs_consistency:
  "logs P w rs \<Longrightarrow> m \<le> length rs \<Longrightarrow> \<exists>w'. prove_consistency P w m (length rs) =
     Some (Some \<lparr>nodes = (if m = 0 then [] else naive_subproof P m (map (leaf_of P) rs) True)\<rparr>, w') \<and> logs P w' rs"
  using prove_consistency_ok [of P w m "length rs"] by (auto simp: logs_def)

lemma logs_consistency_at:
  assumes "logs P w rs" and "n = length rs" and "m \<le> n"
  obtains w' where "prove_consistency P w m n =
      Some (Some \<lparr>nodes = (if m = 0 \<or> m = n then [] else naive_subproof P m (map (leaf_of P) rs) True)\<rparr>, w')" "logs P w' rs"
proof -
  have "naive_subproof P n (map (leaf_of P) rs) True = []" using naive_subproof_all [of P "map (leaf_of P) rs" True] assms(2) by simp
  with logs_consistency [OF assms(1), of m] assms(2,3) that show thesis by (cases "m = n") auto
qed

lemma included:
  "i < length rs \<Longrightarrow> length rs \<le> 2 ^ 64 \<Longrightarrow> verify_inclusion P (rs ! i)
     \<lparr>leaf_index = i, tree_size = length rs, path = naive_path P (map (leaf_of P) rs) i\<rparr> (naive_root P (map (leaf_of P) rs))"
  using verify_inclusion_complete [of i "map (leaf_of P) rs" P "rs ! i"] by (simp add: leaf_of_def)

lemma consistent:
  "m \<le> length rs \<Longrightarrow> verify_consistency P (naive_root P (map (leaf_of P) (take m rs))) (naive_root P (map (leaf_of P) rs))
     \<lparr>nodes = (if m = 0 then [] else naive_subproof P m (map (leaf_of P) rs) True)\<rparr> m (length rs)"
  using verify_consistency_complete [of m "map (leaf_of P) rs" P] by (simp add: take_map)

section \<open>The memo tests pass\<close>

definition tracks :: "prims \<Rightarrow> witness \<times> digest list \<Rightarrow> action_receipt list \<Rightarrow> bool" where
  "tracks P s rs \<longleftrightarrow> logs P (fst s) rs \<and> snd s = map (leaf_of P) rs"

lemma tracks_new: "tracks P (witness_new, []) []"
  by (simp add: tracks_def)

lemma tracks_leaf: "tracks P s rs \<Longrightarrow> tracks P (record_leaf P i s) (rs @ [receipt_n i])"
  using logs_append [of P "fst s" rs "receipt_n i"]
  by (auto simp: tracks_def record_leaf_def leaf_of_def case_prod_beta' Let_def)

lemma cached_root_passes: "test_cached_root_matches_naive P = Some ()"
proof -
  have "\<exists>s. for_each (root_round P) [0..<301] (witness_new, []) = Some s \<and> (\<exists>rs. tracks P s rs \<and> length rs = 301)"
  proof (rule for_upt_ok [where I = "\<lambda>n s. \<exists>rs. tracks P s rs \<and> length rs = n"])
    fix n s
    assume "\<exists>rs. tracks P s rs \<and> length rs = n"
    then obtain w rs where s: "s = (w, map (leaf_of P) rs)" "logs P w rs" "length rs = n" by (cases s) (auto simp: tracks_def)
    from logs_root [OF s(2)] obtain w1 where
      "witness_root P w = Some (naive_root P (map (leaf_of P) rs), w1)" "logs P w1 rs" by blast
    with s show "\<exists>s'. root_round P n s = Some s' \<and> (\<exists>rs. tracks P s' rs \<and> length rs = Suc n)"
      using tracks_leaf [of P "(w1, map (leaf_of P) rs)" rs n] by (auto simp: root_round_def tracks_def)
  qed (use tracks_new in auto)
  then show ?thesis by (auto simp: test_cached_root_matches_naive_def)
qed

lemma path_rounds:
  assumes "logs P w rs"
  shows "\<exists>w'. for_each (path_round P (map (leaf_of P) rs)) [0..<length rs] w = Some w' \<and> logs P w' rs"
proof (rule for_upt_ok [where I = "\<lambda>_ w. logs P w rs"])
  fix i v
  assume "i < length rs" "logs P v rs"
  from logs_inclusion [OF this(2,1)]
  show "\<exists>v'. path_round P (map (leaf_of P) rs) i v = Some v' \<and> logs P v' rs" by (auto simp: path_round_def)
qed (use assms in auto)

lemma cached_paths_pass: "test_cached_paths_match_naive P = Some ()"
proof -
  have "\<exists>s. for_each (paths_round P) [1..<201] (witness_new, []) = Some s \<and> (\<exists>rs. tracks P s rs \<and> 201 = Suc (length rs))"
  proof (rule for_upt_ok [where I = "\<lambda>n s. \<exists>rs. tracks P s rs \<and> n = Suc (length rs)"])
    fix n s
    assume "\<exists>rs. tracks P s rs \<and> n = Suc (length rs)"
    then obtain rs where rs: "tracks P s rs" "n = Suc (length rs)" by blast
    let ?rs = "rs @ [receipt_n (length rs)]"
    obtain w hs where r: "record_leaf P (length rs) s = (w, hs)" by fastforce
    with tracks_leaf [OF rs(1), of "length rs"] have w: "logs P w ?rs" "hs = map (leaf_of P) ?rs" by (auto simp: tracks_def)
    from path_rounds [OF w(1)] obtain w' where
      "for_each (path_round P (map (leaf_of P) ?rs)) [0..<length ?rs] w = Some w'" "logs P w' ?rs" by blast
    with r w(2) rs(2) show "\<exists>s'. paths_round P n s = Some s' \<and> (\<exists>rs. tracks P s' rs \<and> Suc n = Suc (length rs))"
      by (auto simp: paths_round_def tracks_def intro!: exI [of _ ?rs] simp del: upt_Suc)
  qed (use tracks_new in auto)
  then show ?thesis by (auto simp: test_cached_paths_match_naive_def)
qed

lemma subproof_rounds:
  assumes "logs P w rs"
  shows "\<exists>w'. for_each (subproof_round P (map (leaf_of P) rs) (length rs)) [0..<length rs + 1] w = Some w' \<and> logs P w' rs"
proof (rule for_upt_ok [where I = "\<lambda>_ w. logs P w rs"])
  fix m v
  assume "m < length rs + 1" "logs P v rs"
  then show "\<exists>v'. subproof_round P (map (leaf_of P) rs) (length rs) m v = Some v' \<and> logs P v' rs"
    using logs_consistency [of P v rs m] naive_subproof_all [of P "map (leaf_of P) rs" True]
    by (auto simp: subproof_round_def)
qed (use assms in auto)

lemma cached_consistency_passes: "test_cached_consistency_matches_naive P = Some ()"
proof -
  have "\<exists>s. for_each (subproofs_round P) [0..<151] (witness_new, []) = Some s \<and> (\<exists>rs. tracks P s rs \<and> length rs = 151)"
  proof (rule for_upt_ok [where I = "\<lambda>n s. \<exists>rs. tracks P s rs \<and> length rs = n"])
    fix n s
    assume "\<exists>rs. tracks P s rs \<and> length rs = n"
    then obtain w rs where s: "s = (w, map (leaf_of P) rs)" "logs P w rs" "length rs = n" by (cases s) (auto simp: tracks_def)
    from subproof_rounds [OF s(2)] obtain w1 where
      "for_each (subproof_round P (map (leaf_of P) rs) (length rs)) [0..<length rs + 1] w = Some w1" "logs P w1 rs" by blast
    with s show "\<exists>s'. subproofs_round P n s = Some s' \<and> (\<exists>rs. tracks P s' rs \<and> length rs = Suc n)"
      using tracks_leaf [of P "(w1, map (leaf_of P) rs)" rs n] by (auto simp: subproofs_round_def tracks_def simp del: upt_Suc)
  qed (use tracks_new in auto)
  then show ?thesis by (auto simp: test_cached_consistency_matches_naive_def)
qed

section \<open>Proofs verify\<close>

lemma every_leaf_passes:
  assumes "length rs \<le> 2 ^ 64"
  shows "every_leaf P rs = Some ()"
proof -
  from logs_root [OF logs_with] obtain w where
    w: "witness_root P (log_with P rs) = Some (naive_root P (map (leaf_of P) rs), w)" "logs P w rs" by blast
  let ?root = "naive_root P (map (leaf_of P) rs)"
  have "\<exists>w'. for_each (leaf_round P ?root) (enumerate 0 rs) w = Some w' \<and> logs P w' rs"
  proof (rule for_each_ok [where I = "\<lambda>_ w. logs P w rs"])
    fix k v
    assume "k < length (enumerate 0 rs)" "logs P v rs"
    then have k: "k < length rs" "enumerate 0 rs ! k = (k, rs ! k)" by (simp_all add: nth_enumerate_eq)
    from logs_inclusion [OF \<open>logs P v rs\<close> k(1)] included [OF k(1) assms, of P]
    show "\<exists>v'. leaf_round P ?root (enumerate 0 rs ! k) v = Some v' \<and> logs P v' rs" by (auto simp: leaf_round_def k(2))
  qed (rule w(2))
  with w(1) show ?thesis by (auto simp: every_leaf_def)
qed

lemma for_units: "(\<And>x. x \<in> set xs \<Longrightarrow> f x = Some ()) \<Longrightarrow> for_each (\<lambda>x _. f x) xs () = Some ()"
  by (induction xs) auto

lemma leaves_pass: "test_proof_verifies_for_every_leaf P = Some ()"
  unfolding test_proof_verifies_for_every_leaf_def by (rule for_units) (auto intro!: every_leaf_passes)

text \<open>The roots kept while a log grows are those of its prefixes.\<close>

lemma roots_ok:
  "\<exists>w. roots_while_growing P receipt n =
     Some (w, map (\<lambda>m. naive_root P (map (leaf_of P) (map receipt [0..<m]))) [0..<Suc n]) \<and>
     logs P w (map receipt [0..<n])"
proof -
  let ?root = "\<lambda>m. naive_root P (map (leaf_of P) (map receipt [0..<m]))"
  from logs_root [OF logs_new] obtain w0 where w0: "witness_root P witness_new = Some (?root 0, w0)" "logs P w0 []" by auto
  have "\<exists>s. for_each (grow_round P receipt) [0..<n] (w0, [?root 0]) = Some s \<and>
      logs P (fst s) (map receipt [0..<n]) \<and> snd s = map ?root [0..<Suc n]"
  proof (rule for_upt_ok [where I = "\<lambda>m s. logs P (fst s) (map receipt [0..<m]) \<and> snd s = map ?root [0..<Suc m]"])
    fix m s
    assume s: "logs P (fst s) (map receipt [0..<m]) \<and> snd s = map ?root [0..<Suc m]"
    then obtain w1 where w1: "witness_append P (fst s) (receipt m) = (m, w1)" "logs P w1 (map receipt [0..<Suc m])"
      using logs_append [of P "fst s" "map receipt [0..<m]" "receipt m"] by auto
    from logs_root [OF w1(2)] obtain w2 where
      "witness_root P w1 = Some (?root (Suc m), w2)" "logs P w2 (map receipt [0..<Suc m])" by blast
    with w1(1) s show "\<exists>s'. grow_round P receipt m s = Some s' \<and>
        logs P (fst s') (map receipt [0..<Suc m]) \<and> snd s' = map ?root [0..<Suc (Suc m)]"
      by (cases s) (simp add: grow_round_def)
  qed (use w0 in auto)
  with w0(1) show ?thesis by (auto simp: roots_while_growing_def)
qed

lemma prefix_proof:
  assumes "m \<le> n" and "logs P w (map receipt [0..<n])"
    and "roots = map (\<lambda>m. naive_root P (map (leaf_of P) (map receipt [0..<m]))) [0..<Suc n]"
  obtains pf w' where "prove_consistency P w m n = Some (Some pf, w')" "logs P w' (map receipt [0..<n])"
    "verify_consistency P (roots ! m) (roots ! n) pf m n"
proof -
  let ?rs = "map receipt [0..<n]"
  have "take m ?rs = map receipt [0..<m]" using assms(1) by (simp add: take_map)
  with consistent [of m ?rs P] assms(1) have "verify_consistency P (roots ! m) (roots ! n)
      \<lparr>nodes = (if m = 0 then [] else naive_subproof P m (map (leaf_of P) ?rs) True)\<rparr> m n"
    by (simp add: assms(3) del: map_map upt_Suc)
  with logs_consistency [OF assms(2), of m] assms(1) that show thesis by auto
qed

lemma prefix_consistent:
  assumes "m \<le> n" and "logs P w (map receipt [0..<n])"
    and "roots = map (\<lambda>m. naive_root P (map (leaf_of P) (map receipt [0..<m]))) [0..<Suc n]"
  shows "\<exists>w'. prefix_round P roots n m w = Some w' \<and> logs P w' (map receipt [0..<n])"
proof -
  from prefix_proof [OF assms] obtain pf w' where "prove_consistency P w m n = Some (Some pf, w')"
    "logs P w' (map receipt [0..<n])" "verify_consistency P (roots ! m) (roots ! n) pf m n" by blast
  then show ?thesis by (simp add: prefix_round_def)
qed

lemma every_prefix_passes: "every_prefix P n = Some ()"
proof -
  let ?receipt = "\<lambda>i. small_receipt (of_nat i)"
  from roots_ok [of P ?receipt n] obtain w roots where
    w: "roots_while_growing P ?receipt n = Some (w, roots)" "logs P w (map ?receipt [0..<n])"
    and roots: "roots = map (\<lambda>m. naive_root P (map (leaf_of P) (map ?receipt [0..<m]))) [0..<Suc n]" by blast
  have "\<exists>w'. for_each (prefix_round P roots n) [0..<n + 1] w = Some w' \<and> logs P w' (map ?receipt [0..<n])"
    by (rule for_upt_ok [where I = "\<lambda>_ w. logs P w (map ?receipt [0..<n])"])
      (use w(2) prefix_consistent [OF _ _ roots] in auto)
  with w(1) show ?thesis by (auto simp: every_prefix_def)
qed

lemma prefixes_pass: "test_consistency_for_all_prefix_pairs P = Some ()"
  unfolding test_consistency_for_all_prefix_pairs_def by (rule for_units) (rule every_prefix_passes)

section \<open>The property tests\<close>

text \<open>
  An index the sampler draws is a function of the length it indexes; a number it draws is
  an argument. An assumption of the sampler that fails gives the case up.
\<close>

definition sample_index :: "(nat \<Rightarrow> nat) \<Rightarrow> bool" where
  "sample_index f \<longleftrightarrow> (\<forall>n > 0. f n < n)"

definition numbered_log :: "prims \<Rightarrow> nat \<Rightarrow> witness \<times> action_receipt list" where
  "numbered_log P n = (let rs = map receipt_n [0..<n] in (log_with P rs, rs))"

definition prop_every_leaf_verifies :: "prims \<Rightarrow> nat \<Rightarrow> unit option" where
  "prop_every_leaf_verifies P n = do {
     let (w, rs) = numbered_log P n;
     (root, w) \<leftarrow> witness_root P w;
     map_option (\<lambda>_. ()) (for_each (leaf_round P root) (enumerate 0 rs) w)}"

definition prop_proofs_immutable :: "prims \<Rightarrow> nat \<Rightarrow> nat \<Rightarrow> (nat \<Rightarrow> nat) \<Rightarrow> unit option" where
  "prop_proofs_immutable P n k idx = do {
     let (w, rs) = numbered_log P n;
     (root_at_n, w) \<leftarrow> witness_root P w;
     let i = idx n;
     (pf, w) \<leftarrow> prove_inclusion P w i;
     proof_at_n \<leftarrow> pf;
     asserts (verify_inclusion P (rs ! i) proof_at_n root_at_n);
     let w = foldl (\<lambda>w j. snd (witness_append P w (receipt_n j))) w [n..<n + k];
     (cp, w) \<leftarrow> prove_consistency P w n (n + k);
     asserts (cp \<noteq> None);
     asserts (verify_inclusion P (rs ! i) proof_at_n root_at_n)}"

definition prop_consistency_of_prefixes :: "prims \<Rightarrow> nat \<Rightarrow> (nat \<Rightarrow> nat) \<Rightarrow> unit option" where
  "prop_consistency_of_prefixes P n m_idx = do {
     (w, roots) \<leftarrow> roots_while_growing P receipt_n n;
     let m = m_idx (n + 1);
     (pf, w) \<leftarrow> prove_consistency P w m n;
     pf \<leftarrow> pf;
     asserts (verify_consistency P (roots ! m) (roots ! n) pf m n)}"

text \<open>\<^verbatim>\<open>d[0] = d[0].wrapping_add(delta)\<close>.\<close>

definition bump :: "u8 \<Rightarrow> bytes32 \<Rightarrow> bytes32" where
  "bump delta d = mk_bytes32 ((hd (array_bytes d) + delta) # tl (array_bytes d))"

definition bump_step :: "u8 \<Rightarrow> nat \<Rightarrow> path_step list \<Rightarrow> path_step list" where
  "bump_step delta s p = p[s := (p ! s)\<lparr>sibling := bump delta (sibling (p ! s))\<rparr>]"

definition prop_corrupted_is_rejected ::
  "prims \<Rightarrow> nat \<Rightarrow> (nat \<Rightarrow> nat) \<Rightarrow> (nat \<Rightarrow> nat) \<Rightarrow> u8 \<Rightarrow> unit option" where
  "prop_corrupted_is_rejected P n idx step delta = do {
     let (w, rs) = numbered_log P n;
     (root, w) \<leftarrow> witness_root P w;
     let i = idx n;
     (pf, w) \<leftarrow> prove_inclusion P w i;
     good \<leftarrow> pf;
     if path good = [] then Some ()
     else asserts (\<not> verify_inclusion P (rs ! i)
       (good\<lparr>path := bump_step delta (step (length (path good))) (path good)\<rparr>) root)}"

section \<open>The property tests hold on all inputs\<close>

lemma prop_every_leaf: "n \<le> 2 ^ 64 \<Longrightarrow> prop_every_leaf_verifies P n = Some ()"
  using every_leaf_passes [of "map receipt_n [0..<n]" P]
  by (simp add: prop_every_leaf_verifies_def every_leaf_def numbered_log_def Let_def)

lemma logs_appends: "logs P w rs \<Longrightarrow> logs P (foldl (\<lambda>w j. snd (witness_append P w (receipt j))) w js) (rs @ map receipt js)"
proof (induction js arbitrary: w rs)
  case (Cons j js)
  from logs_append [OF Cons.prems, of "receipt j"] obtain w' where
    "snd (witness_append P w (receipt j)) = w'" "logs P w' (rs @ [receipt j])" by fastforce
  with Cons.IH [of w' "rs @ [receipt j]"] show ?case by simp
qed simp

lemma prop_immutable:
  assumes "0 < n" and "n \<le> 2 ^ 64" and "sample_index idx"
  shows "prop_proofs_immutable P n k idx = Some ()"
proof -
  let ?rs = "map receipt_n [0..<n]" and ?i = "idx n"
  have i: "?i < length ?rs" using assms(1,3) by (simp add: sample_index_def)
  from logs_root [OF logs_with] obtain w1 where
    w1: "witness_root P (log_with P ?rs) = Some (naive_root P (map (leaf_of P) ?rs), w1)" "logs P w1 ?rs" by blast
  from logs_inclusion [OF w1(2) i] obtain w2 where w2: "prove_inclusion P w1 ?i = Some (Some
      \<lparr>leaf_index = ?i, tree_size = length ?rs, path = naive_path P (map (leaf_of P) ?rs) ?i\<rparr>, w2)" "logs P w2 ?rs" by blast
  have "?rs @ map receipt_n [n..<n + k] = map receipt_n [0..<n + k]"
    by (simp add: map_append [symmetric] upt_add_eq_append [symmetric] del: map_append)
  with logs_appends [OF w2(2), of receipt_n "[n..<n + k]"] have
    "logs P (foldl (\<lambda>w j. snd (witness_append P w (receipt_n j))) w2 [n..<n + k]) (map receipt_n [0..<n + k])" by simp
  from logs_consistency [OF this, of n] included [OF i, of P] assms(2) w1(1) w2(1) show ?thesis
    by (auto simp: prop_proofs_immutable_def numbered_log_def Let_def)
qed

lemma prop_prefixes:
  assumes "sample_index m_idx"
  shows "prop_consistency_of_prefixes P n m_idx = Some ()"
proof -
  from roots_ok [of P receipt_n n] obtain w roots where
    w: "roots_while_growing P receipt_n n = Some (w, roots)" "logs P w (map receipt_n [0..<n])"
    and roots: "roots = map (\<lambda>m. naive_root P (map (leaf_of P) (map receipt_n [0..<m]))) [0..<Suc n]" by blast
  have "m_idx (n + 1) \<le> n" using assms [unfolded sample_index_def, rule_format, of "n + 1"] by simp
  from prefix_proof [OF this w(2) roots] obtain pf w' where
    "prove_consistency P w (m_idx (n + 1)) n = Some (Some pf, w')" "verify_consistency P (roots ! m_idx (n + 1)) (roots ! n) pf (m_idx (n + 1)) n"
    by blast
  with w(1) show ?thesis by (simp add: prop_consistency_of_prefixes_def)
qed

text \<open>Two folds that turn the same way and end in one digest are the same, up to collisions.\<close>

lemma fold_path_inject:
  "map sibling_is_left p = map sibling_is_left q \<Longrightarrow> fold_path P a p = fold_path P b q \<Longrightarrow>
     collision_free P (path_queries P a p \<union> path_queries P b q) \<Longrightarrow> a = b \<and> p = q"
proof (induction p arbitrary: q rule: rev_induct)
  case (snoc s p)
  from snoc.prems(1) obtain t q' where q: "q = q' @ [t]" "map sibling_is_left p = map sibling_is_left q'"
    "sibling_is_left s = sibling_is_left t" by (cases q rule: rev_cases) auto
  let ?x = "fold_path P a p" and ?y = "fold_path P b q'"
  have "?x = ?y \<and> sibling s = sibling t"
  proof (cases "sibling_is_left s")
    case True
    with snoc.prems(2) q(1,3) have "hash_node P (sibling s) ?x = hash_node P (sibling t) ?y" by simp
    with True snoc.prems(3) q(1,3) show ?thesis using log_hash.node_eqD [OF snoc.prems(3), of "sibling s" ?x "sibling t" ?y] by simp
  next
    case False
    with snoc.prems(2) q(1,3) have "hash_node P ?x (sibling s) = hash_node P ?y (sibling t)" by simp
    with False snoc.prems(3) q(1,3) show ?thesis using log_hash.node_eqD [OF snoc.prems(3), of ?x "sibling s" ?y "sibling t"] by simp
  qed
  moreover have "collision_free P (path_queries P a p \<union> path_queries P b q')"
    by (rule collision_free_mono [OF snoc.prems(3)]) (auto simp: q(1))
  ultimately show ?case using snoc.IH [OF q(2)] q(1,3) by (cases s; cases t) auto
qed simp

lemma bump_differs:
  assumes "delta \<noteq> 0"
  shows "bump delta d \<noteq> d"
proof -
  obtain b bs where d: "array_bytes d = b # bs" using length_array_bytes [of d] by (cases "array_bytes d") auto
  then have "array_bytes (bump delta d) = (b + delta) # bs"
    using length_array_bytes [of d] by (simp add: bump_def array_bytes_mk_exact)
  then have "array_bytes (bump delta d) \<noteq> array_bytes d" using d assms by simp
  then show ?thesis by metis
qed

lemma bump_step_differs:
  assumes "delta \<noteq> 0" and "s < length p"
  shows "bump_step delta s p \<noteq> p" and "map sibling_is_left (bump_step delta s p) = map sibling_is_left p"
proof -
  have "bump_step delta s p ! s \<noteq> p ! s" using assms bump_differs [of delta "sibling (p ! s)"]
    by (cases "p ! s") (simp add: bump_step_def)
  then show "bump_step delta s p \<noteq> p" by metis
  show "map sibling_is_left (bump_step delta s p) = map sibling_is_left p"
    using assms by (intro nth_equalityI) (auto simp: bump_step_def nth_list_update)
qed

definition corruption_apart :: "prims \<Rightarrow> nat \<Rightarrow> (nat \<Rightarrow> nat) \<Rightarrow> (nat \<Rightarrow> nat) \<Rightarrow> u8 \<Rightarrow> bool" where
  "corruption_apart P n idx step delta \<longleftrightarrow>
     (let p = naive_path P (map (leaf_of P) (map receipt_n [0..<n])) (idx n); leaf = leaf_of P (receipt_n (idx n))
      in collision_free P (path_queries P leaf p \<union> path_queries P leaf (bump_step delta (step (length p)) p)))"

lemma prop_corrupted:
  assumes "0 < n" and "sample_index idx" and "sample_index step" and "delta \<noteq> 0" and cf: "corruption_apart P n idx step delta"
  shows "prop_corrupted_is_rejected P n idx step delta = Some ()"
proof -
  let ?rs = "map receipt_n [0..<n]" and ?i = "idx n"
  let ?p = "naive_path P (map (leaf_of P) ?rs) ?i"
  let ?q = "bump_step delta (step (length ?p)) ?p" and ?leaf = "leaf_of P (receipt_n ?i)"
  have i: "?i < length ?rs" using assms(1,2) by (simp add: sample_index_def)
  from logs_root [OF logs_with] obtain w1 where
    w1: "witness_root P (log_with P ?rs) = Some (naive_root P (map (leaf_of P) ?rs), w1)" "logs P w1 ?rs" by blast
  from logs_inclusion [OF w1(2) i] obtain w2 where w2: "prove_inclusion P w1 ?i = Some (Some
      \<lparr>leaf_index = ?i, tree_size = length ?rs, path = ?p\<rparr>, w2)" by blast
  have folds: "fold_path P ?leaf ?p = naive_root P (map (leaf_of P) ?rs)"
    using naive_path_folds [of ?i "map (leaf_of P) ?rs" P] i by simp
  have "fold_path P ?leaf ?q \<noteq> naive_root P (map (leaf_of P) ?rs)" if "?p \<noteq> []"
  proof
    assume eq: "fold_path P ?leaf ?q = naive_root P (map (leaf_of P) ?rs)"
    have s: "step (length ?p) < length ?p" using assms(3) that by (simp add: sample_index_def)
    from fold_path_inject [OF bump_step_differs(2) [OF assms(4) s, symmetric] trans [OF folds eq [symmetric]]] cf
    have "?p = ?q" by (simp add: corruption_apart_def Let_def)
    with bump_step_differs(1) [OF assms(4) s] show False by simp
  qed
  then have "\<not> verify_inclusion P (?rs ! ?i) \<lparr>leaf_index = ?i, tree_size = length ?rs, path = ?q\<rparr>
      (naive_root P (map (leaf_of P) ?rs))" if "?p \<noteq> []"
    using that i by (auto simp: verify_inclusion_iff leaf_of_def)
  with w1(1) w2 show ?thesis
    by (auto simp: prop_corrupted_is_rejected_def numbered_log_def Let_def)
qed

section \<open>The other tests pass\<close>

abbreviation tag_leaf :: "prims \<Rightarrow> u8 \<Rightarrow> digest" where
  "tag_leaf P a \<equiv> leaf_of P (small_receipt a)"

definition receipt_tags :: "u8 list" where
  "receipt_tags = [0, 1, 2, 9, 99, 200]"

text \<open>
  What the hash is asked in the tests that a proof must fail: the leaves, the empty log, two
  folds of a borrowed path, and the trees of a log and of its forks.
\<close>

definition crate_queries :: "prims \<Rightarrow> u8 list set" where
  "crate_queries P =
     leaf_queries (insert [] ((\<lambda>a. canonical_bytes P (small_receipt a)) ` set receipt_tags)) \<union>
     path_queries P (tag_leaf P 1) (naive_path P (map (tag_leaf P) [1, 2]) 0) \<union>
     path_queries P (tag_leaf P 99) (naive_path P (map (tag_leaf P) [1, 2]) 0) \<union>
     node_queries P (map (tag_leaf P) [1, 2]) \<union> node_queries P (map (tag_leaf P) [1, 99]) \<union>
     node_queries P (map (tag_leaf P) [0, 1, 2]) \<union> node_queries P (map (tag_leaf P) [200, 1, 2]) \<union>
     node_queries P (map (tag_leaf P) [200, 1, 2, 9]) \<union>
     recon_queries P 3 4 True (naive_root P (map (tag_leaf P) [0, 1, 2]))
       (naive_subproof P 3 (map (tag_leaf P) [200, 1, 2, 9]) True)"

definition log_crate_apart :: "prims \<Rightarrow> bool" where
  "log_crate_apart P \<longleftrightarrow>
     collision_free P (crate_queries P) \<and> inj_on (jcs P) (action_receipt_json ` small_receipt ` set receipt_tags) \<and>
     canonical_bytes P (small_receipt 1) \<noteq> [] \<and> tag_leaf P 1 \<noteq> fill 7 \<and>
     naive_root P (map (tag_leaf P) [0, 1, 2, 3]) \<noteq> fill 7 \<and>
     ed_good P (fill 77) \<and> (\<forall>m. \<not> ed_check P (ed_public P (fill 13)) m (ed_raw_sign P (fill 77) m))"

lemma small_receipt_eq [simp]: "small_receipt a = small_receipt b \<longleftrightarrow> a = b"
proof
  assume "small_receipt a = small_receipt b"
  then have "array_bytes (fill a) = array_bytes (fill b)" by (simp add: small_receipt_def)
  then show "a = b" by (simp add: fill_def)
qed simp

lemma tag_leaf_eq:
  assumes "log_crate_apart P" and "a \<in> set receipt_tags" and "b \<in> set receipt_tags"
  shows "tag_leaf P a = tag_leaf P b \<longleftrightarrow> a = b"
proof
  assume "tag_leaf P a = tag_leaf P b"
  moreover have "collision_free P (crate_queries P)" using assms(1) by (simp add: log_crate_apart_def)
  moreover have "[leaf_prefix] @ canonical_bytes P (small_receipt c) \<in> crate_queries P" if "c \<in> set receipt_tags" for c
    using that unfolding crate_queries_def by (intro UnI1) (simp only: leaf_queries_iff insert_iff image_eqI simp_thms)
  ultimately have "canonical_bytes P (small_receipt a) = canonical_bytes P (small_receipt b)"
    using log_hash.leaf_eqD [of P "crate_queries P"] assms(2,3) by (simp add: leaf_of_def)
  then have "jcs P (action_receipt_json (small_receipt a)) = jcs P (action_receipt_json (small_receipt b))"
    by (simp add: canonical_bytes_def)
  with assms have "small_receipt a = small_receipt b" by (auto simp: log_crate_apart_def dest: inj_onD)
  then show "a = b" by simp
qed simp

lemma omitted_passes:
  assumes apart: "log_crate_apart P"
  shows "test_omitted_has_no_proof P = Some ()"
proof -
  let ?rs = "[small_receipt 1, small_receipt 2]" and ?p = "naive_path P (map (tag_leaf P) [1, 2]) 0"
  from logs_root [OF logs_with] obtain w1 where
    w1: "witness_root P (log_with P ?rs) = Some (naive_root P (map (leaf_of P) ?rs), w1)" "logs P w1 ?rs" by blast
  from logs_inclusion [OF w1(2), of 0] obtain w2 where w2: "prove_inclusion P w1 0 = Some (Some
      \<lparr>leaf_index = 0, tree_size = length ?rs, path = ?p\<rparr>, w2)" by auto
  have fold: "fold_path P (tag_leaf P 1) ?p = naive_root P (map (leaf_of P) ?rs)"
    using naive_path_folds [of 0 "map (leaf_of P) ?rs" P] by simp
  have "fold_path P (tag_leaf P 99) ?p \<noteq> naive_root P (map (leaf_of P) ?rs)"
  proof
    assume eq: "fold_path P (tag_leaf P 99) ?p = naive_root P (map (leaf_of P) ?rs)"
    have "collision_free P (path_queries P (tag_leaf P 1) ?p \<union> path_queries P (tag_leaf P 99) ?p)"
      by (rule collision_free_mono [of _ "crate_queries P"]) (use apart in \<open>auto simp: log_crate_apart_def crate_queries_def\<close>)
    from fold_path_inject [OF refl trans [OF fold eq [symmetric]] this] tag_leaf_eq [OF apart, of 1 99]
    show False by (simp add: receipt_tags_def)
  qed
  with w1(1) w2 show ?thesis by (simp add: test_omitted_has_no_proof_def verify_inclusion_iff leaf_of_def)
qed

lemma single_leaf_log:
  obtains w where "witness_root P (log_with P [r]) = Some (leaf_of P r, w)" "logs P w [r]"
  using logs_root [OF logs_with, of P "[r]"] by auto

lemma single_path: "logs P w [r] \<Longrightarrow> \<exists>w'. prove_inclusion P w 0 = Some (Some \<lparr>leaf_index = 0, tree_size = 1, path = []\<rparr>, w') \<and> logs P w' [r]"
  using logs_inclusion [of P w "[r]" 0] by simp

lemma single_leaf_tests:
  assumes apart: "log_crate_apart P"
  shows "test_wrong_root_is_rejected P = Some ()" and "test_appending_changes_the_root P = Some ()"
    and "test_oversized_proof_is_rejected P = Some ()"
proof -
  obtain w where w: "witness_root P (log_with P [small_receipt 1]) = Some (tag_leaf P 1, w)" "logs P w [small_receipt 1]"
    by (rule single_leaf_log)
  from single_path [OF w(2)] obtain w1 where
    w1: "prove_inclusion P w 0 = Some (Some \<lparr>leaf_index = 0, tree_size = 1, path = []\<rparr>, w1)" by blast
  from single_path [OF logs_with, of P "small_receipt 1"] obtain w2 where
    w2: "prove_inclusion P (log_with P [small_receipt 1]) 0 = Some (Some \<lparr>leaf_index = 0, tree_size = 1, path = []\<rparr>, w2)" by blast
  have "tag_leaf P 1 \<noteq> fill 7" using apart by (simp add: log_crate_apart_def)
  then show "test_wrong_root_is_rejected P = Some ()"
    by (simp add: test_wrong_root_is_rejected_def w2 verify_inclusion_iff leaf_of_def)
  show "test_oversized_proof_is_rejected P = Some ()"
    by (simp add: test_oversized_proof_is_rejected_def w(1) w1 verify_inclusion_iff leaf_of_def max_proof_path_def)
  from logs_root [OF logs_new] obtain v where v: "witness_root P witness_new = Some (hash_leaf P [], v)" "logs P v []"
    by (auto simp: empty_root_def)
  from logs_append [OF v(2), of "small_receipt 1"] obtain v1 where
    v1: "witness_append P v (small_receipt 1) = (0, v1)" "logs P v1 [small_receipt 1]" by auto
  from logs_root [OF v1(2)] obtain v2 where v2: "witness_root P v1 = Some (tag_leaf P 1, v2)" by auto
  have cf: "collision_free P (crate_queries P)" and ne: "canonical_bytes P (small_receipt 1) \<noteq> []"
    using apart by (simp_all add: log_crate_apart_def)
  have "[leaf_prefix] @ [] \<in> crate_queries P" "[leaf_prefix] @ canonical_bytes P (small_receipt 1) \<in> crate_queries P"
    unfolding crate_queries_def by (intro UnI1, simp only: leaf_queries_iff, simp add: receipt_tags_def)+
  from log_hash.leaf_eqD [OF cf _ this] ne have "hash_leaf P [] \<noteq> tag_leaf P 1" by (auto simp: leaf_of_def)
  then show "test_appending_changes_the_root P = Some ()"
    by (simp add: test_appending_changes_the_root_def v(1) v1(1) v2)
qed

lemma rewritten_passes:
  assumes apart: "log_crate_apart P"
  shows "test_rewritten_history_fails P = Some ()"
proof -
  let ?old = "[small_receipt 0, small_receipt 1, small_receipt 2]" and ?new = "map small_receipt [0, 1, 2, 9]"
  let ?fork = "[small_receipt 200, small_receipt 1, small_receipt 2, small_receipt 9]"
  let ?as = "map (leaf_of P) ?old" and ?bs = "map (leaf_of P) ?fork"
  from logs_root [OF logs_with] obtain w1 where
    w1: "witness_root P (log_with P ?old) = Some (naive_root P ?as, w1)" "logs P w1 ?old" by blast
  from logs_append [OF w1(2), of "small_receipt 9"] obtain w2 where
    w2: "witness_append P w1 (small_receipt 9) = (3, w2)" "logs P w2 ?new" by auto
  from logs_root [OF w2(2)] obtain w3 where
    w3: "witness_root P w2 = Some (naive_root P (map (leaf_of P) ?new), w3)" "logs P w3 ?new" by blast
  let ?pf = "\<lparr>nodes = naive_subproof P 3 (map (leaf_of P) ?new) True\<rparr>"
  obtain w4 where w4: "prove_consistency P w3 3 4 = Some (Some ?pf, w4)"
    by (rule logs_consistency_at [OF w3(2), of 4 3]) (simp_all add: numeral_eq_Suc)
  have good: "verify_consistency P (naive_root P ?as) (naive_root P (map (leaf_of P) ?new)) ?pf 3 4"
    using consistent [of 3 ?new P] by (simp add: numeral_eq_Suc)
  from logs_root [OF logs_with] obtain v1 where
    v1: "witness_root P (log_with P ?fork) = Some (naive_root P ?bs, v1)" "logs P v1 ?fork" by blast
  let ?fp = "\<lparr>nodes = naive_subproof P 3 ?bs True\<rparr>"
  obtain v2 where v2: "prove_consistency P v1 3 4 = Some (Some ?fp, v2)"
    by (rule logs_consistency_at [OF v1(2), of 4 3]) (simp_all add: numeral_eq_Suc)
  have len: "length ?as = 3" "length ?bs = 4" and prefix: "take 3 ?bs = map (tag_leaf P) [200, 1, 2]" by (simp_all add: numeral_eq_Suc)
  have "collision_free P (node_queries P ?as \<union> node_queries P ?bs \<union> node_queries P (take 3 ?bs) \<union>
      recon_queries P 3 4 True (naive_root P ?as) (nodes ?fp))"
    unfolding prefix
    by (rule collision_free_mono [of _ "crate_queries P"]) (use apart in \<open>auto simp: log_crate_apart_def crate_queries_def\<close>)
  then have "?as = take 3 ?bs" if "verify_consistency P (naive_root P ?as) (naive_root P ?bs) ?fp 3 4"
    using consistent_prefix [of P ?as ?bs ?fp] that unfolding len by simp
  moreover have "?as \<noteq> take 3 ?bs" using tag_leaf_eq [OF apart, of 0 200] by (simp add: prefix receipt_tags_def)
  ultimately have "\<not> verify_consistency P (naive_root P ?as) (naive_root P ?bs) ?fp 3 4" by blast
  then show ?thesis
    using w1(1) w2(1) w3(1) w4 good v1(1) v2 by (simp add: test_rewritten_history_fails_def)
qed

lemma edge_cases_pass:
  assumes apart: "log_crate_apart P"
  shows "test_consistency_edge_cases P = Some ()"
proof -
  let ?rs = "map small_receipt [0, 1, 2, 3]"
  let ?root = "naive_root P (map (leaf_of P) ?rs)"
  from logs_root [OF logs_with] obtain w1 where
    w1: "witness_root P (log_with P ?rs) = Some (?root, w1)" "logs P w1 ?rs" by blast
  obtain w2 where w2: "prove_consistency P w1 4 4 = Some (Some \<lparr>nodes = []\<rparr>, w2)" "logs P w2 ?rs"
    by (rule logs_consistency_at [OF w1(2), of 4 4]) (simp_all add: numeral_eq_Suc)
  obtain w3 where w3: "prove_consistency P w2 0 4 = Some (Some \<lparr>nodes = []\<rparr>, w3)" "logs P w3 ?rs"
    by (rule logs_consistency_at [OF w2(2), of 4 0]) (simp_all add: numeral_eq_Suc)
  have "length (leaf_hashes w3) = 4" using w3(2) by (simp add: logs_def)
  then have w4: "prove_consistency P w3 2 5 = Some (None, w3)" by (simp add: prove_consistency_def)
  have "?root \<noteq> fill 7" using apart by (simp add: log_crate_apart_def)
  with w1(1) w2(1) w3(1) w4 show ?thesis
    by (simp add: test_consistency_edge_cases_def verify_consistency_def)
qed

text \<open>Heads of one log.\<close>

lemma logs_head:
  assumes "ed_good P sd" and "logs P w rs"
  obtains h w' where "signed_head P w (ed25519_from_seed P sd) = Some (h, w')" "logs P w' rs"
    "head_of P (map (leaf_of P) rs) h" "verify_signed_head P h (sg_public_key (ed25519_from_seed P sd))"
proof -
  from assms(2) have w: "witness_ok P w" "leaf_hashes w = map (leaf_of P) rs" by (simp_all add: logs_def)
  from any_signer.signed_head_ok [OF ed.ok [OF assms(1)] w(1)] that show thesis by (auto simp: logs_def w(2))
qed

lemma honest_heads_pass:
  assumes good: "ed_good P (fill 77)"
  shows "test_honest_heads_reconcile P = Some ()"
proof -
  let ?r2 = "[small_receipt 1, small_receipt 2]" and ?r4 = "map small_receipt [1, 2, 3, 4]"
  let ?sg = "ed25519_from_seed P (fill 77)"
  obtain h2 w1 where 1: "signed_head P (log_with P ?r2) ?sg = Some (h2, w1)" "logs P w1 ?r2"
    "head_of P (map (leaf_of P) ?r2) h2" "verify_signed_head P h2 (sg_public_key ?sg)"
    by (rule logs_head [OF good logs_with])
  from logs_append [OF 1(2), of "small_receipt 3"] obtain w2 where
    2: "witness_append P w1 (small_receipt 3) = (2, w2)" "logs P w2 (?r2 @ [small_receipt 3])" by auto
  from logs_append [OF 2(2), of "small_receipt 4"] obtain w3 where
    3: "witness_append P w2 (small_receipt 4) = (3, w3)" "logs P w3 ?r4" by auto
  obtain h4 w4 where 4: "signed_head P w3 ?sg = Some (h4, w4)" "logs P w4 ?r4"
    "head_of P (map (leaf_of P) ?r4) h4" "verify_signed_head P h4 (sg_public_key ?sg)"
    by (rule logs_head [OF good 3(2)])
  let ?pf = "\<lparr>nodes = naive_subproof P 2 (map (leaf_of P) ?r4) True\<rparr>"
  obtain w5 where 5: "prove_consistency P w4 2 4 = Some (Some ?pf, w5)"
    by (rule logs_consistency_at [OF 4(2), of 4 2]) (simp_all add: numeral_eq_Suc)
  have "verify_consistency P (naive_root P (map (leaf_of P) ?r2)) (naive_root P (map (leaf_of P) ?r4)) ?pf 2 4"
    using consistent [of 2 ?r4 P] by (simp add: numeral_eq_Suc)
  with 1(3,4) 4(3,4) have "reconcile_heads P h2 h4 (sg_public_key ?sg) (Some ?pf) = Inr ()"
    by (simp add: reconcile_heads_iff head_of_def numeral_eq_Suc)
  with 1(1,4) 2(1) 3(1) 4(1) 5 show ?thesis by (simp add: test_honest_heads_reconcile_def is_ok_def Let_def)
qed

lemma forked_heads_pass:
  assumes apart: "log_crate_apart P"
  shows "test_forked_root_is_equivocation P = Some ()"
proof -
  let ?a = "[small_receipt 1, small_receipt 2]" and ?b = "[small_receipt 1, small_receipt 99]"
  let ?sg = "ed25519_from_seed P (fill 77)"
  from apart have good: "ed_good P (fill 77)" by (simp add: log_crate_apart_def)
  obtain ha wa where a: "signed_head P (log_with P ?a) ?sg = Some (ha, wa)"
    "head_of P (map (leaf_of P) ?a) ha" "verify_signed_head P ha (sg_public_key ?sg)"
    by (rule logs_head [OF good logs_with])
  obtain hb wb where b: "signed_head P (log_with P ?b) ?sg = Some (hb, wb)"
    "head_of P (map (leaf_of P) ?b) hb" "verify_signed_head P hb (sg_public_key ?sg)"
    by (rule logs_head [OF good logs_with])
  have "collision_free P (node_queries P (map (leaf_of P) ?a) \<union> node_queries P (map (leaf_of P) ?b))"
    by (rule collision_free_mono [of _ "crate_queries P"]) (use apart in \<open>auto simp: log_crate_apart_def crate_queries_def\<close>)
  from naive_root_inject [OF this, of "map (leaf_of P) ?a" "map (leaf_of P) ?b"] tag_leaf_eq [OF apart, of 2 99]
  have "naive_root P (map (leaf_of P) ?a) \<noteq> naive_root P (map (leaf_of P) ?b)" by (auto simp: receipt_tags_def)
  with a b show ?thesis
    by (simp add: test_forked_root_is_equivocation_def reconcile_heads_def head_of_def Let_def)
qed

lemma foreign_signed_head:
  assumes "signed_head P w (ed25519_from_seed P sd) = Some (h, w')" and "\<forall>m. \<not> ed_check P (ed_public P sd') m (ed_raw_sign P sd m)"
  shows "\<not> verify_signed_head P h (sg_public_key (ed25519_from_seed P sd'))"
proof -
  from assms(1) obtain m where "sth_signature h = \<lparr>sig_algorithm = Ed25519, sig_bytes = ed_raw_sign P sd m\<rparr>"
    "m = sth_signing_bytes P (sth_size h) (sth_root h)"
    by (auto simp: signed_head_def ed25519_from_seed_def Let_def split: option.splits)
  then show ?thesis using assms(2) by (simp add: verify_signed_head_def ed25519_from_seed_def ed25519_verify_def or_false_def)
qed

lemma wrong_key_passes:
  assumes apart: "log_crate_apart P"
  shows "test_head_from_wrong_key_is_rejected P = Some ()"
proof -
  let ?sg = "ed25519_from_seed P (fill 77)"
  from apart have good: "ed_good P (fill 77)" and foreign: "\<forall>m. \<not> ed_check P (ed_public P (fill 13)) m (ed_raw_sign P (fill 77) m)"
    by (simp_all add: log_crate_apart_def)
  obtain h1 w1 where 1: "signed_head P (log_with P [small_receipt 1]) ?sg = Some (h1, w1)" "logs P w1 [small_receipt 1]"
    by (rule logs_head [OF good logs_with])
  from logs_append [OF 1(2), of "small_receipt 2"] obtain w2 where
    2: "witness_append P w1 (small_receipt 2) = (1, w2)" "logs P w2 [small_receipt 1, small_receipt 2]" by auto
  obtain h2 w3 where 3: "signed_head P w2 ?sg = Some (h2, w3)" by (rule logs_head [OF good 2(2)])
  from foreign_signed_head [OF 1(1) foreign] 1(1) 2(1) 3 show ?thesis
    by (simp add: test_head_from_wrong_key_is_rejected_def reconcile_heads_def Let_def)
qed

lemma log_tests_pass:
  assumes apart: "log_crate_apart P"
  shows "map (\<lambda>test. test P) log_tests = replicate 14 (Some ())"
proof -
  have "ed_good P (fill 77)" using apart by (simp add: log_crate_apart_def)
  then show ?thesis
    by (simp add: log_tests_def cached_root_passes cached_paths_pass cached_consistency_passes leaves_pass prefixes_pass
        omitted_passes [OF apart] single_leaf_tests [OF apart] rewritten_passes [OF apart] edge_cases_pass [OF apart]
        honest_heads_pass forked_heads_pass [OF apart] wrong_key_passes [OF apart] numeral_eq_Suc)
qed

end
