(* ===== verification/Attestation_Tests.thy ===== *)
theory Attestation_Tests
  imports Verifier_Tests
begin

text \<open>
  The tests of \<^verbatim>\<open>core/attestation\<close> (its module \<^verbatim>\<open>tests\<close>), as programs that return \<open>None\<close>
  where an \<^verbatim>\<open>unwrap_err\<close> or an assertion fails.
\<close>

section \<open>The tests\<close>

definition dummy_inclusion :: inclusion_proof where
  "dummy_inclusion = \<lparr>leaf_index = 0, tree_size = 1, path = []\<rparr>"

abbreviation key_of :: "prims \<Rightarrow> u8 \<Rightarrow> public_key" where
  "key_of P b \<equiv> sg_public_key (ed25519_from_seed P (fill b))"

text \<open>One attester over the shared binding.\<close>

definition shared :: "prims \<Rightarrow> signer \<Rightarrow> attester_role \<Rightarrow> string \<Rightarrow> completion_attestation option" where
  "shared P sg role i = attest_as P role sg (named i) (fill 1) (fill 2) (fill 2) (fill 3) dummy_inclusion"

definition notarised :: "prims \<Rightarrow> signer \<Rightarrow> string \<Rightarrow> completion_attestation option" where
  "notarised P sg i = attest P sg (named i) (fill 1) (fill 2) (fill 2) (fill 3) dummy_inclusion"

definition test_independent_attestation_verifies :: "prims \<Rightarrow> unit option" where
  "test_independent_attestation_verifies P = do {
     let executor = ed25519_from_seed P (fill 4);
     let attester = ed25519_from_seed P (fill 5);
     att \<leftarrow> notarised P attester ''attester:notary'';
     asserts (is_ok (attestation_verify P att (sg_public_key executor)))}"

definition test_self_reported_is_rejected :: "prims \<Rightarrow> unit option" where
  "test_self_reported_is_rejected P = do {
     let executor = ed25519_from_seed P (fill 4);
     att \<leftarrow> notarised P executor ''agent:c@org3'';
     asserts (attestation_verify P att (sg_public_key executor) = Inl NotIndependent)}"

definition test_tampered_outcome_breaks_signature :: "prims \<Rightarrow> unit option" where
  "test_tampered_outcome_breaks_signature P = do {
     let executor = ed25519_from_seed P (fill 4);
     let attester = ed25519_from_seed P (fill 5);
     att \<leftarrow> notarised P attester ''attester:notary'';
     let att = att\<lparr>outcome_digest := fill 9\<rparr>;
     asserts (attestation_verify P att (sg_public_key executor) = Inl AttestationSignatureInvalid)}"

definition test_holds_at_exactly_k :: "prims \<Rightarrow> unit option" where
  "test_holds_at_exactly_k P = do {
     let executor = ed25519_from_seed P (fill 4);
     atts \<leftarrow> those (map (\<lambda>(i, s). shared P (ed25519_from_seed P s) ThirdParty (''attester:'' @ decimal i))
       (enumerate 0 [fill 5, fill 6, fill 7]));
     let agg = \<lparr>attestations = atts, ta_threshold = 3\<rparr>;
     asserts (is_ok (threshold_verify P agg (sg_public_key executor)))}"

definition test_fails_one_short :: "prims \<Rightarrow> unit option" where
  "test_fails_one_short P = do {
     let executor = ed25519_from_seed P (fill 4);
     att1 \<leftarrow> shared P (ed25519_from_seed P (fill 5)) ThirdParty ''attester:1'';
     att2 \<leftarrow> shared P (ed25519_from_seed P (fill 6)) ThirdParty ''attester:2'';
     let agg = \<lparr>attestations = [att1, att2], ta_threshold = 3\<rparr>;
     asserts (threshold_verify P agg (sg_public_key executor) = Inl (NotEnoughIndependentAttestations 2 3))}"

definition test_duplicate_attester_is_rejected :: "prims \<Rightarrow> unit option" where
  "test_duplicate_attester_is_rejected P = do {
     let executor = ed25519_from_seed P (fill 4);
     let a1 = ed25519_from_seed P (fill 5);
     att1 \<leftarrow> shared P a1 ThirdParty ''attester:1'';
     att2 \<leftarrow> shared P a1 ThirdParty ''attester:1'';
     let agg = \<lparr>attestations = [att1, att2], ta_threshold = 2\<rparr>;
     asserts (threshold_verify P agg (sg_public_key executor) = Inl DuplicateAttester)}"

definition test_executor_signed_does_not_count :: "prims \<Rightarrow> unit option" where
  "test_executor_signed_does_not_count P = do {
     let executor = ed25519_from_seed P (fill 4);
     att1 \<leftarrow> shared P (ed25519_from_seed P (fill 5)) ThirdParty ''attester:1'';
     att2 \<leftarrow> shared P (ed25519_from_seed P (fill 6)) ThirdParty ''attester:2'';
     own \<leftarrow> shared P executor ThirdParty ''agent:c@org3'';
     let agg = \<lparr>attestations = [att1, att2, own], ta_threshold = 3\<rparr>;
     asserts (threshold_verify P agg (sg_public_key executor) = Inl (NotEnoughIndependentAttestations 2 3))}"

definition test_inconsistent_binding_is_rejected :: "prims \<Rightarrow> unit option" where
  "test_inconsistent_binding_is_rejected P = do {
     let executor = ed25519_from_seed P (fill 4);
     let a2 = ed25519_from_seed P (fill 6);
     att1 \<leftarrow> shared P (ed25519_from_seed P (fill 5)) ThirdParty ''attester:1'';
     att2 \<leftarrow> attest_as P ThirdParty a2 (named ''attester:2'') (fill 1) (fill 2) (fill 9) (fill 3) dummy_inclusion;
     let agg = \<lparr>attestations = [att1, att2], ta_threshold = 2\<rparr>;
     asserts (threshold_verify P agg (sg_public_key executor) = Inl InconsistentBinding)}"

definition test_both_roles_usable :: "prims \<Rightarrow> unit option" where
  "test_both_roles_usable P = do {
     let executor = ed25519_from_seed P (fill 4);
     counter \<leftarrow> shared P (ed25519_from_seed P (fill 3)) CounterSigned ''agent:b@org2'';
     third \<leftarrow> shared P (ed25519_from_seed P (fill 8)) ThirdParty ''attester:notary'';
     asserts (ca_role counter = CounterSigned);
     asserts (ca_role third = ThirdParty);
     asserts (is_ok (attestation_verify P counter (sg_public_key executor)));
     asserts (is_ok (attestation_verify P third (sg_public_key executor)));
     let agg = \<lparr>attestations = [counter, third], ta_threshold = 2\<rparr>;
     asserts (is_ok (threshold_verify P agg (sg_public_key executor)))}"

definition attestation_crate_tests :: "(prims \<Rightarrow> unit option) list" where
  "attestation_crate_tests =
     [test_independent_attestation_verifies, test_self_reported_is_rejected, test_tampered_outcome_breaks_signature,
      test_holds_at_exactly_k, test_fails_one_short, test_duplicate_attester_is_rejected,
      test_executor_signed_does_not_count, test_inconsistent_binding_is_rejected, test_both_roles_usable]"

section \<open>They pass\<close>

text \<open>A signature of a seed over one of some documents verifies over that one only.\<close>

definition signs_apart :: "prims \<Rightarrow> bytes32 \<Rightarrow> json set \<Rightarrow> bool" where
  "signs_apart P sd J \<longleftrightarrow>
     (\<forall>i \<in> J. \<forall>j \<in> J. ed_check P (ed_public P sd) (jcs P j) (ed_raw_sign P sd (jcs P i)) \<longrightarrow> i = j)"

definition notary_document :: "prims \<Rightarrow> u8 \<Rightarrow> json" where
  "notary_document P outc =
     attestation_payload_json (fill 1) (fill 2) (fill outc) (fill 3) dummy_inclusion (named ''attester:notary'') (key_of P 5) ThirdParty"

definition attesters_apart :: "prims \<Rightarrow> bool" where
  "attesters_apart P \<longleftrightarrow>
     list_all (\<lambda>b. ed_good P (fill b)) [3, 4, 5, 6, 7, 8] \<and>
     distinct (map (\<lambda>b. ed_public P (fill b)) [3, 4, 5, 6, 7, 8]) \<and>
     signs_apart P (fill 5) {notary_document P 2, notary_document P 9}"

lemma fill_eq [simp]: "fill a = fill b \<longleftrightarrow> a = b"
proof
  assume "fill a = fill b"
  then have "array_bytes (fill a) = array_bytes (fill b)" by simp
  then show "a = b" by (simp add: fill_def)
qed simp

lemma attesters_apartD:
  assumes "attesters_apart P"
  shows "b \<in> {3, 4, 5, 6, 7, 8} \<Longrightarrow> ed_good P (fill b)"
    and "a \<in> {3, 4, 5, 6, 7, 8} \<Longrightarrow> b \<in> {3, 4, 5, 6, 7, 8} \<Longrightarrow> key_of P a = key_of P b \<longleftrightarrow> a = b"
  using assms by (auto simp: attesters_apart_def ed25519_from_seed_def)

lemma shared_attests:
  assumes apart: "attesters_apart P" and b: "b \<in> {3, 4, 5, 6, 7, 8}"
  shows "\<exists>a. attest_as P role (ed25519_from_seed P (fill b)) (named i) (fill 1) (fill 2) (fill outc) (fill 3) dummy_inclusion =
      Some a \<and> attester_key a = key_of P b \<and> ca_role a = role \<and> binding a = (fill 1, fill 2, fill outc, fill 3) \<and>
    (\<forall>k. is_ok (attestation_verify P a k) \<longleftrightarrow> key_of P b \<noteq> k)"
  using party_attests [OF attesters_apartD(1) [OF apart b], of role "named i" "fill 1" "fill 2" "fill outc" "fill 3" dummy_inclusion]
  by (auto simp: binding_def attestation_verify_ok_iff)

lemma single_attestation_tests:
  assumes apart: "attesters_apart P"
  shows "test_independent_attestation_verifies P = Some ()" and "test_self_reported_is_rejected P = Some ()"
proof -
  have "\<exists>a. notarised P (ed25519_from_seed P (fill 5)) ''attester:notary'' = Some a \<and> is_ok (attestation_verify P a (key_of P 4))"
    using shared_attests [OF apart, of 5 ThirdParty "''attester:notary''" 2] attesters_apartD(2) [OF apart, of 5 4]
    unfolding notarised_def attest_def by fastforce
  then show "test_independent_attestation_verifies P = Some ()"
    unfolding test_independent_attestation_verifies_def by fastforce
  have "\<exists>a. notarised P (ed25519_from_seed P (fill 4)) ''agent:c@org3'' = Some a \<and> attester_key a = key_of P 4"
    using shared_attests [OF apart, of 4 ThirdParty "''agent:c@org3''" 2] unfolding notarised_def attest_def by fastforce
  then show "test_self_reported_is_rejected P = Some ()"
    unfolding test_self_reported_is_rejected_def attestation_verify_def by fastforce
qed

lemma tampered_outcome_passes:
  assumes apart: "attesters_apart P"
  shows "test_tampered_outcome_breaks_signature P = Some ()"
proof -
  let ?sg = "ed25519_from_seed P (fill 5)" and ?m = "\<lambda>outc. jcs P (notary_document P outc)"
  have good: "ed_good P (fill 5)" by (rule attesters_apartD(1) [OF apart]) simp
  have other: "key_of P 5 \<noteq> key_of P 4" using attesters_apartD(2) [OF apart, of 5 4] by simp
  have "notary_document P 2 \<noteq> notary_document P 9" by (simp add: notary_document_def)
  with apart have foreign: "\<not> ed_check P (ed_public P (fill 5)) (?m 9) (ed_raw_sign P (fill 5) (?m 2))"
    by (auto simp: attesters_apart_def signs_apart_def)
  have sizes: "length (ed_public P (fill 5)) = 32" "ed_key_ok P (ed_public P (fill 5))" "length (ed_raw_sign P (fill 5) m) = 64" for m
    using good by (simp_all add: ed_good_def)
  show ?thesis
    using foreign other sizes
    by (simp add: test_tampered_outcome_breaks_signature_def notarised_def attest_def attest_as_def attestation_verify_def
        attestation_signing_payload_def ed25519_from_seed_def notary_document_def ed25519_verify_def Let_def)
qed

lemma bundle_tests:
  assumes apart: "attesters_apart P"
  shows "test_holds_at_exactly_k P = Some ()" and "test_fails_one_short P = Some ()"
    and "test_duplicate_attester_is_rejected P = Some ()" and "test_executor_signed_does_not_count P = Some ()"
    and "test_inconsistent_binding_is_rejected P = Some ()" and "test_both_roles_usable P = Some ()"
proof -
  let ?s = "\<lambda>b. ed25519_from_seed P (fill b)"
  have mem: "(3 :: u8) \<in> {3, 4, 5, 6, 7, 8}" "(4 :: u8) \<in> {3, 4, 5, 6, 7, 8}" "(5 :: u8) \<in> {3, 4, 5, 6, 7, 8}"
    "(6 :: u8) \<in> {3, 4, 5, 6, 7, 8}" "(7 :: u8) \<in> {3, 4, 5, 6, 7, 8}" "(8 :: u8) \<in> {3, 4, 5, 6, 7, 8}" by simp_all
  have keys: "key_of P a = key_of P b \<longleftrightarrow> a = b" if "a \<in> {3, 4, 5, 6, 7, 8}" "b \<in> {3, 4, 5, 6, 7, 8}" for a b
    by (rule attesters_apartD(2) [OF apart that])
  have names: "decimal 0 = ''0''" "decimal (Suc 0) = ''1''" "decimal (Suc (Suc 0)) = ''2''" by code_simp+
  have attests: "\<exists>a. shared P (?s b) role i = Some a \<and> attester_key a = key_of P b \<and> ca_role a = role \<and>
      binding a = (fill 1, fill 2, fill 2, fill 3) \<and> (\<forall>k. is_ok (attestation_verify P a k) \<longleftrightarrow> key_of P b \<noteq> k)"
    if "b \<in> {3, 4, 5, 6, 7, 8}" for b role i
    using shared_attests [OF apart that, of role i 2] unfolding shared_def .
  note steps = threshold_verify_def keys
  from attests [OF mem(3), of ThirdParty "''attester:0''"] obtain a0 where
    a0: "shared P (?s 5) ThirdParty ''attester:0'' = Some a0" "attester_key a0 = key_of P 5"
      "binding a0 = (fill 1, fill 2, fill 2, fill 3)" "\<forall>k. is_ok (attestation_verify P a0 k) \<longleftrightarrow> key_of P 5 \<noteq> k" by blast
  from attests [OF mem(4), of ThirdParty "''attester:1''"] obtain a1 where
    a1: "shared P (?s 6) ThirdParty ''attester:1'' = Some a1" "attester_key a1 = key_of P 6"
      "binding a1 = (fill 1, fill 2, fill 2, fill 3)" "\<forall>k. is_ok (attestation_verify P a1 k) \<longleftrightarrow> key_of P 6 \<noteq> k" by blast
  from attests [OF mem(5), of ThirdParty "''attester:2''"] obtain a2 where
    a2: "shared P (?s 7) ThirdParty ''attester:2'' = Some a2" "attester_key a2 = key_of P 7"
      "binding a2 = (fill 1, fill 2, fill 2, fill 3)" "\<forall>k. is_ok (attestation_verify P a2 k) \<longleftrightarrow> key_of P 7 \<noteq> k" by blast
  show "test_holds_at_exactly_k P = Some ()"
    by (simp add: test_holds_at_exactly_k_def names a0 a1 a2 steps)
  from attests [OF mem(3), of ThirdParty "''attester:1''"] obtain a where
    a: "shared P (?s 5) ThirdParty ''attester:1'' = Some a" "attester_key a = key_of P 5" "binding a = (fill 1, fill 2, fill 2, fill 3)"
      "\<forall>k. is_ok (attestation_verify P a k) \<longleftrightarrow> key_of P 5 \<noteq> k" by blast
  from attests [OF mem(4), of ThirdParty "''attester:2''"] obtain b where
    b: "shared P (?s 6) ThirdParty ''attester:2'' = Some b" "attester_key b = key_of P 6" "binding b = (fill 1, fill 2, fill 2, fill 3)"
      "\<forall>k. is_ok (attestation_verify P b k) \<longleftrightarrow> key_of P 6 \<noteq> k" by blast
  show "test_fails_one_short P = Some ()"
    by (simp add: test_fails_one_short_def a b steps)
  show "test_duplicate_attester_is_rejected P = Some ()"
    by (simp add: test_duplicate_attester_is_rejected_def a threshold_verify_def)
  from attests [OF mem(2), of ThirdParty "''agent:c@org3''"] obtain own where
    own: "shared P (?s 4) ThirdParty ''agent:c@org3'' = Some own" "attester_key own = key_of P 4"
      "binding own = (fill 1, fill 2, fill 2, fill 3)" "\<forall>k. is_ok (attestation_verify P own k) \<longleftrightarrow> key_of P 4 \<noteq> k" by blast
  show "test_executor_signed_does_not_count P = Some ()"
    by (simp add: test_executor_signed_does_not_count_def a b own steps)
  from shared_attests [OF apart mem(4), of ThirdParty "''attester:2''" 9] obtain d where
    d: "attest_as P ThirdParty (?s 6) (named ''attester:2'') (fill 1) (fill 2) (fill 9) (fill 3) dummy_inclusion = Some d"
      "binding d = (fill 1, fill 2, fill 9, fill 3)" by blast
  show "test_inconsistent_binding_is_rejected P = Some ()"
    by (simp add: test_inconsistent_binding_is_rejected_def a d threshold_verify_def)
  from attests [OF mem(1), of CounterSigned "''agent:b@org2''"] obtain x where
    x: "shared P (?s 3) CounterSigned ''agent:b@org2'' = Some x" "attester_key x = key_of P 3" "ca_role x = CounterSigned"
      "binding x = (fill 1, fill 2, fill 2, fill 3)" "\<forall>k. is_ok (attestation_verify P x k) \<longleftrightarrow> key_of P 3 \<noteq> k" by blast
  from attests [OF mem(6), of ThirdParty "''attester:notary''"] obtain y where
    y: "shared P (?s 8) ThirdParty ''attester:notary'' = Some y" "attester_key y = key_of P 8" "ca_role y = ThirdParty"
      "binding y = (fill 1, fill 2, fill 2, fill 3)" "\<forall>k. is_ok (attestation_verify P y k) \<longleftrightarrow> key_of P 8 \<noteq> k" by blast
  show "test_both_roles_usable P = Some ()"
    by (simp add: test_both_roles_usable_def x y steps)
qed

lemma attestation_tests_pass:
  assumes "attesters_apart P"
  shows "map (\<lambda>test. test P) attestation_crate_tests = replicate 9 (Some ())"
  by (simp add: attestation_crate_tests_def single_attestation_tests [OF assms] tampered_outcome_passes [OF assms]
      bundle_tests [OF assms] numeral_eq_Suc)

end
