(* ===== verification/Property_Tests.thy ===== *)
theory Property_Tests
  imports Log_Tests Chain_Tests Attestation_Tests
begin

text \<open>
  The property tests of \<^verbatim>\<open>core/crypto\<close>, \<^verbatim>\<open>core/chain\<close> and \<^verbatim>\<open>core/verifier\<close>. What the sampler
  draws is an argument, an index it draws a function of the length indexed, and an
  assumption of a test that fails gives the case up. The tests that only ask for a return
  have no counterpart: every definition of the model is total.
\<close>

section \<open>Signatures\<close>

text \<open>\<^verbatim>\<open>bytes[i] = bytes[i].wrapping_add(delta)\<close>; \<open>None\<close> is the panic out of range.\<close>

definition bump_at :: "nat \<Rightarrow> u8 \<Rightarrow> u8 list \<Rightarrow> u8 list option" where
  "bump_at i delta bs = (if i < length bs then Some (bs[i := bs ! i + delta]) else None)"

definition prop_flipped_signature :: "prims \<Rightarrow> bytes32 \<Rightarrow> u8 list \<Rightarrow> (nat \<Rightarrow> nat) \<Rightarrow> u8 \<Rightarrow> unit option" where
  "prop_flipped_signature P seed payload idx delta = do {
     let sg = ed25519_from_seed P seed;
     let pk = sg_public_key sg;
     s \<leftarrow> unwrap (sg_sign sg payload);
     genuine \<leftarrow> unwrap (verify_signature P payload s pk);
     asserts genuine;
     bs \<leftarrow> bump_at (idx (length (sig_bytes s))) delta (sig_bytes s);
     v \<leftarrow> unwrap (verify_signature P payload (s\<lparr>sig_bytes := bs\<rparr>) pk);
     asserts (\<not> v)}"

definition prop_flipped_payload :: "prims \<Rightarrow> bytes32 \<Rightarrow> u8 list \<Rightarrow> (nat \<Rightarrow> nat) \<Rightarrow> u8 \<Rightarrow> unit option" where
  "prop_flipped_payload P seed payload idx delta = do {
     let sg = ed25519_from_seed P seed;
     let pk = sg_public_key sg;
     s \<leftarrow> unwrap (sg_sign sg payload);
     tampered \<leftarrow> bump_at (idx (length payload)) delta payload;
     v \<leftarrow> unwrap (verify_signature P tampered s pk);
     asserts (\<not> v)}"

definition prop_wrong_key :: "prims \<Rightarrow> bytes32 \<Rightarrow> bytes32 \<Rightarrow> u8 list \<Rightarrow> unit option" where
  "prop_wrong_key P seed_a seed_b payload =
     (if seed_a = seed_b then Some ()
      else do {
        let a = ed25519_from_seed P seed_a;
        let b = ed25519_from_seed P seed_b;
        s \<leftarrow> unwrap (sg_sign a payload);
        v \<leftarrow> unwrap (verify_signature P payload s (sg_public_key b));
        asserts (\<not> v)})"

section \<open>Chains\<close>

text \<open>The chain of \<^verbatim>\<open>n\<close> hops with one budget.\<close>

definition hop_round :: "prims \<Rightarrow> nat \<Rightarrow> u64 \<Rightarrow> nat \<Rightarrow> chain \<times> signer \<Rightarrow> (chain \<times> signer) option" where
  "hop_round P n base i = (\<lambda>(c, current). do {
     let next = seed_signer P (of_nat (i + 2));
     c \<leftarrow> unwrap (attenuate P c current (named (''agent'' @ decimal i)) (sg_public_key next)
            (charge_scope base (of_nat (n - i - 1))) (''hop '' @ decimal i));
     Some (c, next)})"

definition build_hops :: "prims \<Rightarrow> nat \<Rightarrow> u64 \<Rightarrow> (chain \<times> public_key) option" where
  "build_hops P n base = do {
     let human = seed_signer P 1;
     c \<leftarrow> chain_issue P human (named ''human'') (charge_scope base (of_nat n));
     (c, _) \<leftarrow> for_each (hop_round P n base) [0..<n] (c, seed_signer P 1);
     Some (c, sg_public_key human)}"

definition prop_valid_chain :: "prims \<Rightarrow> nat \<Rightarrow> u64 \<Rightarrow> unit option" where
  "prop_valid_chain P n base = do {
     (c, root_key) \<leftarrow> build_hops P n base;
     effective \<leftarrow> unwrap (chain_verify P c root_key);
     asserts (budget effective = Some base)}"

definition prop_refuses_widening :: "prims \<Rightarrow> u64 \<Rightarrow> u64 \<Rightarrow> unit option" where
  "prop_refuses_widening P base extra = do {
     let human = seed_signer P 1;
     let a = seed_signer P 2;
     c \<leftarrow> chain_issue P human (named ''human'') (charge_scope base 2);
     err \<leftarrow> expect_err (attenuate P c human (named ''a'') (sg_public_key a) (charge_scope (base + extra) 1) ''grab'');
     asserts (err = ScopeWidened);
     c \<leftarrow> chain_issue P human (named ''human'') (charge_scope base 2);
     let wider = charge_scope base 1;
     let wider = wider\<lparr>permissions := permissions wider @ [permission_action ''payments.refund'']\<rparr>;
     err \<leftarrow> expect_err (attenuate P c human (named ''a'') (sg_public_key a) wider ''grab'');
     asserts (err = ScopeWidened);
     c \<leftarrow> chain_issue P human (named ''human'') (charge_scope base 2);
     asserts (\<not> is_ok (attenuate P c human (named ''a'') (sg_public_key a) (charge_scope base 2) ''grab''))}"

text \<open>The corruption of a block, chosen by its index and a number.\<close>

definition tamper :: "u64 \<Rightarrow> nat \<Rightarrow> u8 \<Rightarrow> chain \<Rightarrow> chain option" where
  "tamper base b which c =
     (if b = 0 then
        do {bs \<leftarrow> bump_at 0 1 (sig_bytes (rb_signature (chain_root c)));
            Some (c\<lparr>chain_root := (chain_root c)\<lparr>rb_signature := (rb_signature (chain_root c))\<lparr>sig_bytes := bs\<rparr>\<rparr>\<rparr>)}
      else if length (delegations c) < b then None
      else do {
        let d = delegations c ! (b - 1);
        d \<leftarrow> (if which = 0 then
                 do {bs \<leftarrow> bump_at 0 1 (sig_bytes (db_signature d));
                     Some (d\<lparr>db_signature := (db_signature d)\<lparr>sig_bytes := bs\<rparr>\<rparr>)}
               else if which = 1 then Some (d\<lparr>db_scope := (db_scope d)\<lparr>budget := Some (base - 1)\<rparr>\<rparr>)
               else Some (d\<lparr>purpose := purpose d @ ''!''\<rparr>));
        Some (c\<lparr>delegations := (delegations c)[b - 1 := d]\<rparr>)})"

definition prop_tampered_is_rejected :: "prims \<Rightarrow> nat \<Rightarrow> u64 \<Rightarrow> (nat \<Rightarrow> nat) \<Rightarrow> u8 \<Rightarrow> unit option" where
  "prop_tampered_is_rejected P n base block which = do {
     (c, root_key) \<leftarrow> build_hops P n base;
     asserts (is_ok (chain_verify P c root_key));
     let b = block (length (delegations c) + 1);
     c \<leftarrow> tamper base b which c;
     asserts (\<not> is_ok (chain_verify P c root_key))}"

definition prop_wrong_root_key :: "prims \<Rightarrow> nat \<Rightarrow> u64 \<Rightarrow> bytes32 \<Rightarrow> unit option" where
  "prop_wrong_root_key P n base seed =
     (if seed = fill 1 then Some ()
      else do {
        (c, _) \<leftarrow> build_hops P n base;
        let attacker = ed25519_from_seed P seed;
        asserts (\<not> is_ok (chain_verify P c (sg_public_key attacker)))})"

section \<open>The composed verdict\<close>

definition sampled_world :: "prims \<Rightarrow> world option" where
  "sampled_world P = do {
     let human = seed_signer P 1;
     let a = seed_signer P 2;
     let b = seed_signer P 3;
     let c = seed_signer P 4;
     let notary = seed_signer P 9;
     let root_key = sg_public_key human;
     c0 \<leftarrow> chain_issue P human (named ''human'') (charge_scope 10000 3);
     c1 \<leftarrow> unwrap (attenuate P c0 human (named ''a'') (sg_public_key a) (charge_scope 5000 2) ''t'');
     c2 \<leftarrow> unwrap (attenuate P c1 a (named ''b'') (sg_public_key b) (charge_scope 5000 1) ''t'');
     c3 \<leftarrow> unwrap (attenuate P c2 b (named ''c'') (sg_public_key c) (charge_scope 4000 0) ''t'');
     Some \<lparr>w_chain = c3, w_root_key = root_key, w_executor = c, w_attester = notary\<rparr>}"

definition sampled_attest ::
  "prims \<Rightarrow> signer \<Rightarrow> chain \<Rightarrow> digest \<Rightarrow> digest \<Rightarrow> digest \<Rightarrow> inclusion_proof \<Rightarrow> completion_attestation option" where
  "sampled_attest P sg c requested outc root pf = attest P sg (named ''att'') (chain_digest P c) requested outc root pf"

definition prop_honest_action :: "prims \<Rightarrow> digest \<Rightarrow> unit option" where
  "prop_honest_action P action = do {
     w \<leftarrow> sampled_world P;
     (receipt, pf, root) \<leftarrow> record_test P (w_chain w) action;
     completion \<leftarrow> sampled_attest P (w_attester w) (w_chain w) action action root pf;
     let pol = policy_third_party [sg_public_key (w_attester w)];
     let va = \<lparr>va_chain = w_chain w, va_receipt = receipt, va_completion = completion\<rparr>;
     asserts (is_ok (verify P va (w_root_key w) root pol))}"

text \<open>The mutations: of a block's signature, the receipt, the outcome, the root, the attester, the request.\<close>

definition mutate ::
  "prims \<Rightarrow> world \<Rightarrow> digest \<Rightarrow> u8 \<Rightarrow> u8 \<Rightarrow> action_receipt \<Rightarrow> inclusion_proof \<Rightarrow> digest \<Rightarrow>
   (chain \<times> action_receipt \<times> digest \<times> completion_attestation) option" where
  "mutate P w action which delta receipt pf root = do {
     let c = w_chain w;
     completion \<leftarrow> sampled_attest P (w_attester w) c action action root pf;
     if which = 0 then
       (case delegations c of
          [] \<Rightarrow> None
        | d # ds \<Rightarrow> do {
            bs \<leftarrow> bump_at 0 delta (sig_bytes (db_signature d));
            Some (c\<lparr>delegations := d\<lparr>db_signature := (db_signature d)\<lparr>sig_bytes := bs\<rparr>\<rparr> # ds\<rparr>, receipt, root, completion)})
     else if which = 1 then Some (c, receipt\<lparr>action_digest := bump delta (action_digest receipt)\<rparr>, root, completion)
     else if which = 2 then
       do {completion \<leftarrow> sampled_attest P (w_attester w) c action (bump delta action) root pf;
           Some (c, receipt, root, completion)}
     else if which = 3 then Some (c, receipt, bump delta root, completion)
     else if which = 4 then
       do {completion \<leftarrow> sampled_attest P (w_executor w) c action action root pf;
           Some (c, receipt, root, completion)}
     else
       do {completion \<leftarrow> sampled_attest P (w_attester w) c (bump delta action) action root pf;
           Some (c, receipt, root, completion)}}"

definition prop_mutation_is_rejected :: "prims \<Rightarrow> digest \<Rightarrow> u8 \<Rightarrow> u8 \<Rightarrow> unit option" where
  "prop_mutation_is_rejected P action which delta = do {
     w \<leftarrow> sampled_world P;
     (receipt, pf, root) \<leftarrow> record_test P (w_chain w) action;
     let pol = policy_third_party [sg_public_key (w_attester w)];
     (c, receipt, trusted, completion) \<leftarrow> mutate P w action which delta receipt pf root;
     let va = \<lparr>va_chain = c, va_receipt = receipt, va_completion = completion\<rparr>;
     asserts (\<not> is_ok (verify P va (w_root_key w) trusted pol))}"

section \<open>Signatures: every input\<close>

lemma ed_answers:
  assumes "ed_good P sd" and "length bs = 64"
  shows "verify_signature P m \<lparr>sig_algorithm = Ed25519, sig_bytes = bs\<rparr> (sg_public_key (ed25519_from_seed P sd)) =
    Inr (ed_check P (ed_public P sd) m bs)"
  using assms by (simp add: ed_good_def ed25519_from_seed_def ed25519_verify_def)

lemma ed_signs: "sg_sign (ed25519_from_seed P sd) m = Inr \<lparr>sig_algorithm = Ed25519, sig_bytes = ed_raw_sign P sd m\<rparr>"
  by (simp add: ed25519_from_seed_def)

lemma bump_at_Some: "i < length bs \<Longrightarrow> bump_at i delta bs = Some (bs[i := bs ! i + delta])"
  by (simp add: bump_at_def)

text \<open>A changed byte makes a signature, or the message it is read with, a wrong one.\<close>

definition bytes_bind :: "prims \<Rightarrow> bytes32 \<Rightarrow> u8 list \<Rightarrow> bool" where
  "bytes_bind P sd m \<longleftrightarrow>
     (\<forall>i bs d. bump_at i d (ed_raw_sign P sd m) = Some bs \<and> d \<noteq> 0 \<longrightarrow> \<not> ed_check P (ed_public P sd) m bs)"

definition message_binds :: "prims \<Rightarrow> bytes32 \<Rightarrow> u8 list \<Rightarrow> bool" where
  "message_binds P sd m \<longleftrightarrow>
     (\<forall>i m' d. bump_at i d m = Some m' \<and> d \<noteq> 0 \<longrightarrow> \<not> ed_check P (ed_public P sd) m' (ed_raw_sign P sd m))"

lemma flipped_signature:
  assumes "ed_good P sd" and "sample_index idx" and "delta \<noteq> 0" and "bytes_bind P sd m"
  shows "prop_flipped_signature P sd m idx delta = Some ()"
proof -
  let ?s = "ed_raw_sign P sd m"
  have s: "length ?s = 64" "ed_check P (ed_public P sd) m ?s" using assms(1) by (simp_all add: ed_good_def)
  then have i: "idx (length ?s) < length ?s" using assms(2) by (simp add: sample_index_def)
  note b = bump_at_Some [OF i, of delta]
  with assms(3,4) have "\<not> ed_check P (ed_public P sd) m (?s[idx (length ?s) := ?s ! idx (length ?s) + delta])"
    by (auto simp: bytes_bind_def)
  with s b show ?thesis
    by (simp add: prop_flipped_signature_def ed_signs ed_answers [OF assms(1)] Let_def)
qed

lemma flipped_payload:
  assumes "ed_good P sd" and "sample_index idx" and "m \<noteq> []" and "delta \<noteq> 0" and "message_binds P sd m"
  shows "prop_flipped_payload P sd m idx delta = Some ()"
proof -
  have i: "idx (length m) < length m" using assms(2,3) by (simp add: sample_index_def)
  note b = bump_at_Some [OF i, of delta]
  with assms(4,5) have "\<not> ed_check P (ed_public P sd) (m[idx (length m) := m ! idx (length m) + delta]) (ed_raw_sign P sd m)"
    by (auto simp: message_binds_def)
  moreover have "length (ed_raw_sign P sd m) = 64" using assms(1) by (simp add: ed_good_def)
  ultimately show ?thesis
    using b by (simp add: prop_flipped_payload_def ed_signs ed_answers [OF assms(1)] Let_def)
qed

lemma wrong_key:
  assumes "ed_good P sd" and "ed_good P sd'"
    and "sd \<noteq> sd' \<longrightarrow> \<not> ed_check P (ed_public P sd') m (ed_raw_sign P sd m)"
  shows "prop_wrong_key P sd sd' m = Some ()"
proof -
  have "length (ed_raw_sign P sd m) = 64" using assms(1) by (simp add: ed_good_def)
  then show ?thesis
    using assms(3) by (simp add: prop_wrong_key_def ed_signs ed_answers [OF assms(2)] Let_def)
qed

section \<open>Chains: every input\<close>

text \<open>What a hop of the sampled chain carries.\<close>

definition hop_carries :: "prims \<Rightarrow> nat \<Rightarrow> u64 \<Rightarrow> nat \<Rightarrow> delegation_block \<Rightarrow> bool" where
  "hop_carries P n base i d \<longleftrightarrow>
     from_key d = sg_public_key (seed_signer P (of_nat (i + 1))) \<and> db_scope d = charge_scope base (of_nat (n - i - 1)) \<and>
     db_signature d = \<lparr>sig_algorithm = Ed25519, sig_bytes = ed_raw_sign P (fill (of_nat (i + 1))) (jcs P (block_payload_json d))\<rparr>"

definition hops_ok :: "prims \<Rightarrow> nat \<Rightarrow> u64 \<Rightarrow> nat \<Rightarrow> chain \<times> signer \<Rightarrow> bool" where
  "hops_ok P n base i = (\<lambda>(c, current).
     built P (sg_public_key (seed_signer P 1)) c \<and> current = seed_signer P (of_nat (i + 1)) \<and>
     (\<exists>p h. chain_tail P c = (charge_scope base (of_nat (n - i)), sg_public_key current, p, h)) \<and>
     length (delegations c) = i \<and> (\<forall>j < i. hop_carries P n base j (delegations c ! j)) \<and>
     principal_key (chain_root c) = sg_public_key (seed_signer P 1) \<and>
     rb_signature (chain_root c) = \<lparr>sig_algorithm = Ed25519, sig_bytes = ed_raw_sign P (fill 1)
       (root_signing_payload P (rb_principal (chain_root c)) (principal_key (chain_root c)) (rb_scope (chain_root c)))\<rparr>)"

definition hop_seeds :: "prims \<Rightarrow> nat \<Rightarrow> bool" where
  "hop_seeds P n \<longleftrightarrow> n + 1 < 2 ^ 32 \<and> (\<forall>i \<le> n. ed_good P (fill (of_nat (i + 1))))"

lemma hop_purpose: "\<not> trim_is_empty (''hop '' @ xs)"
  by (simp add: trim_is_empty_def str_bytes_def)

lemma hop_depth: "n < 2 ^ 32 \<Longrightarrow> i < n \<Longrightarrow> (of_nat (n - Suc i) :: u32) < of_nat (n - i)"
proof -
  assume "n < 2 ^ 32" "i < n"
  then have "unat (of_nat (n - Suc i) :: u32) = n - Suc i" "unat (of_nat (n - i) :: u32) = n - i"
    by (simp_all only: unat_of_nat) simp_all
  then show "(of_nat (n - Suc i) :: u32) < of_nat (n - i)"
    using \<open>i < n\<close> by (simp only: word_less_nat_alt)
qed

lemma hop_round_ok:
  assumes seeds: "hop_seeds P n" and i: "i < n" and s: "hops_ok P n base i s"
  shows "\<exists>s'. hop_round P n base i s = Some s' \<and> hops_ok P n base (Suc i) s'"
proof -
  obtain c where c: "s = (c, seed_signer P (of_nat (i + 1)))" using s by (cases s) (simp add: hops_ok_def)
  let ?sg = "seed_signer P (of_nat (i + 1))" and ?next = "seed_signer P (of_nat (i + 2))"
  from s c obtain p h where tail: "chain_tail P c = (charge_scope base (of_nat (n - i)), sg_public_key ?sg, p, h)"
    and bt: "built P (sg_public_key (seed_signer P 1)) c" by (auto simp: hops_ok_def)
  have ok: "signer_ok P ?sg" by (rule ed.ok) (use seeds i in \<open>simp add: hop_seeds_def\<close>)
  have depth: "(of_nat (n - i - 1) :: u32) < of_nat (n - i)" using hop_depth [of n i] seeds i by (simp add: hop_seeds_def)
  have "\<exists>c' h'. attenuate P c ?sg (named (''agent'' @ decimal i)) (sg_public_key ?next)
       (charge_scope base (of_nat (n - i - 1))) (''hop '' @ decimal i) = Inr c' \<and>
      built P (sg_public_key (seed_signer P 1)) c' \<and>
      chain_tail P c' = (charge_scope base (of_nat (n - i - 1)), sg_public_key ?next, named (''agent'' @ decimal i), h')"
    by (rule attenuate_step [OF ok bt tail hop_purpose]) (use depth in simp_all)
  then obtain c' h' where c': "attenuate P c ?sg (named (''agent'' @ decimal i)) (sg_public_key ?next)
       (charge_scope base (of_nat (n - i - 1))) (''hop '' @ decimal i) = Inr c'"
    "built P (sg_public_key (seed_signer P 1)) c'"
    "chain_tail P c' = (charge_scope base (of_nat (n - i - 1)), sg_public_key ?next, named (''agent'' @ decimal i), h')" by blast
  from c'(1) tail obtain d where d: "delegations c' = delegations c @ [d]" "chain_root c' = chain_root c" "hop_carries P n base i d"
    by (auto simp: attenuate_iff hop_carries_def ed_signs block_payload_json_def)
  then have "\<forall>j < Suc i. hop_carries P n base j (delegations c' ! j)"
    using s c by (auto simp: hops_ok_def nth_append less_Suc_eq)
  then have "hops_ok P n base (Suc i) (c', ?next)"
    using s c c'(2,3) d by (auto simp: hops_ok_def)
  with c c'(1) show ?thesis by (simp add: hop_round_def)
qed

lemma build_hops_ok:
  assumes "hop_seeds P n"
  obtains c where "build_hops P n base = Some (c, sg_public_key (seed_signer P 1))"
    and "hops_ok P n base n (c, seed_signer P (of_nat (n + 1)))"
proof -
  let ?sg = "seed_signer P 1"
  have "ed_good P (fill 1)" using assms by (auto simp: hop_seeds_def dest: spec [of _ 0])
  from issue_tail [OF ed.ok [OF this], of "named ''human''" "charge_scope base (of_nat n)"] obtain c h where
    c: "chain_issue P ?sg (named ''human'') (charge_scope base (of_nat n)) = Some c" "built P (sg_public_key ?sg) c"
      "chain_tail P c = (charge_scope base (of_nat n), sg_public_key ?sg, named ''human'', h)" by blast
  then have start: "hops_ok P n base 0 (c, ?sg)" by (auto simp: hops_ok_def chain_issue_iff ed_signs)
  have "\<exists>s. for_each (hop_round P n base) [0..<n] (c, ?sg) = Some s \<and> hops_ok P n base n s"
    by (rule for_upt_ok [where I = "hops_ok P n base"]) (use start hop_round_ok [OF assms] in simp_all)
  then obtain s where s: "for_each (hop_round P n base) [0..<n] (c, ?sg) = Some s" "hops_ok P n base n s" by blast
  then obtain c' where c': "s = (c', seed_signer P (of_nat (n + 1)))" by (cases s) (simp add: hops_ok_def)
  show thesis by (rule that [of c']) (use c(1) s c' in \<open>simp_all add: build_hops_def\<close>)
qed

lemma valid_chain:
  assumes "hop_seeds P n"
  shows "prop_valid_chain P n base = Some ()"
proof -
  obtain c where c: "build_hops P n base = Some (c, sg_public_key (seed_signer P 1))"
    "hops_ok P n base n (c, seed_signer P (of_nat (n + 1)))" by (rule build_hops_ok [OF assms])
  then have "built P (sg_public_key (seed_signer P 1)) c" "fst (chain_tail P c) = charge_scope base 0" by (auto simp: hops_ok_def)
  with chain_verify_ok [OF built_ok [OF this(1)]] c(1) show ?thesis by (simp add: prop_valid_chain_def charge_scope_def)
qed

lemma refuses_widening:
  assumes "ed_good P (fill 1)" and "0 < extra" and "unat base + unat extra < 2 ^ 64"
  shows "prop_refuses_widening P base extra = Some ()"
proof -
  let ?sg = "seed_signer P 1" and ?a = "seed_signer P 2"
  let ?wider = "(charge_scope base 1)\<lparr>permissions := permissions (charge_scope base 1) @ [permission_action ''payments.refund'']\<rparr>"
  from issue_tail [OF ed.ok [OF assms(1)], of "named ''human''" "charge_scope base 2"] obtain c h where
    c: "chain_issue P ?sg (named ''human'') (charge_scope base 2) = Some c"
      "chain_tail P c = (charge_scope base 2, sg_public_key ?sg, named ''human'', h)" by blast
  have said: "\<not> trim_is_empty ''grab''" by code_simp
  have "base < base + extra" using assms(2,3) by (simp add: word_less_nat_alt unat_word_ariths)
  then have 1: "is_narrowing_of (charge_scope (base + extra) 1) (charge_scope base 2) = Inl ScopeWidened"
    by (simp add: is_narrowing_of_def charge_scope_def)
  have 2: "is_narrowing_of ?wider (charge_scope base 2) = Inl ScopeWidened"
    by (simp add: is_narrowing_of_def charge_scope_def authorizes_subset_of_def permission_action_def)
  have 3: "is_narrowing_of (charge_scope base 2) (charge_scope base 2) = Inr ()" by (simp add: is_narrowing_of_iff)
  have "attenuate P c ?sg (named ''a'') (sg_public_key ?a) (charge_scope (base + extra) 1) ''grab'' = Inl ScopeWidened"
    "attenuate P c ?sg (named ''a'') (sg_public_key ?a) ?wider ''grab'' = Inl ScopeWidened"
    "attenuate P c ?sg (named ''a'') (sg_public_key ?a) (charge_scope base 2) ''grab'' = Inl ScopeWidened"
    using said 1 2 3 by (simp_all add: attenuate_def c(2))
  with c(1) show ?thesis by (simp add: prop_refuses_widening_def is_ok_def Let_def)
qed

lemma wrong_root_key:
  assumes "hop_seeds P n" and "seed \<noteq> fill 1 \<longrightarrow> ed_public P seed \<noteq> ed_public P (fill 1)"
  shows "prop_wrong_root_key P n base seed = Some ()"
proof -
  obtain c where c: "build_hops P n base = Some (c, sg_public_key (seed_signer P 1))"
    "hops_ok P n base n (c, seed_signer P (of_nat (n + 1)))" by (rule build_hops_ok [OF assms(1)])
  then have "principal_key (chain_root c) = sg_public_key (seed_signer P 1)" by (simp add: hops_ok_def)
  then have "\<not> is_ok (chain_verify P c (sg_public_key (ed25519_from_seed P seed)))" if "seed \<noteq> fill 1"
    using assms(2) that by (auto simp: is_ok_iff chain_verify_iff chain_ok_def ed25519_from_seed_def)
  with c(1) show ?thesis by (simp add: prop_wrong_root_key_def Let_def)
qed

text \<open>
  What rejecting the tampered chain relies on: no signature of the chain survives a change
  of its first byte, and none is one of the block with another budget or purpose.
\<close>

definition tamper_apart :: "prims \<Rightarrow> nat \<Rightarrow> u64 \<Rightarrow> bool" where
  "tamper_apart P n base \<longleftrightarrow>
     (case build_hops P n base of
        None \<Rightarrow> True
      | Some (c, _) \<Rightarrow>
          bytes_bind P (fill 1) (root_signing_payload P (rb_principal (chain_root c)) (principal_key (chain_root c)) (rb_scope (chain_root c))) \<and>
          (\<forall>i < length (delegations c).
            let d = delegations c ! i; sd = fill (of_nat (i + 1))
            in bytes_bind P sd (jcs P (block_payload_json d)) \<and>
               signs_apart P sd {block_payload_json d,
                 block_payload_json (d\<lparr>db_scope := (db_scope d)\<lparr>budget := Some (base - 1)\<rparr>\<rparr>),
                 block_payload_json (d\<lparr>purpose := purpose d @ ''!''\<rparr>)}))"

lemma ed_head_bump:
  assumes "ed_good P sd"
  obtains bs where "bump_at 0 1 (ed_raw_sign P sd m) = Some bs" "length bs = 64"
  using assms bump_at_Some [of 0 "ed_raw_sign P sd m" 1] by (auto simp: ed_good_def)

lemma unsigned_block_rejected:
  assumes "i < length (delegations c)" and "\<not> block_signed P d"
  shows "\<not> is_ok (chain_verify P (c\<lparr>delegations := (delegations c)[i := d]\<rparr>) rk)"
proof -
  have "d \<in> set ((delegations c)[i := d])" using assms(1) by (rule set_update_memI)
  with chain_ok_block_signed [of P "c\<lparr>delegations := (delegations c)[i := d]\<rparr>" rk d] assms(2) show ?thesis
    by (auto simp: is_ok_iff chain_verify_iff)
qed

lemma tampered_block_unsigned:
  assumes good: "ed_good P (fill (of_nat (i + 1)))" and d: "hop_carries P n base i d" and base: "0 < base"
    and apart: "bytes_bind P (fill (of_nat (i + 1))) (jcs P (block_payload_json d))"
      "signs_apart P (fill (of_nat (i + 1))) {block_payload_json d,
         block_payload_json (d\<lparr>db_scope := (db_scope d)\<lparr>budget := Some (base - 1)\<rparr>\<rparr>),
         block_payload_json (d\<lparr>purpose := purpose d @ ''!''\<rparr>)}"
  shows "bump_at 0 1 (sig_bytes (db_signature d)) = Some bs \<Longrightarrow>
      \<not> block_signed P (d\<lparr>db_signature := (db_signature d)\<lparr>sig_bytes := bs\<rparr>\<rparr>)"
    and "\<not> block_signed P (d\<lparr>db_scope := (db_scope d)\<lparr>budget := Some (base - 1)\<rparr>\<rparr>)"
    and "\<not> block_signed P (d\<lparr>purpose := purpose d @ ''!''\<rparr>)"
proof -
  let ?sd = "fill (of_nat (i + 1))"
  have key: "from_key d = sg_public_key (ed25519_from_seed P ?sd)"
    and sig: "db_signature d = \<lparr>sig_algorithm = Ed25519, sig_bytes = ed_raw_sign P ?sd (jcs P (block_payload_json d))\<rparr>"
    and budget: "budget (db_scope d) = Some base" using d by (simp_all add: hop_carries_def charge_scope_def)
  have len: "length (ed_raw_sign P ?sd m) = 64" for m using good by (simp add: ed_good_def)
  show "\<not> block_signed P (d\<lparr>db_signature := (db_signature d)\<lparr>sig_bytes := bs\<rparr>\<rparr>)"
    if b: "bump_at 0 1 (sig_bytes (db_signature d)) = Some bs"
  proof -
    from b have b': "bump_at 0 1 (ed_raw_sign P ?sd (jcs P (block_payload_json d))) = Some bs" by (simp only: sig signature.simps)
    then have "length bs = length (ed_raw_sign P ?sd (jcs P (block_payload_json d)))" by (auto simp: bump_at_def split: if_splits)
    with b' have "length bs = 64" "bump_at 0 1 (ed_raw_sign P ?sd (jcs P (block_payload_json d))) = Some bs"
      by (simp_all only: len)
    moreover from this(2) have "\<not> ed_check P (ed_public P ?sd) (jcs P (block_payload_json d)) bs"
      using apart(1) [unfolded bytes_bind_def, rule_format, of 0 1 bs] by simp
    ultimately show ?thesis
      using ed_answers [OF good] by (simp add: block_signed_def key sig block_payload_json_def)
  qed
  have other: "\<not> block_signed P d'" if "db_signature d' = db_signature d" "from_key d' = from_key d"
    "block_payload_json d' \<noteq> block_payload_json d"
    "block_payload_json d' \<in> {block_payload_json (d\<lparr>db_scope := (db_scope d)\<lparr>budget := Some (base - 1)\<rparr>\<rparr>),
         block_payload_json (d\<lparr>purpose := purpose d @ ''!''\<rparr>)}" for d'
  proof -
    have "\<not> ed_check P (ed_public P ?sd) (jcs P (block_payload_json d')) (ed_raw_sign P ?sd (jcs P (block_payload_json d)))"
      using bspec [OF bspec [OF apart(2) [unfolded signs_apart_def] insertI1] insertI2 [OF that(4)]] that(3) by auto
    then show ?thesis
      using ed_answers [OF good len] by (simp add: block_signed_def that(1,2) key sig)
  qed
  have "base - 1 \<noteq> base" by simp
  then show "\<not> block_signed P (d\<lparr>db_scope := (db_scope d)\<lparr>budget := Some (base - 1)\<rparr>\<rparr>)"
    using budget by (intro other) (auto simp: block_payload_json_def scope.defs dest: arg_cong [of _ _ scope.budget])
  show "\<not> block_signed P (d\<lparr>purpose := purpose d @ ''!''\<rparr>)"
    by (rule other) (auto simp: block_payload_json_def)
qed

lemma root_tamper_rejected:
  assumes good: "ed_good P (fill 1)" and root: "principal_key (chain_root c) = sg_public_key (seed_signer P 1)"
    "rb_signature (chain_root c) = \<lparr>sig_algorithm = Ed25519, sig_bytes = ed_raw_sign P (fill 1) m\<rparr>"
    "m = root_signing_payload P (rb_principal (chain_root c)) (principal_key (chain_root c)) (rb_scope (chain_root c))"
    and binds: "bytes_bind P (fill 1) m"
  shows "\<exists>c'. tamper base 0 which c = Some c' \<and> \<not> is_ok (chain_verify P c' rk)"
proof -
  obtain bs where bs: "bump_at 0 1 (ed_raw_sign P (fill 1) m) = Some bs" "length bs = 64" by (rule ed_head_bump [OF good])
  let ?c = "c\<lparr>chain_root := (chain_root c)\<lparr>rb_signature := (rb_signature (chain_root c))\<lparr>sig_bytes := bs\<rparr>\<rparr>\<rparr>"
  have "\<not> ed_check P (ed_public P (fill 1)) m bs"
    using binds [unfolded bytes_bind_def, rule_format, of 0 1 bs] bs(1) by simp
  then have "\<not> root_signed P (chain_root ?c)"
    using ed_answers [OF good bs(2), of m] by (simp add: root_signed_def root)
  then have "\<not> is_ok (chain_verify P ?c rk)" by (auto simp: is_ok_iff chain_verify_iff chain_ok_def)
  then show ?thesis using bs(1) by (simp add: tamper_def root(2))
qed

lemma tampered_is_rejected:
  assumes seeds: "hop_seeds P n" and idx: "sample_index block" and base: "0 < base" and apart: "tamper_apart P n base"
  shows "prop_tampered_is_rejected P n base block which = Some ()"
proof -
  obtain c where c: "build_hops P n base = Some (c, sg_public_key (seed_signer P 1))"
    "hops_ok P n base n (c, seed_signer P (of_nat (n + 1)))" by (rule build_hops_ok [OF seeds])
  let ?rk = "sg_public_key (seed_signer P 1)" and ?b = "block (n + 1)"
  from c(2) have bt: "built P ?rk c" and len: "length (delegations c) = n"
    and hop: "\<And>j. j < n \<Longrightarrow> hop_carries P n base j (delegations c ! j)" by (simp_all add: hops_ok_def)
  note applies = apart [unfolded tamper_apart_def, simplified c(1), simplified]
  have b: "?b < n + 1" using idx unfolding sample_index_def by simp
  have "\<exists>c'. tamper base ?b which c = Some c' \<and> \<not> is_ok (chain_verify P c' ?rk)"
  proof (cases ?b)
    case 0
    have "ed_good P (fill 1)" using seeds by (auto simp: hop_seeds_def dest: spec [of _ 0])
    then show ?thesis
      unfolding 0 by (rule root_tamper_rejected [OF _ _ _ refl]) (use c(2) applies in \<open>simp_all add: hops_ok_def\<close>)
  next
    case (Suc i)
    with b have i: "i < n" by simp
    let ?d = "delegations c ! i"
    have good: "ed_good P (fill (of_nat (i + 1)))" using seeds i by (simp add: hop_seeds_def)
    have sep: "bytes_bind P (fill (of_nat (i + 1))) (jcs P (block_payload_json ?d))"
      "signs_apart P (fill (of_nat (i + 1))) {block_payload_json ?d,
         block_payload_json (?d\<lparr>db_scope := (db_scope ?d)\<lparr>budget := Some (base - 1)\<rparr>\<rparr>),
         block_payload_json (?d\<lparr>purpose := purpose ?d @ ''!''\<rparr>)}"
      using applies i by (simp_all add: len Let_def)
    note unsigned = tampered_block_unsigned [OF good hop [OF i] base sep]
    obtain bs where bs: "bump_at 0 1 (sig_bytes (db_signature ?d)) = Some bs"
      using hop [OF i] ed_head_bump [OF good] by (metis hop_carries_def signature.select_convs(2))
    show ?thesis
      unfolding Suc
      using unsigned_block_rejected [of i c P _ ?rk] unsigned(1) [OF bs] unsigned(2,3) i len bs
      by (simp add: tamper_def Let_def)
  qed
  with c(1) len chain_verify_ok [OF built_ok [OF bt]] show ?thesis
    by (auto simp: prop_tampered_is_rejected_def is_ok_def Let_def)
qed

section \<open>The composed verdict: every input\<close>

lemma sampled_world_ok:
  assumes keys: "test_keys P"
  obtains c d ds where "sampled_world P = Some \<lparr>w_chain = c, w_root_key = sg_public_key (seed_signer P 1),
      w_executor = seed_signer P 4, w_attester = seed_signer P 9\<rparr>"
    and "built P (sg_public_key (seed_signer P 1)) c" and "executor_key c = sg_public_key (seed_signer P 4)"
    and "delegations c = d # ds" and "from_key d = sg_public_key (seed_signer P 1)"
    and "db_signature d = \<lparr>sig_algorithm = Ed25519, sig_bytes = ed_raw_sign P (fill 1) (jcs P (block_payload_json d))\<rparr>"
proof -
  let ?s = "\<lambda>b. seed_signer P b"
  have ok: "signer_ok P (?s 1)" "signer_ok P (?s 2)" "signer_ok P (?s 3)"
    by (simp_all add: ed.ok test_keysD(1) [OF keys])
  have said: "\<not> trim_is_empty ''t''" by code_simp
  from issue_tail [OF ok(1)] obtain c0 h0 where
    0: "chain_issue P (?s 1) (named ''human'') (charge_scope 10000 3) = Some c0"
      "built P (sg_public_key (?s 1)) c0" "chain_tail P c0 = (charge_scope 10000 3, sg_public_key (?s 1), named ''human'', h0)"
    by meson
  from attenuate_step [OF ok(1) 0(2,3) said, of "charge_scope 5000 2"] obtain c1 h1 where
    1: "attenuate P c0 (?s 1) (named ''a'') (sg_public_key (?s 2)) (charge_scope 5000 2) ''t'' = Inr c1"
      "built P (sg_public_key (?s 1)) c1" "chain_tail P c1 = (charge_scope 5000 2, sg_public_key (?s 2), named ''a'', h1)"
    by simp meson
  from attenuate_step [OF ok(2) 1(2,3) said, of "charge_scope 5000 1"] obtain c2 h2 where
    2: "attenuate P c1 (?s 2) (named ''b'') (sg_public_key (?s 3)) (charge_scope 5000 1) ''t'' = Inr c2"
      "built P (sg_public_key (?s 1)) c2" "chain_tail P c2 = (charge_scope 5000 1, sg_public_key (?s 3), named ''b'', h2)"
    by simp meson
  from attenuate_step [OF ok(3) 2(2,3) said, of "charge_scope 4000 0"] obtain c3 h3 where
    3: "attenuate P c2 (?s 3) (named ''c'') (sg_public_key (?s 4)) (charge_scope 4000 0) ''t'' = Inr c3"
      "built P (sg_public_key (?s 1)) c3" "chain_tail P c3 = (charge_scope 4000 0, sg_public_key (?s 4), named ''c'', h3)"
    by simp meson
  have "delegations c0 = []" using 0(1) by (auto simp: chain_issue_iff)
  then obtain d ds where d: "delegations c3 = d # ds" "from_key d = sg_public_key (?s 1)"
    "db_signature d = \<lparr>sig_algorithm = Ed25519, sig_bytes = ed_raw_sign P (fill 1) (jcs P (block_payload_json d))\<rparr>"
    using 0(3) 1(1) 2(1) 3(1) by (auto simp: attenuate_iff ed_signs block_payload_json_def)
  show thesis
    by (rule that [OF _ 3(2) _ d]) (use 0(1) 1(1) 2(1) 3(1) d(1) executor_key_tail [OF _ 3(3)] in \<open>simp_all add: sampled_world_def\<close>)
qed

text \<open>The verdict over what the parties of the sampled world attest.\<close>

lemma sampled_verdict:
  assumes keys: "test_keys P" and b: "b \<in> {3, 4, 9, 10, 66}" and c: "built P rk c" "executor_key c = sg_public_key (seed_signer P 4)"
  shows "\<exists>a. sampled_attest P (seed_signer P b) c req outc root first_proof = Some a \<and>
    (\<forall>r trusted. is_ok (verify P \<lparr>va_chain = c, va_receipt = r, va_completion = a\<rparr> rk trusted
        (policy_third_party [sg_public_key (seed_signer P 9)])) \<longleftrightarrow>
      chain_digest_of r = chain_digest P c \<and> root = trusted \<and> verify_inclusion P r first_proof trusted \<and> b = 9 \<and>
      outc = action_digest r \<and> req = action_digest r)"
proof -
  have key: "sg_public_key (seed_signer P b) = sg_public_key (seed_signer P 9) \<longleftrightarrow> b = 9"
    using test_keysD(2) [OF keys b, of 9] by simp
  have steps: "is_ok (if t then Inl e else m) \<longleftrightarrow> \<not> t \<and> is_ok m" "is_ok (Inr x)" for t e x and m :: "verify_error + scope"
    by (simp_all add: is_ok_def)
  from seed_verdict [OF keys b c, of ThirdParty "named ''att''" "chain_digest P c" req outc root first_proof] obtain a where
    a: "sampled_attest P (seed_signer P b) c req outc root first_proof = Some a" and v: "\<forall>r trusted pol.
      verify P \<lparr>va_chain = c, va_receipt = r, va_completion = a\<rparr> rk trusted pol =
      (if chain_digest_of r \<noteq> chain_digest P c \<or> chain_digest P c \<noteq> chain_digest P c then Inl ChainBindingMismatch
       else if root \<noteq> trusted then Inl Equivocation
       else if \<not> verify_inclusion P r first_proof trusted then Inl Omission
       else if b = 4 then Inl (VerifyAttestation NotIndependent)
       else if \<not> (sg_public_key (seed_signer P b) \<in> set (trusted_attesters pol)) then Inl AttesterNotAnchored
       else if outc \<noteq> action_digest r then Inl OutcomeMismatch
       else if req \<noteq> action_digest r then Inl ActionDigestInconsistent
       else Inr (fst (chain_tail P c)))"
    unfolding sampled_attest_def attest_def attester_role.case by blast
  show ?thesis
    by (intro exI [of _ a]) (auto simp: a v steps policy_third_party_def key)
qed

lemma honest_action_sampled:
  assumes keys: "test_keys P"
  shows "prop_honest_action P action = Some ()"
proof -
  obtain c d ds where w: "sampled_world P = Some \<lparr>w_chain = c, w_root_key = sg_public_key (seed_signer P 1),
      w_executor = seed_signer P 4, w_attester = seed_signer P 9\<rparr>"
    and c: "built P (sg_public_key (seed_signer P 1)) c" "executor_key c = sg_public_key (seed_signer P 4)"
    by (rule sampled_world_ok [OF keys])
  from sampled_verdict [OF keys _ c, of 9 action action "log_root P [test_receipt P c action]"] obtain a where
    "sampled_attest P (seed_signer P 9) c action action (log_root P [test_receipt P c action]) first_proof = Some a"
    "is_ok (verify P \<lparr>va_chain = c, va_receipt = test_receipt P c action, va_completion = a\<rparr> (sg_public_key (seed_signer P 1))
       (log_root P [test_receipt P c action]) (policy_third_party [sg_public_key (seed_signer P 9)]))" by auto
  then show ?thesis by (simp add: prop_honest_action_def w record_test_ok Let_def)
qed

lemma first_signature_changed:
  assumes good: "ed_good P (fill 1)" and d: "delegations c = d # ds" "from_key d = sg_public_key (seed_signer P 1)"
      "db_signature d = \<lparr>sig_algorithm = Ed25519, sig_bytes = ed_raw_sign P (fill 1) (jcs P (block_payload_json d))\<rparr>"
    and binds: "\<And>m. bytes_bind P (fill 1) m" and delta: "delta \<noteq> 0"
  shows "\<exists>bs. bump_at 0 delta (ed_raw_sign P (fill 1) (jcs P (block_payload_json d))) = Some bs \<and>
    (\<forall>act rk t pol. va_chain act = c\<lparr>delegations := d\<lparr>db_signature := (db_signature d)\<lparr>sig_bytes := bs\<rparr>\<rparr> # ds\<rparr> \<longrightarrow>
      \<not> is_ok (verify P act rk t pol))"
proof -
  let ?m = "jcs P (block_payload_json d)"
  have len: "length (ed_raw_sign P (fill 1) m) = 64" for m using good by (simp add: ed_good_def)
  from bump_at_Some [of 0 "ed_raw_sign P (fill 1) ?m" delta] obtain bs where
    bs: "bump_at 0 delta (ed_raw_sign P (fill 1) ?m) = Some bs" "length bs = 64" by (auto simp: len)
  let ?d = "d\<lparr>db_signature := (db_signature d)\<lparr>sig_bytes := bs\<rparr>\<rparr>"
  have "\<not> ed_check P (ed_public P (fill 1)) ?m bs"
    using binds [unfolded bytes_bind_def, rule_format, where i = 0 and bs = bs and d = delta] bs(1) delta by blast
  then have "\<not> block_signed P ?d"
    using ed_answers [OF good bs(2)] by (simp add: block_signed_def block_payload_json_def d(2,3))
  from unsigned_block_rejected [of 0 c P, OF _ this] d(1) have
    "\<not> is_ok (chain_verify P (c\<lparr>delegations := ?d # ds\<rparr>) rk)" for rk by simp
  then have "\<not> is_ok (verify P act rk t pol)" if "va_chain act = c\<lparr>delegations := ?d # ds\<rparr>" for act rk t pol
    using that by (auto simp: is_ok_iff verify_iff chain_verify_iff)
  with bs(1) show ?thesis by blast
qed

lemma mutation_sampled:
  assumes keys: "test_keys P" and binds: "\<And>m. bytes_bind P (fill 1) m" and delta: "delta \<noteq> 0"
  shows "prop_mutation_is_rejected P action which delta = Some ()"
proof -
  obtain c d ds where w: "sampled_world P = Some \<lparr>w_chain = c, w_root_key = sg_public_key (seed_signer P 1),
      w_executor = seed_signer P 4, w_attester = seed_signer P 9\<rparr>"
    and c: "built P (sg_public_key (seed_signer P 1)) c" "executor_key c = sg_public_key (seed_signer P 4)"
    and d: "delegations c = d # ds" "from_key d = sg_public_key (seed_signer P 1)"
      "db_signature d = \<lparr>sig_algorithm = Ed25519, sig_bytes = ed_raw_sign P (fill 1) (jcs P (block_payload_json d))\<rparr>"
    by (rule sampled_world_ok [OF keys])
  let ?rk = "sg_public_key (seed_signer P 1)" and ?r = "test_receipt P c action"
  let ?root = "log_root P [?r]" and ?pol = "policy_third_party [sg_public_key (seed_signer P 9)]"
  have good: "ed_good P (fill 1)" by (rule test_keysD(1) [OF keys]) simp
  from first_signature_changed [OF good d binds delta] obtain bs where
    bs: "bump_at 0 delta (ed_raw_sign P (fill 1) (jcs P (block_payload_json d))) = Some bs"
    and changed: "\<forall>act rk t pol. va_chain act = c\<lparr>delegations := d\<lparr>db_signature := (db_signature d)\<lparr>sig_bytes := bs\<rparr>\<rparr> # ds\<rparr> \<longrightarrow>
      \<not> is_ok (verify P act rk t pol)" by meson
  have chain: "\<not> is_ok (verify P \<lparr>va_chain = c\<lparr>delegations := d\<lparr>db_signature := (db_signature d)\<lparr>sig_bytes := bs\<rparr>\<rparr> # ds\<rparr>,
      va_receipt = r, va_completion = a\<rparr> ?rk t ?pol)" for r a t
    by (rule changed [rule_format]) simp
  note verdict = sampled_verdict [OF keys _ c]
  note bumped = bump_differs [OF delta]
  have nine: "(9 :: u8) \<in> {3, 4, 9, 10, 66}" and four: "(4 :: u8) \<in> {3, 4, 9, 10, 66}" by simp_all
  from verdict [OF nine, of action action ?root] obtain a where a: "sampled_attest P (seed_signer P 9) c action action ?root first_proof = Some a"
    "\<forall>r t. is_ok (verify P \<lparr>va_chain = c, va_receipt = r, va_completion = a\<rparr> ?rk t ?pol) \<longrightarrow> ?root = t \<and> action = action_digest r"
    by blast
  have attests: "\<exists>a. sampled_attest P (seed_signer P b) c req outc ?root first_proof = Some a \<and>
      \<not> is_ok (verify P \<lparr>va_chain = c, va_receipt = ?r, va_completion = a\<rparr> ?rk ?root ?pol)"
    if "b \<in> {3, 4, 9, 10, 66}" "b \<noteq> 9 \<or> outc \<noteq> action \<or> req \<noteq> action" for b req outc
    using verdict [OF that(1), of req outc ?root] that(2) test_receipt_fields(2) [of P c action] by metis
  from attests [OF nine, of "bump delta action" action] bumped obtain a2 where
    a2: "sampled_attest P (seed_signer P 9) c action (bump delta action) ?root first_proof = Some a2"
    "\<not> is_ok (verify P \<lparr>va_chain = c, va_receipt = ?r, va_completion = a2\<rparr> ?rk ?root ?pol)" by blast
  from attests [OF four, of action action] obtain a4 where
    a4: "sampled_attest P (seed_signer P 4) c action action ?root first_proof = Some a4"
    "\<not> is_ok (verify P \<lparr>va_chain = c, va_receipt = ?r, va_completion = a4\<rparr> ?rk ?root ?pol)" by auto
  from attests [OF nine, of action "bump delta action"] bumped obtain a5 where
    a5: "sampled_attest P (seed_signer P 9) c (bump delta action) action ?root first_proof = Some a5"
    "\<not> is_ok (verify P \<lparr>va_chain = c, va_receipt = ?r, va_completion = a5\<rparr> ?rk ?root ?pol)" by blast
  have "\<not> is_ok (verify P \<lparr>va_chain = c, va_receipt = ?r\<lparr>action_digest := bump delta action\<rparr>, va_completion = a\<rparr> ?rk ?root ?pol)"
  proof
    assume "is_ok (verify P \<lparr>va_chain = c, va_receipt = ?r\<lparr>action_digest := bump delta action\<rparr>, va_completion = a\<rparr> ?rk ?root ?pol)"
    with a(2) have "action = action_digest (?r\<lparr>action_digest := bump delta action\<rparr>)" by blast
    with bumped [of action] show False by simp
  qed
  moreover have "\<not> is_ok (verify P \<lparr>va_chain = c, va_receipt = ?r, va_completion = a\<rparr> ?rk (bump delta ?root) ?pol)"
    using a(2) bumped [of ?root] by metis
  ultimately show ?thesis
    using a(1) a2 a4 a5 chain bs
    by (simp add: prop_mutation_is_rejected_def mutate_def w record_test_ok d(1,3) Let_def)
qed

lemmas property_tests_pass = prop_every_leaf prop_immutable prop_prefixes prop_corrupted flipped_signature flipped_payload
  wrong_key valid_chain refuses_widening tampered_is_rejected wrong_root_key honest_action_sampled

end
