(* ===== verification/Demo_Properties.thy ===== *)
theory Demo_Properties
  imports Demo_Sessions Property_Tests
begin

text \<open>
  The instances for the witnesses of the log's tests, the attestation tests and the property
  tests. The second one writes out the whole of a JSON value and signs a running sum of all
  bytes of a message, so that no field of a signed document goes unseen.
\<close>

lemma demo_log_crate: "log_crate_apart demo"
proof -
  have "collision_free demo (crate_queries demo)" unfolding collision_free_def inj_on_def by code_simp
  moreover have canonical: "canonical_bytes demo (small_receipt a) = [1, 4, 1, a, a, 0]" for a
    by (simp add: small_receipt_def canonical_bytes_def action_receipt_json_def array_json_def bytes_json_def fill_demo numeral_eq_Suc)
  then have "inj_on (jcs demo) (action_receipt_json ` small_receipt ` set receipt_tags)"
    by (auto simp: inj_on_def canonical_bytes_def)
  moreover have "tag_leaf demo 1 \<noteq> fill 7" "naive_root demo (map (tag_leaf demo) [0, 1, 2, 3]) \<noteq> fill 7" by code_simp+
  ultimately show ?thesis
    using canonical by (simp add: log_crate_apart_def fill_demo demo_ed_good demo_check_def demo_sign_def)
qed

section \<open>An instance that reads the fields of tuples\<close>

fun wide_field :: "json \<Rightarrow> u8 list" where
  "wide_field (JArr (JNum n # _)) = [of_nat n]"
| "wide_field (JObj kvs) = concat (map (\<lambda>kv. demo_scalar (snd kv)) kvs)"
| "wide_field j = demo_scalar j"

fun wide_jcs :: "json \<Rightarrow> u8 list" where
  "wide_jcs (JArr js) = 2 # of_nat (length js) # concat (map wide_field js)"
| "wide_jcs j = demo_jcs j"

definition demo_wide :: prims where
  "demo_wide = demo\<lparr>jcs := wide_jcs, ed_check := (\<lambda>key m s. s = demo_sign key m)\<rparr>"

lemma demo_wide_simps [simp]:
  "blake3 demo_wide = demo_hash" "jcs demo_wide = wide_jcs" "ed_key_ok demo_wide k" "ed_public demo_wide = array_bytes"
  "ed_raw_sign demo_wide seed = demo_sign (array_bytes seed)" "ed_check demo_wide key m s \<longleftrightarrow> s = demo_sign key m"
  by (simp_all add: demo_wide_def)

lemma wide_good: "ed_good demo_wide sd"
  by (simp add: ed_good_def demo_sign_def)

lemma wide_bytes_bind: "bytes_bind demo_wide sd m"
proof -
  have "bs \<noteq> s" if "bump_at i d s = Some bs" "d \<noteq> 0" for i d bs and s :: "u8 list"
  proof
    assume "bs = s"
    with that(1) have "s ! i = s ! i + d" by (auto simp: bump_at_def split: if_splits dest: arg_cong [of _ _ "\<lambda>l. l ! i"])
    with that(2) show False by simp
  qed
  then show ?thesis by (auto simp: bytes_bind_def)
qed

lemma pad32_nth: "pad32 a = pad32 b \<Longrightarrow> i < 32 \<Longrightarrow> i < length a \<Longrightarrow> i < length b \<Longrightarrow> a ! i = b ! i"
  by (drule arg_cong [of _ _ "\<lambda>l. l ! i"]) (simp add: pad32_def nth_append)

lemma wide_attesters: "attesters_apart demo_wide"
proof -
  have "wide_jcs (notary_document demo_wide outc) ! 4 = outc \<and> length (wide_jcs (notary_document demo_wide outc)) > 4" for outc
    by (simp add: notary_document_def attestation_payload_json_def array_json_def bytes_json_def fill_demo numeral_eq_Suc)
  then have "pad32 (wide_jcs (notary_document demo_wide 2)) \<noteq> pad32 (wide_jcs (notary_document demo_wide 9))"
    using pad32_nth [of "wide_jcs (notary_document demo_wide 2)" "wide_jcs (notary_document demo_wide 9)" 4] by auto
  then show ?thesis by (auto simp: attesters_apart_def signs_apart_def wide_good fill_demo demo_sign_def)
qed

lemma wide_test_keys: "test_keys demo_wide"
  by (simp add: test_keys_def wide_good fill_demo)

lemma wide_hop_seeds: "n + 1 < 2 ^ 32 \<Longrightarrow> hop_seeds demo_wide n"
  by (simp add: hop_seeds_def wide_good)

text \<open>The budget and the length of the purpose are the ninth and the thirteenth byte of a hop's document.\<close>

lemma wide_principal: "wide_field (principal_json p) = [of_nat (length (principal_id p)), of_nat (length (display_name p))]"
  by (simp add: principal_json_def)

lemma wide_key: "\<exists>x. wide_field (public_key_json k) = [x]"
  by (cases "pk_algorithm k") (simp_all add: public_key_json_def algorithm_json_def bytes_json_def)

lemma wide_scope:
  assumes "budget s = Some b" and "currency s = Some c"
  shows "wide_field (scope_json s) = [of_nat (unat b), of_nat (length c), of_nat (unat (max_depth s)), of_nat (unat (expires_at s))]"
  using assms by (simp add: scope_json_def list_json_def option_json_def word_json_def)

lemma wide_hop_bytes:
  assumes "budget (db_scope d) = Some b" and "currency (db_scope d) = Some c"
  shows "wide_jcs (block_payload_json d) ! 8 = of_nat (unat b)" and "wide_jcs (block_payload_json d) ! 12 = of_nat (length (purpose d))"
    and "12 < length (wide_jcs (block_payload_json d))"
proof -
  obtain x y where "wide_field (public_key_json (from_key d)) = [x]" "wide_field (public_key_json (to_key d)) = [y]"
    using wide_key by metis
  then have "\<exists>xs. wide_jcs (block_payload_json d) = 2 # 7 # of_nat (length (principal_id (db_from d))) #
      of_nat (length (display_name (db_from d))) # x # of_nat (length (principal_id (db_to d))) #
      of_nat (length (display_name (db_to d))) # y # of_nat (unat b) # of_nat (length c) #
      of_nat (unat (max_depth (db_scope d))) # of_nat (unat (expires_at (db_scope d))) # of_nat (length (purpose d)) # xs"
    by (simp add: block_payload_json_def delegation_payload_json_def wide_principal wide_scope [OF assms])
  then show "wide_jcs (block_payload_json d) ! 8 = of_nat (unat b)" "wide_jcs (block_payload_json d) ! 12 = of_nat (length (purpose d))"
    "12 < length (wide_jcs (block_payload_json d))"
    by auto
qed

lemma wide_tamper:
  assumes "n + 1 < 2 ^ 32"
  shows "tamper_apart demo_wide n 2"
proof -
  obtain c where c: "build_hops demo_wide n 2 = Some (c, sg_public_key (seed_signer demo_wide 1))"
    "hops_ok demo_wide n 2 n (c, seed_signer demo_wide (of_nat (n + 1)))"
    by (rule build_hops_ok [OF wide_hop_seeds [OF assms]])
  let ?J = "\<lambda>d. {block_payload_json d, block_payload_json (d\<lparr>db_scope := (db_scope d)\<lparr>budget := Some (2 - 1)\<rparr>\<rparr>),
       block_payload_json (d\<lparr>purpose := purpose d @ ''!''\<rparr>)}"
  have "signs_apart demo_wide sd (?J d)" if d: "hop_carries demo_wide n 2 i d" for sd i d
  proof -
    let ?b = "d\<lparr>db_scope := (db_scope d)\<lparr>budget := Some (2 - 1)\<rparr>\<rparr>" and ?p = "d\<lparr>purpose := purpose d @ ''!''\<rparr>"
    have s: "budget (db_scope d) = Some 2" "currency (db_scope d) = Some ''USD''" using d by (simp_all add: hop_carries_def charge_scope_def)
    note bytes = wide_hop_bytes [of d 2] wide_hop_bytes [of ?b 1] wide_hop_bytes [of ?p 2]
    have "pad32 (wide_jcs (block_payload_json x)) \<noteq> pad32 (wide_jcs (block_payload_json y))"
      if "(x, y) \<in> {(d, ?b), (d, ?p), (?b, ?p), (?b, d), (?p, d), (?p, ?b)}" for x y
      using that pad32_nth [of "wide_jcs (block_payload_json x)" "wide_jcs (block_payload_json y)" 8]
        pad32_nth [of "wide_jcs (block_payload_json x)" "wide_jcs (block_payload_json y)" 12] bytes s by auto
    then show ?thesis by (auto simp: signs_apart_def demo_sign_def)
  qed
  with c show ?thesis by (auto simp: tamper_apart_def wide_bytes_bind hops_ok_def Let_def)
qed

lemma wide_message: "message_binds demo_wide sd [5]"
  by (auto simp: message_binds_def bump_at_def demo_sign_def pad32_def split: if_splits)

lemma demo_corruption: "corruption_apart demo 2 (\<lambda>_. 0) (\<lambda>_. 0) 1"
  unfolding corruption_apart_def collision_free_def inj_on_def by code_simp

text \<open>The inputs on which the property tests are run.\<close>

lemma demo_inputs:
  "(0::nat) < 2" "(2::nat) \<le> 2 ^ 64" "(1::u8) \<noteq> 0" "0 < (2::u64)" "0 < (3::u64)" "unat (2::u64) + unat (3::u64) < 2 ^ 64"
  "[5::u8] \<noteq> []" "sample_index (\<lambda>_. 0)" "corruption_apart demo 2 (\<lambda>_. 0) (\<lambda>_. 0) 1"
  by (simp_all add: sample_index_def demo_corruption)

lemma wide_inputs:
  "hop_seeds demo_wide 2" "tamper_apart demo_wide 2 2" "test_keys demo_wide" "ed_good demo_wide sd"
  "bytes_bind demo_wide sd m" "message_binds demo_wide sd [5]"
  "ed_public demo_wide (fill 9) \<noteq> ed_public demo_wide (fill 1)"
  "\<not> ed_check demo_wide (ed_public demo_wide (fill 1)) [5] (ed_raw_sign demo_wide (fill 9) [5])"
  by (simp_all add: wide_hop_seeds wide_tamper wide_test_keys wide_good wide_bytes_bind wide_message demo_sign_def fill_demo)

end
