(* ===== verification/Scenario_Tests.thy ===== *)
theory Scenario_Tests
  imports Verifier_Tests
begin

text \<open>
  The tests of the programs that run the core (the modules \<^verbatim>\<open>tests\<close> of \<^verbatim>\<open>conformance\<close> and of the
  two programs of \<^verbatim>\<open>exploits\<close>). \<open>None\<close> is a failed \<^verbatim>\<open>unwrap\<close> or assertion.
\<close>

definition test_conformance_cases_pass :: "prims \<Rightarrow> unit option" where
  "test_conformance_cases_pass P = do {
     passed \<leftarrow> case_honest_accepted P;
     asserts passed;
     passed \<leftarrow> case_self_report_rejected P;
     asserts passed;
     passed \<leftarrow> case_omission_rejected P;
     asserts passed;
     passed \<leftarrow> case_equivocation_rejected P;
     asserts passed;
     passed \<leftarrow> case_scope_widening_rejected P;
     asserts passed}"

definition test_flag_plant_verdicts :: "prims \<Rightarrow> unit option" where
  "test_flag_plant_verdicts P = do {
     w \<leftarrow> build_world P;
     let pol = policy_third_party [sg_public_key (w_attester w)];
     asserts (is_ok (chain_verify P (w_chain w) (w_root_key w)));
     let honest_action = fill 42;
     (receipt, proof, root) \<leftarrow> record_action P (w_chain w) honest_action;
     completion \<leftarrow> attest P (w_attester w) (named ''agent:b@org2'') (chain_digest P (w_chain w)) honest_action honest_action root proof;
     let honest = \<lparr>va_chain = w_chain w, va_receipt = receipt, va_completion = completion\<rparr>;
     asserts (is_ok (verify P honest (w_root_key w) root pol));
     let omitted_action = fill 99;
     completion \<leftarrow> attest P (w_attester w) (named ''agent:b@org2'') (chain_digest P (w_chain w)) omitted_action omitted_action root proof;
     let omission = \<lparr>va_chain = w_chain w,
       va_receipt = \<lparr>chain_digest_of = chain_digest P (w_chain w), action_digest = omitted_action, nonce = fill 0xCD, prev_root = fill 0\<rparr>,
       va_completion = completion\<rparr>;
     asserts (verify P omission (w_root_key w) root pol = Inl Omission);
     (sr_receipt, sr_proof, sr_root) \<leftarrow> record_action P (w_chain w) honest_action;
     completion \<leftarrow> attest P (w_executor w) (named ''agent:c@org3'') (chain_digest P (w_chain w)) honest_action honest_action sr_root sr_proof;
     let self_report = \<lparr>va_chain = w_chain w, va_receipt = sr_receipt, va_completion = completion\<rparr>;
     asserts (is_attestation_error (verify P self_report (w_root_key w) sr_root pol))}"

definition test_ap2_attribution :: "prims \<Rightarrow> unit option" where
  "test_ap2_attribution P = do {
     (legit_ok, ap2_ok, indexone_rejected) \<leftarrow> ap2_run P;
     asserts legit_ok;
     asserts ap2_ok;
     asserts indexone_rejected}"

definition scenario_tests :: "(prims \<Rightarrow> unit option) list" where
  "scenario_tests = [test_conformance_cases_pass, test_flag_plant_verdicts, test_ap2_attribution]"

lemma flag_plant_passes:
  assumes apart: "cases_apart P"
  shows "test_flag_plant_verdicts P = Some ()"
proof -
  from world_built [OF apart] obtain w where w: "build_world P = Some w" "world_ok P w" by blast
  let ?c = "w_chain w" and ?r = "first_receipt P (w_chain w) (fill 42)"
  have parties: "w_attester w = ed25519_from_seed P (fill 3)" "w_executor w = ed25519_from_seed P (fill 4)"
    using w(2) by (simp_all add: world_ok_def)
  have valid: "chain_verify P ?c (w_root_key w) = Inr (charge_scope 4000 0)"
    using chain_verify_ok [OF built_ok] w(2) by (auto simp: world_ok_def)
  note verdict = case_verdict [OF apart w(2), where root = "log_root P [?r]"]
  show ?thesis
    using verdict [of 3 ?r "fill 42" "named ''agent:b@org2''"]
      verdict [of 3 "omitted_receipt P ?c" "fill 99" "named ''agent:b@org2''"]
      verdict [of 4 ?r "fill 42" "named ''agent:c@org3''"] omitted_excluded [OF apart w(1)]
    by (auto simp: test_flag_plant_verdicts_def w(1) parties record_action_ok Let_def valid omitted_receipt_def)
qed

lemma scenario_tests_pass:
  assumes apart: "cases_apart P"
  shows "map (\<lambda>test. test P) scenario_tests = replicate 3 (Some ())"
proof -
  have "ed_public P (fill 1) \<noteq> ed_public P (fill 3)" using apart by (simp add: cases_apart_def)
  moreover have "ed_good P (fill 1)" "ed_good P (fill 3)" using cases_apartD(1) [OF apart] by simp_all
  ultimately have "test_ap2_attribution P = Some ()" by (simp add: test_ap2_attribution_def ap2_verdicts)
  moreover have "test_conformance_cases_pass P = Some ()"
    by (simp add: test_conformance_cases_pass_def cases_pass [OF apart] widening_pass [OF apart])
  ultimately show ?thesis by (simp add: scenario_tests_def flag_plant_passes [OF apart] numeral_eq_Suc)
qed

end
