(* ===== verification/Crypto_Tests.thy ===== *)
theory Crypto_Tests
  imports Verifier_Tests Wire
begin

text \<open>
  The tests of \<^verbatim>\<open>core/crypto\<close> (the modules \<^verbatim>\<open>tests\<close> of its four files), except the one that
  only asks the compiler for a trait. What the key generators draw is an argument. \<open>None\<close> is a
  failed \<^verbatim>\<open>unwrap\<close> or assertion.
\<close>

section \<open>The tests\<close>

definition payload_bytes :: "u8 list" where
  "payload_bytes = str_bytes ''payload''"

text \<open>\<^verbatim>\<open>bytes[0] ^= 0x01\<close>, which panics on no bytes.\<close>

fun flip_head_bit :: "u8 list \<Rightarrow> u8 list option" where
  "flip_head_bit [] = None"
| "flip_head_bit (b # bs) = Some ((b XOR 1) # bs)"

definition test_algorithm_tag_round_trips :: "(json \<Rightarrow> string) \<Rightarrow> (string \<Rightarrow> string + json) \<Rightarrow> unit option" where
  "test_algorithm_tag_round_trips text text_parse =
     (if list_all (\<lambda>alg. Option.bind (unwrap (text_parse (text (algorithm_json alg)))) algorithm_of_json = Some alg)
           [Ed25519, MlDsa87, Hybrid]
      then Some () else None)"

definition test_mismatch_is_err :: "prims \<Rightarrow> unit option" where
  "test_mismatch_is_err P = do {
     let sg = \<lparr>sig_algorithm = Ed25519, sig_bytes = replicate 64 0\<rparr>;
     let pk = \<lparr>pk_algorithm = MlDsa87, pk_bytes = replicate 2592 0\<rparr>;
     asserts (case verify_signature P payload_bytes sg pk of Inl (AlgorithmMismatch _ _) \<Rightarrow> True | _ \<Rightarrow> False)}"

definition test_ed25519_round_trips :: "prims \<Rightarrow> bytes32 option \<Rightarrow> unit option" where
  "test_ed25519_round_trips P rng = do {
     signer \<leftarrow> unwrap (ed25519_generate P rng);
     sg \<leftarrow> unwrap (sg_sign signer payload_bytes);
     asserts (sig_algorithm sg = Ed25519);
     v \<leftarrow> unwrap (verify_signature P payload_bytes sg (sg_public_key signer));
     asserts v}"

definition test_ed25519_tamper_fails :: "prims \<Rightarrow> bytes32 option \<Rightarrow> unit option" where
  "test_ed25519_tamper_fails P rng = do {
     signer \<leftarrow> unwrap (ed25519_generate P rng);
     sg \<leftarrow> unwrap (sg_sign signer payload_bytes);
     bs \<leftarrow> flip_head_bit (sig_bytes sg);
     v \<leftarrow> unwrap (verify_signature P payload_bytes (sg\<lparr>sig_bytes := bs\<rparr>) (sg_public_key signer));
     asserts (\<not> v)}"

definition test_ed25519_wrong_payload_fails :: "prims \<Rightarrow> bytes32 option \<Rightarrow> unit option" where
  "test_ed25519_wrong_payload_fails P rng = do {
     signer \<leftarrow> unwrap (ed25519_generate P rng);
     sg \<leftarrow> unwrap (sg_sign signer payload_bytes);
     v \<leftarrow> unwrap (verify_signature P (str_bytes ''other'') sg (sg_public_key signer));
     asserts (\<not> v)}"

definition test_ed25519_malformed_key_is_err :: "prims \<Rightarrow> bytes32 option \<Rightarrow> unit option" where
  "test_ed25519_malformed_key_is_err P rng = do {
     signer \<leftarrow> unwrap (ed25519_generate P rng);
     sg \<leftarrow> unwrap (sg_sign signer payload_bytes);
     let bad_key = \<lparr>pk_algorithm = Ed25519, pk_bytes = replicate 10 0\<rparr>;
     asserts (verify_signature P payload_bytes sg bad_key = Inl (MalformedKey Ed25519))}"

definition test_mldsa_round_trips :: "prims \<Rightarrow> string + u8 list \<Rightarrow> unit option" where
  "test_mldsa_round_trips P keygen = do {
     signer \<leftarrow> unwrap (mldsa_generate P keygen);
     sg \<leftarrow> unwrap (sg_sign signer payload_bytes);
     asserts (sig_algorithm sg = MlDsa87);
     v \<leftarrow> unwrap (verify_signature P payload_bytes sg (sg_public_key signer));
     asserts v}"

definition test_mldsa_tamper_fails :: "prims \<Rightarrow> string + u8 list \<Rightarrow> unit option" where
  "test_mldsa_tamper_fails P keygen = do {
     signer \<leftarrow> unwrap (mldsa_generate P keygen);
     sg \<leftarrow> unwrap (sg_sign signer payload_bytes);
     bs \<leftarrow> flip_head_bit (sig_bytes sg);
     v \<leftarrow> unwrap (verify_signature P payload_bytes (sg\<lparr>sig_bytes := bs\<rparr>) (sg_public_key signer));
     asserts (\<not> v)}"

definition test_mldsa_wrong_payload_fails :: "prims \<Rightarrow> string + u8 list \<Rightarrow> unit option" where
  "test_mldsa_wrong_payload_fails P keygen = do {
     signer \<leftarrow> unwrap (mldsa_generate P keygen);
     sg \<leftarrow> unwrap (sg_sign signer payload_bytes);
     v \<leftarrow> unwrap (verify_signature P (str_bytes ''other'') sg (sg_public_key signer));
     asserts (\<not> v)}"

definition test_mldsa_malformed_signature_is_err :: "prims \<Rightarrow> string + u8 list \<Rightarrow> unit option" where
  "test_mldsa_malformed_signature_is_err P keygen = do {
     signer \<leftarrow> unwrap (mldsa_generate P keygen);
     let bad_sig = \<lparr>sig_algorithm = MlDsa87, sig_bytes = replicate 10 0\<rparr>;
     asserts (verify_signature P payload_bytes bad_sig (sg_public_key signer) = Inl (MalformedSignature MlDsa87))}"

text \<open>The hybrid.\<close>

definition hybrid_payload :: "u8 list" where
  "hybrid_payload = str_bytes ''delegation block canonical bytes''"

definition hybrid_signer :: "prims \<Rightarrow> bytes32 option \<Rightarrow> string + u8 list \<Rightarrow> signer option" where
  "hybrid_signer P rng keygen = do {
     classical \<leftarrow> unwrap (ed25519_generate P rng);
     post_quantum \<leftarrow> unwrap (mldsa_generate P keygen);
     unwrap (hybrid_new classical post_quantum)}"

definition test_hybrid_round_trips :: "prims \<Rightarrow> bytes32 option \<Rightarrow> string + u8 list \<Rightarrow> unit option" where
  "test_hybrid_round_trips P rng keygen = do {
     signer \<leftarrow> hybrid_signer P rng keygen;
     sg \<leftarrow> unwrap (sg_sign signer hybrid_payload);
     asserts (sig_algorithm sg = Hybrid);
     v \<leftarrow> unwrap (verify_signature P hybrid_payload sg (sg_public_key signer));
     asserts v}"

definition test_tampering_classical_fails :: "prims \<Rightarrow> bytes32 option \<Rightarrow> string + u8 list \<Rightarrow> unit option" where
  "test_tampering_classical_fails P rng keygen = do {
     signer \<leftarrow> hybrid_signer P rng keygen;
     sg \<leftarrow> unwrap (sg_sign signer hybrid_payload);
     ((a0, s0), (a1, s1)) \<leftarrow> unwrap (decode_two (sig_bytes sg));
     tampered0 \<leftarrow> flip_head_bit s0;
     bytes \<leftarrow> unwrap (frame_two a0 tampered0 a1 s1);
     let tampered = \<lparr>sig_algorithm = Hybrid, sig_bytes = bytes\<rparr>;
     v \<leftarrow> unwrap (verify_signature P hybrid_payload tampered (sg_public_key signer));
     asserts (\<not> v)}"

definition test_tampering_post_quantum_fails :: "prims \<Rightarrow> bytes32 option \<Rightarrow> string + u8 list \<Rightarrow> unit option" where
  "test_tampering_post_quantum_fails P rng keygen = do {
     signer \<leftarrow> hybrid_signer P rng keygen;
     sg \<leftarrow> unwrap (sg_sign signer hybrid_payload);
     ((a0, s0), (a1, s1)) \<leftarrow> unwrap (decode_two (sig_bytes sg));
     tampered1 \<leftarrow> flip_head_bit s1;
     bytes \<leftarrow> unwrap (frame_two a0 s0 a1 tampered1);
     let tampered = \<lparr>sig_algorithm = Hybrid, sig_bytes = bytes\<rparr>;
     v \<leftarrow> unwrap (verify_signature P hybrid_payload tampered (sg_public_key signer));
     asserts (\<not> v)}"

definition test_hybrid_wrong_payload_fails :: "prims \<Rightarrow> bytes32 option \<Rightarrow> string + u8 list \<Rightarrow> unit option" where
  "test_hybrid_wrong_payload_fails P rng keygen = do {
     signer \<leftarrow> hybrid_signer P rng keygen;
     sg \<leftarrow> unwrap (sg_sign signer hybrid_payload);
     v \<leftarrow> unwrap (verify_signature P (str_bytes ''a different payload'') sg (sg_public_key signer));
     asserts (\<not> v)}"

definition test_missing_component_is_err :: "prims \<Rightarrow> bytes32 option \<Rightarrow> string + u8 list \<Rightarrow> unit option" where
  "test_missing_component_is_err P rng keygen = do {
     signer \<leftarrow> hybrid_signer P rng keygen;
     sg \<leftarrow> unwrap (sg_sign signer hybrid_payload);
     (_, rest) \<leftarrow> unwrap (read_component (sig_bytes sg));
     let first_len = length (sig_bytes sg) - length rest;
     let truncated = \<lparr>sig_algorithm = Hybrid, sig_bytes = take first_len (sig_bytes sg)\<rparr>;
     asserts (case verify_signature P hybrid_payload truncated (sg_public_key signer) of
                Inl (MalformedFraming _) \<Rightarrow> True | _ \<Rightarrow> False)}"

definition test_nesting_is_unsupported ::
  "prims \<Rightarrow> bytes32 option \<Rightarrow> string + u8 list \<Rightarrow> bytes32 option \<Rightarrow> unit option" where
  "test_nesting_is_unsupported P rng keygen other_rng = do {
     inner \<leftarrow> hybrid_signer P rng keygen;
     other \<leftarrow> unwrap (ed25519_generate P other_rng);
     asserts (case hybrid_new inner other of Inl (UnsupportedAlgorithm Hybrid) \<Rightarrow> True | _ \<Rightarrow> False)}"

definition crypto_tests ::
  "prims \<Rightarrow> (json \<Rightarrow> string) \<Rightarrow> (string \<Rightarrow> string + json) \<Rightarrow> bytes32 option \<Rightarrow> string + u8 list \<Rightarrow> unit option list" where
  "crypto_tests P text text_parse rng keygen =
     [test_algorithm_tag_round_trips text text_parse, test_mismatch_is_err P] @
     map (\<lambda>test. test P rng)
       [test_ed25519_round_trips, test_ed25519_tamper_fails, test_ed25519_wrong_payload_fails, test_ed25519_malformed_key_is_err] @
     map (\<lambda>test. test P keygen)
       [test_mldsa_round_trips, test_mldsa_tamper_fails, test_mldsa_wrong_payload_fails, test_mldsa_malformed_signature_is_err] @
     map (\<lambda>test. test P rng keygen)
       [test_hybrid_round_trips, test_tampering_classical_fails, test_tampering_post_quantum_fails,
        test_hybrid_wrong_payload_fails, test_missing_component_is_err, \<lambda>P rng keygen. test_nesting_is_unsupported P rng keygen rng]"

section \<open>They pass\<close>

text \<open>
  The secrets drawn are working ones, each of their signatures is refused with its first bit
  flipped and over the other payload, and a hybrid of them fits the framing.
\<close>

definition ed_binds :: "prims \<Rightarrow> bytes32 \<Rightarrow> u8 list \<Rightarrow> u8 list \<Rightarrow> bool" where
  "ed_binds P sd m other \<longleftrightarrow>
     ed_good P sd \<and> \<not> ed_check P (ed_public P sd) other (ed_raw_sign P sd m) \<and>
     (\<forall>bs. flip_head_bit (ed_raw_sign P sd m) = Some bs \<longrightarrow> \<not> ed_check P (ed_public P sd) m bs)"

definition ml_binds :: "prims \<Rightarrow> u8 list \<Rightarrow> u8 list \<Rightarrow> u8 list \<Rightarrow> bool" where
  "ml_binds P sk m other \<longleftrightarrow>
     (\<exists>s. ml_raw_sign P sk m = Inr s \<and> \<not> ml_check P (ml_public P sk) other s \<and>
        (\<forall>bs. flip_head_bit s = Some bs \<longrightarrow> \<not> ml_check P (ml_public P sk) m bs))"

definition scheme_sizes :: "prims \<Rightarrow> bool" where
  "scheme_sizes P \<longleftrightarrow> ml_pk_len P < 2 ^ 32 \<and> ml_sig_len P < 2 ^ 32 \<and> 10 < ml_sig_len P"

definition drawn_secrets :: "prims \<Rightarrow> bytes32 option \<Rightarrow> string + u8 list \<Rightarrow> bool" where
  "drawn_secrets P rng keygen \<longleftrightarrow>
     (\<exists>sd sk. rng = Some sd \<and> keygen = Inr sk \<and> mldsa_good P sk \<and> scheme_sizes P \<and>
        ed_binds P sd payload_bytes (str_bytes ''other'') \<and>
        ed_binds P sd hybrid_payload (str_bytes ''a different payload'') \<and>
        ml_binds P sk payload_bytes (str_bytes ''other'') \<and>
        ml_binds P sk hybrid_payload (str_bytes ''a different payload''))"

lemma flip_head_bit_length: "flip_head_bit bs = Some bs' \<Longrightarrow> length bs' = length bs"
  by (cases bs) auto

lemma flip_head_bit_Some: "bs \<noteq> [] \<Longrightarrow> \<exists>bs'. flip_head_bit bs = Some bs'"
  by (cases bs) auto

lemma ed_tests_pass:
  assumes "ed_binds P sd payload_bytes (str_bytes ''other'')"
  shows "test_ed25519_round_trips P (Some sd) = Some ()" and "test_ed25519_tamper_fails P (Some sd) = Some ()"
    and "test_ed25519_wrong_payload_fails P (Some sd) = Some ()" and "test_ed25519_malformed_key_is_err P (Some sd) = Some ()"
proof -
  let ?s = "ed_raw_sign P sd payload_bytes"
  from assms have good: "ed_good P sd" and len: "length ?s = 64" by (simp_all add: ed_binds_def ed_good_def)
  from len have "?s \<noteq> []" by auto
  then obtain bs where bs: "flip_head_bit ?s = Some bs" using flip_head_bit_Some by blast
  have "length bs = 64" using flip_head_bit_length [OF bs] len by simp
  with assms good len bs
  show "test_ed25519_round_trips P (Some sd) = Some ()" "test_ed25519_tamper_fails P (Some sd) = Some ()"
    "test_ed25519_wrong_payload_fails P (Some sd) = Some ()" "test_ed25519_malformed_key_is_err P (Some sd) = Some ()"
    by (simp_all add: test_ed25519_round_trips_def test_ed25519_tamper_fails_def test_ed25519_wrong_payload_fails_def
        test_ed25519_malformed_key_is_err_def ed25519_generate_def ed25519_from_seed_def ed_binds_def ed_good_def
        ed25519_verify_def Let_def)
qed

lemma ml_tests_pass:
  assumes "mldsa_good P sk" and "scheme_sizes P" and "ml_binds P sk payload_bytes (str_bytes ''other'')"
  shows "test_mldsa_round_trips P (Inr sk) = Some ()" and "test_mldsa_tamper_fails P (Inr sk) = Some ()"
    and "test_mldsa_wrong_payload_fails P (Inr sk) = Some ()" and "test_mldsa_malformed_signature_is_err P (Inr sk) = Some ()"
proof -
  from assms(1) obtain s where s: "ml_raw_sign P sk payload_bytes = Inr s" "length s = ml_sig_len P" "ml_check P (ml_public P sk) payload_bytes s"
    unfolding mldsa_good_def by blast
  from s(2) assms(2) have "s \<noteq> []" by (auto simp: scheme_sizes_def)
  then obtain bs where bs: "flip_head_bit s = Some bs" using flip_head_bit_Some by blast
  have "length bs = ml_sig_len P" using flip_head_bit_length [OF bs] s(2) by simp
  with assms s bs
  show "test_mldsa_round_trips P (Inr sk) = Some ()" "test_mldsa_tamper_fails P (Inr sk) = Some ()"
    "test_mldsa_wrong_payload_fails P (Inr sk) = Some ()" "test_mldsa_malformed_signature_is_err P (Inr sk) = Some ()"
    by (simp_all add: test_mldsa_round_trips_def test_mldsa_tamper_fails_def test_mldsa_wrong_payload_fails_def
        test_mldsa_malformed_signature_is_err_def mldsa_generate_def mldsa_signer_def ml_binds_def mldsa_good_def
        mldsa_verify_def scheme_sizes_def Let_def)
qed

text \<open>The hybrid of the two secrets: its key, its signatures, and what verification answers.\<close>

lemma small_frame:
  assumes "length p < 2 ^ 32" and "length q < 2 ^ 32"
  shows "\<exists>bs. frame_two Ed25519 p MlDsa87 q = Inr bs \<and> decode_two bs = Inr ((Ed25519, p), (MlDsa87, q))"
  using frame_two_ok_iff [of Ed25519 p MlDsa87 q] assms by (auto simp: decode_two_iff)

lemma hybrid_drawn:
  assumes "ed_good P sd" and "mldsa_good P sk" and "scheme_sizes P"
  shows "\<exists>h kb. hybrid_signer P (Some sd) (Inr sk) = Some h \<and> sg_public_key h = \<lparr>pk_algorithm = Hybrid, pk_bytes = kb\<rparr> \<and>
    decode_two kb = Inr ((Ed25519, ed_public P sd), (MlDsa87, ml_public P sk)) \<and>
    sg_sign h = hybrid_sign (ed25519_from_seed P sd) (mldsa_signer P sk)"
proof -
  have "length (ed_public P sd) < 2 ^ 32" "length (ml_public P sk) < 2 ^ 32"
    using assms by (simp_all add: ed_good_def mldsa_good_def scheme_sizes_def)
  from small_frame [OF this] show ?thesis
    by (auto simp: hybrid_signer_def ed25519_generate_def mldsa_generate_def hybrid_new_def ed25519_from_seed_def
        mldsa_signer_def Let_def)
qed

lemma hybrid_signature:
  assumes "ed_good P sd" and "scheme_sizes P" and "ml_raw_sign P sk m = Inr s" and "length s = ml_sig_len P"
  shows "\<exists>sb. hybrid_sign (ed25519_from_seed P sd) (mldsa_signer P sk) m = Inr \<lparr>sig_algorithm = Hybrid, sig_bytes = sb\<rparr> \<and>
    decode_two sb = Inr ((Ed25519, ed_raw_sign P sd m), (MlDsa87, s))"
proof -
  have "length (ed_raw_sign P sd m) < 2 ^ 32" "length s < 2 ^ 32" using assms by (simp_all add: ed_good_def scheme_sizes_def)
  from small_frame [OF this] assms(3) show ?thesis
    by (auto simp: hybrid_sign_def ed25519_from_seed_def mldsa_signer_def)
qed

lemma hybrid_answers:
  assumes "ed_good P sd" and "mldsa_good P sk" and "length e = 64" and "length s = ml_sig_len P"
    and "decode_two sb = Inr ((Ed25519, e), (MlDsa87, s))"
    and "decode_two kb = Inr ((Ed25519, ed_public P sd), (MlDsa87, ml_public P sk))"
  shows "verify_signature P m \<lparr>sig_algorithm = Hybrid, sig_bytes = sb\<rparr> \<lparr>pk_algorithm = Hybrid, pk_bytes = kb\<rparr> =
    Inr (ed_check P (ed_public P sd) m e \<and> ml_check P (ml_public P sk) m s)"
  using assms(1-4)
  by (simp add: hybrid_verify_decoded [OF assms(5,6)] ed25519_verify_def mldsa_verify_def ed_good_def mldsa_good_def)

lemma hybrid_truncated:
  assumes "decode_two sb = Inr ((a, p), c)"
  shows "\<exists>rest. read_component sb = Inr ((a, p), rest) \<and>
    (\<exists>e. decode_two (take (length sb - length rest) sb) = Inl (MalformedFraming e))"
proof -
  from assms obtain rest where r: "read_component sb = Inr ((a, p), rest)"
    by (auto simp: decode_two_def and_then_Inr_iff split: if_splits)
  then obtain b where b: "\<forall>out. encode_component out a p = Inr (out @ b)" "sb = b @ rest" by (rule encode_component_read)
  from b(1) have "encode_component [] a p = Inr b" by simp
  then obtain b' where "b = [] @ b'" "\<forall>rest. read_component (b' @ rest) = Inr ((a, p), rest)" by (rule read_component_encoded)
  then have "read_component b = Inr ((a, p), [])" by (metis append_Nil append_Nil2)
  then have "decode_two b = Inl (MalformedFraming ''truncated component header'')"
    by (simp add: decode_two_def read_component_def [of "[]"])
  with r b(2) show ?thesis by simp
qed

lemma hybrid_tests_pass:
  assumes good: "mldsa_good P sk" "scheme_sizes P" and eb: "ed_binds P sd hybrid_payload (str_bytes ''a different payload'')"
    and mb: "ml_binds P sk hybrid_payload (str_bytes ''a different payload'')"
  shows "test_hybrid_round_trips P (Some sd) (Inr sk) = Some ()"
    and "test_tampering_classical_fails P (Some sd) (Inr sk) = Some ()"
    and "test_tampering_post_quantum_fails P (Some sd) (Inr sk) = Some ()"
    and "test_hybrid_wrong_payload_fails P (Some sd) (Inr sk) = Some ()"
    and "test_missing_component_is_err P (Some sd) (Inr sk) = Some ()"
    and "test_nesting_is_unsupported P (Some sd) (Inr sk) (Some sd) = Some ()"
proof -
  let ?m = hybrid_payload and ?e = "ed_raw_sign P sd hybrid_payload"
  have ed: "ed_good P sd" using eb by (simp add: ed_binds_def)
  obtain s where s: "ml_raw_sign P sk ?m = Inr s" "length s = ml_sig_len P" "ml_check P (ml_public P sk) ?m s"
    using good(1) unfolding mldsa_good_def by blast
  have e: "length ?e = 64" "ed_check P (ed_public P sd) ?m ?e" using ed by (simp_all add: ed_good_def)
  obtain h kb where h: "hybrid_signer P (Some sd) (Inr sk) = Some h" "sg_public_key h = \<lparr>pk_algorithm = Hybrid, pk_bytes = kb\<rparr>"
      "sg_sign h = hybrid_sign (ed25519_from_seed P sd) (mldsa_signer P sk)"
    and kb: "decode_two kb = Inr ((Ed25519, ed_public P sd), (MlDsa87, ml_public P sk))"
    using hybrid_drawn [OF ed good] by blast
  obtain sb where sb: "sg_sign h ?m = Inr \<lparr>sig_algorithm = Hybrid, sig_bytes = sb\<rparr>"
      "decode_two sb = Inr ((Ed25519, ?e), (MlDsa87, s))" using hybrid_signature [OF ed good(2) s(1,2)] h(3) by auto
  have "?e \<noteq> []" "s \<noteq> []" using e(1) s(2) good(2) by (auto simp: scheme_sizes_def)
  then obtain e' s' where flip: "flip_head_bit ?e = Some e'" "flip_head_bit s = Some s'" using flip_head_bit_Some by blast
  have len: "length e' = 64" "length s' = ml_sig_len P" using flip_head_bit_length flip e(1) s(2) by auto
  obtain b0 b1 where b: "frame_two Ed25519 e' MlDsa87 s = Inr b0" "decode_two b0 = Inr ((Ed25519, e'), (MlDsa87, s))"
      "frame_two Ed25519 ?e MlDsa87 s' = Inr b1" "decode_two b1 = Inr ((Ed25519, ?e), (MlDsa87, s'))"
    using small_frame [of e' s] small_frame [of ?e s'] len e(1) s(2) good(2) by (auto simp: scheme_sizes_def)
  note answers = hybrid_answers [OF ed good(1) e(1) s(2) sb(2) kb] hybrid_answers [OF ed good(1) len(1) s(2) b(2) kb]
    hybrid_answers [OF ed good(1) e(1) len(2) b(4) kb]
  note binds = eb [unfolded ed_binds_def] mb [unfolded ml_binds_def s(1), simplified]
  show "test_hybrid_round_trips P (Some sd) (Inr sk) = Some ()" "test_tampering_classical_fails P (Some sd) (Inr sk) = Some ()"
      "test_tampering_post_quantum_fails P (Some sd) (Inr sk) = Some ()" "test_hybrid_wrong_payload_fails P (Some sd) (Inr sk) = Some ()"
    using answers binds flip s e
    by (simp_all add: test_hybrid_round_trips_def test_tampering_classical_fails_def test_tampering_post_quantum_fails_def
        test_hybrid_wrong_payload_fails_def h sb(1) [unfolded h(3)] sb(2) b del: verify_signature_arms)
  from hybrid_truncated [OF sb(2)] show "test_missing_component_is_err P (Some sd) (Inr sk) = Some ()"
    by (auto simp: test_missing_component_is_err_def h sb(1) [unfolded h(3)] hybrid_verify_def)
  show "test_nesting_is_unsupported P (Some sd) (Inr sk) (Some sd) = Some ()"
    by (simp add: test_nesting_is_unsupported_def h(1,2) ed25519_generate_def hybrid_new_def frame_two_def encode_component_def)
qed

lemma crypto_tests_pass:
  assumes "drawn_secrets P rng keygen" and "\<forall>alg. text_parse (text (algorithm_json alg)) = Inr (algorithm_json alg)"
  shows "crypto_tests P text text_parse rng keygen = replicate 16 (Some ())"
proof -
  from assms(1) obtain sd sk where k: "rng = Some sd" "keygen = Inr sk" "mldsa_good P sk" "scheme_sizes P"
    "ed_binds P sd payload_bytes (str_bytes ''other'')" "ed_binds P sd hybrid_payload (str_bytes ''a different payload'')"
    "ml_binds P sk payload_bytes (str_bytes ''other'')" "ml_binds P sk hybrid_payload (str_bytes ''a different payload'')"
    by (auto simp: drawn_secrets_def)
  have "test_algorithm_tag_round_trips text text_parse = Some ()" "test_mismatch_is_err P = Some ()"
    using assms(2) by (simp_all add: test_algorithm_tag_round_trips_def test_mismatch_is_err_def algorithm_form.dec_enc)
  then show ?thesis
    using ed_tests_pass [OF k(5)] ml_tests_pass [OF k(3,4,7)] hybrid_tests_pass [OF k(3,4,6,8)]
    by (simp add: crypto_tests_def k(1,2) numeral_eq_Suc)
qed

end
