(* ===== verification/Checkpoint_Tests.thy ===== *)
theory Checkpoint_Tests
  imports Log_Tests Checkpoint
begin

text \<open>
  The tests of \<^verbatim>\<open>clients/checkpoint\<close> (its module \<^verbatim>\<open>tests\<close>): notes written, read back, tampered
  with and cosigned, the cosigning witness, and the quorum. \<open>None\<close> is a failed \<^verbatim>\<open>unwrap\<close> or
  assertion, or the panic of a signer.
\<close>

section \<open>Notes\<close>

definition test_origin :: string where
  "test_origin = ''indexone.dev/witness''"

definition test_checkpoint :: checkpoint where
  "test_checkpoint = \<lparr>cp_origin = ''indexone.dev/witness'', cp_size = 42, cp_root = fill 7\<rparr>"

abbreviation seeded :: "prims \<Rightarrow> u8 \<Rightarrow> signer" where
  "seeded P b \<equiv> ed25519_from_seed P (fill b)"

definition test_sign_then_verify :: "prims \<Rightarrow> unit option" where
  "test_sign_then_verify P = do {
     let op = seeded P 1;
     note \<leftarrow> sign_checkpoint P op ''indexone'' test_checkpoint;
     got \<leftarrow> verify_checkpoint P note ''indexone'' (sg_public_key op);
     asserts (got = test_checkpoint)}"

definition test_note_has_c2sp_shape :: "prims \<Rightarrow> unit option" where
  "test_note_has_c2sp_shape P = do {
     let op = seeded P 2;
     note \<leftarrow> sign_checkpoint P op ''indexone'' test_checkpoint;
     (case str_lines note of
        l0 # l1 # l2 # l3 # _ \<Rightarrow> do {
          asserts (l0 = ''indexone.dev/witness'');
          asserts (l1 = ''42'');
          asserts (l2 = b64_encode P (array_bytes (fill 7)));
          asserts (starts_with (sig_marker @ ''indexone '') l3)}
      | _ \<Rightarrow> None)}"

text \<open>\<^verbatim>\<open>replacen(from, to, 1)\<close>.\<close>

fun replace_once :: "string \<Rightarrow> string \<Rightarrow> string \<Rightarrow> string" where
  "replace_once pat rep [] = (if pat = [] then rep else [])"
| "replace_once pat rep (c # cs) =
     (if starts_with pat (c # cs) then rep @ drop (length pat) (c # cs) else c # replace_once pat rep cs)"

definition test_tampered_body_is_rejected :: "prims \<Rightarrow> unit option" where
  "test_tampered_body_is_rejected P = do {
     let op = seeded P 3;
     note \<leftarrow> sign_checkpoint P op ''indexone'' test_checkpoint;
     let tampered = replace_once ''42'' ''43'' note;
     asserts (verify_checkpoint P tampered ''indexone'' (sg_public_key op) = None)}"

definition test_note_wrong_key_is_rejected :: "prims \<Rightarrow> unit option" where
  "test_note_wrong_key_is_rejected P = do {
     let op = seeded P 4;
     let impostor = seeded P 5;
     note \<leftarrow> sign_checkpoint P op ''indexone'' test_checkpoint;
     asserts (verify_checkpoint P note ''indexone'' (sg_public_key impostor) = None)}"

definition test_cosigned_note_verifies :: "prims \<Rightarrow> unit option" where
  "test_cosigned_note_verifies P = do {
     let log = seeded P 6;
     let witness_a = seeded P 7;
     let witness_b = seeded P 8;
     note \<leftarrow> sign_checkpoint P log ''indexone'' test_checkpoint;
     note \<leftarrow> cosign P note witness_a ''witness-a'';
     note \<leftarrow> note;
     note \<leftarrow> cosign P note witness_b ''witness-b'';
     note \<leftarrow> note;
     asserts (verify_checkpoint P note ''indexone'' (sg_public_key log) = Some test_checkpoint);
     asserts (verify_checkpoint P note ''witness-a'' (sg_public_key witness_a) = Some test_checkpoint);
     asserts (verify_checkpoint P note ''witness-b'' (sg_public_key witness_b) = Some test_checkpoint);
     let stranger = seeded P 9;
     asserts (verify_checkpoint P note ''stranger'' (sg_public_key stranger) = None)}"

definition test_from_signed_tree_head :: "prims \<Rightarrow> unit option" where
  "test_from_signed_tree_head P = do {
     let op = seeded P 10;
     (sth, w) \<leftarrow> signed_head P witness_new op;
     let cp = checkpoint_from_sth ''indexone.dev/witness'' sth;
     note \<leftarrow> sign_checkpoint P op ''indexone'' cp;
     got \<leftarrow> verify_checkpoint P note ''indexone'' (sg_public_key op);
     asserts (cp_size got = sth_size sth);
     asserts (cp_root got = sth_root sth)}"

section \<open>Cosigning and the quorum\<close>

definition tag_receipt :: "u8 \<Rightarrow> digest \<Rightarrow> action_receipt" where
  "tag_receipt tag prev =
     \<lparr>chain_digest_of = fill tag, action_digest = fill tag, nonce = fill tag, prev_root = prev\<rparr>"

text \<open>\<^verbatim>\<open>w.append(&receipt(tag, w.root()))\<close>.\<close>

definition append_tagged :: "prims \<Rightarrow> witness \<Rightarrow> u8 \<Rightarrow> witness option" where
  "append_tagged P w tag = do {
     (root, w) \<leftarrow> witness_root P w;
     Some (snd (witness_append P w (tag_receipt tag root)))}"

definition log_note :: "prims \<Rightarrow> signer \<Rightarrow> witness \<Rightarrow> (string \<times> witness) option" where
  "log_note P log w = do {
     (h, w) \<leftarrow> signed_head P w log;
     note \<leftarrow> sign_checkpoint P log test_origin (checkpoint_from_sth test_origin h);
     Some (note, w)}"

definition empty_proof :: consistency_proof where
  "empty_proof = \<lparr>nodes = []\<rparr>"

text \<open>A cosignature unwrapped, and a refusal.\<close>

definition granted :: "((cosign_error + string) \<times> cosigning_witness) option \<Rightarrow> (string \<times> cosigning_witness) option" where
  "granted m = Option.bind m (\<lambda>(r, cw). map_option (\<lambda>l. (l, cw)) (unwrap r))"

definition refused :: "((cosign_error + string) \<times> cosigning_witness) option \<Rightarrow> (cosign_error \<times> cosigning_witness) option" where
  "refused m = Option.bind m (\<lambda>(r, cw). case r of Inl e \<Rightarrow> Some (e, cw) | Inr _ \<Rightarrow> None)"

definition test_extensions_and_quorum :: "prims \<Rightarrow> unit option" where
  "test_extensions_and_quorum P = do {
     let log = seeded P 1;
     let wa = seeded P 2;
     let log_key = sg_public_key log;
     let quorum = [(test_origin, log_key), (''witness-a'', sg_public_key wa)];
     w \<leftarrow> append_tagged P witness_new 1;
     (note1, w) \<leftarrow> log_note P log w;
     let cw = cosigning_witness_new wa ''witness-a'' test_origin log_key;
     (line1, cw) \<leftarrow> granted (add_checkpoint P cw note1 0 empty_proof);
     asserts (last_size cw = 1);
     let cosigned1 = note1 @ line1;
     agreed \<leftarrow> verify_quorum P cosigned1 quorum 2;
     asserts (cp_size agreed = 1);
     w \<leftarrow> append_tagged P w 2;
     (note2, w) \<leftarrow> log_note P log w;
     (pf, w) \<leftarrow> prove_consistency P w 1 2;
     pf \<leftarrow> pf;
     (line2, cw) \<leftarrow> granted (add_checkpoint P cw note2 1 pf);
     asserts (last_size cw = 2);
     asserts (verify_quorum P (note2 @ line2) quorum 2 \<noteq> None)}"

definition test_size_mismatch_and_rollback :: "prims \<Rightarrow> unit option" where
  "test_size_mismatch_and_rollback P = do {
     let log = seeded P 3;
     w \<leftarrow> append_tagged P witness_new 1;
     (note1, w) \<leftarrow> log_note P log w;
     let cw = cosigning_witness_new (seeded P 4) ''wa'' test_origin (sg_public_key log);
     (_, cw) \<leftarrow> granted (add_checkpoint P cw note1 0 empty_proof);
     (e, cw) \<leftarrow> refused (add_checkpoint P cw note1 0 empty_proof);
     asserts (e = SizeMismatch 1);
     w \<leftarrow> append_tagged P w 2;
     (note2, w) \<leftarrow> log_note P log w;
     (pf, w) \<leftarrow> prove_consistency P w 1 2;
     pf \<leftarrow> pf;
     (_, cw) \<leftarrow> granted (add_checkpoint P cw note2 1 pf);
     (e, cw) \<leftarrow> refused (add_checkpoint P cw note1 2 empty_proof);
     asserts (e = Rollback 2 1)}"

definition test_inconsistent_proof_is_rejected :: "prims \<Rightarrow> unit option" where
  "test_inconsistent_proof_is_rejected P = do {
     let log = seeded P 5;
     w \<leftarrow> append_tagged P witness_new 1;
     (note1, w) \<leftarrow> log_note P log w;
     let cw = cosigning_witness_new (seeded P 6) ''wa'' test_origin (sg_public_key log);
     (_, cw) \<leftarrow> granted (add_checkpoint P cw note1 0 empty_proof);
     w \<leftarrow> append_tagged P w 2;
     (note2, w) \<leftarrow> log_note P log w;
     let bogus = \<lparr>nodes = [fill 9]\<rparr>;
     (e, cw) \<leftarrow> refused (add_checkpoint P cw note2 1 bogus);
     asserts (e = InconsistentProof)}"

definition test_foreign_log_is_rejected :: "prims \<Rightarrow> unit option" where
  "test_foreign_log_is_rejected P = do {
     let log = seeded P 7;
     let impostor = seeded P 8;
     w \<leftarrow> append_tagged P witness_new 1;
     (foreign_note, w) \<leftarrow> log_note P impostor w;
     let cw = cosigning_witness_new (seeded P 9) ''wa'' test_origin (sg_public_key log);
     (e, cw) \<leftarrow> refused (add_checkpoint P cw foreign_note 0 empty_proof);
     asserts (e = BadLogSignature)}"

definition test_quorum_requires_threshold :: "prims \<Rightarrow> unit option" where
  "test_quorum_requires_threshold P = do {
     let log = seeded P 10;
     let wa = seeded P 11;
     let log_key = sg_public_key log;
     let quorum = [(test_origin, log_key), (''witness-a'', sg_public_key wa)];
     w \<leftarrow> append_tagged P witness_new 1;
     (note1, w) \<leftarrow> log_note P log w;
     asserts (verify_quorum P note1 quorum 2 = None);
     asserts (verify_quorum P note1 quorum 1 \<noteq> None);
     let cw = cosigning_witness_new wa ''witness-a'' test_origin log_key;
     (line, cw) \<leftarrow> granted (add_checkpoint P cw note1 0 empty_proof);
     asserts (verify_quorum P (note1 @ line) quorum 2 \<noteq> None)}"

definition checkpoint_tests :: "(prims \<Rightarrow> unit option) list" where
  "checkpoint_tests =
     [test_sign_then_verify, test_note_has_c2sp_shape, test_tampered_body_is_rejected, test_note_wrong_key_is_rejected,
      test_cosigned_note_verifies, test_from_signed_tree_head, test_extensions_and_quorum,
      test_size_mismatch_and_rollback, test_inconsistent_proof_is_rejected, test_foreign_log_is_rejected,
      test_quorum_requires_threshold]"

section \<open>What a line verifies\<close>

text \<open>A line names its key, and its signature is the one that was made.\<close>

lemma line_of_key:
  assumes "base64_ok P" and "name_ok nm'" and "length (ed_raw_sign P sd (str_bytes body')) = 64"
    and "line_verifies P body nm pk (key_line P body' sd nm')"
  shows "nm = nm'"
    and "verify_signature P (str_bytes body) \<lparr>sig_algorithm = Ed25519, sig_bytes = ed_raw_sign P sd (str_bytes body')\<rparr> pk = Inr True"
proof -
  let ?enc = "b64_encode P (key_hash P nm' (ed_public P sd) @ ed_raw_sign P sd (str_bytes body'))"
  from assms(4) [unfolded line_verifies_iff] obtain b64 s where l: "CHR '' '' \<notin> set nm"
    "key_line P body' sd nm' = sig_marker @ nm @ '' '' @ b64" "length s = 64"
    "b64_decode P b64 = Some (key_hash P nm (pk_bytes pk) @ s)"
    "verify_signature P (str_bytes body) \<lparr>sig_algorithm = Ed25519, sig_bytes = s\<rparr> pk = Inr True"
    by blast
  from l(2) have shape: "nm' @ CHR '' '' # ?enc = nm @ CHR '' '' # b64" unfolding key_line_def by simp
  have "split_once (CHR '' '') (nm' @ CHR '' '' # ?enc) = Some (nm', ?enc)"
    by (rule split_once_first) (use assms(2) in \<open>simp add: name_ok_def\<close>)
  then have "Some (nm', ?enc) = Some (nm, b64)" unfolding shape split_once_first [OF l(1)] by (rule sym)
  then have eq: "nm = nm'" "b64 = ?enc" by auto
  show "nm = nm'" by (rule eq)
  have "key_hash P nm' (ed_public P sd) @ ed_raw_sign P sd (str_bytes body') = key_hash P nm (pk_bytes pk) @ s"
    using l(4) eq(2) assms(1) by simp
  then have "ed_raw_sign P sd (str_bytes body') = s" using l(3) assms(3) by simp
  with l(5) show "verify_signature P (str_bytes body)
      \<lparr>sig_algorithm = Ed25519, sig_bytes = ed_raw_sign P sd (str_bytes body')\<rparr> pk = Inr True" by simp
qed

lemma line_refused:
  assumes "base64_ok P" and "name_ok nm'" and "ed_good P sd"
    and "nm \<noteq> nm' \<or> \<not> ed_check P (ed_public P sd') (str_bytes body) (ed_raw_sign P sd (str_bytes body'))"
  shows "\<not> line_verifies P body nm (sg_public_key (ed25519_from_seed P sd')) (key_line P body' sd nm')"
proof
  assume v: "line_verifies P body nm (sg_public_key (ed25519_from_seed P sd')) (key_line P body' sd nm')"
  have len: "length (ed_raw_sign P sd (str_bytes body')) = 64" using assms(3) by (simp add: ed_good_def)
  from line_of_key [OF assms(1,2) len v] assms(4) show False
    by (auto simp: ed25519_from_seed_def ed25519_verify_def split: if_splits)
qed

lemma verify_checkpoint_none:
  assumes "note_split n = Some (body, sigs)" and "\<forall>l \<in> set sigs. \<not> line_verifies P body nm pk l"
  shows "verify_checkpoint P n nm pk = None"
  using assms by (simp add: verify_checkpoint_def list_ex_iff)

section \<open>The notes of the tests\<close>

definition noted :: "prims \<Rightarrow> bytes32 \<Rightarrow> string \<Rightarrow> checkpoint \<Rightarrow> string \<Rightarrow> bool" where
  "noted P sd name c n \<longleftrightarrow>
     note_split n = Some (checkpoint_body P c, [key_line P (checkpoint_body P c) sd name]) \<and> last n = nl \<and>
     verify_checkpoint P n name (sg_public_key (ed25519_from_seed P sd)) = Some c"

lemma test_names [simp]:
  "name_ok ''indexone''" "name_ok ''witness-a''" "name_ok ''witness-b''" "name_ok ''stranger''" "name_ok ''wa''" "name_ok test_origin"
  by (simp_all add: name_ok_def nl_def test_origin_def)

lemma test_origin_ok [simp]: "origin_ok test_origin" "origin_ok ''indexone.dev/witness''"
  by (simp_all add: origin_ok_def test_origin_def nl_def cr_def strip_cr_def starts_with_def strip_prefix_str_def sig_marker_def)

lemma test_checkpoint_fits [simp]: "origin_ok (cp_origin test_checkpoint)" "cp_size test_checkpoint < usize_bound"
  by (simp_all add: test_checkpoint_def usize_bound_def)

lemma noted_ok:
  assumes "base64_ok P" and "origin_ok (cp_origin c)" and "cp_size c < usize_bound" and "name_ok name" and "ed_good P sd"
  shows "\<exists>n. sign_checkpoint P (ed25519_from_seed P sd) name c = Some n \<and> noted P sd name c n"
  using sign_checkpoint_ok [OF assms] by (metis noted_def)

lemma sign_checkpoint_text:
  "sign_checkpoint P (ed25519_from_seed P sd) name c =
     Some (checkpoint_body P c @ unlines [key_line P (checkpoint_body P c) sd name])"
  by (simp add: sign_checkpoint_def Let_def)

lemma decimal_42: "decimal 42 = ''42''" "decimal 43 = ''43''"
  by code_simp+

lemma tampered_text:
  "replace_once ''42'' ''43'' (checkpoint_body P test_checkpoint @ t) = checkpoint_body P (test_checkpoint\<lparr>cp_size := 43\<rparr>) @ t"
  by (simp add: checkpoint_body_def test_checkpoint_def decimal_42 starts_with_def strip_prefix_str_def nl_def)

definition foreign_key :: "prims \<Rightarrow> u8 \<Rightarrow> u8 \<Rightarrow> bool" where
  "foreign_key P a b \<longleftrightarrow> (\<forall>m. \<not> ed_check P (ed_public P (fill b)) m (ed_raw_sign P (fill a) m))"

lemma sign_then_verify_passes:
  assumes "base64_ok P" and "ed_good P (fill 1)"
  shows "test_sign_then_verify P = Some ()"
  using noted_ok [OF assms(1) test_checkpoint_fits test_names(1) assms(2)] by (auto simp: test_sign_then_verify_def noted_def)

lemma c2sp_shape_passes:
  assumes "base64_ok P"
  shows "test_note_has_c2sp_shape P = Some ()"
proof -
  let ?body = "checkpoint_body P test_checkpoint" and ?b64 = "b64_encode P (array_bytes (fill 7))"
  let ?line = "key_line P ?body (fill 2) ''indexone''"
  have "nl \<notin> set ?line" by (rule key_line_shape(2) [OF assms]) simp
  then have free: "\<forall>l \<in> set [test_origin, ''42'', ?b64, ?line]. nl \<notin> set l"
    using base64_free [OF assms] by (simp add: nl_def test_origin_def)
  have cr: "strip_cr ?line = ?line" "strip_cr ?b64 = ?b64"
    using base64_free(3) [OF assms] by (auto intro!: strip_cr_free simp: key_line_def sig_marker_def cr_def)
  have "?body @ unlines [?line] = unlines [test_origin, ''42'', ?b64, ?line]"
    by (simp add: checkpoint_body_def test_checkpoint_def decimal_42 test_origin_def)
  with str_lines_unlines [OF free] cr have "str_lines (?body @ unlines [?line]) = [test_origin, ''42'', ?b64, ?line]"
    by (simp add: strip_cr_def cr_def test_origin_def)
  moreover have "starts_with (sig_marker @ ''indexone '') ?line"
    by (simp add: starts_with_def key_line_def sig_marker_def strip_prefix_str_def)
  ultimately show ?thesis
    by (simp add: test_note_has_c2sp_shape_def sign_checkpoint_text test_origin_def del: unlines_simps)
qed

lemma tampered_body_passes:
  assumes "base64_ok P" and "ed_good P (fill 3)"
    and apart: "\<not> ed_check P (ed_public P (fill 3)) (str_bytes (checkpoint_body P (test_checkpoint\<lparr>cp_size := 43\<rparr>)))
      (ed_raw_sign P (fill 3) (str_bytes (checkpoint_body P test_checkpoint)))"
  shows "test_tampered_body_is_rejected P = Some ()"
proof -
  let ?c = "test_checkpoint\<lparr>cp_size := 43\<rparr>" and ?l = "key_line P (checkpoint_body P test_checkpoint) (fill 3) ''indexone''"
  have "origin_ok (cp_origin ?c)" by simp
  from note_split_checkpoint [OF assms(1) this key_line_shape(1) [OF assms(1) test_names(1)], of "checkpoint_body P test_checkpoint" "fill 3" "[]"]
    key_line_shape(2) [OF assms(1) test_names(1)]
  have "note_split (checkpoint_body P ?c @ unlines [?l]) = Some (checkpoint_body P ?c, [?l])" by simp
  from verify_checkpoint_none [OF this] line_refused [OF assms(1) test_names(1) assms(2)] apart
  have "verify_checkpoint P (checkpoint_body P ?c @ unlines [?l]) ''indexone'' (sg_public_key (seeded P 3)) = None" by simp
  then show ?thesis
    by (simp add: test_tampered_body_is_rejected_def sign_checkpoint_text tampered_text del: unlines_simps)
qed

lemma note_wrong_key_passes:
  assumes "base64_ok P" and "ed_good P (fill 4)" and "foreign_key P 4 5"
  shows "test_note_wrong_key_is_rejected P = Some ()"
proof -
  from noted_ok [OF assms(1) test_checkpoint_fits test_names(1) assms(2)] obtain n where
    n: "sign_checkpoint P (seeded P 4) ''indexone'' test_checkpoint = Some n" "noted P (fill 4) ''indexone'' test_checkpoint n" by blast
  then have "note_split n = Some (checkpoint_body P test_checkpoint, [key_line P (checkpoint_body P test_checkpoint) (fill 4) ''indexone''])"
    by (simp add: noted_def)
  from verify_checkpoint_none [OF this] line_refused [OF assms(1) test_names(1) assms(2)] assms(3)
  have "verify_checkpoint P n ''indexone'' (sg_public_key (seeded P 5)) = None" by (simp add: foreign_key_def)
  with n(1) show ?thesis by (simp add: test_note_wrong_key_is_rejected_def)
qed

lemma cosigned_note_passes:
  assumes b64: "base64_ok P" and good: "ed_good P (fill 6)" "ed_good P (fill 7)" "ed_good P (fill 8)"
  shows "test_cosigned_note_verifies P = Some ()"
proof -
  let ?body = "checkpoint_body P test_checkpoint"
  from noted_ok [OF b64 test_checkpoint_fits test_names(1) good(1)] obtain n where
    n: "sign_checkpoint P (seeded P 6) ''indexone'' test_checkpoint = Some n" and ns: "noted P (fill 6) ''indexone'' test_checkpoint n" by blast
  from ns have s: "note_split n = Some (?body, [key_line P ?body (fill 6) ''indexone''])" "last n = nl" by (simp_all add: noted_def)
  obtain na where a: "cosign P n (seeded P 7) ''witness-a'' = Some (Some na)" "last na = nl"
    "note_split na = Some (?body, [key_line P ?body (fill 6) ''indexone''] @ [key_line P ?body (fill 7) ''witness-a''])"
    by (rule cosign_ok [OF b64 test_names(2) good(2) s])
  obtain nb where b: "cosign P na (seeded P 8) ''witness-b'' = Some (Some nb)"
    "note_split nb = Some (?body, ([key_line P ?body (fill 6) ''indexone''] @ [key_line P ?body (fill 7) ''witness-a'']) @
       [key_line P ?body (fill 8) ''witness-b''])"
    by (rule cosign_ok [OF b64 test_names(3) good(3) a(3,2)])
  have verifies: "verify_checkpoint P nb ''indexone'' (sg_public_key (seeded P 6)) = Some test_checkpoint"
    "verify_checkpoint P nb ''witness-a'' (sg_public_key (seeded P 7)) = Some test_checkpoint"
    "verify_checkpoint P nb ''witness-b'' (sg_public_key (seeded P 8)) = Some test_checkpoint"
    using key_line_verifies [OF b64 test_names(1) good(1)] key_line_verifies [OF b64 test_names(2) good(2)]
      key_line_verifies [OF b64 test_names(3) good(3)] parse_checkpoint_body [OF b64 test_checkpoint_fits]
    by (simp_all add: verify_checkpoint_iff b(2))
  have "verify_checkpoint P nb ''stranger'' (sg_public_key (seeded P 9)) = None"
    by (rule verify_checkpoint_none [OF b(2)])
      (simp add: line_refused [OF b64 test_names(1) good(1)] line_refused [OF b64 test_names(2) good(2)]
        line_refused [OF b64 test_names(3) good(3)])
  with verifies show ?thesis by (simp add: test_cosigned_note_verifies_def n a(1) b(1))
qed

section \<open>The cosigning tests pass\<close>

text \<open>The note of a log's head, and the log after it.\<close>

abbreviation head_checkpoint :: "prims \<Rightarrow> action_receipt list \<Rightarrow> checkpoint" where
  "head_checkpoint P rs \<equiv> \<lparr>cp_origin = test_origin, cp_size = length rs, cp_root = naive_root P (map (leaf_of P) rs)\<rparr>"

lemma append_tagged_ok:
  assumes "logs P w rs"
  shows "\<exists>w'. append_tagged P w tag = Some w' \<and> logs P w' (rs @ [tag_receipt tag (naive_root P (map (leaf_of P) rs))])"
proof -
  from logs_root [OF assms] obtain w1 where "witness_root P w = Some (naive_root P (map (leaf_of P) rs), w1)" "logs P w1 rs" by blast
  with logs_append [OF this(2), of "tag_receipt tag (naive_root P (map (leaf_of P) rs))"] show ?thesis
    by (auto simp: append_tagged_def)
qed

lemma log_note_ok:
  assumes "base64_ok P" and "ed_good P sd" and "logs P w rs" and "length rs < usize_bound"
  shows "\<exists>n w'. log_note P (ed25519_from_seed P sd) w = Some (n, w') \<and> logs P w' rs \<and> noted P sd test_origin (head_checkpoint P rs) n"
proof -
  obtain h w1 where h: "signed_head P w (ed25519_from_seed P sd) = Some (h, w1)" "logs P w1 rs"
    "head_of P (map (leaf_of P) rs) h" by (rule logs_head [OF assms(2,3)])
  from h(3) have c: "checkpoint_from_sth test_origin h = head_checkpoint P rs"
    by (simp add: checkpoint_from_sth_def head_of_def)
  have "origin_ok (cp_origin (head_checkpoint P rs))" "cp_size (head_checkpoint P rs) < usize_bound" using assms(4) by simp_all
  from noted_ok [OF assms(1) this test_names(6) assms(2)] h(1,2) show ?thesis by (auto simp: log_note_def c)
qed

text \<open>A witness of the log with what it has seen, and the line it answers with.\<close>

abbreviation watching :: "prims \<Rightarrow> bytes32 \<Rightarrow> string \<Rightarrow> bytes32 \<Rightarrow> (nat \<times> digest) option \<Rightarrow> cosigning_witness" where
  "watching P own name sd seen \<equiv>
     \<lparr>cw_signer = ed25519_from_seed P own, cw_key_name = name, cw_log_origin = test_origin,
      cw_log_key = sg_public_key (ed25519_from_seed P sd), cw_seen = seen\<rparr>"

lemma cosigning_witness_watching:
  "cosigning_witness_new (ed25519_from_seed P own) name test_origin (sg_public_key (ed25519_from_seed P sd)) = watching P own name sd None"
  by (simp add: cosigning_witness_new_def)

lemma granted_line:
  assumes "noted P sd test_origin c n" and "ed_good P own" and "extends_view P (seen_view (watching P own name sd seen)) c pf"
    and "old = last_size (watching P own name sd seen)"
  shows "granted (add_checkpoint P (watching P own name sd seen) n old pf) =
    Some (key_line P (checkpoint_body P c) own name @ [nl], watching P own name sd (Some (cp_size c, cp_root c)))"
proof -
  have "signer_ok P (cw_signer (watching P own name sd seen))" using ed.ok [OF assms(2)] by simp
  from add_checkpoint_iff [OF this, of n old pf] assms
  have "add_checkpoint P (watching P own name sd seen) n old pf =
    Some (Inr (key_line P (checkpoint_body P c) own name @ [nl]), watching P own name sd (Some (cp_size c, cp_root c)))"
    by (auto simp: noted_def note_body_def)
  then show ?thesis by (simp add: granted_def)
qed

text \<open>The log's line and the witness's make a quorum of two, the log's alone does not.\<close>

lemma cosigned_quorum:
  assumes "base64_ok P" and "noted P sd test_origin c n" and "name_ok name" and "ed_good P own"
  shows "verify_quorum P (n @ key_line P (checkpoint_body P c) own name @ [nl])
    [(test_origin, sg_public_key (ed25519_from_seed P sd)), (name, sg_public_key (ed25519_from_seed P own))] 2 = Some c"
proof -
  let ?n = "n @ key_line P (checkpoint_body P c) own name @ [nl]"
  from assms(2) have n: "last n = nl" "verify_checkpoint P n test_origin (sg_public_key (ed25519_from_seed P sd)) = Some c"
    "note_body n = Some (checkpoint_body P c)" by (simp_all add: noted_def note_body_def)
  have "cosign P n (ed25519_from_seed P own) name = Some (Some ?n)" by (simp add: cosign_def n(3))
  from cosign_keeps [OF assms(1,3,4) n(1,2) this] show ?thesis by (simp add: verify_quorum_iff)
qed

lemma lone_quorum:
  assumes "base64_ok P" and "noted P sd test_origin c n" and "ed_good P sd" and "name \<noteq> test_origin"
  shows "verify_quorum P n [(test_origin, sg_public_key (ed25519_from_seed P sd)), (name, sg_public_key (ed25519_from_seed P own))] 2 = None"
    and "verify_quorum P n [(test_origin, sg_public_key (ed25519_from_seed P sd)), (name, sg_public_key (ed25519_from_seed P own))] 1 = Some c"
proof -
  let ?ws = "[(test_origin, sg_public_key (ed25519_from_seed P sd)), (name, sg_public_key (ed25519_from_seed P own))]"
  from assms(2) have n: "verify_checkpoint P n test_origin (sg_public_key (ed25519_from_seed P sd)) = Some c"
    "note_split n = Some (checkpoint_body P c, [key_line P (checkpoint_body P c) sd test_origin])" by (simp_all add: noted_def)
  have "verify_checkpoint P n name (sg_public_key (ed25519_from_seed P own)) = None"
    by (rule verify_checkpoint_none [OF n(2)]) (simp add: line_refused [OF assms(1) test_names(6) assms(3)] assms(4))
  with n(1) show "verify_quorum P n ?ws 1 = Some c" "verify_quorum P n ?ws 2 = None"
    by (simp_all add: verify_quorum_def)
qed

text \<open>A log of one entry, and of two, with their notes and the proof between them.\<close>

definition first_entry :: "prims \<Rightarrow> action_receipt" where
  "first_entry P = tag_receipt 1 (naive_root P [])"

definition second_entry :: "prims \<Rightarrow> action_receipt" where
  "second_entry P = tag_receipt 2 (leaf_of P (first_entry P))"

abbreviation head_1 :: "prims \<Rightarrow> checkpoint" where
  "head_1 P \<equiv> head_checkpoint P [first_entry P]"

abbreviation head_2 :: "prims \<Rightarrow> checkpoint" where
  "head_2 P \<equiv> head_checkpoint P [first_entry P, second_entry P]"

lemma first_note:
  assumes "base64_ok P" and "ed_good P sd"
  shows "\<exists>w1 n1 w2. append_tagged P witness_new 1 = Some w1 \<and> log_note P (ed25519_from_seed P sd) w1 = Some (n1, w2) \<and>
    logs P w2 [first_entry P] \<and> noted P sd test_origin (head_1 P) n1"
proof -
  from append_tagged_ok [OF logs_new] obtain w1 where
    w1: "append_tagged P witness_new 1 = Some w1" "logs P w1 [first_entry P]" by (auto simp: first_entry_def)
  have "length [first_entry P] < usize_bound" by (simp add: usize_bound_def)
  from log_note_ok [OF assms w1(2) this] w1(1) show ?thesis by auto
qed

lemma second_note:
  assumes "base64_ok P" and "ed_good P sd" and "logs P w [first_entry P]"
  shows "\<exists>w1 n2 w2 pf w3. append_tagged P w 2 = Some w1 \<and> log_note P (ed25519_from_seed P sd) w1 = Some (n2, w2) \<and>
    noted P sd test_origin (head_2 P) n2 \<and> prove_consistency P w2 1 2 = Some (Some pf, w3) \<and>
    verify_consistency P (leaf_of P (first_entry P)) (cp_root (head_2 P)) pf 1 2"
proof -
  let ?rs = "[first_entry P, second_entry P]"
  from append_tagged_ok [OF assms(3)] obtain w1 where
    w1: "append_tagged P w 2 = Some w1" "logs P w1 ?rs" by (auto simp: second_entry_def)
  have "length ?rs < usize_bound" by (simp add: usize_bound_def)
  from log_note_ok [OF assms(1,2) w1(2) this] obtain n2 w2 where
    n2: "log_note P (ed25519_from_seed P sd) w1 = Some (n2, w2)" "logs P w2 ?rs" "noted P sd test_origin (head_2 P) n2" by auto
  from logs_consistency [OF n2(2), of 1] consistent [of 1 ?rs P] n2(1,3) w1(1) show ?thesis by (auto simp: numeral_2_eq_2)
qed

lemma extensions_and_quorum_passes:
  assumes "base64_ok P" and good: "ed_good P (fill 1)" "ed_good P (fill 2)"
  shows "test_extensions_and_quorum P = Some ()"
proof -
  from first_note [OF assms(1,2)] obtain w1 n1 w2 where 1: "append_tagged P witness_new 1 = Some w1"
    "log_note P (seeded P 1) w1 = Some (n1, w2)" "logs P w2 [first_entry P]" "noted P (fill 1) test_origin (head_1 P) n1" by blast
  from second_note [OF assms(1,2) 1(3)] obtain v1 n2 v2 pf v3 where 2: "append_tagged P w2 2 = Some v1"
    "log_note P (seeded P 1) v1 = Some (n2, v2)" "noted P (fill 1) test_origin (head_2 P) n2"
    "prove_consistency P v2 1 2 = Some (Some pf, v3)"
    "verify_consistency P (leaf_of P (first_entry P)) (cp_root (head_2 P)) pf 1 2" by blast
  have views: "extends_view P (seen_view (watching P (fill 2) ''witness-a'' (fill 1) None)) (head_1 P) empty_proof"
    "extends_view P (seen_view (watching P (fill 2) ''witness-a'' (fill 1) (Some (cp_size (head_1 P), cp_root (head_1 P))))) (head_2 P) pf"
    using 2(5) by (simp_all add: extends_view_def seen_view_def empty_proof_def numeral_2_eq_2)
  show ?thesis
    using granted_line [OF 1(4) good(2) views(1), of 0] granted_line [OF 2(3) good(2) views(2), of 1]
      cosigned_quorum [OF assms(1) 1(4) test_names(2) good(2)] cosigned_quorum [OF assms(1) 2(3) test_names(2) good(2)]
    by (simp add: test_extensions_and_quorum_def 1(1,2) 2(1,2) 2(4) [simplified] cosigning_witness_watching last_size_def Let_def)
qed

lemma refusals:
  assumes "noted P sd test_origin c n"
  shows "old \<noteq> last_size (watching P own name sd seen) \<Longrightarrow>
      refused (add_checkpoint P (watching P own name sd seen) n old pf) =
        Some (SizeMismatch (last_size (watching P own name sd seen)), watching P own name sd seen)"
    and "old = last_size (watching P own name sd seen) \<Longrightarrow> cp_size c < old \<Longrightarrow>
      refused (add_checkpoint P (watching P own name sd seen) n old pf) = Some (Rollback old (cp_size c), watching P own name sd seen)"
proof -
  have "verify_checkpoint P n (cw_log_origin (watching P own name sd seen)) (cw_log_key (watching P own name sd seen)) = Some c"
    using assms by (simp add: noted_def)
  from add_checkpoint_errors [OF this]
  show "old \<noteq> last_size (watching P own name sd seen) \<Longrightarrow>
      refused (add_checkpoint P (watching P own name sd seen) n old pf) =
        Some (SizeMismatch (last_size (watching P own name sd seen)), watching P own name sd seen)"
    and "old = last_size (watching P own name sd seen) \<Longrightarrow> cp_size c < old \<Longrightarrow>
      refused (add_checkpoint P (watching P own name sd seen) n old pf) = Some (Rollback old (cp_size c), watching P own name sd seen)"
    by (simp_all add: refused_def)
qed

lemma size_mismatch_and_rollback_passes:
  assumes "base64_ok P" and good: "ed_good P (fill 3)" "ed_good P (fill 4)"
  shows "test_size_mismatch_and_rollback P = Some ()"
proof -
  from first_note [OF assms(1,2)] obtain w1 n1 w2 where 1: "append_tagged P witness_new 1 = Some w1"
    "log_note P (seeded P 3) w1 = Some (n1, w2)" "logs P w2 [first_entry P]" "noted P (fill 3) test_origin (head_1 P) n1" by blast
  from second_note [OF assms(1,2) 1(3)] obtain v1 n2 v2 pf v3 where 2: "append_tagged P w2 2 = Some v1"
    "log_note P (seeded P 3) v1 = Some (n2, v2)" "noted P (fill 3) test_origin (head_2 P) n2"
    "prove_consistency P v2 1 2 = Some (Some pf, v3)"
    "verify_consistency P (leaf_of P (first_entry P)) (cp_root (head_2 P)) pf 1 2" by blast
  let ?w1 = "watching P (fill 4) ''wa'' (fill 3) (Some (cp_size (head_1 P), cp_root (head_1 P)))"
  let ?w2 = "watching P (fill 4) ''wa'' (fill 3) (Some (cp_size (head_2 P), cp_root (head_2 P)))"
  have views: "extends_view P (seen_view (watching P (fill 4) ''wa'' (fill 3) None)) (head_1 P) empty_proof"
    "extends_view P (seen_view ?w1) (head_2 P) pf"
    using 2(5) by (simp_all add: extends_view_def seen_view_def empty_proof_def numeral_2_eq_2)
  have "refused (add_checkpoint P ?w1 n1 0 empty_proof) = Some (SizeMismatch 1, ?w1)"
    using refusals(1) [OF 1(4), of 0 "fill 4" "''wa''" "Some (cp_size (head_1 P), cp_root (head_1 P))"] by (simp add: last_size_def)
  moreover have "refused (add_checkpoint P ?w2 n1 2 empty_proof) = Some (Rollback 2 1, ?w2)"
    using refusals(2) [OF 1(4), of 2 "fill 4" "''wa''" "Some (cp_size (head_2 P), cp_root (head_2 P))"]
    by (simp add: last_size_def numeral_2_eq_2)
  ultimately show ?thesis
    using granted_line [OF 1(4) good(2) views(1), of 0] granted_line [OF 2(3) good(2) views(2), of 1]
    by (simp add: test_size_mismatch_and_rollback_def 1(1,2) 2(1,2) 2(4) [simplified] cosigning_witness_watching last_size_def Let_def)
qed

text \<open>The bogus sibling hashes to another root than the second entry.\<close>

definition bogus_apart :: "prims \<Rightarrow> bool" where
  "bogus_apart P \<longleftrightarrow>
     collision_free P {node_bytes (leaf_of P (first_entry P)) (fill 9),
       node_bytes (leaf_of P (first_entry P)) (leaf_of P (second_entry P))} \<and>
     leaf_of P (second_entry P) \<noteq> fill 9"

lemma inconsistent_proof_passes:
  assumes "base64_ok P" and good: "ed_good P (fill 5)" "ed_good P (fill 6)" and apart: "bogus_apart P"
  shows "test_inconsistent_proof_is_rejected P = Some ()"
proof -
  let ?l1 = "leaf_of P (first_entry P)" and ?l2 = "leaf_of P (second_entry P)"
  from first_note [OF assms(1,2)] obtain w1 n1 w2 where 1: "append_tagged P witness_new 1 = Some w1"
    "log_note P (seeded P 5) w1 = Some (n1, w2)" "logs P w2 [first_entry P]" "noted P (fill 5) test_origin (head_1 P) n1" by blast
  from second_note [OF assms(1,2) 1(3)] obtain v1 n2 v2 where 2: "append_tagged P w2 2 = Some v1"
    "log_note P (seeded P 5) v1 = Some (n2, v2)" "noted P (fill 5) test_origin (head_2 P) n2" by blast
  have view: "extends_view P (seen_view (watching P (fill 6) ''wa'' (fill 5) None)) (head_1 P) empty_proof"
    by (simp add: extends_view_def seen_view_def empty_proof_def)
  have "split_point (Suc (Suc 0)) = Suc 0" using split_point_bounds [of "Suc (Suc 0)"] by linarith
  then have root: "naive_root P [?l1, ?l2] = hash_node P ?l1 ?l2" by (simp add: naive_root_split)
  have "hash_node P ?l1 (fill 9) \<noteq> hash_node P ?l1 ?l2"
  proof
    assume "hash_node P ?l1 (fill 9) = hash_node P ?l1 ?l2"
    with apart have "fill 9 = ?l2"
      using log_hash.node_eqD [of P "{node_bytes ?l1 (fill 9), node_bytes ?l1 ?l2}" ?l1 "fill 9" ?l1 ?l2]
      by (simp add: bogus_apart_def)
    with apart show False by (simp add: bogus_apart_def)
  qed
  then have "\<not> verify_consistency P ?l1 (hash_node P ?l1 ?l2) \<lparr>nodes = [fill 9]\<rparr> 1 2"
    by (simp add: verify_consistency_walk seeded_walk_def is_power_of_two.simps [of "Suc 0"] strip_ones.simps [of 0]
        walk_last_right numeral_2_eq_2)
  moreover have "verify_checkpoint P n2 test_origin (sg_public_key (seeded P 5)) = Some (head_2 P)" using 2(3) by (simp add: noted_def)
  ultimately have "refused (add_checkpoint P (watching P (fill 6) ''wa'' (fill 5) (Some (cp_size (head_1 P), cp_root (head_1 P))))
      n2 1 \<lparr>nodes = [fill 9]\<rparr>) =
      Some (InconsistentProof, watching P (fill 6) ''wa'' (fill 5) (Some (cp_size (head_1 P), cp_root (head_1 P))))"
    by (simp add: refused_def add_checkpoint_def root numeral_2_eq_2)
  then show ?thesis
    using granted_line [OF 1(4) good(2) view, of 0]
    by (simp add: test_inconsistent_proof_is_rejected_def 1(1,2) 2(1,2) cosigning_witness_watching last_size_def Let_def)
qed

lemma foreign_log_passes:
  assumes "base64_ok P" and "ed_good P (fill 8)" and "foreign_key P 8 7"
  shows "test_foreign_log_is_rejected P = Some ()"
proof -
  from first_note [OF assms(1,2)] obtain w1 n1 w2 where 1: "append_tagged P witness_new 1 = Some w1"
    "log_note P (seeded P 8) w1 = Some (n1, w2)" "noted P (fill 8) test_origin (head_1 P) n1" by blast
  then have "note_split n1 = Some (checkpoint_body P (head_1 P), [key_line P (checkpoint_body P (head_1 P)) (fill 8) test_origin])"
    by (simp add: noted_def)
  from verify_checkpoint_none [OF this] line_refused [OF assms(1) test_names(6) assms(2)] assms(3)
  have "verify_checkpoint P n1 test_origin (sg_public_key (seeded P 7)) = None" by (simp add: foreign_key_def)
  with 1(1,2) show ?thesis
    by (simp add: test_foreign_log_is_rejected_def cosigning_witness_watching add_checkpoint_def refused_def)
qed

lemma quorum_requires_threshold_passes:
  assumes "base64_ok P" and good: "ed_good P (fill 10)" "ed_good P (fill 11)"
  shows "test_quorum_requires_threshold P = Some ()"
proof -
  from first_note [OF assms(1,2)] obtain w1 n1 w2 where 1: "append_tagged P witness_new 1 = Some w1"
    "log_note P (seeded P 10) w1 = Some (n1, w2)" "noted P (fill 10) test_origin (head_1 P) n1" by blast
  have view: "extends_view P (seen_view (watching P (fill 11) ''witness-a'' (fill 10) None)) (head_1 P) empty_proof"
    by (simp add: extends_view_def seen_view_def empty_proof_def)
  have other: "''witness-a'' \<noteq> test_origin" by (simp add: test_origin_def)
  show ?thesis
    using granted_line [OF 1(3) good(2) view, of 0] cosigned_quorum [OF assms(1) 1(3) test_names(2) good(2)]
      lone_quorum [OF assms(1) 1(3) good(1) other]
    by (simp add: test_quorum_requires_threshold_def 1(1,2) cosigning_witness_watching last_size_def Let_def)
qed

lemma from_signed_tree_head_passes:
  assumes "base64_ok P" and "ed_good P (fill 10)"
  shows "test_from_signed_tree_head P = Some ()"
proof -
  obtain h w1 where h: "signed_head P witness_new (seeded P 10) = Some (h, w1)" "head_of P (map (leaf_of P) []) h"
    by (rule logs_head [OF assms(2) logs_new])
  let ?c = "checkpoint_from_sth ''indexone.dev/witness'' h"
  have "origin_ok (cp_origin ?c)" "cp_size ?c < usize_bound"
    using h(2) by (simp_all add: checkpoint_from_sth_def head_of_def usize_bound_def)
  from noted_ok [OF assms(1) this test_names(1) assms(2)] h(1) show ?thesis
    by (auto simp: test_from_signed_tree_head_def noted_def) (simp_all add: checkpoint_from_sth_def)
qed

text \<open>What the tests rely on: working seeds, and what must be refused is.\<close>

definition notes_apart :: "prims \<Rightarrow> bool" where
  "notes_apart P \<longleftrightarrow>
     base64_ok P \<and> list_all (\<lambda>b. ed_good P (fill b)) [1, 2, 3, 4, 5, 6, 7, 8, 10, 11] \<and>
     foreign_key P 4 5 \<and> foreign_key P 8 7 \<and> bogus_apart P \<and>
     \<not> ed_check P (ed_public P (fill 3)) (str_bytes (checkpoint_body P (test_checkpoint\<lparr>cp_size := 43\<rparr>)))
        (ed_raw_sign P (fill 3) (str_bytes (checkpoint_body P test_checkpoint)))"

lemma checkpoint_tests_pass:
  assumes "notes_apart P"
  shows "map (\<lambda>test. test P) checkpoint_tests = replicate 11 (Some ())"
proof -
  from assms have b: "base64_ok P" and g: "ed_good P (fill 1)" "ed_good P (fill 2)" "ed_good P (fill 3)" "ed_good P (fill 4)"
    "ed_good P (fill 5)" "ed_good P (fill 6)" "ed_good P (fill 7)" "ed_good P (fill 8)" "ed_good P (fill 10)" "ed_good P (fill 11)"
    and apart: "foreign_key P 4 5" "foreign_key P 8 7" "bogus_apart P"
      "\<not> ed_check P (ed_public P (fill 3)) (str_bytes (checkpoint_body P (test_checkpoint\<lparr>cp_size := 43\<rparr>)))
        (ed_raw_sign P (fill 3) (str_bytes (checkpoint_body P test_checkpoint)))"
    by (simp_all add: notes_apart_def)
  show ?thesis
    by (simp add: checkpoint_tests_def sign_then_verify_passes [OF b g(1)] c2sp_shape_passes [OF b] tampered_body_passes [OF b g(3) apart(4)]
      note_wrong_key_passes [OF b g(4) apart(1)] cosigned_note_passes [OF b g(6-8)] from_signed_tree_head_passes [OF b g(9)]
      extensions_and_quorum_passes [OF b g(1,2)] size_mismatch_and_rollback_passes [OF b g(3,4)]
      inconsistent_proof_passes [OF b g(5,6) apart(3)] foreign_log_passes [OF b g(8) apart(2)]
      quorum_requires_threshold_passes [OF b g(9,10)] numeral_eq_Suc)
qed

end
