(* ===== verification/Demo_Crates.thy ===== *)
theory Demo_Crates
  imports Demo_Properties Demo_Services Scenario_Tests Crypto_Tests Checkpoint_Tests
begin

text \<open>
  The instances for the witnesses of the tests of the signature crate and of the signed notes.
\<close>

section \<open>Signatures\<close>

lemma flip_head_bit_differs: "flip_head_bit s = Some bs \<Longrightarrow> bs \<noteq> s"
proof (cases s)
  case (Cons b s')
  moreover have "b XOR 1 \<noteq> b"
  proof
    assume "b XOR 1 = b"
    then have "b XOR b XOR 1 = b XOR b" by (simp add: xor.assoc)
    then show False by simp
  qed
  moreover assume "flip_head_bit s = Some bs"
  ultimately show ?thesis by auto
qed simp

lemma demo_ed_binds: "hd m \<noteq> hd other \<Longrightarrow> m \<noteq> [] \<Longrightarrow> other \<noteq> [] \<Longrightarrow> ed_binds demo (demo_seed 1) m other"
  by (cases m; cases other)
    (auto simp: ed_binds_def demo_ed_good demo_check_def demo_sign_def pad32_def dest: flip_head_bit_differs)

lemma demo_ml_binds: "hd m \<noteq> hd other \<Longrightarrow> m \<noteq> [] \<Longrightarrow> other \<noteq> [] \<Longrightarrow> ml_binds demo [5] m other"
  by (cases m; cases other)
    (auto simp: ml_binds_def demo_check_def demo_sign_def pad32_def dest: flip_head_bit_differs)

lemma demo_drawn: "drawn_secrets demo (Some (demo_seed 1)) (Inr [5])"
proof -
  have "mldsa_good demo [5]" by (simp add: mldsa_good_def demo_check_def demo_sign_def)
  then show ?thesis
    by (simp add: drawn_secrets_def scheme_sizes_def demo_ed_binds demo_ml_binds payload_bytes_def hybrid_payload_def str_bytes_def)
qed

text \<open>A text of the algorithm tags, which are JSON strings.\<close>

fun tag_text :: "json \<Rightarrow> string" where
  "tag_text (JStr s) = s"
| "tag_text _ = ''''"

lemma tag_text_reads: "\<forall>alg. Inr (JStr (tag_text (algorithm_json alg))) = Inr (algorithm_json alg)"
  by (simp add: algorithm_json_def)

section \<open>Signed notes\<close>

definition demo_notes :: prims where
  "demo_notes = demo_wide\<lparr>b64_encode := letters, b64_decode := unletters\<rparr>"

lemma demo_notes_simps [simp]:
  "blake3 demo_notes = demo_hash" "jcs demo_notes = wide_jcs" "ed_key_ok demo_notes k" "ed_public demo_notes = array_bytes"
  "ed_raw_sign demo_notes seed = demo_sign (array_bytes seed)" "ed_check demo_notes key m s \<longleftrightarrow> s = demo_sign key m"
  by (simp_all add: demo_notes_def)

lemma notes_base64: "base64_ok demo_notes"
  using demo_base64 by (simp add: base64_ok_def demo_notes_def)

lemma notes_bogus: "bogus_apart demo_notes"
  unfolding bogus_apart_def collision_free_def inj_on_def by code_simp

lemma notes_tampered:
  "\<exists>more. str_bytes (checkpoint_body P (test_checkpoint\<lparr>cp_size := 43\<rparr>)) = str_bytes (test_origin @ [nl] @ ''43'') @ more"
  "\<exists>more. str_bytes (checkpoint_body P test_checkpoint) = str_bytes (test_origin @ [nl] @ ''42'') @ more"
  by (simp_all add: checkpoint_body_def test_checkpoint_def test_origin_def str_bytes_def decimal_42)

lemma demo_notes_apart: "notes_apart demo_notes"
proof -
  let ?m = "str_bytes (checkpoint_body demo_notes test_checkpoint)" and ?n = "str_bytes (checkpoint_body demo_notes (test_checkpoint\<lparr>cp_size := 43\<rparr>))"
  obtain x y where "?n = str_bytes (test_origin @ [nl] @ ''43'') @ x" "?m = str_bytes (test_origin @ [nl] @ ''42'') @ y"
    using notes_tampered [of demo_notes] by blast
  then have "pad32 ?m \<noteq> pad32 ?n" by (simp add: pad32_def str_bytes_def test_origin_def)
  then show ?thesis
    by (simp add: notes_apart_def notes_base64 notes_bogus ed_good_def demo_sign_def foreign_key_def fill_demo)
qed

end
