(* ===== verification/Key_Universe.thy ===== *)
theory Key_Universe
  imports Revlog
begin

text \<open>
  One assumption on the hash for all sparse Merkle maps over the keys of a set: no collision
  among the encodings of any subtree over them. It gives what the soundness and completeness
  of the proofs of any one map assume.
\<close>

section \<open>The encodings over a set of keys\<close>

text \<open>
  Every encoding that the trees over keys of a set, and the honest proofs for its keys, hash:
  so one assumption on the hash serves all maps of the tests.
\<close>

definition universe_queries :: "prims \<Rightarrow> bytes32 set \<Rightarrow> u8 list set" where
  "universe_queries P K =
     insert empty_leaf_domain ((\<lambda>k. [leaf_tag] @ array_bytes k) ` K) \<union>
     {map_node_bytes (map_subtree_root P (side ks d False) (Suc d)) (map_subtree_root P (side ks d True) (Suc d)) |ks d.
        d < 256 \<and> span ks d \<and> set ks \<subseteq> K}"

definition universe_apart :: "prims \<Rightarrow> bytes32 set \<Rightarrow> bool" where
  "universe_apart P K \<longleftrightarrow> collision_free P (universe_queries P K)"

lemma universe_node:
  "d < 256 \<Longrightarrow> span ks d \<Longrightarrow> set ks \<subseteq> K \<Longrightarrow>
     map_node_bytes (map_subtree_root P (side ks d False) (Suc d)) (map_subtree_root P (side ks d True) (Suc d)) \<in> universe_queries P K"
  unfolding universe_queries_def by blast

lemma universe_leaves [simp]: "empty_leaf_domain \<in> universe_queries P K" "k \<in> K \<Longrightarrow> [leaf_tag] @ array_bytes k \<in> universe_queries P K"
  by (auto simp: universe_queries_def)

lemma set_side_subset: "set (side ks d b) \<subseteq> set ks"
  by (auto simp: side_def)

lemma map_queries_universe:
  "span ks d \<Longrightarrow> d \<le> 256 \<Longrightarrow> set ks \<subseteq> K \<Longrightarrow> map_queries P ks d \<subseteq> universe_queries P K"
proof (induction "256 - d" arbitrary: d ks)
  case 0
  then have d: "d = 256" by simp
  have "map_queries P ks 256 \<subseteq> universe_queries P K"
    using 0 universe_leaves [where K = K and P = P] by (cases ks) (auto simp: map_queries_end)
  with d show ?case by simp
next
  case (Suc n)
  then have d: "d < 256" by simp
  have "map_queries P (side ks d b) (Suc d) \<subseteq> universe_queries P K" for b
    using Suc.hyps(1) [of "Suc d" "side ks d b"] Suc.hyps(2) Suc.prems d span_side [OF Suc.prems(1)] set_side_subset [of ks d b] by simp
  from this [of False] this [of True] universe_node [OF d Suc.prems(1,3)] map_queries_step [OF d, of P ks] show ?case by simp
qed

lemma span_nil [simp]: "span [] d"
  by (simp add: span_def)

lemma side_nil [simp]: "side [] d b = []"
  by (simp add: side_def)

lemma empty_subtree_default: "map_subtree_root P [] d = default_at_height P (256 - d)"
  by (subst map_subtree_root.simps) (simp add: default_at_depth_def depth_max_def)

lemma default_queries_universe: "default_queries P \<subseteq> universe_queries P K"
proof -
  have "map_node_bytes (default_at_height P h) (default_at_height P h) \<in> universe_queries P K" if "h < 256" for h
  proof -
    have "256 - Suc (255 - h) = h" using that by simp
    with universe_node [of "255 - h" "[]" K P] that show ?thesis by (simp only: empty_subtree_default side_nil) simp
  qed
  then show ?thesis by (auto simp: default_queries_def)
qed

text \<open>The keys that share the first bits of a key, and the siblings on its way.\<close>

definition near :: "bytes32 list \<Rightarrow> bytes32 \<Rightarrow> nat \<Rightarrow> bytes32 list" where
  "near ks key d = filter (\<lambda>k. agree k key d) ks"

lemma near_0 [simp]: "near ks key 0 = ks"
  by (simp add: near_def)

lemma near_Suc: "side (near ks key d) d (kbit key d) = near ks key (Suc d)"
  by (simp add: near_def side_def agree_Suc conj_commute cong: filter_cong)

lemma near_span:
  assumes "sorted_wrt (<) ks"
  shows "span (near ks key d) d"
  using assms by (auto simp: span_def near_def sorted_wrt_filter intro: agree_trans agree_sym)

lemma near_agree: "\<forall>k \<in> set (near ks key d). agree k key d"
  by (simp add: near_def)

lemma sibling_list_nth:
  "i < n \<Longrightarrow> sibling_list P (near ks key d) key d n ! i =
     map_subtree_root P (side (near ks key (d + i)) (d + i) (\<not> kbit key (d + i))) (Suc (d + i))"
proof (induction n arbitrary: d i)
  case (Suc n)
  then show ?case by (cases i) (simp_all add: near_Suc)
qed simp

lemma sibling_list_near:
  "d < 256 \<Longrightarrow> sibling_list P ks key 0 256 ! d = map_subtree_root P (side (near ks key d) d (\<not> kbit key d)) (Suc d)"
  using sibling_list_nth [of d 256 P ks key 0] by simp

text \<open>Siblings do not depend on whether the key is there.\<close>

lemma sibling_list_without:
  assumes "filter (\<lambda>k. k \<noteq> key) ks = filter (\<lambda>k. k \<noteq> key) js"
  shows "sibling_list P ks key 0 256 = sibling_list P js key 0 256"
proof (rule nth_equalityI)
  fix d assume "d < length (sibling_list P ks key 0 256)"
  then have d: "d < 256" by simp
  have "side (near xs key d) d (\<not> kbit key d) = filter (\<lambda>k. agree k key d \<and> kbit k d \<noteq> kbit key d) (filter (\<lambda>k. k \<noteq> key) xs)" for xs
    by (auto simp: side_def near_def intro!: filter_cong)
  with assms sibling_list_near [OF d] show "sibling_list P ks key 0 256 ! d = sibling_list P js key 0 256 ! d" by metis
qed simp

lemma level_universe:
  assumes "sorted_wrt (<) ks" and "set ks \<subseteq> K" and d: "d < 256"
  shows "level_bytes P key (sibling_list P ks key 0 256) (slot P ks key) d \<in> universe_queries P K"
proof -
  let ?full = "sibling_list P ks key 0 256" and ?ks = "near ks key d"
  have "slot P ks key = slot P (near ks key (Suc d)) key" by (simp add: slot_def near_def)
  moreover have "foldr (fold_level P key ?full) [Suc d..<256] (slot P (near ks key (Suc d)) key) =
      map_subtree_root P (near ks key (Suc d)) (Suc d)"
    by (rule fold_siblings [where n = "256 - Suc d"])
      (use d near_span [OF assms(1)] near_agree in \<open>auto simp: sibling_list_near sibling_list_nth\<close>)
  ultimately have "level_bytes P key ?full (slot P ks key) d =
      map_node_bytes (map_subtree_root P (side ?ks d False) (Suc d)) (map_subtree_root P (side ?ks d True) (Suc d))"
    using near_Suc [of ks key d] sibling_list_near [OF d, of P ks key]
    by (cases "kbit key d") (simp_all add: level_bytes_def Let_def)
  moreover have "set ?ks \<subseteq> K" using assms(2) by (auto simp: near_def)
  ultimately show ?thesis using universe_node [OF d near_span [OF assms(1)]] by metis
qed

section \<open>What follows for each map\<close>

lemma universe_map:
  assumes "universe_apart P K" and "revmap_ok m" and "set (map_keys m) \<subseteq> K"
  shows "map_apart P m {}"
proof -
  have "map_queries P (map_keys m) 0 \<subseteq> universe_queries P K"
    by (rule map_queries_universe) (use assms in \<open>simp_all add: revmap_ok_def span_start\<close>)
  with default_queries_universe [of P K] have "map_queries P (map_keys m) 0 \<union> default_queries P \<union> {} \<subseteq> universe_queries P K" by blast
  with assms(1) show ?thesis unfolding map_apart_def universe_apart_def by (rule collision_free_mono)
qed

lemma same_others:
  assumes "revmap_ok m"
  shows "filter (\<lambda>x. x \<noteq> k) (map_keys (revmap_revoke m k)) = filter (\<lambda>x. x \<noteq> k) (map_keys m)"
  by (rule strict_sorted_equal)
    (use assms revmap_revoke_ok [OF assms, of k] in \<open>auto simp: revmap_ok_def sorted_wrt_filter\<close>)

lemma universe_query:
  assumes apart: "universe_apart P K" and ok: "revmap_ok m" and keys: "set (map_keys m) \<subseteq> K" and k: "k \<in> K"
  shows "query_apart P m k (revmap_prove P m k)"
proof -
  let ?ks = "map_keys m" and ?with = "map_keys (revmap_revoke m k)" and ?without = "filter (\<lambda>x. x \<noteq> k) (map_keys m)"
  have full: "proof_expand P (revmap_prove P m k) = Some (sibling_list P ?ks k 0 256)"
    by (rule revmap_prove_full [OF ok universe_map [OF apart ok keys]])
  have sib: "sibling_list P ?ks k 0 256 = sibling_list P ?with k 0 256" "sibling_list P ?ks k 0 256 = sibling_list P ?without k 0 256"
    using sibling_list_without [of k ?ks ?with] sibling_list_without [of k ?ks ?without] same_others [OF ok] by simp_all
  have slots: "slot P ?with k = leaf_hash P k" "slot P ?without k = empty_leaf P"
    using revmap_revoke_ok [OF ok, of k] by (simp_all add: slot_def)
  have sorted: "sorted_wrt (<) ?with" "sorted_wrt (<) ?without" "set ?with \<subseteq> K" "set ?without \<subseteq> K"
    using revmap_revoke_ok [OF ok, of k] ok keys k by (auto simp: revmap_ok_def sorted_wrt_filter)
  have "proof_queries P k (leaf_hash P k) (revmap_prove P m k) =
      level_bytes P k (sibling_list P ?with k 0 256) (slot P ?with k) ` {..<256}"
    by (simp only: proof_queries_def full option.case slots flip: sib(1))
  then have "proof_queries P k (leaf_hash P k) (revmap_prove P m k) \<subseteq> universe_queries P K"
    using level_universe [OF sorted(1,3), where P = P and key = k] by auto
  moreover have "proof_queries P k (empty_leaf P) (revmap_prove P m k) =
      level_bytes P k (sibling_list P ?without k 0 256) (slot P ?without k) ` {..<256}"
    by (simp only: proof_queries_def full option.case slots flip: sib(2))
  then have "proof_queries P k (empty_leaf P) (revmap_prove P m k) \<subseteq> universe_queries P K"
    using level_universe [OF sorted(2,4), where P = P and key = k] by auto
  moreover have "map_queries P ?ks 0 \<subseteq> universe_queries P K"
    by (rule map_queries_universe) (use ok keys in \<open>simp_all add: revmap_ok_def span_start\<close>)
  moreover have "{[leaf_tag] @ array_bytes k} \<subseteq> universe_queries P K" using universe_leaves(2) [OF k, of P] by simp
  ultimately have "map_queries P ?ks 0 \<union> default_queries P \<union> ({[leaf_tag] @ array_bytes k} \<union>
      proof_queries P k (leaf_hash P k) (revmap_prove P m k) \<union> proof_queries P k (empty_leaf P) (revmap_prove P m k))
      \<subseteq> universe_queries P K"
    using default_queries_universe [of P K] by blast
  with apart show ?thesis unfolding query_apart_def map_apart_def universe_apart_def by (rule collision_free_mono)
qed

end
