(* ===== verification/Map_Tests.thy ===== *)
theory Map_Tests
  imports Log_Tests Checkpoint_Tests Key_Universe
begin

text \<open>
  The tests of \<^verbatim>\<open>core/revmap\<close> and \<^verbatim>\<open>core/revlog\<close> (their modules \<^verbatim>\<open>tests\<close>), and what they need of
  the hash: no collision among the encodings of any subtree over the keys they use.
\<close>

section \<open>The tests of the map\<close>

text \<open>A key is the hash of its tag.\<close>

definition hashed_tag :: "prims \<Rightarrow> u8 \<Rightarrow> bytes32" where
  "hashed_tag P tag = blake3 P [tag]"

definition map_of_keys :: "bytes32 list \<Rightarrow> revocation_map" where
  "map_of_keys ks = fold (\<lambda>k m. revmap_revoke m k) ks revmap_new"

definition test_inclusion_and_non_inclusion :: "prims \<Rightarrow> unit option" where
  "test_inclusion_and_non_inclusion P = do {
     let revoked = hashed_tag P 1;
     let live = hashed_tag P 2;
     let m = map_of_keys [revoked];
     let root = revmap_root P m;
     asserts (map_verify_inclusion P root revoked (revmap_prove P m revoked));
     asserts (map_verify_non_inclusion P root live (revmap_prove P m live))}"

definition test_proofs_do_not_cross_over :: "prims \<Rightarrow> unit option" where
  "test_proofs_do_not_cross_over P = do {
     let revoked = hashed_tag P 1;
     let live = hashed_tag P 2;
     let m = map_of_keys [revoked];
     let root = revmap_root P m;
     asserts (\<not> map_verify_inclusion P root live (revmap_prove P m live));
     asserts (\<not> map_verify_non_inclusion P root revoked (revmap_prove P m revoked))}"

definition test_proof_is_bound_to_its_key :: "prims \<Rightarrow> unit option" where
  "test_proof_is_bound_to_its_key P = do {
     let a = hashed_tag P 1;
     let b = hashed_tag P 2;
     let m = map_of_keys [a, b];
     let root = revmap_root P m;
     let proof_a = revmap_prove P m a;
     asserts (map_verify_inclusion P root a proof_a);
     asserts (\<not> map_verify_inclusion P root b proof_a)}"

definition tamper_proof :: "map_proof \<Rightarrow> map_proof" where
  "tamper_proof pf =
     (case siblings pf of
        first # rest \<Rightarrow> pf\<lparr>siblings := flip_first first # rest\<rparr>
      | [] \<Rightarrow> pf\<lparr>present := (present pf)[0 := present pf ! 0 OR 128], siblings := [fill 171]\<rparr>)"

definition test_tampered_proof_is_rejected :: "prims \<Rightarrow> unit option" where
  "test_tampered_proof_is_rejected P = do {
     let revoked = hashed_tag P 1;
     let m = map_of_keys [revoked];
     let root = revmap_root P m;
     let pf = tamper_proof (revmap_prove P m revoked);
     asserts (\<not> map_verify_inclusion P root revoked pf)}"

definition test_malformed_proof_fails_closed :: "prims \<Rightarrow> unit option" where
  "test_malformed_proof_fails_closed P = do {
     let key = hashed_tag P 1;
     let present = replicate (depth_max div 8) (0 :: u8);
     let bad = \<lparr>present = present[0 := present ! 0 OR 128], siblings = []\<rparr>;
     asserts (\<not> map_verify_non_inclusion P (fill 0) key bad);
     let bad2 = \<lparr>present = replicate 4 0, siblings = []\<rparr>;
     asserts (\<not> map_verify_non_inclusion P (fill 0) key bad2)}"

definition test_root_is_order_independent :: "prims \<Rightarrow> unit option" where
  "test_root_is_order_independent P = do {
     let a = hashed_tag P 1;
     let b = hashed_tag P 2;
     let m1 = revmap_revoke revmap_new a;
     let root_before = revmap_root P m1;
     asserts (map_verify_non_inclusion P root_before b (revmap_prove P m1 b));
     let m1 = revmap_revoke m1 b;
     let root_after = revmap_root P m1;
     asserts (root_before \<noteq> root_after);
     asserts (map_verify_inclusion P root_after b (revmap_prove P m1 b));
     let m2 = map_of_keys [b, a];
     asserts (root_after = revmap_root P m2)}"

definition test_empty_map_proves_absence :: "prims \<Rightarrow> unit option" where
  "test_empty_map_proves_absence P = do {
     let m = revmap_new;
     let root = revmap_root P m;
     asserts (root = default_at_height P depth_max);
     let k = hashed_tag P 3;
     asserts (map_verify_non_inclusion P root k (revmap_prove P m k))}"

definition absent_key :: "prims \<Rightarrow> bytes32" where
  "absent_key P = blake3 P (str_bytes ''definitely-not-in-the-set'')"

definition test_many_entries_verify :: "prims \<Rightarrow> unit option" where
  "test_many_entries_verify P = do {
     let m = map_of_keys (map (\<lambda>t. hashed_tag P (of_nat t)) [0..<200]);
     let root = revmap_root P m;
     let revoked = hashed_tag P 137;
     asserts (map_verify_inclusion P root revoked (revmap_prove P m revoked));
     let live = absent_key P;
     asserts (\<not> revmap_contains m live);
     asserts (map_verify_non_inclusion P root live (revmap_prove P m live))}"

definition map_tests :: "(prims \<Rightarrow> unit option) list" where
  "map_tests =
     [test_inclusion_and_non_inclusion, test_proofs_do_not_cross_over, test_proof_is_bound_to_its_key,
      test_tampered_proof_is_rejected, test_malformed_proof_fails_closed, test_root_is_order_independent,
      test_empty_map_proves_absence, test_many_entries_verify]"

section \<open>The tests of the log-backed map\<close>

text \<open>A new log-backed map with some keys revoked.\<close>

definition log_backed_with :: "bytes32 list \<Rightarrow> log_backed" where
  "log_backed_with ks = fold (\<lambda>k lb. log_backed_revoke lb k) ks log_backed_new"

definition test_logged_status_verifies :: "prims \<Rightarrow> unit option" where
  "test_logged_status_verifies P = do {
     let sg = ed25519_from_seed P (fill 1);
     let log_key = sg_public_key sg;
     let revoked = hashed_tag P 1;
     let live = hashed_tag P 2;
     (_, lb) \<leftarrow> publish_checkpoint P (log_backed_with [revoked]) sg;
     (p, lb) \<leftarrow> lb_prove P lb live sg;
     p_live \<leftarrow> p;
     asserts (verify_not_revoked P p_live live log_key);
     asserts (\<not> verify_revoked P p_live live log_key);
     (p, lb) \<leftarrow> lb_prove P lb revoked sg;
     p_rev \<leftarrow> p;
     asserts (verify_revoked P p_rev revoked log_key);
     asserts (\<not> verify_not_revoked P p_rev revoked log_key)}"

definition test_forged_map_root_is_rejected :: "prims \<Rightarrow> unit option" where
  "test_forged_map_root_is_rejected P = do {
     let sg = ed25519_from_seed P (fill 2);
     let log_key = sg_public_key sg;
     let victim = hashed_tag P 9;
     (_, lb) \<leftarrow> publish_checkpoint P (log_backed_with [victim]) sg;
     let forged_map = revmap_new;
     let forged_root = revmap_root P forged_map;
     (p, lb) \<leftarrow> lb_prove P lb victim sg;
     p \<leftarrow> p;
     let p = p\<lparr>lp_checkpoint := (lp_checkpoint p)\<lparr>mc_map_root := forged_root\<rparr>\<rparr>;
     let p = p\<lparr>lp_map_proof := revmap_prove P forged_map victim\<rparr>;
     asserts (map_verify_non_inclusion P forged_root victim (lp_map_proof p));
     asserts (\<not> verify_not_revoked P p victim log_key)}"

definition test_revlog_wrong_key_is_rejected :: "prims \<Rightarrow> unit option" where
  "test_revlog_wrong_key_is_rejected P = do {
     let sg = ed25519_from_seed P (fill 3);
     let impostor = ed25519_from_seed P (fill 4);
     (_, lb) \<leftarrow> publish_checkpoint P (log_backed_with [hashed_tag P 1]) sg;
     (p, lb) \<leftarrow> lb_prove P lb (hashed_tag P 2) sg;
     p \<leftarrow> p;
     asserts (\<not> verify_not_revoked P p (hashed_tag P 2) (sg_public_key impostor))}"

definition test_checkpoint_log_is_append_only :: "prims \<Rightarrow> unit option" where
  "test_checkpoint_log_is_append_only P = do {
     let sg = ed25519_from_seed P (fill 5);
     (sth0, lb) \<leftarrow> publish_checkpoint P log_backed_new sg;
     let lb = log_backed_revoke lb (hashed_tag P 7);
     (sth1, lb) \<leftarrow> publish_checkpoint P lb sg;
     (pf, lb) \<leftarrow> lb_consistency_proof P lb (sth_size sth0) (sth_size sth1);
     pf \<leftarrow> pf;
     asserts (verify_consistency P (sth_root sth0) (sth_root sth1) pf (sth_size sth0) (sth_size sth1));
     asserts (\<not> verify_consistency P (sth_root sth1) (sth_root sth0) pf (sth_size sth1) (sth_size sth0))}"

definition test_no_proof_against_unlogged_root :: "prims \<Rightarrow> unit option" where
  "test_no_proof_against_unlogged_root P = do {
     let sg = ed25519_from_seed P (fill 6);
     (_, lb) \<leftarrow> publish_checkpoint P (log_backed_with [hashed_tag P 1]) sg;
     let lb = log_backed_revoke lb (hashed_tag P 2);
     (p, lb) \<leftarrow> lb_prove P lb (hashed_tag P 3) sg;
     asserts (p = None)}"

definition revlog_tests :: "(prims \<Rightarrow> unit option) list" where
  "revlog_tests =
     [test_logged_status_verifies, test_forged_map_root_is_rejected, test_revlog_wrong_key_is_rejected,
      test_checkpoint_log_is_append_only, test_no_proof_against_unlogged_root]"

section \<open>The tests of the map pass\<close>

text \<open>What the proofs of a map over known keys say of a known key.\<close>

lemma universe_decides:
  assumes "universe_apart P K" and "revmap_ok m" and "set (map_keys m) \<subseteq> K" and "k \<in> K"
  shows "map_verify_inclusion P (revmap_root P m) k (revmap_prove P m k) \<longleftrightarrow> k \<in> set (map_keys m)"
    and "map_verify_non_inclusion P (revmap_root P m) k (revmap_prove P m k) \<longleftrightarrow> k \<notin> set (map_keys m)"
  using smt.decided [OF assms(2) universe_map [OF assms(1-3)] universe_query [OF assms]] by blast+

lemma map_of_keys_ok: "revmap_ok (map_of_keys ks)" "set (map_keys (map_of_keys ks)) = set ks"
  using revmap_fold_ok [OF revmap_new_ok, of ks] by (simp_all add: map_of_keys_def revmap_new_def)

lemma map_of_keys_root:
  assumes "universe_apart P K" and "set ks \<subseteq> K" and "set js \<subseteq> K"
  shows "revmap_root P (map_of_keys ks) = revmap_root P (map_of_keys js) \<longleftrightarrow> set ks = set js"
proof
  have "map_queries P (map_keys (map_of_keys xs)) 0 \<subseteq> universe_queries P K" if "set xs \<subseteq> K" for xs
    by (rule map_queries_universe) (use map_of_keys_ok [of xs] that in \<open>simp_all add: revmap_ok_def span_start\<close>)
  from this [OF assms(2)] this [OF assms(3)] assms(1)
  have cf: "collision_free P (map_queries P (map_keys (map_of_keys ks)) 0 \<union> map_queries P (map_keys (map_of_keys js)) 0)"
    unfolding universe_apart_def by (auto intro: collision_free_mono)
  show "set ks = set js" if "revmap_root P (map_of_keys ks) = revmap_root P (map_of_keys js)"
    using revmap_root_inject [OF map_of_keys_ok(1) map_of_keys_ok(1) cf that] map_of_keys_ok(2) by simp
  assume "set ks = set js"
  then have "map_keys (map_of_keys ks) = map_keys (map_of_keys js)"
    using map_of_keys_ok [of ks] map_of_keys_ok [of js] by (intro strict_sorted_equal) (simp_all add: revmap_ok_def)
  then show "revmap_root P (map_of_keys ks) = revmap_root P (map_of_keys js)" by (simp add: revmap_root_def)
qed

text \<open>A path that folds to the root of a map has the siblings of the map.\<close>

lemma siblings_forced:
  assumes cf: "collision_free P Q" and lq: "level_bytes P key full claimed ` {..<256} \<subseteq> Q"
  shows "span ks d \<Longrightarrow> \<forall>k \<in> set ks. agree k key d \<Longrightarrow> d + n = 256 \<Longrightarrow> map_queries P ks d \<subseteq> Q \<Longrightarrow>
    foldr (fold_level P key full) [d..<256] claimed = map_subtree_root P ks d \<Longrightarrow>
    \<forall>i < n. full ! (d + i) = sibling_list P ks key d n ! i"
proof (induction n arbitrary: ks d)
  case (Suc n)
  then have d: "d < 256" by simp
  let ?b = "kbit key d" and ?cur = "foldr (fold_level P key full) [Suc d..<256] claimed"
  let ?s = "\<lambda>b. map_subtree_root P (side ks d b) (Suc d)"
  have upto: "[d..<256] = d # [Suc d..<256]" using d by (rule upt_conv_Cons)
  have q: "map_node_bytes (?s False) (?s True) \<in> Q" "map_queries P (side ks d ?b) (Suc d) \<subseteq> Q"
    using Suc.prems(4) map_queries_step [OF d, of P ks] by (cases ?b; auto)+
  have level: "level_bytes P key full claimed d \<in> Q" using lq d by blast
  have "?cur = ?s ?b \<and> full ! d = ?s (\<not> ?b)"
  proof (cases ?b)
    case True
    then have "node_hash P (full ! d) ?cur = node_hash P (?s False) (?s True)"
      using Suc.prems(5) root_split [OF Suc.prems(1) d, of P] by (simp add: upto fold_level_def [of P key full d] key_bit_iff [OF d])
    with True level map_hash.node_eqD [OF cf this _ q(1)] show ?thesis by (simp add: level_bytes_def Let_def)
  next
    case False
    then have "node_hash P ?cur (full ! d) = node_hash P (?s False) (?s True)"
      using Suc.prems(5) root_split [OF Suc.prems(1) d, of P] by (simp add: upto fold_level_def [of P key full d] key_bit_iff [OF d])
    with False level map_hash.node_eqD [OF cf this _ q(1)] show ?thesis by (simp add: level_bytes_def Let_def)
  qed
  moreover from this have "\<forall>i < n. full ! (Suc d + i) = sibling_list P (side ks d ?b) key (Suc d) n ! i"
    using Suc.prems(3) by (intro Suc.IH span_side [OF Suc.prems(1)] side_agree [OF Suc.prems(2)] q(2)) simp_all
  ultimately show ?case by (auto simp: nth_Cons' gr0_conv_Suc)
qed simp

lemma accepted_siblings:
  assumes cf: "collision_free P (universe_queries P K \<union> proof_queries P k claimed pf)" and m: "revmap_ok m" "set (map_keys m) \<subseteq> K"
    and pf: "proof_expand P pf = Some full" and root: "recompute_root P k claimed pf = Some (revmap_root P m)"
  shows "full = sibling_list P (map_keys m) k 0 256"
proof (rule nth_equalityI)
  show len: "length full = length (sibling_list P (map_keys m) k 0 256)"
    using pf length_expand_loop by (auto simp: proof_expand_def depth_max_def split: if_splits)
  have "map_queries P (map_keys m) 0 \<subseteq> universe_queries P K"
    by (rule map_queries_universe) (use m in \<open>simp_all add: revmap_ok_def span_start\<close>)
  moreover have "level_bytes P k full claimed ` {..<256} \<subseteq> universe_queries P K \<union> proof_queries P k claimed pf"
    using pf by (auto simp: proof_queries_def)
  moreover have "foldr (fold_level P k full) [0..<256] claimed = map_subtree_root P (map_keys m) 0"
    using root pf by (simp add: recompute_root_def revmap_root_def depth_max_def)
  ultimately have "\<forall>i < 256. full ! (0 + i) = sibling_list P (map_keys m) k 0 256 ! i"
    using m by (intro siblings_forced [OF cf]) (auto simp: revmap_ok_def span_start)
  then show "full ! i = sibling_list P (map_keys m) k 0 256 ! i" if "i < length full" for i
    using that len by simp
qed

text \<open>The proof for one key does not pass for another: where they part, it has the wrong sibling.\<close>

lemma keys_part:
  assumes "a \<noteq> b"
  obtains d where "d < 256" and "kbit a d \<noteq> kbit b d" and "near ks b d = near ks a d"
proof -
  define d where "d = (LEAST i. i < 256 \<and> kbit a i \<noteq> kbit b i)"
  from assms have "\<exists>i. i < 256 \<and> kbit a i \<noteq> kbit b i" using keys_equal_bits by blast
  from LeastI_ex [OF this] have d: "d < 256" "kbit a d \<noteq> kbit b d" by (simp_all add: d_def)
  have "kbit a i = kbit b i" if "i < d" for i
    using not_less_Least [OF that [unfolded d_def]] that d(1) by simp
  then have "agree a b d" by (simp add: agree_def)
  then have "agree x b d \<longleftrightarrow> agree x a d" for x by (meson agree_sym agree_trans)
  then have "near ks b d = near ks a d" by (simp add: near_def)
  with d that show thesis by blast
qed

lemma sides_differ:
  assumes "universe_apart P K" and "span ns d" and "d < 256" and "set ns \<subseteq> K" and "a \<in> set ns"
  shows "map_subtree_root P (side ns d True) (Suc d) \<noteq> map_subtree_root P (side ns d False) (Suc d)"
proof
  have cf: "collision_free P (universe_queries P K)" using assms(1) by (simp add: universe_apart_def)
  have q: "map_queries P (side ns d x) (Suc d) \<subseteq> universe_queries P K" for x
    by (rule map_queries_universe [OF span_side [OF assms(2)]]) (use assms(3,4) set_side_subset [of ns d x] in auto)
  assume "map_subtree_root P (side ns d True) (Suc d) = map_subtree_root P (side ns d False) (Suc d)"
  from subtree_root_inject [OF cf span_side span_side _ _ this] assms(2,3) q
  have "set (side ns d True) = set (side ns d False)" by simp
  moreover have "a \<in> set (side ns d (kbit a d))" using assms(5) by (simp add: side_def)
  ultimately show False by (cases "kbit a d") (auto simp: side_def)
qed

lemma proof_bound_to_key:
  assumes apart: "universe_apart P K" and m: "revmap_ok m" "set (map_keys m) \<subseteq> K" "a \<in> set (map_keys m)" and ab: "a \<noteq> b"
    and cf: "collision_free P (universe_queries P K \<union> proof_queries P b (leaf_hash P b) (revmap_prove P m a))"
  shows "\<not> map_verify_inclusion P (revmap_root P m) b (revmap_prove P m a)"
proof
  let ?ks = "map_keys m"
  assume "map_verify_inclusion P (revmap_root P m) b (revmap_prove P m a)"
  then have root: "recompute_root P b (leaf_hash P b) (revmap_prove P m a) = Some (revmap_root P m)"
    by (simp only: map_verify_inclusion_def)
  have same: "sibling_list P ?ks a 0 256 = sibling_list P ?ks b 0 256"
    by (rule accepted_siblings [OF cf m(1,2) revmap_prove_full(2) [OF m(1) universe_map [OF apart m(1,2)]] root])
  obtain d where d: "d < 256" "kbit a d \<noteq> kbit b d" "near ?ks b d = near ?ks a d" by (rule keys_part [OF ab])
  have span: "span (near ?ks a d) d" using m(1) by (intro near_span) (simp add: revmap_ok_def)
  have ns: "set (near ?ks a d) \<subseteq> K" "a \<in> set (near ?ks a d)" using m(2,3) by (auto simp: near_def)
  have "map_subtree_root P (side (near ?ks a d) d (\<not> kbit a d)) (Suc d) = map_subtree_root P (side (near ?ks a d) d (\<not> kbit b d)) (Suc d)"
    using sibling_list_near [OF d(1), of P ?ks a] sibling_list_near [OF d(1), of P ?ks b] by (simp only: same d(3))
  with sides_differ [OF apart span d(1) ns] d(2) show False by (cases "kbit a d"; cases "kbit b d") simp_all
qed

text \<open>An honest proof carries every sibling, and the same bitmap takes any others.\<close>

lemma expand_loop_bits:
  "expand_loop P bm d n sibs = Some full \<Longrightarrow> length sibs \<le> n \<and> (length sibs = n \<longrightarrow> (\<forall>i. d \<le> i \<longrightarrow> i < d + n \<longrightarrow> bitmap_bit bm i))"
proof (induction n arbitrary: d sibs full)
  case (Suc n)
  show ?case
  proof (cases "bitmap_bit bm d")
    case True
    with Suc.prems obtain h rest full' where r: "sibs = h # rest" "expand_loop P bm (Suc d) n rest = Some full'"
      by (auto split: list.splits)
    have "bitmap_bit bm i" if "length rest = n" "d \<le> i" "i < d + Suc n" for i
      using Suc.IH [OF r(2)] True that by (cases "i = d") simp_all
    with Suc.IH [OF r(2)] r(1) show ?thesis by simp
  next
    case False
    with Suc.prems obtain full' where "expand_loop P bm (Suc d) n sibs = Some full'" by auto
    from Suc.IH [OF this] show ?thesis by simp
  qed
qed (simp split: if_splits)

lemma expand_tampered:
  assumes "revmap_ok m" and "map_apart P m X"
  shows "\<exists>s ss. sibling_list P (map_keys m) key 0 256 = s # ss \<and>
    proof_expand P (tamper_proof (revmap_prove P m key)) = Some (flip_first s # ss)"
proof -
  let ?pf = "revmap_prove P m key"
  have sibs: "siblings ?pf = sibling_list P (map_keys m) key 0 256" and full: "proof_expand P ?pf = Some (siblings ?pf)"
    using revmap_prove_full [OF assms, of key] by simp_all
  have len: "length (siblings ?pf) = 256" by (simp add: sibs)
  then obtain s ss where s: "siblings ?pf = s # ss" by (cases "siblings ?pf") auto
  from full have bm: "length (present ?pf) = depth_max div 8" and loop: "expand_loop P (present ?pf) 0 256 (siblings ?pf) = Some (siblings ?pf)"
    by (auto simp: proof_expand_def depth_max_def split: if_splits)
  from expand_loop_bits [OF loop] len have "\<forall>i. 0 \<le> i \<longrightarrow> i < 0 + 256 \<longrightarrow> bitmap_bit (present ?pf) i" by blast
  from expand_loop_full [OF this, of "flip_first s # ss" P] len bm
  have "proof_expand P (tamper_proof ?pf) = Some (flip_first s # ss)"
    by (simp add: proof_expand_def tamper_proof_def s depth_max_def)
  with s sibs show ?thesis by simp
qed

lemma tampered_refused:
  assumes "universe_apart P K" and m: "revmap_ok m" "set (map_keys m) \<subseteq> K"
    and cf: "collision_free P (universe_queries P K \<union> proof_queries P k (leaf_hash P k) (tamper_proof (revmap_prove P m k)))"
  shows "\<not> map_verify_inclusion P (revmap_root P m) k (tamper_proof (revmap_prove P m k))"
proof
  assume "map_verify_inclusion P (revmap_root P m) k (tamper_proof (revmap_prove P m k))"
  then have root: "recompute_root P k (leaf_hash P k) (tamper_proof (revmap_prove P m k)) = Some (revmap_root P m)"
    by (simp add: map_verify_inclusion_def)
  from expand_tampered [OF m(1) universe_map [OF assms(1) m], of k] obtain s ss where
    s: "sibling_list P (map_keys m) k 0 256 = s # ss" "proof_expand P (tamper_proof (revmap_prove P m k)) = Some (flip_first s # ss)" by blast
  from accepted_siblings [OF cf m s(2) root] s(1) show False by simp
qed

text \<open>The keys of the tests, and what they rely on.\<close>

definition tested_keys :: "prims \<Rightarrow> bytes32 set" where
  "tested_keys P = insert (absent_key P) (hashed_tag P ` of_nat ` {..<200})"

definition maps_apart :: "prims \<Rightarrow> bool" where
  "maps_apart P \<longleftrightarrow>
     universe_apart P (tested_keys P) \<and> hashed_tag P 1 \<noteq> hashed_tag P 2 \<and> absent_key P \<notin> hashed_tag P ` of_nat ` {..<200} \<and>
     collision_free P (universe_queries P (tested_keys P) \<union>
       proof_queries P (hashed_tag P 2) (leaf_hash P (hashed_tag P 2)) (revmap_prove P (map_of_keys [hashed_tag P 1, hashed_tag P 2]) (hashed_tag P 1))) \<and>
     collision_free P (universe_queries P (tested_keys P) \<union>
       proof_queries P (hashed_tag P 1) (leaf_hash P (hashed_tag P 1)) (tamper_proof (revmap_prove P (map_of_keys [hashed_tag P 1]) (hashed_tag P 1))))"

lemma tested_keysI: "t < 200 \<Longrightarrow> hashed_tag P (of_nat t) \<in> tested_keys P"
  by (auto simp: tested_keys_def)

lemma tested_tags [simp]:
  "hashed_tag P 1 \<in> tested_keys P" "hashed_tag P 2 \<in> tested_keys P" "hashed_tag P 3 \<in> tested_keys P" "hashed_tag P 137 \<in> tested_keys P"
  "absent_key P \<in> tested_keys P"
  using tested_keysI [of 1 P] tested_keysI [of 2 P] tested_keysI [of 3 P] tested_keysI [of 137 P] by (simp_all add: tested_keys_def)

lemma malformed_passes: "test_malformed_proof_fails_closed P = Some ()"
proof -
  let ?bm = "(replicate (depth_max div 8) 0 :: u8 list)[0 := replicate (depth_max div 8) 0 ! 0 OR 128]"
  have "bitmap_bit ?bm 0" by (simp add: bitmap_bit_def depth_max_def drop_bit_eq_div)
  then have "expand_loop P ?bm 0 (Suc 255) [] = None" by (simp only: expand_loop.simps list.case if_True)
  moreover have "(256 :: nat) = Suc 255" by simp
  ultimately have "expand_loop P ?bm 0 256 [] = None" by (simp only:)
  then show ?thesis
    by (simp add: test_malformed_proof_fails_closed_def map_verify_non_inclusion_def recompute_root_def proof_expand_def depth_max_def)
qed

lemma small_maps_pass:
  assumes "maps_apart P"
  shows "test_inclusion_and_non_inclusion P = Some ()" and "test_proofs_do_not_cross_over P = Some ()"
    and "test_proof_is_bound_to_its_key P = Some ()" and "test_tampered_proof_is_rejected P = Some ()"
    and "test_root_is_order_independent P = Some ()" and "test_empty_map_proves_absence P = Some ()"
proof -
  let ?a = "hashed_tag P 1" and ?b = "hashed_tag P 2" and ?K = "tested_keys P"
  from assms have u: "universe_apart P ?K" and ab: "?a \<noteq> ?b" by (simp_all add: maps_apart_def)
  note says = universe_decides [OF u map_of_keys_ok(1)]
  have one: "set (map_keys (map_of_keys [?a])) \<subseteq> ?K" "set (map_keys (map_of_keys [?a, ?b])) \<subseteq> ?K"
    "set (map_keys (map_of_keys [?b, ?a])) \<subseteq> ?K" "set (map_keys (map_of_keys [])) \<subseteq> ?K" by (simp_all add: map_of_keys_ok)
  show "test_inclusion_and_non_inclusion P = Some ()" "test_proofs_do_not_cross_over P = Some ()"
    using ab by (simp_all add: test_inclusion_and_non_inclusion_def test_proofs_do_not_cross_over_def says [OF one(1)] map_of_keys_ok)
  have "\<not> map_verify_inclusion P (revmap_root P (map_of_keys [?a, ?b])) ?b (revmap_prove P (map_of_keys [?a, ?b]) ?a)"
    by (rule proof_bound_to_key [OF u map_of_keys_ok(1) one(2) _ ab]) (use assms in \<open>simp_all add: map_of_keys_ok maps_apart_def\<close>)
  then show "test_proof_is_bound_to_its_key P = Some ()"
    by (simp add: test_proof_is_bound_to_its_key_def says [OF one(2)] map_of_keys_ok)
  have "\<not> map_verify_inclusion P (revmap_root P (map_of_keys [?a])) ?a (tamper_proof (revmap_prove P (map_of_keys [?a]) ?a))"
    by (rule tampered_refused [OF u map_of_keys_ok(1) one(1)]) (use assms in \<open>simp add: maps_apart_def\<close>)
  then show "test_tampered_proof_is_rejected P = Some ()" by (simp add: test_tampered_proof_is_rejected_def)
  have steps: "revmap_revoke revmap_new ?a = map_of_keys [?a]" "revmap_revoke (map_of_keys [?a]) ?b = map_of_keys [?a, ?b]"
    by (simp_all add: map_of_keys_def)
  have "revmap_root P (map_of_keys [?a]) \<noteq> revmap_root P (map_of_keys [?a, ?b])"
    "revmap_root P (map_of_keys [?b, ?a]) = revmap_root P (map_of_keys [?a, ?b])"
    using map_of_keys_root [OF u, of "[?a]" "[?a, ?b]"] map_of_keys_root [OF u, of "[?b, ?a]" "[?a, ?b]"] ab by auto
  then show "test_root_is_order_independent P = Some ()"
    using ab by (simp add: test_root_is_order_independent_def Let_def steps says [OF one(1)] says [OF one(2)] map_of_keys_ok)
  have "revmap_root P revmap_new = default_at_height P depth_max"
    by (simp add: revmap_root_def revmap_new_def empty_subtree_default depth_max_def)
  moreover have "revmap_new = map_of_keys []" by (simp add: map_of_keys_def)
  ultimately show "test_empty_map_proves_absence P = Some ()"
    using says [OF one(4), of "hashed_tag P 3"] map_of_keys_ok(2) [of "[]"] by (simp add: test_empty_map_proves_absence_def)
qed

lemma many_entries_passes:
  assumes "maps_apart P"
  shows "test_many_entries_verify P = Some ()"
proof -
  let ?ks = "map (\<lambda>t. hashed_tag P (of_nat t)) [0..<200]" and ?K = "tested_keys P"
  from assms have u: "universe_apart P ?K" and absent: "absent_key P \<notin> hashed_tag P ` of_nat ` {..<200}" by (simp_all add: maps_apart_def)
  have keys: "set (map_keys (map_of_keys ?ks)) = hashed_tag P ` of_nat ` {..<200}"
    by (simp only: map_of_keys_ok(2) set_map set_upt image_image atLeast_upt [symmetric] atLeast0LessThan)
  have "set (map_keys (map_of_keys ?ks)) \<subseteq> ?K" unfolding keys by (auto simp: tested_keys_def)
  note says = universe_decides [OF u map_of_keys_ok(1) this]
  have "hashed_tag P (of_nat 137) \<in> hashed_tag P ` of_nat ` {..<200}" by (intro imageI) simp
  then have "map_verify_inclusion P (revmap_root P (map_of_keys ?ks)) (hashed_tag P 137) (revmap_prove P (map_of_keys ?ks) (hashed_tag P 137))"
    using says(1) [of "hashed_tag P 137"] by (simp add: keys del: upt_rec_numeral)
  moreover have "map_verify_non_inclusion P (revmap_root P (map_of_keys ?ks)) (absent_key P) (revmap_prove P (map_of_keys ?ks) (absent_key P))"
    using says(2) [of "absent_key P"] absent by (simp add: keys del: upt_rec_numeral)
  moreover have "\<not> revmap_contains (map_of_keys ?ks) (absent_key P)"
    using absent by (simp only: revmap_contains_iff [OF map_of_keys_ok(1)] keys not_False_eq_True)
  ultimately show ?thesis unfolding test_many_entries_verify_def Let_def by simp
qed

lemma map_tests_pass:
  assumes "maps_apart P"
  shows "map (\<lambda>test. test P) map_tests = replicate 8 (Some ())"
  by (simp add: map_tests_def small_maps_pass [OF assms] malformed_passes many_entries_passes [OF assms] numeral_eq_Suc)

section \<open>The tests of the log-backed map pass\<close>

lemma log_backed_with_map: "lb_map (log_backed_with ks) = map_of_keys ks"
proof -
  have "lb_map (fold (\<lambda>k lb. log_backed_revoke lb k) ks lb) = fold (\<lambda>k m. revmap_revoke m k) ks (lb_map lb)" for lb
    by (induction ks arbitrary: lb) (simp_all add: log_backed_revoke_def)
  then show ?thesis by (simp add: log_backed_with_def map_of_keys_def log_backed_new_def)
qed

lemma log_backed_with_inv: "lb_inv P (log_backed_with ks) []"
proof -
  have "lb_inv P lb [] \<Longrightarrow> lb_inv P (fold (\<lambda>k lb. log_backed_revoke lb k) ks lb) []" for lb
    by (induction ks arbitrary: lb) (simp_all add: lb_inv_revoke)
  then show ?thesis by (simp add: log_backed_with_def lb_inv_new)
qed

text \<open>The checkpoint a new log publishes first.\<close>

definition first_checkpoint :: "prims \<Rightarrow> revocation_map \<Rightarrow> map_checkpoint" where
  "first_checkpoint P m = \<lparr>mc_epoch = 0, mc_map_root = revmap_root P m, mc_prev_log_root = naive_root P []\<rparr>"

lemma first_published:
  assumes "signer_ok P sg"
  shows "\<exists>sth lb. publish_checkpoint P (log_backed_with ks) sg = Some (sth, lb) \<and> lb_map lb = map_of_keys ks \<and>
    lb_inv P lb [(first_checkpoint P (map_of_keys ks), map_of_keys ks)] \<and>
    head_of P (history_leaves P [(first_checkpoint P (map_of_keys ks), map_of_keys ks)]) sth"
proof -
  from lb_inv_publish [OF log_backed_with_inv assms, of ks] obtain sth lb c where
    1: "publish_checkpoint P (log_backed_with ks) sg = Some (sth, lb)" "lb_map lb = map_of_keys ks"
    "lb_inv P lb [(c, map_of_keys ks)]" "head_of P (history_leaves P [(c, map_of_keys ks)]) sth"
    by (auto simp: log_backed_with_map)
  from 1(3) have "mc_epoch c = 0" "mc_map_root c = revmap_root P (map_of_keys ks)" "mc_prev_log_root c = naive_root P []"
    by (simp_all add: lb_inv_def history_leaves_def)
  then have "c = first_checkpoint P (map_of_keys ks)" by (simp add: first_checkpoint_def)
  with 1 show ?thesis by blast
qed

text \<open>A proof from the log of that checkpoint.\<close>

lemma first_proof:
  assumes sg: "signer_ok P sg" and inv: "lb_inv P lb [(first_checkpoint P m, m)]" and m: "lb_map lb = m"
  shows "\<exists>pf lb'. lb_prove P lb key sg = Some (Some pf, lb') \<and> lb_inv P lb' [(first_checkpoint P m, m)] \<and> lb_map lb' = m \<and>
    lp_checkpoint pf = first_checkpoint P m \<and> lp_map_proof pf = revmap_prove P m key \<and>
    lp_inclusion pf = \<lparr>leaf_index = 0, tree_size = 1, path = []\<rparr> \<and>
    head_of P (history_leaves P [(first_checkpoint P m, m)]) (lp_sth pf) \<and> map_root_is_logged P pf (sg_public_key sg)"
proof -
  let ?h = "[(first_checkpoint P m, m)]"
  have "revmap_root P (lb_map lb) = mc_map_root (fst (last ?h))" using m by (simp add: first_checkpoint_def)
  from lb_prove_form [OF inv sg _ this, of key] obtain sth lb' where
    1: "lb_prove P lb key sg = Some (Some \<lparr>lp_checkpoint = first_checkpoint P m, lp_map_proof = revmap_prove P m key,
      lp_inclusion = \<lparr>leaf_index = 0, tree_size = 1, path = []\<rparr>, lp_sth = sth\<rparr>, lb')"
    "lb_inv P lb' ?h" "lb_map lb' = m" "head_of P (history_leaves P ?h) sth" "verify_signed_head P sth (sg_public_key sg)"
    using m by auto
  let ?pf = "\<lparr>lp_checkpoint = first_checkpoint P m, lp_map_proof = revmap_prove P m key,
      lp_inclusion = \<lparr>leaf_index = 0, tree_size = 1, path = []\<rparr>, lp_sth = sth\<rparr>"
  have "map_root_is_logged P ?pf (sg_public_key sg)" using checkpoint_logged [OF inv _ _ 1(4,5), of 0 ?pf] by simp
  with 1 show ?thesis by (intro exI [of _ ?pf] exI [of _ lb']) simp
qed

lemma lb_prove_head:
  assumes "lb_prove P lb key sg = Some (Some pf, lb')"
  shows "\<exists>w w'. signed_head P w sg = Some (lp_sth pf, w')"
  using assms by (auto simp: lb_prove_def split: option.splits prod.splits if_splits) blast

text \<open>What the tests rely on.\<close>

definition forged_checkpoint :: "prims \<Rightarrow> map_checkpoint" where
  "forged_checkpoint P = (first_checkpoint P (map_of_keys [hashed_tag P 9]))\<lparr>mc_map_root := revmap_root P revmap_new\<rparr>"

definition revlogs_apart :: "prims \<Rightarrow> bool" where
  "revlogs_apart P \<longleftrightarrow>
     universe_apart P (tested_keys P) \<and> inj_on (hashed_tag P) {1, 2} \<and> list_all (\<lambda>b. ed_good P (fill b)) [1, 2, 3, 5, 6] \<and> foreign_key P 3 4 \<and>
     (let C = {forged_checkpoint P, first_checkpoint P (map_of_keys [hashed_tag P 9])}
      in collision_free P (leaf_queries ((\<lambda>c. canonical_bytes P (checkpoint_receipt P c)) ` C)) \<and>
         inj_on (jcs P) (action_receipt_json ` checkpoint_receipt P ` C) \<and> collision_free P (checkpoint_bytes ` C))"

lemma logged_status_passes:
  assumes apart: "revlogs_apart P"
  shows "test_logged_status_verifies P = Some ()"
proof -
  let ?a = "hashed_tag P 1" and ?b = "hashed_tag P 2" and ?m = "map_of_keys [hashed_tag P 1]" and ?sg = "ed25519_from_seed P (fill 1)"
  from apart have u: "universe_apart P (tested_keys P)" and sg: "signer_ok P ?sg" and ab: "?b \<noteq> ?a"
    by (auto simp: revlogs_apart_def inj_on_def intro: ed.ok)
  have "set (map_keys ?m) \<subseteq> tested_keys P" by (simp add: map_of_keys_ok)
  note says = universe_decides [OF u map_of_keys_ok(1) this]
  from first_published [OF sg, of "[?a]"] obtain sth lb where
    1: "publish_checkpoint P (log_backed_with [?a]) ?sg = Some (sth, lb)" "lb_map lb = ?m" "lb_inv P lb [(first_checkpoint P ?m, ?m)]" by blast
  from first_proof [OF sg 1(3,2), of ?b] obtain p lb1 where
    2: "lb_prove P lb ?b ?sg = Some (Some p, lb1)" "lb_inv P lb1 [(first_checkpoint P ?m, ?m)]" "lb_map lb1 = ?m"
    "lp_checkpoint p = first_checkpoint P ?m" "lp_map_proof p = revmap_prove P ?m ?b" "map_root_is_logged P p (sg_public_key ?sg)" by blast
  from first_proof [OF sg 2(2,3), of ?a] obtain q lb2 where
    3: "lb_prove P lb1 ?a ?sg = Some (Some q, lb2)" "lp_checkpoint q = first_checkpoint P ?m" "lp_map_proof q = revmap_prove P ?m ?a"
    "map_root_is_logged P q (sg_public_key ?sg)" by blast
  have "mc_map_root (first_checkpoint P ?m) = revmap_root P ?m" by (simp add: first_checkpoint_def)
  with ab 2(4-6) 3(2-4) show ?thesis
    by (simp add: test_logged_status_verifies_def Let_def 1(1) 2(1) 3(1) verify_not_revoked_def verify_revoked_def says map_of_keys_ok)
qed

text \<open>The forged checkpoint is not the one in the log.\<close>

lemma forged_unlogged:
  assumes apart: "revlogs_apart P" and pf: "lp_checkpoint pf = forged_checkpoint P" "path (lp_inclusion pf) = []"
    and head: "head_of P (history_leaves P [(first_checkpoint P (map_of_keys [hashed_tag P 9]), m)]) (lp_sth pf)"
  shows "\<not> map_root_is_logged P pf key"
proof
  let ?c = "first_checkpoint P (map_of_keys [hashed_tag P 9])"
  have single: "node_queries P [x] = {}" for x by (subst node_queries.simps) simp
  assume "map_root_is_logged P pf key"
  moreover have "proof_apart P [(?c, m)] pf"
    using apart by (simp add: proof_apart_def pf history_data_def history_leaves_def single revlogs_apart_def Let_def)
  ultimately have "?c = forged_checkpoint P"
    using logged_checkpoint [OF _ head] pf(1) by auto
  then have "revmap_root P (map_of_keys [hashed_tag P 9]) = revmap_root P (map_of_keys [])"
    by (auto simp: forged_checkpoint_def first_checkpoint_def map_of_keys_def)
  moreover have "universe_apart P (tested_keys P)" "hashed_tag P 9 \<in> tested_keys P"
    using apart tested_keysI [of 9 P] by (simp_all add: revlogs_apart_def)
  ultimately show False using map_of_keys_root [of P "tested_keys P" "[hashed_tag P 9]" "[]"] by simp
qed

lemma forged_root_passes:
  assumes apart: "revlogs_apart P"
  shows "test_forged_map_root_is_rejected P = Some ()"
proof -
  let ?v = "hashed_tag P 9" and ?m = "map_of_keys [hashed_tag P 9]" and ?sg = "ed25519_from_seed P (fill 2)"
  from apart have u: "universe_apart P (tested_keys P)" and sg: "signer_ok P ?sg"
    by (auto simp: revlogs_apart_def intro: ed.ok)
  from first_published [OF sg, of "[?v]"] obtain sth lb where
    1: "publish_checkpoint P (log_backed_with [?v]) ?sg = Some (sth, lb)" "lb_map lb = ?m" "lb_inv P lb [(first_checkpoint P ?m, ?m)]" by blast
  from first_proof [OF sg 1(3,2), of ?v] obtain p lb1 where
    2: "lb_prove P lb ?v ?sg = Some (Some p, lb1)" "lp_checkpoint p = first_checkpoint P ?m"
    "lp_inclusion p = \<lparr>leaf_index = 0, tree_size = 1, path = []\<rparr>" "head_of P (history_leaves P [(first_checkpoint P ?m, ?m)]) (lp_sth p)" by blast
  let ?p = "p\<lparr>lp_checkpoint := forged_checkpoint P, lp_map_proof := revmap_prove P revmap_new ?v\<rparr>"
  have "\<not> map_root_is_logged P ?p (sg_public_key ?sg)"
    by (rule forged_unlogged [OF apart, of ?p ?m]) (use 2 in simp_all)
  moreover have "map_verify_non_inclusion P (revmap_root P revmap_new) ?v (revmap_prove P revmap_new ?v)"
    using universe_decides(2) [OF u revmap_new_ok, of ?v] tested_keysI [of 9 P] by (simp add: revmap_new_def)
  ultimately show ?thesis
    by (simp add: test_forged_map_root_is_rejected_def Let_def 1(1) 2(1,2) forged_checkpoint_def [symmetric] verify_not_revoked_def)
qed

lemma revlog_wrong_key_passes:
  assumes apart: "revlogs_apart P"
  shows "test_revlog_wrong_key_is_rejected P = Some ()"
proof -
  let ?m = "map_of_keys [hashed_tag P 1]" and ?sg = "ed25519_from_seed P (fill 3)"
  from apart have sg: "signer_ok P ?sg" and foreign: "foreign_key P 3 4" by (auto simp: revlogs_apart_def intro: ed.ok)
  from first_published [OF sg, of "[hashed_tag P 1]"] obtain sth lb where
    1: "publish_checkpoint P (log_backed_with [hashed_tag P 1]) ?sg = Some (sth, lb)" "lb_map lb = ?m" "lb_inv P lb [(first_checkpoint P ?m, ?m)]" by blast
  from first_proof [OF sg 1(3,2), of "hashed_tag P 2"] obtain p lb1 where
    2: "lb_prove P lb (hashed_tag P 2) ?sg = Some (Some p, lb1)" by blast
  from lb_prove_head [OF 2] obtain w w' where "signed_head P w ?sg = Some (lp_sth p, w')" by blast
  from foreign_signed_head [OF this] foreign have "\<not> verify_signed_head P (lp_sth p) (sg_public_key (ed25519_from_seed P (fill 4)))"
    by (simp add: foreign_key_def)
  then show ?thesis
    by (simp add: test_revlog_wrong_key_is_rejected_def Let_def 1(1) 2 verify_not_revoked_def map_root_is_logged_def)
qed

lemma append_only_passes:
  assumes apart: "revlogs_apart P"
  shows "test_checkpoint_log_is_append_only P = Some ()"
proof -
  let ?sg = "ed25519_from_seed P (fill 5)" and ?h = "[(first_checkpoint P (map_of_keys []), map_of_keys [])]"
  from apart have sg: "signer_ok P ?sg" by (auto simp: revlogs_apart_def intro: ed.ok)
  have new: "log_backed_with [] = log_backed_new" by (simp add: log_backed_with_def)
  from first_published [OF sg, of "[]"] obtain sth0 lb0 where
    1: "publish_checkpoint P log_backed_new ?sg = Some (sth0, lb0)" "lb_inv P lb0 ?h" "head_of P (history_leaves P ?h) sth0"
    by (auto simp: new)
  from lb_inv_publish [OF lb_inv_revoke [OF 1(2)] sg, of "hashed_tag P 7"] obtain sth1 lb1 e where
    2: "publish_checkpoint P (log_backed_revoke lb0 (hashed_tag P 7)) ?sg = Some (sth1, lb1)" "lb_inv P lb1 (?h @ [e])"
    "head_of P (history_leaves P (?h @ [e])) sth1"
    by auto
  have sizes: "sth_size sth0 = 1" "sth_size sth1 = 2" using 1(3) 2(3) by (simp_all add: head_of_def)
  let ?pf = "\<lparr>nodes = naive_subproof P 1 (history_leaves P (?h @ [e])) True\<rparr>"
  from lb_consistency_keeps [OF 2(2), of 1 2] obtain lb2 where
    3: "lb_consistency_proof P lb1 1 2 = Some (Some ?pf, lb2)" by auto
  have "take 1 (history_leaves P (?h @ [e])) = history_leaves P ?h" by (simp add: history_leaves_def)
  then have "verify_consistency P (sth_root sth0) (sth_root sth1) ?pf 1 2"
    using verify_consistency_complete [of 1 "history_leaves P (?h @ [e])" P] 1(3) 2(3) by (simp add: head_of_def numeral_2_eq_2)
  moreover have "\<not> verify_consistency P (sth_root sth1) (sth_root sth0) ?pf 2 1" by (simp add: verify_consistency_def)
  ultimately show ?thesis
    by (simp add: test_checkpoint_log_is_append_only_def Let_def 1(1) 2(1) sizes 3 [simplified])
qed

lemma unlogged_root_passes:
  assumes apart: "revlogs_apart P"
  shows "test_no_proof_against_unlogged_root P = Some ()"
proof -
  let ?a = "hashed_tag P 1" and ?b = "hashed_tag P 2" and ?sg = "ed25519_from_seed P (fill 6)"
  let ?m = "map_of_keys [?a]" and ?c = "first_checkpoint P (map_of_keys [?a])"
  from apart have u: "universe_apart P (tested_keys P)" and sg: "signer_ok P ?sg" and ab: "?b \<noteq> ?a"
    by (auto simp: revlogs_apart_def inj_on_def intro: ed.ok)
  from first_published [OF sg, of "[?a]"] obtain sth lb where
    1: "publish_checkpoint P (log_backed_with [?a]) ?sg = Some (sth, lb)" "lb_map lb = ?m" "lb_inv P lb [(?c, ?m)]" by blast
  let ?lb = "log_backed_revoke lb ?b"
  have "lb_map ?lb = map_of_keys [?a, ?b]" by (simp add: log_backed_revoke_def 1(2) map_of_keys_def)
  moreover have "revmap_root P (map_of_keys [?a, ?b]) \<noteq> revmap_root P ?m"
    using map_of_keys_root [OF u, of "[?a, ?b]" "[?a]"] ab by auto
  ultimately have "lb_prove P ?lb (hashed_tag P 3) ?sg = Some (None, ?lb)"
    by (intro lb_prove_unlogged [OF lb_inv_revoke [OF 1(3)]]) (simp add: first_checkpoint_def)
  then show ?thesis by (simp add: test_no_proof_against_unlogged_root_def Let_def 1(1))
qed

lemma revlog_tests_pass:
  assumes "revlogs_apart P"
  shows "map (\<lambda>test. test P) revlog_tests = replicate 5 (Some ())"
  by (simp add: revlog_tests_def logged_status_passes [OF assms] forged_root_passes [OF assms] revlog_wrong_key_passes [OF assms]
      append_only_passes [OF assms] unlogged_root_passes [OF assms] numeral_eq_Suc)

end
