(* ===== verification/Demo_Sets.thy ===== *)
theory Demo_Sets
  imports Map_Tests Demo "HOL-Library.Countable"
begin

text \<open>
  The instance for the tests of the sparse Merkle map: the digest of a subtree is the set of
  the keys in it, as a bit mask, and its height, so no two subtrees have the same. A node
  with children of different heights, or of the same non-empty set, gets the number of no
  subtree. Like \<^verbatim>\<open>Demo\<close> it models nothing of the code.
\<close>

section \<open>Digests as numbers\<close>

fun num_bytes :: "nat \<Rightarrow> nat \<Rightarrow> u8 list" where
  "num_bytes 0 n = []"
| "num_bytes (Suc k) n = num_bytes k (n div 256) @ [of_nat n]"

lemma length_num_bytes [simp]: "length (num_bytes k n) = k"
  by (induction k arbitrary: n) simp_all

lemma be_value_num_bytes: "n < 256 ^ k \<Longrightarrow> be_value (num_bytes k n) = n"
proof (induction k arbitrary: n)
  case 0
  then show ?case by (simp add: be_value_def)
next
  case (Suc k)
  then have "n div 256 < 256 ^ k" by (simp add: less_mult_imp_div_less mult.commute)
  then show ?case by (simp add: Suc.IH be_value_snoc unat_of_nat)
qed

definition digest_of :: "nat \<Rightarrow> digest" where
  "digest_of n = mk_bytes32 (num_bytes 32 n)"

lemma key_num_digest: "n < 2 ^ 256 \<Longrightarrow> key_num (digest_of n) = n"
  by (simp add: key_num_def digest_of_def be_value_num_bytes)

lemma digest_of_inject: "m < 2 ^ 256 \<Longrightarrow> n < 2 ^ 256 \<Longrightarrow> digest_of m = digest_of n \<longleftrightarrow> m = n"
  by (metis key_num_digest)

section \<open>The hash\<close>

definition band :: nat where
  "band = 2 ^ 216"

definition foreign_node :: nat where
  "foreign_node = 2 ^ 255"

definition join_nums :: "nat \<Rightarrow> nat \<Rightarrow> nat" where
  "join_nums l r =
     (if l div band = r div band \<and> (l mod band \<noteq> r mod band \<or> l mod band = 0)
      then l mod band + r mod band + band * Suc (l div band) else foreign_node)"

text \<open>The keys of the tests are filled with an odd multiple of their tag.\<close>

definition key_index :: "bytes32 \<Rightarrow> nat" where
  "key_index k = unat (129 * hd (array_bytes k))"

definition sets_hash :: "u8 list \<Rightarrow> digest" where
  "sets_hash bs =
     (if bs = empty_leaf_domain then digest_of 0
      else if bs = str_bytes ''definitely-not-in-the-set'' then fill 200
      else if length bs = 1 then fill (129 * hd bs)
      else if length bs = 33 \<and> hd bs = leaf_tag then digest_of (2 ^ key_index (mk_bytes32 (tl bs)))
      else if length bs = 65 \<and> hd bs = node_tag
        then digest_of (join_nums (be_value (take 32 (tl bs))) (be_value (drop 32 (tl bs))))
      else if length bs = 129 then mk_bytes32 (take 32 (drop 33 bs))
      else mk_bytes32 (take 32 (drop (length bs - 64) bs)))"

fun sets_field :: "json \<Rightarrow> u8 list" where
  "sets_field (JArr js) = map (\<lambda>j. case j of JNum n \<Rightarrow> of_nat n | _ \<Rightarrow> 0) js"
| "sets_field _ = []"

fun sets_jcs :: "json \<Rightarrow> u8 list" where
  "sets_jcs (JObj kvs) = concat (map (\<lambda>kv. sets_field (snd kv)) kvs)"
| "sets_jcs j = demo_jcs j"

text \<open>The codec of the hex crate, which \<open>demo\<close> does not need.\<close>

definition hex_value :: "char \<Rightarrow> nat option" where
  "hex_value c =
     (let n = of_char c in
      if 48 \<le> n \<and> n < 58 then Some (n - 48)
      else if 97 \<le> n \<and> n < 103 then Some (n - 87)
      else if 65 \<le> n \<and> n < 71 then Some (n - 55) else None)"

fun unhex :: "string \<Rightarrow> string + u8 list" where
  "unhex [] = Inr []"
| "unhex [c] = Inl ''Odd number of digits''"
| "unhex (c # d # cs) =
     (case (hex_value c, hex_value d) of
        (Some m, Some n) \<Rightarrow> map_sum id ((#) (of_nat (16 * m + n))) (unhex cs)
      | _ \<Rightarrow> Inl ''Invalid character'')"

definition demo_sets :: prims where
  "demo_sets = demo\<lparr>blake3 := sets_hash, jcs := sets_jcs, hex_encode := \<lambda>bs. concat (map hex_byte bs), hex_decode := unhex\<rparr>"

lemma demo_sets_simps [simp]:
  "blake3 demo_sets = sets_hash" "jcs demo_sets = sets_jcs" "ed_key_ok demo_sets k" "ed_check demo_sets = demo_check"
  "ed_public demo_sets = array_bytes" "ed_raw_sign demo_sets seed = demo_sign (array_bytes seed)"
  "hex_encode demo_sets bs = concat (map hex_byte bs)" "hex_decode demo_sets = unhex"
  by (simp_all add: demo_sets_def)

lemma sets_empty: "empty_leaf demo_sets = digest_of 0"
  by (simp add: empty_leaf_def sets_hash_def)

lemma sets_leaf: "leaf_hash demo_sets k = digest_of (2 ^ key_index k)"
  by (simp add: leaf_hash_def sets_hash_def leaf_tag_def empty_leaf_domain_def str_bytes_def)

lemma sets_node: "node_hash demo_sets l r = digest_of (join_nums (key_num l) (key_num r))"
  by (simp add: node_hash_def sets_hash_def node_tag_def leaf_tag_def empty_leaf_domain_def str_bytes_def key_num_def)

lemma sets_tag: "hashed_tag demo_sets t = fill (129 * t)"
  by (simp add: hashed_tag_def sets_hash_def empty_leaf_domain_def str_bytes_def)

lemma sets_absent: "absent_key demo_sets = fill 200"
  by (simp add: absent_key_def sets_hash_def empty_leaf_domain_def str_bytes_def)

section \<open>Masks\<close>

lemma hd_fill [simp]: "hd (array_bytes (fill b)) = b"
  by (simp add: fill_def)

lemma key_index_fill: "key_index (fill (129 * t)) = unat t"
proof -
  have "129 * (129 * t) = (129 * 129) * t" by (simp only: mult.assoc)
  also have "(129 * 129 :: u8) = 1" by simp
  finally have "129 * (129 * t) = t" by (simp only: mult_1)
  then show ?thesis by (simp only: key_index_def hd_fill)
qed

lemma tested_index:
  assumes "k \<in> tested_keys demo_sets"
  shows "\<exists>t \<le> 200. k = fill (129 * of_nat t) \<and> key_index k = t"
proof -
  have "(200 :: u8) = 129 * of_nat 200" by simp
  then have "\<exists>t \<le> 200. k = fill (129 * of_nat t)"
    using assms unfolding tested_keys_def sets_tag sets_absent by (auto dest: less_imp_le)
  then obtain t :: nat where t: "t \<le> 200" "k = fill (129 * of_nat t)" by blast
  moreover have "unat (of_nat t :: u8) = t" using t(1) by (simp add: unat_of_nat)
  ultimately show ?thesis using key_index_fill [of "of_nat t"] by auto
qed

lemma tested_index_le: "k \<in> tested_keys demo_sets \<Longrightarrow> key_index k \<le> 200"
  using tested_index by blast

lemma tested_index_inject: "inj_on key_index (tested_keys demo_sets)"
  by (rule inj_onI) (metis tested_index)

definition key_mask :: "bytes32 list \<Rightarrow> nat" where
  "key_mask ks = set_encode (key_index ` set ks)"

lemma key_mask_nil [simp]: "key_mask [] = 0"
  by (simp add: key_mask_def)

lemma key_mask_inject:
  assumes "set ks \<subseteq> tested_keys demo_sets" and "set js \<subseteq> tested_keys demo_sets"
  shows "key_mask ks = key_mask js \<longleftrightarrow> set ks = set js"
  using inj_on_image_eq_iff [OF tested_index_inject assms] by (simp add: key_mask_def set_encode_eq)

lemma key_mask_less:
  assumes "set ks \<subseteq> tested_keys demo_sets"
  shows "key_mask ks < band"
proof -
  have "key_index ` set ks \<subseteq> {..<216}" using assms tested_index_le by fastforce
  then have "key_mask ks \<le> sum ((^) 2) {..<216}"
    unfolding key_mask_def set_encode_def by (intro sum_mono2) simp_all
  also have "sum ((^) 2) {..<216 :: nat} < (2 ^ 216 :: nat)"
    using sum_power2 [of 216] by (simp add: atLeast0LessThan)
  finally show ?thesis by (simp add: band_def)
qed

lemma key_mask_sides:
  assumes "set ks \<subseteq> tested_keys demo_sets"
  shows "key_mask (side ks d False) + key_mask (side ks d True) = key_mask ks"
    and "key_mask (side ks d False) \<noteq> key_mask (side ks d True) \<or> key_mask (side ks d False) = 0"
proof -
  let ?f = "\<lambda>b. key_index ` set (side ks d b)"
  have sub: "set (side ks d b) \<subseteq> tested_keys demo_sets" for b using assms set_side_subset by blast
  have parts: "set ks = set (side ks d False) \<union> set (side ks d True)" "set (side ks d False) \<inter> set (side ks d True) = {}"
    by (auto simp: side_def)
  then have "?f False \<inter> ?f True = {}"
    using inj_on_image_Int [OF tested_index_inject sub sub, of False True] by simp
  then show "key_mask (side ks d False) + key_mask (side ks d True) = key_mask ks"
    by (simp add: key_mask_def set_encode_def parts(1) image_Un sum.union_disjoint)
  show "key_mask (side ks d False) \<noteq> key_mask (side ks d True) \<or> key_mask (side ks d False) = 0"
    using key_mask_inject [OF sub sub, of False True] parts(2) by (auto simp: key_mask_def)
qed

section \<open>Subtrees\<close>

lemma join_lt: "l < band * 257 \<Longrightarrow> r < band * 257 \<Longrightarrow> join_nums l r < 2 ^ 256"
proof -
  assume "l < band * 257" "r < band * 257"
  then have "l div band < 257" by (simp add: less_mult_imp_div_less mult.commute)
  then have "band * Suc (l div band) \<le> band * 257" by (intro mult_le_mono2) simp
  moreover have "l mod band < band" "r mod band < band" by (simp_all add: band_def)
  ultimately have "l mod band + r mod band + band * Suc (l div band) < band * 259" by linarith
  also have "\<dots> < 2 ^ 256" by (simp add: band_def)
  finally have "l mod band + r mod band + band * Suc (l div band) < 2 ^ 256" .
  moreover have "foreign_node < 2 ^ 256" by (simp add: foreign_node_def)
  ultimately show ?thesis unfolding join_nums_def by presburger
qed

text \<open>The number of a subtree: its keys and its height.\<close>

definition subtree_num :: "bytes32 list \<Rightarrow> nat \<Rightarrow> nat" where
  "subtree_num ks d = key_mask ks + band * (256 - d)"

lemma subtree_num_less:
  assumes "set ks \<subseteq> tested_keys demo_sets"
  shows "subtree_num ks d < band * 257" and "subtree_num ks d < 2 ^ 255" and "subtree_num ks d < 2 ^ 256"
proof -
  have "band * (256 - d) \<le> band * 256" by (intro mult_le_mono2) simp
  with key_mask_less [OF assms] show *: "subtree_num ks d < band * 257" unfolding subtree_num_def by linarith
  also have "band * 257 < 2 ^ 255" by (simp add: band_def)
  finally show "subtree_num ks d < 2 ^ 255" .
  then show "subtree_num ks d < 2 ^ 256" by simp
qed

lemma subtree_num_parts:
  assumes "set ks \<subseteq> tested_keys demo_sets"
  shows "subtree_num ks d div band = 256 - d" and "subtree_num ks d mod band = key_mask ks"
  using key_mask_less [OF assms] by (simp_all add: subtree_num_def)

lemma subtree_num_join:
  assumes "set ks \<subseteq> tested_keys demo_sets" and "d < 256"
  shows "join_nums (subtree_num (side ks d False) (Suc d)) (subtree_num (side ks d True) (Suc d)) = subtree_num ks d"
proof -
  have sub: "set (side ks d b) \<subseteq> tested_keys demo_sets" for b using assms(1) set_side_subset by blast
  have "Suc (256 - Suc d) = 256 - d" using assms(2) by simp
  with key_mask_sides [OF assms(1), of d] show ?thesis
    by (simp add: join_nums_def subtree_num_parts [OF sub]) (simp add: subtree_num_def)
qed

lemma sets_subtree:
  "span ks d \<Longrightarrow> d \<le> 256 \<Longrightarrow> set ks \<subseteq> tested_keys demo_sets \<Longrightarrow> map_subtree_root demo_sets ks d = digest_of (subtree_num ks d)"
proof (induction "256 - d" arbitrary: d ks)
  case 0
  then have d: "d = 256" by simp
  with 0 span_short have "length ks \<le> 1" by blast
  then show ?case
    by (cases ks) (simp_all add: d root_end sets_empty sets_leaf subtree_num_def key_mask_def)
next
  case (Suc n)
  then have d: "d < 256" by simp
  have sub: "set (side ks d b) \<subseteq> tested_keys demo_sets" for b using Suc.prems(3) set_side_subset by blast
  have "map_subtree_root demo_sets (side ks d b) (Suc d) = digest_of (subtree_num (side ks d b) (Suc d))" for b
    using Suc.hyps d by (intro Suc.hyps(1) span_side Suc.prems(1) sub) simp_all
  then show ?case
    using root_split [OF Suc.prems(1) d, of demo_sets] subtree_num_less [OF sub]
    by (simp add: sets_node key_num_digest subtree_num_join [OF Suc.prems(3) d])
qed

section \<open>No collision over the keys\<close>

abbreviation tested :: "u8 list set" where
  "tested \<equiv> universe_queries demo_sets (tested_keys demo_sets)"

text \<open>The hash of a node of the universe, and of its leaves.\<close>

lemma sets_universe_node:
  assumes "d < 256" and "span ks d" and "set ks \<subseteq> tested_keys demo_sets"
  shows "sets_hash (map_node_bytes (map_subtree_root demo_sets (side ks d False) (Suc d)) (map_subtree_root demo_sets (side ks d True) (Suc d))) =
    digest_of (subtree_num ks d)"
  using root_split [OF assms(2,1), of demo_sets] sets_subtree [OF assms(2) _ assms(3)] assms(1) by (simp add: node_hash_def)

lemma tested_cases:
  assumes "x \<in> tested"
  obtains "x = empty_leaf_domain" | k where "k \<in> tested_keys demo_sets" "x = [leaf_tag] @ array_bytes k"
  | ks d where "d < 256" "span ks d" "set ks \<subseteq> tested_keys demo_sets"
    "x = map_node_bytes (map_subtree_root demo_sets (side ks d False) (Suc d)) (map_subtree_root demo_sets (side ks d True) (Suc d))"
  using assms unfolding universe_queries_def by blast

text \<open>A height of zero for leaves, and what is known of every number.\<close>

definition query_num :: "u8 list \<Rightarrow> nat" where
  "query_num x = key_num (sets_hash x)"

lemma query_num_simps:
  "query_num empty_leaf_domain = 0"
  "k \<in> tested_keys demo_sets \<Longrightarrow> query_num ([leaf_tag] @ array_bytes k) = 2 ^ key_index k"
  "d < 256 \<Longrightarrow> span ks d \<Longrightarrow> set ks \<subseteq> tested_keys demo_sets \<Longrightarrow>
     query_num (map_node_bytes (map_subtree_root demo_sets (side ks d False) (Suc d)) (map_subtree_root demo_sets (side ks d True) (Suc d))) =
       subtree_num ks d"
proof -
  show "query_num empty_leaf_domain = 0"
    using sets_empty key_num_digest [of 0] by (simp add: query_num_def empty_leaf_def)
  show "query_num ([leaf_tag] @ array_bytes k) = 2 ^ key_index k" if "k \<in> tested_keys demo_sets"
  proof -
    have "(2 :: nat) ^ key_index k < 2 ^ 256" using tested_index_le [OF that] by (intro power_strict_increasing) simp_all
    with key_num_digest sets_leaf [of k] show ?thesis by (simp add: query_num_def leaf_hash_def)
  qed
qed (simp only: query_num_def sets_universe_node subtree_num_less(3) key_num_digest)

lemma leaf_num_less: "k \<in> tested_keys demo_sets \<Longrightarrow> 2 ^ key_index k < band"
  unfolding band_def using tested_index_le [of k] by (intro power_strict_increasing) simp_all

lemma node_num_ge: "d < 256 \<Longrightarrow> band \<le> subtree_num ks d"
proof -
  assume "d < 256"
  then have "1 \<le> 256 - d" by simp
  from mult_le_mono2 [OF this, of band] show ?thesis unfolding subtree_num_def by linarith
qed

lemma query_num_inject:
  assumes "x \<in> tested" and "y \<in> tested" and eq: "query_num x = query_num y"
  shows "x = y"
  using assms(1)
proof (cases rule: tested_cases)
  case 1
  from assms(2) show ?thesis
  proof (cases rule: tested_cases)
    case (2 k)
    with 1 eq show ?thesis by (simp only: query_num_simps; simp)
  next
    case (3 ks d)
    with 1 eq node_num_ge [OF 3(1), of ks] show ?thesis by (simp only: query_num_simps; simp add: band_def)
  qed (use 1 in simp)
next
  case (2 k)
  from assms(2) show ?thesis
  proof (cases rule: tested_cases)
    case 1
    with 2 eq show ?thesis by (simp only: query_num_simps; simp)
  next
    case (2 j)
    with \<open>k \<in> tested_keys demo_sets\<close> \<open>x = [leaf_tag] @ array_bytes k\<close> eq have "(2 :: nat) ^ key_index k = 2 ^ key_index j"
      by (simp only: query_num_simps)
    then have "key_index k = key_index j" by simp
    with inj_onD [OF tested_index_inject] 2 \<open>k \<in> tested_keys demo_sets\<close> \<open>x = [leaf_tag] @ array_bytes k\<close> show ?thesis by blast
  next
    case (3 ks d)
    with 2 eq node_num_ge [OF 3(1), of ks] leaf_num_less [OF 2(1)] show ?thesis by (simp only: query_num_simps; simp)
  qed
next
  case (3 ks d)
  note x = 3
  from assms(2) show ?thesis
  proof (cases rule: tested_cases)
    case 1
    with 3 eq node_num_ge [OF 3(1), of ks] show ?thesis by (simp only: query_num_simps; simp add: band_def)
  next
    case (2 j)
    with x eq node_num_ge [OF x(1), of ks] leaf_num_less [OF 2(1)] show ?thesis by (simp only: query_num_simps; simp)
  next
    case (3 js e)
    with x eq have "subtree_num ks d = subtree_num js e" by (simp only: query_num_simps)
    with subtree_num_parts [OF x(3), of d] subtree_num_parts [OF 3(3), of e] have "key_mask ks = key_mask js" "256 - d = 256 - e" by simp_all
    then have "set ks = set js" "d = e" using key_mask_inject [OF x(3) 3(3)] x(1) 3(1) by auto
    then have "ks = js" using x(2) 3(2) by (auto simp: span_def intro: strict_sorted_equal)
    with \<open>d = e\<close> x(4) 3(4) show ?thesis by simp
  qed
qed

lemma tested_apart: "universe_apart demo_sets (tested_keys demo_sets)"
proof -
  have "sets_hash x = sets_hash y \<Longrightarrow> x \<in> tested \<Longrightarrow> y \<in> tested \<Longrightarrow> x = y" for x y
    by (rule query_num_inject) (simp_all add: query_num_def)
  then show ?thesis by (simp add: universe_apart_def collision_free_def inj_on_def)
qed

section \<open>One more message\<close>

lemma query_num_small: "x \<in> tested \<Longrightarrow> query_num x < foreign_node"
proof (cases rule: tested_cases, assumption)
  fix k assume k: "k \<in> tested_keys demo_sets" and x: "x = [leaf_tag] @ array_bytes k"
  have "query_num x < band" unfolding x query_num_simps(2) [OF k] by (rule leaf_num_less [OF k])
  also have "band < foreign_node" by (simp add: band_def foreign_node_def)
  finally show "query_num x < foreign_node" .
qed (simp_all only: query_num_simps subtree_num_less foreign_node_def, simp)

lemma with_foreign:
  assumes "sets_hash x = digest_of foreign_node"
  shows "collision_free demo_sets (insert x tested)"
proof -
  have x: "query_num x = foreign_node"
    using assms key_num_digest [of foreign_node] by (simp add: query_num_def foreign_node_def)
  have "y = z" if "query_num y = query_num z" "y \<in> insert x tested" "z \<in> insert x tested" for y z
  proof (cases "y = x \<or> z = x")
    case True
    with that x have "query_num y = foreign_node" "query_num z = foreign_node" by auto
    with that(2,3) query_num_small [of y] query_num_small [of z] have "y = x" "z = x" by auto
    then show ?thesis by simp
  next
    case False
    with that query_num_inject [of y z] show ?thesis by simp
  qed
  then show ?thesis by (simp add: collision_free_def inj_on_def query_num_def)
qed

lemma level_bytes_cong:
  assumes "\<forall>e < 256. d \<le> e \<longrightarrow> full ! e = full' ! e" and "d < 256"
  shows "level_bytes P k full c d = level_bytes P k full' c d"
proof -
  have "foldr (fold_level P k full) [Suc d..<256] c = foldr (fold_level P k full') [Suc d..<256] c"
    by (rule foldr_cong) (use assms(1) in \<open>simp_all add: fold_level_def\<close>)
  moreover have "full ! d = full' ! d" using assms by simp
  ultimately show ?thesis by (simp add: level_bytes_def Let_def)
qed

text \<open>The path of a key alone, with another sibling at the top.\<close>

lemma lone_siblings: "d < 256 \<Longrightarrow> sibling_list P [k] k 0 256 ! d = map_subtree_root P [] (Suc d)"
  using sibling_list_near [of d P "[k]" k] by (simp add: near_def side_def)

lemma lone_path:
  assumes "\<forall>e < 256. 1 \<le> e \<longrightarrow> full ! e = map_subtree_root P [] (Suc e)"
  shows "foldr (fold_level P k full) [1..<256] (leaf_hash P k) = map_subtree_root P [k] 1"
proof -
  have "sibling_list P [k] k 1 255 ! i = map_subtree_root P [] (Suc (1 + i))" if "i < 255" for i
    using sibling_list_nth [of i 255 P "[k]" k 1] that by (simp add: near_def side_def)
  with fold_siblings [of "[k]" 1 k 255 full P] assms show ?thesis by (simp add: span_def slot_def)
qed

lemma lone_levels:
  assumes "k \<in> tested_keys demo_sets" and "\<forall>e < 256. 1 \<le> e \<longrightarrow> full ! e = map_subtree_root demo_sets [] (Suc e)"
  shows "level_bytes demo_sets k full (leaf_hash demo_sets k) ` {..<256} \<subseteq>
    insert (level_bytes demo_sets k full (leaf_hash demo_sets k) 0) tested"
proof (rule image_subsetI)
  fix d :: nat assume "d \<in> {..<256}"
  then have d: "d < 256" by simp
  show "level_bytes demo_sets k full (leaf_hash demo_sets k) d \<in> insert (level_bytes demo_sets k full (leaf_hash demo_sets k) 0) tested"
  proof (cases "d = 0")
    case False
    have "level_bytes demo_sets k full (leaf_hash demo_sets k) d = level_bytes demo_sets k (sibling_list demo_sets [k] k 0 256) (slot demo_sets [k] k) d"
      using level_bytes_cong [of d full "sibling_list demo_sets [k] k 0 256" demo_sets k "leaf_hash demo_sets k"] assms(2) False d
      by (simp add: lone_siblings slot_def)
    with level_universe [of "[k]" "tested_keys demo_sets" d demo_sets k] assms(1) d show ?thesis by simp
  qed simp
qed

lemma top_apart:
  assumes k: "k \<in> tested_keys demo_sets" and sib: "\<forall>e < 256. 1 \<le> e \<longrightarrow> full ! e = map_subtree_root demo_sets [] (Suc e)"
    and top: "key_num (full ! 0) div band \<noteq> 255 \<or> key_num (full ! 0) mod band = key_mask [k]"
    and pf: "proof_expand demo_sets pf = Some full"
  shows "collision_free demo_sets (tested \<union> proof_queries demo_sets k (leaf_hash demo_sets k) pf)"
proof -
  let ?c = "map_subtree_root demo_sets [k] 1" and ?n = "subtree_num [k] 1"
  have sub: "set [k] \<subseteq> tested_keys demo_sets" using k by simp
  have "map_subtree_root demo_sets [k] 1 = digest_of ?n" by (rule sets_subtree) (simp_all add: span_def k)
  then have num: "key_num ?c div band = 255" "key_num ?c mod band = key_mask [k]"
    using key_num_digest [OF subtree_num_less(3) [OF sub]] subtree_num_parts [OF sub, of 1] by simp_all
  have "key_mask [k] \<noteq> 0" by (simp add: key_mask_def)
  with top num have "join_nums (key_num ?c) (key_num (full ! 0)) = foreign_node" "join_nums (key_num (full ! 0)) (key_num ?c) = foreign_node"
    by (auto simp: join_nums_def)
  with sets_node [of ?c "full ! 0"] sets_node [of "full ! 0" ?c]
  have "sets_hash (level_bytes demo_sets k full (leaf_hash demo_sets k) 0) = digest_of foreign_node"
    using lone_path [OF sib, of k] by (simp add: level_bytes_def Let_def node_hash_def)
  from with_foreign [OF this] lone_levels [OF k sib] show ?thesis
    by (intro collision_free_mono [where R = "tested \<union> proof_queries demo_sets k (leaf_hash demo_sets k) pf"]) (auto simp: proof_queries_def pf)
qed

section \<open>The tests of the map\<close>

lemma first_bits: "kbit (fill 129) 0" "\<not> kbit (fill 2) 0"
proof -
  have "key_bit (fill 129) 0 = 1" "key_bit (fill 2) 0 = 0" by (simp_all add: key_bit_def fill_def drop_bit_eq_div)
  then show "kbit (fill 129) 0" "\<not> kbit (fill 2) 0" using key_bit_iff [of 0 "fill 129"] key_bit_iff [of 0 "fill 2"] by (auto split: if_splits)
qed

lemma sets_one: "hashed_tag demo_sets 1 = fill 129"
  by (simp add: sets_tag)

lemma sets_two: "hashed_tag demo_sets 2 = fill 2"
proof -
  have "(129 * 2 :: u8) = 2" by simp
  then show ?thesis by (simp only: sets_tag)
qed

lemma tested_fills [simp]: "fill 129 \<in> tested_keys demo_sets" "fill 2 \<in> tested_keys demo_sets"
  using tested_tags(1,2) [of demo_sets] unfolding sets_two by (simp_all add: sets_tag)

lemma sorted_singleton: "sorted_wrt (<) xs \<Longrightarrow> set xs = {x} \<Longrightarrow> xs = [x]"
  for xs :: "bytes32 list"
  by (rule strict_sorted_equal) simp_all

text \<open>The proof for the first key, taken for the second.\<close>

lemma sets_bound:
  "collision_free demo_sets (tested \<union> proof_queries demo_sets (fill 2) (leaf_hash demo_sets (fill 2))
     (revmap_prove demo_sets (map_of_keys [fill 129, fill 2]) (fill 129)))"
proof -
  let ?m = "map_of_keys [fill 129, fill 2]" and ?a = "fill 129" and ?b = "fill 2"
  let ?ks = "map_keys ?m" and ?full = "sibling_list demo_sets (map_keys (map_of_keys [fill 129, fill 2])) (fill 129) 0 256"
  have m: "revmap_ok ?m" "set ?ks = {?a, ?b}" "set ?ks \<subseteq> tested_keys demo_sets" by (simp_all add: map_of_keys_ok)
  have sorted: "sorted_wrt (<) ?ks" using m(1) by (simp add: revmap_ok_def)
  have "side (near ?ks ?a e) e (\<not> kbit ?a e) = []" if "1 \<le> e" for e
    using m(2) first_bits that by (auto simp: side_def near_def agree_def filter_empty_conv)
  then have sib: "\<forall>e < 256. 1 \<le> e \<longrightarrow> ?full ! e = map_subtree_root demo_sets [] (Suc e)"
    by (simp add: sibling_list_near)
  have "set (side ?ks 0 False) = {?b}" using m(2) first_bits by (auto simp: side_def)
  then have "side ?ks 0 False = [?b]" using sorted by (intro sorted_singleton) (simp_all add: side_def sorted_wrt_filter)
  then have "?full ! 0 = map_subtree_root demo_sets [?b] 1"
    using sibling_list_near [of 0 demo_sets ?ks ?a] first_bits by simp
  also have "\<dots> = digest_of (subtree_num [?b] 1)" by (rule sets_subtree) (simp_all add: span_def)
  finally have "key_num (?full ! 0) mod band = key_mask [?b]"
    using subtree_num_less(3) [of "[?b]" 1] subtree_num_parts(2) [of "[?b]" 1] by (simp add: key_num_digest)
  then show ?thesis
    by (intro top_apart [OF tested_fills(2) sib _ revmap_prove_full(2) [OF m(1) universe_map [OF tested_apart m(1,3)]]]) simp
qed

text \<open>A digest of small number starts with a zero byte, and a large one when that is flipped.\<close>

lemma flipped_num:
  assumes "key_num d < 256 ^ 31"
  shows "255 * 256 ^ 31 \<le> key_num (flip_first d)"
proof -
  obtain b bs where d: "array_bytes d = b # bs" "length bs = 31"
    using length_array_bytes [of d] by (cases "array_bytes d") auto
  have "key_num d = unat b * 256 ^ 31 + be_value bs" by (simp add: key_num_def d be_value_Cons)
  with assms have "unat b = 0" by (cases "unat b") auto
  then have "b = 0" by (simp add: unat_eq_0)
  then have "array_bytes (flip_first d) = 255 # bs" by (simp add: flip_first_def d array_bytes_mk)
  then show ?thesis by (simp add: key_num_def be_value_Cons d(2))
qed

lemma sets_tampered:
  "collision_free demo_sets (tested \<union> proof_queries demo_sets (fill 129) (leaf_hash demo_sets (fill 129))
     (tamper_proof (revmap_prove demo_sets (map_of_keys [fill 129]) (fill 129))))"
proof -
  let ?m = "map_of_keys [fill 129]" and ?a = "fill 129"
  have m: "revmap_ok ?m" "set (map_keys ?m) = {?a}" "set (map_keys ?m) \<subseteq> tested_keys demo_sets" by (simp_all add: map_of_keys_ok)
  have keys: "map_keys ?m = [?a]" using m(1,2) by (intro sorted_singleton) (simp_all add: revmap_ok_def)
  from expand_tampered [OF m(1) universe_map [OF tested_apart m(1,3)], of ?a] obtain s ss where
    s: "sibling_list demo_sets [?a] ?a 0 256 = s # ss"
    "proof_expand demo_sets (tamper_proof (revmap_prove demo_sets ?m ?a)) = Some (flip_first s # ss)" by (auto simp: keys)
  have "(flip_first s # ss) ! e = sibling_list demo_sets [?a] ?a 0 256 ! e" if "1 \<le> e" for e
    using that by (cases e) (simp_all add: s(1))
  then have sib: "\<forall>e < 256. 1 \<le> e \<longrightarrow> (flip_first s # ss) ! e = map_subtree_root demo_sets [] (Suc e)"
    by (simp add: lone_siblings)
  have "s = map_subtree_root demo_sets [] 1" using lone_siblings [of 0 demo_sets ?a] s(1) by simp
  also have "\<dots> = digest_of (subtree_num [] 1)" by (rule sets_subtree) (simp_all add: span_def)
  finally have "key_num s = band * 255" using subtree_num_less(3) [of "[]" 1] by (simp add: key_num_digest subtree_num_def)
  then have "key_num s < 256 ^ 31" by (simp add: band_def)
  from div_le_mono [OF flipped_num [OF this], of band] have "key_num ((flip_first s # ss) ! 0) div band \<noteq> 255"
    by (simp add: band_def)
  then show ?thesis by (intro top_apart [OF tested_fills(1) sib _ s(2)]) simp
qed

lemma sets_maps_apart: "maps_apart demo_sets"
proof -
  have "fill 200 \<noteq> fill (129 * of_nat t)" if "t < 200" for t
  proof -
    have "(129 * 200 :: u8) = 200" by simp
    with key_index_fill [of 200] have "key_index (fill 200) = 200" by (simp only: unat_numeral) simp
    moreover have "unat (of_nat t :: u8) = t" using that by (simp add: unat_of_nat)
    then have "key_index (fill (129 * of_nat t)) = t" by (simp only: key_index_fill)
    ultimately show ?thesis using that by auto
  qed
  then have "absent_key demo_sets \<notin> hashed_tag demo_sets ` of_nat ` {..<200}" by (auto simp: sets_absent sets_tag)
  then show ?thesis
    using tested_apart sets_bound sets_tampered by (simp add: maps_apart_def sets_one sets_two)
qed

section \<open>The tests of the log-backed map\<close>

lemma sets_foreign: "foreign_key demo_sets 3 4"
  by (simp add: foreign_key_def demo_check_def demo_sign_def fill_def)

text \<open>The forged checkpoint and the genuine one have different roots, and the hash keeps them.\<close>

lemma sets_checkpoint_digest: "sets_hash (checkpoint_bytes c) = mc_map_root c"
proof -
  have dom: "length checkpoint_domain = 32" by (simp add: checkpoint_domain_def str_bytes_def)
  then have len: "length (checkpoint_bytes c) = 104" by (simp add: checkpoint_bytes_def)
  then have "checkpoint_bytes c \<noteq> empty_leaf_domain" "checkpoint_bytes c \<noteq> str_bytes ''definitely-not-in-the-set''"
    by (auto simp: empty_leaf_domain_def str_bytes_def)
  then have "sets_hash (checkpoint_bytes c) = mk_bytes32 (take 32 (drop 40 (checkpoint_bytes c)))" by (simp add: sets_hash_def len)
  also have "\<dots> = mc_map_root c" by (simp add: checkpoint_bytes_def dom)
  finally show ?thesis .
qed

lemma sets_receipt:
  "canonical_bytes demo_sets r =
     array_bytes (chain_digest_of r) @ array_bytes (action_digest r) @ array_bytes (nonce r) @ array_bytes (prev_root r)"
  by (simp add: canonical_bytes_def action_receipt_json_def array_json_def bytes_json_def comp_def)

lemma sets_receipt_leaf: "sets_hash ([leaf_prefix] @ canonical_bytes demo_sets r) = action_digest r"
  by (simp add: sets_receipt leaf_prefix_def sets_hash_def empty_leaf_domain_def str_bytes_def)

lemma sets_checkpoints_apart:
  assumes "inj_on mc_map_root C"
  shows "collision_free demo_sets (leaf_queries ((\<lambda>c. canonical_bytes demo_sets (checkpoint_receipt demo_sets c)) ` C)) \<and>
    inj_on (jcs demo_sets) (action_receipt_json ` checkpoint_receipt demo_sets ` C) \<and> collision_free demo_sets (checkpoint_bytes ` C)"
proof -
  have action: "action_digest (checkpoint_receipt demo_sets c) = mc_map_root c" for c
    by (simp add: checkpoint_receipt_def checkpoint_digest_def sets_checkpoint_digest)
  have same: "c = d" if "c \<in> C" "d \<in> C" "canonical_bytes demo_sets (checkpoint_receipt demo_sets c) = canonical_bytes demo_sets (checkpoint_receipt demo_sets d)" for c d
  proof -
    have "mc_map_root c = mc_map_root d" using that(3) by (simp add: sets_receipt action array_bytes_inject)
    with assms that(1,2) show ?thesis by (simp add: inj_on_eq_iff)
  qed
  have "collision_free demo_sets (leaf_queries ((\<lambda>c. canonical_bytes demo_sets (checkpoint_receipt demo_sets c)) ` C))"
    unfolding collision_free_def leaf_queries_def using assms by (auto intro!: inj_onI simp: sets_receipt_leaf [simplified] action dest: inj_onD)
  moreover have "inj_on (jcs demo_sets) (action_receipt_json ` checkpoint_receipt demo_sets ` C)"
    using same by (auto intro!: inj_onI simp: canonical_bytes_def)
  moreover have "collision_free demo_sets (checkpoint_bytes ` C)"
    unfolding collision_free_def using assms by (auto intro!: inj_onI simp: sets_checkpoint_digest dest: inj_onD)
  ultimately show ?thesis by blast
qed

lemma sets_revlogs_apart: "revlogs_apart demo_sets"
proof -
  let ?m = "map_of_keys [hashed_tag demo_sets 9]"
  have "hashed_tag demo_sets 9 \<in> tested_keys demo_sets" using tested_keysI [of 9 demo_sets] by simp
  then have "revmap_root demo_sets (map_of_keys []) \<noteq> revmap_root demo_sets ?m"
    using map_of_keys_root [OF tested_apart, of "[]" "[hashed_tag demo_sets 9]"] by auto
  then have "inj_on mc_map_root {forged_checkpoint demo_sets, first_checkpoint demo_sets ?m}"
    by (auto simp: forged_checkpoint_def first_checkpoint_def map_of_keys_def)
  from sets_checkpoints_apart [OF this] show ?thesis
    using tested_apart sets_foreign
    by (simp add: revlogs_apart_def Let_def sets_one sets_two ed_good_def demo_check_def demo_sign_def)
qed

end
