(* ===== verification/Revocation_Http.thy ===== *)
theory Revocation_Http
  imports Revocation_Service Http
begin

text \<open>
  The router of \<^verbatim>\<open>services/revocation-log\<close> with its readers and writers, and the client
  of \<^verbatim>\<open>clients/revocation-http\<close> against it: what the service writes, the client reads. The
  clock of a request is an argument.
\<close>

section \<open>Requests and replies\<close>

definition revoke_request_of_json :: "json \<Rightarrow> revoke_request option" where
  "revoke_request_of_json j = do {
     s \<leftarrow> slots [''revocation_id'', ''reason''] j;
     i \<leftarrow> mandatory json_string (s ! 0);
     r \<leftarrow> mandatory json_string (s ! 1);
     Some \<lparr>rr_revocation_id = i, rr_reason = r\<rparr>}"

definition key_query :: "(string \<times> string) list \<Rightarrow> string option" where
  "key_query = query_required Some ''key''"

definition v2_consistency_query :: "(string \<times> string) list \<Rightarrow> (nat \<times> nat) option" where
  "v2_consistency_query kvs = do {
     m \<leftarrow> query_required parse_usize ''first'' kvs;
     n \<leftarrow> query_required parse_usize ''second'' kvs;
     Some (m, n)}"

definition entries_dto_json :: "u64 \<times> (string \<times> string) list \<Rightarrow> json" where
  "entries_dto_json d =
     JObj [(''epoch'', word_json (fst d)),
           (''entries'', list_json (\<lambda>(i, r). JObj [(''revocation_id'', JStr i), (''reason'', JStr r)]) (snd d))]"

definition revocation_keys_json :: "(string \<times> string \<times> string) list \<Rightarrow> json" where
  "revocation_keys_json ks =
     JObj [(''keys'', list_json (\<lambda>(kid, key, alg). JObj [(''kid'', JStr kid), (''public_key'', JStr key), (''alg'', JStr alg)]) ks)]"

definition revocation_error_reply :: "revocation_api_error \<Rightarrow> http_reply" where
  "revocation_error_reply e = (case revocation_error_response e of (status, body) \<Rightarrow> JsonReply status (by_key body))"

fun revocation_reply_of :: "('a \<Rightarrow> http_reply) \<Rightarrow> revocation_api_error + 'a \<Rightarrow> http_reply" where
  "revocation_reply_of f (Inl e) = revocation_error_reply e"
| "revocation_reply_of f (Inr a) = f a"

section \<open>Routes\<close>

datatype revocation_route =
    SnapshotRoute | RevokeRoute | EntriesRoute | V2RevokeRoute | V2CheckpointRoute | V2HeadRoute | V2StatusRoute
  | V2ConsistencyRoute | RevocationKeysRoute

definition revocation_routes :: "(string \<times> string \<times> revocation_route) list" where
  "revocation_routes =
     [(''/revocations/v1/snapshot'', ''GET'', SnapshotRoute),
      (''/revocations/v1/revoke'', ''POST'', RevokeRoute),
      (''/revocations/v1/entries'', ''GET'', EntriesRoute),
      (''/revocations/v2/revoke'', ''POST'', V2RevokeRoute),
      (''/revocations/v2/checkpoint'', ''POST'', V2CheckpointRoute),
      (''/revocations/v2/head'', ''GET'', V2HeadRoute),
      (''/revocations/v2/status'', ''GET'', V2StatusRoute),
      (''/revocations/v2/consistency'', ''GET'', V2ConsistencyRoute),
      (''/.well-known/revocation-keys'', ''GET'', RevocationKeysRoute)]"

fun revocation_serve ::
  "prims \<Rightarrow> (http_request \<Rightarrow> string) \<Rightarrow> u64 \<Rightarrow> revocation_route \<Rightarrow> http_request \<Rightarrow> revocation_service \<Rightarrow>
   (http_reply \<times> revocation_service) option" where
  "revocation_serve P rej now SnapshotRoute q st =
     map_option (\<lambda>sn. (JsonReply 200 (snapshot_json sn), st)) (get_snapshot P st now)"
| "revocation_serve P rej now RevokeRoute q st =
     (case json_body rej revoke_request_of_json q of
        Inl r \<Rightarrow> Some (r, st)
      | Inr req \<Rightarrow>
          map_option (map_prod (revocation_reply_of (\<lambda>(status, sn). JsonReply status (snapshot_json sn))) id)
            (handle_revoke P st req now))"
| "revocation_serve P rej now EntriesRoute q st = Some (JsonReply 200 (entries_dto_json (get_entries st)), st)"
| "revocation_serve P rej now V2RevokeRoute q st =
     (case json_body rej revoke_request_of_json q of
        Inl r \<Rightarrow> Some (r, st)
      | Inr req \<Rightarrow> Some (map_prod (revocation_reply_of (\<lambda>status. TextReply status '''')) id (v2_revoke P st req)))"
| "revocation_serve P rej now V2CheckpointRoute q st =
     map_option (map_prod (\<lambda>(status, sth). JsonReply status (sth_json sth)) id) (v2_checkpoint P st)"
| "revocation_serve P rej now V2HeadRoute q st = map_option (map_prod (\<lambda>sth. JsonReply 200 (sth_json sth)) id) (v2_head P st)"
| "revocation_serve P rej now V2StatusRoute q st =
     (case query_string rej key_query q of
        Inl r \<Rightarrow> Some (r, st)
      | Inr key \<Rightarrow>
          map_option (map_prod (revocation_reply_of (\<lambda>pf. JsonReply 200 (log_backed_proof_json pf))) id) (v2_status P st key))"
| "revocation_serve P rej now V2ConsistencyRoute q st =
     (case query_string rej v2_consistency_query q of
        Inl r \<Rightarrow> Some (r, st)
      | Inr (m, n) \<Rightarrow>
          map_option (map_prod (revocation_reply_of (\<lambda>pf. JsonReply 200 (consistency_proof_json pf))) id)
            (v2_consistency P st m n))"
| "revocation_serve P rej now RevocationKeysRoute q st =
     Some (JsonReply 200 (revocation_keys_json (get_revocation_keys P st)), st)"

definition revocation_app ::
  "prims \<Rightarrow> (http_request \<Rightarrow> string) \<Rightarrow> u64 \<Rightarrow> http_request \<Rightarrow> revocation_service \<Rightarrow>
   (http_reply \<times> revocation_service) option" where
  "revocation_app P rej now = routed revocation_routes (revocation_serve P rej now)"

text \<open>Requests in order, each with the clock it reads.\<close>

fun revocation_session ::
  "prims \<Rightarrow> (http_request \<Rightarrow> string) \<Rightarrow> revocation_service \<Rightarrow> (http_request \<times> u64) list \<Rightarrow>
   (http_reply list \<times> revocation_service) option" where
  "revocation_session P rej st [] = Some ([], st)"
| "revocation_session P rej st ((q, now) # qs) = do {
     (r, st1) \<leftarrow> revocation_app P rej now q st;
     (rs, st2) \<leftarrow> revocation_session P rej st1 qs;
     Some (r # rs, st2)}"

text \<open>What the HTTP library hands the client of a reply: the status, and what reading the body as a snapshot gives.\<close>

definition snapshot_response :: "(http_reply \<Rightarrow> string) \<Rightarrow> http_reply \<Rightarrow> nat \<times> (string + snapshot)" where
  "snapshot_response malformed r =
     (reply_status r,
      case r of JsonReply s j \<Rightarrow> ok_or (snapshot_of_json j) (malformed r) | TextReply s t \<Rightarrow> Inl (malformed r))"

section \<open>Every request is answered\<close>

lemma revoke_request_reads:
  "revoke_request_of_json (JObj [(''revocation_id'', JStr i), (''reason'', JStr r)]) =
     Some \<lparr>rr_revocation_id = i, rr_reason = r\<rparr>"
  by (simp add: revoke_request_of_json_def json_field_def)

lemma v2_checkpoint_returns:
  assumes "rs_ok P st h"
  shows "\<exists>x st'. v2_checkpoint P st = Some (x, st')"
  using assms lb_inv_publish [of P "rs_logbacked st" h "rs_signer st"] operated_inv [of P "rs_logbacked st" h]
  by (auto simp: rs_ok_def v2_checkpoint_def)

lemma v2_head_returns:
  assumes "rs_ok P st h"
  shows "\<exists>x st'. v2_head P st = Some (x, st')"
proof -
  from assms have inv: "lb_inv P (rs_logbacked st) h" and sg: "signer_ok P (rs_signer st)"
    using operated_inv by (auto simp: rs_ok_def)
  then have "witness_ok P (lb_witness (rs_logbacked st))" by (simp add: lb_inv_def)
  from any_signer.signed_head_ok [OF sg this] show ?thesis by (auto simp: v2_head_def lb_signed_head_def)
qed

lemma v2_status_returns:
  assumes "rs_ok P st h"
  shows "\<exists>x st'. v2_status P st key = Some (x, st')"
proof -
  from assms have inv: "lb_inv P (rs_logbacked st) h" and sg: "signer_ok P (rs_signer st)"
    using operated_inv by (auto simp: rs_ok_def)
  then have ok: "witness_ok P (lb_witness (rs_logbacked st))" by (simp add: lb_inv_def)
  have proves: "\<exists>y. lb_prove P (rs_logbacked st) k (rs_signer st) = Some y" for k
  proof (cases "lb_latest (rs_logbacked st)")
    case None
    then show ?thesis by (simp add: lb_prove_def)
  next
    case (Some ci)
    obtain w where w: "prove_inclusion P (lb_witness (rs_logbacked st)) (snd ci) = Some (fst w, snd w)" "witness_ok P (snd w)"
      using prove_inclusion_ok [OF ok, of "snd ci"] by auto
    from any_signer.signed_head_ok [OF sg w(2)] w(1) Some show ?thesis
      by (cases ci; cases "fst w") (auto simp: lb_prove_def)
  qed
  show ?thesis
  proof (cases "hash_from_hex P key")
    case (Inr k)
    from proves [of k] obtain pf lb where "lb_prove P (rs_logbacked st) k (rs_signer st) = Some (pf, lb)" by auto
    with Inr show ?thesis by (simp add: v2_status_def)
  qed (simp add: v2_status_def)
qed

lemma handle_revoke_returns:
  assumes ok: "rs_ok P st h"
  shows "(\<exists>e. handle_revoke P st q now = Some (Inl e, st)) \<or>
    (\<exists>sn st'. handle_revoke P st q now = Some (Inr (201, sn), st') \<and> published_at sn = now)"
proof (cases "revocation_id_from_hex P (rr_revocation_id q)")
  case (Inl e)
  then show ?thesis by (simp add: handle_revoke_def)
next
  case (Inr i)
  from handle_revoke_ok [OF ok Inr, of now] show ?thesis by blast
qed

text \<open>A step of the service, or a refusal that leaves it alone.\<close>

definition step_or_stay :: "prims \<Rightarrow> revocation_service \<Rightarrow> snapshot option \<Rightarrow> revocation_service \<Rightarrow> bool" where
  "step_or_stay P st sn st' \<longleftrightarrow> rs_step P st sn st' \<or> (sn = None \<and> st' = st)"

lemma step_or_stay_ok:
  assumes "step_or_stay P st sn st'" and "rs_ok P st h"
  shows "\<exists>xs. rs_ok P st' (h @ xs) \<and> grew st st' \<and> (\<forall>s. sn = Some s \<longrightarrow> serves P st' s)"
proof (cases "rs_step P st sn st'")
  case True
  from rs_step_ok [OF this assms(2)] show ?thesis .
next
  case False
  with assms show ?thesis by (intro exI [of _ "[]"]) (simp add: step_or_stay_def)
qed

lemma revocation_refuses: "400 \<le> reply_status (revocation_error_reply e)"
  by (cases e) (simp_all add: revocation_error_reply_def)

lemma revocation_serve_answers:
  assumes ok: "rs_ok P st h" and ext: "refuses_as_client_error q"
  shows "\<exists>reply st' out. revocation_serve P rej now rt q st = Some (reply, st') \<and> step_or_stay P st out st' \<and>
    (case out of
       None \<Rightarrow> rt = SnapshotRoute \<or> rt = RevokeRoute \<longrightarrow> 400 \<le> reply_status reply
     | Some sn \<Rightarrow> (reply = JsonReply 200 (snapshot_json sn) \<or> reply = JsonReply 201 (snapshot_json sn)) \<and> published_at sn = now)"
proof (cases rt)
  case SnapshotRoute
  from current_snapshot_ok [OF ok, of now] obtain sn where
    sn: "get_snapshot P st now = Some sn" "published_at sn = now" by (auto simp: get_snapshot_def)
  have "step_or_stay P st (Some sn) st" using rs_step.snapshot_read [OF sn(1)] by (simp add: step_or_stay_def)
  with sn SnapshotRoute show ?thesis
    by (intro exI [of _ "JsonReply 200 (snapshot_json sn)"] exI [of _ st] exI [of _ "Some sn"]) simp
next
  case RevokeRoute
  show ?thesis
  proof (cases "json_body rej revoke_request_of_json q")
    case (Inl r)
    with json_body_refusal [OF ext Inl] RevokeRoute show ?thesis
      by (intro exI [of _ r] exI [of _ st] exI [of _ None]) (simp add: step_or_stay_def)
  next
    case (Inr req)
    from handle_revoke_returns [OF ok, of req now] show ?thesis
    proof
      assume "\<exists>e. handle_revoke P st req now = Some (Inl e, st)"
      then obtain e where "handle_revoke P st req now = Some (Inl e, st)" ..
      with Inr RevokeRoute revocation_refuses [of e] show ?thesis
        by (intro exI [of _ "revocation_error_reply e"] exI [of _ st] exI [of _ None]) (simp add: step_or_stay_def)
    next
      assume "\<exists>sn st'. handle_revoke P st req now = Some (Inr (201, sn), st') \<and> published_at sn = now"
      then obtain sn st' where s: "handle_revoke P st req now = Some (Inr (201, sn), st')" "published_at sn = now" by blast
      have "step_or_stay P st (Some sn) st'" using rs_step.revoked [OF s(1)] by (simp add: step_or_stay_def)
      with Inr RevokeRoute s show ?thesis
        by (intro exI [of _ "JsonReply 201 (snapshot_json sn)"] exI [of _ st'] exI [of _ "Some sn"]) simp
    qed
  qed
next
  case EntriesRoute
  then show ?thesis by (intro exI [of _ None] exI conjI) (auto simp: step_or_stay_def)
next
  case V2RevokeRoute
  show ?thesis
  proof (cases "json_body rej revoke_request_of_json q")
    case (Inl r)
    with V2RevokeRoute show ?thesis by (auto simp: step_or_stay_def intro!: exI [of _ None])
  next
    case (Inr req)
    obtain res st' where "v2_revoke P st req = (res, st')" by fastforce
    with Inr V2RevokeRoute rs_step.map_revoked [OF this] show ?thesis
      by (auto simp: step_or_stay_def intro!: exI [of _ None])
  qed
next
  case V2CheckpointRoute
  from v2_checkpoint_returns [OF ok] obtain x st' where "v2_checkpoint P st = Some (x, st')" by blast
  with V2CheckpointRoute rs_step.checkpointed [OF this] show ?thesis
    by (auto simp: step_or_stay_def intro!: exI [of _ None])
next
  case V2HeadRoute
  from v2_head_returns [OF ok] obtain x st' where "v2_head P st = Some (x, st')" by blast
  with V2HeadRoute rs_step.head_read [OF this] show ?thesis
    by (auto simp: step_or_stay_def intro!: exI [of _ None])
next
  case V2StatusRoute
  show ?thesis
  proof (cases "query_string rej key_query q")
    case (Inl r)
    with V2StatusRoute show ?thesis by (auto simp: step_or_stay_def intro!: exI [of _ None])
  next
    case (Inr key)
    from v2_status_returns [OF ok, of key] obtain x st' where "v2_status P st key = Some (x, st')" by blast
    with Inr V2StatusRoute rs_step.status_read [OF this] show ?thesis
      by (auto simp: step_or_stay_def intro!: exI [of _ None])
  qed
next
  case V2ConsistencyRoute
  show ?thesis
  proof (cases "query_string rej v2_consistency_query q")
    case (Inl r)
    with V2ConsistencyRoute show ?thesis by (auto simp: step_or_stay_def intro!: exI [of _ None])
  next
    case (Inr mn)
    obtain m n where mn: "mn = (m, n)" by (cases mn)
    from v2_consistency_iff [OF ok, of m n] obtain x st' where "v2_consistency P st m n = Some (x, st')" by blast
    with Inr mn V2ConsistencyRoute rs_step.consistency_read [OF this] show ?thesis
      by (auto simp: step_or_stay_def intro!: exI [of _ None])
  qed
next
  case RevocationKeysRoute
  then show ?thesis by (auto simp: step_or_stay_def intro!: exI [of _ None])
qed

lemma revocation_app_answers:
  assumes ok: "rs_ok P st h" and ext: "refuses_as_client_error q"
  shows "\<exists>reply st' out. revocation_app P rej now q st = Some (reply, st') \<and> step_or_stay P st out st'"
proof (cases "route revocation_routes q")
  case (Inl r)
  then show ?thesis by (auto simp: revocation_app_def routed_def step_or_stay_def)
next
  case (Inr hb)
  with revocation_serve_answers [OF ok ext, of rej now "fst hb"] show ?thesis
    by (cases hb) (fastforce simp: revocation_app_def routed_def)
qed

lemma revocation_session_answers:
  assumes "rs_ok P st h" and "\<forall>q \<in> fst ` set qs. refuses_as_client_error q"
  shows "\<exists>replies st' xs. revocation_session P rej st qs = Some (replies, st') \<and> length replies = length qs \<and>
    rs_ok P st' (h @ xs) \<and> grew st st'"
  using assms
proof (induction qs arbitrary: st h)
  case Nil
  then show ?case by (intro exI [of _ "[]"] exI [of _ st]) simp
next
  case (Cons p qs)
  obtain q now where p: "p = (q, now)" by (cases p)
  from Cons.prems(2) have ext: "refuses_as_client_error q" by (simp add: p)
  from revocation_app_answers [OF Cons.prems(1) ext, of rej now] obtain reply st1 out where
    1: "revocation_app P rej now q st = Some (reply, st1)" "step_or_stay P st out st1" by blast
  from step_or_stay_ok [OF 1(2) Cons.prems(1)] obtain xs where 2: "rs_ok P st1 (h @ xs)" "grew st st1" by blast
  from Cons.IH [OF 2(1)] Cons.prems(2) obtain replies st' ys where
    "revocation_session P rej st1 qs = Some (replies, st')" "length replies = length qs" "rs_ok P st' ((h @ xs) @ ys)" "grew st1 st'"
    by auto
  with 1 2 show ?case
    by (intro exI [of _ "reply # replies"] exI [of _ st'] exI [of _ "xs @ ys"]) (auto simp: p intro: grew_trans)
qed

section \<open>The service as a set of ids\<close>

text \<open>The specification of the first version: what a request revokes.\<close>

definition revokes :: "prims \<Rightarrow> http_request \<Rightarrow> revocation_id option" where
  "revokes P q =
     (if hq_method q = ''POST'' \<and> hq_path q = ''/revocations/v1/revoke'' then
        (case hq_json q of
           Inl _ \<Rightarrow> None
         | Inr j \<Rightarrow> do {
             req \<leftarrow> revoke_request_of_json j;
             case revocation_id_from_hex P (rr_revocation_id req) of Inl _ \<Rightarrow> None | Inr i \<Rightarrow> Some i})
      else None)"

lemma revokes_body:
  "revokes P q = Some i \<longleftrightarrow> hq_method q = ''POST'' \<and> hq_path q = ''/revocations/v1/revoke'' \<and>
     (\<exists>req. json_body rej revoke_request_of_json q = Inr req \<and> revocation_id_from_hex P (rr_revocation_id req) = Inr i)"
proof (cases "hq_json q")
  case (Inr j)
  then show ?thesis
    by (cases "revoke_request_of_json j") (auto simp: revokes_def json_body_def ok_or_def split: sum.splits)
qed (auto simp: revokes_def json_body_def split: prod.splits)

lemma revocation_serve_log:
  assumes "revocation_serve P rej now rt q st = Some (reply, st')" and "rt \<noteq> RevokeRoute"
  shows "rs_log st' = rs_log st"
  using assms
  by (cases rt)
    (auto simp: v2_revoke_def v2_checkpoint_def v2_head_def v2_status_def v2_consistency_def
      split: sum.splits option.splits prod.splits)

lemma handle_revoke_set:
  assumes "handle_revoke P st req now = Some (res, st')"
  shows "rl_revoked (rs_log st') = rl_revoked (rs_log st) \<union>
    (case revocation_id_from_hex P (rr_revocation_id req) of Inl _ \<Rightarrow> {} | Inr i \<Rightarrow> {i})"
  using assms by (auto simp: handle_revoke_def Let_def split: sum.splits option.splits)

lemma revocation_app_set:
  assumes "revocation_app P rej now q st = Some (reply, st')"
  shows "rl_revoked (rs_log st') = rl_revoked (rs_log st) \<union> set_option (revokes P q)"
proof (cases "hq_method q = ''POST'' \<and> hq_path q = ''/revocations/v1/revoke''")
  case True
  then have serve: "revocation_serve P rej now RevokeRoute q st = Some (reply, st')"
    using assms by (auto simp: revocation_app_def routed_def route_def revocation_routes_def)
  show ?thesis
  proof (cases "json_body rej revoke_request_of_json q")
    case (Inl r)
    then have "revokes P q = None" using revokes_body [of P q _ rej] by (cases "revokes P q") auto
    with Inl serve show ?thesis by simp
  next
    case (Inr req)
    with serve obtain res where "handle_revoke P st req now = Some (res, st')" by auto
    from handle_revoke_set [OF this] show ?thesis
      using revokes_body [of P q _ rej] True Inr
      by (cases "revocation_id_from_hex P (rr_revocation_id req)"; cases "revokes P q") auto
  qed
next
  case False
  then have none: "revokes P q = None" by (auto simp: revokes_def)
  show ?thesis
  proof (cases "route revocation_routes q")
    case (Inl r)
    with assms none show ?thesis by (simp add: revocation_app_def routed_def)
  next
    case (Inr hb)
    obtain h b where hb: "hb = (h, b)" by (cases hb)
    have "h \<noteq> RevokeRoute"
      using False Inr by (auto simp: hb route_def revocation_routes_def split: option.splits if_splits)
    moreover obtain reply' where "revocation_serve P rej now h q st = Some (reply', st')"
      using assms Inr by (auto simp: hb revocation_app_def routed_def)
    ultimately show ?thesis using revocation_serve_log none by simp
  qed
qed

lemma revocation_session_set:
  "revocation_session P rej st qs = Some (replies, st') \<Longrightarrow>
     rl_revoked (rs_log st') = rl_revoked (rs_log st) \<union> {i. \<exists>q \<in> set qs. revokes P (fst q) = Some i}"
proof (induction qs arbitrary: st replies)
  case Nil
  then show ?case by simp
next
  case (Cons p qs)
  obtain q now where p: "p = (q, now)" by (cases p)
  from Cons.prems obtain reply st1 rs where
    1: "revocation_app P rej now q st = Some (reply, st1)" "revocation_session P rej st1 qs = Some (rs, st')"
    by (auto simp: p bind_eq_Some_conv)
  from Cons.IH [OF 1(2)] revocation_app_set [OF 1(1)] show ?case
    by (cases "revokes P q") (auto simp: p)
qed

section \<open>The client over HTTP\<close>

lemma revocation_client:
  "revocation_app P rej now (get_request ''/revocations/v1/snapshot'' []) st =
     map_option (\<lambda>sn. (JsonReply 200 (snapshot_json sn), st)) (get_snapshot P st now)"
  "revocation_app P rej now (post_request ''/revocations/v1/revoke'' (JObj [(''revocation_id'', JStr i), (''reason'', JStr r)])) st =
     map_option (map_prod (revocation_reply_of (\<lambda>(status, sn). JsonReply status (snapshot_json sn))) id)
       (handle_revoke P st \<lparr>rr_revocation_id = i, rr_reason = r\<rparr> now)"
  "revocation_app P rej now (get_request ''/revocations/v2/status'' [(''key'', k)]) st =
     map_option (map_prod (revocation_reply_of (\<lambda>pf. JsonReply 200 (log_backed_proof_json pf))) id) (v2_status P st k)"
  by (simp_all add: revocation_app_def routed_client revocation_routes_def client_requests revoke_request_reads
    key_query_def query_required_def query_field_def)

lemma fetches_served:
  assumes ok: "rs_ok P st h" and client: "operator_key c = rs_key st" "last_seen_epoch c \<le> rl_epoch (rs_log st)"
    and fresh: "unat now - unat published \<le> unat (max_staleness c)"
  shows "\<exists>reply. revocation_app P rej published (get_request ''/revocations/v1/snapshot'' []) st = Some (reply, st) \<and>
    snapshot_is_revoked P c (http_fetch (\<lambda>_ _. Inr (snapshot_response malformed reply)) src) now i =
      (Inr (if i \<in> rl_revoked (rs_log st) then Revoked ''listed in the signed revocation snapshot'' else Live),
       c\<lparr>last_seen_epoch := rl_epoch (rs_log st)\<rparr>)"
proof -
  from current_snapshot_ok [OF ok, of published] obtain sn where
    sn: "get_snapshot P st published = Some sn" "sn_revoked sn = rl_revoked (rs_log st)" by (auto simp: get_snapshot_def)
  have "finite (sn_revoked sn)" using ok sn(2) by (simp add: rs_ok_def rl_ok_def)
  then have "snapshot_response malformed (JsonReply 200 (snapshot_json sn)) = (200, Inr sn)"
    by (simp add: snapshot_response_def snapshot_form.dec_enc)
  with client_reads_service [OF ok sn(1) _ client fresh, of "\<lambda>_ _. Inr (snapshot_response malformed (JsonReply 200 (snapshot_json sn)))" src i]
  show ?thesis
    by (intro exI [of _ "JsonReply 200 (snapshot_json sn)"]) (simp add: revocation_client sn(1))
qed

text \<open>
  What a client reads over HTTP is the specification: an id is revoked exactly when it was
  before or one of the requests since revoked it.
\<close>

lemma client_reads_requests:
  assumes ok: "rs_ok P st h" and ext: "\<forall>q \<in> fst ` set qs. refuses_as_client_error q"
    and client: "operator_key c = rs_key st" and fresh: "unat now - unat published \<le> unat (max_staleness c)"
  shows "\<exists>replies st'. revocation_session P rej st qs = Some (replies, st') \<and> length replies = length qs \<and>
    (last_seen_epoch c \<le> rl_epoch (rs_log st') \<longrightarrow>
      (\<exists>reply. revocation_app P rej published (get_request ''/revocations/v1/snapshot'' []) st' = Some (reply, st') \<and>
        snapshot_is_revoked P c (http_fetch (\<lambda>_ _. Inr (snapshot_response malformed reply)) src) now i =
          (Inr (if i \<in> rl_revoked (rs_log st) \<or> (\<exists>q \<in> set qs. revokes P (fst q) = Some i)
                then Revoked ''listed in the signed revocation snapshot'' else Live),
           c\<lparr>last_seen_epoch := rl_epoch (rs_log st')\<rparr>)))"
proof -
  from revocation_session_answers [OF ok ext, of rej] obtain replies st' xs where
    s: "revocation_session P rej st qs = Some (replies, st')" "length replies = length qs" "rs_ok P st' (h @ xs)" "grew st st'"
    by blast
  have "operator_key c = rs_key st'" using s(4) client by (simp add: grew_def)
  moreover have "i \<in> rl_revoked (rs_log st') \<longleftrightarrow> i \<in> rl_revoked (rs_log st) \<or> (\<exists>q \<in> set qs. revokes P (fst q) = Some i)"
    using revocation_session_set [OF s(1)] by blast
  ultimately show ?thesis
    using fetches_served [OF s(3) _ _ fresh, of rej malformed src i] s(1,2)
    by (intro exI [of _ replies] exI [of _ st']) simp
qed

lemma v2_status_sizes:
  assumes ok: "rs_ok P st h" and s: "v2_status P st q = Some (Inr pf, st')"
  shows "leaf_index (lp_inclusion pf) < length h \<and> tree_size (lp_inclusion pf) = length h \<and> sth_size (lp_sth pf) = length h"
proof -
  let ?lb = "rs_logbacked st"
  from ok have inv: "lb_inv P ?lb h" and sg: "signer_ok P (rs_signer st)"
    using operated_inv by (auto simp: rs_ok_def)
  then have w: "witness_ok P (lb_witness ?lb)" "leaf_hashes (lb_witness ?lb) = history_leaves P h" by (simp_all add: lb_inv_def)
  from s obtain k lb where p: "lb_prove P ?lb k (rs_signer st) = Some (Some pf, lb)"
    by (auto simp: v2_status_def ok_or_def split: sum.splits option.splits)
  then obtain c i where l: "lb_latest ?lb = Some (c, i)" by (auto simp: lb_prove_def split: option.splits)
  obtain w1 where w1: "prove_inclusion P (lb_witness ?lb) i = Some (if i < length h
      then Some \<lparr>leaf_index = i, tree_size = length h, path = naive_path P (history_leaves P h) i\<rparr> else None, w1)"
      "witness_ok P w1" "leaf_hashes w1 = history_leaves P h"
    using prove_inclusion_ok [OF w(1), of i] w(2) by (auto simp: history_leaves_def)
  from any_signer.signed_head_ok [OF sg w1(2)] obtain sth w2 where
    h: "signed_head P w1 (rs_signer st) = Some (sth, w2)" "head_of P (leaf_hashes w1) sth" by blast
  from p l w1 h show ?thesis
    by (auto simp: lb_prove_def head_of_def history_leaves_def split: if_splits)
qed

text \<open>
  A status proof, read back from the JSON of the reply, decides the key against the
  operator's key, once a checkpoint covers the map.
\<close>

lemma status_proof_over_http:
  assumes ok: "rs_ok P st h" and key: "hash_from_hex P q = Inr k" and small: "length h < 2 ^ 64"
    and current: "h \<noteq> []" "revmap_root P (lb_map (rs_logbacked st)) = mc_map_root (fst (last h))"
    and apart: "map_apart P (lb_map (rs_logbacked st)) X"
  shows "\<exists>body pf st'. revocation_app P rej now (get_request ''/revocations/v2/status'' [(''key'', q)]) st = Some (JsonReply 200 body, st') \<and>
    log_backed_proof_of_json body = Some pf \<and> rs_ok P st' h \<and>
    (if k \<in> set (map_keys (lb_map (rs_logbacked st))) then verify_revoked P pf k (rs_key st)
     else verify_not_revoked P pf k (rs_key st))"
proof -
  from v2_status_covered [OF ok key _ current apart] small obtain pf st' where
    p: "v2_status P st q = Some (Inr pf, st')" "rs_ok P st' h"
    and v: "if k \<in> set (map_keys (lb_map (rs_logbacked st))) then verify_revoked P pf k (rs_key st)
     else verify_not_revoked P pf k (rs_key st)" by auto
  have "proof_fits (lp_inclusion pf) \<and> sth_size (lp_sth pf) < 2 ^ 64"
    using v2_status_sizes [OF ok p(1)] small by (simp add: proof_fits_def)
  then have "log_backed_proof_of_json (log_backed_proof_json pf) = Some pf" by (rule log_backed_proof_form.dec_enc)
  with p v show ?thesis
    by (intro exI [of _ "log_backed_proof_json pf"] exI [of _ pf] exI [of _ st']) (simp add: revocation_client)
qed

end
