(* ===== verification/Revocation_Service_Tests.thy ===== *)
theory Revocation_Service_Tests
  imports Revocation_Http Revocation_Tests Log_Service_Tests Map_Tests
begin

text \<open>
  The tests of \<^verbatim>\<open>services/revocation-log\<close> and of \<^verbatim>\<open>clients/revocation-http\<close> (their modules
  \<^verbatim>\<open>tests\<close>): sessions with the router, and a client that fetches what the service serves.
  \<open>None\<close> is a failed \<^verbatim>\<open>unwrap\<close> or assertion, or a panic of the service. The clock of a session
  stands still; the address of a socket and the text of a reader's error are arguments.
\<close>

section \<open>Requests\<close>

definition state_at :: "prims \<Rightarrow> revocation_service" where
  "state_at P = revocation_service_new (ed25519_from_seed P (fill 21))"

definition rev_id :: "prims \<Rightarrow> u8 \<Rightarrow> revocation_id" where
  "rev_id P tag = revocation_id_from_signature P \<lparr>sig_algorithm = Ed25519, sig_bytes = replicate 64 tag\<rparr>"

definition revocation_request ::
  "prims \<Rightarrow> (http_request \<Rightarrow> string) \<Rightarrow> u64 \<Rightarrow> string \<Rightarrow> string \<Rightarrow> (string \<times> string) list \<Rightarrow> json \<Rightarrow> revocation_service \<Rightarrow>
   (nat \<times> json \<times> revocation_service) option" where
  "revocation_request P rej now m uri kvs body st = do {
     (reply, st1) \<leftarrow> revocation_app P rej now \<lparr>hq_method = m, hq_path = uri, hq_query = kvs, hq_json = Inr body\<rparr> st;
     v \<leftarrow> reply_value P reply;
     Some (reply_status reply, v, st1)}"

definition revoke_json :: "string \<Rightarrow> string \<Rightarrow> json" where
  "revoke_json i reason = JObj [(''revocation_id'', JStr i), (''reason'', JStr reason)]"

definition v2_key :: "prims \<Rightarrow> u8 \<Rightarrow> bytes32 \<times> string" where
  "v2_key P tag = (let k = fill tag in (k, hex_encode P (array_bytes k)))"

section \<open>The first version\<close>

definition test_empty_log_serves_epoch_zero :: "prims \<Rightarrow> (http_request \<Rightarrow> string) \<Rightarrow> unit option" where
  "test_empty_log_serves_epoch_zero P rej = do {
     let st = state_at P;
     (status, body, st) \<leftarrow> revocation_request P rej 1000 ''GET'' ''/revocations/v1/snapshot'' [] JNull st;
     asserts (status = 200);
     snap \<leftarrow> snapshot_of_json body;
     asserts (sn_epoch snap = 0);
     asserts (sn_revoked snap = {});
     asserts (snapshot_verify_signature P snap (rs_key st))}"

definition test_revoke_raises_epoch :: "prims \<Rightarrow> (http_request \<Rightarrow> string) \<Rightarrow> unit option" where
  "test_revoke_raises_epoch P rej = do {
     let st = state_at P;
     let i = rev_id P 7;
     (status, body, st) \<leftarrow> revocation_request P rej 2000 ''POST'' ''/revocations/v1/revoke'' []
       (revoke_json (revocation_id_display i) ''key leaked'') st;
     asserts (status = 201);
     snap \<leftarrow> snapshot_of_json body;
     asserts (sn_epoch snap = 1);
     asserts (i \<in> sn_revoked snap);
     asserts (snapshot_verify_signature P snap (rs_key st));
     (_, body2, st) \<leftarrow> revocation_request P rej 2000 ''POST'' ''/revocations/v1/revoke'' []
       (revoke_json (revocation_id_display i) ''still leaked'') st;
     snap2 \<leftarrow> snapshot_of_json body2;
     asserts (sn_epoch snap2 = 1)}"

definition test_malformed_id_is_rejected :: "prims \<Rightarrow> (http_request \<Rightarrow> string) \<Rightarrow> unit option" where
  "test_malformed_id_is_rejected P rej = do {
     (status, _, _) \<leftarrow> revocation_request P rej 1000 ''POST'' ''/revocations/v1/revoke'' [] (revoke_json ''not-hex'' ''x'') (state_at P);
     asserts (status = 400)}"

text \<open>
  The socket: a request of the client's library for the bound address is a request to the
  application, and no connection is there for another address.
\<close>

definition bound_socket ::
  "prims \<Rightarrow> (http_request \<Rightarrow> string) \<Rightarrow> u64 \<Rightarrow> (http_reply \<Rightarrow> string) \<Rightarrow> string \<Rightarrow> revocation_service \<Rightarrow>
   string \<Rightarrow> u64 \<Rightarrow> string + (nat \<times> (string + snapshot))" where
  "bound_socket P rej now malformed addr st url timeout =
     (if url = ''http://'' @ addr @ ''/revocations/v1/snapshot'' then
        (case revocation_app P rej now (get_request ''/revocations/v1/snapshot'' []) st of
           None \<Rightarrow> Inl ''connection closed''
         | Some (reply, _) \<Rightarrow> Inr (snapshot_response malformed reply))
      else Inl ''connection refused'')"

definition test_publisher_to_transport_to_checker ::
  "prims \<Rightarrow> (http_request \<Rightarrow> string) \<Rightarrow> (http_reply \<Rightarrow> string) \<Rightarrow> string \<Rightarrow> unit option" where
  "test_publisher_to_transport_to_checker P rej malformed addr = do {
     let st = state_at P;
     let revoked = rev_id P 3;
     let live = rev_id P 4;
     (_, _, st) \<leftarrow> revocation_request P rej 5000 ''POST'' ''/revocations/v1/revoke'' []
       (revoke_json (revocation_id_display revoked) ''compromised'') st;
     let get = bound_socket P rej 5000 malformed addr st;
     let source = http_source_new (''http://'' @ addr @ ''/revocations/v1/snapshot'');
     let checker = snapshot_checker_new (rs_key st) 3600;
     let (r1, checker) = snapshot_is_revoked P checker (http_fetch get source) 5050 revoked;
     revoked_status \<leftarrow> unwrap r1;
     let (r2, checker) = snapshot_is_revoked P checker (http_fetch get source) 5050 live;
     live_status \<leftarrow> unwrap r2;
     asserts (case revoked_status of Revoked _ \<Rightarrow> True | _ \<Rightarrow> False);
     asserts (live_status = Live)}"

section \<open>The second version\<close>

definition test_v2_status_proof_verifies_offline :: "prims \<Rightarrow> (http_request \<Rightarrow> string) \<Rightarrow> unit option" where
  "test_v2_status_proof_verifies_offline P rej = do {
     let st = state_at P;
     let (revoked_bytes, revoked_hex) = v2_key P 3;
     let (live_bytes, live_hex) = v2_key P 4;
     (rs, _, st) \<leftarrow> revocation_request P rej 5000 ''POST'' ''/revocations/v2/revoke'' [] (revoke_json revoked_hex ''leaked'') st;
     asserts (rs = 201);
     (cs, _, st) \<leftarrow> revocation_request P rej 5000 ''POST'' ''/revocations/v2/checkpoint'' [] JNull st;
     asserts (cs = 201);
     (status, body, st) \<leftarrow> revocation_request P rej 5000 ''GET'' ''/revocations/v2/status'' [(''key'', live_hex)] JNull st;
     asserts (status = 200);
     pf \<leftarrow> log_backed_proof_of_json body;
     asserts (verify_not_revoked P pf live_bytes (rs_key st));
     asserts (\<not> verify_revoked P pf live_bytes (rs_key st));
     (_, rbody, st) \<leftarrow> revocation_request P rej 5000 ''GET'' ''/revocations/v2/status'' [(''key'', revoked_hex)] JNull st;
     rpf \<leftarrow> log_backed_proof_of_json rbody;
     asserts (verify_revoked P rpf revoked_bytes (rs_key st));
     asserts (\<not> verify_not_revoked P rpf revoked_bytes (rs_key st))}"

definition test_v2_status_before_checkpoint_is_409 :: "prims \<Rightarrow> (http_request \<Rightarrow> string) \<Rightarrow> unit option" where
  "test_v2_status_before_checkpoint_is_409 P rej = do {
     let (_, hex_key) = v2_key P 1;
     (status, _, _) \<leftarrow> revocation_request P rej 1000 ''GET'' ''/revocations/v2/status'' [(''key'', hex_key)] JNull (state_at P);
     asserts (status = 409)}"

definition test_v2_consistency_tracks_checkpoints :: "prims \<Rightarrow> (http_request \<Rightarrow> string) \<Rightarrow> unit option" where
  "test_v2_consistency_tracks_checkpoints P rej = do {
     let st = state_at P;
     (_, b0, st) \<leftarrow> revocation_request P rej 2000 ''POST'' ''/revocations/v2/checkpoint'' [] JNull st;
     sth0 \<leftarrow> sth_of_json b0;
     let (_, hex_key) = v2_key P 9;
     (_, _, st) \<leftarrow> revocation_request P rej 2000 ''POST'' ''/revocations/v2/revoke'' [] (revoke_json hex_key ''x'') st;
     (_, b1, st) \<leftarrow> revocation_request P rej 2000 ''POST'' ''/revocations/v2/checkpoint'' [] JNull st;
     sth1 \<leftarrow> sth_of_json b1;
     asserts (verify_signed_head P sth0 (rs_key st));
     asserts (verify_signed_head P sth1 (rs_key st));
     (status, body, st) \<leftarrow> revocation_request P rej 2000 ''GET'' ''/revocations/v2/consistency''
       [(''first'', decimal (sth_size sth0)), (''second'', decimal (sth_size sth1))] JNull st;
     asserts (status = 200);
     pf \<leftarrow> consistency_proof_of_json body;
     asserts (verify_consistency P (sth_root sth0) (sth_root sth1) pf (sth_size sth0) (sth_size sth1))}"

section \<open>The client\<close>

text \<open>A responder that answers every connection with one snapshot as JSON.\<close>

definition serve_snapshot :: "(http_reply \<Rightarrow> string) \<Rightarrow> snapshot \<Rightarrow> string \<Rightarrow> u64 \<Rightarrow> string + (nat \<times> (string + snapshot))" where
  "serve_snapshot malformed sn url timeout = Inr (snapshot_response malformed (JsonReply 200 (snapshot_json sn)))"

definition test_http_source_feeds_checker :: "prims \<Rightarrow> (http_reply \<Rightarrow> string) \<Rightarrow> string \<Rightarrow> unit option" where
  "test_http_source_feeds_checker P malformed addr = do {
     let op = ed25519_from_seed P (fill 50);
     let revoked = rev_id P 2;
     let live = rev_id P 5;
     snap \<leftarrow> snapshot_sign P op 1 1000 {revoked};
     let get = serve_snapshot malformed snap;
     let url = ''http://'' @ addr @ ''/witness/v1/revocations'';
     let source = with_timeout (http_source_new url) 5;
     fetched \<leftarrow> unwrap (http_fetch get source);
     asserts (sn_epoch fetched = 1);
     asserts (snapshot_verify_signature P fetched (sg_public_key op));
     let checker = snapshot_checker_new (sg_public_key op) 3600;
     let (r1, checker) = snapshot_is_revoked P checker (http_fetch get (http_source_new url)) 1100 revoked;
     status \<leftarrow> unwrap r1;
     asserts (case status of Revoked _ \<Rightarrow> True | _ \<Rightarrow> False);
     let (r2, checker) = snapshot_is_revoked P checker (http_fetch get (http_source_new url)) 1100 live;
     status \<leftarrow> unwrap r2;
     asserts (status = Live)}"

text \<open>Nothing listens: the library returns an error.\<close>

definition test_unreachable_url_fails_closed :: "string \<Rightarrow> unit option" where
  "test_unreachable_url_fails_closed err =
     asserts (\<not> is_ok (http_fetch (\<lambda>_ _. Inl err) (with_timeout (http_source_new ''http://127.0.0.1:1/none'') 1)))"

definition revocation_service_tests ::
  "prims \<Rightarrow> (http_request \<Rightarrow> string) \<Rightarrow> (http_reply \<Rightarrow> string) \<Rightarrow> string \<Rightarrow> unit option list" where
  "revocation_service_tests P rej malformed addr =
     map (\<lambda>test. test P rej)
       [test_empty_log_serves_epoch_zero, test_revoke_raises_epoch, test_malformed_id_is_rejected,
        test_v2_status_proof_verifies_offline, test_v2_status_before_checkpoint_is_409, test_v2_consistency_tracks_checkpoints] @
     [test_publisher_to_transport_to_checker P rej malformed addr, test_http_source_feeds_checker P malformed addr,
      test_unreachable_url_fails_closed ''connection refused'']"

section \<open>What the tests rely on of the codec\<close>

text \<open>
  The documentation of the hex crate: two lower-case digits per byte, read back as they
  were, and nothing of another length read at all.
\<close>

definition hex_codec :: "prims \<Rightarrow> bool" where
  "hex_codec P \<longleftrightarrow>
     (\<forall>bs. hex_encode P bs = concat (map hex_byte bs) \<and> hex_decode P (concat (map hex_byte bs)) = Inr bs) \<and>
     (\<forall>s bs. hex_decode P s = Inr bs \<longrightarrow> length s = 2 * length bs)"

lemma hex_digit_solid: "n < 16 \<Longrightarrow> solid (hex_digit n)"
  by (simp add: hex_digit_def solid_def Let_def)

lemma hex_byte_solid: "solid (hd (hex_byte b))" "solid (last (hex_byte b))" "hex_byte b \<noteq> []"
proof -
  have "unat b < 256" using unsigned_less [of b, where ?'a = nat] by simp
  then have "unat b div 16 < 16" "unat b mod 16 < 16" by simp_all
  then show "solid (hd (hex_byte b))" "solid (last (hex_byte b))" "hex_byte b \<noteq> []"
    by (simp_all add: hex_byte_def hex_digit_solid)
qed

lemma hex_trimmed:
  assumes "bs \<noteq> []"
  shows "str_trim (concat (map hex_byte bs)) = concat (map hex_byte bs)"
proof -
  obtain b cs where b: "bs = b # cs" using assms by (cases bs) auto
  obtain ds d where d: "bs = ds @ [d]" using assms by (cases bs rule: rev_cases) auto
  have "concat (map hex_byte bs) \<noteq> []" "solid (hd (concat (map hex_byte bs)))"
    using hex_byte_solid [of b] by (simp_all add: b hd_append)
  moreover have "solid (last (concat (map hex_byte bs)))" using hex_byte_solid [of d] by (simp add: d)
  ultimately show ?thesis by (rule str_trim_solid)
qed

lemma hex_text_reads: "hex_codec P \<Longrightarrow> bs \<noteq> [] \<Longrightarrow> hex_bytes P (concat (map hex_byte bs)) = Some bs"
  by (simp add: hex_bytes_def hex_trimmed hex_codec_def)

lemma rev_id_bytes: "length (rev_bytes (rev_id P t)) = 32"
  by (simp add: rev_id_def revocation_id_from_signature_def)

lemma rev_id_reads:
  assumes "hex_codec P"
  shows "revocation_id_from_hex P (revocation_id_display (rev_id P t)) = Inr (rev_id P t)"
proof -
  have "rev_bytes (rev_id P t) \<noteq> []" using rev_id_bytes [of P t] by auto
  from hex_text_reads [OF assms this] show ?thesis
    by (simp add: revocation_id_from_hex_def revocation_id_display_def rev_id_bytes)
qed

lemma v2_key_reads:
  assumes "hex_codec P"
  shows "hash_from_hex P (hex_encode P (array_bytes (fill t))) = Inr (fill t)"
proof -
  have "array_bytes (fill t) \<noteq> []" using length_array_bytes [of "fill t"] by (metis list.size(3) zero_neq_numeral)
  from hex_text_reads [OF assms this] assms show ?thesis
    by (simp add: hash_from_hex_def hex_codec_def try_bytes32_def)
qed

lemma v2_key_fill: "v2_key P t = (fill t, hex_encode P (array_bytes (fill t)))"
  by (simp add: v2_key_def Let_def)

section \<open>The router's answers as the tests see them\<close>

lemma revocation_request_route:
  assumes "map_of revocation_routes uri = Some (m, h)"
  shows "revocation_request P rej now m uri kvs body st = do {
    (reply, st1) \<leftarrow> revocation_serve P rej now h \<lparr>hq_method = m, hq_path = uri, hq_query = kvs, hq_json = Inr body\<rparr> st;
    v \<leftarrow> reply_value P reply;
    Some (reply_status reply, v, st1)}"
  using assms by (simp add: revocation_request_def revocation_app_def routed_def route_def option.map_id0 prod.map_id0)

lemma revocation_test_routes:
  "map_of revocation_routes ''/revocations/v1/snapshot'' = Some (''GET'', SnapshotRoute)"
  "map_of revocation_routes ''/revocations/v1/revoke'' = Some (''POST'', RevokeRoute)"
  "map_of revocation_routes ''/revocations/v2/revoke'' = Some (''POST'', V2RevokeRoute)"
  "map_of revocation_routes ''/revocations/v2/checkpoint'' = Some (''POST'', V2CheckpointRoute)"
  "map_of revocation_routes ''/revocations/v2/status'' = Some (''GET'', V2StatusRoute)"
  "map_of revocation_routes ''/revocations/v2/consistency'' = Some (''GET'', V2ConsistencyRoute)"
  by (simp_all add: revocation_routes_def)

fun revocation_value :: "('a \<Rightarrow> nat \<times> json) \<Rightarrow> (revocation_api_error + 'a) \<times> 's \<Rightarrow> nat \<times> json \<times> 's" where
  "revocation_value f (Inr a, st) = (fst (f a), snd (f a), st)"
| "revocation_value f (Inl e, st) = (fst (revocation_error_response e), by_key (snd (revocation_error_response e)), st)"

lemma revocation_value_bind:
  "Option.bind (map_option (map_prod (revocation_reply_of (\<lambda>a. JsonReply (fst (f a)) (snd (f a)))) id) ans) (\<lambda>(reply, st1).
     Option.bind (reply_value P reply) (\<lambda>v. Some (reply_status reply, v, st1))) = map_option (revocation_value f) ans"
proof (cases ans)
  case (Some a)
  then show ?thesis by (cases "fst a"; cases a) (simp_all add: revocation_error_reply_def split: prod.splits)
qed simp

lemma revocation_requests:
  "revocation_request P rej now ''GET'' ''/revocations/v1/snapshot'' [] b st =
     map_option (\<lambda>sn. (200, snapshot_json sn, st)) (get_snapshot P st now)"
  "revocation_request P rej now ''POST'' ''/revocations/v1/revoke'' [] (revoke_json i r) st =
     map_option (revocation_value (map_prod id snapshot_json)) (handle_revoke P st \<lparr>rr_revocation_id = i, rr_reason = r\<rparr> now)"
  "v2_revoke P st \<lparr>rr_revocation_id = i, rr_reason = r\<rparr> = (Inr status, st1) \<Longrightarrow>
     revocation_request P rej now ''POST'' ''/revocations/v2/revoke'' [] (revoke_json i r) st = Some (status, JNull, st1)"
  "revocation_request P rej now ''POST'' ''/revocations/v2/checkpoint'' [] b st =
     map_option (\<lambda>((status, sth), st1). (status, sth_json sth, st1)) (v2_checkpoint P st)"
  "revocation_request P rej now ''GET'' ''/revocations/v2/status'' [(''key'', k)] b st =
     map_option (revocation_value (\<lambda>pf. (200, log_backed_proof_json pf))) (v2_status P st k)"
  "m < usize_bound \<Longrightarrow> n < usize_bound \<Longrightarrow>
     revocation_request P rej now ''GET'' ''/revocations/v2/consistency'' [(''first'', decimal m), (''second'', decimal n)] b st =
       map_option (revocation_value (\<lambda>pf. (200, consistency_proof_json pf))) (v2_consistency P st m n)"
proof -
  show "revocation_request P rej now ''GET'' ''/revocations/v1/snapshot'' [] b st =
     map_option (\<lambda>sn. (200, snapshot_json sn, st)) (get_snapshot P st now)"
    by (cases "get_snapshot P st now") (simp_all add: revocation_request_route [OF revocation_test_routes(1)])
  show "revocation_request P rej now ''POST'' ''/revocations/v1/revoke'' [] (revoke_json i r) st =
     map_option (revocation_value (map_prod id snapshot_json)) (handle_revoke P st \<lparr>rr_revocation_id = i, rr_reason = r\<rparr> now)"
    using revocation_value_bind [where f = "map_prod id snapshot_json" and P = P and
        ans = "handle_revoke P st \<lparr>rr_revocation_id = i, rr_reason = r\<rparr> now"]
    by (simp add: revocation_request_route [OF revocation_test_routes(2)] json_body_def revoke_json_def revoke_request_reads case_prod_beta')
  show "revocation_request P rej now ''POST'' ''/revocations/v2/revoke'' [] (revoke_json i r) st = Some (status, JNull, st1)"
    if "v2_revoke P st \<lparr>rr_revocation_id = i, rr_reason = r\<rparr> = (Inr status, st1)"
    using that by (simp add: revocation_request_route [OF revocation_test_routes(3)] json_body_def revoke_json_def revoke_request_reads)
  show "revocation_request P rej now ''POST'' ''/revocations/v2/checkpoint'' [] b st =
     map_option (\<lambda>((status, sth), st1). (status, sth_json sth, st1)) (v2_checkpoint P st)"
    by (cases "v2_checkpoint P st") (auto simp: revocation_request_route [OF revocation_test_routes(4)])
  show "revocation_request P rej now ''GET'' ''/revocations/v2/status'' [(''key'', k)] b st =
     map_option (revocation_value (\<lambda>pf. (200, log_backed_proof_json pf))) (v2_status P st k)"
    using revocation_value_bind [where f = "\<lambda>pf. (200, log_backed_proof_json pf)" and P = P and ans = "v2_status P st k"]
    by (simp add: revocation_request_route [OF revocation_test_routes(5)] query_string_def key_query_def query_required_def query_field_def)
  show "revocation_request P rej now ''GET'' ''/revocations/v2/consistency'' [(''first'', decimal m), (''second'', decimal n)] b st =
       map_option (revocation_value (\<lambda>pf. (200, consistency_proof_json pf))) (v2_consistency P st m n)"
    if "m < usize_bound" "n < usize_bound"
    using revocation_value_bind [where f = "\<lambda>pf. (200, consistency_proof_json pf)" and P = P and ans = "v2_consistency P st m n"] that
    by (simp add: revocation_request_route [OF revocation_test_routes(6)] query_string_def v2_consistency_query_def query_required_def
        query_field_def parse_usize_decimal)
qed

section \<open>The first version passes\<close>

lemma state_at_ok:
  assumes "ed_good P (fill 21)"
  shows "rs_ok P (state_at P) []" and "signer_ok P (ed25519_from_seed P (fill 21))"
  using assms by (simp_all add: state_at_def rs_ok_new ed.ok)

lemma state_at_parts:
  "rl_revoked (rs_log (state_at P)) = {}" "rl_epoch (rs_log (state_at P)) = 0" "rs_logbacked (state_at P) = log_backed_new"
  "rs_signer (state_at P) = ed25519_from_seed P (fill 21)" "rs_key (state_at P) = sg_public_key (ed25519_from_seed P (fill 21))"
  by (simp_all add: state_at_def revocation_service_new_def)

lemma epoch_counts: "rs_ok P st h \<Longrightarrow> rl_epoch (rs_log st) = of_nat (card (rl_revoked (rs_log st)))"
  by (simp add: rs_ok_def rl_ok_def)

lemma handle_revoke_key: "handle_revoke P st q now = Some (r, st') \<Longrightarrow> rs_key st' = rs_key st"
  by (auto simp: handle_revoke_def Let_def split: sum.splits option.splits)

text \<open>One revocation through the router.\<close>

lemma revoke_request_ok:
  assumes "hex_codec P" and "rs_ok P st h"
  shows "\<exists>sn st'. revocation_request P rej now ''POST'' ''/revocations/v1/revoke'' []
      (revoke_json (revocation_id_display (rev_id P t)) r) st = Some (201, snapshot_json sn, st') \<and> rs_ok P st' h \<and>
    rl_revoked (rs_log st') = insert (rev_id P t) (rl_revoked (rs_log st)) \<and> sn_revoked sn = rl_revoked (rs_log st') \<and>
    sn_epoch sn = rl_epoch (rs_log st') \<and> snapshot_verify_signature P sn (rs_key st') \<and> rs_key st' = rs_key st \<and>
    snapshot_of_json (snapshot_json sn) = Some sn"
proof -
  let ?q = "\<lparr>rr_revocation_id = revocation_id_display (rev_id P t), rr_reason = r\<rparr>"
  have "revocation_id_from_hex P (rr_revocation_id ?q) = Inr (rev_id P t)" by (simp add: rev_id_reads [OF assms(1)])
  from handle_revoke_ok [OF assms(2) this, of now] obtain sn st' where
    1: "handle_revoke P st ?q now = Some (Inr (201, sn), st')" "rs_ok P st' h"
    "rl_revoked (rs_log st') = insert (rev_id P t) (rl_revoked (rs_log st))" "sn_revoked sn = rl_revoked (rs_log st')"
    "sn_epoch sn = rl_epoch (rs_log st')" "snapshot_verify_signature P sn (rs_key st)" by blast
  then have "finite (sn_revoked sn)" by (simp add: rs_ok_def rl_ok_def)
  then have "snapshot_of_json (snapshot_json sn) = Some sn" by (rule snapshot_form.dec_enc)
  with 1 handle_revoke_key [OF 1(1)] show ?thesis
    by (intro exI [of _ sn] exI [of _ st']) (simp add: revocation_requests(2))
qed

lemma empty_log_passes:
  assumes "ed_good P (fill 21)"
  shows "test_empty_log_serves_epoch_zero P rej = Some ()"
proof -
  from current_snapshot_ok [OF state_at_ok(1) [OF assms], of 1000] obtain sn where
    sn: "get_snapshot P (state_at P) 1000 = Some sn" "sn_epoch sn = 0" "sn_revoked sn = {}"
      "snapshot_verify_signature P sn (rs_key (state_at P))"
    by (auto simp: get_snapshot_def state_at_parts)
  then have "snapshot_of_json (snapshot_json sn) = Some sn" by (intro snapshot_form.dec_enc) simp
  with sn show ?thesis by (simp add: test_empty_log_serves_epoch_zero_def Let_def revocation_requests(1))
qed

lemma raises_epoch_passes:
  assumes "hex_codec P" and "ed_good P (fill 21)"
  shows "test_revoke_raises_epoch P rej = Some ()"
proof -
  from revoke_request_ok [OF assms(1) state_at_ok(1) [OF assms(2)], of rej 2000 7 "''key leaked''"] obtain sn st where
    1: "revocation_request P rej 2000 ''POST'' ''/revocations/v1/revoke'' []
        (revoke_json (revocation_id_display (rev_id P 7)) ''key leaked'') (state_at P) = Some (201, snapshot_json sn, st)"
      "rs_ok P st []" "rl_revoked (rs_log st) = {rev_id P 7}" "sn_revoked sn = rl_revoked (rs_log st)"
      "sn_epoch sn = rl_epoch (rs_log st)" "snapshot_verify_signature P sn (rs_key st)" "snapshot_of_json (snapshot_json sn) = Some sn"
    by (auto simp: state_at_parts)
  from revoke_request_ok [OF assms(1) 1(2), of rej 2000 7 "''still leaked''"] obtain sn2 st2 where
    2: "revocation_request P rej 2000 ''POST'' ''/revocations/v1/revoke'' []
        (revoke_json (revocation_id_display (rev_id P 7)) ''still leaked'') st = Some (201, snapshot_json sn2, st2)"
      "rs_ok P st2 []" "rl_revoked (rs_log st2) = {rev_id P 7}"
      "sn_epoch sn2 = rl_epoch (rs_log st2)" "snapshot_of_json (snapshot_json sn2) = Some sn2"
    using 1(3) by auto
  show ?thesis
    using epoch_counts [OF 1(2)] epoch_counts [OF 2(2)] 1(3-7) 2(3-5)
    by (simp add: test_revoke_raises_epoch_def Let_def 1(1) 2(1))
qed

lemma malformed_id_passes:
  assumes "hex_codec P"
  shows "test_malformed_id_is_rejected P rej = Some ()"
proof -
  have "str_trim ''not-hex'' = ''not-hex''" by (rule str_trim_solid) (simp_all add: solid_def Let_def)
  moreover have "hex_decode P ''not-hex'' \<noteq> Inr bs" for bs
  proof
    assume "hex_decode P ''not-hex'' = Inr bs"
    with assms have "length ''not-hex'' = 2 * length bs" unfolding hex_codec_def by blast
    then show False by simp presburger
  qed
  then obtain e where "hex_decode P ''not-hex'' = Inl e" by (cases "hex_decode P ''not-hex''") auto
  ultimately have "revocation_id_from_hex P ''not-hex'' = Inl (RevBadRequest ''revocation_id must be hex'')"
    by (simp add: revocation_id_from_hex_def hex_bytes_def)
  then show ?thesis by (simp add: test_malformed_id_is_rejected_def revocation_requests(2) handle_revoke_def)
qed

text \<open>From the service to the checker.\<close>

lemma http_fetch_source: "http_fetch get s = http_fetch (\<lambda>_ _. get (hs_url s) (hs_timeout s)) s"
  by (simp add: http_fetch_def)

lemma checker_over_socket:
  assumes ok: "rs_ok P st h" and c: "operator_key c = rs_key st" "last_seen_epoch c \<le> rl_epoch (rs_log st)"
    and fresh: "unat now - unat published \<le> unat (max_staleness c)"
  shows "snapshot_is_revoked P c (http_fetch (bound_socket P rej published malformed addr st)
      (http_source_new (''http://'' @ addr @ ''/revocations/v1/snapshot''))) now i =
    (Inr (if i \<in> rl_revoked (rs_log st) then Revoked ''listed in the signed revocation snapshot'' else Live),
     c\<lparr>last_seen_epoch := rl_epoch (rs_log st)\<rparr>)"
proof -
  let ?src = "http_source_new (''http://'' @ addr @ ''/revocations/v1/snapshot'')"
  from fetches_served [OF ok c fresh, of rej malformed ?src i] obtain reply where
    r: "revocation_app P rej published (get_request ''/revocations/v1/snapshot'' []) st = Some (reply, st)"
      "snapshot_is_revoked P c (http_fetch (\<lambda>_ _. Inr (snapshot_response malformed reply)) ?src) now i =
        (Inr (if i \<in> rl_revoked (rs_log st) then Revoked ''listed in the signed revocation snapshot'' else Live),
         c\<lparr>last_seen_epoch := rl_epoch (rs_log st)\<rparr>)" by blast
  have "bound_socket P rej published malformed addr st (hs_url ?src) (hs_timeout ?src) = Inr (snapshot_response malformed reply)"
    by (simp add: bound_socket_def http_source_new_def r(1))
  then show ?thesis unfolding http_fetch_source [of "bound_socket P rej published malformed addr st"] by (simp only: r(2))
qed

definition rev_ids_apart :: "prims \<Rightarrow> bool" where
  "rev_ids_apart P \<longleftrightarrow> collision_free P ((\<lambda>t. revocation_id_domain @ replicate 64 t) ` {2, 3, 4, 5})"

lemma rev_id_eq:
  assumes "rev_ids_apart P" and "s \<in> {2, 3, 4, 5}" and "t \<in> {2, 3, 4, 5}"
  shows "rev_id P s = rev_id P t \<longleftrightarrow> s = t"
proof
  assume "rev_id P s = rev_id P t"
  then have "blake3 P (revocation_id_domain @ replicate 64 s) = blake3 P (revocation_id_domain @ replicate 64 t)"
    by (simp add: rev_id_def revocation_id_from_signature_def array_bytes_inject)
  from collision_freeD [OF assms(1) [unfolded rev_ids_apart_def] this] assms(2,3)
  have "replicate 64 s = replicate 64 t" by (meson image_eqI same_append_eq)
  then show "s = t" by simp
qed simp

lemma publisher_passes:
  assumes "hex_codec P" and "ed_good P (fill 21)" and "rev_ids_apart P"
  shows "test_publisher_to_transport_to_checker P rej malformed addr = Some ()"
proof -
  from revoke_request_ok [OF assms(1) state_at_ok(1) [OF assms(2)], of rej 5000 3 "''compromised''"] obtain sn st where
    1: "revocation_request P rej 5000 ''POST'' ''/revocations/v1/revoke'' []
        (revoke_json (revocation_id_display (rev_id P 3)) ''compromised'') (state_at P) = Some (201, snapshot_json sn, st)"
      "rs_ok P st []" "rl_revoked (rs_log st) = {rev_id P 3}"
    by (auto simp: state_at_parts)
  have c: "operator_key (snapshot_checker_new (rs_key st) 3600) = rs_key st"
    "last_seen_epoch (snapshot_checker_new (rs_key st) 3600) = 0" "max_staleness (snapshot_checker_new (rs_key st) 3600) = 3600"
    by (simp_all add: snapshot_checker_new_def)
  show ?thesis
    using rev_id_eq [OF assms(3), of 4 3]
    by (simp add: test_publisher_to_transport_to_checker_def Let_def 1(1) checker_over_socket [OF 1(2), unfolded append_Cons append_Nil] 1(3) c)
qed

section \<open>The second version passes\<close>

lemma before_checkpoint_passes:
  assumes "hex_codec P"
  shows "test_v2_status_before_checkpoint_is_409 P rej = Some ()"
proof -
  have "lb_prove P log_backed_new (fill 1) sg = Some (None, log_backed_new)" for sg
    by (rule lb_prove_unlogged [OF lb_inv_new]) simp
  with v2_key_reads [OF assms, of 1] have "v2_status P (state_at P) (hex_encode P (array_bytes (fill 1))) =
      Some (Inl (RevConflict ''no checkpoint covers the current map root; POST /revocations/v2/checkpoint''), state_at P)"
    by (simp add: v2_status_def state_at_def revocation_service_new_def ok_or_def)
  then show ?thesis
    by (simp add: test_v2_status_before_checkpoint_is_409_def v2_key_fill revocation_requests(5))
qed

text \<open>The states of a session over the log-backed map.\<close>

definition with_log :: "prims \<Rightarrow> log_backed \<Rightarrow> revocation_service" where
  "with_log P lb = (state_at P)\<lparr>rs_logbacked := lb\<rparr>"

lemma with_log_parts [simp]:
  "rs_logbacked (with_log P lb) = lb" "rs_signer (with_log P lb) = ed25519_from_seed P (fill 21)"
  "rs_key (with_log P lb) = sg_public_key (ed25519_from_seed P (fill 21))" "(with_log P lb)\<lparr>rs_logbacked := lb'\<rparr> = with_log P lb'"
  by (simp_all add: with_log_def state_at_parts)

lemma state_at_log: "state_at P = with_log P log_backed_new"
  by (simp add: with_log_def state_at_def revocation_service_new_def)

lemma v2_requests:
  "hex_codec P \<Longrightarrow> revocation_request P rej now ''POST'' ''/revocations/v2/revoke'' [] (revoke_json (hex_encode P (array_bytes (fill t))) r) (with_log P lb) =
     Some (201, JNull, with_log P (log_backed_revoke lb (fill t)))"
  "publish_checkpoint P lb (ed25519_from_seed P (fill 21)) = Some (sth, lb') \<Longrightarrow>
     revocation_request P rej now ''POST'' ''/revocations/v2/checkpoint'' [] b (with_log P lb) = Some (201, sth_json sth, with_log P lb')"
  "hex_codec P \<Longrightarrow> lb_prove P lb (fill t) (ed25519_from_seed P (fill 21)) = Some (Some pf, lb') \<Longrightarrow>
     revocation_request P rej now ''GET'' ''/revocations/v2/status'' [(''key'', hex_encode P (array_bytes (fill t)))] b (with_log P lb) =
       Some (200, log_backed_proof_json pf, with_log P lb')"
proof -
  show "revocation_request P rej now ''POST'' ''/revocations/v2/revoke'' [] (revoke_json (hex_encode P (array_bytes (fill t))) r) (with_log P lb) =
     Some (201, JNull, with_log P (log_backed_revoke lb (fill t)))" if "hex_codec P"
    by (rule revocation_requests(3)) (simp add: v2_revoke_def v2_key_reads [OF that])
  show "revocation_request P rej now ''POST'' ''/revocations/v2/checkpoint'' [] b (with_log P lb) = Some (201, sth_json sth, with_log P lb')"
    if "publish_checkpoint P lb (ed25519_from_seed P (fill 21)) = Some (sth, lb')"
    using that by (simp add: revocation_requests(4) v2_checkpoint_def)
  show "revocation_request P rej now ''GET'' ''/revocations/v2/status'' [(''key'', hex_encode P (array_bytes (fill t)))] b (with_log P lb) =
       Some (200, log_backed_proof_json pf, with_log P lb')"
    if "hex_codec P" "lb_prove P lb (fill t) (ed25519_from_seed P (fill 21)) = Some (Some pf, lb')"
    using that(2) by (simp add: revocation_requests(5) v2_status_def v2_key_reads [OF that(1)] ok_or_def)
qed

lemma v2_status_passes:
  assumes hex: "hex_codec P" and good: "ed_good P (fill 21)" and u: "universe_apart P {fill 3, fill 4}"
  shows "test_v2_status_proof_verifies_offline P rej = Some ()"
proof -
  let ?m = "map_of_keys [fill 3]" and ?sg = "ed25519_from_seed P (fill 21)"
  have sg: "signer_ok P ?sg" by (rule state_at_ok(2) [OF good])
  have "set (map_keys ?m) \<subseteq> {fill 3, fill 4}" by (simp add: map_of_keys_ok)
  note says = universe_decides [OF u map_of_keys_ok(1) this]
  have start: "log_backed_revoke log_backed_new (fill 3) = log_backed_with [fill 3]" by (simp add: log_backed_with_def)
  from first_published [OF sg, of "[fill 3]"] obtain sth lb where
    1: "publish_checkpoint P (log_backed_with [fill 3]) ?sg = Some (sth, lb)" "lb_map lb = ?m" "lb_inv P lb [(first_checkpoint P ?m, ?m)]" by blast
  from first_proof [OF sg 1(3,2), of "fill 4"] obtain p lb1 where
    2: "lb_prove P lb (fill 4) ?sg = Some (Some p, lb1)" "lb_inv P lb1 [(first_checkpoint P ?m, ?m)]" "lb_map lb1 = ?m"
    "lp_checkpoint p = first_checkpoint P ?m" "lp_map_proof p = revmap_prove P ?m (fill 4)" "map_root_is_logged P p (sg_public_key ?sg)"
    "lp_inclusion p = \<lparr>leaf_index = 0, tree_size = 1, path = []\<rparr>" "head_of P (history_leaves P [(first_checkpoint P ?m, ?m)]) (lp_sth p)" by blast
  from first_proof [OF sg 2(2,3), of "fill 3"] obtain q lb2 where
    3: "lb_prove P lb1 (fill 3) ?sg = Some (Some q, lb2)" "lp_checkpoint q = first_checkpoint P ?m" "lp_map_proof q = revmap_prove P ?m (fill 3)"
    "map_root_is_logged P q (sg_public_key ?sg)" "lp_inclusion q = \<lparr>leaf_index = 0, tree_size = 1, path = []\<rparr>"
    "head_of P (history_leaves P [(first_checkpoint P ?m, ?m)]) (lp_sth q)" by blast
  have read: "log_backed_proof_of_json (log_backed_proof_json x) = Some x" if "x \<in> {p, q}" for x
    using that 2(7,8) 3(5,6) by (intro log_backed_proof_form.dec_enc) (auto simp: proof_fits_def head_of_def)
  have "mc_map_root (first_checkpoint P ?m) = revmap_root P ?m" by (simp add: first_checkpoint_def)
  with 2(4-6) 3(2-4) have
    "verify_not_revoked P p (fill 4) (sg_public_key ?sg)" "\<not> verify_revoked P p (fill 4) (sg_public_key ?sg)"
    "verify_revoked P q (fill 3) (sg_public_key ?sg)" "\<not> verify_not_revoked P q (fill 3) (sg_public_key ?sg)"
    by (simp_all add: verify_not_revoked_def verify_revoked_def says map_of_keys_ok)
  then show ?thesis
    unfolding test_v2_status_proof_verifies_offline_def state_at_log v2_key_fill
    by (simp add: Let_def v2_requests(1) [OF hex] start v2_requests(2) [OF 1(1)] v2_requests(3) [OF hex 2(1)] v2_requests(3) [OF hex 3(1)] read)
qed

lemma v2_consistency_passes:
  assumes hex: "hex_codec P" and good: "ed_good P (fill 21)"
  shows "test_v2_consistency_tracks_checkpoints P rej = Some ()"
proof -
  let ?sg = "ed25519_from_seed P (fill 21)"
  have sg: "signer_ok P ?sg" by (rule state_at_ok(2) [OF good])
  from lb_inv_publish [OF lb_inv_new sg] obtain sth0 lb0 e where
    1: "publish_checkpoint P log_backed_new ?sg = Some (sth0, lb0)" "lb_inv P lb0 [e]" "head_of P (history_leaves P [e]) sth0"
    "verify_signed_head P sth0 (sg_public_key ?sg)" by auto
  from lb_inv_publish [OF lb_inv_revoke [OF 1(2)] sg, of "fill 9"] obtain sth1 lb1 f where
    2: "publish_checkpoint P (log_backed_revoke lb0 (fill 9)) ?sg = Some (sth1, lb1)" "lb_inv P lb1 [e, f]"
    "head_of P (history_leaves P [e, f]) sth1" "verify_signed_head P sth1 (sg_public_key ?sg)" by auto
  have sizes: "sth_size sth0 = 1" "sth_size sth1 = 2" using 1(3) 2(3) by (simp_all add: head_of_def)
  then have read: "sth_of_json (sth_json sth0) = Some sth0" "sth_of_json (sth_json sth1) = Some sth1"
    by (simp_all add: sth_form.dec_enc)
  let ?pf = "\<lparr>nodes = naive_subproof P 1 (history_leaves P [e, f]) True\<rparr>"
  from lb_consistency_keeps [OF 2(2), of 1 2] obtain lb2 where
    3: "lb_consistency_proof P lb1 1 2 = Some (Some ?pf, lb2)" by auto
  then have "v2_consistency P (with_log P lb1) 1 2 = Some (Inr ?pf, with_log P lb2)" by (simp add: v2_consistency_def ok_or_def)
  then have 4: "revocation_request P rej 2000 ''GET'' ''/revocations/v2/consistency'' [(''first'', decimal 1), (''second'', decimal 2)] JNull
      (with_log P lb1) = Some (200, consistency_proof_json ?pf, with_log P lb2)"
    using revocation_requests(6) [of 1 2 P rej 2000 JNull "with_log P lb1"] by (simp add: usize_bound_def)
  have "take 1 (history_leaves P [e, f]) = history_leaves P [e]" by (simp add: history_leaves_def)
  then have "verify_consistency P (sth_root sth0) (sth_root sth1) ?pf 1 2"
    using verify_consistency_complete [of 1 "history_leaves P [e, f]" P] 1(3) 2(3) by (simp add: head_of_def numeral_2_eq_2)
  then show ?thesis
    unfolding test_v2_consistency_tracks_checkpoints_def state_at_log v2_key_fill
    by (simp add: Let_def v2_requests(1) [OF hex] v2_requests(2) [OF 1(1)] v2_requests(2) [OF 2(1)] read 1(4) 2(4) sizes 4 [simplified]
        consistency_form.dec_enc)
qed

section \<open>The client's tests pass\<close>

lemma serve_snapshot_fetched:
  assumes "finite (sn_revoked sn)"
  shows "http_fetch (serve_snapshot malformed sn) src = Inr sn"
  using snapshot_form.dec_enc [of sn] assms by (simp add: http_fetch_def serve_snapshot_def snapshot_response_def)

lemma http_source_passes:
  assumes "ed_good P (fill 50)" and "rev_ids_apart P"
  shows "test_http_source_feeds_checker P malformed addr = Some ()"
proof -
  let ?op = "ed25519_from_seed P (fill 50)"
  have "signer_ok P ?op" using assms(1) by (simp add: ed.ok)
  from snapshot_sign_ok [OF this, of 1 1000 "{rev_id P 2}"] obtain sn where
    sn: "snapshot_sign P ?op 1 1000 {rev_id P 2} = Some sn" "sn_epoch sn = 1" "published_at sn = 1000" "sn_revoked sn = {rev_id P 2}"
      "snapshot_verify_signature P sn (sg_public_key ?op)" by blast
  have fetched: "http_fetch (serve_snapshot malformed sn) src = Inr sn" for src
    by (rule serve_snapshot_fetched) (simp add: sn(4))
  have answer: "snapshot_is_revoked P c (Inr sn) 1100 i = (Inr (snapshot_answer sn i), c\<lparr>last_seen_epoch := 1\<rparr>)"
    if "operator_key c = sg_public_key ?op" "last_seen_epoch c \<le> 1" "max_staleness c = 3600" for c i
    using that sn by (simp add: snapshot_is_revoked_iff)
  show ?thesis
    using rev_id_eq [OF assms(2), of 5 2]
    by (simp add: test_http_source_feeds_checker_def Let_def sn fetched answer snapshot_checker_new_def snapshot_answer_def)
qed

lemma unreachable_passes: "test_unreachable_url_fails_closed err = Some ()"
  by (simp add: test_unreachable_url_fails_closed_def http_fetch_def)

section \<open>All of them\<close>

text \<open>
  The codec is that of the hex crate, the signatures of the two seeds verify, and no collision
  is found among the messages the tests hash.
\<close>

definition service_apart :: "prims \<Rightarrow> bool" where
  "service_apart P \<longleftrightarrow>
     hex_codec P \<and> ed_good P (fill 21) \<and> ed_good P (fill 50) \<and> rev_ids_apart P \<and> universe_apart P {fill 3, fill 4}"

lemma revocation_service_tests_pass:
  assumes "service_apart P"
  shows "revocation_service_tests P rej malformed addr = replicate 9 (Some ())"
  using assms
  by (simp add: service_apart_def revocation_service_tests_def numeral_eq_Suc empty_log_passes raises_epoch_passes malformed_id_passes
      v2_status_passes before_checkpoint_passes v2_consistency_passes publisher_passes http_source_passes unreachable_passes)

end
