(* ===== verification/Demo_Revocations.thy ===== *)
theory Demo_Revocations
  imports Demo_Sets Revocation_Service_Tests
begin

text \<open>
  The instance of \<^verbatim>\<open>Demo_Sets\<close> for the tests of the revocation service and of its client:
  its codec reads what it writes, and its hash keeps the ids and the keys of the tests apart.
\<close>

section \<open>The codec\<close>

lemma hex_value_digit: "n < 16 \<Longrightarrow> hex_value (hex_digit n) = Some n"
  by (simp add: hex_value_def hex_digit_def Let_def take_bit_eq_mod)

lemma unhex_byte: "unhex (hex_byte b @ cs) = map_sum id ((#) b) (unhex cs)"
proof -
  have "unat b < 256" using unsigned_less [of b, where ?'a = nat] by simp
  then have "unat b div 16 < 16" "unat b mod 16 < 16" by simp_all
  then show ?thesis by (simp add: hex_byte_def hex_value_digit)
qed

lemma unhex_encoded: "unhex (concat (map hex_byte bs)) = Inr bs"
  by (induction bs) (simp_all add: unhex_byte)

lemma unhex_length: "unhex s = Inr bs \<Longrightarrow> length s = 2 * length bs"
  by (induction s arbitrary: bs rule: unhex.induct) (auto simp: map_sum_def split: option.splits sum.splits)

lemma sets_hex: "hex_codec demo_sets"
  using unhex_encoded unhex_length by (simp add: hex_codec_def)

section \<open>The ids and the keys\<close>

lemma sets_rev_id: "sets_hash (revocation_id_domain @ replicate 64 t) = fill t"
proof -
  have len: "length (revocation_id_domain @ replicate 64 t) = length revocation_id_domain + 64" by simp
  have dom: "length revocation_id_domain \<noteq> 1" "length revocation_id_domain \<noteq> 65" "length revocation_id_domain < 60"
    by (simp_all add: revocation_id_domain_def str_bytes_def)
  have "revocation_id_domain @ replicate 64 t \<noteq> empty_leaf_domain"
    "revocation_id_domain @ replicate 64 t \<noteq> str_bytes ''definitely-not-in-the-set''"
    using len by (auto simp: empty_leaf_domain_def str_bytes_def dest!: arg_cong [where f = length])
  with dom show ?thesis by (simp add: sets_hash_def fill_def)
qed

lemma sets_rev_ids_apart: "rev_ids_apart demo_sets"
proof -
  have "hd (array_bytes (fill t)) = t" for t by simp
  then have "fill s = fill t \<Longrightarrow> s = t" for s t by metis
  then show ?thesis
    unfolding rev_ids_apart_def collision_free_def by (auto intro!: inj_onI simp: sets_rev_id)
qed

lemma universe_queries_mono: "K \<subseteq> L \<Longrightarrow> universe_queries P K \<subseteq> universe_queries P L"
  unfolding universe_queries_def by blast

lemma universe_apart_mono: "universe_apart P L \<Longrightarrow> K \<subseteq> L \<Longrightarrow> universe_apart P K"
  unfolding universe_apart_def by (rule collision_free_mono [OF _ universe_queries_mono])

lemma sets_filled_keys: "{fill 3, fill 4} \<subseteq> tested_keys demo_sets"
proof -
  have "(129 * 131 :: u8) = 3" "(129 * 4 :: u8) = 4" by simp_all
  then have "hashed_tag demo_sets 131 = fill 3" "hashed_tag demo_sets 4 = fill 4" by (simp_all only: sets_tag)
  then show ?thesis using tested_keysI [of 131 demo_sets] tested_keysI [of 4 demo_sets] by simp
qed

lemma sets_service_apart: "service_apart demo_sets"
  using sets_hex sets_rev_ids_apart universe_apart_mono [OF tested_apart sets_filled_keys]
  by (simp add: service_apart_def ed_good_def demo_check_def demo_sign_def fill_def)

end
