(* ===== verification/Sidecar_Wire.thy ===== *)
theory Sidecar_Wire
  imports Sidecar Wire
begin

text \<open>
  The sidecar and the browser verifier at the level of JSON: the derived readers of their
  requests, the writer of the responses, the whole process from the text on stdin to the
  text on stdout. The reader of JSON text, its message for a value of the wrong shape and
  the printer are those of \<^verbatim>\<open>serde_json\<close> and stay parameters.
\<close>

section \<open>Reading requests\<close>

definition attest_role_of_json :: "json \<Rightarrow> attest_role option" where
  "attest_role_of_json = json_variant [(''third_party'', AttestThirdParty), (''counter_signed'', AttestCounterSigned)]"

definition policy_dto_of_json :: "json \<Rightarrow> policy_dto option" where
  "policy_dto_of_json j = do {
     s \<leftarrow> slots [''trusted_attesters'', ''allow_counter_signed''] j;
     ks \<leftarrow> with_default [] (json_list public_key_of_json) (s ! 0);
     b \<leftarrow> with_default False json_bool (s ! 1);
     Some \<lparr>pd_trusted_attesters = ks, pd_allow_counter_signed = b\<rparr>}"

definition policy_dto_default :: policy_dto where
  "policy_dto_default = \<lparr>pd_trusted_attesters = [], pd_allow_counter_signed = False\<rparr>"

text \<open>
  An enum tagged by \<^verbatim>\<open>cmd\<close>: the tag, which names the variant in snake case, is one field
  of the object, or the first element of the array, that holds the fields of the variant.
\<close>

definition request_of_fields :: "string \<Rightarrow> json \<Rightarrow> request option" where
  "request_of_fields cmd j =
    (if cmd = ''issue'' then do {
       s \<leftarrow> slots [''seed'', ''principal'', ''scope''] j;
       seed \<leftarrow> mandatory json_string (s ! 0);
       who \<leftarrow> mandatory principal_of_json (s ! 1);
       sc \<leftarrow> mandatory scope_of_json (s ! 2);
       Some (ReqIssue seed who sc)}
     else if cmd = ''attenuate'' then do {
       s \<leftarrow> slots [''chain'', ''signer_seed'', ''to'', ''to_seed'', ''scope'', ''purpose''] j;
       c \<leftarrow> mandatory chain_of_json (s ! 0);
       seed \<leftarrow> mandatory json_string (s ! 1);
       t \<leftarrow> mandatory principal_of_json (s ! 2);
       tseed \<leftarrow> mandatory json_string (s ! 3);
       sc \<leftarrow> mandatory scope_of_json (s ! 4);
       pur \<leftarrow> mandatory json_string (s ! 5);
       Some (ReqAttenuate c seed t tseed sc pur)}
     else if cmd = ''verify'' then do {
       s \<leftarrow> slots [''chain'', ''root_key''] j;
       c \<leftarrow> mandatory chain_of_json (s ! 0);
       k \<leftarrow> mandatory public_key_of_json (s ! 1);
       Some (ReqVerify c k)}
     else if cmd = ''pubkey'' then do {
       s \<leftarrow> slots [''seed''] j;
       seed \<leftarrow> mandatory json_string (s ! 0);
       Some (ReqPubkey seed)}
     else if cmd = ''chain_digest'' then do {
       s \<leftarrow> slots [''chain''] j;
       c \<leftarrow> mandatory chain_of_json (s ! 0);
       Some (ReqChainDigest c)}
     else if cmd = ''bind_action'' then do {
       s \<leftarrow> slots [''purpose'', ''params_digest''] j;
       pur \<leftarrow> mandatory json_string (s ! 0);
       d \<leftarrow> mandatory json_string (s ! 1);
       Some (ReqBindAction pur d)}
     else if cmd = ''witness_append'' then do {
       s \<leftarrow> slots [''log'', ''chain_digest'', ''action_digest'', ''nonce'', ''prev_root''] j;
       log \<leftarrow> with_default [] (json_list receipt_of_json) (s ! 0);
       cd \<leftarrow> mandatory json_string (s ! 1);
       ad \<leftarrow> mandatory json_string (s ! 2);
       n \<leftarrow> mandatory json_string (s ! 3);
       pr \<leftarrow> mandatory json_string (s ! 4);
       Some (ReqWitnessAppend log cd ad n pr)}
     else if cmd = ''attest'' then do {
       s \<leftarrow> slots [''seed'', ''attester'', ''chain_digest'', ''requested_action'', ''outcome'', ''witnessed_root'',
          ''inclusion_proof'', ''role''] j;
       seed \<leftarrow> mandatory json_string (s ! 0);
       att \<leftarrow> mandatory principal_of_json (s ! 1);
       cd \<leftarrow> mandatory json_string (s ! 2);
       req \<leftarrow> mandatory json_string (s ! 3);
       outc \<leftarrow> mandatory json_string (s ! 4);
       wr \<leftarrow> mandatory json_string (s ! 5);
       incl \<leftarrow> mandatory inclusion_proof_of_json (s ! 6);
       role \<leftarrow> with_default AttestThirdParty attest_role_of_json (s ! 7);
       Some (ReqAttest seed att cd req outc wr incl role)}
     else if cmd = ''composed_verify'' then do {
       s \<leftarrow> slots [''chain'', ''root_key'', ''trusted_root'', ''action_receipt'', ''completion'', ''policy'',
          ''params_digest''] j;
       c \<leftarrow> mandatory chain_of_json (s ! 0);
       k \<leftarrow> mandatory public_key_of_json (s ! 1);
       root \<leftarrow> mandatory json_string (s ! 2);
       r \<leftarrow> mandatory receipt_of_json (s ! 3);
       a \<leftarrow> mandatory completion_of_json (s ! 4);
       pol \<leftarrow> with_default policy_dto_default policy_dto_of_json (s ! 5);
       pd \<leftarrow> with_default None (nullable json_string) (s ! 6);
       Some (ReqComposedVerify c k root r a pol pd)}
     else None)"

fun request_of_json :: "json \<Rightarrow> request option" where
  "request_of_json (JObj kvs) =
     (case json_field ''cmd'' kvs of
        Some (Some (JStr cmd)) \<Rightarrow> request_of_fields cmd (JObj kvs)
      | _ \<Rightarrow> None)"
| "request_of_json (JArr (JStr cmd # js)) = request_of_fields cmd (JArr js)"
| "request_of_json _ = None"

section \<open>Writing responses\<close>

fun response_json :: "response \<Rightarrow> json" where
  "response_json (RspIssue b c k) =
     JObj [(''ok'', JBool b), (''chain'', chain_json c), (''root_key'', public_key_json k)]"
| "response_json (RspAttenuate b c k) =
     JObj [(''ok'', JBool b), (''chain'', chain_json c), (''to_key'', public_key_json k)]"
| "response_json (RspScope b s) = JObj [(''ok'', JBool b), (''effective_scope'', scope_json s)]"
| "response_json (RspDigest b d) = JObj [(''ok'', JBool b), (''digest'', JStr d)]"
| "response_json (RspWitnessAppend b r log i root incl) =
     JObj [(''ok'', JBool b), (''receipt'', action_receipt_json r), (''log'', list_json action_receipt_json log),
           (''leaf_index'', JNum i), (''root'', JStr root), (''inclusion_proof'', inclusion_proof_json incl)]"
| "response_json (RspAttest b a) = JObj [(''ok'', JBool b), (''completion'', completion_json a)]"
| "response_json (RspPubkey b k) = JObj [(''ok'', JBool b), (''public_key'', public_key_json k)]"
| "response_json (RspError b e) = JObj [(''ok'', JBool b), (''error'', JStr e)]"

section \<open>The process\<close>

text \<open>\<^verbatim>\<open>serde_json::from_str\<close> for requests, and \<^verbatim>\<open>emit\<close>: the bytes it writes.\<close>

definition read_request :: "(string \<Rightarrow> string + json) \<Rightarrow> (json \<Rightarrow> string) \<Rightarrow> string \<Rightarrow> string + request" where
  "read_request text_parse mismatch input =
     and_then (text_parse input) (\<lambda>j. ok_or (request_of_json j) (mismatch j))"

definition emit :: "(json \<Rightarrow> string) \<Rightarrow> response \<Rightarrow> string" where
  "emit text resp = text (response_json resp) @ [nl]"

definition sidecar_process ::
  "prims \<Rightarrow> (string \<Rightarrow> string + json) \<Rightarrow> (json \<Rightarrow> string) \<Rightarrow> (json \<Rightarrow> string) \<Rightarrow> string + string \<Rightarrow> (string \<times> nat) option" where
  "sidecar_process P text_parse mismatch text stdin =
     map_option (\<lambda>(resp, code). (emit text resp, code))
       (sidecar_main P (read_request text_parse mismatch) stdin)"

section \<open>The browser\<close>

definition wasm_request_of_json :: "json \<Rightarrow> wasm_request option" where
  "wasm_request_of_json j = do {
     s \<leftarrow> slots [''chain'', ''root_key'', ''trusted_root'', ''action_receipt'', ''completion'', ''trusted_attesters'',
        ''allow_counter_signed''] j;
     c \<leftarrow> mandatory chain_of_json (s ! 0);
     k \<leftarrow> mandatory public_key_of_json (s ! 1);
     root \<leftarrow> mandatory json_string (s ! 2);
     r \<leftarrow> mandatory receipt_of_json (s ! 3);
     a \<leftarrow> mandatory completion_of_json (s ! 4);
     ks \<leftarrow> with_default [] (json_list public_key_of_json) (s ! 5);
     b \<leftarrow> with_default False json_bool (s ! 6);
     Some \<lparr>wr_chain = c, wr_root_key = k, wr_trusted_root = root, wr_action_receipt = r, wr_completion = a,
           wr_trusted_attesters = ks, wr_allow_counter_signed = b\<rparr>}"

definition read_wasm_request :: "(string \<Rightarrow> string + json) \<Rightarrow> (json \<Rightarrow> string) \<Rightarrow> string \<Rightarrow> string + wasm_request" where
  "read_wasm_request text_parse mismatch input =
     and_then (text_parse input) (\<lambda>j. ok_or (wasm_request_of_json j) (mismatch j))"

section \<open>Requests that read\<close>

text \<open>What a client sends.\<close>

definition command :: "string \<Rightarrow> (string \<times> json) list \<Rightarrow> json" where
  "command cmd kvs = JObj ((''cmd'', JStr cmd) # kvs)"

lemmas wire_reads = principal_form.dec_enc scope_form.dec_enc chain_form.dec_enc public_key_form.dec_enc
  receipt_form.dec_enc

lemma read_commands:
  "request_of_json (command ''issue'' [(''seed'', JStr sd), (''principal'', principal_json p), (''scope'', scope_json s)]) =
     Some (ReqIssue sd p s)"
  "request_of_json (command ''attenuate'' [(''chain'', chain_json c), (''signer_seed'', JStr sd), (''to'', principal_json p),
     (''to_seed'', JStr td), (''scope'', scope_json s), (''purpose'', JStr pur)]) = Some (ReqAttenuate c sd p td s pur)"
  "request_of_json (command ''verify'' [(''chain'', chain_json c), (''root_key'', public_key_json k)]) = Some (ReqVerify c k)"
  "request_of_json (command ''pubkey'' [(''seed'', JStr sd)]) = Some (ReqPubkey sd)"
  "request_of_json (command ''chain_digest'' [(''chain'', chain_json c)]) = Some (ReqChainDigest c)"
  "request_of_json (command ''bind_action'' [(''purpose'', JStr pur), (''params_digest'', JStr d)]) = Some (ReqBindAction pur d)"
  by (simp_all add: command_def request_of_fields_def json_field_def wire_reads)

lemma read_append:
  "request_of_json (command ''witness_append'' [(''log'', list_json action_receipt_json log), (''chain_digest'', JStr cd),
     (''action_digest'', JStr ad), (''nonce'', JStr n), (''prev_root'', JStr pr)]) = Some (ReqWitnessAppend log cd ad n pr)"
  using receipt_form.dec_list [of log] by (simp add: command_def request_of_fields_def json_field_def)

lemma read_attest:
  assumes "proof_fits incl"
  shows "request_of_json (command ''attest'' [(''seed'', JStr sd), (''attester'', principal_json p), (''chain_digest'', JStr cd),
     (''requested_action'', JStr rq), (''outcome'', JStr oc), (''witnessed_root'', JStr wr),
     (''inclusion_proof'', inclusion_proof_json incl)]) = Some (ReqAttest sd p cd rq oc wr incl AttestThirdParty)"
  using inclusion_form.dec_enc [OF assms] by (simp add: command_def request_of_fields_def json_field_def wire_reads)

lemma read_policy:
  "policy_dto_of_json (JObj [(''trusted_attesters'', list_json public_key_json ks)]) =
     Some \<lparr>pd_trusted_attesters = ks, pd_allow_counter_signed = False\<rparr>"
  using public_key_form.dec_list [of ks] by (simp add: policy_dto_of_json_def json_field_def)

lemma read_composed:
  assumes "proof_fits (inclusion a)"
  shows "request_of_json (command ''composed_verify'' [(''chain'', chain_json c), (''root_key'', public_key_json k),
     (''trusted_root'', JStr root), (''action_receipt'', action_receipt_json r), (''completion'', completion_json a),
     (''policy'', JObj [(''trusted_attesters'', list_json public_key_json ks)])]) =
     Some (ReqComposedVerify c k root r a \<lparr>pd_trusted_attesters = ks, pd_allow_counter_signed = False\<rparr> None)"
  using completion_form.dec_enc [of a] assms
  by (simp add: command_def request_of_fields_def json_field_def wire_reads read_policy)

section \<open>A session in JSON\<close>

text \<open>The answer to a request that is not an error.\<close>

definition sidecar_answer :: "prims \<Rightarrow> json \<Rightarrow> json option" where
  "sidecar_answer P j = do {
     req \<leftarrow> request_of_json j;
     res \<leftarrow> handle P req;
     case res of Inl e \<Rightarrow> None | Inr resp \<Rightarrow> Some (response_json resp)}"

lemma answered: "request_of_json j = Some req \<Longrightarrow> handle P req = Some (Inr resp) \<Longrightarrow> sidecar_answer P j = Some (response_json resp)"
  by (simp add: sidecar_answer_def)

text \<open>In the process: the answer is what is written, and the exit status is zero.\<close>

lemma sidecar_answer_Some:
  "sidecar_answer P j = Some a \<longleftrightarrow>
     (\<exists>req resp. request_of_json j = Some req \<and> handle P req = Some (Inr resp) \<and> a = response_json resp)"
proof
  assume "sidecar_answer P j = Some a"
  then obtain req res where "request_of_json j = Some req" "handle P req = Some res"
    "(case res of Inl e \<Rightarrow> None | Inr resp \<Rightarrow> Some (response_json resp)) = Some a"
    by (auto simp: sidecar_answer_def bind_eq_Some_conv)
  then show "\<exists>req resp. request_of_json j = Some req \<and> handle P req = Some (Inr resp) \<and> a = response_json resp"
    by (cases res) auto
qed (auto simp: answered)

lemma sidecar_writes_answer:
  assumes "sidecar_answer P j = Some a" and "text_parse input = Inr j"
  shows "sidecar_process P text_parse mismatch text (Inr input) = Some (text a @ [nl], 0)"
  using assms unfolding sidecar_answer_Some
  by (auto simp: sidecar_process_def sidecar_main_def read_request_def emit_def ok_or_def)

text \<open>
  From two seeds to an accepted action, every request made of members of the answers
  before: issue, delegate, digest, append, attest, verify.
\<close>

lemma json_session_accepted:
  assumes codec: "hex_ok P" and good: "ed_good P hs" "ed_good P ns"
    and hop: "\<not> trim_is_empty pur" "narrows s' s" "max_depth s' < max_depth s"
    and keys: "ed_public P ns \<noteq> ed_public P as" and small: "Suc (length log) < 2 ^ 64"
  shows "\<exists>r0 r1 r2 r3 r4.
    sidecar_answer P (command ''issue'' [(''seed'', JStr (hex_of P hs)), (''principal'', principal_json who),
      (''scope'', scope_json s)]) = Some r0 \<and>
    sidecar_answer P (command ''attenuate'' [(''chain'', member ''chain'' r0), (''signer_seed'', JStr (hex_of P hs)),
      (''to'', principal_json agent), (''to_seed'', JStr (hex_of P as)), (''scope'', scope_json s'), (''purpose'', JStr pur)]) = Some r1 \<and>
    sidecar_answer P (command ''chain_digest'' [(''chain'', member ''chain'' r1)]) = Some r2 \<and>
    sidecar_answer P (command ''witness_append'' [(''log'', list_json action_receipt_json log), (''chain_digest'', member ''digest'' r2),
      (''action_digest'', JStr (hex_of P ad)), (''nonce'', JStr (hex_of P n)), (''prev_root'', JStr (hex_of P pr))]) = Some r3 \<and>
    sidecar_answer P (command ''attest'' [(''seed'', JStr (hex_of P ns)), (''attester'', principal_json notary),
      (''chain_digest'', member ''digest'' r2), (''requested_action'', JStr (hex_of P ad)), (''outcome'', JStr (hex_of P ad)),
      (''witnessed_root'', member ''root'' r3), (''inclusion_proof'', member ''inclusion_proof'' r3)]) = Some r4 \<and>
    sidecar_answer P (command ''composed_verify'' [(''chain'', member ''chain'' r1), (''root_key'', member ''root_key'' r0),
      (''trusted_root'', member ''root'' r3), (''action_receipt'', member ''receipt'' r3), (''completion'', member ''completion'' r4),
      (''policy'', JObj [(''trusted_attesters'', list_json public_key_json [sg_public_key (ed25519_from_seed P ns)])])]) =
      Some (JObj [(''ok'', JBool True), (''effective_scope'', scope_json s')])"
proof -
  let ?h = "ed25519_from_seed P hs" and ?a = "ed25519_from_seed P as" and ?n = "ed25519_from_seed P ns"
  have h: "signer_ok P ?h" using good by (simp add: ed.ok)
  from issue_tail [OF h] obtain c0 h0 where
    0: "chain_issue P ?h who s = Some c0" "built P (sg_public_key ?h) c0" "chain_tail P c0 = (s, sg_public_key ?h, who, h0)"
    by meson
  from attenuate_step [OF h 0(2,3) hop] obtain c1 h1 where
    1: "attenuate P c0 ?h agent (sg_public_key ?a) s' pur = Inr c1" "built P (sg_public_key ?h) c1"
      "chain_tail P c1 = (s', sg_public_key ?a, agent, h1)"
    by meson
  have "delegations c1 \<noteq> []" using attenuate_shape [OF 1(1)] by auto
  then have "executor_key c1 = sg_public_key ?a" using executor_key_tail 1(3) by blast
  with keys have apart: "sg_public_key ?n \<noteq> executor_key c1" by (simp add: ed25519_from_seed_def)
  have "length log < 2 ^ 64" using small by simp
  from session_steps [OF codec 1(2) good(2) refl apart _ this, of "[sg_public_key ?n]" ad n pr notary] obtain cd r root incl a where
    2: "handle P (ReqChainDigest c1) = Some (Inr (RspDigest True cd))"
      "handle P (ReqWitnessAppend log cd (hex_of P ad) (hex_of P n) (hex_of P pr)) =
         Some (Inr (RspWitnessAppend True r (log @ [r]) (length log) root incl))"
      "handle P (ReqAttest (hex_of P ns) notary cd (hex_of P ad) (hex_of P ad) root incl AttestThirdParty) = Some (Inr (RspAttest True a))"
      "handle P (ReqComposedVerify c1 (sg_public_key ?h) root r a
         \<lparr>pd_trusted_attesters = [sg_public_key ?n], pd_allow_counter_signed = False\<rparr> None) = Some (Inr (RspScope True s'))"
      "proof_fits incl" "inclusion a = incl"
    using small 1(3) by (auto simp: proof_fits_def simp del: handle.simps)
  have fits: "proof_fits (inclusion a)" using 2(5,6) by simp
  have "handle P (ReqIssue (hex_of P hs) who s) = Some (Inr (RspIssue True c0 (sg_public_key ?h)))"
    "handle P (ReqAttenuate c0 (hex_of P hs) agent (hex_of P as) s' pur) = Some (Inr (RspAttenuate True c1 (sg_public_key ?a)))"
    using codec 0(1) 1(1) by (simp_all add: Let_def)
  note answers = answered [OF read_commands(1) this(1)] answered [OF read_commands(2) this(2)]
    answered [OF read_commands(5) 2(1)] answered [OF read_append 2(2)] answered [OF read_attest [OF 2(5)] 2(3)]
    answered [OF read_composed [OF fits] 2(4)]
  show ?thesis
    by (rule exI [of _ "response_json (RspIssue True c0 (sg_public_key ?h))"],
        rule exI [of _ "response_json (RspAttenuate True c1 (sg_public_key ?a))"],
        rule exI [of _ "response_json (RspDigest True cd)"],
        rule exI [of _ "response_json (RspWitnessAppend True r (log @ [r]) (length log) root incl)"],
        rule exI [of _ "response_json (RspAttest True a)"])
      (simp add: answers)
qed

section \<open>The same request in the browser\<close>

lemma verify_unanchored:
  assumes "verify P act rk root pol = Inr s" and "\<not> attester_is_anchored (va_chain act) (va_completion act) pol'"
  shows "verify P act rk root pol' = Inl AttesterNotAnchored"
  using assms by (auto simp: verify_def Let_def and_then_Inr_iff split: if_splits)

lemma default_policy_anchors_none: "\<not> attester_is_anchored c a \<lparr>trusted_attesters = [], allow_counter_signed = False\<rparr>"
  by (simp add: attester_is_anchored_iff)

text \<open>The members of a \<^verbatim>\<open>composed_verify\<close> request that both entry points read.\<close>

definition action_members ::
  "chain \<Rightarrow> public_key \<Rightarrow> string \<Rightarrow> action_receipt \<Rightarrow> completion_attestation \<Rightarrow> (string \<times> json) list" where
  "action_members c k root r a =
     [(''chain'', chain_json c), (''root_key'', public_key_json k), (''trusted_root'', JStr root),
      (''action_receipt'', action_receipt_json r), (''completion'', completion_json a)]"

definition policy_json :: "public_key list \<Rightarrow> json" where
  "policy_json ks = JObj [(''trusted_attesters'', list_json public_key_json ks)]"

lemma read_action:
  assumes "proof_fits (inclusion a)"
  shows "request_of_json (command ''composed_verify'' (action_members c k root r a @ [(''policy'', policy_json ks)])) =
      Some (ReqComposedVerify c k root r a \<lparr>pd_trusted_attesters = ks, pd_allow_counter_signed = False\<rparr> None)"
    and "wasm_request_of_json (command ''composed_verify'' (action_members c k root r a @ [(''policy'', policy_json ks)])) =
      Some \<lparr>wr_chain = c, wr_root_key = k, wr_trusted_root = root, wr_action_receipt = r, wr_completion = a,
            wr_trusted_attesters = [], wr_allow_counter_signed = False\<rparr>"
  using read_composed [OF assms, of c k root r ks] completion_form.dec_enc [of a] assms
  by (simp_all add: action_members_def policy_json_def wasm_request_of_json_def command_def json_field_def wire_reads)

lemma read_action_params:
  assumes "proof_fits (inclusion a)"
  shows "request_of_json (command ''composed_verify'' (action_members c k root r a @
      [(''policy'', policy_json ks), (''params_digest'', JStr pd), (''trusted_attesters'', list_json public_key_json ks)])) =
      Some (ReqComposedVerify c k root r a \<lparr>pd_trusted_attesters = ks, pd_allow_counter_signed = False\<rparr> (Some pd))"
    and "wasm_request_of_json (command ''composed_verify'' (action_members c k root r a @
      [(''policy'', policy_json ks), (''params_digest'', JStr pd), (''trusted_attesters'', list_json public_key_json ks)])) =
      Some \<lparr>wr_chain = c, wr_root_key = k, wr_trusted_root = root, wr_action_receipt = r, wr_completion = a,
            wr_trusted_attesters = ks, wr_allow_counter_signed = False\<rparr>"
  using completion_form.dec_enc [of a] public_key_form.dec_list [of ks] assms
  by (simp_all add: action_members_def policy_json_def wasm_request_of_json_def request_of_fields_def command_def
      json_field_def wire_reads read_policy)

text \<open>
  The policy of a sidecar request sits where the browser does not look: what the sidecar
  accepts is refused there, for want of a trusted attester.
\<close>

lemma wasm_refuses_sidecar_request:
  assumes j: "j = command ''composed_verify'' (action_members c k root r a @ [(''policy'', policy_json ks)])"
    and "proof_fits (inclusion a)" and "str_trim root = root" and "sidecar_answer P j = Some ans" and "text_parse input = Inr j"
  shows "verify_action P (read_wasm_request text_parse mismatch) input =
    JObj [(''error'', JStr (verify_error_string AttesterNotAnchored)), (''ok'', JBool False)]"
proof -
  let ?act = "\<lparr>va_chain = c, va_receipt = r, va_completion = a\<rparr>"
  from assms(4) obtain d s where d: "digest_from_hex P root = Inr d"
    and ok: "verify P ?act k d \<lparr>trusted_attesters = ks, allow_counter_signed = False\<rparr> = Inr s"
    unfolding sidecar_answer_Some j read_action(1) [OF assms(2)] by (auto simp: or_fail_Inr_iff Let_def)
  obtain bs where bs: "hex_decode P root = Inr bs" "try_bytes32 bs = Some d"
    using d by (auto simp: digest_from_hex_def and_then_Inr_iff)
  have "verify P ?act k d \<lparr>trusted_attesters = [], allow_counter_signed = False\<rparr> = Inl AttesterNotAnchored"
    by (rule verify_unanchored [OF ok]) (rule default_policy_anchors_none)
  then show ?thesis
    using read_action(2) [OF assms(2)] assms(3,5) bs
    by (simp add: verify_action_answers wasm_run_def read_wasm_request_def j)
qed

text \<open>
  With the policy given in both places, the parameters are checked against the purpose by
  the sidecar only.
\<close>

lemma wasm_skips_purpose:
  assumes j: "j = command ''composed_verify'' (action_members c k root r a @
      [(''policy'', policy_json ks), (''params_digest'', JStr pd), (''trusted_attesters'', list_json public_key_json ks)])"
    and fits: "proof_fits (inclusion a)" and root: "str_trim root = root" "digest_from_hex P root = Inr rd" and input: "text_parse input = Inr j"
    and ok: "verify P \<lparr>va_chain = c, va_receipt = r, va_completion = a\<rparr> k rd
      \<lparr>trusted_attesters = ks, allow_counter_signed = False\<rparr> = Inr s"
    and pd: "digest_from_hex P pd = Inr d" "bind_action P (purpose (last (delegations c))) d \<noteq> action_digest r"
  shows "sidecar_process P text_parse mismatch text (Inr input) =
      Some (text (JObj [(''ok'', JBool False), (''error'', JStr (verify_error_string PurposeMismatch))]) @ [nl], 1) \<and>
    verify_action P (read_wasm_request text_parse mismatch) input =
      JObj [(''effective_scope'', by_key (scope_json s)), (''ok'', JBool True)]"
proof
  let ?act = "\<lparr>va_chain = c, va_receipt = r, va_completion = a\<rparr>"
  have "verify_action_purpose_binding P ?act d = Inl PurposeMismatch"
    using pd(2) by (simp add: verify_action_purpose_binding_def)
  then have "handle P (ReqComposedVerify c k root r a \<lparr>pd_trusted_attesters = ks, pd_allow_counter_signed = False\<rparr> (Some pd)) =
      Some (Inl (verify_error_string PurposeMismatch))"
    using root(2) pd(1) purpose_gate.gate_first [of P ?act d PurposeMismatch] by simp
  then show "sidecar_process P text_parse mismatch text (Inr input) =
      Some (text (JObj [(''ok'', JBool False), (''error'', JStr (verify_error_string PurposeMismatch))]) @ [nl], 1)"
    using read_action_params(1) [OF fits] input
    by (simp add: sidecar_process_def sidecar_main_def read_request_def emit_def j del: handle.simps)
  obtain bs where "hex_decode P root = Inr bs" "try_bytes32 bs = Some rd"
    using root(2) by (auto simp: digest_from_hex_def and_then_Inr_iff)
  then show "verify_action P (read_wasm_request text_parse mismatch) input =
      JObj [(''effective_scope'', by_key (scope_json s)), (''ok'', JBool True)]"
    using read_action_params(2) [OF fits] root(1) input ok
    by (simp add: verify_action_answers wasm_run_def read_wasm_request_def j)
qed

end
