(* ===== verification/Startup.thy ===== *)
theory Startup
  imports Witness_Http Revocation_Http
begin

text \<open>
  The two executables \<^verbatim>\<open>services/witness/src/main.rs\<close> and
  \<^verbatim>\<open>services/revocation-log/src/main.rs\<close>: from the environment to the state that is
  served. \<^verbatim>\<open>None\<close> is a panic, with which nothing is served. A variable that is unset or not
  Unicode is \<^verbatim>\<open>None\<close>; the file behind a path is what reading it gives and the failures of
  opening and truncating it; binding the address succeeds or not.
\<close>

section \<open>The executables\<close>

definition env_signer :: "prims \<Rightarrow> string option \<Rightarrow> bytes32 option \<Rightarrow> signer option" where
  "env_signer P seed rng =
     (case seed of
        Some h \<Rightarrow> map_option (ed25519_from_seed P) (Option.bind (hex_bytes P h) try_bytes32)
      | None \<Rightarrow> (case ed25519_generate P rng of Inl _ \<Rightarrow> None | Inr sg \<Rightarrow> Some sg))"

record witness_env =
  we_seed :: "string option"
  we_addr :: "string option"
  we_db :: "string option"

type_synonym file_access = "file_read \<times> string option \<times> string option"

definition witness_state ::
  "prims \<Rightarrow> witness_env \<Rightarrow> (string \<Rightarrow> file_access) \<Rightarrow> signer \<Rightarrow> witness_service option" where
  "witness_state P env files sg =
     (case we_db env of
        Some p \<Rightarrow>
          (case files p of (contents, open_failure, truncate_failure) \<Rightarrow>
            (case witness_service_persistent P sg contents open_failure truncate_failure of
               Inl _ \<Rightarrow> None
             | Inr st \<Rightarrow> Some st))
      | None \<Rightarrow> Some (witness_service_new sg))"

definition witness_main ::
  "prims \<Rightarrow> witness_env \<Rightarrow> bytes32 option \<Rightarrow> (string \<Rightarrow> file_access) \<Rightarrow> (string \<Rightarrow> bool) \<Rightarrow>
   (string \<times> witness_service) option" where
  "witness_main P env rng files binds = do {
     sg \<leftarrow> env_signer P (we_seed env) rng;
     st \<leftarrow> witness_state P env files sg;
     let addr = (case we_addr env of None \<Rightarrow> ''127.0.0.1:8787'' | Some a \<Rightarrow> a);
     if binds addr then Some (addr, st) else None}"

record revocation_env =
  re_seed :: "string option"
  re_addr :: "string option"

definition revocation_main ::
  "prims \<Rightarrow> revocation_env \<Rightarrow> bytes32 option \<Rightarrow> (string \<Rightarrow> bool) \<Rightarrow> (string \<times> revocation_service) option" where
  "revocation_main P env rng binds = do {
     sg \<leftarrow> env_signer P (re_seed env) rng;
     let addr = (case re_addr env of None \<Rightarrow> ''127.0.0.1:8788'' | Some a \<Rightarrow> a);
     if binds addr then Some (addr, revocation_service_new sg) else None}"

section \<open>Which key is served\<close>

text \<open>
  A seed that is set decides the key; one that is not 32 bytes of hexadecimal stops the
  process, it is never replaced by a fresh key.
\<close>

lemma env_signer_seed:
  "env_signer P (Some h) rng = Some sg \<longleftrightarrow> (\<exists>seed. hex_bytes P h = Some (array_bytes seed) \<and> sg = ed25519_from_seed P seed)"
  by (auto simp: env_signer_def bind_eq_Some_conv try_bytes32_Some_iff)

lemma env_signer_fresh: "env_signer P None rng = map_option (ed25519_from_seed P) rng"
  by (cases rng) (simp_all add: env_signer_def ed25519_generate_def ok_or_def)

lemma env_signer_ok:
  assumes "env_signer P e rng = Some sg" and "\<forall>seed. ed_good P seed"
  shows "signer_ok P sg"
  using assms by (cases e) (auto simp: env_signer_seed env_signer_fresh ed.ok)

lemma bad_seed_stops:
  assumes "hex_bytes P h = None \<or> (\<exists>bs. hex_bytes P h = Some bs \<and> length bs \<noteq> 32)"
  shows "witness_main P \<lparr>we_seed = Some h, we_addr = a, we_db = d\<rparr> rng files binds = None"
    and "revocation_main P \<lparr>re_seed = Some h, re_addr = a\<rparr> rng binds = None"
  using assms by (auto simp: witness_main_def revocation_main_def env_signer_def try_bytes32_def)

text \<open>A log that cannot be read or replayed stops the process too.\<close>

lemma unreadable_log_stops:
  assumes "we_db env = Some p" and "files p = (ReadFailed e, f, t)"
  shows "witness_main P env rng files binds = None"
  using assms
  by (cases "env_signer P (we_seed env) rng")
    (simp_all add: witness_main_def witness_state_def witness_service_persistent_def store_open_def)

section \<open>A service over its restarts\<close>

lemma witness_main_log:
  assumes seed: "we_seed env = Some h" "hex_bytes P h = Some (array_bytes seed)" "ed_good P seed"
    and db: "we_db env = Some p" and addr: "addr = (case we_addr env of None \<Rightarrow> ''127.0.0.1:8787'' | Some a \<Rightarrow> a)" "binds addr"
    and disk: "files p = (FileBytes (frames P rs @ t), None, None)" "torn t"
    and log: "\<forall>r \<in> set rs. storable P r" "chained P rs"
  shows "\<exists>st. witness_main P env rng files binds = Some (addr, st) \<and> ws_log P st rs \<and> ws_store st = Some (frames P rs) \<and>
    ws_key st = sg_public_key (ed25519_from_seed P seed)"
proof -
  let ?sg = "ed25519_from_seed P seed"
  have sg: "env_signer P (Some h) rng = Some ?sg" by (simp add: env_signer_seed seed(2))
  from restart_log [OF log ed.ok [OF seed(3)] disk(2)] obtain st where
    st: "witness_service_persistent P ?sg (FileBytes (frames P rs @ t)) None None = Inr st" "ws_log P st rs"
      "on_disk P st rs" "ws_store st \<noteq> None" by blast
  then have "ws_store st = Some (frames P rs)" "ws_signer st = ?sg"
    by (auto simp: on_disk_def witness_service_persistent_def and_then_Inr_iff)
  moreover from this(2) st(2) have "ws_key st = sg_public_key ?sg" by (simp add: ws_log_def)
  ultimately show ?thesis
    using st(1,2) sg seed(1) db addr disk(1) by (simp add: witness_main_def witness_state_def)
qed

lemma missing_is_empty:
  "witness_service_persistent P sg FileMissing a b = witness_service_persistent P sg (FileBytes []) a b"
  by (simp add: witness_service_persistent_def store_open_def)

text \<open>While no write fails, a session keeps the file equal to the log.\<close>

lemma submit_refused_store:
  "submit P st q Written = Some (Inl e, st') \<Longrightarrow> ws_store st' = ws_store st"
  by (auto simp: submit_def store_append_def split: sum.splits option.splits prod.splits if_splits)

lemma witness_serve_store:
  assumes "witness_serve P rej Written rt q st = Some (reply, st')" and "reply_status reply \<noteq> 201"
  shows "ws_store st' = ws_store st"
proof (cases rt)
  case SubmitRoute
  show ?thesis
  proof (cases "json_body rej submit_request_of_json q")
    case (Inl r)
    with SubmitRoute assms(1) show ?thesis by simp
  next
    case (Inr req)
    with SubmitRoute assms(1) obtain res where
      s: "submit P st req Written = Some (res, st')"
      "reply = reply_of (\<lambda>(status, resp). JsonReply status (submit_response_json resp)) res" by auto
    show ?thesis
    proof (cases res)
      case (Inl e)
      with s(1) submit_refused_store show ?thesis by blast
    next
      case (Inr x)
      with s(1) have "fst x = 201"
        by (auto simp: submit_def split: sum.splits option.splits prod.splits if_splits)
      with s(2) assms(2) Inr show ?thesis by (cases x) simp
    qed
  qed
next
  case GossipRoute
  with assms show ?thesis by (auto simp: gossip_def split: sum.splits option.splits prod.splits)
qed (use assms in \<open>auto simp: get_sth_def get_proof_def get_consistency_def get_checkpoint_def Let_def
  split: sum.splits option.splits prod.splits\<close>)

lemma witness_app_store:
  assumes "witness_app P rej Written q st = Some (reply, st')" and "reply_status reply \<noteq> 201"
  shows "ws_store st' = ws_store st"
proof (cases "route witness_routes q")
  case (Inl r)
  with assms(1) show ?thesis by (simp add: witness_app_def routed_def)
next
  case (Inr hb)
  obtain h b where hb: "hb = (h, b)" by (cases hb)
  from assms(1) Inr hb obtain reply' where s: "witness_serve P rej Written h q st = Some (reply', st')"
    "reply = (if b then without_body else id) reply'" by (auto simp: witness_app_def routed_def)
  from s(2) assms(2) have "reply_status reply' \<noteq> 201" by (auto split: if_splits)
  with witness_serve_store s(1) show ?thesis by blast
qed

lemma session_keeps_disk:
  assumes "ws_log P st rs" and "ws_store st = Some (frames P rs)" and "length rs + length qs < 2 ^ 64"
    and "\<forall>q \<in> set qs. refuses_as_client_error (fst q) \<and> snd q = Written"
  shows "\<exists>replies st' xs. witness_session P rej st qs = Some (replies, st') \<and> length replies = length qs \<and>
    ws_log P st' (rs @ xs) \<and> ws_store st' = Some (frames P (rs @ xs)) \<and> ws_key st' = ws_key st \<and>
    acknowledge_all P (ws_key st) rs xs (acknowledged replies)"
  using assms
proof (induction qs arbitrary: st rs)
  case Nil
  then show ?case by (intro exI [of _ "[]"] exI [of _ st]) (simp add: acknowledged_def)
next
  case (Cons p qs)
  obtain q where p: "p = (q, Written)" "refuses_as_client_error q" using Cons.prems(4) by (cases p) auto
  from witness_app_answers [OF Cons.prems(1) _ p(2), of rej Written] Cons.prems(3) obtain reply st1 where
    a: "witness_app P rej Written q st = Some (reply, st1)"
    and c: "if reply_status reply = 201
     then \<exists>req r resp. hq_method q = ''POST'' \<and> hq_path q = ''/witness/v1/entries'' \<and>
       json_body rej submit_request_of_json q = Inr req \<and> to_receipt P req = Inr r \<and>
       reply = JsonReply 201 (submit_response_json resp) \<and> ws_log P st1 (rs @ [r]) \<and>
       prev_root r = naive_root P (receipt_leaves P rs) \<and>
       persist P (ws_store st) r Written = (Inr (), ws_store st1) \<and> acknowledges P (ws_key st) rs r resp
     else ws_log P st1 rs" by auto
  have key: "ws_key st1 = ws_key st" using witness_app_key [OF a] .
  show ?case
  proof (cases "reply_status reply = 201")
    case False
    with c witness_app_store [OF a] Cons.prems(2) have "ws_log P st1 rs" "ws_store st1 = Some (frames P rs)" by simp_all
    from Cons.IH [OF this] Cons.prems(3,4) key a False show ?thesis by (auto simp: p acknowledged_def)
  next
    case True
    with c obtain r resp where r: "reply = JsonReply 201 (submit_response_json resp)" "ws_log P st1 (rs @ [r])"
      "acknowledges P (ws_key st) rs r resp" "persist P (ws_store st) r Written = (Inr (), ws_store st1)" by auto
    from r(4) Cons.prems(2) have "ws_store st1 = Some (frames P (rs @ [r]))"
      by (auto simp: persist_def store_append_def split: if_splits)
    from Cons.IH [OF r(2) this] Cons.prems(3,4) obtain replies st' xs where
      ih: "witness_session P rej st1 qs = Some (replies, st')" "length replies = length qs" "ws_log P st' (rs @ r # xs)"
        "ws_store st' = Some (frames P (rs @ r # xs))" "ws_key st' = ws_key st"
        "acknowledge_all P (ws_key st) (rs @ [r]) xs (acknowledged replies)"
      by (auto simp: key)
    have "acknowledged (reply # replies) = reply # acknowledged replies" using True by (simp add: acknowledged_def)
    then show ?thesis
      using a ih r(1,3) by (intro exI [of _ "reply # replies"] exI [of _ st'] exI [of _ "r # xs"]) (auto simp: p)
  qed
qed

text \<open>
  The life of a log: the executable starts on a missing file, serves requests, is stopped
  inside an append, and is started again with the same environment.
\<close>

lemma log_outlives_process:
  assumes seed: "we_seed env = Some h" "hex_bytes P h = Some (array_bytes seed)" "ed_good P seed"
    and db: "we_db env = Some p" and addr: "addr = (case we_addr env of None \<Rightarrow> ''127.0.0.1:8787'' | Some a \<Rightarrow> a)" "binds addr"
    and disk: "files p = (FileMissing, None, None)"
    and qs: "\<forall>q \<in> set qs. refuses_as_client_error (fst q) \<and> snd q = Written" "length qs < 2 ^ 64"
  shows "\<exists>st replies st1 rs. witness_main P env rng files binds = Some (addr, st) \<and>
    witness_session P rej st qs = Some (replies, st1) \<and> length replies = length qs \<and>
    acknowledge_all P (ws_key st) [] rs (acknowledged replies) \<and> ws_log P st1 rs \<and>
    (\<forall>t. torn t \<and> (\<forall>r \<in> set rs. storable P r) \<longrightarrow>
      (\<exists>st2. witness_main P env rng' (files(p := (FileBytes (the (ws_store st1) @ t), None, None))) binds = Some (addr, st2) \<and>
        ws_log P st2 rs \<and> ws_key st2 = ws_key st))"
proof -
  let ?disk = "\<lambda>rs t. files(p := (FileBytes (frames P rs @ t), None, None))"
  have starts: "\<exists>st. witness_main P env g (?disk rs t) binds = Some (addr, st) \<and> ws_log P st rs \<and>
      ws_store st = Some (frames P rs) \<and> ws_key st = sg_public_key (ed25519_from_seed P seed)"
    if "torn t" "\<forall>r \<in> set rs. storable P r" "chained P rs" for g rs t
    by (rule witness_main_log [where binds = binds, OF seed db addr]) (use that in simp_all)
  have same: "witness_main P env rng files binds = witness_main P env rng (?disk [] []) binds"
    by (simp add: witness_main_def witness_state_def db disk missing_is_empty frames_def)
  from starts [of "[]" "[]" rng] obtain st where
    st: "witness_main P env rng files binds = Some (addr, st)" "ws_log P st []" "ws_store st = Some (frames P [])"
      "ws_key st = sg_public_key (ed25519_from_seed P seed)" by (auto simp: same chained_def)
  from session_keeps_disk [OF st(2,3) _ qs(1), of rej] qs(2) obtain replies st1 rs where
    s: "witness_session P rej st qs = Some (replies, st1)" "length replies = length qs" "ws_log P st1 rs"
      "ws_store st1 = Some (frames P rs)" "acknowledge_all P (ws_key st) [] rs (acknowledged replies)" by auto
  have "chained P rs" using s(3) by (simp add: ws_log_def)
  with starts [of _ rs rng'] st(4) s(4) have "\<forall>t. torn t \<and> (\<forall>r \<in> set rs. storable P r) \<longrightarrow>
      (\<exists>st2. witness_main P env rng' (files(p := (FileBytes (the (ws_store st1) @ t), None, None))) binds = Some (addr, st2) \<and>
        ws_log P st2 rs \<and> ws_key st2 = ws_key st)" by fastforce
  with st(1) s show ?thesis by (intro exI [of _ st] exI [of _ replies] exI [of _ st1] exI [of _ rs]) simp
qed

section \<open>The revocation service keeps nothing\<close>

lemma revocation_main_starts:
  assumes "re_seed env = Some h" and "hex_bytes P h = Some (array_bytes seed)"
    and "addr = (case re_addr env of None \<Rightarrow> ''127.0.0.1:8788'' | Some a \<Rightarrow> a)" and "binds addr"
  shows "revocation_main P env rng binds = Some (addr, revocation_service_new (ed25519_from_seed P seed))"
  using assms by (simp add: revocation_main_def env_signer_def)

lemma older_epoch_refused:
  assumes ok: "rs_ok P st h" and client: "operator_key c = rs_key st" "rl_epoch (rs_log st) < last_seen_epoch c"
  shows "\<exists>reply. revocation_app P rej published (get_request ''/revocations/v1/snapshot'' []) st = Some (reply, st) \<and>
    snapshot_is_revoked P c (http_fetch (\<lambda>_ _. Inr (snapshot_response malformed reply)) src) now i =
      (Inl (LogUnreachable ''revocation snapshot epoch rolled back''), c)"
proof -
  from current_snapshot_ok [OF ok, of published] obtain sn where
    sn: "get_snapshot P st published = Some sn" "sn_revoked sn = rl_revoked (rs_log st)" "sn_epoch sn = rl_epoch (rs_log st)"
      "snapshot_verify_signature P sn (rs_key st)" by (auto simp: get_snapshot_def)
  have "finite (sn_revoked sn)" using ok sn(2) by (simp add: rs_ok_def rl_ok_def)
  then have "snapshot_response malformed (JsonReply 200 (snapshot_json sn)) = (200, Inr sn)"
    by (simp add: snapshot_response_def snapshot_form.dec_enc)
  then have "http_fetch (\<lambda>_ _. Inr (snapshot_response malformed (JsonReply 200 (snapshot_json sn)))) src = Inr sn"
    by (simp add: http_fetch_def)
  then show ?thesis
    using sn client
    by (intro exI [of _ "JsonReply 200 (snapshot_json sn)"])
      (simp add: revocation_client snapshot_is_revoked_def snapshot_guards_def)
qed

text \<open>
  The published set lives in memory. After a restart under the same key a client that saw
  a later epoch fails closed, and one that has seen none is told that a revoked id is live.
\<close>

lemma restart_forgets_revocations:
  assumes seed: "re_seed env = Some h" "hex_bytes P h = Some (array_bytes seed)" "ed_good P seed"
    and addr: "addr = (case re_addr env of None \<Rightarrow> ''127.0.0.1:8788'' | Some a \<Rightarrow> a)" "binds addr"
    and id: "revocation_id_from_hex P s = Inr i" and fresh: "unat now - unat published \<le> unat stale"
  shows "\<exists>st body st1 st2 reply. revocation_main P env rng binds = Some (addr, st) \<and>
    revocation_app P rej t (post_request ''/revocations/v1/revoke''
      (JObj [(''revocation_id'', JStr s), (''reason'', JStr reason)])) st = Some (JsonReply 201 body, st1) \<and>
    i \<in> rl_revoked (rs_log st1) \<and> rl_epoch (rs_log st1) = 1 \<and>
    revocation_main P env rng' binds = Some (addr, st2) \<and>
    revocation_app P rej published (get_request ''/revocations/v1/snapshot'' []) st2 = Some (reply, st2) \<and>
    fst (snapshot_is_revoked P (snapshot_checker_new (rs_key st) stale)
      (http_fetch (\<lambda>_ _. Inr (snapshot_response malformed reply)) src) now i) = Inr Live \<and>
    fst (snapshot_is_revoked P ((snapshot_checker_new (rs_key st) stale)\<lparr>last_seen_epoch := 1\<rparr>)
      (http_fetch (\<lambda>_ _. Inr (snapshot_response malformed reply)) src) now i) =
      Inl (LogUnreachable ''revocation snapshot epoch rolled back'')"
proof -
  let ?st = "revocation_service_new (ed25519_from_seed P seed)"
  have ok: "rs_ok P ?st []" by (rule rs_ok_new) (rule ed.ok [OF seed(3)])
  have empty: "rl_revoked (rs_log ?st) = {}" "rl_epoch (rs_log ?st) = 0" by (simp_all add: revocation_service_new_def)
  note main = revocation_main_starts [where binds = binds, OF seed(1,2) addr]
  let ?q = "\<lparr>rr_revocation_id = s, rr_reason = reason\<rparr>"
  from handle_revoke_ok [OF ok, of ?q i t] id obtain sn st1 where
    1: "handle_revoke P ?st ?q t = Some (Inr (201, sn), st1)" "rs_ok P st1 []" "rl_revoked (rs_log st1) = {i}"
    by (auto simp: empty)
  then have "rl_epoch (rs_log st1) = 1" by (simp add: rs_ok_def rl_ok_def)
  moreover
  let ?c = "snapshot_checker_new (rs_key ?st) stale"
  have "operator_key ?c = rs_key ?st" "last_seen_epoch ?c \<le> rl_epoch (rs_log ?st)" "unat now - unat published \<le> unat (max_staleness ?c)"
    using fresh by (simp_all add: snapshot_checker_new_def)
  from fetches_served [OF ok this, of rej malformed src i] obtain reply where
    2: "revocation_app P rej published (get_request ''/revocations/v1/snapshot'' []) ?st = Some (reply, ?st)"
      "fst (snapshot_is_revoked P ?c (http_fetch (\<lambda>_ _. Inr (snapshot_response malformed reply)) src) now i) = Inr Live"
    by (auto simp: empty)
  moreover
  have "operator_key (?c\<lparr>last_seen_epoch := 1\<rparr>) = rs_key ?st" "rl_epoch (rs_log ?st) < last_seen_epoch (?c\<lparr>last_seen_epoch := 1\<rparr>)"
    by (simp_all add: snapshot_checker_new_def empty)
  from older_epoch_refused [OF ok this, of rej published malformed src now i] 2(1) have
    "fst (snapshot_is_revoked P (?c\<lparr>last_seen_epoch := 1\<rparr>) (http_fetch (\<lambda>_ _. Inr (snapshot_response malformed reply)) src) now i) =
      Inl (LogUnreachable ''revocation snapshot epoch rolled back'')" by auto
  ultimately show ?thesis
    using main 1
    by (intro exI [of _ ?st] exI [of _ "snapshot_json sn"] exI [of _ st1] exI [of _ ?st] exI [of _ reply])
      (simp add: revocation_client)
qed

end
