(* ===== verification/Revocation_Threads.thy ===== *)
theory Revocation_Threads
  imports Revocation_Service
begin

text \<open>
  Concurrent requests to \<^verbatim>\<open>services/revocation-log\<close>. The handler \<^verbatim>\<open>revoke\<close> takes the lock of
  the log twice, once to insert the id and once inside \<^verbatim>\<open>current_snapshot\<close>; other handlers
  may run in between. A step is one critical section of one thread.
\<close>

section \<open>Steps\<close>

text \<open>The id a thread has inserted and not yet answered for.\<close>

record revocation_threads =
  rt_service :: revocation_service
  rt_pending :: "nat \<rightharpoonup> revocation_id"

text \<open>A label is a snapshot that was signed, with the id whose revocation it answers.\<close>

type_synonym signing = "revocation_id option \<times> snapshot"

inductive section_step :: "prims \<Rightarrow> revocation_threads \<Rightarrow> signing option \<Rightarrow> revocation_threads \<Rightarrow> bool" for P where
  update: "rt_pending s t = None \<Longrightarrow> revocation_id_from_hex P (rr_revocation_id (q :: revoke_request)) = Inr i \<Longrightarrow>
    section_step P s None
      \<lparr>rt_service = (rt_service s)\<lparr>rs_log := revoke_update (rs_log (rt_service s)) i (rr_reason q)\<rparr>,
       rt_pending = (rt_pending s)(t \<mapsto> i)\<rparr>"
| answer: "rt_pending s t = Some i \<Longrightarrow> current_snapshot P (rt_service s) now = Some sn \<Longrightarrow>
    section_step P s (Some (Some i, sn)) (s\<lparr>rt_pending := (rt_pending s)(t := None)\<rparr>)"
| serve: "rt_pending s t = None \<Longrightarrow> get_snapshot P (rt_service s) now = Some sn \<Longrightarrow> section_step P s (Some (None, sn)) s"

inductive_cases section_stepE: "section_step P s l s'"

inductive section_run :: "prims \<Rightarrow> revocation_threads \<Rightarrow> signing list \<Rightarrow> revocation_threads \<Rightarrow> bool" for P and s where
  start: "section_run P s [] s"
| quiet: "section_run P s ls s1 \<Longrightarrow> section_step P s1 None s2 \<Longrightarrow> section_run P s ls s2"
| signs: "section_run P s ls s1 \<Longrightarrow> section_step P s1 (Some l) s2 \<Longrightarrow> section_run P s (ls @ [l]) s2"

text \<open>A revocation alone is its two sections in a row.\<close>

lemma revoke_alone:
  assumes "handle_revoke P st q now = Some (Inr (201, sn), st')" and "pend t = None"
  shows "\<exists>i. section_run P \<lparr>rt_service = st, rt_pending = pend\<rparr> [(Some i, sn)] \<lparr>rt_service = st', rt_pending = pend\<rparr>"
proof -
  from assms(1) obtain i where i: "revocation_id_from_hex P (rr_revocation_id q) = Inr i"
    and st': "st' = st\<lparr>rs_log := revoke_update (rs_log st) i (rr_reason q)\<rparr>" and sn: "current_snapshot P st' now = Some sn"
    by (auto simp: handle_revoke_def Let_def split: sum.splits option.splits)
  let ?s = "\<lparr>rt_service = st, rt_pending = pend\<rparr>" and ?s1 = "\<lparr>rt_service = st', rt_pending = pend(t \<mapsto> i)\<rparr>"
  have "section_step P ?s None ?s1"
    using section_step.update [of ?s t P q i] i assms(2) by (simp add: st')
  moreover have "section_step P ?s1 (Some (Some i, sn)) \<lparr>rt_service = st', rt_pending = pend\<rparr>"
    using section_step.answer [of ?s1 t i P now sn] sn assms(2) by (simp add: fun_upd_idem)
  ultimately show ?thesis
    using section_run.signs [OF section_run.quiet [OF section_run.start]] by fastforce
qed

section \<open>The invariant\<close>

definition threads_ok :: "prims \<Rightarrow> revocation_threads \<Rightarrow> bool" where
  "threads_ok P s \<longleftrightarrow>
     rl_ok (rs_log (rt_service s)) \<and> signer_ok P (rs_signer (rt_service s)) \<and>
     rs_key (rt_service s) = sg_public_key (rs_signer (rt_service s)) \<and>
     ran (rt_pending s) \<subseteq> rl_revoked (rs_log (rt_service s))"

text \<open>What a signed snapshot is at the moment it is signed.\<close>

definition signs_state :: "prims \<Rightarrow> revocation_service \<Rightarrow> signing \<Rightarrow> bool" where
  "signs_state P st l \<longleftrightarrow>
     sn_revoked (snd l) = rl_revoked (rs_log st) \<and> sn_epoch (snd l) = of_nat (card (rl_revoked (rs_log st))) \<and>
     snapshot_verify_signature P (snd l) (rs_key st) \<and> set_option (fst l) \<subseteq> sn_revoked (snd l)"

lemma snapshot_of_state:
  assumes "threads_ok P s" and "current_snapshot P (rt_service s) now = Some sn" and "set_option i \<subseteq> rl_revoked (rs_log (rt_service s))"
  shows "signs_state P (rt_service s) (i, sn)"
  using assms snapshot_sign_ok [of P "rs_signer (rt_service s)" "rl_epoch (rs_log (rt_service s))" now "rl_revoked (rs_log (rt_service s))"]
  by (auto simp: threads_ok_def signs_state_def current_snapshot_def rl_ok_def)

lemma section_step_ok:
  assumes "section_step P s l s'" and ok: "threads_ok P s"
  shows "threads_ok P s' \<and> rl_revoked (rs_log (rt_service s)) \<subseteq> rl_revoked (rs_log (rt_service s')) \<and>
    rs_key (rt_service s') = rs_key (rt_service s) \<and> (\<forall>x. l = Some x \<longrightarrow> signs_state P (rt_service s') x)"
  using assms(1)
proof (cases rule: section_step.cases)
  case (update t q i)
  with ok revoke_update_ok [OF _ id_from_hex_length [OF update(4)]] show ?thesis
    by (auto simp: threads_ok_def ran_def)
next
  case (answer t i now sn)
  have "i \<in> rl_revoked (rs_log (rt_service s))" using ok answer(3) by (auto simp: threads_ok_def ran_def)
  with snapshot_of_state [OF ok answer(4), of "Some i"] ok answer show ?thesis
    by (auto simp: threads_ok_def ran_def split: if_splits)
next
  case (serve t now sn)
  with snapshot_of_state [OF ok, of now sn None] ok show ?thesis by (simp add: get_snapshot_def)
qed

text \<open>
  However the threads interleave, the snapshots in the order they were signed only grow,
  each counts its set, and the one that answers a revocation holds its id.
\<close>

lemma section_run_ok:
  assumes "section_run P s ls s'" and "threads_ok P s"
  shows "threads_ok P s' \<and> rs_key (rt_service s') = rs_key (rt_service s) \<and>
    (\<forall>l \<in> set ls. set_option (fst l) \<subseteq> sn_revoked (snd l) \<and>
       sn_revoked (snd l) \<subseteq> rl_revoked (rs_log (rt_service s')) \<and>
       sn_epoch (snd l) = of_nat (card (sn_revoked (snd l))) \<and>
       snapshot_verify_signature P (snd l) (rs_key (rt_service s))) \<and>
    sorted_wrt (\<lambda>a b. sn_revoked a \<subseteq> sn_revoked b) (map snd ls)"
  using assms
proof (induction rule: section_run.induct)
  case start
  then show ?case by simp
next
  case (quiet ls s1 s2)
  from section_step_ok [OF quiet.hyps(2)] quiet.IH [OF quiet.prems] show ?case by fastforce
next
  case (signs ls s1 l s2)
  note IH = signs.IH [OF signs.prems] and now = section_step_ok [OF signs.hyps(2)]
  then have l: "signs_state P (rt_service s2) l" "rl_revoked (rs_log (rt_service s1)) \<subseteq> rl_revoked (rs_log (rt_service s2))"
    "threads_ok P s2" "rs_key (rt_service s2) = rs_key (rt_service s)" by auto
  have "\<forall>x \<in> set ls. sn_revoked (snd x) \<subseteq> sn_revoked (snd l)"
    using IH l(1,2) by (fastforce simp: signs_state_def)
  with IH l show ?case by (auto simp: signs_state_def sorted_wrt_append)
qed

lemma signed_epochs_sorted:
  assumes "section_run P s ls s'" and "threads_ok P s" and "card (rl_revoked (rs_log (rt_service s'))) < 2 ^ 64"
  shows "sorted (map (sn_epoch \<circ> snd) ls)"
proof -
  note run = section_run_ok [OF assms(1,2)]
  have fin: "finite (rl_revoked (rs_log (rt_service s')))" using run by (auto simp: threads_ok_def rl_ok_def)
  have le: "sn_epoch a \<le> sn_epoch b" if "a \<in> set (map snd ls)" "b \<in> set (map snd ls)" "sn_revoked a \<subseteq> sn_revoked b" for a b
  proof -
    have b: "sn_revoked b \<subseteq> rl_revoked (rs_log (rt_service s'))" using run that(2) by fastforce
    have "card (sn_revoked a) \<le> card (sn_revoked b)" using that(3) b fin by (meson card_mono finite_subset)
    moreover have "card (sn_revoked b) < 2 ^ 64" using card_mono [OF fin b] assms(3) by simp
    moreover have "sn_epoch a = of_nat (card (sn_revoked a))" "sn_epoch b = of_nat (card (sn_revoked b))"
      using run that(1,2) by fastforce+
    ultimately show ?thesis by (simp add: word_le_nat_alt unat_of_nat)
  qed
  have "sorted_wrt (\<lambda>a b. sn_epoch a \<le> sn_epoch b) (map snd ls)"
    using run le by (auto intro: sorted_wrt_mono_rel [of "map snd ls" "\<lambda>a b. sn_revoked a \<subseteq> sn_revoked b"])
  then show ?thesis by (simp add: sorted_map flip: map_map) 
qed

end
