(* ===== verification/Demo_Wire.thy ===== *)
theory Demo_Wire
  imports Demo_Scenarios Demo_Services Sidecar_Wire Startup Revocation_Threads
begin

text \<open>
  The instances of \<^verbatim>\<open>Demo\<close> and \<^verbatim>\<open>Demo_Services\<close> for the witnesses of the entry points, the
  routers and the executables.
\<close>

section \<open>Requests of the entry points\<close>

lemma demo_hex_trimmed:
  assumes "solid (char_of (unat (hd (array_bytes d))))" and "solid (char_of (unat (last (array_bytes d))))"
  shows "str_trim (hex_of demo d) = hex_of demo d"
proof (rule str_trim_solid)
  have "hex_of demo d = map (\<lambda>b. char_of (unat b)) (array_bytes d)" by (simp add: demo_def)
  with assms show "hex_of demo d \<noteq> []" "solid (hd (hex_of demo d))" "solid (last (hex_of demo d))"
    by (simp_all add: hd_map last_map)
qed

lemma demo_root_trimmed: "str_trim (hex_of demo demo_root) = hex_of demo demo_root"
proof (rule demo_hex_trimmed)
  have root: "array_bytes demo_root = 1 # 0 # 1 # 4 # 1 # 4 # 0 # 0 # 0 # 0 # 1 # 4 # 1 # 5 # replicate 18 0"
    by (simp add: demo_root_node hash_node_def node_prefix_def demo_hash_def array_bytes_mk numeral_eq_Suc)
  show "solid (char_of (unat (hd (array_bytes demo_root))))" by (simp add: root solid_def)
  show "solid (char_of (unat (last (array_bytes demo_root))))" by (simp add: root solid_def)
qed

lemma demo_attest_inclusion: "inclusion (demo_attest 9 5) = demo_proof"
  using demo_attested by (auto simp: demo_attest_def attest_def attest_as_def split: sum.splits)

lemma demo_proof_fits: "proof_fits (inclusion (demo_attest 9 5))"
  by (simp add: demo_attest_inclusion proof_fits_def demo_proof_def)

text \<open>The accepted action of \<^verbatim>\<open>Demo_Log\<close> as a request of the sidecar.\<close>

abbreviation demo_composed :: json where
  "demo_composed \<equiv> command ''composed_verify''
     (action_members demo_chain1 (demo_key 1) (hex_of demo demo_root) (demo_receipt 5) (demo_attest 9 5) @
      [(''policy'', policy_json [demo_key 9])])"

lemma demo_composed_answer:
  "sidecar_answer demo demo_composed = Some (JObj [(''ok'', JBool True), (''effective_scope'', scope_json (demo_scope 2))])"
proof -
  have "handle demo (ReqComposedVerify demo_chain1 (demo_key 1) (hex_of demo demo_root) (demo_receipt 5) (demo_attest 9 5)
      \<lparr>pd_trusted_attesters = [demo_key 9], pd_allow_counter_signed = False\<rparr> None) = Some (Inr (RspScope True (demo_scope 2)))"
    using demo_action_accepted demo_hex_ok by (simp add: demo_action_def policy_third_party_def)
  from answered [OF read_action(1) [OF demo_proof_fits] this] show ?thesis by simp
qed

section \<open>Requests of the services\<close>

lemma demo_seed_hex: "hex_bytes demo_text (replicate 32 (char_of (1 :: nat))) = Some (array_bytes (demo_seed 1))"
proof -
  have "str_trim (replicate 32 (char_of (1 :: nat))) = replicate 32 (char_of (1 :: nat))"
    by (rule str_trim_solid) (simp_all add: solid_def)
  then show ?thesis
    by (simp add: hex_bytes_def demo_text_def demo_def str_bytes_def)
qed

lemma demo_id_hex: "revocation_id_from_hex demo_text (replicate 32 (char_of (1 :: nat))) = Inr (RevocationId (replicate 32 1))"
  using demo_seed_hex by (simp add: revocation_id_from_hex_def ok_or_def)

abbreviation demo_submit :: http_request where
  "demo_submit \<equiv> post_request ''/witness/v1/entries'' (submit_request_json (to_request demo_text (text_receipt 4)))"

lemma demo_submitted:
  assumes "ws_log demo_text st []" and "ws_store st = Some (frames demo_text [])"
  shows "\<exists>resp st'. witness_app demo_text rej Written demo_submit st = Some (JsonReply 201 (submit_response_json resp), st')"
proof -
  have "persist demo_text (Some (frames demo_text [])) (text_receipt 4) Written = (Inr (), Some (frames demo_text [] @ frame demo_text (text_receipt 4)))"
    using text_storable [of 4] by (simp add: persist_def store_append_def text_canonical)
  moreover have "prev_root (text_receipt 4) = naive_root demo_text (receipt_leaves demo_text [])" by (simp add: text_prev_root)
  ultimately show ?thesis
    using submit_accepted [OF assms(1) to_receipt_request [OF demo_b64url], of "text_receipt 4" Written] assms(2)
    by (auto simp: witness_client)
qed

lemma demo_head:
  assumes "ws_log demo_text st rs" and "ws_signer st = text_signer 1"
  shows "\<exists>sth. head_of demo_text (receipt_leaves demo_text rs) sth \<and> verify_signed_head demo_text sth (ws_key st) \<and>
    sig_algorithm (sth_signature sth) = Ed25519"
proof -
  from ws_log_head [OF assms(1)] obtain sth w where "signed_head demo_text (ws_witness st) (text_signer 1) = Some (sth, w)"
    "head_of demo_text (receipt_leaves demo_text rs) sth" "verify_signed_head demo_text sth (ws_key st)"
    by (auto simp: assms(2))
  then show ?thesis by (auto simp: signed_head_def Let_def ed25519_from_seed_def split: option.splits sum.splits prod.splits)
qed

lemma demo_submit_taken: "logs_next demo_text True [] (demo_submit, Written) = [text_receipt 4]"
proof -
  have "asked demo_text demo_submit = Some (text_receipt 4)"
    using to_receipt_request [OF demo_b64url, of "text_receipt 4"]
    by (simp add: asked_def post_request_def submit_request_form.dec_enc)
  moreover have "takes demo_text True [] (text_receipt 4) Written" by (simp add: takes_def text_prev_root text_canonical)
  ultimately show ?thesis by simp
qed

abbreviation demo_id :: revocation_id where
  "demo_id \<equiv> RevocationId (replicate 32 1)"

abbreviation demo_revoke :: http_request where
  "demo_revoke \<equiv> post_request ''/revocations/v1/revoke''
     (JObj [(''revocation_id'', JStr (replicate 32 (char_of (1 :: nat)))), (''reason'', JStr ''lost'')])"

lemma demo_revokes: "revokes demo_text demo_revoke = Some demo_id"
  using demo_id_hex by (simp add: revokes_def post_request_def revoke_request_reads)

end
