(* ===== verification/Spec2Isabelle.thy ===== *)
theory Spec2Isabelle
  imports Demo_Crates Demo_Revocations Demo_Wire
begin

text \<open>
  A verification of index-one: capability tokens that are delegated hop by hop, a
  transparency log of the actions taken under them, independent attestations of those
  actions, and revocation. The theories translate the Rust sources under \<^verbatim>\<open>src/\<close>.

  \<^bold>\<open>The program.\<close> A chain (\<^verbatim>\<open>core/chain\<close>) starts with a root block signed by a human's key and
  grows by delegation blocks, each signed by the key the previous block delegated to, linked
  by hash and never widening the scope. An action is recorded as a receipt in a Merkle log
  (\<^verbatim>\<open>core/witness\<close>), and somebody other than the executing agent signs an attestation over it
  (\<^verbatim>\<open>core/attestation\<close>). The verifier (\<^verbatim>\<open>core/verifier\<close>) composes the checks: chain, binding of
  the receipt, trusted root, inclusion, attestation, trust in the attester; optionally a
  k-of-n bundle, a revocation proof for every hop (\<^verbatim>\<open>core/revocation\<close>, \<^verbatim>\<open>core/revmap\<close>,
  \<^verbatim>\<open>core/revlog\<close>) and the purpose of the last hop. Two HTTP services keep the log and the
  revocations, clients fetch snapshots and cosign heads, and a JSON sidecar and a browser
  build expose the verifier to other languages.

  \<^bold>\<open>The theories, in the order they build on each other.\<close>
  \<^item> \<open>Core_Prelude\<close>: results as sums, 32-byte arrays, big-endian integers, decimal text; the
    collections of simplification rules. \<open>Externals\<close>: JSON values and the record \<open>prims\<close> of
    everything the sources call and do not contain.
  \<^item> \<open>Crypto\<close> (\<^verbatim>\<open>core/crypto\<close>): keys, signatures, \<open>verify_signature\<close>, hybrid framing, and
    signers as records of a key and a signing function. The locale \<open>signer_contract\<close> is the
    contract of the trait \<^verbatim>\<open>Signer\<close>; Ed25519, ML-DSA and hybrids interpret it.
  \<^item> \<open>Chain\<close> (\<^verbatim>\<open>core/chain\<close>): scopes, blocks, \<open>chain_issue\<close>, \<open>attenuate\<close>, \<open>chain_verify\<close>; the
    declarative contract \<open>chain_ok\<close> and the relation \<open>built\<close> of chains the protocol makes.
  \<^item> \<open>Merkle\<close>, \<open>Witness\<close>, \<open>Consistency\<close> (\<^verbatim>\<open>core/witness\<close>): the tree by its plain recursion
    (\<open>naive_root\<close>, the oracle of the crate's own tests), the log with its subtree memo as a
    state passed along, proofs, signed heads; soundness of inclusion and of consistency
    proofs up to hash collisions.
  \<^item> \<open>Attestation\<close> (\<^verbatim>\<open>core/attestation\<close>): one attestation and the k-of-n bundle.
  \<^item> \<open>Revocation\<close> (\<^verbatim>\<open>core/revocation\<close>): ids, the checkers with their clocks, transports and
    epoch cells; \<open>Revmap\<close> (\<^verbatim>\<open>core/revmap\<close>): the sparse Merkle map; \<open>Revlog\<close>
    (\<^verbatim>\<open>core/revlog\<close>): published maps in a log.
  \<^item> \<open>Verifier\<close> (\<^verbatim>\<open>core/verifier\<close>): the four compositions. The locale \<open>gated\<close> is what a check
    put before another gives.
  \<^item> \<open>Text\<close>: the string operations the clients use. \<open>Checkpoint\<close> (\<^verbatim>\<open>clients/checkpoint\<close>):
    signed notes, cosigning, quorum. \<open>Store\<close> and \<open>Witness_Service\<close> (\<^verbatim>\<open>services/witness\<close>): the
    framed log file with crashes and torn writes, and the HTTP handlers over it.
    \<open>Revocation_Service\<close> (\<^verbatim>\<open>services/revocation-log\<close>, \<^verbatim>\<open>clients/revocation-http\<close>): the service
    and the client that polls it.
  \<^item> \<open>Wire\<close>: the JSON of every type with derived \<^verbatim>\<open>Serialize\<close> and \<^verbatim>\<open>Deserialize\<close>, readers and
    writers; the locale \<open>wire_form\<close>, what is written reads back, is interpreted for each.
  \<^item> \<open>Sidecar\<close> and \<open>Sidecar_Wire\<close> (\<^verbatim>\<open>core/cli\<close>, \<^verbatim>\<open>clients/wasm-verifier\<close>): the requests and
    responses as values, then as JSON, and the processes from input to output.
  \<^item> \<open>Http\<close>: the part of the web framework both services use, from its documentation.
    \<open>Witness_Http\<close> and \<open>Revocation_Http\<close>: their routers, and the clients that talk to them in
    JSON. \<open>Revocation_Threads\<close>: the critical sections of concurrent revocations. \<open>Startup\<close>: the
    two executables (\<^verbatim>\<open>main.rs\<close>), and the services over their restarts.
  \<^item> \<open>Scenarios\<close> (\<^verbatim>\<open>conformance\<close>, \<^verbatim>\<open>exploits\<close>): the programs that run the core and assert;
    \<open>Scenario_Tests\<close>: their tests.
    \<open>Verifier_Tests\<close>: the acceptance tests of \<^verbatim>\<open>core/verifier\<close>; \<open>Pq_Tests\<close>: its end-to-end test
    under post-quantum keys; \<open>Revocation_Tests\<close>, \<open>Chain_Tests\<close>, \<open>Log_Service_Tests\<close>, \<open>Log_Tests\<close>,
    \<open>Attestation_Tests\<close>, \<open>Crypto_Tests\<close>, \<open>Checkpoint_Tests\<close> and \<open>Map_Tests\<close>: the tests of \<^verbatim>\<open>core/revocation\<close>,
    \<^verbatim>\<open>core/chain\<close>, \<^verbatim>\<open>services/witness\<close>, \<^verbatim>\<open>core/witness\<close>, \<^verbatim>\<open>core/attestation\<close>, \<^verbatim>\<open>core/crypto\<close>,
    \<^verbatim>\<open>clients/checkpoint\<close>, \<^verbatim>\<open>core/revmap\<close> and \<^verbatim>\<open>core/revlog\<close>; \<open>Revocation_Service_Tests\<close>: those of
    \<^verbatim>\<open>services/revocation-log\<close> and \<^verbatim>\<open>clients/revocation-http\<close>. \<open>Key_Universe\<close>: one assumption on the hash
    for all maps over a set of keys. \<open>Log_Tests\<close> and \<open>Property_Tests\<close> also hold the property
    tests (\<^verbatim>\<open>tests/proptest_soundness.rs\<close> of four crates), with what they sample as arguments.
  \<^item> \<open>Demo\<close>, \<open>Demo_Log\<close>, \<open>Demo_Map\<close>, \<open>Demo_Services\<close>, \<open>Demo_Scenarios\<close>, \<open>Demo_Tests\<close>,
    \<open>Demo_Sessions\<close>, \<open>Demo_Properties\<close>, \<open>Demo_Crates\<close>, \<open>Demo_Sets\<close>, \<open>Demo_Revocations\<close>,
    \<open>Demo_Wire\<close>:
    concrete instances of \<open>prims\<close>, on which the witnesses show that the hypotheses hold together.

  \<^bold>\<open>How code maps to definitions.\<close> Structs are records, enums datatypes, fixed-width integers
  words, \<^verbatim>\<open>usize\<close> naturals with the width written out where it matters, hash maps partial
  functions. Laws that several parts rely on are locales, interpreted on these definitions:
  the trait contracts \<open>signer_contract\<close> and \<open>revocation_checker\<close>, the domain-separated
  hashing of both trees (\<open>tree_hash\<close>), the log and the map as the rest of the code uses them
  (\<open>append_log\<close>, \<open>authenticated_set\<close>). A method that mutates returns the new state; one that may panic returns an
  option with \<open>None\<close> for the panic; \<^verbatim>\<open>Result\<close> is a sum with the error on the left and keeps
  the order of the checks of the code. Interior mutability (the memo of the log, the epoch
  of a snapshot checker) is state passed along. Clocks and transports are functions of the
  number of the call.

  \<^bold>\<open>What the properties show.\<close> Accepted actions: what \<^verbatim>\<open>verify\<close> and its variants accept has
  all the parts it claims, and honest runs are accepted. The log: its memo never changes an
  answer, entries stay provable, consistency proofs are sound, proofs are short.
  Revocation: map proofs decide membership, histories only grow, dead hops never pass.
  Services: any sequence of HTTP requests is answered and keeps the log append-only, restarts
  recover it, forks are proved, and one way to lose an acknowledged entry; revocations reach
  every client, interleave safely, and are forgotten at a restart. Entry points: the sidecar
  always answers, its sessions in JSON succeed, the browser refuses what it accepts, all wire
  forms read back, the suites pass. Checkpoints, chains and signatures: round trips,
  attenuation, attribution, exact acceptance.

  \<^bold>\<open>Bounds.\<close> The path of an inclusion proof is capped at 64 steps, which covers every log of at
  most 2 to the 64 leaves (\<open>inclusion_path_bound\<close>). The loop that finds a split point shifts
  a 64-bit integer, is a \<^verbatim>\<open>partial_function\<close> and returns exactly up to 2 to the 63 leaves
  (\<open>split_point_returns\<close>); the other recursions are structural or have a measure, and none
  needs fuel. Lengths in frames and encodings are bounded by 2 to the 32
  and 2 to the 64 where the code writes them in that many bits.

  \<^bold>\<open>Cryptography.\<close> No hash is assumed injective. A statement that needs collision resistance
  assumes it of the finite set of messages it names (\<open>collision_free\<close>, \<open>hashes_apart\<close>,
  \<open>log_apart\<close>); one that needs unforgeability assumes that signatures that verify under the
  keys in question are those made by their holders.

  \<^bold>\<open>Not modelled.\<close> The primitives of other crates (curves, lattices, BLAKE3, SHA-256, the JCS
  text, base64, hex, the text of JSON): parameters, with documented laws as hypotheses where
  used. Sockets, headers and the scheduling of the two services: a request is a method, a
  path, a decoded query and a body that parsed or was refused, and the texts of refusals are
  parameters. JSON numbers are naturals, as every number field of the wire types is unsigned;
  a negative or fractional number is a value of the wrong shape. Terminal output. Concurrency
  inside a service is its locks: a handler is one step, except where it takes a lock twice
  (\<open>Revocation_Threads\<close>); the one cell without a lock, the epoch of a snapshot checker, has its
  interleavings in \<open>Revocation\<close>. Benchmarks; fuzz targets and property tests that ask only
  for the absence of a panic, where a total definition leaves nothing to say; three tests of \<^verbatim>\<open>core/chain\<close> on
  the text of JSON and one of \<^verbatim>\<open>core/crypto\<close> on a trait; the Python and TypeScript bindings, which send the requests of the sidecar.
\<close>

section \<open>Accepted actions\<close>

text \<open>
  C1. What acceptance means: when \<^verbatim>\<open>verify\<close> accepts an action against the root of a log,
  the chain is valid from the trusted root key and the scope returned is its last one, the
  receipt is an entry of that log and is bound to the chain, and an attestation over
  exactly this chain, action and root was signed by a key that the policy anchors and that
  is not the executor's.
\<close>

theorem accepted_action_sound:
  assumes "verify P act rk (log_root P rs) pol = Inr s" and "rs \<noteq> []"
    and "log_apart P rs (va_receipt act) (path (inclusion (va_completion act)))"
  shows "chain_ok P (va_chain act) rk \<and> s = fst (chain_tail P (va_chain act)) \<and>
    va_receipt act \<in> set rs \<and> chain_digest_of (va_receipt act) = chain_digest P (va_chain act) \<and>
    attester_key (va_completion act) \<noteq> executor_key (va_chain act) \<and>
    attester_is_anchored (va_chain act) (va_completion act) pol \<and>
    attestation_signed P (va_completion act) \<and>
    binding (va_completion act) =
      (chain_digest P (va_chain act), action_digest (va_receipt act), action_digest (va_receipt act), log_root P rs)"
  using verify_sound [OF assms] by blast

theorem accepted_action_sound_witness:
  "verify demo (demo_action 9) (demo_key 1) demo_root (policy_third_party [demo_key 9]) = Inr (demo_scope 2) \<and>
   va_receipt (demo_action 9) \<in> set demo_receipts \<and>
   attester_key (va_completion (demo_action 9)) \<noteq> executor_key demo_chain1"
  using accepted_action_sound [OF demo_action_accepted] demo_apart demo_action_accepted
  by (simp add: demo_action_def demo_attested(5))

text \<open>
  C2. Liveness of the honest path: once the receipt of a valid chain is an entry of a log,
  the log produces an inclusion proof for it, any working signer the policy trusts other
  than the executor produces an attestation, and \<^verbatim>\<open>verify\<close> accepts the three together with
  the chain's last scope.
\<close>

theorem honest_action_accepted:
  assumes "built P rk c" and "chain_digest_of r = chain_digest P c"
    and "log_reachable P w" and "i < length (leaf_hashes w)" and "leaf_hashes w ! i = hash_leaf P (canonical_bytes P r)"
    and "length (leaf_hashes w) \<le> 2 ^ 64"
    and "signer_ok P sg" and "sg_public_key sg \<noteq> executor_key c" and "sg_public_key sg \<in> set trusted"
  shows "\<exists>pf w' a. prove_inclusion P w i = Some (Some pf, w') \<and>
    attest P sg who (chain_digest P c) (action_digest r) (action_digest r) (naive_root P (leaf_hashes w)) pf = Some a \<and>
    verify P \<lparr>va_chain = c, va_receipt = r, va_completion = a\<rparr> rk (naive_root P (leaf_hashes w))
      (policy_third_party trusted) = Inr (fst (chain_tail P c))"
  using verify_complete [OF built_ok [OF assms(1)] assms(2) log_reachable_ok [OF assms(3)] assms(4-9)] .

theorem honest_action_accepted_witness:
  "\<exists>pf a. verify demo \<lparr>va_chain = demo_chain1, va_receipt = demo_receipt 5, va_completion = a\<rparr> (demo_key 1)
     (hash_leaf demo (canonical_bytes demo (demo_receipt 5))) (policy_third_party [demo_key 9]) = Inr (demo_scope 2) \<and>
     attest demo (demo_signer 9) demo_principal (chain_digest demo demo_chain1) (demo_seed 5) (demo_seed 5)
       (hash_leaf demo (canonical_bytes demo (demo_receipt 5))) pf = Some a"
proof -
  obtain i w where app: "witness_append demo witness_new (demo_receipt 5) = (i, w)" by fastforce
  from witness_append_ok [OF witness_ok_new app] have
    leaves: "leaf_hashes w = [hash_leaf demo (canonical_bytes demo (demo_receipt 5))]" by simp
  have reach: "log_reachable demo w" by (rule log_reachable.step [OF log_reachable.new log_step.append [OF app]])
  have "chain_digest_of (demo_receipt 5) = chain_digest demo demo_chain1" by (simp add: demo_receipt_def)
  from honest_action_accepted [OF demo_built1 this reach, of 0 "demo_signer 9" "[demo_key 9]" demo_principal] show ?thesis
    by (auto simp: leaves demo_signer_ok demo_executor demo_chain1_tail demo_receipt_def)
qed

text \<open>
  C3. k-of-n acceptance: a bundle accepted with a bar of at least one is vouched for by at
  least that many distinct keys, none of them the executor's, each with its own signed and
  anchored attestation over this chain, this action and this root; and the receipt is an
  entry of the log.
\<close>

theorem threshold_accepts_sound:
  assumes "verify_threshold P act rk (log_root P rs) required pol = Inr s" and "0 < required" and "rs \<noteq> []"
    and "\<forall>a \<in> set (attestations (vt_completion act)). log_apart P rs (vt_receipt act) (path (inclusion a))"
  shows "vt_receipt act \<in> set rs \<and>
    (\<exists>K. finite K \<and> required \<le> card K \<and> executor_key (vt_chain act) \<notin> K \<and>
      (\<forall>k \<in> K. \<exists>a \<in> set (attestations (vt_completion act)). attester_key a = k \<and> attestation_signed P a \<and>
         vouches P (vt_chain act) (vt_receipt act) (log_root P rs) pol a))"
  using threshold_in_log [OF assms] threshold_sound [OF assms(1)] by blast

theorem threshold_accepts_sound_witness:
  "verify_threshold demo demo_bundle (demo_key 1) demo_root 2 (policy_third_party [demo_key 8, demo_key 9]) = Inr (demo_scope 2) \<and>
   vt_receipt demo_bundle \<in> set demo_receipts \<and> (\<exists>K. finite K \<and> 2 \<le> card K \<and> executor_key demo_chain1 \<notin> K)"
proof -
  have "\<forall>a \<in> set (attestations (vt_completion demo_bundle)). log_apart demo demo_receipts (vt_receipt demo_bundle) (path (inclusion a))"
    by (simp add: demo_bundle_def demo_attested demo_apart)
  from threshold_accepts_sound [OF demo_bundle_accepted _ _ this] demo_bundle_accepted show ?thesis
    by (auto simp: demo_bundle_def)
qed

text \<open>
  C4. Acceptance with revocation evidence: when every status proof is judged against the
  history of an operator that only uses the operations of the log-backed map, each hop of
  the accepted chain (root included) is absent from the map frozen by some published
  checkpoint and from the maps of all earlier ones.
\<close>

theorem unrevoked_hops:
  assumes "operated P lb h" and "evidence_judged P h (va_chain act) ev"
    and "verify_with_revocation P act rk root pol ev = Inr s" and "i \<in> set (revocation_ids_for_chain P (va_chain act))"
  shows "\<exists>key n. rev_bytes i = array_bytes key \<and> n < length h \<and>
    (\<forall>j \<le> n. key \<notin> set (map_keys (snd (h ! j))))"
  using hops_not_revoked [OF assms(1,2) _ assms(4)] assms(3) by (simp add: revocation_gate.accepts_iff)

theorem unrevoked_hops_witness:
  "\<exists>act key. verify_with_revocation demo_map act (demo_key 1) demo_hop_root (policy_third_party [demo_key 9]) demo_evidence =
     Inr (demo_scope 3) \<and> key \<notin> set (map_keys (snd (demo_history ! 0))) \<and> array_bytes key = array_bytes zero_key"
proof -
  obtain act where act: "va_chain act = demo_hop_chain" and
    ok: "verify_with_revocation demo_map act (demo_key 1) demo_hop_root (policy_third_party [demo_key 9]) demo_evidence = Inr (demo_scope 3)"
    by (rule demo_hop_accepted)
  have "evidence_judged demo_map demo_history (va_chain act) demo_evidence" by (simp add: act demo_hop_judged)
  from unrevoked_hops [OF demo_operated this ok, of "RevocationId (array_bytes zero_key)"] show ?thesis
    using ok by (auto simp: act demo_hop_ids)
qed

text \<open>
  C5. Omission: \<^verbatim>\<open>verify\<close> answers \<^verbatim>\<open>Omission\<close> exactly when the chain is valid, the receipt
  and the attestation are bound to it and name the trusted root, and the receipt's
  inclusion proof does not lead to that root.
\<close>

theorem omission_detected:
  "verify P act rk root pol = Inl Omission \<longleftrightarrow>
     chain_ok P (va_chain act) rk \<and>
     chain_digest_of (va_receipt act) = chain_digest P (va_chain act) \<and>
     ca_chain_digest (va_completion act) = chain_digest P (va_chain act) \<and>
     witnessed_root (va_completion act) = root \<and>
     \<not> verify_inclusion P (va_receipt act) (inclusion (va_completion act)) root"
  by (rule verify_omission_iff)

text \<open>
  C6. Purpose binding: once an action is accepted for a purpose and parameters, its action
  digest serves no other pair; presented with another purpose or other parameters, under
  any key, root and policy, it is turned away with \<^verbatim>\<open>PurposeMismatch\<close>.
\<close>

theorem purpose_binding_exclusive:
  assumes "verify_with_purpose P act rk root pol d = Inr s"
    and "action_digest (va_receipt act') = action_digest (va_receipt act)"
    and "(purpose (last (delegations (va_chain act'))), d') \<noteq> (purpose (last (delegations (va_chain act))), d)"
    and "collision_free P {bind_action_bytes (purpose (last (delegations (va_chain act)))) d,
      bind_action_bytes (purpose (last (delegations (va_chain act')))) d'}"
    and "length (purpose (last (delegations (va_chain act)))) < 2 ^ 64"
    and "length (purpose (last (delegations (va_chain act')))) < 2 ^ 64"
  shows "verify_with_purpose P act' rk' root' pol' d' = Inl PurposeMismatch"
  by (rule purpose_fixed [OF assms])

theorem purpose_binding_exclusive_witness:
  "\<exists>act root. verify_with_purpose demo act (demo_key 1) root (policy_third_party [demo_key 9]) (demo_seed 3) = Inr (demo_scope 2) \<and>
     verify_with_purpose demo act (demo_key 1) root (policy_third_party [demo_key 9]) (demo_seed 4) = Inl PurposeMismatch"
proof -
  obtain act where act: "va_chain act = demo_chain1" and
    ok: "verify_with_purpose demo act (demo_key 1) (hash_leaf demo (canonical_bytes demo demo_bound_receipt))
      (policy_third_party [demo_key 9]) (demo_seed 3) = Inr (demo_scope 2)"
    by (rule demo_bound_accepted)
  have "demo_seed 4 \<noteq> demo_seed 3" by (simp flip: array_bytes_eq_iff)
  with purpose_binding_exclusive [OF ok refl, of "demo_seed 4"] demo_binding_apart demo_purpose_down
  have "verify_with_purpose demo act (demo_key 1) (hash_leaf demo (canonical_bytes demo demo_bound_receipt))
      (policy_third_party [demo_key 9]) (demo_seed 4) = Inl PurposeMismatch" by (simp add: act)
  with ok show ?thesis by blast
qed

section \<open>Chains\<close>

text \<open>
  C7. Chain verification is exactly the declarative contract: the root is the trusted
  key's and signed by it, every block continues its predecessor (key, principal, hash
  link, purpose, strict depth decrease, scope narrowing, signature), and the scope returned
  is the last block's.
\<close>

theorem chain_verify_spec:
  "chain_verify P c k = Inr s \<longleftrightarrow> chain_ok P c k \<and> s = fst (chain_tail P c)"
  by (rule chain_verify_iff)

text \<open>
  C8. Attenuation: the scope a verified chain yields narrows the root scope and the
  scope of every intermediate block, allows no use the root does not allow, and the hops
  made plus the depth left never exceed the depth the root granted.
\<close>

theorem chain_attenuation:
  assumes "chain_verify P c k = Inr s"
  shows "narrows s (rb_scope (chain_root c)) \<and>
    (\<forall>b \<in> set (delegations c). narrows s (db_scope b)) \<and>
    (\<forall>u. scope_allows s u \<longrightarrow> scope_allows (rb_scope (chain_root c)) u) \<and>
    unat (max_depth s) + length (delegations c) \<le> unat (max_depth (rb_scope (chain_root c)))"
  using assms
  by (auto simp: chain_verify_iff in_set_conv_nth
      intro: chain_ok_narrows_root chain_ok_depth chain_ok_narrows_block narrows_allows)

theorem chain_attenuation_witness:
  "narrows (demo_scope 2) (rb_scope (chain_root demo_chain1)) \<and>
   unat (max_depth (demo_scope 2)) + length (delegations demo_chain1) \<le> unat (max_depth (rb_scope (chain_root demo_chain1)))"
  using chain_attenuation [OF demo_chain1_verify] by simp

text \<open>
  C9. History integrity: two verified chains whose last blocks hash alike are the same
  chain, block by block from the root, unless two of their blocks collide under the
  canonical encoding or the hash.
\<close>

theorem hash_links_bind_history:
  assumes "chain_verify P c k = Inr s" and "chain_verify P c' k' = Inr s'"
    and "tail_hash (chain_tail P c) = tail_hash (chain_tail P c')"
    and "hashes_apart P (block_images c \<union> block_images c')"
  shows "c = c'"
  using assms by (auto simp: chain_verify_iff intro: chain_ok_same_tail_hash)

theorem hash_links_bind_history_witness:
  "hashes_apart demo (block_images demo_chain1) \<and> demo_chain1 = demo_chain1"
  using hash_links_bind_history [OF demo_chain1_verify demo_chain1_verify refl] demo_chain1_apart
  by simp



text \<open>
  C11. The syntactic permission check is exact: unless the child is confined to no
  resource at all, it accepts exactly when every use the child allows is allowed by the
  parent.
\<close>

theorem permission_subset_exact:
  assumes "resource_set p \<noteq> Some {}"
  shows "authorizes_subset_of p q \<longleftrightarrow> (\<forall>u. perm_allows p u \<longrightarrow> perm_allows q u)"
  using authorizes_subset_sound authorizes_subset_complete [OF _ assms] by blast

theorem permission_subset_exact_witness:
  "resource_set (permission_with ''pay'' [AmountMax 7]) \<noteq> Some {} \<and>
   \<not> authorizes_subset_of (permission_with ''pay'' [AmountMax 7]) (permission_with ''pay'' [AmountMax 5])"
proof -
  let ?p = "permission_with ''pay'' [AmountMax 7]" and ?q = "permission_with ''pay'' [AmountMax 5]"
  let ?u = "\<lparr>use_action = ''pay'', use_amount = 6, use_resource = ''air''\<rparr>"
  have "resource_set ?p \<noteq> Some {}"
    by (simp add: resource_set_def permission_with_def map_filter_def)
  moreover have "perm_allows ?p ?u" and "\<not> perm_allows ?q ?u"
    by (simp_all add: perm_allows_def permission_with_def constraint_allows_def)
  ultimately show ?thesis
    using permission_subset_exact [of ?p ?q] by blast
qed

section \<open>The log\<close>

text \<open>
  C12. The log is its leaves: in every state reached by appends and reads in any order,
  the memoised root, inclusion proofs and consistency proofs are those of the plain
  recursive definitions over the leaves, out-of-range requests are refused, and no
  operation does more to the leaves than append.
\<close>

theorem log_invariant:
  assumes "log_reachable P w"
  shows "(\<exists>w'. witness_root P w = Some (naive_root P (leaf_hashes w), w')) \<and>
    (\<exists>w'. prove_inclusion P w i =
       Some (if i < length (leaf_hashes w)
             then Some \<lparr>leaf_index = i, tree_size = length (leaf_hashes w), path = naive_path P (leaf_hashes w) i\<rparr>
             else None, w')) \<and>
    (\<exists>w'. prove_consistency P w m n =
       Some (if n = length (leaf_hashes w) \<and> m \<le> n
             then Some \<lparr>nodes = (if m = 0 then [] else naive_subproof P m (leaf_hashes w) True)\<rparr>
             else None, w')) \<and>
    (\<forall>w'. log_step P w w' \<longrightarrow> (\<exists>xs. leaf_hashes w' = leaf_hashes w @ xs))"
  using witness_root_ok prove_inclusion_ok [of P w i] prove_consistency_ok [of P w m n] log_step_ok
    log_reachable_ok [OF assms] by blast

theorem log_invariant_witness:
  "\<exists>w w'. log_reachable demo w \<and> leaf_hashes w = [hash_leaf demo (canonical_bytes demo (demo_receipt 4))] \<and>
     witness_root demo w = Some (hash_leaf demo (canonical_bytes demo (demo_receipt 4)), w')"
proof -
  obtain i w where app: "witness_append demo witness_new (demo_receipt 4) = (i, w)" by fastforce
  have reach: "log_reachable demo w" by (rule log_reachable.step [OF log_reachable.new log_step.append [OF app]])
  moreover from witness_append_ok [OF witness_ok_new app] have
    "leaf_hashes w = [hash_leaf demo (canonical_bytes demo (demo_receipt 4))]" by simp
  ultimately show ?thesis using log_invariant [OF reach] by (metis naive_root_single)
qed

text \<open>
  C13. What was appended stays provable: however the log goes on after an append, it can
  still produce a proof for the entry, and the proof is accepted against its root then.
\<close>

theorem log_keeps_provable:
  assumes "log_reachable P w" and "witness_append P w r = (i, w1)" and "(log_step P)\<^sup>*\<^sup>* w1 t"
    and "length (leaf_hashes t) \<le> 2 ^ 64"
  shows "\<exists>pf t'. prove_inclusion P t i = Some (Some pf, t') \<and> verify_inclusion P r pf (naive_root P (leaf_hashes t))"
proof -
  have w: "witness_ok P w" and w1: "witness_ok P w1"
    using log_reachable_ok [OF assms(1)] witness_append_ok [OF _ assms(2)] by blast+
  from log_steps_ok [OF assms(3) w1] show ?thesis
    using witness_log.appended_provable [OF w assms(2)] assms(4) by blast
qed

theorem log_keeps_provable_witness:
  "\<exists>w t pf t'. witness_append demo witness_new (demo_receipt 4) = (0, w) \<and> (log_step demo)\<^sup>*\<^sup>* w t \<and> length (leaf_hashes t) = 2 \<and>
     prove_inclusion demo t 0 = Some (Some pf, t') \<and> verify_inclusion demo (demo_receipt 4) pf (naive_root demo (leaf_hashes t))"
proof -
  obtain i w where w: "witness_append demo witness_new (demo_receipt 4) = (i, w)" by fastforce
  obtain j t where t: "witness_append demo w (demo_receipt 5) = (j, t)" by fastforce
  from witness_append_ok [OF witness_ok_new w] witness_append_ok [OF _ t] have i: "i = 0" and two: "length (leaf_hashes t) = 2"
    by simp_all
  have steps: "(log_step demo)\<^sup>*\<^sup>* w t" by (rule r_into_rtranclp [of "log_step demo"]) (rule log_step.append [OF t])
  from log_keeps_provable [OF log_reachable.new w steps] w steps two show ?thesis unfolding i by fastforce
qed

text \<open>
  C14. Append-only: a consistency proof accepted between the roots of two non-empty logs
  shows that the first is a prefix of the second, unless two encodings hashed for the
  trees or the proof collide.
\<close>

theorem consistency_sound:
  assumes "verify_consistency P (naive_root P as) (naive_root P bs) pf (length as) (length bs)" and "as \<noteq> []"
    and "collision_free P (node_queries P as \<union> node_queries P bs \<union> node_queries P (take (length as) bs) \<union>
      recon_queries P (length as) (length bs) True (naive_root P as) (nodes pf))"
  shows "length as \<le> length bs \<and> as = take (length as) bs"
  by (rule consistent_prefix [OF assms])

theorem consistency_sound_witness:
  "verify_consistency demo (naive_root demo [demo_seed 1]) (naive_root demo [demo_seed 1, demo_seed 2])
     \<lparr>nodes = naive_subproof demo 1 [demo_seed 1, demo_seed 2] True\<rparr> 1 2 \<and>
   [demo_seed 1] = take 1 [demo_seed 1, demo_seed 2]"
proof -
  let ?as = "[demo_seed 1]" and ?bs = "[demo_seed 1, demo_seed 2]"
  let ?pf = "\<lparr>nodes = naive_subproof demo 1 ?bs True\<rparr>"
  have v: "verify_consistency demo (naive_root demo ?as) (naive_root demo ?bs) ?pf (length ?as) (length ?bs)"
    using verify_consistency_complete [of 1 ?bs demo] by simp
  have "nodes ?pf = [demo_seed 2]" using naive_subproof_all [of demo "[demo_seed 1]" True]
    by (simp add: naive_subproof_split)
  then have "collision_free demo (node_queries demo ?as \<union> node_queries demo ?bs \<union> node_queries demo (take (length ?as) ?bs) \<union>
      recon_queries demo (length ?as) (length ?bs) True (naive_root demo ?as) (nodes ?pf))"
    by (simp add: node_queries_two recon_queries_two collision_free_def)
  from consistency_sound [OF v _ this] v show ?thesis by (simp add: numeral_2_eq_2)
qed

text \<open>
  C15. Proofs are short: an inclusion proof from a log of at most \<open>2 ^ d\<close> leaves has at
  most \<open>d\<close> steps, so the cap of the verifier (64 steps) rejects no honest proof; and a
  proof with more steps than the cap is rejected whatever it hashes to.
\<close>

theorem inclusion_path_bound:
  assumes "log_reachable P w" and "length (leaf_hashes w) \<le> 2 ^ d" and "prove_inclusion P w i = Some (Some pf, w')"
  shows "length (path pf) \<le> d \<and> leaf_index pf = i \<and> i < tree_size pf \<and> tree_size pf = length (leaf_hashes w) \<and>
    (\<forall>r root q. verify_inclusion P r q root \<longrightarrow> length (path q) \<le> max_proof_path)"
  using prove_inclusion_ok [OF log_reachable_ok [OF assms(1)], of i] assms(2,3) naive_path_length [OF assms(2)]
  by (auto simp: verify_inclusion_iff split: if_splits)

theorem inclusion_path_bound_witness:
  "\<exists>w w' pf. prove_inclusion demo w 0 = Some (Some pf, w') \<and> length (path pf) \<le> 0"
proof -
  obtain i w where app: "witness_append demo witness_new (demo_receipt 4) = (i, w)" by fastforce
  have reach: "log_reachable demo w" by (rule log_reachable.step [OF log_reachable.new log_step.append [OF app]])
  have one: "length (leaf_hashes w) = 1" using witness_append_ok [OF witness_ok_new app] by simp
  from prove_inclusion_ok [OF log_reachable_ok [OF reach], of 0] obtain pf w' where
    pf: "prove_inclusion demo w 0 = Some (Some pf, w')" by (auto simp: one)
  with inclusion_path_bound [OF reach _ pf, of 0] one show ?thesis by auto
qed

text \<open>
  C16. Termination of the split of a tree: on the 64-bit \<^verbatim>\<open>usize\<close> the doubling loop returns
  for up to \<open>2 ^ 63\<close> leaves, with the largest power of two below the size, and it does not
  return above, where the doubling drops the top bit.
\<close>

theorem split_point_returns:
  assumes "1 < n"
  shows "split_point_usize n = (if unat n \<le> 2 ^ 63 then Some (of_nat (split_point (unat n))) else None) \<and>
    (\<exists>d. split_point (unat n) = 2 ^ d \<and> 2 ^ d < unat n \<and> unat n \<le> 2 * 2 ^ d)"
proof -
  have "1 < unat n" using assms by (simp add: word_less_nat_alt)
  then show ?thesis
    using split_point_usize_agrees split_point_usize_diverges [of n] split_point_spec [of "unat n"]
    by (metis not_le)
qed

theorem split_point_returns_witness: "split_point_usize 2 = Some 1 \<and> split_point_usize (2 ^ 63 + 1) = None"
proof -
  have "split_point 2 = 1" using split_point_unique [of 0 2] by simp
  moreover have "unat (2 :: 64 word) = 2" "unat (2 ^ 63 + 1 :: 64 word) = 2 ^ 63 + 1" by simp_all
  moreover have "(1 :: 64 word) < 2" "(1 :: 64 word) < 2 ^ 63 + 1" by simp_all
  ultimately show ?thesis using split_point_returns [of 2] split_point_returns [of "2 ^ 63 + 1"] by simp
qed

section \<open>Revocation\<close>

text \<open>
  C17. The sparse Merkle map: after any sequence of revocations, the proof the map gives
  for a key verifies as inclusion exactly when the key was revoked and as non-inclusion
  exactly when it was not; and no other proof, however made, verifies the wrong way, as
  long as the encodings hashed on the way do not collide.
\<close>

theorem map_membership:
  assumes "m = fold (\<lambda>k m. revmap_revoke m k) ks revmap_new" and "map_apart P m {}"
    and "query_apart P m key (revmap_prove P m key)" and "query_apart P m key pf"
  shows "(map_verify_inclusion P (revmap_root P m) key (revmap_prove P m key) \<longleftrightarrow> key \<in> set ks) \<and>
    (map_verify_non_inclusion P (revmap_root P m) key (revmap_prove P m key) \<longleftrightarrow> key \<notin> set ks) \<and>
    (map_verify_inclusion P (revmap_root P m) key pf \<longrightarrow> key \<in> set ks) \<and>
    (map_verify_non_inclusion P (revmap_root P m) key pf \<longrightarrow> key \<notin> set ks)"
proof -
  have ok: "revmap_ok m" and keys: "set (map_keys m) = set ks"
    using revmap_fold_ok [OF revmap_new_ok, of ks] assms(1) by (simp_all add: revmap_new_def)
  note smt.decided [OF ok assms(2,3)] smt.sound_in [OF ok assms(4)] smt.sound_out [OF ok assms(4)]
  then show ?thesis unfolding keys by blast
qed

theorem map_membership_witness:
  "map_verify_inclusion demo_map (revmap_root demo_map demo_single) zero_key (revmap_prove demo_map demo_single zero_key)"
  using map_membership [of demo_single "[zero_key]" demo_map zero_key "revmap_prove demo_map demo_single zero_key"]
    demo_maps_apart(2) [of "{}"] demo_query_apart [of demo_single]
  by (simp add: demo_single_def)

text \<open>
  C18. The operator of the log-backed map: whatever sequence of operations it runs, the
  log holds exactly its checkpoints in order, the j-th has epoch j, the root of the map it
  froze and the root of the log before it, and a key revoked in one checkpoint is revoked
  in all later ones.
\<close>

theorem revocation_history:
  assumes "operated P lb h" and "i \<le> j" and "j < length h"
  shows "leaf_hashes (lb_witness lb) = history_leaves P h \<and>
    mc_epoch (fst (h ! j)) = of_nat j \<and>
    mc_map_root (fst (h ! j)) = revmap_root P (snd (h ! j)) \<and>
    mc_prev_log_root (fst (h ! j)) = naive_root P (history_leaves P (take j h)) \<and>
    set (map_keys (snd (h ! i))) \<subseteq> set (map_keys (snd (h ! j)))"
proof -
  have inv: "lb_inv P lb h" using operated_inv [OF assms(1)] by simp
  have "(fst (h ! j), snd (h ! j)) \<in> set h" using assms(3) by simp
  with inv have "mc_map_root (fst (h ! j)) = revmap_root P (snd (h ! j))" unfolding lb_inv_def by auto
  with inv assms(3) revocation_persists [OF assms] show ?thesis by (auto simp: lb_inv_def)
qed

theorem revocation_history_witness:
  "mc_epoch demo_checkpoint = of_nat 0 \<and> mc_map_root demo_checkpoint = revmap_root demo_map demo_empty \<and>
   leaf_hashes (lb_witness demo_lb) = history_leaves demo_map demo_history"
  using revocation_history [OF demo_operated, of 0 0] by simp

text \<open>
  C19. Fail closed: with the short-TTL and the log checker composed, a chain with a hop that
  is unregistered, older than the window, in the local log, or governed by a log without a
  transport is rejected, however the clock advances during the check.
\<close>

theorem dead_hop_never_passes:
  assumes "mono clock" and "dead_hop ck (clock n) t i" and "i \<in> set (revocation_ids_for_chain P c)"
  shows "fst (check_chain_revocation P c (composite_is_revoked [short_ttl_check ck clock, tlog_check t]) n) \<noteq> Inr ()"
  by (rule dead_hop_rejected [OF assms])

theorem dead_hop_never_passes_witness:
  "fst (check_chain_revocation demo demo_chain0
     (composite_is_revoked
       [short_ttl_check (short_ttl_register (short_ttl_new 10) (revocation_id_from_signature demo (rb_signature (chain_root demo_chain0))) 5)
          (\<lambda>_. 20), tlog_check tlog_in_memory]) 0) \<noteq> Inr ()"
  by (rule dead_hop_never_passes [where i = "revocation_id_from_signature demo (rb_signature (chain_root demo_chain0))"])
    (simp_all add: mono_def dead_hop_def short_ttl_register_def short_ttl_new_def revocation_ids_for_chain_def)


section \<open>Attestations\<close>

text \<open>
  C21. The k-of-n rule: a bundle of attestations holds against an executor exactly when all
  its attestations bind the same values, no two have the same key, and at least the stated
  number of them are signed by keys other than the executor's.
\<close>

theorem threshold_attestation_exact:
  "threshold_verify P t k = Inr () \<longleftrightarrow>
     (\<exists>d. binding ` set (attestations t) \<subseteq> {d}) \<and>
     distinct (map attester_key (attestations t)) \<and>
     ta_threshold t \<le> length (filter (\<lambda>a. attester_key a \<noteq> k \<and> attestation_signed P a) (attestations t))"
proof -
  have "(\<forall>a \<in> A. \<forall>b \<in> A. binding a = binding b) \<longleftrightarrow> (\<exists>d. binding ` A \<subseteq> {d})" for A
    by blast
  then show ?thesis by (simp only: threshold_verify_iff)
qed

section \<open>Services\<close>

text \<open>
  C22. The log service refines its specification, a list of receipts: whatever requests
  arrive in whatever order, malformed ones and failed writes included, every one is answered
  and none panics; the log is the list that \<open>logs_next\<close> makes of the requests; and the replies
  with status 201 are those to the receipts taken, in order, each with the index of its entry,
  an inclusion proof and a signed head that verify together.
\<close>

theorem http_log_sessions:
  assumes "ws_log P st rs" and "length rs + length qs < 2 ^ 64" and "\<forall>q \<in> fst ` set qs. refuses_as_client_error q"
  shows "\<exists>replies st' xs. witness_session P rej st qs = Some (replies, st') \<and> length replies = length qs \<and>
    foldl (logs_next P (ws_store st \<noteq> None)) rs qs = rs @ xs \<and>
    chained P (rs @ xs) \<and> leaf_hashes (ws_witness st') = receipt_leaves P (rs @ xs) \<and>
    acknowledge_all P (ws_key st) rs xs (acknowledged replies)"
  using witness_session_refines [OF assms, of rej] unfolding ws_log_def by blast

theorem http_log_sessions_witness:
  "\<exists>replies st'. witness_session demo_text (\<lambda>_. ''refused'') (demo_service [])
       [(demo_submit, Written), (get_request ''/nowhere'' [], Written)] = Some (replies, st') \<and> length replies = 2 \<and>
     logs_next demo_text True [] (demo_submit, Written) = [text_receipt 4]"
proof -
  have log: "ws_log demo_text (demo_service []) []" by (rule demo_service_ok) simp
  from http_log_sessions [OF log, of "[(demo_submit, Written), (get_request ''/nowhere'' [], Written)]" "\<lambda>_. ''refused''"]
    demo_submit_taken show ?thesis
    by (auto simp: client_requests simp del: logs_next.simps witness_session.simps)
qed



text \<open>
  C24. The life of the log executable: started with a seed and a missing file, it serves any
  requests while the disk takes its writes; stopped inside an append and started again with
  the same environment on what the file then holds, it serves the same log under the same
  key, so every entry it acknowledged before is still there.
\<close>

theorem service_restarts:
  assumes "we_seed env = Some h" and "hex_bytes P h = Some (array_bytes seed)" and "ed_good P seed" and "we_db env = Some p"
    and "addr = (case we_addr env of None \<Rightarrow> ''127.0.0.1:8787'' | Some a \<Rightarrow> a)" and "binds addr"
    and "files p = (FileMissing, None, None)"
    and "\<forall>q \<in> set qs. refuses_as_client_error (fst q) \<and> snd q = Written" and "length qs < 2 ^ 64"
  shows "\<exists>st replies st1 rs. witness_main P env rng files binds = Some (addr, st) \<and>
    witness_session P rej st qs = Some (replies, st1) \<and> length replies = length qs \<and>
    acknowledge_all P (ws_key st) [] rs (acknowledged replies) \<and> ws_log P st1 rs \<and>
    (\<forall>t. torn t \<and> (\<forall>r \<in> set rs. storable P r) \<longrightarrow>
      (\<exists>st2. witness_main P env rng' (files(p := (FileBytes (the (ws_store st1) @ t), None, None))) binds = Some (addr, st2) \<and>
        ws_log P st2 rs \<and> ws_key st2 = ws_key st))"
  by (rule log_outlives_process [where binds = binds and files = files, OF assms])

theorem service_restarts_witness:
  "\<exists>st replies st1. witness_main demo_text
       \<lparr>we_seed = Some (replicate 32 (char_of (1 :: nat))), we_addr = None, we_db = Some ''log''\<rparr> None
       (\<lambda>_. (FileMissing, None, None)) (\<lambda>_. True) = Some (''127.0.0.1:8787'', st) \<and>
     witness_session demo_text (\<lambda>_. ''refused'') st [(demo_submit, Written)] = Some (replies, st1) \<and> length replies = 1"
proof -
  let ?env = "\<lparr>we_seed = Some (replicate 32 (char_of (1 :: nat))), we_addr = None, we_db = Some ''log''\<rparr>"
  have good: "ed_good demo_text (demo_seed 1)" by (rule demo_text_good) simp
  have ext: "\<forall>q \<in> set [(demo_submit, Written)]. refuses_as_client_error (fst q) \<and> snd q = Written"
    by (simp add: client_requests)
  have env: "we_seed ?env = Some (replicate 32 (char_of (1 :: nat)))" "we_db ?env = Some ''log''"
    "''127.0.0.1:8787'' = (case we_addr ?env of None \<Rightarrow> ''127.0.0.1:8787'' | Some a \<Rightarrow> a)" by simp_all
  from service_restarts [where binds = "\<lambda>_. True" and files = "\<lambda>_. (FileMissing, None, None)",
      OF env(1) demo_seed_hex good env(2,3) TrueI refl ext, of None "\<lambda>_. ''refused''" None]
  show ?thesis by (simp only: list.size) auto
qed

text \<open>
  C25. A watcher over HTTP: it keeps a signed head of the log, whatever was logged since;
  the consistency proof the service serves from that size to the present, posted back with
  the head to the gossip endpoint, is answered \<^verbatim>\<open>consistent\<close>. What the service writes is
  what it reads.
\<close>

theorem served_history_consistent:
  assumes "ws_log P st (rs @ xs)" and "b64url_ok P" and "length (rs @ xs) < 2 ^ 64"
    and "head_of P (receipt_leaves P rs) sth" and "verify_signed_head P sth (ws_key st)"
    and "sig_algorithm (sth_signature sth) = Ed25519"
  shows "\<exists>proof st1 st2.
    witness_app P rej out (get_request ''/witness/v1/consistency''
      [(''first'', decimal (length rs)), (''second'', decimal (length (rs @ xs)))]) st = Some (JsonReply 200 proof, st1) \<and>
    witness_app P rej out (post_request ''/witness/v1/gossip''
      (JObj [(''peer_sth'', sth_dto_json (sth_to_dto P sth)), (''consistency_proof'', proof)])) st1 =
      Some (JsonReply 200 (JObj [(''status'', JStr ''consistent'')]), st2) \<and> ws_log P st2 (rs @ xs)"
  by (rule watcher_consistent [OF assms])

theorem served_history_consistent_witness:
  "\<exists>sth proof st1 st2.
     witness_app demo_text (\<lambda>_. ''refused'') Written (get_request ''/witness/v1/consistency'' [(''first'', decimal 0), (''second'', decimal 1)])
       (demo_service [text_receipt 4]) = Some (JsonReply 200 proof, st1) \<and>
     witness_app demo_text (\<lambda>_. ''refused'') Written (post_request ''/witness/v1/gossip''
       (JObj [(''peer_sth'', sth_dto_json (sth_to_dto demo_text sth)), (''consistency_proof'', proof)])) st1 =
       Some (JsonReply 200 (JObj [(''status'', JStr ''consistent'')]), st2)"
proof -
  have log: "ws_log demo_text (demo_service [text_receipt 4]) ([] @ [text_receipt 4])" "ws_key (demo_service [text_receipt 4]) = demo_key 1"
    using demo_service_ok [of "[text_receipt 4]" 4] by simp_all
  have fresh: "ws_log demo_text (demo_service []) []" "ws_key (demo_service []) = demo_key 1" "ws_signer (demo_service []) = text_signer 1"
    using demo_service_ok [of "[]"] by simp_all
  from demo_head [OF fresh(1,3)] obtain sth where "head_of demo_text (receipt_leaves demo_text []) sth"
    "verify_signed_head demo_text sth (demo_key 1)" "sig_algorithm (sth_signature sth) = Ed25519"
    using fresh(2) by auto
  with served_history_consistent [OF log(1) demo_b64url, of sth "\<lambda>_. ''refused''" Written] log(2) show ?thesis by auto
qed

text \<open>
  C26. Equivocation is caught: sent a head signed by the log's own key, of the size of the
  log and with another root, the gossip handler answers with a conflict that carries the
  two signed heads, both verifying under that key, of one size and with different roots.
\<close>

theorem gossip_detects_equivocation:
  assumes "ws_log P st rs" and "b64url_ok P" and "sig_algorithm (sth_signature peer) = Ed25519"
    and "verify_signed_head P peer (ws_key st)" and "sth_size peer = length rs"
    and "sth_root peer \<noteq> naive_root P (receipt_leaves P rs)"
  shows "\<exists>ours st'. gossip P st (gossip_with P peer pf) =
      Some (Inl (ApiEquivocation
         (JObj [(''status'', JStr ''equivocation''), (''reason'', JStr ''forked_root''),
                (''our_sth'', sth_dto_json (sth_to_dto P ours)), (''peer_sth'', sth_dto_json (sth_to_dto P peer))])), st') \<and>
    ws_log P st' rs \<and> verify_signed_head P ours (ws_key st) \<and> verify_signed_head P peer (ws_key st) \<and>
    sth_size ours = sth_size peer \<and> sth_root ours \<noteq> sth_root peer"
  by (rule gossip_detects_fork [OF assms])

theorem gossip_detects_equivocation_witness:
  "\<exists>ours body st'. gossip demo_text (demo_service [text_receipt 4]) (gossip_with demo_text demo_fork None) =
     Some (Inl (ApiEquivocation body), st') \<and> verify_signed_head demo_text ours (demo_key 1) \<and>
     verify_signed_head demo_text demo_fork (demo_key 1) \<and> sth_root ours \<noteq> sth_root demo_fork"
proof -
  note svc = demo_service_ok [of "[text_receipt 4]" 4, OF insertI2, OF insertI1]
  have fork: "sig_algorithm (sth_signature demo_fork) = Ed25519" "sth_size demo_fork = length [text_receipt 4]"
      "sth_root demo_fork \<noteq> naive_root demo_text (receipt_leaves demo_text [text_receipt 4])"
    using demo_fork_differs by (simp_all add: demo_fork_def)
  have "verify_signed_head demo_text demo_fork (ws_key (demo_service [text_receipt 4]))"
    by (simp add: svc(4) demo_fork_signed)
  from gossip_detects_equivocation [OF svc(1) demo_b64url fork(1) this fork(2,3), of None] show ?thesis
    unfolding svc(4) by blast
qed

text \<open>
  C27. A failed write is not cleaned up: when one byte of a frame reaches the file before
  the write fails, the service answers with an error and goes on; the same receipt
  submitted again is acknowledged with a proof, and after a restart it is gone.
\<close>

theorem torn_write_loses_entry:
  assumes "ws_log P st rs" and "ws_store st = Some (frames P rs)" and "\<forall>r' \<in> set rs. storable P r'"
    and "storable P r" and "0 < length (canonical_bytes P r)" and "length (canonical_bytes P r) < 2 ^ 24"
    and "prev_root r = naive_root P (receipt_leaves P rs)" and "b64url_ok P" and "length rs < 2 ^ 64"
  shows "\<exists>d st1 resp st2 st3. submit P st (to_request P r) (WriteFailed 1 e) = Some (Inl (ApiInternal d), st1) \<and>
    submit P st1 (to_request P r) Written = Some (Inr (201, resp), st2) \<and> ws_log P st2 (rs @ [r]) \<and>
    witness_service_persistent P (ws_signer st) (FileBytes (the (ws_store st2))) None None = Inr st3 \<and> ws_log P st3 rs"
  by (rule retried_submission_lost [OF assms])

theorem torn_write_loses_entry_witness:
  "\<exists>d st1 resp st2 st3.
     submit demo_text (demo_service []) (to_request demo_text (text_receipt 4)) (WriteFailed 1 ''full'') = Some (Inl (ApiInternal d), st1) \<and>
     submit demo_text st1 (to_request demo_text (text_receipt 4)) Written = Some (Inr (201, resp), st2) \<and>
     witness_service_persistent demo_text (text_signer 1) (FileBytes (the (ws_store st2))) None None = Inr st3 \<and>
     ws_log demo_text st3 []"
proof -
  note svc = demo_service_ok [of "[]" 4, OF insertI1]
  have "ws_store (demo_service []) = Some (frames demo_text [])" by (rule svc(2))
  from torn_write_loses_entry [OF svc(1) this _ text_storable [of 4], of "''full''"] text_prev_root [of 4] demo_b64url
  show ?thesis unfolding svc(3) by (auto simp: text_canonical)
qed

text \<open>
  C28. Revocation over HTTP refines a set of ids: every request of a session is answered, and
  a client that holds the operator's key and then fetches a recent snapshot reads from the
  JSON of the reply that an id is revoked exactly when it was before or one of the requests
  revoked it; it remembers the epoch.
\<close>

theorem revocation_reaches_clients:
  assumes "rs_ok P st h" and "\<forall>q \<in> fst ` set qs. refuses_as_client_error q"
    and "operator_key c = rs_key st" and "unat now - unat published \<le> unat (max_staleness c)"
  shows "\<exists>replies st'. revocation_session P rej st qs = Some (replies, st') \<and> length replies = length qs \<and>
    (last_seen_epoch c \<le> rl_epoch (rs_log st') \<longrightarrow>
      (\<exists>reply. revocation_app P rej published (get_request ''/revocations/v1/snapshot'' []) st' = Some (reply, st') \<and>
        snapshot_is_revoked P c (http_fetch (\<lambda>_ _. Inr (snapshot_response malformed reply)) src) now i =
          (Inr (if i \<in> rl_revoked (rs_log st) \<or> (\<exists>q \<in> set qs. revokes P (fst q) = Some i)
                then Revoked ''listed in the signed revocation snapshot'' else Live),
           c\<lparr>last_seen_epoch := rl_epoch (rs_log st')\<rparr>)))"
  by (rule client_reads_requests [OF assms])

theorem revocation_reaches_clients_witness:
  "\<exists>replies st' reply c'.
     revocation_session demo_text (\<lambda>_. ''refused'') (revocation_service_new (text_signer 1))
       [(demo_revoke, 5), (post_request ''/revocations/v2/checkpoint'' JNull, 6)] = Some (replies, st') \<and>
     revocation_app demo_text (\<lambda>_. ''refused'') 7 (get_request ''/revocations/v1/snapshot'' []) st' = Some (reply, st') \<and>
     snapshot_is_revoked demo_text (snapshot_checker_new (demo_key 1) 60)
       (http_fetch (\<lambda>_ _. Inr (snapshot_response (\<lambda>_. ''malformed'') reply)) (http_source_new ''u'')) 8 demo_id =
       (Inr (Revoked ''listed in the signed revocation snapshot''), c')"
proof -
  let ?qs = "[(demo_revoke, 5 :: u64), (post_request ''/revocations/v2/checkpoint'' JNull, 6)]"
  have ok: "rs_ok demo_text (revocation_service_new (text_signer 1)) []" by (rule rs_ok_new [OF text_signer_ok]) simp
  have c: "operator_key (snapshot_checker_new (demo_key 1) 60) = rs_key (revocation_service_new (text_signer 1))"
    by (simp add: snapshot_checker_new_def revocation_service_new_def)
  have ext: "\<forall>q \<in> fst ` set ?qs. refuses_as_client_error q" by (simp add: client_requests)
  have fresh: "unat (8 :: u64) - unat (7 :: u64) \<le> unat (max_staleness (snapshot_checker_new (demo_key 1) 60))"
    "last_seen_epoch (snapshot_checker_new (demo_key 1) 60) = 0"
    by (simp_all add: snapshot_checker_new_def)
  have asked: "\<exists>q \<in> set ?qs. revokes demo_text (fst q) = Some demo_id" using demo_revokes by simp
  from revocation_reaches_clients [OF ok ext c fresh(1), of "\<lambda>_. ''refused''" "\<lambda>_. ''malformed''" "http_source_new ''u''" demo_id]
    asked fresh(2) show ?thesis by (auto simp del: revocation_session.simps)
qed

text \<open>
  C29. The published set is well-formed in every state the revocation service reaches from
  a fresh start: finite, of 32-byte ids, with a reason for exactly the revoked ids and the
  epoch counting them; every snapshot served verifies under the service's key and holds ids
  that are revoked now; and below \<open>2 ^ 64\<close> revocations the epochs served never decrease.
\<close>

theorem published_state_wellformed:
  assumes "signer_ok P sg" and "rs_run P (revocation_service_new sg) sns st"
  shows "rl_ok (rs_log st) \<and>
    (\<forall>sn \<in> set sns. snapshot_verify_signature P sn (sg_public_key sg) \<and> sn_revoked sn \<subseteq> rl_revoked (rs_log st) \<and>
       sn_epoch sn = of_nat (card (sn_revoked sn))) \<and>
    (card (rl_revoked (rs_log st)) < 2 ^ 64 \<longrightarrow> sorted (map sn_epoch sns))"
proof -
  note fresh = rs_ok_new [OF assms(1)]
  have "rs_key (revocation_service_new sg) = sg_public_key sg" by (simp add: revocation_service_new_def)
  with rs_run_ok [OF assms(2) fresh] served_epochs_sorted [OF assms(2) fresh] show ?thesis
    unfolding rs_ok_def by auto
qed

theorem published_state_wellformed_witness:
  "\<exists>sn st. rs_run demo_text (revocation_service_new (text_signer 1)) [sn] st \<and> rl_ok (rs_log st) \<and>
     snapshot_verify_signature demo_text sn (demo_key 1)"
proof -
  let ?st = "revocation_service_new (text_signer 1)"
  from current_snapshot_ok [OF rs_ok_new [OF text_signer_ok], of 1 10] obtain sn where
    "get_snapshot demo_text ?st 10 = Some sn" by (auto simp: get_snapshot_def)
  from rs_run.serve [OF rs_run.start rs_step.snapshot_read [OF this]] have run: "rs_run demo_text ?st [sn] ?st" by simp
  from published_state_wellformed [OF text_signer_ok run] run show ?thesis by auto
qed

text \<open>
  C30. Concurrent revocations: \<^verbatim>\<open>revoke\<close> releases the lock between inserting its id and
  signing the snapshot it answers with. However the threads interleave, each snapshot signed
  counts its set, verifies, and holds the id whose revocation it answers; and in the order of
  signing the sets only grow and, below \<open>2 ^ 64\<close> revocations, the epochs never decrease.
\<close>

theorem revoke_interleavings:
  assumes "signer_ok P sg"
    and "section_run P \<lparr>rt_service = revocation_service_new sg, rt_pending = Map.empty\<rparr> ls s'"
  shows "(\<forall>l \<in> set ls. set_option (fst l) \<subseteq> sn_revoked (snd l) \<and> sn_epoch (snd l) = of_nat (card (sn_revoked (snd l))) \<and>
      snapshot_verify_signature P (snd l) (sg_public_key sg)) \<and>
    sorted_wrt (\<lambda>a b. sn_revoked a \<subseteq> sn_revoked b) (map snd ls) \<and>
    (card (rl_revoked (rs_log (rt_service s'))) < 2 ^ 64 \<longrightarrow> sorted (map (sn_epoch \<circ> snd) ls))"
proof -
  have ok: "threads_ok P \<lparr>rt_service = revocation_service_new sg, rt_pending = Map.empty\<rparr>"
    using assms(1) by (simp add: threads_ok_def revocation_service_new_def rl_ok_def)
  from section_run_ok [OF assms(2) ok] signed_epochs_sorted [OF assms(2) ok] show ?thesis
    by (simp add: revocation_service_new_def)
qed

theorem revoke_interleavings_witness:
  "\<exists>i sn s'. section_run demo_text \<lparr>rt_service = revocation_service_new (text_signer 1), rt_pending = Map.empty\<rparr>
       [(Some i, sn)] s' \<and> i \<in> sn_revoked sn"
proof -
  let ?st = "revocation_service_new (text_signer 1)"
  let ?q = "\<lparr>rr_revocation_id = replicate 32 (char_of (1 :: nat)), rr_reason = ''lost''\<rparr>"
  have sg: "signer_ok demo_text (text_signer 1)" by (rule text_signer_ok) simp
  from handle_revoke_ok [OF rs_ok_new [OF sg], of ?q _ 5] demo_id_hex obtain sn st' where
    "handle_revoke demo_text ?st ?q 5 = Some (Inr (201, sn), st')" by auto
  from revoke_alone [OF this, of Map.empty 0] obtain i where
    run: "section_run demo_text \<lparr>rt_service = ?st, rt_pending = Map.empty\<rparr> [(Some i, sn)] \<lparr>rt_service = st', rt_pending = Map.empty\<rparr>"
    by auto
  from revoke_interleavings [OF sg run] run show ?thesis by auto
qed

text \<open>
  C31. What a restart of the revocation executable costs: an id is revoked with 201; after a
  restart under the same seed the service signs the empty set at epoch 0. A client that saw
  the revocation fails closed with a rollback error; a new client is told that the id is
  live.
\<close>

theorem restart_forgets_revoked:
  assumes "re_seed env = Some h" and "hex_bytes P h = Some (array_bytes seed)" and "ed_good P seed"
    and "addr = (case re_addr env of None \<Rightarrow> ''127.0.0.1:8788'' | Some a \<Rightarrow> a)" and "binds addr"
    and "revocation_id_from_hex P s = Inr i" and "unat now - unat published \<le> unat stale"
  shows "\<exists>st body st1 st2 reply. revocation_main P env rng binds = Some (addr, st) \<and>
    revocation_app P rej t (post_request ''/revocations/v1/revoke''
      (JObj [(''revocation_id'', JStr s), (''reason'', JStr reason)])) st = Some (JsonReply 201 body, st1) \<and>
    i \<in> rl_revoked (rs_log st1) \<and> rl_epoch (rs_log st1) = 1 \<and>
    revocation_main P env rng' binds = Some (addr, st2) \<and>
    revocation_app P rej published (get_request ''/revocations/v1/snapshot'' []) st2 = Some (reply, st2) \<and>
    fst (snapshot_is_revoked P (snapshot_checker_new (rs_key st) stale)
      (http_fetch (\<lambda>_ _. Inr (snapshot_response malformed reply)) src) now i) = Inr Live \<and>
    fst (snapshot_is_revoked P ((snapshot_checker_new (rs_key st) stale)\<lparr>last_seen_epoch := 1\<rparr>)
      (http_fetch (\<lambda>_ _. Inr (snapshot_response malformed reply)) src) now i) =
      Inl (LogUnreachable ''revocation snapshot epoch rolled back'')"
  by (rule restart_forgets_revocations [where binds = binds, OF assms])

theorem restart_forgets_revoked_witness:
  "\<exists>st body st1 reply.
     revocation_main demo_text \<lparr>re_seed = Some (replicate 32 (char_of (1 :: nat))), re_addr = None\<rparr> None (\<lambda>_. True) =
       Some (''127.0.0.1:8788'', st) \<and>
     revocation_app demo_text (\<lambda>_. ''refused'') 5 (post_request ''/revocations/v1/revoke''
       (JObj [(''revocation_id'', JStr (replicate 32 (char_of (1 :: nat)))), (''reason'', JStr ''lost'')])) st =
       Some (JsonReply 201 body, st1) \<and>
     revocation_app demo_text (\<lambda>_. ''refused'') 6 (get_request ''/revocations/v1/snapshot'' []) st = Some (reply, st) \<and>
     fst (snapshot_is_revoked demo_text (snapshot_checker_new (rs_key st) 60)
       (http_fetch (\<lambda>_ _. Inr (snapshot_response (\<lambda>_. ''malformed'') reply)) (http_source_new ''u'')) 7 (RevocationId (replicate 32 1))) = Inr Live"
proof -
  let ?env = "\<lparr>re_seed = Some (replicate 32 (char_of (1 :: nat))), re_addr = None\<rparr>"
  have good: "ed_good demo_text (demo_seed 1)" by (rule demo_text_good) simp
  from restart_forgets_revoked [OF _ demo_seed_hex good _ _ demo_id_hex, of ?env "''127.0.0.1:8788''" "\<lambda>_. True" 7 6 60
      None "\<lambda>_. ''refused''" 5 "''lost''" None "\<lambda>_. ''malformed''" "http_source_new ''u''"] show ?thesis by auto
qed

section \<open>Entry points\<close>

text \<open>
  C32. A session over the sidecar in JSON, from seeds to the verdict: \<^verbatim>\<open>issue\<close>,
  \<^verbatim>\<open>attenuate\<close>, \<^verbatim>\<open>chain_digest\<close>, \<^verbatim>\<open>witness_append\<close>, \<^verbatim>\<open>attest\<close> and \<^verbatim>\<open>composed_verify\<close>, each request
  made of members of the answers before, all succeed, and the last answer is the scope of
  the hop, provided that scope narrows the issued one, the hop has a purpose, and the
  notary's key is not the executor's.
\<close>

theorem sidecar_json_session:
  assumes "hex_ok P" and "ed_good P hs" and "ed_good P ns" and "\<not> trim_is_empty pur" and "narrows s' s"
    and "max_depth s' < max_depth s" and "ed_public P ns \<noteq> ed_public P as" and "Suc (length log) < 2 ^ 64"
  shows "\<exists>r0 r1 r2 r3 r4.
    sidecar_answer P (command ''issue'' [(''seed'', JStr (hex_of P hs)), (''principal'', principal_json who),
      (''scope'', scope_json s)]) = Some r0 \<and>
    sidecar_answer P (command ''attenuate'' [(''chain'', member ''chain'' r0), (''signer_seed'', JStr (hex_of P hs)),
      (''to'', principal_json agent), (''to_seed'', JStr (hex_of P as)), (''scope'', scope_json s'), (''purpose'', JStr pur)]) = Some r1 \<and>
    sidecar_answer P (command ''chain_digest'' [(''chain'', member ''chain'' r1)]) = Some r2 \<and>
    sidecar_answer P (command ''witness_append'' [(''log'', list_json action_receipt_json log), (''chain_digest'', member ''digest'' r2),
      (''action_digest'', JStr (hex_of P ad)), (''nonce'', JStr (hex_of P n)), (''prev_root'', JStr (hex_of P pr))]) = Some r3 \<and>
    sidecar_answer P (command ''attest'' [(''seed'', JStr (hex_of P ns)), (''attester'', principal_json notary),
      (''chain_digest'', member ''digest'' r2), (''requested_action'', JStr (hex_of P ad)), (''outcome'', JStr (hex_of P ad)),
      (''witnessed_root'', member ''root'' r3), (''inclusion_proof'', member ''inclusion_proof'' r3)]) = Some r4 \<and>
    sidecar_answer P (command ''composed_verify'' [(''chain'', member ''chain'' r1), (''root_key'', member ''root_key'' r0),
      (''trusted_root'', member ''root'' r3), (''action_receipt'', member ''receipt'' r3), (''completion'', member ''completion'' r4),
      (''policy'', JObj [(''trusted_attesters'', list_json public_key_json [sg_public_key (ed25519_from_seed P ns)])])]) =
      Some (JObj [(''ok'', JBool True), (''effective_scope'', scope_json s')])"
  by (rule json_session_accepted [OF assms])

theorem sidecar_json_session_witness:
  "\<exists>c k root r a. sidecar_answer demo (command ''composed_verify'' [(''chain'', c), (''root_key'', k), (''trusted_root'', root),
     (''action_receipt'', r), (''completion'', a),
     (''policy'', JObj [(''trusted_attesters'', list_json public_key_json [demo_key 9])])]) =
     Some (JObj [(''ok'', JBool True), (''effective_scope'', scope_json (demo_scope 2))])"
proof -
  have keys: "ed_public demo (demo_seed 9) \<noteq> ed_public demo (demo_seed 2)" by simp
  have depth: "max_depth (demo_scope 2) < max_depth (demo_scope 3)" by simp
  from sidecar_json_session [OF demo_hex_ok demo_ed_good [of 1] demo_ed_good [of 9] demo_purpose(2) demo_narrows depth keys,
      of "[]" demo_principal demo_principal] show ?thesis
    by (simp del: demo_scope_simps) blast
qed

text \<open>
  C33. The same request in the browser build: a \<^verbatim>\<open>composed_verify\<close> request with its policy
  under \<^verbatim>\<open>policy\<close>, which the sidecar accepts with exit status zero, is read without error
  by \<^verbatim>\<open>verify_action\<close> and refused, because the trusted attesters are looked for at the top
  level only.
\<close>

theorem wasm_refuses_policy:
  assumes "j = command ''composed_verify'' (action_members c k root r a @ [(''policy'', policy_json ks)])"
    and "proof_fits (inclusion a)" and "str_trim root = root" and "sidecar_answer P j = Some ans" and "text_parse input = Inr j"
  shows "sidecar_process P text_parse mismatch text (Inr input) = Some (text ans @ [nl], 0) \<and>
    verify_action P (read_wasm_request text_parse mismatch) input =
      JObj [(''error'', JStr (verify_error_string AttesterNotAnchored)), (''ok'', JBool False)]"
  using sidecar_writes_answer [where text_parse = text_parse, OF assms(4,5)]
    wasm_refuses_sidecar_request [where text_parse = text_parse, OF assms] by blast

theorem wasm_refuses_policy_witness:
  "sidecar_process demo (\<lambda>_. Inr demo_composed) (\<lambda>_. ''malformed'') (\<lambda>_. ''answer'') (Inr ''request'') = Some (''answer'' @ [nl], 0) \<and>
   verify_action demo (read_wasm_request (\<lambda>_. Inr demo_composed) (\<lambda>_. ''malformed'')) ''request'' =
     JObj [(''error'', JStr (verify_error_string AttesterNotAnchored)), (''ok'', JBool False)]"
  using wasm_refuses_policy [OF refl demo_proof_fits demo_root_trimmed demo_composed_answer, of "\<lambda>_. Inr demo_composed" "''request''"]
  by simp


text \<open>
  C35. Everything that crosses a process boundary as JSON reads back as it was: chains,
  receipts, attestations, revocation snapshots and status proofs, up to the range of
  \<^verbatim>\<open>usize\<close>; and two chains with the same JSON are the same chain.
\<close>

theorem wire_roundtrip:
  assumes "proof_fits (inclusion a)" and "finite (sn_revoked sn)" and "proof_fits (lp_inclusion p)" and "sth_size (lp_sth p) < 2 ^ 64"
  shows "chain_of_json (chain_json c) = Some c \<and> (chain_json c = chain_json c' \<longleftrightarrow> c = c') \<and>
    receipt_of_json (action_receipt_json r) = Some r \<and> completion_of_json (completion_json a) = Some a \<and>
    snapshot_of_json (snapshot_json sn) = Some sn \<and> log_backed_proof_of_json (log_backed_proof_json p) = Some p"
  using chain_form.dec_enc chain_form.enc_inject receipt_form.dec_enc completion_form.dec_enc [OF assms(1)]
    snapshot_form.dec_enc [OF assms(2)] log_backed_proof_form.dec_enc [of p] assms(3,4)
  by simp

theorem wire_roundtrip_witness:
  "chain_of_json (chain_json demo_chain2) = Some demo_chain2 \<and> chain_json demo_chain2 \<noteq> chain_json demo_chain1 \<and>
   completion_of_json (completion_json (demo_attest 9 5)) = Some (demo_attest 9 5)"
proof -
  let ?sn = "\<lparr>sn_epoch = 1, published_at = 5, sn_revoked = {}, sn_signature = \<lparr>sig_algorithm = Ed25519, sig_bytes = []\<rparr>\<rparr>"
  let ?p = "\<lparr>lp_checkpoint = \<lparr>mc_epoch = 1, mc_map_root = demo_root, mc_prev_log_root = demo_root\<rparr>,
    lp_map_proof = revmap_prove demo revmap_new demo_root, lp_inclusion = demo_proof,
    lp_sth = \<lparr>sth_size = 2, sth_root = demo_root, sth_signature = sn_signature ?sn\<rparr>\<rparr>"
  have apart: "demo_chain2 \<noteq> demo_chain1" using demo_chain1_length demo_chain2_length by auto
  have sn: "finite (sn_revoked ?sn)" and p: "proof_fits (lp_inclusion ?p)" "sth_size (lp_sth ?p) < 2 ^ 64"
    using demo_proof_fits by (simp_all add: demo_attest_inclusion)
  from wire_roundtrip [OF demo_proof_fits sn p, of demo_chain2 demo_chain1] apart show ?thesis by simp
qed





section \<open>Checkpoints\<close>

text \<open>
  C38. Notes round trip: a checkpoint signed as a note reads back as that checkpoint under
  the signer's key, and still does, under both keys, after another key has cosigned it.
\<close>

theorem checkpoint_cosign_roundtrip:
  assumes "base64_ok P" and "origin_ok (cp_origin c)" and "cp_size c < usize_bound"
    and "name_ok log_name" and "ed_good P log_seed" and "name_ok name" and "ed_good P seed"
  shows "\<exists>n n'. sign_checkpoint P (ed25519_from_seed P log_seed) log_name c = Some n \<and>
    verify_checkpoint P n log_name (sg_public_key (ed25519_from_seed P log_seed)) = Some c \<and>
    cosign P n (ed25519_from_seed P seed) name = Some (Some n') \<and>
    verify_checkpoint P n' log_name (sg_public_key (ed25519_from_seed P log_seed)) = Some c \<and>
    verify_checkpoint P n' name (sg_public_key (ed25519_from_seed P seed)) = Some c"
proof -
  obtain n where n: "sign_checkpoint P (ed25519_from_seed P log_seed) log_name c = Some n" "last n = nl"
    "note_split n = Some (checkpoint_body P c, [key_line P (checkpoint_body P c) log_seed log_name])"
    "verify_checkpoint P n log_name (sg_public_key (ed25519_from_seed P log_seed)) = Some c"
    by (rule sign_checkpoint_ok [OF assms(1-5)])
  obtain n' where n': "cosign P n (ed25519_from_seed P seed) name = Some (Some n')"
    by (rule cosign_ok [OF assms(1,6,7) n(3,2)])
  from cosign_keeps [OF assms(1,6,7) n(2,4) n'] n(1,4) n' show ?thesis by blast
qed

theorem checkpoint_cosign_roundtrip_witness:
  "\<exists>n. verify_checkpoint demo_text n ''w'' (demo_key 2) = Some \<lparr>cp_origin = ''log'', cp_size = 3, cp_root = demo_seed 5\<rparr>"
  using checkpoint_cosign_roundtrip [OF demo_base64, of "\<lparr>cp_origin = ''log'', cp_size = 3, cp_root = demo_seed 5\<rparr>"
      "''log''" "demo_seed 1" "''w''" "demo_seed 2"] demo_text_good [of 1] demo_text_good [of 2]
  by (auto simp: origin_ok_def name_ok_def usize_bound_def nl_def strip_cr_def cr_def starts_with_def
      strip_prefix_str_def sig_marker_def)

text \<open>
  C39. A cosigning witness only moves forward: over any sequence of requests the sizes it
  cosigned never decrease, it remembers exactly the last of them, and each non-empty head
  was proved consistent with the next one before that was cosigned.
\<close>

theorem cosigner_append_only:
  assumes "cosigned P w cs"
  shows "sorted (map cp_size cs) \<and> seen_view w = view_after cs \<and>
    (Suc i < length cs \<and> 0 < cp_size (cs ! i) \<longrightarrow>
      (\<exists>pf. verify_consistency P (cp_root (cs ! i)) (cp_root (cs ! Suc i)) pf (cp_size (cs ! i)) (cp_size (cs ! Suc i))))"
  using cosigned_sizes [OF assms] cosigned_inv [OF assms] cosigned_consistent [OF assms] by blast

theorem cosigner_append_only_witness:
  "\<exists>w. cosigned demo_text w [\<lparr>cp_origin = ''log'', cp_size = 3, cp_root = demo_seed 5\<rparr>] \<and> last_size w = 3"
proof -
  let ?c = "\<lparr>cp_origin = ''log'', cp_size = 3, cp_root = demo_seed 5\<rparr>"
  let ?w = "cosigning_witness_new (text_signer 2) ''w'' ''log'' (demo_key 1)"
  have org: "origin_ok (cp_origin ?c)" "name_ok ''log''" "cp_size ?c < usize_bound"
    by (auto simp: origin_ok_def name_ok_def usize_bound_def nl_def strip_cr_def cr_def starts_with_def
        strip_prefix_str_def sig_marker_def)
  have good: "ed_good demo_text (demo_seed 1)" "ed_good demo_text (demo_seed 2)" by (rule demo_text_good; simp)+
  from foreign_origin_cosigned [OF demo_base64 org(1,3,2) good, of "''w''"] obtain n l w' where
    n: "sign_checkpoint demo_text (text_signer 1) ''log'' ?c = Some n"
      "add_checkpoint demo_text ?w n 0 \<lparr>nodes = []\<rparr> = Some (Inr l, w')"
    by auto
  have "verify_checkpoint demo_text n (cw_log_origin ?w) (cw_log_key ?w) = Some ?c"
    using sign_checkpoint_ok [OF demo_base64 org(1,3,2) good(1)] n(1)
    by (simp add: cosigning_witness_new_def) (metis option.inject)
  moreover have "signer_ok demo_text (cw_signer ?w)" using text_signer_ok [of 2] by (simp add: cosigning_witness_new_def)
  ultimately have "cosigned demo_text w' ([] @ [?c])" by (rule cosigned.accept [OF cosigned.fresh _ n(2), rotated])
  with cosigner_append_only [OF this] show ?thesis by (metis append_Nil fst_conv fst_seen_view last.simps
        checkpoint.select_convs(2) not_Cons_self2 view_after_def)
qed

section \<open>Signatures\<close>

text \<open>
  C40. A hybrid signature is accepted exactly when both byte strings are framings of two
  components with pairwise equal algorithms and both component signatures verify.
\<close>

theorem hybrid_requires_both:
  "verify_signature P m \<lparr>sig_algorithm = Hybrid, sig_bytes = sg\<rparr> \<lparr>pk_algorithm = Hybrid, pk_bytes = key\<rparr> = Inr True \<longleftrightarrow>
     hybrid_accepts P m sg key"
  by (simp add: hybrid_verify_accepts_iff)

end
